(* ===== verification/Prelude.thy ===== *)
theory Prelude
  imports Main "HOL-Library.Word" "HOL-Library.Monad_Syntax"
begin

text \<open>
  The C substrate shared by every component: memory blocks as lists of \<^typ>\<open>char\<close>, C strings
  inside them, the string functions of the C library that the sources call, and conversions
  between integer types. A function that can read or write out of bounds returns \<^term>\<open>None\<close> in
  that case; \<^term>\<open>None\<close> therefore always stands for undefined behaviour of the C program, and a
  theorem that an operation returns \<^term>\<open>Some\<close> is a memory-safety theorem.

  A \<open>char *\<close> argument is represented by the characters before its terminating NUL, so it never
  contains NUL itself (\<open>c_string\<close>).
\<close>

named_theorems mem_simps \<open>rewriting of block reads and writes\<close>
named_theorems bind_iff \<open>inversion of option-monad steps\<close>

section \<open>Blocks and C strings\<close>

type_synonym block = "char list"

abbreviation NUL :: char where "NUL \<equiv> CHR 0x00"

text \<open>The content of a byte the program has not written yet. It is a byte no theorem looks at.\<close>

definition uninit :: char where "uninit = CHR 0xCD"

definition c_string :: "char list \<Rightarrow> bool" where
  "c_string s \<longleftrightarrow> NUL \<notin> set s"

definition cstr :: "block \<Rightarrow> char list" where
  "cstr b = takeWhile (\<lambda>c. c \<noteq> NUL) b"

definition c_read :: "block \<Rightarrow> int \<Rightarrow> char option" where
  "c_read b i = (if 0 \<le> i \<and> i < int (length b) then Some (b ! nat i) else None)"

definition c_strlen :: "block \<Rightarrow> int \<Rightarrow> int option" where
  "c_strlen b off =
     (if 0 \<le> off \<and> NUL \<in> set (drop (nat off) b) then Some (int (length (cstr (drop (nat off) b))))
      else None)"

definition mem_write :: "block \<Rightarrow> int \<Rightarrow> char list \<Rightarrow> block option" where
  "mem_write b off bs =
     (if 0 \<le> off \<and> off + int (length bs) \<le> int (length b)
      then Some (take (nat off) b @ bs @ drop (nat off + length bs) b) else None)"

definition mem_set :: "block \<Rightarrow> int \<Rightarrow> char \<Rightarrow> int \<Rightarrow> block option" where
  "mem_set b off c n = (if n < 0 then None else mem_write b off (replicate (nat n) c))"

text \<open>\<open>strncpy (dst, s, n)\<close> writes exactly these \<open>n\<close> characters.\<close>

definition strncpy_bytes :: "char list \<Rightarrow> nat \<Rightarrow> char list" where
  "strncpy_bytes s n = take n s @ replicate (n - length s) NUL"

text \<open>\<open>realloc\<close> keeps the common prefix; what lies beyond the old block is unwritten.\<close>

definition c_realloc :: "block \<Rightarrow> nat \<Rightarrow> block" where
  "c_realloc b n = take n b @ replicate (n - length b) uninit"

text \<open>Conversion of a \<open>size_t\<close> (or any wider value) to a 32-bit \<open>int\<close>.\<close>

definition c_int :: "int \<Rightarrow> int" where
  "c_int n = (n + 2 ^ 31) mod 2 ^ 32 - 2 ^ 31"

abbreviation INT_LIMIT :: int where "INT_LIMIT \<equiv> 2 ^ 31"

lemma c_int_id [simp]: "- INT_LIMIT \<le> n \<Longrightarrow> n < INT_LIMIT \<Longrightarrow> c_int n = n"
  by (simp add: c_int_def)

lemma c_int_nonneg [simp]: "0 \<le> n \<Longrightarrow> n < INT_LIMIT \<Longrightarrow> c_int n = n"
  by (simp add: c_int_def)

text \<open>Conversion of an \<open>int\<close> expression to a 64-bit \<open>size_t\<close>.\<close>

definition c_size :: "int \<Rightarrow> int" where
  "c_size n = n mod 2 ^ 64"

lemma c_size_id [simp]: "0 \<le> n \<Longrightarrow> n < 2 ^ 64 \<Longrightarrow> c_size n = n"
  by (simp add: c_size_def)

text \<open>Position of the first element with a property; the searches of \<open>string.h\<close> on the C
  string at an offset. A search needs the terminating NUL to be inside the block.\<close>

fun first_index :: "('a \<Rightarrow> bool) \<Rightarrow> 'a list \<Rightarrow> nat option" where
  "first_index P [] = None"
| "first_index P (x # xs) = (if P x then Some 0 else map_option Suc (first_index P xs))"

definition c_strpbrk :: "block \<Rightarrow> int \<Rightarrow> char list \<Rightarrow> int option option" where
  "c_strpbrk b off accept = do {
     _ \<leftarrow> c_strlen b off;
     Some (map_option (\<lambda>i. off + int i)
             (first_index (\<lambda>c. c \<in> set accept) (cstr (drop (nat off) b)))) }"

definition c_strchr :: "block \<Rightarrow> int \<Rightarrow> char \<Rightarrow> int option option" where
  "c_strchr b off c = c_strpbrk b off [c]"

fun substr_index :: "char list \<Rightarrow> char list \<Rightarrow> nat option" where
  "substr_index pat [] = (if pat = [] then Some 0 else None)"
| "substr_index pat (c # s) =
     (if take (length pat) (c # s) = pat then Some 0 else map_option Suc (substr_index pat s))"

definition c_strstr :: "block \<Rightarrow> int \<Rightarrow> char list \<Rightarrow> int option option" where
  "c_strstr b off pat = do {
     _ \<leftarrow> c_strlen b off;
     Some (map_option (\<lambda>i. off + int i) (substr_index pat (cstr (drop (nat off) b)))) }"

text \<open>\<open>vsnprintf (b + off, n, ...)\<close> for a call whose complete output is \<open>out\<close>: at most
  \<open>n - 1\<close> characters and a NUL are written, nothing for \<open>n = 0\<close>.\<close>

definition c_vsnprintf :: "block \<Rightarrow> int \<Rightarrow> int \<Rightarrow> char list \<Rightarrow> block option" where
  "c_vsnprintf b off n out =
     (if c_size n = 0 then Some b
      else mem_write b off (take (nat (c_size n) - 1) out @ [NUL]))"

section \<open>Option monad inversion\<close>

lemma bind_Some_iff [bind_iff]:
  "(m \<bind> f) = Some y \<longleftrightarrow> (\<exists>x. m = Some x \<and> f x = Some y)"
  by (cases m) auto

lemma bind_ex_iff [bind_iff]:
  "(\<exists>y. (m \<bind> f) = Some y \<and> P y) \<longleftrightarrow> (\<exists>x. m = Some x \<and> (\<exists>y. f x = Some y \<and> P y))"
  by (cases m) auto

section \<open>Lemmas on blocks\<close>

lemma c_string_Nil [simp]: "c_string []"
  by (simp add: c_string_def)

lemma c_string_Cons [simp]: "c_string (c # s) \<longleftrightarrow> c \<noteq> NUL \<and> c_string s"
  by (auto simp: c_string_def)

lemma c_string_append [simp]: "c_string (s @ t) \<longleftrightarrow> c_string s \<and> c_string t"
  by (auto simp: c_string_def)

lemma c_string_take [intro]: "c_string s \<Longrightarrow> c_string (take n s)"
  by (auto simp: c_string_def dest: in_set_takeD)

lemma c_string_drop [intro]: "c_string s \<Longrightarrow> c_string (drop n s)"
  by (auto simp: c_string_def dest: in_set_dropD)

lemma cstr_string [simp]: "c_string (cstr b)"
  by (auto simp: c_string_def cstr_def dest: set_takeWhileD)

lemma cstr_append_NUL [simp]: "c_string s \<Longrightarrow> cstr (s @ NUL # b) = s"
  by (induction s) (auto simp: cstr_def)

lemma cstr_NUL [simp]: "cstr (NUL # b) = []"
  by (simp add: cstr_def)

lemma cstr_id [simp]: "c_string s \<Longrightarrow> cstr s = s"
  by (auto simp: cstr_def c_string_def takeWhile_eq_all_conv)

lemma cstr_split:
  assumes "NUL \<in> set b"
  shows "\<exists>r. b = cstr b @ NUL # r"
  using assms
proof (induction b)
  case Nil
  then show ?case by simp
next
  case (Cons c b)
  then show ?case by (cases "c = NUL") (auto simp: cstr_def)
qed

lemma length_cstr_less: "NUL \<in> set b \<Longrightarrow> length (cstr b) < length b"
  by (induction b) (auto simp: cstr_def)

lemma length_cstr_le: "length (cstr b) \<le> length b"
  by (simp add: cstr_def length_takeWhile_le)

lemma cstr_take_eq: "n \<le> length (cstr b) \<Longrightarrow> take n b = take n (cstr b)"
  by (induction b arbitrary: n) (auto simp: cstr_def take_Cons split: nat.splits if_splits)

lemma cstr_prefix_take: "take (length (cstr b)) b = cstr b"
  by (simp add: cstr_def takeWhile_eq_take [symmetric])

lemma c_strlen_0 [simp]: "NUL \<in> set b \<Longrightarrow> c_strlen b 0 = Some (int (length (cstr b)))"
  by (simp add: c_strlen_def)

lemma length_c_realloc [simp]: "length (c_realloc b n) = n"
  by (simp add: c_realloc_def)

lemma length_strncpy_bytes [simp]: "length (strncpy_bytes s n) = n"
  by (simp add: strncpy_bytes_def)

lemma mem_write_length:
  "mem_write b off bs = Some b' \<Longrightarrow> length b' = length b"
  by (auto simp: mem_write_def split: if_splits)

lemma mem_write_ok [mem_simps]:
  "n + length bs \<le> length b \<Longrightarrow>
   mem_write b (int n) bs = Some (take n b @ bs @ drop (n + length bs) b)"
  by (auto simp: mem_write_def)

lemma cstr_take_NUL: "c_string s \<Longrightarrow> b = s @ NUL # r \<Longrightarrow> cstr b = s"
  by simp

lemma mem_write_okI:
  "0 \<le> off \<Longrightarrow> off + int (length bs) \<le> int (length b) \<Longrightarrow>
   mem_write b off bs = Some (take (nat off) b @ bs @ drop (nat off + length bs) b)"
  by (simp add: mem_write_def)

text \<open>Two adjacent writes are one.\<close>

lemma mem_write_snoc:
  assumes "mem_write b off (xs @ ys) = Some b'"
  shows "Option.bind (mem_write b (off + int (length xs)) ys) (\<lambda>b1. mem_write b1 off xs) = Some b'"
proof -
  have w: "0 \<le> off" "off + int (length xs) + int (length ys) \<le> int (length b)"
    "b' = take (nat off) b @ xs @ ys @ drop (nat off + length xs + length ys) b"
    using assms by (auto simp: mem_write_def add.assoc split: if_splits)
  have n: "nat (off + int (length xs)) = nat off + length xs" using w(1) by simp
  have l: "nat off + length xs + length ys \<le> length b" using w by linarith
  have "mem_write b (off + int (length xs)) ys
      = Some (take (nat off + length xs) b @ ys @ drop (nat off + length xs + length ys) b)"
    using w n by (simp add: mem_write_def)
  moreover have "mem_write (take (nat off + length xs) b @ ys @ drop (nat off + length xs + length ys) b) off xs
      = Some b'"
    using w l by (simp add: mem_write_def min_def)
  ultimately show ?thesis by simp
qed

text \<open>The bytes of a block after a write.\<close>

lemma mem_write_nth:
  assumes "mem_write b off bs = Some b'" "j < length b"
  shows "b' ! j = (if off \<le> int j \<and> int j < off + int (length bs) then bs ! (j - nat off) else b ! j)"
proof -
  have w: "0 \<le> off" "nat off + length bs \<le> length b"
    "b' = take (nat off) b @ bs @ drop (nat off + length bs) b"
    using assms(1) by (auto simp: mem_write_def nat_le_iff split: if_splits)
  consider "j < nat off" | "nat off \<le> j" "j < nat off + length bs" | "nat off + length bs \<le> j"
    by linarith
  then show ?thesis
  proof cases
    case 1
    with w assms(2) show ?thesis by (auto simp: nth_append)
  next
    case 2
    then have "off \<le> int j" "int j < off + int (length bs)" "j - nat off < length bs" using w by linarith+
    with 2 w assms(2) show ?thesis by (simp add: nth_append)
  next
    case 3
    then have "\<not> int j < off + int (length bs)" "length bs \<le> j - nat off" "nat off \<le> j" using w by linarith+
    moreover have "j - nat off - length bs = j - (nat off + length bs)" by simp
    ultimately show ?thesis
      using w assms(2) 3 by (simp add: nth_append)
  qed
qed

lemma mem_write_field:
  assumes "mem_write b off bs = Some b'"
  shows "take (length bs) (drop (nat off) b') = bs"
  using assms by (auto simp: mem_write_def split: if_splits)

section \<open>Fixed fields of a block\<close>

text \<open>A store inside a block and a field of it, with the rules that move a field read past the stores
  to other fields.\<close>

definition put :: "block \<Rightarrow> nat \<Rightarrow> char list \<Rightarrow> block" where
  "put b off bs = take off b @ bs @ drop (off + length bs) b"

definition fld :: "block \<Rightarrow> nat \<Rightarrow> nat \<Rightarrow> char list" where
  "fld b off n = take n (drop off b)"

lemma mem_write_put [mem_simps]:
  "0 \<le> off \<Longrightarrow> off + int (length bs) \<le> int (length b) \<Longrightarrow> mem_write b off bs = Some (put b (nat off) bs)"
  by (simp add: mem_write_def put_def)

lemma length_put [mem_simps]: "off + length bs \<le> length b \<Longrightarrow> length (put b off bs) = length b"
  by (simp add: put_def)

lemma length_fld: "off + n \<le> length b \<Longrightarrow> length (fld b off n) = n"
  by (simp add: fld_def)

lemma fld_put_same [mem_simps]: "off + length bs \<le> length b \<Longrightarrow> n = length bs \<Longrightarrow> fld (put b off bs) off n = bs"
  by (simp add: put_def fld_def)

lemma fld_put_other [mem_simps]:
  assumes "off + length bs \<le> length b" "off2 + n \<le> off \<or> off + length bs \<le> off2"
  shows "fld (put b off bs) off2 n = fld b off2 n"
proof (cases "off2 + n \<le> off")
  case True
  then show ?thesis using assms(1) by (simp add: put_def fld_def take_drop min_def)
next
  case False
  then have l: "off + length bs \<le> off2" using assms(2) by simp
  then have "drop off2 (put b off bs) = drop (off2 - (off + length bs)) (drop (off + length bs) b)"
    using assms(1) by (simp add: put_def)
  also have "\<dots> = drop off2 b" using l by simp
  finally show ?thesis by (simp add: fld_def)
qed

lemma fld_put_prefix:
  assumes "off + n \<le> length b" "length xs \<le> n"
  shows "fld (put b off xs) off n = xs @ drop (length xs) (fld b off n)"
  using assms by (simp add: put_def fld_def drop_take add.commute)

lemma fld_replicate: "off + n \<le> m \<Longrightarrow> fld (replicate m c) off n = replicate n c"
  by (simp add: fld_def min_def)

lemma mem_set_put [mem_simps]:
  "0 \<le> off \<Longrightarrow> 0 \<le> n \<Longrightarrow> off + n \<le> int (length b) \<Longrightarrow> mem_set b off c n = Some (put b (nat off) (replicate (nat n) c))"
  by (simp add: mem_set_def mem_write_put)

end
