(* ===== verification/Strob.thy ===== *)
theory Strob
  imports Prelude
begin

text \<open>
  The dynamic string object of \<open>swsupplib/strob/strob.c\<close>. \<open>sb_str\<close> is the allocation (\<open>None\<close> is
  the NULL pointer), \<open>sb_reserve\<close> the recorded size of the allocation, \<open>sb_length\<close> the recorded
  length, \<open>sb_tok\<close> the scan position of \<open>strob_strtok\<close> as an offset into the allocation. A
  reallocation sets \<open>sb_tok\<close> to \<open>None\<close>, since the old pointer must not be used any more.
  Every operation returns \<^term>\<open>None\<close> where the C code would leave the allocation.
  Allocation itself is taken to succeed (the code calls \<open>exit (22)\<close> otherwise).
\<close>

section \<open>The object and its operations\<close>

record strob =
  sb_str :: "block option"
  sb_tok :: "int option"
  sb_length :: int
  sb_extra :: int
  sb_reserve :: int
  sb_in_use :: int
  fill_charM :: int

definition STROB_INITLENGTH :: int where "STROB_INITLENGTH = 32"
definition STROB_LENGTHINCR :: int where "STROB_LENGTHINCR = 156"

definition strob_reopen_fill_with :: "strob \<Rightarrow> int \<Rightarrow> int \<Rightarrow> strob option" where
  "strob_reopen_fill_with strb new_length fill_char = (
     let n = (if new_length \<le> 1 then 2 else new_length);
         old = (case sb_str strb of None \<Rightarrow> replicate 2 uninit | Some b \<Rightarrow> b);
         b = c_realloc old (nat n);
         strb = strb\<lparr>sb_str := Some b, sb_tok := None, sb_reserve := c_int n\<rparr>
     in do {
       b \<leftarrow> (if sb_reserve strb > sb_length strb
            then mem_set b (sb_length strb) (char_of fill_char) (sb_reserve strb - sb_length strb)
            else Some b);
       b \<leftarrow> mem_write b (n - 1) [NUL];
       Some (strb\<lparr>sb_str := Some b\<rparr>) })"

definition strob_reopen :: "strob \<Rightarrow> int \<Rightarrow> strob option" where
  "strob_reopen strb new_length = strob_reopen_fill_with strb new_length 0"

definition strob_reopen_if_fill_with :: "strob \<Rightarrow> int \<Rightarrow> int \<Rightarrow> strob option" where
  "strob_reopen_if_fill_with strb reqd_length fill_char =
     (if c_int reqd_length > sb_reserve strb
      then strob_reopen_fill_with strb (c_size (reqd_length + sb_extra strb)) fill_char
      else Some strb)"

definition strob_reopen_if :: "strob \<Rightarrow> int \<Rightarrow> strob option" where
  "strob_reopen_if strb reqd_length =
     (if c_int reqd_length > sb_reserve strb
      then strob_reopen strb (c_size (reqd_length + sb_extra strb))
      else Some strb)"

definition sb_open :: "int \<Rightarrow> strob option" where
  "sb_open initial_size = (
     let initial_size = (if initial_size \<le> 0 then STROB_INITLENGTH else initial_size)
     in strob_reopen \<lparr>sb_str = None, sb_tok = None, sb_length = 0, sb_extra = STROB_LENGTHINCR,
                      sb_reserve = 0, sb_in_use = 1, fill_charM = 0\<rparr> (initial_size + 1))"

definition strob_open :: "int \<Rightarrow> strob option" where
  "strob_open initial_size = sb_open initial_size"

definition strob_release :: "strob \<Rightarrow> block option" where
  "strob_release strb = sb_str strb"

definition strob_set_up :: "strob \<Rightarrow> int \<Rightarrow> strob option" where
  "strob_set_up strb n = do {
     strb \<leftarrow> strob_reopen_if strb (n + 1);
     if n > sb_length strb then do {
       b \<leftarrow> sb_str strb;
       b \<leftarrow> mem_write b n [NUL];
       Some (strb\<lparr>sb_length := n, sb_str := Some b\<rparr>) }
     else Some strb }"

definition strob_set_reserve :: "strob \<Rightarrow> int \<Rightarrow> strob" where
  "strob_set_reserve strb res = strb\<lparr>sb_extra := res\<rparr>"

definition strob_get_str :: "strob \<Rightarrow> block option" where
  "strob_get_str strb = sb_str strb"

definition strob_get_reserve :: "strob \<Rightarrow> int" where
  "strob_get_reserve strb = sb_reserve strb"

definition strob_get_length :: "strob \<Rightarrow> int" where
  "strob_get_length strb = sb_length strb"

definition strob_trunc :: "strob \<Rightarrow> strob option" where
  "strob_trunc strb = strob_reopen strb (STROB_INITLENGTH + 1)"

definition strob_set_memlength :: "strob \<Rightarrow> int \<Rightarrow> strob option" where
  "strob_set_memlength strb len = do {
     strb \<leftarrow> strob_reopen_if strb len;
     Some (strb\<lparr>sb_length := len\<rparr>) }"

definition strob_set_length :: "strob \<Rightarrow> int \<Rightarrow> strob option" where
  "strob_set_length strb len = do {
     strb \<leftarrow> strob_set_memlength strb (len + 1);
     b \<leftarrow> sb_str strb;
     b \<leftarrow> mem_write b len [NUL];
     Some (strb\<lparr>sb_str := Some b\<rparr>) }"

definition strob_strcpy_at_offset :: "strob \<Rightarrow> int \<Rightarrow> string \<Rightarrow> strob option" where
  "strob_strcpy_at_offset strb offset s = do {
     strb \<leftarrow> strob_reopen_if strb (int (length s) + offset + 1);
     b \<leftarrow> sb_str strb;
     b \<leftarrow> mem_write b offset (s @ [NUL]);
     Some (strb\<lparr>sb_length := c_int (offset + int (length s)), sb_str := Some b\<rparr>) }"

definition strob_chr_index :: "strob \<Rightarrow> int \<Rightarrow> int \<Rightarrow> strob option" where
  "strob_chr_index strb index ch = do {
     strb \<leftarrow> strob_reopen_if_fill_with strb (index + 2) (fill_charM strb);
     b \<leftarrow> sb_str strb;
     b \<leftarrow> (if index \<ge> sb_length strb then do {
             b \<leftarrow> mem_set b (sb_length strb) (char_of (fill_charM strb)) (index - sb_length strb + 1);
             mem_write b (index + 1) [NUL] }
          else Some b);
     (b, len) \<leftarrow> (if index > sb_length strb - 1 then do {
             b \<leftarrow> mem_write b (index + 1) [NUL];
             Some (b, index + 1) }
          else Some (b, sb_length strb));
     b \<leftarrow> mem_write b index [char_of ch];
     Some (strb\<lparr>sb_length := len, sb_str := Some b\<rparr>) }"

definition strob_get_char :: "strob \<Rightarrow> int \<Rightarrow> int option" where
  "strob_get_char strb index =
     (if index < 0 then Some (- 1)
      else if index \<ge> sb_length strb then Some (- 1)
      else do { b \<leftarrow> sb_str strb; c \<leftarrow> c_read b index; Some (of_char c) })"

definition strob_strcat_at_offset :: "strob \<Rightarrow> int \<Rightarrow> string \<Rightarrow> strob option" where
  "strob_strcat_at_offset strb offset s = do {
     b \<leftarrow> sb_str strb;
     n \<leftarrow> c_strlen b offset;
     strb \<leftarrow> strob_reopen_if strb (int (length s) + offset + 1 + n);
     b \<leftarrow> sb_str strb;
     n \<leftarrow> c_strlen b offset;
     b \<leftarrow> mem_write b (offset + n) (s @ [NUL]);
     Some (strb\<lparr>sb_length := c_int (offset + int (length s)), sb_str := Some b\<rparr>) }"

subsection \<open>The NUL terminated string interface\<close>

definition strob_strcpy :: "strob \<Rightarrow> string \<Rightarrow> strob option" where
  "strob_strcpy strb s = strob_strcpy_at_offset strb 0 s"

definition strob_strcat :: "strob \<Rightarrow> string \<Rightarrow> strob option" where
  "strob_strcat strb s = do {
     b \<leftarrow> sb_str strb;
     n \<leftarrow> c_strlen b 0;
     strb \<leftarrow> strob_reopen_if strb (n + int (length s) + 1);
     b \<leftarrow> sb_str strb;
     n \<leftarrow> c_strlen b 0;
     b \<leftarrow> mem_write b n (s @ [NUL]);
     Some (strb\<lparr>sb_length := c_int (n + int (length s)), sb_str := Some b\<rparr>) }"

definition strob_cpy :: "strob \<Rightarrow> strob \<Rightarrow> strob option" where
  "strob_cpy s ct = do { b \<leftarrow> sb_str ct; _ \<leftarrow> c_strlen b 0; strob_strcpy_at_offset s 0 (cstr b) }"

definition strob_cat :: "strob \<Rightarrow> strob \<Rightarrow> strob option" where
  "strob_cat s ct = do { b \<leftarrow> sb_str ct; _ \<leftarrow> c_strlen b 0; strob_strcat s (cstr b) }"

definition strob_strlen :: "strob \<Rightarrow> int option" where
  "strob_strlen strb = do { b \<leftarrow> sb_str strb; c_strlen b 0 }"

definition strob_chomp :: "strob \<Rightarrow> strob option" where
  "strob_chomp strb = do {
     b \<leftarrow> sb_str strb;
     p \<leftarrow> c_strchr b 0 (CHR 0x0A);
     b \<leftarrow> (case p of None \<Rightarrow> Some b | Some p \<Rightarrow> mem_write b p [NUL]);
     p \<leftarrow> c_strchr b 0 (CHR 0x0D);
     b \<leftarrow> (case p of None \<Rightarrow> Some b | Some p \<Rightarrow> mem_write b p [NUL]);
     Some (strb\<lparr>sb_str := Some b\<rparr>) }"

definition strob_strncat :: "strob \<Rightarrow> string \<Rightarrow> int \<Rightarrow> strob option" where
  "strob_strncat strb s len = (let ilen = c_int len in do {
     b \<leftarrow> sb_str strb;
     n \<leftarrow> c_strlen b 0;
     strb \<leftarrow> strob_reopen_if strb (n + ilen + 1);
     b \<leftarrow> sb_str strb;
     n \<leftarrow> c_strlen b 0;
     b \<leftarrow> mem_write b n (take (nat (c_size ilen)) s @ [NUL]);
     len' \<leftarrow> c_strlen b 0;
     b \<leftarrow> mem_write b (c_int len') [NUL];
     Some (strb\<lparr>sb_length := c_int len', sb_str := Some b\<rparr>) })"

definition strob_charcat :: "strob \<Rightarrow> int \<Rightarrow> strob option" where
  "strob_charcat strb ch =
     (if ch \<noteq> 0 then strob_strcat strb (cstr [char_of ch])
      else do {
        strb \<leftarrow> strob_strcat strb ''X'';
        b \<leftarrow> sb_str strb;
        n \<leftarrow> c_strlen b 0;
        b \<leftarrow> mem_write b (n - 1) [NUL];
        Some (strb\<lparr>sb_str := Some b\<rparr>) })"

definition strob_strncpy :: "strob \<Rightarrow> string \<Rightarrow> int \<Rightarrow> strob option" where
  "strob_strncpy strb s n = do {
     strb \<leftarrow> strob_reopen_if strb (n + 1);
     b \<leftarrow> sb_str strb;
     b \<leftarrow> mem_write b 0 (strncpy_bytes s (nat (c_size n)));
     b \<leftarrow> mem_write b n [NUL];
     len \<leftarrow> c_strlen b 0;
     Some (strb\<lparr>sb_length := c_int len, sb_str := Some b\<rparr>) }"

definition strob_strchar :: "strob \<Rightarrow> int \<Rightarrow> strob option" where
  "strob_strchar strb index = strob_reopen_if strb (index + 1)"

definition strob_chr :: "strob \<Rightarrow> int \<Rightarrow> strob option" where
  "strob_chr strb ch = do { b \<leftarrow> sb_str strb; n \<leftarrow> c_strlen b 0; strob_chr_index strb n ch }"

definition strob_set_fill_char :: "strob \<Rightarrow> int \<Rightarrow> strob" where
  "strob_set_fill_char strb ch = strb\<lparr>fill_charM := ch\<rparr>"

definition strob_get_fill_char :: "strob \<Rightarrow> int" where
  "strob_get_fill_char strb = fill_charM strb"

subsection \<open>Tokens\<close>

text \<open>The string argument of \<open>strob_strtok\<close>: NULL (continue), the buffer itself, or another string.\<close>

datatype tok_arg = TokNull | TokSelf | TokStr string

partial_function (option) strtok_scan :: "block \<Rightarrow> int \<Rightarrow> string \<Rightarrow> (int \<times> int option) option" where
  "strtok_scan b start delim = do {
     p \<leftarrow> c_strpbrk b start delim;
     if p = Some start then strtok_scan b (start + 1) delim else Some (start, p) }"

partial_function (option) strtok_skip :: "block \<Rightarrow> int \<Rightarrow> string \<Rightarrow> int option" where
  "strtok_skip b m delim = do {
     c \<leftarrow> c_read b m;
     if c \<noteq> NUL \<and> c \<in> set delim then strtok_skip b (m + 1) delim else Some m }"

definition strob_strtok :: "strob \<Rightarrow> tok_arg \<Rightarrow> string \<Rightarrow> (strob \<times> int option) option" where
  "strob_strtok buf s delim = do {
     buf \<leftarrow> (case s of
              TokNull \<Rightarrow> Some buf
            | TokSelf \<Rightarrow> Some (buf\<lparr>sb_tok := Some 0\<rparr>)
            | TokStr s \<Rightarrow> do { buf \<leftarrow> strob_strcpy buf s; Some (buf\<lparr>sb_tok := Some 0\<rparr>) });
     start \<leftarrow> sb_tok buf;
     b \<leftarrow> sb_str buf;
     n \<leftarrow> c_strlen b start;
     if n = 0 then Some (buf, None)
     else do {
       (start, p) \<leftarrow> strtok_scan b start delim;
       (b, p, e, retval) \<leftarrow> (case p of
           Some p \<Rightarrow> do {
             b \<leftarrow> mem_write b p [NUL];
             n \<leftarrow> c_strlen b (p + 1);
             m \<leftarrow> c_strlen b start;
             Some (b, p, p + 1 + n, if m \<noteq> 0 then Some start else None) }
         | None \<Rightarrow> do {
             n \<leftarrow> c_strlen b start;
             Some (b, start + n, start + n, Some start) });
       tok \<leftarrow> (if p < e then strtok_skip b (p + 1) delim else Some e);
       r \<leftarrow> retval;
       n \<leftarrow> c_strlen b r;
       Some (buf\<lparr>sb_str := Some b, sb_tok := Some tok\<rparr>, if n = 0 then None else Some r) } }"

partial_function (option) strstrtok_scan :: "block \<Rightarrow> int \<Rightarrow> string \<Rightarrow> (int \<times> int option) option" where
  "strstrtok_scan b start delim = do {
     p \<leftarrow> c_strstr b start delim;
     if p = Some start then strstrtok_scan b (start + int (length delim)) delim
     else Some (start, p) }"

partial_function (option) strstrtok_skip :: "block \<Rightarrow> int \<Rightarrow> string \<Rightarrow> int option" where
  "strstrtok_skip b m delim = do {
     c \<leftarrow> c_read b m;
     if c = NUL then Some m
     else do {
       p \<leftarrow> c_strstr b m delim;
       if p = Some m then strstrtok_skip b (m + int (length delim)) delim else Some m } }"

definition strob_strstrtok ::
  "strob \<Rightarrow> string option \<Rightarrow> string \<Rightarrow> (strob \<times> int option) option" where
  "strob_strstrtok buf s delim = (let dlen = int (length delim) in do {
     buf \<leftarrow> (case s of
              None \<Rightarrow> Some buf
            | Some s \<Rightarrow> do { buf \<leftarrow> strob_strcpy buf s; Some (buf\<lparr>sb_tok := Some 0\<rparr>) });
     start \<leftarrow> sb_tok buf;
     b \<leftarrow> sb_str buf;
     n \<leftarrow> c_strlen b start;
     if n = 0 then Some (buf, None)
     else do {
       (start, p) \<leftarrow> strstrtok_scan b start delim;
       (b, p, e, retval) \<leftarrow> (case p of
           Some p \<Rightarrow> do {
             b \<leftarrow> mem_write b p [NUL];
             n \<leftarrow> c_strlen b (p + dlen);
             m \<leftarrow> c_strlen b start;
             Some (b, p, p + dlen + n, if m \<noteq> 0 then Some start else None) }
         | None \<Rightarrow> do {
             n \<leftarrow> c_strlen b start;
             Some (b, start + n, start + n, Some start) });
       tok \<leftarrow> (if p < e then strstrtok_skip b (p + dlen) delim else Some e);
       r \<leftarrow> retval;
       n \<leftarrow> c_strlen b r;
       Some (buf\<lparr>sb_str := Some b, sb_tok := Some tok\<rparr>, if n = 0 then None else Some r) } })"

subsection \<open>The binary interface\<close>

definition strob_memcpy_at :: "strob \<Rightarrow> int \<Rightarrow> char list \<Rightarrow> strob option" where
  "strob_memcpy_at strb offset ct = do {
     strb \<leftarrow> strob_set_up strb (c_int (int (length ct)) + c_int offset);
     b \<leftarrow> sb_str strb;
     b \<leftarrow> mem_write b offset ct;
     Some (strb\<lparr>sb_str := Some b\<rparr>) }"

definition strob_memcpy :: "strob \<Rightarrow> char list \<Rightarrow> strob option" where
  "strob_memcpy strb ct = do {
     strb \<leftarrow> strob_set_up strb (c_int (int (length ct)));
     b \<leftarrow> sb_str strb;
     b \<leftarrow> mem_write b 0 ct;
     Some (strb\<lparr>sb_str := Some b\<rparr>) }"

definition strob_append_hidden_null :: "strob \<Rightarrow> strob option" where
  "strob_append_hidden_null strb = do {
     strb \<leftarrow> strob_set_up strb (sb_length strb + 1);
     b \<leftarrow> sb_str strb;
     b \<leftarrow> mem_write b (sb_length strb) [NUL];
     Some (strb\<lparr>sb_str := Some b\<rparr>) }"

definition strob_memmove_to :: "strob \<Rightarrow> int \<Rightarrow> char list \<Rightarrow> strob option" where
  "strob_memmove_to strb dst_offset ct = do {
     strb \<leftarrow> strob_set_up strb (c_int (dst_offset + int (length ct)));
     b \<leftarrow> sb_str strb;
     b \<leftarrow> mem_write b dst_offset ct;
     Some (strb\<lparr>sb_str := Some b\<rparr>) }"

definition strob_memmove :: "strob \<Rightarrow> char list \<Rightarrow> strob option" where
  "strob_memmove strb ct = strob_memmove_to strb 0 ct"

definition strob_memcat :: "strob \<Rightarrow> char list \<Rightarrow> strob option" where
  "strob_memcat strb ct = strob_memmove_to strb (sb_length strb) ct"

definition strob_memset :: "strob \<Rightarrow> int \<Rightarrow> int \<Rightarrow> strob option" where
  "strob_memset strb c n = do {
     strb \<leftarrow> strob_set_up strb (c_int n);
     b \<leftarrow> sb_str strb;
     b \<leftarrow> mem_set b 0 (char_of c) n;
     Some (strb\<lparr>sb_str := Some b\<rparr>) }"

subsection \<open>Formatted output\<close>

text \<open>
  \<open>out\<close> is the complete text the format and its arguments produce. The loop retries with a
  larger buffer until \<open>vsnprintf\<close> did not truncate; \<open>oldend\<close> is where the previous, truncated
  attempt began.
\<close>

definition rewind_oldend :: "strob \<Rightarrow> int option \<Rightarrow> strob option" where
  "rewind_oldend sb oldend = (case oldend of
     None \<Rightarrow> Some sb
   | Some p \<Rightarrow> do { b \<leftarrow> sb_str sb; b \<leftarrow> mem_write b p [NUL]; Some (sb\<lparr>sb_str := Some b\<rparr>) })"

partial_function (option) strob_vsprintf_loop ::
  "strob \<Rightarrow> bool \<Rightarrow> string \<Rightarrow> int \<Rightarrow> int option \<Rightarrow> (strob \<times> int) option" where
  "strob_vsprintf_loop sb do_append out added_amount oldend = do {
     sb \<leftarrow> rewind_oldend sb oldend;
     sb \<leftarrow> strob_set_memlength sb (sb_reserve sb + added_amount);
     b \<leftarrow> sb_str sb;
     start \<leftarrow> (if do_append then c_strlen b 0 else Some 0);
     b \<leftarrow> c_vsnprintf b start (sb_reserve sb - start) out;
     if int (length out) \<ge> sb_reserve sb - start
     then strob_vsprintf_loop (sb\<lparr>sb_str := Some b\<rparr>) do_append out (added_amount + 128) (Some start)
     else Some (sb\<lparr>sb_str := Some b\<rparr>, int (length out)) }"

definition strob_vsprintf :: "strob \<Rightarrow> bool \<Rightarrow> string \<Rightarrow> (strob \<times> int) option" where
  "strob_vsprintf sb do_append out = strob_vsprintf_loop sb do_append out 0 None"

partial_function (option) strob_vsprintf_at_loop ::
  "strob \<Rightarrow> int \<Rightarrow> string \<Rightarrow> int \<Rightarrow> int option \<Rightarrow> (strob \<times> int) option" where
  "strob_vsprintf_at_loop sb at_offset out added_amount oldend = do {
     sb \<leftarrow> rewind_oldend sb oldend;
     sb \<leftarrow> strob_set_memlength sb (sb_reserve sb + added_amount);
     b \<leftarrow> sb_str sb;
     b \<leftarrow> c_vsnprintf b at_offset (sb_reserve sb - at_offset) out;
     if int (length out) \<ge> sb_reserve sb - at_offset
     then strob_vsprintf_at_loop (sb\<lparr>sb_str := Some b\<rparr>) at_offset out (added_amount + 128) (Some at_offset)
     else Some (sb\<lparr>sb_str := Some b\<rparr>, int (length out)) }"

definition strob_vsprintf_at :: "strob \<Rightarrow> int \<Rightarrow> string \<Rightarrow> (strob \<times> int) option" where
  "strob_vsprintf_at sb at_offset out = do {
     sb \<leftarrow> (if at_offset > strob_get_reserve sb then strob_set_memlength sb (at_offset + 128)
           else Some sb);
     strob_vsprintf_at_loop sb at_offset out 0 None }"

definition strob_sprintf :: "strob \<Rightarrow> bool \<Rightarrow> string \<Rightarrow> (strob \<times> int) option" where
  "strob_sprintf sb do_append out = strob_vsprintf sb do_append out"

definition strob_sprintf_at :: "strob \<Rightarrow> int \<Rightarrow> string \<Rightarrow> (strob \<times> int) option" where
  "strob_sprintf_at sb at_offset out = strob_vsprintf_at sb at_offset out"

definition strob_snprintf :: "strob \<Rightarrow> bool \<Rightarrow> int \<Rightarrow> string \<Rightarrow> (strob \<times> int) option" where
  "strob_snprintf sb do_append len out =
     (if len \<le> 0 then Some (sb, c_int len)
      else do {
        old_len \<leftarrow> (if do_append then strob_strlen sb else Some 0);
        (sb, ret) \<leftarrow> strob_vsprintf sb do_append out;
        sb \<leftarrow> strob_chr_index sb (old_len + len - 1) 0;
        Some (sb, ret) })"

section \<open>Invariant and abstraction\<close>

text \<open>
  \<open>strob_wf\<close> is the memory invariant: the recorded size is the size of the allocation, its last
  byte is NUL, and the recorded length is inside it. \<open>strob_content\<close> is the C string held by the
  object. \<open>strob_sync\<close> says that the recorded length covers the C string, which is what a growing
  reallocation needs in order to keep it. \<open>strob_room\<close> bounds a request so that the \<open>int\<close> fields
  do not overflow.
\<close>

definition strob_wf :: "strob \<Rightarrow> bool" where
  "strob_wf s \<longleftrightarrow> (case sb_str s of None \<Rightarrow> False | Some b \<Rightarrow>
     int (length b) = sb_reserve s \<and> 2 \<le> sb_reserve s \<and> last b = NUL \<and>
     0 \<le> sb_length s \<and> sb_length s \<le> sb_reserve s \<and> 0 \<le> sb_extra s)"

definition strob_content :: "strob \<Rightarrow> string" where
  "strob_content s = (case sb_str s of None \<Rightarrow> [] | Some b \<Rightarrow> cstr b)"

definition strob_sync :: "strob \<Rightarrow> bool" where
  "strob_sync s \<longleftrightarrow> int (length (strob_content s)) \<le> sb_length s"

definition strob_room :: "strob \<Rightarrow> int \<Rightarrow> bool" where
  "strob_room s n \<longleftrightarrow> 0 \<le> n \<and> n + sb_extra s < INT_LIMIT"

lemma strob_wfI:
  "\<lbrakk> sb_str s = Some b; int (length b) = sb_reserve s; 2 \<le> sb_reserve s; last b = NUL;
     0 \<le> sb_length s; sb_length s \<le> sb_reserve s; 0 \<le> sb_extra s \<rbrakk> \<Longrightarrow> strob_wf s"
  by (simp add: strob_wf_def)

lemma strob_wfE:
  assumes "strob_wf s"
  obtains b where "sb_str s = Some b" "int (length b) = sb_reserve s" "2 \<le> sb_reserve s"
    "last b = NUL" "NUL \<in> set b" "b \<noteq> []" "0 \<le> sb_length s" "sb_length s \<le> sb_reserve s"
    "0 \<le> sb_extra s" "strob_content s = cstr b"
proof -
  from assms obtain b where b: "sb_str s = Some b" "int (length b) = sb_reserve s"
    "2 \<le> sb_reserve s" "last b = NUL" "0 \<le> sb_length s" "sb_length s \<le> sb_reserve s" "0 \<le> sb_extra s"
    by (auto simp: strob_wf_def split: option.splits)
  then have "b \<noteq> []" by auto
  with b have "NUL \<in> set b" by (metis last_in_set)
  with b \<open>b \<noteq> []\<close> show thesis by (intro that) (auto simp: strob_content_def)
qed

lemma c_string_content [simp]: "c_string (strob_content s)"
  by (simp add: strob_content_def split: option.splits)

lemma last_write:
  assumes "mem_write b off bs = Some b'" "last b = NUL" "bs = [] \<or> last bs = NUL"
  shows "last b' = NUL"
  using assms
  by (auto simp: mem_write_def last_append last_drop split: if_splits)

lemma last_write_inside:
  assumes "mem_write b off bs = Some b'" "last b = NUL" "off + int (length bs) < int (length b)"
  shows "last b' = NUL"
  using assms
  by (auto simp: mem_write_def last_append last_drop split: if_splits)

text \<open>A growing reallocation in closed form: the bytes below the recorded length are kept, the
  rest is filled and the last byte is NUL.\<close>

lemma strob_reopen_fill_with_grow:
  assumes wf: "strob_wf s" and b: "sb_str s = Some b" and n: "sb_reserve s < n" "n < INT_LIMIT"
  shows "strob_reopen_fill_with s n f =
    Some (s\<lparr>sb_str := Some (take (nat (sb_length s)) b
                 @ replicate (nat (n - sb_length s - 1)) (char_of f) @ [NUL]),
            sb_tok := None, sb_reserve := n\<rparr>)"
proof -
  let ?L = "nat (sb_length s)"
  from wf b have w: "int (length b) = sb_reserve s" "2 \<le> sb_reserve s" "0 \<le> sb_length s"
    "sb_length s \<le> sb_reserve s"
    by (auto simp: strob_wf_def)
  have L: "?L \<le> length b" "?L < nat n" using w n by auto
  have set: "mem_set (c_realloc b (nat n)) (sb_length s) (char_of f) (n - sb_length s)
      = Some (take ?L b @ replicate (nat (n - sb_length s)) (char_of f))"
    using w n L by (simp add: mem_set_def mem_write_def c_realloc_def min_def nat_diff_distrib)
  have "nat (n - sb_length s) = Suc (nat (n - sb_length s - 1))" using w n by simp
  then have rep: "replicate (nat (n - sb_length s)) (char_of f :: char)
      = replicate (nat (n - sb_length s - 1)) (char_of f) @ [char_of f]"
    by (simp add: replicate_append_same)
  have wr: "mem_write (take ?L b @ replicate (nat (n - sb_length s)) (char_of f)) (n - 1) [NUL]
      = Some (take ?L b @ replicate (nat (n - sb_length s - 1)) (char_of f) @ [NUL])"
    unfolding rep using w n L
    by (auto simp: mem_write_def min_def nat_diff_distrib take_append)
  have "c_int n = n" "\<not> n \<le> 1" using w n by simp_all
  with set wr w n b show ?thesis
    by (simp add: strob_reopen_fill_with_def Let_def)
qed

lemma take_write_prefix: "n \<le> length b \<Longrightarrow> take n (take n b @ xs) = take n b"
  by simp

text \<open>What a request for \<open>n\<close> bytes guarantees: the object stays well formed, has at least \<open>n\<close>
  bytes, keeps the bytes below the recorded length and, if the recorded length covers it, the
  C string.\<close>

lemma strob_reopen_if_fill_ok:
  assumes wf: "strob_wf s" and room: "strob_room s n" and b: "sb_str s = Some b"
  obtains s' b' where "strob_reopen_if_fill_with s n f = Some s'" "sb_str s' = Some b'" "strob_wf s'"
    "n \<le> sb_reserve s'" "sb_length s' = sb_length s" "sb_extra s' = sb_extra s"
    "fill_charM s' = fill_charM s" "sb_reserve s \<le> sb_reserve s'"
    "sb_reserve s' \<le> max (sb_reserve s) (n + sb_extra s)"
    "take (nat (sb_length s)) b' = take (nat (sb_length s)) b"
    "strob_sync s \<Longrightarrow> f = 0 \<Longrightarrow> cstr b' = cstr b"
proof -
  from wf b have w: "int (length b) = sb_reserve s" "2 \<le> sb_reserve s" "0 \<le> sb_length s"
    "sb_length s \<le> sb_reserve s" "0 \<le> sb_extra s" "strob_content s = cstr b" "NUL \<in> set b"
    by (auto elim!: strob_wfE)
  from room have r: "0 \<le> n" "n + sb_extra s < INT_LIMIT" by (auto simp: strob_room_def)
  show thesis
  proof (cases "n > sb_reserve s")
    case False
    with r w b wf show thesis
      by (intro that [of s b]) (auto simp: strob_reopen_if_fill_with_def)
  next
    case True
    let ?L = "nat (sb_length s)" and ?n = "n + sb_extra s"
    let ?b = "take ?L b @ replicate (nat (?n - sb_length s - 1)) (char_of f) @ [NUL]"
    let ?s = "s\<lparr>sb_str := Some ?b, sb_tok := None, sb_reserve := ?n\<rparr>"
    have eq: "strob_reopen_if_fill_with s n f = Some ?s"
      using True r w strob_reopen_fill_with_grow [OF wf b, of ?n f]
      by (simp add: strob_reopen_if_fill_with_def)
    have wf': "strob_wf ?s"
      using True w by (auto simp: strob_wf_def)
    have keep: "cstr ?b = cstr b" if "strob_sync s" "f = 0"
    proof -
      from that w have len: "length (cstr b) \<le> ?L" by (simp add: strob_sync_def)
      obtain rest where rest: "b = cstr b @ NUL # rest" using cstr_split w by blast
      have "take ?L b = cstr b @ take (?L - length (cstr b)) (NUL # rest)"
        using len by (subst rest) simp
      moreover have "(char_of (0::int) :: char) = NUL" by (simp add: char_of_def)
      ultimately show ?thesis
        using that len
        by (cases "?L - length (cstr b)"; cases "nat (?n - sb_length s - 1)") auto
    qed
    show thesis
      by (rule that [of ?s ?b]) (use eq wf' True w keep in auto)
  qed
qed

lemma strob_reopen_if_fill0: "strob_reopen_if s n = strob_reopen_if_fill_with s n 0"
  by (simp add: strob_reopen_if_def strob_reopen_if_fill_with_def strob_reopen_def)

lemmas strob_reopen_if_ok = strob_reopen_if_fill_ok [where f = 0, folded strob_reopen_if_fill0]

section \<open>Functional correctness of the string interface\<close>

text \<open>Writing a NUL terminated string into a block: the resulting C string when the write begins
  inside the C string that was there.\<close>

lemma cstr_write:
  assumes "off \<le> length (cstr b)" "c_string s" "off + length s + 1 \<le> length b"
  shows "cstr (take off b @ (s @ [NUL]) @ drop (off + length s + 1) b) = take off (cstr b) @ s"
proof -
  have "take off b = take off (cstr b)" using assms(1) by (rule cstr_take_eq)
  moreover have "c_string (take off (cstr b) @ s)" using assms(2) by auto
  ultimately show ?thesis
    using cstr_append_NUL [of "take off (cstr b) @ s"] by simp
qed

text \<open>A post-state of a string operation: well formed, covered, and with the expected content.\<close>

definition strob_holds :: "strob \<Rightarrow> string \<Rightarrow> bool" where
  "strob_holds s c \<longleftrightarrow> strob_wf s \<and> strob_sync s \<and> strob_content s = c"

lemma strob_write_string:
  assumes wf: "strob_wf s" and b: "sb_str s = Some b" and off: "0 \<le> off" "off \<le> int (length (cstr b))"
    and str: "c_string str" and fits: "off + int (length str) + 1 \<le> sb_reserve s"
    and lim: "off + int (length str) < INT_LIMIT"
  obtains b' where "mem_write b off (str @ [NUL]) = Some b'"
    "strob_holds (s\<lparr>sb_length := c_int (off + int (length str)), sb_str := Some b'\<rparr>)
       (take (nat off) (strob_content s) @ str)"
    "length b' = length b"
proof -
  from wf b have w: "int (length b) = sb_reserve s" "2 \<le> sb_reserve s" "last b = NUL"
     "0 \<le> sb_extra s" "strob_content s = cstr b"
    by (auto elim!: strob_wfE)
  let ?b = "take (nat off) b @ (str @ [NUL]) @ drop (nat off + length (str @ [NUL])) b"
  have wr: "mem_write b off (str @ [NUL]) = Some ?b"
    using off fits w by (intro mem_write_okI) auto
  have c: "cstr ?b = take (nat off) (cstr b) @ str"
    using cstr_write [of "nat off" b str] off str fits w by simp
  have l: "last ?b = NUL" using last_write [OF wr] w by simp
  have len: "length ?b = length b" using mem_write_length [OF wr] .
  have cl: "length (take (nat off) (cstr b) @ str) = nat off + length str" using off by simp
  let ?s = "s\<lparr>sb_length := c_int (off + int (length str)), sb_str := Some ?b\<rparr>"
  have "strob_wf ?s"
    using w off fits lim l len by (intro strob_wfI [of _ ?b]) auto
  moreover have "strob_content ?s = take (nat off) (cstr b) @ str"
    using c by (simp add: strob_content_def)
  ultimately have "strob_holds ?s (take (nat off) (strob_content s) @ str)"
    using cl off lim w by (simp add: strob_holds_def strob_sync_def del: length_append length_take)
  then show thesis using wr len by (intro that)
qed

definition empty_strob :: "int \<Rightarrow> strob" where
  "empty_strob m = \<lparr>sb_str = Some (replicate (nat m) NUL), sb_tok = None, sb_length = 0,
     sb_extra = STROB_LENGTHINCR, sb_reserve = m, sb_in_use = 1, fill_charM = 0\<rparr>"

lemma strob_open_eq:
  assumes "n < INT_LIMIT - 1"
  shows "strob_open n = Some (empty_strob ((if n \<le> 0 then STROB_INITLENGTH else n) + 1))"
proof -
  define m where "m = (if n \<le> 0 then STROB_INITLENGTH else n) + 1"
  have m: "2 \<le> m" "m < INT_LIMIT" using assms by (auto simp: m_def STROB_INITLENGTH_def)
  have z: "(char_of (0::int) :: char) = NUL" by (simp add: char_of_def)
  have set: "mem_set (c_realloc (replicate 2 uninit) (nat m)) 0 NUL m = Some (replicate (nat m) NUL)"
    using m by (simp add: mem_set_def mem_write_def)
  have wr: "mem_write (replicate (nat m) NUL) (m - 1) [NUL] = Some (replicate (nat m) NUL)"
  proof -
    have "nat m = Suc (nat (m - 1))" using m by simp
    then have "replicate (nat (m - 1)) NUL @ [NUL] = replicate (nat m) NUL"
      by (simp add: replicate_append_same)
    then show ?thesis using m by (simp add: mem_write_def)
  qed
  have "strob_open n = strob_reopen \<lparr>sb_str = None, sb_tok = None, sb_length = 0,
      sb_extra = STROB_LENGTHINCR, sb_reserve = 0, sb_in_use = 1, fill_charM = 0\<rparr> m"
    by (simp add: strob_open_def sb_open_def m_def Let_def)
  then show ?thesis
    unfolding m_def [symmetric]
    using m set wr z by (simp add: strob_reopen_def strob_reopen_fill_with_def empty_strob_def Let_def)
qed

lemma empty_strob_holds:
  assumes "2 \<le> m"
  shows "strob_holds (empty_strob m) []"
  using assms by (cases "nat m")
    (auto simp: strob_holds_def strob_wf_def strob_sync_def strob_content_def STROB_LENGTHINCR_def empty_strob_def)

lemma strob_open_holds:
  assumes "n < INT_LIMIT - 1"
  shows "\<exists>s. strob_open n = Some s \<and> strob_holds s [] \<and> sb_extra s = STROB_LENGTHINCR"
  using strob_open_eq [OF assms] empty_strob_holds [of "(if n \<le> 0 then STROB_INITLENGTH else n) + 1"]
  by (auto simp: STROB_INITLENGTH_def empty_strob_def split: if_splits)

lemma strob_strcpy_holds:
  assumes "strob_wf s" "c_string str" "strob_room s (int (length str) + 1)"
  shows "\<exists>s'. strob_strcpy s str = Some s' \<and> strob_holds s' str \<and> sb_extra s' = sb_extra s"
proof -
  from assms(1) obtain b where b: "sb_str s = Some b" by (elim strob_wfE)
  obtain s1 b1 where s1: "strob_reopen_if s (int (length str) + 1) = Some s1" "sb_str s1 = Some b1"
    "strob_wf s1" "int (length str) + 1 \<le> sb_reserve s1" "sb_extra s1 = sb_extra s"
    by (rule strob_reopen_if_ok [OF assms(1,3) b])
  have "int (length str) < INT_LIMIT"
    using assms(1,3) by (auto simp: strob_room_def elim!: strob_wfE)
  then obtain b2 where "mem_write b1 0 (str @ [NUL]) = Some b2"
    "strob_holds (s1\<lparr>sb_length := c_int (int (length str)), sb_str := Some b2\<rparr>) str"
    using strob_write_string [OF s1(3,2), of 0 str] assms(2) s1(4) by auto
  with s1 show ?thesis
    by (auto simp: strob_strcpy_def strob_strcpy_at_offset_def)
qed

lemma strob_strcat_holds:
  assumes "strob_holds s c" "c_string str" "strob_room s (int (length c) + int (length str) + 1)"
  shows "\<exists>s'. strob_strcat s str = Some s' \<and> strob_holds s' (c @ str) \<and> sb_extra s' = sb_extra s"
proof -
  from assms(1) have wf: "strob_wf s" and sy: "strob_sync s" and c: "strob_content s = c"
    by (auto simp: strob_holds_def)
  from wf obtain b where b: "sb_str s = Some b" "NUL \<in> set b" "strob_content s = cstr b"
    by (elim strob_wfE)
  let ?n = "int (length c) + int (length str) + 1"
  obtain s1 b1 where s1: "strob_reopen_if s ?n = Some s1" "sb_str s1 = Some b1"
    "strob_wf s1" "?n \<le> sb_reserve s1" "sb_extra s1 = sb_extra s" "cstr b1 = cstr b"
    using strob_reopen_if_ok [OF wf assms(3) b(1)] sy by metis
  from s1(2,3) have nul: "NUL \<in> set b1" "strob_content s1 = cstr b1" by (auto elim!: strob_wfE)
  have "int (length c) + int (length str) < INT_LIMIT"
    using wf assms(3) by (auto simp: strob_room_def elim!: strob_wfE)
  then obtain b2 where "mem_write b1 (int (length c)) (str @ [NUL]) = Some b2"
    "strob_holds (s1\<lparr>sb_length := c_int (int (length c) + int (length str)), sb_str := Some b2\<rparr>) (c @ str)"
    using strob_write_string [OF s1(3,2), of "int (length c)" str] assms(2) s1 b c nul by auto
  with s1 b c nul show ?thesis
    by (auto simp: strob_strcat_def)
qed

lemma mem_write_single:
  "0 \<le> i \<Longrightarrow> i < int (length b) \<Longrightarrow> mem_write b i [x] = Some (b[nat i := x])"
  by (simp add: mem_write_def upd_conv_take_nth_drop nat_less_iff)

lemma mem_write_strlen:
  assumes "NUL \<in> set b"
  shows "mem_write b (int (length (cstr b))) [NUL] = Some b"
proof -
  obtain r where r: "b = cstr b @ NUL # r" using cstr_split assms by blast
  have "b[length (cstr b) := NUL] = b"
    by (metis list_update_id nth_append_length r)
  then show ?thesis
    using length_cstr_less [OF assms] by (simp add: mem_write_single)
qed

lemma strob_strncat_holds:
  assumes "strob_holds s c" "c_string str" "0 \<le> n" "strob_room s (int (length c) + n + 1)"
  shows "\<exists>s'. strob_strncat s str n = Some s' \<and> strob_holds s' (c @ take (nat n) str) \<and> sb_extra s' = sb_extra s"
proof -
  from assms(1) have wf: "strob_wf s" and sy: "strob_sync s" and c: "strob_content s = c"
    by (auto simp: strob_holds_def)
  from wf obtain b where b: "sb_str s = Some b" "NUL \<in> set b" "strob_content s = cstr b" "0 \<le> sb_extra s"
    by (elim strob_wfE)
  let ?n = "int (length c) + n + 1" and ?t = "take (nat n) str"
  have n: "n < INT_LIMIT" "?n < INT_LIMIT" using assms(4) b(4) by (auto simp: strob_room_def)
  obtain s1 b1 where s1: "strob_reopen_if s ?n = Some s1" "sb_str s1 = Some b1"
    "strob_wf s1" "?n \<le> sb_reserve s1" "cstr b1 = cstr b" "sb_extra s1 = sb_extra s"
    using strob_reopen_if_ok [OF wf assms(4) b(1)] sy by metis
  from s1(2,3) have nul: "NUL \<in> set b1" "strob_content s1 = cstr b1" by (auto elim!: strob_wfE)
  have t: "c_string ?t" "int (length ?t) \<le> n" using assms(2,3) by auto
  then have lim: "int (length c) + int (length ?t) < INT_LIMIT" using n by simp
  then obtain b2 where b2: "mem_write b1 (int (length c)) (?t @ [NUL]) = Some b2"
    "strob_holds (s1\<lparr>sb_length := c_int (int (length c) + int (length ?t)), sb_str := Some b2\<rparr>) (c @ ?t)"
    using strob_write_string [OF s1(3,2), of "int (length c)" ?t] t s1 b c nul by auto
  then have b2': "NUL \<in> set b2" "cstr b2 = c @ ?t"
    by (auto simp: strob_holds_def strob_content_def elim!: strob_wfE)
  have "c_strlen b2 0 = Some (int (length c) + int (length ?t))"
    and "mem_write b2 (int (length c) + int (length ?t)) [NUL] = Some b2"
    using mem_write_strlen [OF b2'(1)] b2' by simp_all
  then show ?thesis
    using s1 b c nul b2 lim n assms(3) by (simp add: strob_strncat_def)
qed

lemma strob_strncpy_holds:
  assumes "strob_wf s" "c_string str" "0 \<le> n" "strob_room s (n + 1)"
  shows "\<exists>s'. strob_strncpy s str n = Some s' \<and> strob_holds s' (take (nat n) str) \<and> sb_extra s' = sb_extra s"
proof -
  from assms(1) obtain b where b: "sb_str s = Some b" "0 \<le> sb_extra s" by (elim strob_wfE)
  have n: "n < INT_LIMIT" using assms(4) b(2) by (auto simp: strob_room_def)
  obtain s1 b1 where s1: "strob_reopen_if s (n + 1) = Some s1" "sb_str s1 = Some b1"
    "strob_wf s1" "n + 1 \<le> sb_reserve s1" "sb_extra s1 = sb_extra s"
    by (rule strob_reopen_if_ok [OF assms(1,4) b(1)])
  from s1(2,3) have w: "int (length b1) = sb_reserve s1" "last b1 = NUL" by (auto elim!: strob_wfE)
  let ?k = "nat n"
  let ?b = "strncpy_bytes str ?k @ [NUL] @ drop (Suc ?k) b1"
  have w1: "mem_write b1 0 (strncpy_bytes str ?k) = Some (strncpy_bytes str ?k @ drop ?k b1)"
    using s1(4) w assms(3) by (subst mem_write_okI) auto
  have w2: "mem_write (strncpy_bytes str ?k @ drop ?k b1) n [NUL] = Some ?b"
    using s1(4) w assms(3) by (subst mem_write_okI) auto
  have c: "cstr ?b = take ?k str"
    using assms(2) by (cases "?k - length str") (auto simp: strncpy_bytes_def c_string_take)
  have len: "length ?b = length b1" using s1(4) w(1) assms(3) by simp
  have l: "last ?b = NUL" using w(2) by (auto simp: last_append last_drop)
  let ?s = "s1\<lparr>sb_length := int (length (take ?k str)), sb_str := Some ?b\<rparr>"
  have "strob_holds ?s (take ?k str)"
    using s1(3,4) w c l len assms(3) unfolding strob_holds_def
    by (intro conjI strob_wfI [of _ ?b]) (auto simp: strob_sync_def strob_content_def elim!: strob_wfE)
  moreover have "c_strlen ?b 0 = Some (int (length (take ?k str)))"
    using c by (simp add: c_strlen_def)
  moreover have "c_int (int (length (take ?k str))) = int (length (take ?k str))"
    using n assms(3) by (intro c_int_id) auto
  ultimately show ?thesis
    using s1 w1 w2 n assms(3) by (auto simp: strob_strncpy_def)
qed

lemma char_of_0 [simp]: "(char_of (0::int) :: char) = NUL"
  by (simp add: char_of_def)

lemma strob_charcat_holds:
  assumes "strob_holds s c" "strob_room s (int (length c) + 2)" "ch = 0 \<or> char_of ch \<noteq> NUL"
  shows "\<exists>s'. strob_charcat s ch = Some s' \<and>
              strob_holds s' (if ch = 0 then c else c @ [char_of ch]) \<and> sb_extra s' = sb_extra s"
proof (cases "ch = 0")
  case False
  have "strob_room s (int (length c) + int (length [char_of ch :: char]) + 1)"
    using assms(2) by (simp add: add.assoc)
  then obtain s' where "strob_strcat s [char_of ch] = Some s'" "strob_holds s' (c @ [char_of ch])" "sb_extra s' = sb_extra s"
    using strob_strcat_holds [OF assms(1), of "[char_of ch]"] False assms(3) by auto
  with False assms(3) show ?thesis by (simp add: strob_charcat_def cstr_def)
next
  case True
  obtain s1 where s1: "strob_strcat s ''X'' = Some s1" "strob_holds s1 (c @ ''X'')" "sb_extra s1 = sb_extra s"
    using strob_strcat_holds [OF assms(1), of "''X''"] assms(2) by (auto simp: add.assoc)
  then have wf: "strob_wf s1" "strob_sync s1" and cc: "strob_content s1 = c @ ''X''"
    by (auto simp: strob_holds_def)
  from wf(1) obtain b where b: "sb_str s1 = Some b" "int (length b) = sb_reserve s1" "last b = NUL"
    "NUL \<in> set b" "2 \<le> sb_reserve s1" "0 \<le> sb_length s1" "sb_length s1 \<le> sb_reserve s1" "0 \<le> sb_extra s1"
    "strob_content s1 = cstr b"
    by (elim strob_wfE)
  obtain r where "b = (c @ ''X'') @ NUL # r"
    using cstr_split [OF b(4)] unfolding b(9) [symmetric] cc by blast
  then have be: "b = c @ CHR ''X'' # NUL # r" by simp
  have cs: "c_string c" using cc c_string_content [of s1] by simp
  let ?b = "c @ NUL # NUL # r"
  have "mem_write b (int (length c)) [NUL] = Some ?b"
    by (simp add: be mem_write_def)
  moreover have "strob_holds (s1\<lparr>sb_str := Some ?b\<rparr>) c"
    using b wf cs cc be
    by (auto simp: strob_holds_def strob_wf_def strob_sync_def strob_content_def)
  moreover have "c_strlen b 0 = Some (int (length c) + 1)"
    using c_strlen_0 [OF b(4)] unfolding b(9) [symmetric] cc by simp
  ultimately show ?thesis using True s1 b by (simp add: strob_charcat_def)
qed

section \<open>Indexed characters\<close>

lemma mem_set_ok:
  assumes "0 \<le> off" "0 \<le> n" "off + n \<le> int (length b)"
  shows "\<exists>b'. mem_set b off c n = Some b' \<and> length b' = length b \<and>
     (\<forall>i < length b. b' ! i = (if nat off \<le> i \<and> i < nat off + nat n then c else b ! i))"
proof -
  let ?b = "take (nat off) b @ replicate (nat n) c @ drop (nat off + nat n) b"
  have "mem_set b off c n = Some ?b"
    using assms by (simp add: mem_set_def mem_write_def)
  moreover have "length ?b = length b" using assms by auto
  moreover have "?b ! i = (if nat off \<le> i \<and> i < nat off + nat n then c else b ! i)"
    if "i < length b" for i
    using assms that by (auto simp: nth_append min_def)
  ultimately show ?thesis by blast
qed

text \<open>Storing a character at an index: the object stays well formed and reads back as an array in
  which the gap up to the index holds the fill character.\<close>

lemma strob_chr_index_ok:
  assumes wf: "strob_wf s" and ix: "0 \<le> index" and room: "strob_room s (index + 2)"
  obtains s' b b' where "strob_chr_index s index ch = Some s'" "strob_wf s'"
    "sb_length s' = max (sb_length s) (index + 1)" "fill_charM s' = fill_charM s"
    "sb_str s = Some b" "sb_str s' = Some b'"
    "\<And>i. 0 \<le> i \<Longrightarrow> i < sb_length s' \<Longrightarrow> b' ! nat i =
       (if i = index then char_of ch else if i < sb_length s then b ! nat i
        else char_of (fill_charM s))"
proof -
  from wf obtain b where b: "sb_str s = Some b" "int (length b) = sb_reserve s"
    "0 \<le> sb_length s" "sb_length s \<le> sb_reserve s" by (elim strob_wfE)
  obtain s1 b1 where s1: "strob_reopen_if_fill_with s (index + 2) (fill_charM s) = Some s1"
    "sb_str s1 = Some b1" "strob_wf s1" "index + 2 \<le> sb_reserve s1" "sb_length s1 = sb_length s"
    "fill_charM s1 = fill_charM s" "take (nat (sb_length s)) b1 = take (nat (sb_length s)) b"
    by (rule strob_reopen_if_fill_ok [OF wf room b(1)])
  from s1(2,3) have w: "int (length b1) = sb_reserve s1" "2 \<le> sb_reserve s1" "last b1 = NUL"
    "sb_length s1 \<le> sb_reserve s1" "0 \<le> sb_extra s1" by (auto elim!: strob_wfE)
  have old: "b1 ! nat i = b ! nat i" if "0 \<le> i" "i < sb_length s" for i
    using s1(7) that b by (metis nat_less_eq_zless nth_take)
  show thesis
  proof (cases "index \<ge> sb_length s")
    case True
    obtain b2 where b2: "mem_set b1 (sb_length s) (char_of (fill_charM s)) (index - sb_length s + 1) = Some b2"
      "length b2 = length b1"
      "\<forall>i < length b1. b2 ! i = (if nat (sb_length s) \<le> i \<and> i < nat (sb_length s) + nat (index - sb_length s + 1)
          then char_of (fill_charM s) else b1 ! i)"
      using mem_set_ok [of "sb_length s" "index - sb_length s + 1" b1 "char_of (fill_charM s)"]
        True b w s1 by auto
    let ?b4 = "b2[nat (index + 1) := NUL, nat index := char_of ch]"
    let ?s = "s1\<lparr>sb_length := index + 1, sb_str := Some ?b4\<rparr>"
    have eq: "strob_chr_index s index ch = Some ?s"
      using s1 True b2 w ix by (simp add: strob_chr_index_def mem_write_single)
    have l: "last ?b4 = NUL"
    proof -
      have ne: "b1 \<noteq> []" using w by auto
      have "length b1 - 1 < length b1" "\<not> length b1 - 1 < nat (sb_length s) + nat (index - sb_length s + 1)"
        using w s1(4) ix True b(3) by linarith+
      then have "b2 ! (length b1 - 1) = NUL"
        using b2(3) w(3) ne by (simp add: last_conv_nth)
      then show ?thesis
        using b2(2) w(1) s1(4) ix ne by (subst last_conv_nth) (auto simp: nth_list_update)
    qed
    have wf': "strob_wf ?s" using l s1 w b2 ix by (intro strob_wfI [of _ ?b4]) auto
    show thesis
      by (rule that [of ?s b ?b4])
        (use eq wf' b s1 b2 w True ix old in \<open>auto simp: nth_list_update\<close>)
  next
    case False
    let ?b4 = "b1[nat index := char_of ch]"
    let ?s = "s1\<lparr>sb_str := Some ?b4\<rparr>"
    have eq: "strob_chr_index s index ch = Some (s1\<lparr>sb_length := sb_length s1, sb_str := Some ?b4\<rparr>)"
      using s1 False w ix by (simp add: strob_chr_index_def mem_write_single)
    have "b1 \<noteq> []" "nat index \<noteq> length b1 - 1" using w(1,2) s1(4) ix by auto
    then have l: "last ?b4 = NUL" using w(3) by (simp add: last_list_update)
    have wf': "strob_wf ?s" using l s1 w b ix by (intro strob_wfI [of _ ?b4]) auto
    show thesis
      by (rule that [of ?s b ?b4])
        (use eq wf' b s1 w False ix old in \<open>auto simp: nth_list_update\<close>)
  qed
qed

section \<open>Formatted output\<close>

text \<open>One pass of the loop: the buffer is enlarged by \<open>added\<close> bytes beyond its present size (and
  the look-ahead), then \<open>vsnprintf\<close> writes as much of the output as fits.\<close>

lemma strob_set_memlength_grow:
  assumes "strob_holds s c" "0 \<le> added" "strob_room s (sb_reserve s + added)"
  obtains s' where "strob_set_memlength s (sb_reserve s + added) = Some s'" "strob_holds s' c"
    "sb_extra s' = sb_extra s" "sb_length s' = sb_reserve s + added"
    "sb_reserve s + added \<le> sb_reserve s'"
    "sb_reserve s' \<le> sb_reserve s + added + sb_extra s"
proof -
  from assms(1) have wf: "strob_wf s" "strob_sync s" "strob_content s = c"
    by (auto simp: strob_holds_def)
  from wf(1) obtain b where b: "sb_str s = Some b" "2 \<le> sb_reserve s" "0 \<le> sb_extra s"
    "strob_content s = cstr b" "sb_length s \<le> sb_reserve s"
    by (elim strob_wfE)
  obtain s1 b1 where s1: "strob_reopen_if s (sb_reserve s + added) = Some s1" "sb_str s1 = Some b1"
    "strob_wf s1" "sb_reserve s + added \<le> sb_reserve s1" "sb_extra s1 = sb_extra s"
    "sb_reserve s1 \<le> max (sb_reserve s) (sb_reserve s + added + sb_extra s)" "cstr b1 = cstr b"
    using strob_reopen_if_ok [OF wf(1) assms(3) b(1)] wf(2) by metis
  let ?s = "s1\<lparr>sb_length := sb_reserve s + added\<rparr>"
  have "strob_holds ?s c"
    using s1 b assms(2) wf unfolding strob_holds_def
    by (auto simp: strob_wf_def strob_sync_def strob_content_def)
  then show thesis
    by (rule that [of ?s, rotated]) (use s1 b assms(2) in \<open>auto simp: strob_set_memlength_def\<close>)
qed

text \<open>The output is complete exactly when it is shorter than the space; then the C string is the
  kept prefix and the output. When it is truncated, the C string still begins with the prefix, so
  that writing NUL at its end restores it.\<close>

lemma vsnprintf_step:
  assumes h: "strob_holds s c"    and b: "sb_str s = Some b" and pre: "pre = (if app then c else [])" and out: "c_string out"
    and lim: "sb_reserve s < INT_LIMIT"
  obtains b' where "c_vsnprintf b (int (length pre)) (sb_reserve s - int (length pre)) out = Some b'"
    "length b' = length b" "last b' = NUL"
    "cstr b' = pre @ take (nat (sb_reserve s) - length pre - 1) out"
proof -
  from h b have w: "int (length b) = sb_reserve s" "2 \<le> sb_reserve s" "last b = NUL" "NUL \<in> set b"
    "c = cstr b"
    by (auto simp: strob_holds_def elim!: strob_wfE)
  have "length (cstr b) < length b" using length_cstr_less w by blast
  then have p: "length pre < length b" "length pre \<le> length (cstr b)" using w pre by auto
  let ?k = "length b - length pre - 1"
  let ?t = "take ?k out"
  have k: "nat (sb_reserve s - int (length pre)) - 1 = ?k" using w p by linarith
  have sz: "c_size (sb_reserve s - int (length pre)) = sb_reserve s - int (length pre)"
    using w p lim by (intro c_size_id) auto
  have fit: "length pre + length ?t + 1 \<le> length b" using p by auto
  let ?b = "take (length pre) b @ (?t @ [NUL]) @ drop (length pre + length ?t + 1) b"
  have wr: "mem_write b (int (length pre)) (?t @ [NUL]) = Some ?b"
    using mem_write_ok [of "length pre" "?t @ [NUL]" b] fit by simp
  have c: "cstr ?b = take (length pre) (cstr b) @ ?t"
    using cstr_write [OF p(2), of ?t] out fit by (simp add: c_string_take)
  have "take (length pre) (cstr b) = pre" using pre w by auto
  moreover have "c_vsnprintf b (int (length pre)) (sb_reserve s - int (length pre)) out = Some ?b"
    using wr sz k w p by (simp add: c_vsnprintf_def)
  moreover have "nat (sb_reserve s) = length b" using w by simp
  ultimately show thesis
    using c last_write [OF wr w(3)] mem_write_length [OF wr] by (intro that [of ?b]) auto
qed

lemma rewind_truncated:
  assumes h: "strob_holds s c" and pre: "pre = (if app then c else [])" and b: "sb_str s = Some b"
    and b': "length b' = length b" "last b' = NUL" "cstr b' = pre @ out'"
  obtains s0 where "rewind_oldend (s\<lparr>sb_str := Some b'\<rparr>) (Some (int (length pre))) = Some s0"
    "strob_holds s0 pre" "sb_reserve s0 = sb_reserve s" "sb_extra s0 = sb_extra s"
proof -
  from h b have w: "int (length b) = sb_reserve s" "2 \<le> sb_reserve s" "last b = NUL" "c = cstr b"
    "0 \<le> sb_length s" "sb_length s \<le> sb_reserve s" "0 \<le> sb_extra s" "int (length c) \<le> sb_length s"
    by (auto simp: strob_holds_def strob_sync_def elim!: strob_wfE)
  have "b' \<noteq> []" using w b' by auto
  then have "NUL \<in> set b'" using b'(2) by (metis last_in_set)
  then have "length (cstr b') < length b'" by (rule length_cstr_less)
  then have p: "length pre < length b'" using b'(3) by simp
  let ?b = "take (length pre) b' @ [] @ [NUL] @ drop (length pre + 1) b'"
  have wr: "mem_write b' (int (length pre)) [NUL] = Some ?b"
    using mem_write_ok [of "length pre" "[NUL]" b'] p by simp
  have c: "cstr ?b = pre"
    using cstr_write [of "length pre" b' "[]"] p b'(3) by simp
  let ?s = "s\<lparr>sb_str := Some ?b\<rparr>"
  have "strob_wf ?s"
    using w last_write [OF wr b'(2)] mem_write_length [OF wr] b'(1)
    by (intro strob_wfI [of _ ?b]) auto
  then have "strob_holds ?s pre"
    using c w pre by (auto simp: strob_holds_def strob_sync_def strob_content_def)
  moreover have "rewind_oldend (s\<lparr>sb_str := Some b'\<rparr>) (Some (int (length pre))) = Some ?s"
    using wr by (simp add: rewind_oldend_def)
  ultimately show thesis by (intro that [of ?s]) auto
qed

text \<open>The retry loop terminates: every pass after the first enlarges the buffer by at least 128
  bytes, and it stops as soon as the buffer is larger than the text.\<close>

lemma strob_vsprintf_loop_ok:
  assumes "rewind_oldend s oe = Some s0" "strob_holds s0 c" "pre = (if app then c else [])"
    and "c_string out" "added = 0 \<or> 128 \<le> added" "added \<le> sb_reserve s0 + 128"
    and "sb_reserve s0 \<le> B" "int (length pre) + int (length out) \<le> B"
    and "2 * B + 128 + sb_extra s0 < INT_LIMIT"
  shows "\<exists>s'. strob_vsprintf_loop s app out added oe = Some (s', int (length out)) \<and>
              strob_wf s' \<and> strob_content s' = pre @ out \<and> sb_extra s' = sb_extra s0"
  using assms
proof (induction "nat (B + 1 - sb_reserve s0) + (if added = 0 then 1 else 0)"
    arbitrary: s oe s0 c added rule: less_induct)
  case less
  note prems = less.prems
  have ad: "0 \<le> added" using prems(5) by auto
  from prems(2) have w0: "2 \<le> sb_reserve s0" "0 \<le> sb_extra s0"
    by (auto simp: strob_holds_def elim!: strob_wfE)
  have room: "strob_room s0 (sb_reserve s0 + added)"
    using prems(6,7,9) ad w0 by (simp add: strob_room_def)
  obtain s1 where s1: "strob_set_memlength s0 (sb_reserve s0 + added) = Some s1" "strob_holds s1 c"
    "sb_extra s1 = sb_extra s0" "sb_length s1 = sb_reserve s0 + added"
    "sb_reserve s0 + added \<le> sb_reserve s1" "sb_reserve s1 \<le> sb_reserve s0 + added + sb_extra s0"
    by (rule strob_set_memlength_grow [OF prems(2) ad room])
  from s1(2) obtain b1 where b1: "sb_str s1 = Some b1" "int (length b1) = sb_reserve s1"
    "NUL \<in> set b1" "strob_content s1 = cstr b1"
    by (auto simp: strob_holds_def elim!: strob_wfE)
  have c1: "c = cstr b1" using s1(2) b1(4) by (simp add: strob_holds_def)
  have lim: "sb_reserve s1 < INT_LIMIT" using s1(6) prems(6,7,9) by simp
  obtain b2 where b2: "c_vsnprintf b1 (int (length pre)) (sb_reserve s1 - int (length pre)) out = Some b2"
    "length b2 = length b1" "last b2 = NUL" "cstr b2 = pre @ take (nat (sb_reserve s1) - length pre - 1) out"
    by (rule vsnprintf_step [OF s1(2) b1(1) prems(3,4) lim])
  have start: "(if app then c_strlen b1 0 else Some 0) = Some (int (length pre))"
    using b1 c1 prems(3) by auto
  let ?s2 = "s1\<lparr>sb_str := Some b2\<rparr>"
  show ?case
  proof (cases "int (length out) \<ge> sb_reserve s1 - int (length pre)")
    case False
    then have "take (nat (sb_reserve s1) - length pre - 1) out = out" by simp
    with b2 have "strob_content ?s2 = pre @ out" by (simp add: strob_content_def)
    moreover have "strob_wf ?s2"
      using s1(2) b1 b2 unfolding strob_holds_def by (auto simp: strob_wf_def)
    moreover have "strob_vsprintf_loop s app out added oe = Some (?s2, int (length out))"
      using prems(1) s1(1) b1(1) start b2(1) False by (subst strob_vsprintf_loop.simps) simp
    ultimately show ?thesis using s1(3) by auto
  next
    case True
    obtain s3 where s3: "rewind_oldend ?s2 (Some (int (length pre))) = Some s3" "strob_holds s3 pre"
      "sb_reserve s3 = sb_reserve s1" "sb_extra s3 = sb_extra s1"
      by (rule rewind_truncated [OF s1(2) prems(3) b1(1) b2(2,3,4)])
    have pre3: "pre = (if app then pre else [])" using prems(3) by simp
    have "nat (B + 1 - sb_reserve s3) + (if added + 128 = 0 then 1 else 0)
        < nat (B + 1 - sb_reserve s0) + (if added = 0 then 1 else 0)"
      using s3(3) s1(5) prems(5,7,8) True ad by auto
    then have "\<exists>s'. strob_vsprintf_loop ?s2 app out (added + 128) (Some (int (length pre)))
        = Some (s', int (length out)) \<and> strob_wf s' \<and> strob_content s' = pre @ out \<and> sb_extra s' = sb_extra s3"
      by (rule less.hyps [OF _ s3(1,2) pre3 prems(4)])
        (use ad s3 s1 prems True w0 in auto)
    moreover have "strob_vsprintf_loop s app out added oe
        = strob_vsprintf_loop ?s2 app out (added + 128) (Some (int (length pre)))"
      using prems(1) s1(1) b1(1) start b2(1) True
      by (subst strob_vsprintf_loop.simps) simp
    ultimately show ?thesis using s3(4) s1(3) by simp
  qed
qed

lemma strob_sprintf_content:
  assumes "strob_holds s c" "c_string out" "pre = (if app then c else [])"
    and "2 * (sb_reserve s + int (length pre) + int (length out)) + 128 + sb_extra s < INT_LIMIT"
  shows "\<exists>s'. strob_sprintf s app out = Some (s', int (length out)) \<and>
              strob_wf s' \<and> strob_content s' = pre @ out"
proof -
  have "0 \<le> sb_reserve s" using assms(1) by (auto simp: strob_holds_def elim!: strob_wfE)
  then show ?thesis
    using strob_vsprintf_loop_ok [of s None s c pre app out 0
        "sb_reserve s + int (length pre) + int (length out)"] assms
    by (auto simp: strob_sprintf_def strob_vsprintf_def rewind_oldend_def)
qed

end
