(* ===== verification/Strob_Tokens.thy ===== *)
theory Strob_Tokens
  imports Strob
begin

text \<open>
  The tokenizer of \<open>swsupplib/strob/strob.c\<close>: \<open>strob_strtok\<close> called repeatedly, the way its
  clients use it, yields exactly the maximal delimiter-free words of the string, stays inside the
  buffer and always returns.
\<close>

section \<open>Tokens: the scanner implements splitting into words\<close>

text \<open>The specification: the maximal delimiter-free words of a string.\<close>

function tokens :: "string \<Rightarrow> string \<Rightarrow> string list" where
  "tokens delim s = (case dropWhile (\<lambda>c. c \<in> set delim) s of
     [] \<Rightarrow> []
   | x # xs \<Rightarrow> takeWhile (\<lambda>c. c \<notin> set delim) (x # xs)
              # tokens delim (dropWhile (\<lambda>c. c \<notin> set delim) (x # xs)))"
  by pat_completeness auto
termination
proof (relation "measure (\<lambda>(d, s). length s)", goal_cases)
  case (2 delim s x xs)
  then have x: "x \<notin> set delim"
    by (metis (mono_tags) dropWhile_eq_Cons_conv)
  have "length (dropWhile (\<lambda>c. c \<notin> set delim) (x # xs)) \<le> length xs"
    using x by (simp add: length_dropWhile_le)
  moreover have "length (x # xs) \<le> length s"
    by (metis 2 length_dropWhile_le)
  ultimately show ?case by simp
qed simp

declare tokens.simps [simp del]

text \<open>The use of the scanner by its clients: the first call gives the string, the later calls
  pass NULL, until NULL is returned.\<close>

partial_function (option) strtok_collect :: "strob \<Rightarrow> tok_arg \<Rightarrow> string \<Rightarrow> string list option" where
  "strtok_collect buf s delim = do {
     (buf, r) \<leftarrow> strob_strtok buf s delim;
     case r of
       None \<Rightarrow> Some []
     | Some r \<Rightarrow> do {
         b \<leftarrow> sb_str buf;
         ws \<leftarrow> strtok_collect buf TokNull delim;
         Some (cstr (drop (nat r) b) # ws) } }"

lemma first_index_eq:
  "first_index P xs =
     (if \<exists>x \<in> set xs. P x then Some (length (takeWhile (\<lambda>x. \<not> P x) xs)) else None)"
  by (induction xs) auto

lemma cstr_Cons: "cstr (x # u) = (if x = NUL then [] else x # cstr u)"
  by (simp add: cstr_def)

lemma c_strlen_append [simp]:
  "NUL \<in> set u \<Longrightarrow> c_strlen (a @ u) (int (length a)) = Some (int (length (cstr u)))"
  by (simp add: c_strlen_def)

lemma c_strpbrk_append:
  "NUL \<in> set u \<Longrightarrow> c_strpbrk (a @ u) (int (length a)) acc =
     Some (map_option (\<lambda>i. int (length a) + int i) (first_index (\<lambda>c. c \<in> set acc) (cstr u)))"
  by (simp add: c_strpbrk_def)

lemma strtok_scan_append:
  assumes "NUL \<in> set u"
  shows "strtok_scan (a @ u) (int (length a)) delim =
    (let w = takeWhile (\<lambda>c. c \<in> set delim) (cstr u); d = dropWhile (\<lambda>c. c \<in> set delim) (cstr u);
         st = int (length a) + int (length w)
     in Some (st, map_option (\<lambda>i. st + int i) (first_index (\<lambda>c. c \<in> set delim) d)))"
  using assms
proof (induction u arbitrary: a)
  case Nil
  then show ?case by simp
next
  case (Cons x u)
  show ?case
  proof (cases "x \<noteq> NUL \<and> x \<in> set delim")
    case True
    with Cons.prems have u: "NUL \<in> set u" by auto
    have "strtok_scan (a @ x # u) (int (length a)) delim
        = strtok_scan ((a @ [x]) @ u) (int (length (a @ [x]))) delim"
      using True Cons.prems
      by (subst strtok_scan.simps) (simp add: c_strpbrk_append cstr_Cons add.commute)
    also have "\<dots> = (let w = takeWhile (\<lambda>c. c \<in> set delim) (cstr u);
         d = dropWhile (\<lambda>c. c \<in> set delim) (cstr u); st = int (length (a @ [x])) + int (length w)
     in Some (st, map_option (\<lambda>i. st + int i) (first_index (\<lambda>c. c \<in> set delim) d)))"
      by (rule Cons.IH [OF u])
    finally show ?thesis using True by (simp add: cstr_Cons Let_def algebra_simps)
  next
    case False
    then show ?thesis using Cons.prems
      by (subst strtok_scan.simps) (auto simp: c_strpbrk_append cstr_Cons Let_def split: if_splits)
  qed
qed

lemma c_read_append [simp]: "c_read (a @ x # u) (int (length a)) = Some x"
  by (simp add: c_read_def)

lemma strtok_skip_append:
  assumes "NUL \<in> set u"
  shows "strtok_skip (a @ u) (int (length a)) delim =
     Some (int (length a) + int (length (takeWhile (\<lambda>c. c \<in> set delim) (cstr u))))"
  using assms
proof (induction u arbitrary: a)
  case Nil
  then show ?case by simp
next
  case (Cons x u)
  show ?case
  proof (cases "x \<noteq> NUL \<and> x \<in> set delim")
    case True
    with Cons have "strtok_skip ((a @ [x]) @ u) (int (length (a @ [x]))) delim =
        Some (int (length (a @ [x])) + int (length (takeWhile (\<lambda>c. c \<in> set delim) (cstr u))))"
      by (intro Cons.IH) auto
    with True show ?thesis by (subst strtok_skip.simps) (simp add: cstr_Cons algebra_simps)
  next
    case False
    then show ?thesis by (subst strtok_skip.simps) (auto simp: cstr_Cons)
  qed
qed

lemma tokens_dropWhile: "tokens delim (dropWhile (\<lambda>c. c \<in> set delim) s) = tokens delim s"
  by (subst (1 2) tokens.simps) (simp add: dropWhile_idem)

lemma tokens_nonempty:
  "dropWhile (\<lambda>c. c \<in> set delim) s \<noteq> [] \<Longrightarrow>
   tokens delim s = takeWhile (\<lambda>c. c \<notin> set delim) (dropWhile (\<lambda>c. c \<in> set delim) s)
     # tokens delim (dropWhile (\<lambda>c. c \<notin> set delim) (dropWhile (\<lambda>c. c \<in> set delim) s))"
  by (subst tokens.simps) (auto split: list.splits)

text \<open>One call that finds a word: \<open>a\<close> is what lies before the scan position, \<open>w\<close> the delimiters
  that are skipped, \<open>t\<close> the word, \<open>q\<close> the rest of the C string.\<close>

lemma strob_strtok_word:
  assumes tok: "sb_tok buf = Some (int (length a))" and str: "sb_str buf = Some (a @ w @ t @ q @ NUL # z)"
    and w: "\<forall>c \<in> set w. c \<in> set delim" and t: "t \<noteq> []" "\<forall>c \<in> set t. c \<notin> set delim"
    and q: "q = [] \<or> hd q \<in> set delim" and cs: "c_string (w @ t @ q)"
  obtains a' u' where "strob_strtok buf TokNull delim =
      Some (buf\<lparr>sb_str := Some (a' @ u'), sb_tok := Some (int (length a'))\<rparr>,
            Some (int (length (a @ w))))"
    "NUL \<in> set u'" "cstr (drop (length (a @ w)) (a' @ u')) = t" "cstr u' = dropWhile (\<lambda>c. c \<in> set delim) q"
proof -
  let ?D = "\<lambda>c. c \<in> set delim" and ?u = "w @ t @ q @ NUL # z" and ?aw = "a @ w"
  have cu: "cstr ?u = w @ t @ q" using cs cstr_append_NUL [of "w @ t @ q" z] by simp
  have tw: "takeWhile ?D (w @ t @ q) = w" "dropWhile ?D (w @ t @ q) = t @ q"
    using w t by (cases t; simp add: takeWhile_append2 dropWhile_append2)+
  have n0: "c_strlen (a @ ?u) (int (length a)) = Some (int (length (w @ t @ q)))" "length (w @ t @ q) \<noteq> 0"
    using cu t by (simp_all del: append_assoc)
  have nz: "int (length w) + (int (length t) + int (length q)) \<noteq> 0" using t by (cases t) auto
  have n1: "c_strlen (a @ ?u) (int (length ?aw)) = Some (int (length (t @ q)))"
    using c_strlen_append [of "t @ q @ NUL # z" ?aw] cs cstr_append_NUL [of "t @ q" z] by simp
  show thesis
  proof (cases q)
    case Nil
    have fi: "first_index ?D (t @ q) = None" using t Nil by (simp add: first_index_eq)
    have scan: "strtok_scan (a @ ?u) (int (length a)) delim = Some (int (length ?aw), None)"
      using strtok_scan_append [of ?u a delim] cu tw fi by (simp add: Let_def)
    have nz: "int (length t) + int (length w) \<noteq> 0" using t by (cases t) auto
    have "strob_strtok buf TokNull delim =
       Some (buf\<lparr>sb_str := Some ((a @ w @ t) @ NUL # z), sb_tok := Some (int (length (a @ w @ t)))\<rparr>,
             Some (int (length ?aw)))"
      using tok str n0 n1 scan t Nil nz by (simp add: strob_strtok_def algebra_simps)
    then show thesis
      by (rule that) (use Nil cs t in \<open>auto simp: cstr_Cons\<close>)
  next
    case (Cons x y)
    with q have x: "x \<in> set delim" by simp
    have fi: "first_index ?D (t @ q) = Some (length t)"
      using t x Cons by (auto simp: first_index_eq takeWhile_append2)
    have scan: "strtok_scan (a @ ?u) (int (length a)) delim
        = Some (int (length ?aw), Some (int (length (?aw @ t))))"
      using strtok_scan_append [of ?u a delim] cu tw fi by (simp add: Let_def)
    let ?b = "(?aw @ t) @ NUL # y @ NUL # z"
    let ?p = "int (length (?aw @ t))"
    have wr: "mem_write (a @ ?u) ?p [NUL] = Some ?b"
      using Cons mem_write_ok [of "length (?aw @ t)" "[NUL]" "a @ ?u"] by simp
    have pe: "((?aw @ t) @ [NUL]) @ y @ NUL # z = ?b" "int (length ((?aw @ t) @ [NUL])) = ?p + 1" by simp_all
    have cy: "cstr (y @ NUL # z) = y" using cs Cons by simp
    have n2: "c_strlen ?b (?p + 1) = Some (int (length y))"
      using c_strlen_append [of "y @ NUL # z" "(?aw @ t) @ [NUL]"] cy unfolding pe by simp
    have n3: "c_strlen ?b (int (length ?aw)) = Some (int (length t))"
      using c_strlen_append [of "t @ NUL # y @ NUL # z" ?aw] cs by simp
    let ?v = "takeWhile ?D y"
    have skip: "strtok_skip ?b (?p + 1) delim = Some (?p + 1 + int (length ?v))"
      using strtok_skip_append [of "y @ NUL # z" "(?aw @ t) @ [NUL]" delim] cy unfolding pe by simp
    let ?a' = "(?aw @ t) @ NUL # ?v" and ?u' = "dropWhile ?D y @ NUL # z"
    have b': "?b = ?a' @ ?u'" by simp
    have "strob_strtok buf TokNull delim =
       Some (buf\<lparr>sb_str := Some ?b, sb_tok := Some (?p + 1 + int (length ?v))\<rparr>, Some (int (length ?aw)))"
      unfolding strob_strtok_def
      using tok str n0 wr n2 n3 skip scan t nz by (simp del: append_assoc)
    then have "strob_strtok buf TokNull delim =
       Some (buf\<lparr>sb_str := Some (?a' @ ?u'), sb_tok := Some (int (length ?a'))\<rparr>, Some (int (length ?aw)))"
      unfolding b' by simp
    then show thesis
    proof (rule that)
      show "cstr (drop (length ?aw) (?a' @ ?u')) = t" using cs by simp
      have "c_string y" using cs Cons by simp
      then have "c_string (dropWhile ?D y)"
        by (auto simp: c_string_def dest: set_dropWhileD)
      then show "cstr ?u' = dropWhile ?D q" using Cons x by simp
    qed simp
  qed
qed

lemma strob_strtok_none:
  assumes tok: "sb_tok buf = Some (int (length a))" and str: "sb_str buf = Some (a @ u)"
    and u: "NUL \<in> set u" and d: "dropWhile (\<lambda>c. c \<in> set delim) (cstr u) = []"
  shows "\<exists>buf'. strob_strtok buf TokNull delim = Some (buf', None)"
proof (cases "cstr u = []")
  case True
  then show ?thesis using tok str u by (simp add: strob_strtok_def)
next
  case False
  let ?w = "cstr u"
  obtain z where z: "u = ?w @ NUL # z" using cstr_split u by blast
  have tw: "takeWhile (\<lambda>c. c \<in> set delim) ?w = ?w"
    using d by (simp add: dropWhile_eq_Nil_conv)
  have scan: "strtok_scan (a @ u) (int (length a)) delim = Some (int (length (a @ ?w)), None)"
    using strtok_scan_append [OF u, of a delim] d tw by (simp add: Let_def)
  have "(a @ ?w) @ NUL # z = a @ u" using z by simp
  then have "c_strlen (a @ u) (int (length (a @ ?w))) = Some 0"
    using c_strlen_append [of "NUL # z" "a @ ?w"] by simp
  then show ?thesis using tok str u scan False by (simp add: strob_strtok_def)
qed

lemma strtok_collect_null:
  assumes "sb_tok buf = Some (int (length a))" "sb_str buf = Some (a @ u)" "NUL \<in> set u"
  shows "strtok_collect buf TokNull delim = Some (tokens delim (cstr u))"
  using assms
proof (induction "length (cstr u)" arbitrary: buf a u rule: less_induct)
  case less
  note prems = less.prems
  let ?D = "\<lambda>c. c \<in> set delim"
  define w where "w = takeWhile ?D (cstr u)"
  define d where "d = dropWhile ?D (cstr u)"
  show ?case
  proof (cases "d = []")
    case True
    then obtain buf' where "strob_strtok buf TokNull delim = Some (buf', None)"
      using strob_strtok_none [OF prems] unfolding d_def by blast
    moreover have "tokens delim (cstr u) = []"
      using True unfolding d_def by (subst tokens.simps) (simp only: list.case)
    ultimately show ?thesis by (subst strtok_collect.simps) simp
  next
    case False
    define t where "t = takeWhile (\<lambda>c. c \<notin> set delim) d"
    define q where "q = dropWhile (\<lambda>c. c \<notin> set delim) d"
    have wd: "cstr u = w @ t @ q" by (simp add: w_def d_def t_def q_def)
    obtain z where "u = (w @ t @ q) @ NUL # z"
      using cstr_split [OF prems(3)] unfolding wd by blast
    then have str: "sb_str buf = Some (a @ w @ t @ q @ NUL # z)"
      using prems(2) by simp
    have hd: "hd d \<notin> set delim" 
      using False hd_dropWhile [of "\<lambda>c. c \<in> set delim" "cstr u"] by (simp add: d_def)
    have cs: "c_string (w @ t @ q)" using wd by (metis cstr_string)
    have w: "\<forall>c \<in> set w. c \<in> set delim" by (auto simp: w_def dest: set_takeWhileD)
    have t: "t \<noteq> []" "\<forall>c \<in> set t. c \<notin> set delim"
      using False hd by (cases d; auto simp: t_def dest: set_takeWhileD)+
    have q: "q = [] \<or> hd q \<in> set delim"
      using hd_dropWhile [of "\<lambda>c. c \<notin> set delim" d] by (auto simp: q_def)
    obtain a' u' where s: "strob_strtok buf TokNull delim =
        Some (buf\<lparr>sb_str := Some (a' @ u'), sb_tok := Some (int (length a'))\<rparr>,
            Some (int (length (a @ w))))"
      "NUL \<in> set u'" "cstr (drop (length (a @ w)) (a' @ u')) = t" "cstr u' = dropWhile ?D q"
      by (rule strob_strtok_word [OF prems(1) str w t q cs])
    let ?buf = "buf\<lparr>sb_str := Some (a' @ u'), sb_tok := Some (int (length a'))\<rparr>"
    have "length (cstr u') < length (cstr u)"
      using t(1) wd s(4) length_dropWhile_le [of ?D q] by (cases t) auto
    then have rest: "strtok_collect ?buf TokNull delim = Some (tokens delim (cstr u'))"
      by (rule less.hyps) (use s in auto)
    have "tokens delim (cstr u) = t # tokens delim q"
      using tokens_nonempty [of delim "cstr u"] False by (simp add: d_def t_def q_def)
    then show ?thesis
      using s rest tokens_dropWhile [of delim q]
      by (subst strtok_collect.simps) (simp add: nat_add_distrib)
  qed
qed

lemma strtok_collect_self:
  assumes "strob_holds buf s"
  shows "strtok_collect buf TokSelf delim = Some (tokens delim s)"
proof -
  obtain b where b: "sb_str buf = Some b" "NUL \<in> set b" "cstr b = s"
    using assms by (auto simp: strob_holds_def elim!: strob_wfE)
  let ?buf = "buf\<lparr>sb_tok := Some 0\<rparr>"
  have "strob_strtok buf TokSelf delim = strob_strtok ?buf TokNull delim" by (simp add: strob_strtok_def)
  then have "strtok_collect buf TokSelf delim = strtok_collect ?buf TokNull delim"
    by (subst (1 2) strtok_collect.simps) simp
  also have "\<dots> = Some (tokens delim s)"
    using strtok_collect_null [of ?buf "[]" b delim] b by simp
  finally show ?thesis .
qed

text \<open>C37: calling \<open>strob_strtok\<close> on a string and then with a null pointer until it returns one yields the
  words of the string, without empty ones.\<close>

theorem strtok_collect_tokens:
  assumes "strob_wf buf" "c_string s" "strob_room buf (int (length s) + 1)"
  shows "strtok_collect buf (TokStr s) delim = Some (tokens delim s)"
proof -
  obtain buf1 where b1: "strob_strcpy buf s = Some buf1" "strob_holds buf1 s"
    using strob_strcpy_holds [OF assms] by blast
  have "strob_strtok buf (TokStr s) delim = strob_strtok buf1 TokSelf delim"
    using b1 by (simp add: strob_strtok_def)
  then have "strtok_collect buf (TokStr s) delim = strtok_collect buf1 TokSelf delim"
    by (subst (1 2) strtok_collect.simps) simp
  then show ?thesis using strtok_collect_self [OF b1(2)] by simp
qed

section \<open>The properties at concrete inputs\<close>

theorem strtok_collect_tokens_witness:
  "\<exists>buf. strob_open 32 = Some buf \<and> strtok_collect buf (TokStr ''/usr//bin/'') ''/'' = Some [''usr'', ''bin'']"
proof -
  obtain buf where b: "strob_open 32 = Some buf" "strob_wf buf" "sb_extra buf = STROB_LENGTHINCR"
    using strob_open_holds [of 32] by (auto simp: strob_holds_def)
  have "strob_room buf (int (length ''/usr//bin/'') + 1)" using b(3) by (simp add: strob_room_def STROB_LENGTHINCR_def)
  moreover have "tokens ''/'' ''/usr//bin/'' = [''usr'', ''bin'']" by code_simp
  ultimately show ?thesis
    using strtok_collect_tokens [OF b(2), of "''/usr//bin/''" "''/''"] b(1) by (simp add: c_string_def)
qed

end
