(* ===== verification/StrobOps.thy ===== *)
theory StrobOps
  imports Strob
begin

text \<open>
  The contract of \<open>STROB\<close> as a client sees it: an object holds a string, and a sequence of operations of
  \<open>strob/strob.c\<close> acts on it as the string operations do, whatever reallocations happen on the way.
\<close>

section \<open>Sequences of operations\<close>

datatype strob_op = Strcpy string | Strcat string | Strncat string int | Strncpy string int | Charcat int | Reset

text \<open>What the operation does to a string.\<close>

fun op_spec :: "strob_op \<Rightarrow> string \<Rightarrow> string" where
  "op_spec (Strcpy s) c = s"
| "op_spec (Strcat s) c = c @ s"
| "op_spec (Strncat s n) c = c @ take (nat n) s"
| "op_spec (Strncpy s n) c = take (nat n) s"
| "op_spec (Charcat ch) c = (if ch = 0 then c else c @ [char_of ch])"
| "op_spec Reset c = []"

fun op_run :: "strob_op \<Rightarrow> strob \<Rightarrow> strob option" where
  "op_run (Strcpy s) st = strob_strcpy st s"
| "op_run (Strcat s) st = strob_strcat st s"
| "op_run (Strncat s n) st = strob_strncat st s n"
| "op_run (Strncpy s n) st = strob_strncpy st s n"
| "op_run (Charcat ch) st = strob_charcat st ch"
| "op_run Reset st = strob_strcpy st []"

text \<open>The arguments a client may pass, and the bytes an operation may add.\<close>

fun op_ok :: "strob_op \<Rightarrow> bool" where
  "op_ok (Strcpy s) = c_string s"
| "op_ok (Strcat s) = c_string s"
| "op_ok (Strncat s n) = (c_string s \<and> 0 \<le> n)"
| "op_ok (Strncpy s n) = (c_string s \<and> 0 \<le> n)"
| "op_ok (Charcat ch) = (ch = 0 \<or> char_of ch \<noteq> NUL)"
| "op_ok Reset = True"

fun op_size :: "strob_op \<Rightarrow> nat" where
  "op_size (Strcpy s) = length s"
| "op_size (Strcat s) = length s"
| "op_size (Strncat s n) = nat n"
| "op_size (Strncpy s n) = nat n"
| "op_size (Charcat ch) = 1"
| "op_size Reset = 0"

definition run_ops :: "strob_op list \<Rightarrow> strob \<Rightarrow> strob option" where
  "run_ops ops st = foldl (\<lambda>m oper. Option.bind m (op_run oper)) (Some st) ops"

lemma run_ops_simps [simp]:
  "run_ops [] st = Some st"
  "run_ops (oper # ops) st = Option.bind (op_run oper st) (run_ops ops)"
proof -
  have none: "foldl (\<lambda>m oper. Option.bind m (op_run oper)) None ops = None" for ops
    by (induction ops) auto
  show "run_ops [] st = Some st" "run_ops (oper # ops) st = Option.bind (op_run oper st) (run_ops ops)"
    by (cases "op_run oper st"; simp add: run_ops_def none)+
qed

lemma op_run_holds:
  assumes "strob_holds st c" "op_ok oper" "int (length c + op_size oper) + 2 + sb_extra st < INT_LIMIT"
  shows "\<exists>st'. op_run oper st = Some st' \<and> strob_holds st' (op_spec oper c) \<and> sb_extra st' = sb_extra st"
proof -
  have wf: "strob_wf st" using assms(1) by (simp add: strob_holds_def)
  show ?thesis
  proof (cases oper)
    case (Strcpy s)
    then show ?thesis using assms strob_strcpy_holds [OF wf, of s] by (simp add: strob_room_def)
  next
    case (Strcat s)
    then show ?thesis using assms strob_strcat_holds [OF assms(1), of s] by (simp add: strob_room_def)
  next
    case (Strncat s n)
    then show ?thesis using assms strob_strncat_holds [OF assms(1), of s n] by (simp add: strob_room_def)
  next
    case (Strncpy s n)
    then show ?thesis using assms strob_strncpy_holds [OF wf, of s n] by (simp add: strob_room_def)
  next
    case (Charcat ch)
    then show ?thesis using assms strob_charcat_holds [OF assms(1), of ch] by (simp add: strob_room_def)
  next
    case Reset
    then show ?thesis using assms strob_strcpy_holds [OF wf, of "[]"] by (simp add: strob_room_def)
  qed
qed

lemma op_spec_length: "length (op_spec oper c) \<le> length c + op_size oper"
  by (cases oper) auto

text \<open>C21: every sequence of operations on a new object succeeds and leaves the string that the same
  operations on strings give.\<close>

theorem strob_ops_refine:
  assumes "n < INT_LIMIT - 1" "\<forall>oper \<in> set ops. op_ok oper" "sum_list (map op_size ops) < 2 ^ 30"
  shows "\<exists>st st'. strob_open n = Some st \<and> run_ops ops st = Some st' \<and>
     strob_holds st' (foldl (\<lambda>c oper. op_spec oper c) [] ops)"
proof -
  obtain st where st: "strob_open n = Some st" "strob_holds st []" "sb_extra st = STROB_LENGTHINCR"
    using strob_open_holds [OF assms(1)] by blast
  have "\<exists>st'. run_ops ops st = Some st' \<and> strob_holds st' (foldl (\<lambda>c oper. op_spec oper c) c ops)"
    if "strob_holds st c" "sb_extra st = STROB_LENGTHINCR" "length c + sum_list (map op_size ops) < 2 ^ 30"
      "\<forall>oper \<in> set ops. op_ok oper" for st c
    using that
  proof (induction ops arbitrary: st c)
    case Nil
    then show ?case by simp
  next
    case (Cons oper ops)
    obtain st1 where s1: "op_run oper st = Some st1" "strob_holds st1 (op_spec oper c)" "sb_extra st1 = sb_extra st"
      using op_run_holds [OF Cons.prems(1), of oper] Cons.prems(2,3,4) by (auto simp: STROB_LENGTHINCR_def)
    have "length (op_spec oper c) + sum_list (map op_size ops) < 2 ^ 30"
      using Cons.prems(3) op_spec_length [of oper c] by simp
    then show ?case using Cons.IH [OF s1(2)] s1 Cons.prems(2,4) by simp
  qed
  from this [OF st(2,3)] st(1) assms(2,3) show ?thesis by simp
qed

theorem strob_ops_refine_witness:
  "\<exists>st st'. strob_open 4 = Some st \<and>
     run_ops [Strcpy ''usr'', Charcat 47, Strcat ''local/bin'', Strncat ''/tools'' 3] st = Some st' \<and>
     strob_holds st' ''usr/local/bin/to''"
proof -
  let ?ops = "[Strcpy ''usr'', Charcat 47, Strcat ''local/bin'', Strncat ''/tools'' 3]"
  have "char_of (47 :: int) = CHR ''/''" by code_simp
  then have "\<forall>oper \<in> set ?ops. op_ok oper" "sum_list (map op_size ?ops) < 2 ^ 30"
    "foldl (\<lambda>c oper. op_spec oper c) [] ?ops = ''usr/local/bin/to''"
    by (simp_all add: c_string_def)
  then show ?thesis using strob_ops_refine [of 4 ?ops] by simp
qed

end
