(* ===== verification/Cplob.thy ===== *)
theory Cplob
  imports Prelude
begin

text \<open>
  The pointer list of \<open>swsupplib/cplob/cplob.c\<close> and its void-pointer front \<open>vplob.c\<close>. \<open>cp_list\<close> is
  the allocated array (a cell \<^term>\<open>None\<close> is the NULL pointer), \<open>nlen\<close> its recorded size, \<open>nused\<close>
  the number of cells in use. The clients keep the array NULL terminated with \<open>cplob_add_nta\<close> and
  scan it with \<open>while ((p = cplob_val (lob, i++)))\<close>; the locale \<open>nta_list\<close> states that contract, and
  the scanning loop is proved correct once, inside it.
\<close>

section \<open>Operations of cplob.c\<close>

record 'a cplob =
  cp_list :: "'a option list"
  nlen :: int
  nused :: int
  refcountM :: int

definition CPLOB_NINITLENGTH :: int where "CPLOB_NINITLENGTH = 16"
definition CPLOB_NLENGTHINCR :: int where "CPLOB_NLENGTHINCR = 8"

definition cell_write :: "'a option list \<Rightarrow> int \<Rightarrow> 'a option \<Rightarrow> 'a option list option" where
  "cell_write xs i v = (if 0 \<le> i \<and> i < int (length xs) then Some (xs[nat i := v]) else None)"

definition cell_read :: "'a option list \<Rightarrow> int \<Rightarrow> 'a option option" where
  "cell_read xs i = (if 0 \<le> i \<and> i < int (length xs) then Some (xs ! nat i) else None)"

function null_list :: "'a option list \<Rightarrow> int \<Rightarrow> int \<Rightarrow> 'a option list option" where
  "null_list xs i stop =
     (if i < stop then (case cell_write xs i None of None \<Rightarrow> None | Some xs \<Rightarrow> null_list xs (i + 1) stop)
      else Some xs)"
  by pat_completeness auto
termination
  by (relation "measure (\<lambda>(xs, i, stop). nat (stop - i))") auto

declare null_list.simps [simp del]

definition cplob_shallow_reset :: "'a cplob \<Rightarrow> 'a cplob option" where
  "cplob_shallow_reset lob = do {
     xs \<leftarrow> null_list (cp_list lob) 0 (nlen lob);
     Some (lob\<lparr>nused := 0, cp_list := xs\<rparr>) }"

definition cplob_open :: "int \<Rightarrow> 'a cplob option" where
  "cplob_open nobj = (let nobj = (if nobj \<le> 0 then CPLOB_NINITLENGTH else nobj) in do {
     xs \<leftarrow> null_list (replicate (nat nobj) None) 0 nobj;
     cplob_shallow_reset \<lparr>cp_list = xs, nlen = nobj, nused = 0, refcountM = 0\<rparr> })"

definition cplob_release :: "'a cplob \<Rightarrow> 'a option list" where
  "cplob_release lob = cp_list lob"

definition cplob_get_list :: "'a cplob \<Rightarrow> 'a option list" where
  "cplob_get_list lob = cp_list lob"

text \<open>\<open>realloc\<close> of the array: cells beyond the old array hold no value until \<open>null_list\<close> sets
  them, which it does for every index from the old recorded size on.\<close>

definition cplob_reopen :: "int \<Rightarrow> 'a cplob \<Rightarrow> 'a cplob option" where
  "cplob_reopen new_length lob = (
     let n = (if new_length \<le> 1 then 2 else new_length)
     in if n > nlen lob then do {
          xs \<leftarrow> null_list (take (nat n) (cp_list lob)
                  @ replicate (nat n - length (cp_list lob)) None) (nlen lob) n;
          Some (lob\<lparr>cp_list := xs, nlen := n\<rparr>) }
        else Some lob)"

definition cplob_additem :: "'a cplob \<Rightarrow> int \<Rightarrow> 'a option \<Rightarrow> 'a cplob option" where
  "cplob_additem lob index addr = do {
     lob \<leftarrow> (if index + 1 > nlen lob then cplob_reopen (index + 1 + CPLOB_NLENGTHINCR) lob
            else Some lob);
     xs \<leftarrow> cell_write (cp_list lob) index addr;
     Some (lob\<lparr>cp_list := xs, nused := (if index + 1 > nused lob then index + 1 else nused lob)\<rparr>) }"

definition cplob_add :: "'a cplob \<Rightarrow> 'a option \<Rightarrow> 'a cplob option" where
  "cplob_add lob addr = cplob_additem lob (nused lob) addr"

definition cplob_add_nta :: "'a cplob \<Rightarrow> 'a option \<Rightarrow> 'a cplob option" where
  "cplob_add_nta lob addr =
     (if nused lob = 0 then do {
        let lob1 = lob\<lparr>nused := nused lob + 1\<rparr>;
        lob \<leftarrow> cplob_reopen (nused lob1 + CPLOB_NLENGTHINCR) lob1;
        xs \<leftarrow> cell_write (cp_list lob) (nused lob - 1) addr;
        let lob2 = lob\<lparr>cp_list := xs\<rparr>;
        if addr = None then Some lob2
        else do {
          xs \<leftarrow> cell_write (cp_list lob2) (nused lob2 - 1) addr;
          let lob3 = lob2\<lparr>cp_list := xs\<rparr>;
          cplob_additem lob3 (nused lob3) None } }
      else do {
        lob \<leftarrow> cplob_reopen (nused lob + CPLOB_NLENGTHINCR) lob;
        xs \<leftarrow> cell_write (cp_list lob) (nused lob - 1) addr;
        let lob2 = lob\<lparr>cp_list := xs\<rparr>;
        cplob_additem lob2 (nused lob2) None })"

definition cplob_set_nused :: "'a cplob \<Rightarrow> int \<Rightarrow> 'a cplob" where
  "cplob_set_nused lob n = lob\<lparr>nused := n\<rparr>"

definition cplob_get_nused :: "'a cplob \<Rightarrow> int" where
  "cplob_get_nused lob = nused lob"

definition cplob_val :: "'a cplob \<Rightarrow> int \<Rightarrow> 'a option option" where
  "cplob_val lob index =
     (if index < 0 then Some None
      else if index > nused lob then Some None
      else cell_read (cp_list lob) index)"

text \<open>\<open>memmove (list + i, list + i + 1, n)\<close> on the array of cells.\<close>

definition cell_shift :: "'a option list \<Rightarrow> int \<Rightarrow> int \<Rightarrow> 'a option list option" where
  "cell_shift xs i n =
     (if 0 \<le> i \<and> 0 \<le> n \<and> i + 1 + n \<le> int (length xs)
      then Some (take (nat i) xs @ take (nat n) (drop (nat i + 1) xs) @ drop (nat i + nat n) xs)
      else None)"

definition cplob_remove_index :: "'a cplob \<Rightarrow> int \<Rightarrow> ('a cplob \<times> int) option" where
  "cplob_remove_index lob i =
     (if i < 0 \<or> i \<ge> nused lob then Some (lob, - 1)
      else if nused lob = 0 \<or> nlen lob = 0 then Some (lob, 0)
      else do {
        xs \<leftarrow> cell_shift (cp_list lob) i (nused lob - i - 1);
        Some (lob\<lparr>cp_list := xs, nused := nused lob - 1, nlen := nlen lob - 1\<rparr>, 0) })"

text \<open>\<open>cplob_freeall\<close>: the pointers passed to \<open>free\<close>, and the list with those cells NULL.\<close>

function freeall_loop :: "'a option list \<Rightarrow> int \<Rightarrow> int \<Rightarrow> 'a list \<Rightarrow> ('a option list \<times> 'a list) option" where
  "freeall_loop xs i n freed =
     (if i < n then (case cell_read xs i of
          None \<Rightarrow> None
        | Some None \<Rightarrow> freeall_loop xs (i + 1) n freed
        | Some (Some p) \<Rightarrow> freeall_loop (xs[nat i := None]) (i + 1) n (freed @ [p]))
      else Some (xs, freed))"
  by pat_completeness auto
termination
  by (relation "measure (\<lambda>(xs, i, n, freed). nat (n - i))") auto

declare freeall_loop.simps [simp del]

definition cplob_freeall :: "'a cplob \<Rightarrow> ('a cplob \<times> 'a list) option" where
  "cplob_freeall lob = do {
     (xs, freed) \<leftarrow> freeall_loop (cp_list lob) 0 (nused lob) [];
     Some (lob\<lparr>cp_list := xs\<rparr>, freed) }"

text \<open>The two nested loops of \<open>cplob_backfill_and_nullterminate\<close>: an inner pass either removes one
  NULL cell or leaves the index alone, and then the index moves on.\<close>

function backfill_loop :: "'a cplob \<Rightarrow> int \<Rightarrow> 'a cplob option" where
  "backfill_loop lob i =
     (if i < nused lob then (case cell_read (cp_list lob) i of
          None \<Rightarrow> None
        | Some (Some _) \<Rightarrow> backfill_loop lob (i + 1)
        | Some None \<Rightarrow>
            (if i + 1 = nused lob then backfill_loop lob (i + 1)
             else (case cell_shift (cp_list lob) i (nused lob - i - 1) of
                None \<Rightarrow> None
              | Some xs \<Rightarrow> backfill_loop (lob\<lparr>cp_list := xs, nused := nused lob - 1\<rparr>) i)))
      else Some lob)"
  by pat_completeness auto
termination
  by (relation "measure (\<lambda>(lob, i). nat (nused lob - i))") auto

declare backfill_loop.simps [simp del]

definition cplob_backfill_and_nullterminate :: "'a cplob \<Rightarrow> 'a cplob option" where
  "cplob_backfill_and_nullterminate lob = do {
     lob \<leftarrow> backfill_loop lob 0;
     p \<leftarrow> cell_read (cp_list lob) (nused lob);
     if p \<noteq> None then cplob_add lob None else Some lob }"

section \<open>Operations of vplob.c\<close>

definition vplob_open :: "'a cplob option" where
  "vplob_open = cplob_open 3"

definition vplob_add :: "'a cplob \<Rightarrow> 'a option \<Rightarrow> 'a cplob option" where
  "vplob_add vplob addr = cplob_add_nta vplob addr"

definition vplob_get_list :: "'a cplob \<Rightarrow> 'a option list" where
  "vplob_get_list vplob = cp_list vplob"

definition vplob_val :: "'a cplob \<Rightarrow> int \<Rightarrow> 'a option option" where
  "vplob_val vplob index = cplob_val vplob index"

function nstore_loop :: "'a option list \<Rightarrow> int \<Rightarrow> int \<Rightarrow> int \<Rightarrow> int option" where
  "nstore_loop xs i n ret =
     (if i < n then (case cell_read xs i of
          None \<Rightarrow> None
        | Some p \<Rightarrow> nstore_loop xs (i + 1) n (if p \<noteq> None then ret + 1 else ret))
      else Some ret)"
  by pat_completeness auto
termination
  by (relation "measure (\<lambda>(xs, i, n, ret). nat (n - i))") auto

declare nstore_loop.simps [simp del]

definition vplob_get_nstore :: "'a cplob \<Rightarrow> int option" where
  "vplob_get_nstore vplob = nstore_loop (cp_list vplob) 0 (nused vplob) 0"

text \<open>\<open>vplob_delete_store\<close>: the pointers passed to \<open>f_delete\<close>, in order.\<close>

function delete_store_loop :: "'a option list \<Rightarrow> int \<Rightarrow> int \<Rightarrow> 'a list \<Rightarrow> 'a list option" where
  "delete_store_loop xs i n deleted =
     (if i < n then (case cell_read xs i of
          None \<Rightarrow> None
        | Some None \<Rightarrow> delete_store_loop xs (i + 1) n deleted
        | Some (Some p) \<Rightarrow> delete_store_loop xs (i + 1) n (deleted @ [p]))
      else Some deleted)"
  by pat_completeness auto
termination
  by (relation "measure (\<lambda>(xs, i, n, deleted). nat (n - i))") auto

declare delete_store_loop.simps [simp del]

definition vplob_delete_store :: "'a cplob \<Rightarrow> 'a list option" where
  "vplob_delete_store vplob = do {
     n \<leftarrow> vplob_get_nstore vplob;
     delete_store_loop (cp_list vplob) 0 n [] }"

function remove_from_list_loop :: "'a cplob \<Rightarrow> int \<Rightarrow> int \<Rightarrow> 'a option \<Rightarrow> 'a cplob option" where
  "remove_from_list_loop lob i n addr =
     (if i < n then (case cell_read (cp_list lob) i of
          None \<Rightarrow> None
        | Some p \<Rightarrow>
            (if p = addr then (case cplob_remove_index lob i of
                 None \<Rightarrow> None
               | Some (lob, _) \<Rightarrow> remove_from_list_loop lob (i + 1) n addr)
             else remove_from_list_loop lob (i + 1) n addr))
      else Some lob)"
  by pat_completeness auto
termination
  by (relation "measure (\<lambda>(lob, i, n, addr). nat (n - i))") auto

declare remove_from_list_loop.simps [simp del]

definition vplob_remove_from_list :: "'a cplob \<Rightarrow> 'a option \<Rightarrow> 'a cplob option" where
  "vplob_remove_from_list vplob addr_to_remove = do {
     n \<leftarrow> vplob_get_nstore vplob;
     remove_from_list_loop vplob 0 n addr_to_remove }"

section \<open>The contract of a NULL terminated list\<close>

text \<open>A scan \<open>while ((p = val (i++)))\<close> whose body either continues with a new state (\<open>Inr\<close>) or
  leaves the enclosing function with a result (\<open>Inl\<close>), and the same on a list.\<close>

partial_function (option) nta_scan ::
  "(int \<Rightarrow> 'a option option) \<Rightarrow> int \<Rightarrow> ('a \<Rightarrow> 's \<Rightarrow> 's + 's) \<Rightarrow> 's \<Rightarrow> 's option" where
  "nta_scan val i body s = do {
     p \<leftarrow> val i;
     case p of
       None \<Rightarrow> Some s
     | Some x \<Rightarrow> (case body x s of Inl r \<Rightarrow> Some r | Inr s' \<Rightarrow> nta_scan val (i + 1) body s') }"

declare nta_scan.simps [code]

fun list_scan :: "('a \<Rightarrow> 's \<Rightarrow> 's + 's) \<Rightarrow> 'a list \<Rightarrow> 's \<Rightarrow> 's" where
  "list_scan body [] s = s"
| "list_scan body (x # xs) s = (case body x s of Inl r \<Rightarrow> r | Inr s' \<Rightarrow> list_scan body xs s')"

locale nta_view =
  fixes inv :: "'l \<Rightarrow> bool"
    and elems :: "'l \<Rightarrow> 'a list"
    and val :: "'l \<Rightarrow> int \<Rightarrow> 'a option option"
  assumes val_elem: "inv l \<Longrightarrow> 0 \<le> i \<Longrightarrow> i < int (length (elems l)) \<Longrightarrow> val l i = Some (Some (elems l ! nat i))"
    and val_end: "inv l \<Longrightarrow> val l (int (length (elems l))) = Some None"
begin

lemma scan_from:
  assumes "inv l" "n \<le> length (elems l)"
  shows "nta_scan (val l) (int n) body s = Some (list_scan body (drop n (elems l)) s)"
  using assms(2)
proof (induction "length (elems l) - n" arbitrary: n s)
  case 0
  then have "val l (int n) = Some None" "drop n (elems l) = []"
    using val_end [OF assms(1)] by auto
  then show ?case by (subst nta_scan.simps) simp
next
  case (Suc k)
  then have n: "n < length (elems l)" by linarith
  then have v: "val l (int n) = Some (Some (elems l ! n))"
    using val_elem [OF assms(1), of "int n"] by simp
  have d: "drop n (elems l) = elems l ! n # drop (Suc n) (elems l)"
    using n by (rule Cons_nth_drop_Suc [symmetric])
  have IH: "nta_scan (val l) (int (Suc n)) body s' = Some (list_scan body (drop (Suc n) (elems l)) s')" for s'
    using Suc.hyps(1) [of "Suc n" s'] Suc.hyps(2) n by linarith
  show ?case
    using IH by (subst nta_scan.simps) (simp add: v d add.commute split: sum.split)
qed

lemma scan_all: "inv l \<Longrightarrow> nta_scan (val l) 0 body s = Some (list_scan body (elems l) s)"
  using scan_from [of l 0 body s] by simp

end

text \<open>A list that can also be extended at its end.\<close>

locale nta_list = nta_view inv elems val
  for inv :: "'l \<Rightarrow> bool"
    and elems :: "'l \<Rightarrow> 'a list"
    and val :: "'l \<Rightarrow> int \<Rightarrow> 'a option option" +
  fixes add :: "'l \<Rightarrow> 'a \<Rightarrow> 'l option"
  assumes add_ok: "inv l \<Longrightarrow> \<exists>l'. add l x = Some l' \<and> inv l' \<and> elems l' = elems l @ [x]"
begin

lemma add_many:
  assumes "inv l"
  shows "\<exists>l'. foldl (\<lambda>m x. do { l \<leftarrow> m; add l x }) (Some l) xs = Some l' \<and> inv l' \<and> elems l' = elems l @ xs"
  using assms
proof (induction xs arbitrary: l)
  case Nil
  then show ?case by simp
next
  case (Cons x xs)
  then obtain l1 where "add l x = Some l1" "inv l1" "elems l1 = elems l @ [x]"
    using add_ok by blast
  then show ?case using Cons.IH [of l1] by simp
qed

end

section \<open>The lists of cplob.c keep the contract\<close>

definition nta_inv :: "'a cplob \<Rightarrow> bool" where
  "nta_inv lob \<longleftrightarrow> 0 \<le> nused lob \<and> nused lob \<le> nlen lob \<and> nlen lob \<le> int (length (cp_list lob)) \<and>
     cp_list lob \<noteq> [] \<and>
     (if nused lob = 0 then cp_list lob ! 0 = None
      else None \<notin> set (take (nat (nused lob) - 1) (cp_list lob)) \<and>
           cp_list lob ! (nat (nused lob) - 1) = None)"

definition nta_elems :: "'a cplob \<Rightarrow> 'a list" where
  "nta_elems lob = map the (take (nat (nused lob) - 1) (cp_list lob))"

lemma null_list_ok:
  assumes "0 \<le> i" "i \<le> stop" "stop \<le> int (length xs)"
  shows "\<exists>ys. null_list xs i stop = Some ys \<and> length ys = length xs \<and>
     (\<forall>j < length xs. ys ! j = (if i \<le> int j \<and> int j < stop then None else xs ! j))"
  using assms
proof (induction xs i stop rule: null_list.induct)
  case (1 xs i stop)
  show ?case
  proof (cases "i < stop")
    case False
    then show ?thesis by (subst null_list.simps) auto
  next
    case True
    then have w: "cell_write xs i None = Some (xs[nat i := None])"
      using "1.prems" by (simp add: cell_write_def)
    obtain ys where ys: "null_list (xs[nat i := None]) (i + 1) stop = Some ys"
      "length ys = length xs"
      "\<forall>j < length xs. ys ! j = (if i + 1 \<le> int j \<and> int j < stop then None else xs[nat i := None] ! j)"
      using "1.IH" [OF True w] "1.prems" True by auto
    then show ?thesis
      using True w "1.prems" by (subst null_list.simps) (auto simp: nth_list_update)
  qed
qed

lemma cplob_reopen_ok:
  assumes "0 \<le> nlen lob" "nlen lob \<le> int (length (cp_list lob))" "2 \<le> n"
  obtains xs where "cplob_reopen n lob = Some (lob\<lparr>cp_list := xs, nlen := max (nlen lob) n\<rparr>)"
    "max (nlen lob) n \<le> int (length xs)"
    "\<And>j. int j < nlen lob \<Longrightarrow> xs ! j = cp_list lob ! j"
proof (cases "n > nlen lob")
  case False
  with assms show thesis
    by (intro that [of "cp_list lob"]) (auto simp: cplob_reopen_def max_def)
next
  case True
  let ?ys = "take (nat n) (cp_list lob) @ replicate (nat n - length (cp_list lob)) None"
  have len: "length ?ys = nat n" by simp
  have "n \<le> int (length ?ys)" unfolding len by simp
  then obtain xs where xs: "null_list ?ys (nlen lob) n = Some xs" "length xs = length ?ys"
    "\<forall>j < length ?ys. xs ! j = (if nlen lob \<le> int j \<and> int j < n then None else ?ys ! j)"
    using null_list_ok [of "nlen lob" n ?ys] assms(1) True by (metis less_imp_le)
  show thesis
  proof (rule that)
    show "cplob_reopen n lob = Some (lob\<lparr>cp_list := xs, nlen := max (nlen lob) n\<rparr>)"
      using True assms xs(1) by (simp add: cplob_reopen_def Let_def max_def)
    show "max (nlen lob) n \<le> int (length xs)" using xs(2) len True assms by simp
    show "xs ! j = cp_list lob ! j" if "int j < nlen lob" for j
    proof -
      have "j < length (cp_list lob)" "j < nat n" using that assms True by linarith+
      then show ?thesis using xs(3) that len by (simp add: nth_append)
    qed
  qed
qed

lemma cplob_open_nta:
  shows "\<exists>lob. (cplob_open n :: 'a cplob option) = Some lob \<and> nta_inv lob \<and> nta_elems lob = []"
proof -
  define m where "m = (if n \<le> 0 then CPLOB_NINITLENGTH else n)"
  have m: "1 \<le> m" by (auto simp: m_def CPLOB_NINITLENGTH_def)
  obtain ys where ys: "null_list (replicate (nat m) (None :: 'a option)) 0 m = Some ys"
    "length ys = nat m" "\<forall>j < nat m. ys ! j = None"
    using null_list_ok [of 0 m "replicate (nat m) (None :: 'a option)"] m
    by (metis (no_types, lifting) int_nat_eq length_replicate nth_replicate order_refl zero_le_one
        order_trans)
  then have "ys = replicate (nat m) None" by (intro nth_equalityI) auto
  with ys(1) have r: "null_list (replicate (nat m) None) 0 m = Some (replicate (nat m) (None :: 'a option))"
    by simp
  have "(cplob_open n :: 'a cplob option)
      = Some \<lparr>cp_list = replicate (nat m) None, nlen = m, nused = 0, refcountM = 0\<rparr>"
    unfolding cplob_open_def Let_def m_def [symmetric] by (simp add: r cplob_shallow_reset_def)
  then show ?thesis using m by (auto simp: nta_inv_def nta_elems_def)
qed

lemma nta_elems_nth:
  "nta_inv lob \<Longrightarrow> i < length (nta_elems lob) \<Longrightarrow> cp_list lob ! i = Some (nta_elems lob ! i)"
  unfolding nta_inv_def nta_elems_def
  by (auto split: if_splits simp: in_set_conv_nth)

lemma nta_elems_length:
  "nta_inv lob \<Longrightarrow> int (length (nta_elems lob)) = (if nused lob = 0 then 0 else nused lob - 1)"
  by (auto simp: nta_inv_def nta_elems_def)

lemma nta_invI:
  assumes "nlen lob \<le> int (length (cp_list lob))" "nused lob = int (length es) + 1"
    "nused lob \<le> nlen lob" "\<And>i. i < length es \<Longrightarrow> cp_list lob ! i = Some (es ! i)"
    "cp_list lob ! length es = None"
  shows "nta_inv lob \<and> nta_elems lob = es"
proof -
  have k: "nat (nused lob) - 1 = length es" using assms(2) by simp
  have len: "length es < length (cp_list lob)" using assms(1-3) by linarith
  have t: "take (length es) (cp_list lob) = map Some es"
    using assms(4) len by (intro nth_equalityI) auto
  have "cp_list lob \<noteq> []" using len by auto
  then show ?thesis
    using assms t k by (auto simp: nta_inv_def nta_elems_def)
qed

text \<open>Storing through a pointer the list holds.\<close>

lemma nta_update:
  assumes "nta_inv lob" "i < length (nta_elems lob)"
  shows "\<exists>cs. cell_write (cp_list lob) (int i) (Some x) = Some cs \<and> nta_inv (lob\<lparr>cp_list := cs\<rparr>) \<and>
     nta_elems (lob\<lparr>cp_list := cs\<rparr>) = (nta_elems lob)[i := x] \<and> cell_read (cp_list lob) (int i) = Some (Some (nta_elems lob ! i))"
proof -
  note len = nta_elems_length [OF assms(1)]
  have used: "nused lob = int (length (nta_elems lob)) + 1" using len assms(2) by (auto split: if_splits)
  have k: "nat (nused lob) - 1 = length (nta_elems lob)" "nused lob \<noteq> 0" using used by simp_all
  then have inv: "nused lob \<le> nlen lob" "nlen lob \<le> int (length (cp_list lob))"
    "cp_list lob ! length (nta_elems lob) = None"
    using assms(1) by (simp_all add: nta_inv_def)
  let ?l = "lob\<lparr>cp_list := (cp_list lob)[i := Some x]\<rparr>"
  have "nta_inv ?l \<and> nta_elems ?l = (nta_elems lob)[i := x]"
    by (rule nta_invI) (use used inv assms in \<open>auto simp: nth_list_update nta_elems_nth\<close>)
  moreover have "int i < int (length (cp_list lob))" using used inv assms(2) by linarith
  ultimately show ?thesis
    using assms by (auto simp: cell_write_def cell_read_def nta_elems_nth)
qed

lemma cplob_add_nta_ok:
  assumes "nta_inv lob"
  shows "\<exists>lob'. cplob_add_nta lob (Some x) = Some lob' \<and> nta_inv lob' \<and>
                nta_elems lob' = nta_elems lob @ [x]"
proof -
  define k where "k = length (nta_elems lob)"
  from assms have w: "0 \<le> nused lob" "nused lob \<le> nlen lob" "nlen lob \<le> int (length (cp_list lob))"
    by (auto simp: nta_inv_def)
  have k: "int k = (if nused lob = 0 then 0 else nused lob - 1)"
    unfolding k_def by (rule nta_elems_length [OF assms])
  have r: "2 \<le> int k + 1 + CPLOB_NLENGTHINCR" by (simp add: CPLOB_NLENGTHINCR_def)
  define lob1 where "lob1 = lob\<lparr>nused := int k + 1\<rparr>"
  obtain xs where xs: "cplob_reopen (int k + 1 + CPLOB_NLENGTHINCR) lob1
        = Some (lob1\<lparr>cp_list := xs, nlen := max (nlen lob1) (int k + 1 + CPLOB_NLENGTHINCR)\<rparr>)"
    "max (nlen lob1) (int k + 1 + CPLOB_NLENGTHINCR) \<le> int (length xs)"
    "\<And>j. int j < nlen lob1 \<Longrightarrow> xs ! j = cp_list lob1 ! j"
    by (rule cplob_reopen_ok [of lob1 "int k + 1 + CPLOB_NLENGTHINCR"]) (use w r in \<open>auto simp: lob1_def\<close>)
  have inc: "CPLOB_NLENGTHINCR = 8" by (simp add: CPLOB_NLENGTHINCR_def)
  let ?m = "max (nlen lob) (int k + 9)"
  let ?l = "lob\<lparr>cp_list := xs[k := Some x, Suc k := None], nlen := ?m, nused := int k + 2\<rparr>"
  have nk: "Suc k < length xs" using xs(2) inc by auto
  have w1: "cell_write xs (int k) (Some x) = Some (xs[k := Some x])"
    "cell_write (xs[k := Some x]) (int k) (Some x) = Some (xs[k := Some x])"
    "cell_write (xs[k := Some x]) (int k + 1) None = Some (xs[k := Some x, Suc k := None])"
    using nk by (auto simp: cell_write_def nat_add_distrib)
  have xs1: "cplob_reopen (int k + 9) lob1 = Some (lob1\<lparr>cp_list := xs, nlen := ?m\<rparr>)"
    using xs(1) unfolding inc by (simp add: lob1_def add.commute)
  have eq: "cplob_add_nta lob (Some x) = Some ?l"
  proof (cases "nused lob = 0")
    case True
    then have "k = 0" using k by simp
    then show ?thesis
      using True xs1 w1 nk
      by (simp add: cplob_add_nta_def lob1_def cplob_additem_def Let_def CPLOB_NLENGTHINCR_def)
  next
    case False
    then have "lob1 = lob" "nused lob = int k + 1" using k by (auto simp: lob1_def)
    then show ?thesis
      using False xs1 [unfolded add.commute [of "int k" 9]] w1 nk
      by (simp add: cplob_add_nta_def cplob_additem_def Let_def CPLOB_NLENGTHINCR_def)
  qed
  have "nta_inv ?l \<and> nta_elems ?l = nta_elems lob @ [x]"
  proof (rule nta_invI)
    show "nlen ?l \<le> int (length (cp_list ?l))" using xs(2) inc by (simp add: lob1_def)
    show "nused ?l = int (length (nta_elems lob @ [x])) + 1" by (simp add: k_def)
    show "nused ?l \<le> nlen ?l" by simp
    show "cp_list ?l ! length (nta_elems lob @ [x]) = None" using nk by (simp add: k_def)
    show "cp_list ?l ! i = Some ((nta_elems lob @ [x]) ! i)" if "i < length (nta_elems lob @ [x])" for i
    proof (cases "i < k")
      case True
      then have "int i < nlen lob1" using k w by (auto simp: lob1_def split: if_splits)
      then have "xs ! i = Some (nta_elems lob ! i)"
        using xs(3) [of i] nta_elems_nth [OF assms, of i] True by (simp add: lob1_def k_def)
      with True nk show ?thesis by (simp add: nth_append k_def)
    next
      case False
      with that have "i = k" by (simp add: k_def)
      with nk show ?thesis by (simp add: nth_append k_def)
    qed
  qed
  with eq show ?thesis by blast
qed

lemma cplob_val_elem:
  assumes "nta_inv lob" "0 \<le> i" "i < int (length (nta_elems lob))"
  shows "cplob_val lob i = Some (Some (nta_elems lob ! nat i))"
proof -
  have n: "int (length (nta_elems lob)) = nused lob - 1" "nused lob \<le> int (length (cp_list lob))"
    using assms nta_elems_length [OF assms(1)] by (auto simp: nta_inv_def split: if_splits)
  then show ?thesis
    using assms nta_elems_nth [OF assms(1), of "nat i"] by (simp add: cplob_val_def cell_read_def)
qed

lemma cplob_val_end: "nta_inv lob \<Longrightarrow> cplob_val lob (int (length (nta_elems lob))) = Some None"
  using nta_elems_length [of lob]
  by (auto simp: cplob_val_def cell_read_def nta_inv_def nta_elems_def split: if_splits)

interpretation cp: nta_list nta_inv nta_elems cplob_val "\<lambda>lob x. cplob_add_nta lob (Some x)"
  by unfold_locales (auto simp: cplob_add_nta_ok cplob_val_elem cplob_val_end)

lemma cplob_scan_all:
  "nta_inv lob \<Longrightarrow> nta_scan (cplob_val lob) 0 body s = Some (list_scan body (nta_elems lob) s)"
  by (rule cp.scan_all)

section \<open>Removal\<close>

lemma cell_shift_length: "cell_shift xs i n = Some ys \<Longrightarrow> length ys = length xs"
  by (auto simp: cell_shift_def split: if_splits)

lemma cell_shift_nth:
  assumes "cell_shift xs i n = Some ys" "j < length xs"
  shows "ys ! j = (if i \<le> int j \<and> int j < i + n then xs ! (j + 1) else xs ! j)"
proof -
  define I where "I = nat i"
  define N where "N = nat n"
  from assms(1) have ys: "ys = take I xs @ take N (drop (I + 1) xs) @ drop (I + N) xs"
    and r: "i = int I" "n = int N" "I + 1 + N \<le> length xs"
    by (auto simp: cell_shift_def I_def N_def split: if_splits)
  have l: "length (take I xs) = I" "length (take N (drop (I + 1) xs)) = N" using r(3) by auto
  consider "j < I" | "I \<le> j" "j < I + N" | "I + N \<le> j" by linarith
  then show ?thesis
  proof cases
    case 1
    then show ?thesis unfolding ys r(1,2) nth_append l by simp
  next
    case 2
    then have "j - I < N" by linarith
    with 2 show ?thesis unfolding ys r(1,2) nth_append l using r(3) by simp
  next
    case 3
    then have "\<not> j - I < N" by linarith
    with 3 show ?thesis unfolding ys r(1,2) nth_append l using r(3) by simp
  qed
qed

text \<open>Removing an element of a NULL terminated list removes it from the sequence and keeps the
  terminator.\<close>

lemma cplob_remove_index_ok:
  assumes "nta_inv lob" "i < length (nta_elems lob)"
  shows "\<exists>lob'. cplob_remove_index lob (int i) = Some (lob', 0) \<and> nta_inv lob' \<and>
     nta_elems lob' = take i (nta_elems lob) @ drop (Suc i) (nta_elems lob)"
proof -
  let ?es = "nta_elems lob" and ?xs = "cp_list lob"
  have n: "nused lob = int (length ?es) + 1"
    using nta_elems_length [OF assms(1)] assms(2) by (auto split: if_splits)
  from assms(1) have w: "nused lob \<le> nlen lob" "nlen lob \<le> int (length ?xs)"
    by (auto simp: nta_inv_def)
  let ?n = "nused lob - int i - 1"
  obtain ys where ys: "cell_shift ?xs (int i) ?n = Some ys"
    using n w assms(2) by (auto simp: cell_shift_def)
  note sh = cell_shift_nth [OF ys]
  have len: "length ys = length ?xs" by (rule cell_shift_length [OF ys])
  let ?l = "lob\<lparr>cp_list := ys, nused := nused lob - 1, nlen := nlen lob - 1\<rparr>"
  have eq: "cplob_remove_index lob (int i) = Some (?l, 0)"
    using n w assms(2) ys by (simp add: cplob_remove_index_def)
  have endp: "?xs ! length ?es = None"
    using assms(1) n by (auto simp: nta_inv_def nat_add_distrib)
  have "nta_inv ?l \<and> nta_elems ?l = take i ?es @ drop (Suc i) ?es"
  proof (rule nta_invI)
    show "nlen ?l \<le> int (length (cp_list ?l))" using w len by simp
    show "nused ?l = int (length (take i ?es @ drop (Suc i) ?es)) + 1" using n assms(2) by simp
    show "nused ?l \<le> nlen ?l" using w by simp
    show "cp_list ?l ! length (take i ?es @ drop (Suc i) ?es) = None"
      using sh [of "length ?es - 1"] endp n w assms(2) by (cases "length ?es") auto
    show "cp_list ?l ! j = Some ((take i ?es @ drop (Suc i) ?es) ! j)"
      if "j < length (take i ?es @ drop (Suc i) ?es)" for j
      using sh [of j] nta_elems_nth [OF assms(1), of j] nta_elems_nth [OF assms(1), of "Suc j"]
        that n w assms(2) by (auto simp: nth_append min_def)
  qed
  with eq show ?thesis by blast
qed

lemma nstore_loop_nta:
  assumes "nta_inv lob" "n \<le> nat (nused lob)"
  shows "nstore_loop (cp_list lob) (int n) (nused lob) r
       = Some (r + int (length (nta_elems lob) - n))"
  using assms(2)
proof (induction "nat (nused lob) - n" arbitrary: n r)
  case 0
  then have "length (nta_elems lob) - n = 0" by (simp add: nta_elems_def)
  with 0 show ?case by (subst nstore_loop.simps) auto
next
  case (Suc k)
  from assms(1) have w: "nused lob \<le> nlen lob" "nlen lob \<le> int (length (cp_list lob))"
    by (auto simp: nta_inv_def)
  have n: "int n < nused lob" using Suc.hyps(2) by linarith
  then have rd: "cell_read (cp_list lob) (int n) = Some (cp_list lob ! n)"
    using w by (simp add: cell_read_def)
  have IH: "nstore_loop (cp_list lob) (int (Suc n)) (nused lob) r'
      = Some (r' + int (length (nta_elems lob) - Suc n))" for r'
    using Suc.hyps(1) [of "Suc n" r'] Suc.hyps(2) n by linarith
  have l: "int (length (nta_elems lob)) = nused lob - 1"
    using nta_elems_length [OF assms(1)] n by auto
  show ?case
  proof (cases "n < length (nta_elems lob)")
    case True
    then have "cp_list lob ! n \<noteq> None" using nta_elems_nth [OF assms(1)] by simp
    then show ?thesis
      using n rd IH [of "r + 1"] True by (subst nstore_loop.simps) (simp add: add.commute)
  next
    case False
    then have "n = nat (nused lob) - 1" using n l by linarith
    then have "cp_list lob ! n = None" using assms(1) n by (auto simp: nta_inv_def split: if_splits)
    then show ?thesis
      using n rd IH [of r] False by (subst nstore_loop.simps) (simp add: add.commute)
  qed
qed

lemma vplob_get_nstore_ok:
  "nta_inv lob \<Longrightarrow> vplob_get_nstore lob = Some (int (length (nta_elems lob)))"
  using nstore_loop_nta [of lob 0 0] by (simp add: vplob_get_nstore_def)

text \<open>\<open>vplob_remove_from_list\<close> as a function on the sequence: the index moves on after a removal, so
  the element that slides into the place of a removed one is not looked at.\<close>

fun remove_scan :: "'a \<Rightarrow> 'a list \<Rightarrow> 'a list" where
  "remove_scan a [] = []"
| "remove_scan a [x] = (if x = a then [] else [x])"
| "remove_scan a (x # y # xs) =
     (if x = a then y # remove_scan a xs else x # remove_scan a (y # xs))"

lemma remove_from_list_tail:
  assumes "nta_inv lob" "length (nta_elems lob) \<le> i"
    "int n \<le> int (length (cp_list lob))"
    "\<forall>j. length (nta_elems lob) \<le> j \<and> j < n \<longrightarrow> cp_list lob ! j = None"
  shows "remove_from_list_loop lob (int i) (int n) (Some a) = Some lob"
  using assms(2)
proof (induction "n - i" arbitrary: i)
  case 0
  then show ?case by (subst remove_from_list_loop.simps) simp
next
  case (Suc k)
  then have i: "i < n" by simp
  then have rd: "cell_read (cp_list lob) (int i) = Some None"
    using assms(3,4) Suc.prems by (auto simp: cell_read_def)
  have "remove_from_list_loop lob (int (Suc i)) (int n) (Some a) = Some lob"
    using Suc.hyps(1) [of "Suc i"] Suc.hyps(2) Suc.prems by auto
  with i rd show ?case by (subst remove_from_list_loop.simps) (simp add: add.commute)
qed

lemma remove_scan_Cons:
  "remove_scan a (x # xs) =
     (if x = a then take 1 xs @ remove_scan a (drop 1 xs) else x # remove_scan a xs)"
  by (cases xs) auto

lemma remove_from_list_loop_ok:
  assumes "nta_inv lob" "n < length (cp_list lob)"
    "\<forall>j. length (nta_elems lob) \<le> j \<and> j \<le> n \<longrightarrow> cp_list lob ! j = None"
    "length (nta_elems lob) \<le> n"
  shows "\<exists>lob'. remove_from_list_loop lob (int i) (int n) (Some a) = Some lob' \<and> nta_inv lob' \<and>
     nta_elems lob' = take i (nta_elems lob) @ remove_scan a (drop i (nta_elems lob))"
  using assms
proof (induction "n - i" arbitrary: i lob)
  case 0
  note prems = "0.prems"
  then have "n \<le> i" using "0.hyps" by simp
  with prems show ?case by (subst remove_from_list_loop.simps) auto
next
  case (Suc k)
  note prems = Suc.prems
  let ?es = "nta_elems lob" and ?n = "int n"
  have i: "i < n" using Suc.hyps(2) by simp
  have next_i: "k = n - Suc i" "int (Suc i) = int i + 1" using Suc.hyps(2) by auto
  show ?case
  proof (cases "i < length ?es")
    case False
    then have "remove_from_list_loop lob (int i) ?n (Some a) = Some lob"
      using remove_from_list_tail [OF prems(1), of i n a] prems(2,3) by simp
    with False prems(1) show ?thesis by auto
  next
    case True
    then have rd: "cell_read (cp_list lob) (int i) = Some (Some (?es ! i))"
      using nta_elems_nth [OF prems(1) True] prems(2) i by (simp add: cell_read_def)
    have d: "drop i ?es = ?es ! i # drop (Suc i) ?es"
      using True by (rule Cons_nth_drop_Suc [symmetric])
    show ?thesis
    proof (cases "?es ! i = a")
      case False
      obtain lob' where "remove_from_list_loop lob (int (Suc i)) ?n (Some a) = Some lob'" "nta_inv lob'"
        "nta_elems lob' = take (Suc i) ?es @ remove_scan a (drop (Suc i) ?es)"
        using Suc.hyps(1) [OF next_i(1) prems] by blast
      with False i rd d True show ?thesis
        unfolding next_i(2)
        by (subst remove_from_list_loop.simps) (simp add: remove_scan_Cons take_Suc_conv_app_nth)
    next
      case eq: True
      obtain lob1 where lob1: "cplob_remove_index lob (int i) = Some (lob1, 0)" "nta_inv lob1"
        "nta_elems lob1 = take i ?es @ drop (Suc i) ?es"
        using cplob_remove_index_ok [OF prems(1) True] by blast
      have nu: "nused lob = int (length ?es) + 1"
        using nta_elems_length [OF prems(1)] True by (auto split: if_splits)
      have nl: "nlen lob \<noteq> 0" using nu prems(1) by (auto simp: nta_inv_def)
      obtain ys where ys: "cell_shift (cp_list lob) (int i) (nused lob - int i - 1) = Some ys"
        "cp_list lob1 = ys"
        using lob1(1) nu nl True by (auto simp: cplob_remove_index_def bind_iff split: if_splits)
      have len: "length ys = length (cp_list lob)" by (rule cell_shift_length [OF ys(1)])
      have tail: "\<forall>j. length (nta_elems lob1) \<le> j \<and> j \<le> n \<longrightarrow> cp_list lob1 ! j = None"
      proof (intro allI impI)
        fix j assume j: "length (nta_elems lob1) \<le> j \<and> j \<le> n"
        then have "length ?es \<le> Suc j" using lob1(3) True by auto
        moreover have "j < length ?es \<Longrightarrow> Suc j \<le> n" using prems(4) by simp
        ultimately show "cp_list lob1 ! j = None"
          using cell_shift_nth [OF ys(1), of j] prems(2,3) nu j True ys(2) by auto
      qed
      have len1: "n < length (cp_list lob1)" and short: "length (nta_elems lob1) \<le> n"
        using prems(2,4) len ys(2) lob1(3) True by auto
      obtain lob' where r: "remove_from_list_loop lob1 (int (Suc i)) ?n (Some a) = Some lob'" "nta_inv lob'"
        "nta_elems lob' = take (Suc i) (nta_elems lob1) @ remove_scan a (drop (Suc i) (nta_elems lob1))"
        using Suc.hyps(1) [OF next_i(1) lob1(2) len1 tail short] by blast
      have "take (Suc i) (nta_elems lob1) = take i ?es @ take 1 (drop (Suc i) ?es)"
        "drop (Suc i) (nta_elems lob1) = drop 1 (drop (Suc i) ?es)"
        using lob1(3) True by (simp_all add: min_def Suc_diff_le)
      with r eq i rd d lob1(1) show ?thesis
        unfolding next_i(2) by (subst remove_from_list_loop.simps) (simp add: remove_scan_Cons)
    qed
  qed
qed

lemma vplob_remove_from_list_scan:
  assumes "nta_inv lob"
  shows "\<exists>lob'. vplob_remove_from_list lob (Some a) = Some lob' \<and> nta_inv lob' \<and>
                nta_elems lob' = remove_scan a (nta_elems lob)"
proof -
  let ?n = "length (nta_elems lob)"
  have "?n < length (cp_list lob)" "cp_list lob ! ?n = None"
    using assms nta_elems_length [OF assms]
    by (auto simp: nta_inv_def nta_elems_def split: if_splits)
  then have "?n < length (cp_list lob)" "\<forall>j. ?n \<le> j \<and> j \<le> ?n \<longrightarrow> cp_list lob ! j = None"
    using le_antisym by blast+
  then show ?thesis
    using remove_from_list_loop_ok [OF assms, of ?n 0 a] vplob_get_nstore_ok [OF assms]
    by (simp add: vplob_remove_from_list_def)
qed

lemma remove_scan_distinct: "distinct xs \<Longrightarrow> remove_scan a xs = filter (\<lambda>x. x \<noteq> a) xs"
  by (induction a xs rule: remove_scan.induct) (auto simp: filter_id_conv)

end
