(* ===== verification/Strar.thy ===== *)
theory Strar
  imports Strob Cplob
begin

text \<open>
  The string array of \<open>swsupplib/misc/strar.c\<close>: the strings lie one after the other, each with its
  NUL, in one \<open>STROB\<close>, and a NULL terminated pointer list gives the start of each. A pointer is
  kept relative to the start of the store, so the loop of \<open>strar_return_store\<close> that rewrites the
  pointers after a reallocation (\<open>base + (p - oldbase)\<close>) is the identity and is not repeated here.
\<close>

record strar =
  lenM :: int
  nsM :: int
  storageM :: strob
  listM :: "int cplob"

definition strar_open :: "strar option" where
  "strar_open = do {
     st \<leftarrow> strob_open 132;
     l \<leftarrow> cplob_open 10;
     l \<leftarrow> cplob_add_nta l None;
     Some \<lparr>lenM = 0, nsM = 0, storageM = st, listM = l\<rparr> }"

definition strar_reset :: "strar \<Rightarrow> strar option" where
  "strar_reset strar = do {
     st \<leftarrow> strob_strcpy (storageM strar) [];
     l \<leftarrow> cplob_shallow_reset (listM strar);
     Some (strar\<lparr>lenM := 0, nsM := 0, storageM := st, listM := l\<rparr>) }"

definition strar_num_elements :: "strar \<Rightarrow> int" where
  "strar_num_elements strar = nsM strar"

definition strar_get :: "strar \<Rightarrow> int \<Rightarrow> int option option" where
  "strar_get strar index =
     (if index \<ge> nsM strar \<or> index < 0 then Some None
      else cplob_val (listM strar) index)"

definition strar_return_store :: "strar \<Rightarrow> int \<Rightarrow> (strar \<times> int) option" where
  "strar_return_store strar len = do {
     let total = lenM strar + len + 1;
     st \<leftarrow> strob_set_memlength (storageM strar) total;
     b \<leftarrow> strob_get_str st;
     let nused = cplob_get_nused (listM strar) - 1;
     last \<leftarrow> (if nused > 0 then cplob_val (listM strar) (nused - 1) else Some None);
     last \<leftarrow> (case last of
        Some p \<Rightarrow> do { n \<leftarrow> c_strlen b p; Some (p + n + 1) }
      | None \<Rightarrow> Some 0);
     l \<leftarrow> cplob_add_nta (listM strar) (Some last);
     b \<leftarrow> mem_set b last CHR ''_'' len;
     b \<leftarrow> mem_write b (last + len) [NUL];
     Some (strar\<lparr>lenM := total, nsM := nsM strar + 1, storageM := st\<lparr>sb_str := Some b\<rparr>, listM := l\<rparr>, last) }"

definition strar_add :: "strar \<Rightarrow> string \<Rightarrow> strar option" where
  "strar_add strar src = do {
     (strar, last) \<leftarrow> strar_return_store strar (int (length src));
     b \<leftarrow> strob_get_str (storageM strar);
     b \<leftarrow> mem_write b last (src @ [NUL]);
     Some (strar\<lparr>storageM := (storageM strar)\<lparr>sb_str := Some b\<rparr>\<rparr>) }"

definition strar_remove_index :: "strar \<Rightarrow> int \<Rightarrow> strar option" where
  "strar_remove_index strar index = do {
     (l, _) \<leftarrow> cplob_remove_index (listM strar) index;
     Some (strar\<lparr>listM := l, nsM := nsM strar - 1\<rparr>) }"

text \<open>The string a pointer of the array refers to, as the callers of \<open>strar_get\<close> read it.\<close>

definition strar_string :: "strar \<Rightarrow> int \<Rightarrow> string option" where
  "strar_string strar p = do {
     b \<leftarrow> strob_get_str (storageM strar);
     n \<leftarrow> c_strlen b p;
     Some (take (nat n) (drop (nat p) b)) }"

definition strar_get_string :: "strar \<Rightarrow> int \<Rightarrow> string option option" where
  "strar_get_string strar index = do {
     p \<leftarrow> strar_get strar index;
     case p of None \<Rightarrow> Some None | Some p \<Rightarrow> map_option Some (strar_string strar p) }"

text \<open>The scan \<open>while ((s = strar_get (src, i++))) strar_add (ret, s)\<close>.\<close>

definition strar_copy_construct :: "strar \<Rightarrow> strar option" where
  "strar_copy_construct src =
     Option.bind (nta_scan (strar_get_string src) 0
       (\<lambda>s ret. Inr (do { r \<leftarrow> ret; strar_add r s })) strar_open) id"

text \<open>\<open>strar_qsort\<close> reorders the pointers with the C library's quicksort, a parameter here, under
  one of the two comparisons below.\<close>

definition f_strcmp :: "int \<Rightarrow> string \<Rightarrow> string \<Rightarrow> int" where
  "f_strcmp sense f1 f2 =
     (let c = (if f1 = f2 then 0 else if lexordp (\<lambda>a b. (of_char a :: nat) < of_char b) f1 f2 then -1 else 1)
      in if sense < 0 then - c else c)"

definition strar_qsort_strcmp :: "string \<Rightarrow> string \<Rightarrow> int" where
  "strar_qsort_strcmp f1 f2 = f_strcmp 1 f1 f2"

definition strar_qsort_neg_strcmp :: "string \<Rightarrow> string \<Rightarrow> int" where
  "strar_qsort_neg_strcmp f1 f2 = f_strcmp (-1) f1 f2"

definition strar_qsort ::
  "((string \<Rightarrow> string \<Rightarrow> int) \<Rightarrow> (int \<times> string) list \<Rightarrow> (int \<times> string) list) \<Rightarrow>
   strar \<Rightarrow> (string \<Rightarrow> string \<Rightarrow> int) \<Rightarrow> strar option" where
  "strar_qsort quicksort strar f_comp = do {
     let n = nat (cplob_get_nused (listM strar) - 1);
     ps \<leftarrow> those (take n (cp_list (listM strar)));
     ss \<leftarrow> those (map (strar_string strar) ps);
     let sorted = quicksort f_comp (zip ps ss);
     Some (strar\<lparr>listM := (listM strar)
       \<lparr>cp_list := map (Some \<circ> fst) sorted @ drop n (cp_list (listM strar))\<rparr>\<rparr>) }"

section \<open>The array as a list of strings\<close>

fun offsets :: "int \<Rightarrow> string list \<Rightarrow> int list" where
  "offsets n [] = []"
| "offsets n (s # ss) = n # offsets (n + int (length s) + 1) ss"

definition packed :: "string list \<Rightarrow> block" where
  "packed ss = concat (map (\<lambda>s. s @ [NUL]) ss)"

definition strar_holds :: "strar \<Rightarrow> string list \<Rightarrow> bool" where
  "strar_holds a ss \<longleftrightarrow> nta_inv (listM a) \<and> nta_elems (listM a) = offsets 0 ss \<and>
     nsM a = int (length ss) \<and> lenM a = int (length (packed ss)) \<and>
     strob_wf (storageM a) \<and> sb_length (storageM a) = lenM a \<and> list_all c_string ss \<and>
     (\<forall>b. sb_str (storageM a) = Some b \<longrightarrow> take (length (packed ss)) b = packed ss)"

lemma packed_simps [simp]:
  "packed [] = []" "packed (s # ss) = s @ NUL # packed ss" "packed (ss @ ts) = packed ss @ packed ts"
  by (simp_all add: packed_def)

lemma length_offsets [simp]: "length (offsets n ss) = length ss"
  by (induction n ss rule: offsets.induct) auto

lemma offsets_append: "offsets n (ss @ ts) = offsets n ss @ offsets (n + int (length (packed ss))) ts"
  by (induction n ss rule: offsets.induct) (auto simp: algebra_simps)

lemma offsets_nth: "i < length ss \<Longrightarrow> offsets n ss ! i = n + int (length (packed (take i ss)))"
proof (induction n ss arbitrary: i rule: offsets.induct)
  case (2 n s ss)
  then show ?case by (cases i) auto
qed simp

lemma packed_split: "i < length ss \<Longrightarrow>
    packed ss = packed (take i ss) @ (ss ! i) @ NUL # packed (drop (Suc i) ss)"
  by (subst id_take_nth_drop [of i ss]) simp_all

lemma strar_string_nth:
  assumes "strar_holds a ss" "i < length ss"
  shows "strar_string a (offsets 0 ss ! i) = Some (ss ! i)"
proof -
  obtain b where b: "sb_str (storageM a) = Some b" "take (length (packed ss)) b = packed ss"
    using assms(1) by (auto simp: strar_holds_def strob_wf_def split: option.splits)
  let ?p = "length (packed (take i ss))"
  obtain r where r: "b = packed ss @ r" using b(2) by (metis append_take_drop_id)
  have d: "drop ?p b = (ss ! i) @ NUL # packed (drop (Suc i) ss) @ r"
    unfolding r by (subst packed_split [OF assms(2)]) simp
  have "c_string (ss ! i)" using assms by (auto simp: strar_holds_def list_all_length)
  then show ?thesis
    using assms(2) b(1) d by (simp add: strar_string_def strob_get_str_def offsets_nth c_strlen_def)
qed

lemma strar_get_nth:
  assumes "strar_holds a ss" "0 \<le> i" "i < int (length ss)"
  shows "strar_get a i = Some (Some (offsets 0 ss ! nat i))"
  using assms cplob_val_elem [of "listM a" i] by (auto simp: strar_holds_def strar_get_def)

definition strar_inv :: "strar \<Rightarrow> bool" where
  "strar_inv a \<longleftrightarrow> (\<exists>ss. strar_holds a ss)"

definition strar_elems :: "strar \<Rightarrow> string list" where
  "strar_elems a = map (\<lambda>p. the (strar_string a p)) (nta_elems (listM a))"

lemma strar_elems_eq: "strar_holds a ss \<Longrightarrow> strar_elems a = ss"
proof -
  assume h: "strar_holds a ss"
  then have n: "nta_elems (listM a) = offsets 0 ss" by (simp add: strar_holds_def)
  show ?thesis
    using strar_string_nth [OF h] by (intro nth_equalityI) (simp_all add: strar_elems_def n)
qed

interpretation sa: nta_view strar_inv strar_elems strar_get_string
proof unfold_locales
  fix a i
  assume "strar_inv a" and i: "0 \<le> i" "i < int (length (strar_elems a))"
  then obtain ss where h: "strar_holds a ss" by (auto simp: strar_inv_def)
  then have "strar_elems a = ss" by (rule strar_elems_eq)
  with i h strar_get_nth [OF h] strar_string_nth [OF h, of "nat i"]
  show "strar_get_string a i = Some (Some (strar_elems a ! nat i))"
    by (simp add: strar_get_string_def)
next
  fix a
  assume "strar_inv a"
  then obtain ss where h: "strar_holds a ss" by (auto simp: strar_inv_def)
  then show "strar_get_string a (int (length (strar_elems a))) = Some None"
    using strar_elems_eq [OF h] by (simp add: strar_get_string_def strar_get_def strar_holds_def)
qed

lemma strar_holds_empty:
  assumes "strob_wf st" "sb_length st = 0" "nta_inv l" "nta_elems l = []"
  shows "strar_holds \<lparr>lenM = 0, nsM = 0, storageM = st, listM = l\<rparr> []"
  using assms by (simp add: strar_holds_def)

lemma strar_last_end:
  assumes h: "strar_holds a ss" and b: "sb_str (storageM a) = Some b0"
    and keep: "take (length (packed ss)) b = packed ss"
  shows "(if cplob_get_nused (listM a) - 1 > 0
          then cplob_val (listM a) (cplob_get_nused (listM a) - 1 - 1) else Some None) \<bind>
      (\<lambda>last. case last of Some p \<Rightarrow> do { n \<leftarrow> c_strlen b p; Some (p + n + 1) } | None \<Rightarrow> Some 0)
    = Some (int (length (packed ss)))"
proof -
  have i: "nta_inv (listM a)" and e: "nta_elems (listM a) = offsets 0 ss"
    using h by (auto simp: strar_holds_def)
  have n: "int (length ss) = (if nused (listM a) = 0 then 0 else nused (listM a) - 1)"
    using nta_elems_length [OF i] e by simp
  show ?thesis
  proof (cases ss rule: rev_cases)
    case Nil
    with n have "nused (listM a) \<le> 1" by (auto split: if_splits)
    with Nil show ?thesis by (simp add: cplob_get_nused_def)
  next
    case (snoc ts s)
    then have nu: "nused (listM a) = int (length ts) + 2" using n by (auto split: if_splits)
    have v: "cplob_val (listM a) (int (length ts)) = Some (Some (offsets 0 ss ! length ts))"
      using cplob_val_elem [OF i, of "int (length ts)"] e snoc by simp
    have o: "offsets 0 ss ! length ts = int (length (packed ts))"
      using snoc by (simp add: offsets_nth)
    obtain r where r: "b = packed ss @ r" using keep by (metis append_take_drop_id)
    have "c_string s" using h snoc by (simp add: strar_holds_def)
    then have "c_strlen b (int (length (packed ts))) = Some (int (length s))"
      using snoc by (simp add: r c_strlen_def)
    with nu v o snoc show ?thesis by (simp add: cplob_get_nused_def)
  qed
qed

lemma mem_write_same_range:
  assumes "mem_write b off xs = Some b1" "length ys = length xs"
  shows "mem_write b1 off ys = mem_write b off ys"
  using assms by (auto simp: mem_write_def split: if_splits)

text \<open>Reserving \<open>len\<close> bytes appends the pointer to them and writes \<open>len\<close> underscores and a NUL.\<close>

lemma strar_return_store_ok:
  assumes h: "strar_holds a ss" and len: "len = int n"
    and room: "strob_room (storageM a) (int (length (packed ss)) + len + 1)"
  obtains a' b b' where "strar_return_store a len = Some (a', int (length (packed ss)))"
    "sb_str (storageM a') = Some b'" "mem_write b (int (length (packed ss))) (replicate n CHR ''_'' @ [NUL]) = Some b'"
    "take (length (packed ss)) b = packed ss" "last b = NUL"
    "strob_wf (storageM a')" "sb_length (storageM a') = int (length (packed ss)) + len + 1"
    "lenM a' = int (length (packed ss)) + len + 1" "nsM a' = int (length ss) + 1"
    "nta_inv (listM a')" "nta_elems (listM a') = offsets 0 ss @ [int (length (packed ss))]"
    "sb_extra (storageM a') = sb_extra (storageM a)"
proof -
  let ?m = "int (length (packed ss))" and ?t = "int (length (packed ss)) + len + 1"
  have wf: "strob_wf (storageM a)" and L: "sb_length (storageM a) = ?m" "lenM a = ?m"
    and i: "nta_inv (listM a)" and e: "nta_elems (listM a) = offsets 0 ss"
    and ns: "nsM a = int (length ss)"
    using h by (auto simp: strar_holds_def)
  obtain b0 where b0: "sb_str (storageM a) = Some b0" using wf by (elim strob_wfE)
  then have pk: "take (length (packed ss)) b0 = packed ss" using h by (auto simp: strar_holds_def)
  obtain st b where st: "strob_reopen_if (storageM a) ?t = Some st" "sb_str st = Some b"
    "strob_wf st" "?t \<le> sb_reserve st" "sb_extra st = sb_extra (storageM a)"
    "take (nat (sb_length (storageM a))) b = take (nat (sb_length (storageM a))) b0"
    by (rule strob_reopen_if_ok [OF wf room b0])
  have keep: "take (length (packed ss)) b = packed ss" using st(6) L pk by simp
  have sz: "?t \<le> int (length b)" "last b = NUL" "2 \<le> int (length b)" "0 \<le> sb_extra st"
    "int (length b) = sb_reserve st"
    using st(2,3,4) by (auto elim!: strob_wfE)
  obtain l where l: "cplob_add_nta (listM a) (Some ?m) = Some l" "nta_inv l"
    "nta_elems l = nta_elems (listM a) @ [?m]"
    using cplob_add_nta_ok [OF i] by blast
  define b1 where "b1 = take (length (packed ss)) b @ replicate n CHR ''_'' @ drop (length (packed ss) + n) b"
  define b2 where "b2 = take (length (packed ss)) b @ (replicate n CHR ''_'' @ [NUL]) @ drop (length (packed ss) + n + 1) b"
  have set1: "mem_set b ?m CHR ''_'' len = Some b1"
    using sz(1) len by (simp add: mem_set_def mem_write_def b1_def)
  have set2: "mem_write b1 (?m + len) [NUL] = Some b2"
    using sz(1) len by (simp add: mem_write_def b1_def b2_def nat_add_distrib min_def)
  have w: "mem_write b ?m (replicate n CHR ''_'' @ [NUL]) = Some b2"
    using sz(1) len by (simp add: mem_write_def b2_def)
  let ?st = "st\<lparr>sb_length := ?t, sb_str := Some b2\<rparr>"
  have wf': "strob_wf ?st"
    using mem_write_length [OF w] last_write [OF w] sz st(4) len
    by (intro strob_wfI [of _ b2]) auto
  have "strar_return_store a len
    = Some (a\<lparr>lenM := ?t, nsM := nsM a + 1, storageM := ?st, listM := l\<rparr>, ?m)"
    using strar_last_end [OF h b0 keep] st(1,2) L l(1) set1 set2
    by (simp add: strar_return_store_def strob_set_memlength_def strob_get_str_def Let_def
        bind_assoc [symmetric] del: bind_assoc)
  then show thesis
    by (rule that [of _ b2 b]) (use w keep sz wf' l st e ns in simp_all)
qed

lemma strar_add_holds:
  assumes h: "strar_holds a ss" and s: "c_string s"
    and room: "strob_room (storageM a) (int (length (packed ss)) + int (length s) + 1)"
  shows "\<exists>a'. strar_add a s = Some a' \<and> strar_holds a' (ss @ [s]) \<and>
     sb_extra (storageM a') = sb_extra (storageM a)"
proof -
  let ?m = "int (length (packed ss))"
  obtain a1 b b1 where a1: "strar_return_store a (int (length s)) = Some (a1, ?m)"
    "sb_str (storageM a1) = Some b1" "mem_write b ?m (replicate (length s) CHR ''_'' @ [NUL]) = Some b1"
    "take (length (packed ss)) b = packed ss" "last b = NUL"
    "strob_wf (storageM a1)" "sb_length (storageM a1) = ?m + int (length s) + 1"
    "lenM a1 = ?m + int (length s) + 1" "nsM a1 = int (length ss) + 1"
    "nta_inv (listM a1)" "nta_elems (listM a1) = offsets 0 ss @ [?m]"
    "sb_extra (storageM a1) = sb_extra (storageM a)"
    by (rule strar_return_store_ok [OF h refl room])
  have sz: "?m + int (length s) + 1 \<le> int (length b)" using a1(3) by (auto simp: mem_write_def split: if_splits)
  define b2 where "b2 = take (length (packed ss)) b @ (s @ [NUL]) @ drop (length (packed ss) + length (s @ [NUL])) b"
  have w0: "mem_write b ?m (s @ [NUL]) = Some b2" using sz by (simp add: mem_write_def b2_def)
  then have w: "mem_write b1 ?m (s @ [NUL]) = Some b2"
    using mem_write_same_range [OF a1(3), of "s @ [NUL]"] by simp
  let ?a = "a1\<lparr>storageM := (storageM a1)\<lparr>sb_str := Some b2\<rparr>\<rparr>"
  have "length b2 = length b1" "last b2 = NUL"
    using mem_write_length [OF w] last_write [OF w0] a1(5) by auto
  then have wf: "strob_wf (storageM ?a)"
    using a1(2,6) by (auto simp: strob_wf_def)
  have tk: "take (length (packed (ss @ [s]))) b2 = packed (ss @ [s])"
    using a1(4) sz by (simp add: b2_def)
  have "strar_holds ?a (ss @ [s])"
    using wf tk h s a1 by (simp add: strar_holds_def offsets_append)
  moreover have "strar_add a s = Some ?a"
    using a1(1,2) w by (simp add: strar_add_def strob_get_str_def)
  ultimately show ?thesis using a1(12) by auto
qed

lemma strob_open_length: "strob_open n = Some s \<Longrightarrow> sb_length s = 0"
  by (auto simp: strob_open_def sb_open_def strob_reopen_def strob_reopen_fill_with_def Let_def bind_iff)

lemma cplob_add_nta_null:
  "\<exists>l. do { l \<leftarrow> cplob_open 10; cplob_add_nta l None } = Some l \<and> nta_inv l \<and> nta_elems l = ([] :: 'a list)"
proof -
  have "do { l \<leftarrow> cplob_open 10; cplob_add_nta l None }
      = Some \<lparr>cp_list = replicate 10 (None :: 'a option), nlen = 10, nused = 1, refcountM = 0\<rparr>"
    by (simp add: cplob_open_def null_list.simps cell_write_def cplob_shallow_reset_def
        cplob_add_nta_def cplob_reopen_def CPLOB_NLENGTHINCR_def numeral_eq_Suc)
  then show ?thesis by (auto simp: nta_inv_def nta_elems_def)
qed

lemma strar_open_holds:
  "\<exists>a. strar_open = Some a \<and> strar_holds a [] \<and> sb_extra (storageM a) = STROB_LENGTHINCR"
proof -
  obtain st where st: "strob_open 132 = Some st" "strob_holds st []" "sb_extra st = STROB_LENGTHINCR"
    using strob_open_holds [of 132] by auto
  obtain l where l: "do { l \<leftarrow> cplob_open 10; cplob_add_nta l None } = Some l" "nta_inv l"
    "nta_elems l = ([] :: int list)"
    using cplob_add_nta_null by blast
  have "strar_open = Some \<lparr>lenM = 0, nsM = 0, storageM = st, listM = l\<rparr>"
    using st(1) l(1) by (auto simp: strar_open_def bind_iff)
  then show ?thesis
    using st l strob_open_length [OF st(1)] strar_holds_empty by (auto simp: strob_holds_def)
qed

lemma cplob_shallow_reset_ok:
  assumes "nta_inv l"
  shows "\<exists>l'. cplob_shallow_reset l = Some l' \<and> nta_inv l' \<and> nta_elems l' = []"
proof -
  have w: "0 \<le> nlen l" "nlen l \<le> int (length (cp_list l))" "cp_list l \<noteq> []" "nused l \<le> nlen l" "0 \<le> nused l"
    using assms by (auto simp: nta_inv_def)
  obtain ys where ys: "null_list (cp_list l) 0 (nlen l) = Some ys" "length ys = length (cp_list l)"
    "\<forall>j < length (cp_list l). ys ! j = (if 0 \<le> int j \<and> int j < nlen l then None else cp_list l ! j)"
    using null_list_ok [of 0 "nlen l" "cp_list l"] w by blast
  have "ys ! 0 = None" using ys(3) w assms by (auto simp: nta_inv_def split: if_splits)
  then have "nta_inv (l\<lparr>nused := 0, cp_list := ys\<rparr>)"
    using w ys(2) by (auto simp: nta_inv_def)
  then show ?thesis using ys(1) by (auto simp: cplob_shallow_reset_def nta_elems_def)
qed

text \<open>resetting an array empties it, whatever it held.\<close>

theorem strar_reset_holds:
  assumes "strar_holds a ss" "strob_room (storageM a) 1"
  shows "\<exists>a'. strar_reset a = Some a' \<and> strar_holds a' [] \<and> strar_num_elements a' = 0"
proof -
  have "strob_wf (storageM a)" "nta_inv (listM a)" using assms by (auto simp: strar_holds_def)
  then obtain st b l where st: "strob_strcpy (storageM a) [] = Some st" "strob_holds st []"
    and l: "cplob_shallow_reset (listM a) = Some l" "nta_inv l" "nta_elems l = []"
    using strob_strcpy_holds [of "storageM a" "[]"] assms(2) cplob_shallow_reset_ok by force
  have "sb_length st = 0"
    using st(1) by (auto simp: strob_strcpy_def strob_strcpy_at_offset_def bind_iff)
  then have "strar_holds (a\<lparr>lenM := 0, nsM := 0, storageM := st, listM := l\<rparr>) []"
    using st l by (simp add: strar_holds_def strob_holds_def)
  then show ?thesis using st l by (simp add: strar_reset_def strar_num_elements_def)
qed

lemma packed_append_length:
  "int (length (packed (ss @ ts))) = int (length (packed ss)) + int (length (packed ts))"
  by simp

lemma copy_scan_holds:
  assumes "strar_holds r ts" "list_all c_string ss" "strob_room (storageM r) (int (length (packed (ts @ ss))))"
  shows "\<exists>r'. list_scan (\<lambda>s ret. Inr (do { r \<leftarrow> ret; strar_add r s })) ss (Some r) = Some r' \<and>
     strar_holds r' (ts @ ss)"
  using assms
proof (induction ss arbitrary: r ts)
  case Nil
  then show ?case by simp
next
  case (Cons s ss)
  have room: "strob_room (storageM r) (int (length (packed ts)) + int (length s) + 1)"
    using Cons.prems(3) by (simp add: strob_room_def)
  obtain r1 where r1: "strar_add r s = Some r1" "strar_holds r1 (ts @ [s])"
    "sb_extra (storageM r1) = sb_extra (storageM r)"
    using strar_add_holds [OF Cons.prems(1) _ room] Cons.prems(2) by auto
  have "strob_room (storageM r1) (int (length (packed ((ts @ [s]) @ ss))))"
    using Cons.prems(3) r1(3) by (simp add: strob_room_def)
  then obtain r' where "list_scan (\<lambda>s ret. Inr (do { r \<leftarrow> ret; strar_add r s })) ss (Some r1) = Some r'"
    "strar_holds r' ((ts @ [s]) @ ss)"
    using Cons.IH [OF r1(2)] Cons.prems(2) by auto
  then show ?case using r1(1) by auto
qed

text \<open>copying an array yields one with the same strings.\<close>

theorem strar_copy_construct_holds:
  assumes "strar_holds a ss" "int (length (packed ss)) + STROB_LENGTHINCR < INT_LIMIT"
  shows "\<exists>r. strar_copy_construct a = Some r \<and> strar_holds r ss"
proof -
  obtain r0 where r0: "strar_open = Some r0" "strar_holds r0 []" "sb_extra (storageM r0) = STROB_LENGTHINCR"
    using strar_open_holds by blast
  have "strar_inv a" "strar_elems a = ss" "list_all c_string ss"
    using assms(1) strar_elems_eq by (auto simp: strar_inv_def strar_holds_def)
  moreover have "strob_room (storageM r0) (int (length (packed ([] @ ss))))"
    using assms(2) r0(3) by (simp add: strob_room_def)
  ultimately show ?thesis
    using copy_scan_holds [OF r0(2), of ss] r0(1)
    by (auto simp: strar_copy_construct_def sa.scan_all)
qed

text \<open>removing an element.\<close>

theorem strar_remove_index_elems:
  assumes "strar_holds a ss" "i < length ss"
  shows "\<exists>a'. strar_remove_index a (int i) = Some a' \<and>
     strar_elems a' = take i ss @ drop (Suc i) ss \<and>
     strar_num_elements a' = int (length (strar_elems a')) \<and>
     (\<forall>j < length (strar_elems a'). strar_get_string a' (int j) = Some (Some (strar_elems a' ! j)))"
proof -
  have i: "nta_inv (listM a)" and e: "nta_elems (listM a) = offsets 0 ss"
    and n: "nsM a = int (length ss)"
    using assms by (auto simp: strar_holds_def)
  obtain l where l: "cplob_remove_index (listM a) (int i) = Some (l, 0)" "nta_inv l"
    "nta_elems l = take i (offsets 0 ss) @ drop (Suc i) (offsets 0 ss)"
    using cplob_remove_index_ok [OF i] assms(2) e by fastforce
  let ?a = "a\<lparr>listM := l, nsM := nsM a - 1\<rparr>"
  have s: "strar_string ?a = strar_string a" by (auto simp: strar_string_def)
  have el: "strar_elems ?a = take i ss @ drop (Suc i) ss"
    using strar_string_nth [OF assms(1)] assms(2) s l(3)
    by (intro nth_equalityI) (auto simp: strar_elems_def nth_append)
  have "strar_get_string ?a (int j) = Some (Some (strar_elems ?a ! j))" if "j < length (strar_elems ?a)" for j
  proof -
    have "j < length (nta_elems l)" using that by (simp add: strar_elems_def)
    then have "cplob_val l (int j) = Some (Some (nta_elems l ! j))" "int j < nsM ?a"
      using cplob_val_elem [OF l(2), of "int j"] n l(3) assms(2) by auto
    moreover have "strar_string a (nta_elems l ! j) \<noteq> None"
      using \<open>j < length (nta_elems l)\<close> l(3) strar_string_nth [OF assms(1)] assms(2)
      by (auto simp: nth_append)
    ultimately show ?thesis
      using \<open>j < length (nta_elems l)\<close> s
      by (auto simp: strar_get_string_def strar_get_def strar_elems_def)
  qed
  with l(1) el n assms(2) show ?thesis
    by (auto simp: strar_remove_index_def strar_num_elements_def)
qed

text \<open>an index past the end leaves the pointers alone and still lowers the count, so the last
  string is no longer reachable through \<open>strar_get\<close>.\<close>

theorem strar_remove_index_past_end:
  assumes "strar_holds a ss" "ss \<noteq> []" "int (length ss) < i"
  shows "\<exists>a'. strar_remove_index a i = Some a' \<and> nta_elems (listM a') = nta_elems (listM a) \<and>
     strar_get_string a' (int (length ss) - 1) = Some None"
proof -
  have i: "nta_inv (listM a)" and e: "nta_elems (listM a) = offsets 0 ss"
    and n: "nsM a = int (length ss)"
    using assms by (auto simp: strar_holds_def)
  have nu: "nused (listM a) = int (length ss) + 1"
    using nta_elems_length [OF i] e assms(2) by (auto split: if_splits)
  then obtain l k where "cplob_remove_index (listM a) i = Some (l, k)" "nta_elems l = nta_elems (listM a)"
    using i assms(3) by (auto simp: cplob_remove_index_def nta_inv_def)
  then show ?thesis
    using n by (auto simp: strar_remove_index_def strar_get_string_def strar_get_def)
qed

section \<open>The properties at concrete inputs\<close>

lemma strar_two:
  "\<exists>a. do { a \<leftarrow> strar_open; a \<leftarrow> strar_add a ''ab''; strar_add a ''c'' } = Some a \<and>
     strar_holds a [''ab'', ''c''] \<and> strob_room (storageM a) 1"
proof -
  obtain a where a: "strar_open = Some a" "strar_holds a []" "sb_extra (storageM a) = 156"
    using strar_open_holds by (auto simp: STROB_LENGTHINCR_def)
  obtain b where b: "strar_add a ''ab'' = Some b" "strar_holds b [''ab'']" "sb_extra (storageM b) = 156"
    using strar_add_holds [OF a(2), of "''ab''"] a(3) by (auto simp: c_string_def strob_room_def packed_def)
  obtain c where "strar_add b ''c'' = Some c" "strar_holds c [''ab'', ''c'']" "sb_extra (storageM c) = 156"
    using strar_add_holds [OF b(2), of "''c''"] b(3) by (auto simp: c_string_def strob_room_def packed_def)
  moreover from this have "strob_room (storageM c) 1" by (simp add: strob_room_def)
  ultimately show ?thesis
    by (intro exI [of _ c] conjI) (simp_all only: a(1) b(1) Option.bind.bind_lunit)
qed

theorem strar_reset_holds_witness:
  "\<exists>a a'. strar_holds a [''ab'', ''c''] \<and> strar_reset a = Some a' \<and> strar_holds a' [] \<and> strar_num_elements a' = 0"
  using strar_two strar_reset_holds by blast

theorem strar_copy_construct_holds_witness:
  "\<exists>a r. strar_holds a [''ab'', ''c''] \<and> strar_copy_construct a = Some r \<and> strar_holds r [''ab'', ''c'']"
proof -
  obtain a where a: "strar_holds a [''ab'', ''c'']" using strar_two by blast
  have "int (length (packed [''ab'', ''c''])) + STROB_LENGTHINCR < INT_LIMIT"
    by (simp add: packed_def STROB_LENGTHINCR_def)
  then show ?thesis using strar_copy_construct_holds [OF a] a by blast
qed

theorem strar_remove_index_elems_witness:
  "\<exists>a a'. strar_holds a [''ab'', ''c''] \<and> strar_remove_index a 0 = Some a' \<and> strar_elems a' = [''c''] \<and>
     strar_get_string a' 0 = Some (Some ''c'')"
proof -
  obtain a where a: "strar_holds a [''ab'', ''c'']" using strar_two by blast
  show ?thesis using strar_remove_index_elems [OF a, of 0] a by auto
qed

theorem strar_remove_index_past_end_witness:
  "\<exists>a a'. strar_holds a [''ab'', ''c''] \<and> strar_remove_index a 9 = Some a' \<and>
     nta_elems (listM a') = nta_elems (listM a) \<and> strar_get_string a' 1 = Some None"
proof -
  obtain a where a: "strar_holds a [''ab'', ''c'']" using strar_two by blast
  show ?thesis using strar_remove_index_past_end [OF a, of 9] a by auto
qed

end
