(* ===== verification/ToOct.thy ===== *)
theory ToOct
  imports Prelude "HOL-Library.Char_ord"
begin

text \<open>
  The number fields of a tar header: \<open>swsupplib/taru/to_oct.c\<close> writes them, the scanners at the end
  of \<open>swsupplib/taru/otar.c\<close> read them. A field is a range \<open>[off, off + size)\<close> of a block; a write
  outside the block is \<^term>\<open>None\<close>. \<open>uintmax_t\<close>, \<open>size_t\<close> and \<open>long\<close> have 64 bits, \<open>int\<close>,
  \<open>uid_t\<close>, \<open>gid_t\<close> and \<open>mode_t\<close> 32. Diagnostics on the standard error are not part of the model.
\<close>

datatype archive_format = DEFAULT_FORMAT | V7_FORMAT | OLDGNU_FORMAT | POSIX_FORMAT | GNU_FORMAT

abbreviation LG_8 :: nat where "LG_8 \<equiv> 3"
abbreviation LG_256 :: nat where "LG_256 \<equiv> 8"
abbreviation CHAR_BIT :: nat where "CHAR_BIT \<equiv> 8"

abbreviation digit_char :: "nat \<Rightarrow> char" where "digit_char d \<equiv> char_of (48 + d)"

function stringify_uintmax_t_backwards :: "64 word \<Rightarrow> string \<Rightarrow> string" where
  "stringify_uintmax_t_backwards v buf =
     (let buf = digit_char (unat (v mod 10)) # buf; v = v div 10
      in if v \<noteq> 0 then stringify_uintmax_t_backwards v buf else buf)"
  by auto
termination
proof (relation "measure (\<lambda>(v, _). unat v)", goal_cases)
  case (2 v buf x xa)
  then have "v \<noteq> 0" by auto
  then have "0 < unat v" by (simp add: unat_gt_0)
  with 2 show ?case by (simp add: unat_div)
qed simp

declare stringify_uintmax_t_backwards.simps [simp del]

definition MAX_VAL_WITH_DIGITS :: "nat \<Rightarrow> nat \<Rightarrow> 64 word" where
  "MAX_VAL_WITH_DIGITS digits bits_per_digit =
     (if digits * bits_per_digit < 64 then push_bit (digits * bits_per_digit) 1 - 1 else - 1)"

text \<open>The loops run from the last byte of the field to the first; a field of size 0 makes the
  first store go to \<open>where[-1]\<close>.\<close>

fun to_octal_loop :: "64 word \<Rightarrow> nat \<Rightarrow> block \<Rightarrow> int \<Rightarrow> block option" where
  "to_octal_loop v 0 b off = Some b"
| "to_octal_loop v (Suc i) b off = do {
     b \<leftarrow> mem_write b (off + int i) [digit_char (unat (and v 7))];
     to_octal_loop (drop_bit LG_8 v) i b off }"

definition to_octal :: "64 word \<Rightarrow> block \<Rightarrow> int \<Rightarrow> nat \<Rightarrow> block option" where
  "to_octal v b off sz = (if sz = 0 then None else to_octal_loop v sz b off)"

fun to_base256_loop :: "64 word \<Rightarrow> 64 word \<Rightarrow> nat \<Rightarrow> block \<Rightarrow> int \<Rightarrow> block option" where
  "to_base256_loop psb v 0 b off = Some b"
| "to_base256_loop psb v (Suc i) b off = do {
     b \<leftarrow> mem_write b (off + int i) [char_of (unat (and v 255))];
     to_base256_loop psb (or psb (drop_bit LG_256 v)) i b off }"

definition to_base256 :: "bool \<Rightarrow> 64 word \<Rightarrow> block \<Rightarrow> int \<Rightarrow> nat \<Rightarrow> block option" where
  "to_base256 negative v b off sz =
     (if sz = 0 then None
      else to_base256_loop (push_bit (64 - LG_256) (if negative then - 1 else 0)) v sz b off)"

text \<open>\<open>substitute\<close> is the result (value and sign flag) that a call of the substitute function would
  give, \<^term>\<open>None\<close> for the null pointer.\<close>

function to_chars ::
  "bool \<Rightarrow> 64 word \<Rightarrow> nat \<Rightarrow> (64 word \<times> bool) option \<Rightarrow> block \<Rightarrow> int \<Rightarrow> nat \<Rightarrow> string \<Rightarrow>
   archive_format \<Rightarrow> char \<Rightarrow> block option" where
  "to_chars negative v valsize substitute b off sz type archive_format termch =
    (let base256_allowed = (archive_format = GNU_FORMAT \<or> archive_format = OLDGNU_FORMAT)
     in if \<not> negative \<and> v \<le> MAX_VAL_WITH_DIGITS (sz - 1) LG_8 then do {
          b \<leftarrow> mem_write b (off + int sz - 1) [termch];
          to_octal v b off (sz - 1) }
        else if type = ''uid_t'' \<or> type = ''gid_t'' then
          to_chars negative (xor 8 (of_nat (sz - 1))) valsize substitute b off sz ''id_again''
            archive_format termch
        else if (if negative then - 1 - v else v) \<le> MAX_VAL_WITH_DIGITS (sz - 1) LG_256
             \<and> base256_allowed then do {
          b \<leftarrow> mem_write b off [if negative then CHR 0xFF else CHR 0x80];
          to_base256 negative v b (off + 1) (sz - 1) }
        else if negative \<and> valsize * CHAR_BIT \<le> (sz - 1) * LG_8 then do {
          b \<leftarrow> mem_write b (off + int sz - 1) [NUL];
          to_octal (and v (MAX_VAL_WITH_DIGITS (valsize * CHAR_BIT) 1)) b off (sz - 1) }
        else
          let maxval = (if base256_allowed then MAX_VAL_WITH_DIGITS (sz - 1) LG_256
                        else MAX_VAL_WITH_DIGITS (sz - 1) LG_8)
          in case substitute of
               None \<Rightarrow> Some b
             | Some (sv, sneg) \<Rightarrow>
                 let sub = and sv maxval;
                     negsub = (sneg \<and> archive_format = GNU_FORMAT)
                 in to_chars negsub (if negsub then - sub else sub) valsize None b off sz type
                      archive_format termch)"
  by auto
termination
  by (relation "measure (\<lambda>(_, _, _, sub, _, _, _, ty, _, _).
        (if ty = ''uid_t'' \<or> ty = ''gid_t'' then 1 else 0) + (if sub = None then 0 else 1))") auto

declare to_chars.simps [simp del]

text \<open>The substitutes look up the account of the user (group) \<open>nobody\<close> once and keep it in a static
  variable; \<open>lookup\<close> is \<open>taru_get_uid_by_name\<close> (\<open>taru_get_gid_by_name\<close>), \<^term>\<open>None\<close> when it fails.
  The second result is the new value of the static variable.\<close>

definition id_substitute ::
  "(string \<Rightarrow> 32 word option) \<Rightarrow> 32 word \<Rightarrow> (64 word \<times> bool) \<times> 32 word" where
  "id_substitute lookup nobody =
     (if nobody = 0 then
        (case lookup ''nobody'' of
           None \<Rightarrow> ((ucast (- 2 :: 32 word), True), - 2)
         | Some i \<Rightarrow> ((ucast i, False), i))
      else ((ucast nobody, False), nobody))"

definition gid_to_chars ::
  "(64 word \<times> bool) \<Rightarrow> 32 word \<Rightarrow> block \<Rightarrow> int \<Rightarrow> nat \<Rightarrow> archive_format \<Rightarrow> char \<Rightarrow> block option" where
  "gid_to_chars gid_substitute v p off s fmt termch =
     to_chars False (ucast v) 4 (Some gid_substitute) p off s ''gid_t'' fmt termch"

definition uid_to_chars ::
  "(64 word \<times> bool) \<Rightarrow> 32 word \<Rightarrow> block \<Rightarrow> int \<Rightarrow> nat \<Rightarrow> archive_format \<Rightarrow> char \<Rightarrow> block option" where
  "uid_to_chars uid_substitute v p off s fmt termch =
     to_chars False (ucast v) 4 (Some uid_substitute) p off s ''uid_t'' fmt termch"

text \<open>\<open>major_t\<close> and \<open>minor_t\<close> are \<open>int\<close> (\<open>AC_CHECK_TYPE\<close> in \<open>swsupplib/configure.ac\<close>).\<close>

definition major_to_chars :: "32 word \<Rightarrow> block \<Rightarrow> int \<Rightarrow> nat \<Rightarrow> archive_format \<Rightarrow> char \<Rightarrow> block option" where
  "major_to_chars v p off s fmt termch =
     to_chars (sint v < 0) (scast v) 4 None p off s ''major_t'' fmt termch"

definition minor_to_chars :: "32 word \<Rightarrow> block \<Rightarrow> int \<Rightarrow> nat \<Rightarrow> archive_format \<Rightarrow> char \<Rightarrow> block option" where
  "minor_to_chars v p off s fmt termch =
     to_chars (sint v < 0) (scast v) 4 None p off s ''minor_t'' fmt termch"

text \<open>The bits \<open>mode_to_chars\<close> knows: on the supported hosts each \<open>S_I...\<close> constant equals the
  \<open>T...\<close> constant of the archive format, so both lists are written once.\<close>

definition mode_bits :: "(64 word \<times> 64 word) list" where
  "mode_bits = [(0x800, 0x800), (0x400, 0x400), (0x200, 0x200),
     (0x100, 0x100), (0x080, 0x080), (0x040, 0x040),
     (0x020, 0x020), (0x010, 0x010), (0x008, 0x008),
     (0x004, 0x004), (0x002, 0x002), (0x001, 0x001)]"

definition mode_to_chars :: "32 word \<Rightarrow> block \<Rightarrow> int \<Rightarrow> nat \<Rightarrow> archive_format \<Rightarrow> char \<Rightarrow> block option" where
  "mode_to_chars v p off s fmt termch =
     (let w = ucast v :: 64 word;
          u = (if (\<forall>(S, T) \<in> set mode_bits. S = T) \<and> fmt \<noteq> POSIX_FORMAT \<and> fmt \<noteq> GNU_FORMAT then w
               else foldr (\<lambda>(S, T) u. or (if and w S \<noteq> 0 then T else 0) u) mode_bits 0)
      in to_chars False u 4 None p off s ''mode_t'' fmt termch)"

definition off_to_chars :: "64 word \<Rightarrow> block \<Rightarrow> int \<Rightarrow> nat \<Rightarrow> archive_format \<Rightarrow> char \<Rightarrow> block option" where
  "off_to_chars v p off s fmt termch = to_chars (sint v < 0) v 8 None p off s ''off_t'' fmt termch"

definition size_to_chars :: "64 word \<Rightarrow> block \<Rightarrow> int \<Rightarrow> nat \<Rightarrow> archive_format \<Rightarrow> char \<Rightarrow> block option" where
  "size_to_chars v p off s fmt termch = to_chars False v 8 None p off s ''size_t'' fmt termch"

definition time_to_chars :: "64 word \<Rightarrow> block \<Rightarrow> int \<Rightarrow> nat \<Rightarrow> archive_format \<Rightarrow> char \<Rightarrow> block option" where
  "time_to_chars v p off s fmt termch = to_chars (sint v < 0) v 8 None p off s ''time_t'' fmt termch"

definition uintmax_to_chars :: "64 word \<Rightarrow> block \<Rightarrow> int \<Rightarrow> nat \<Rightarrow> archive_format \<Rightarrow> char \<Rightarrow> block option" where
  "uintmax_to_chars v p off s fmt termch = to_chars False v 8 None p off s ''uintmax_t'' fmt termch"

section \<open>Reading number fields\<close>

definition isspace :: "char \<Rightarrow> bool" where
  "isspace c \<longleftrightarrow> c \<in> set [CHR '' '', CHR 0x09, CHR 0x0A, CHR 0x0B, CHR 0x0C, CHR 0x0D]"

definition isodigit :: "char \<Rightarrow> bool" where
  "isodigit c \<longleftrightarrow> CHR ''0'' \<le> c \<and> c \<le> CHR ''7''"

definition digit_val :: "char \<Rightarrow> nat" where
  "digit_val c = of_char c - 48"

text \<open>\<open>taru_from_oct\<close> reads at most \<open>digs\<close> bytes at \<open>where\<close>. Its \<open>long\<close> holds every value of up to
  20 digits; it is an unbounded integer here.\<close>

function from_oct_spaces :: "int \<Rightarrow> block \<Rightarrow> int \<Rightarrow> (int \<times> int) option option" where
  "from_oct_spaces digs b p = do {
     c \<leftarrow> c_read b p;
     if isspace c then
       (if digs - 1 \<le> 0 then Some None else from_oct_spaces (digs - 1) b (p + 1))
     else Some (Some (digs, p)) }"
  by auto
termination by (relation "measure (\<lambda>(digs, b, p). nat digs)") auto

function from_oct_digits :: "int \<Rightarrow> block \<Rightarrow> int \<Rightarrow> int \<Rightarrow> (int \<times> int \<times> int) option" where
  "from_oct_digits digs b p value =
     (if digs > 0 then do {
        c \<leftarrow> c_read b p;
        if isodigit c then from_oct_digits (digs - 1) b (p + 1) (8 * value + int (digit_val c))
        else Some (value, digs, p) }
      else Some (value, digs, p))"
  by auto
termination by (relation "measure (\<lambda>(digs, b, p, v). nat digs)") auto

declare from_oct_spaces.simps [simp del] from_oct_digits.simps [simp del]

definition taru_from_oct :: "int \<Rightarrow> block \<Rightarrow> int \<Rightarrow> int option" where
  "taru_from_oct digs b p = do {
     r \<leftarrow> from_oct_spaces digs b p;
     case r of
       None \<Rightarrow> Some (- 1)
     | Some (digs, p) \<Rightarrow> do {
         (value, digs, p) \<leftarrow> from_oct_digits digs b p 0;
         if digs > 0 then do {
           c \<leftarrow> c_read b p;
           Some (if c \<noteq> NUL \<and> \<not> isspace c then - 1 else value) }
         else Some value } }"

text \<open>\<open>taru_to_oct\<close>: the digits end one byte before the last two bytes, of which the first becomes a
  space and the second is left alone.\<close>

function to_oct_digits :: "int \<Rightarrow> int \<Rightarrow> block \<Rightarrow> int \<Rightarrow> (block \<times> int) option" where
  "to_oct_digits value digits b p = do {
     b \<leftarrow> mem_write b (p + digits - 1) [digit_char (nat (value mod 8))];
     if digits - 1 > 0 \<and> value div 8 \<noteq> 0 then to_oct_digits (value div 8) (digits - 1) b p
     else Some (b, digits - 1) }"
  by auto
termination by (relation "measure (\<lambda>(v, digits, b, p). nat digits)") auto

declare to_oct_digits.simps [simp del]

definition taru_to_oct :: "int \<Rightarrow> int \<Rightarrow> block \<Rightarrow> int \<Rightarrow> block option" where
  "taru_to_oct value digits b p = do {
     b \<leftarrow> mem_write b (p + digits - 2) [CHR '' ''];
     (b, digits) \<leftarrow> to_oct_digits value (digits - 2) b p;
     if digits > 0 then mem_set b p CHR '' '' digits else Some b }"

text \<open>The scanners of NUL terminated fields. \<open>taru_datoul\<close> returns 0 on success, 1 when characters
  are left over and 2 on overflow; \<open>taru_otoul\<close> and \<open>taru_otoumax\<close> return whether the string was
  consumed. An overflow leaves \<open>*n\<close> unset.\<close>

fun datoul_digits :: "string \<Rightarrow> 64 word \<Rightarrow> 64 word \<Rightarrow> string \<times> 64 word \<times> 64 word" where
  "datoul_digits [] oldval val = ([], oldval, val)"
| "datoul_digits (c # s) oldval val =
     (if CHR ''0'' \<le> c \<and> c \<le> CHR ''9'' \<and> val \<ge> oldval
      then datoul_digits s val (10 * val + of_nat (digit_val c))
      else (c # s, oldval, val))"

definition taru_datoul :: "string \<Rightarrow> int \<times> 64 word option" where
  "taru_datoul s =
     (let (s, oldval, val) = datoul_digits (dropWhile (\<lambda>c. c = CHR '' '') s) 0 0
      in if oldval \<noteq> 0 \<and> val div oldval < 10 then (2, None)
         else let s = dropWhile (\<lambda>c. c = CHR '' '') s in (if s = [] then 0 else 1, Some val))"

fun otoul_digits :: "string \<Rightarrow> 64 word \<Rightarrow> string \<times> 64 word" where
  "otoul_digits [] val = ([], val)"
| "otoul_digits (c # s) val =
     (if isodigit c then otoul_digits s (8 * val + of_nat (digit_val c)) else (c # s, val))"

definition taru_otoumax :: "string \<Rightarrow> bool \<times> 64 word" where
  "taru_otoumax s =
     (let (s, val) = otoul_digits (dropWhile (\<lambda>c. c = CHR '' '') s) 0
      in (dropWhile (\<lambda>c. c = CHR '' '') s = [], val))"

text \<open>\<open>taru_otoul\<close> has the same body with \<open>unsigned long\<close> for \<open>uintmax_t\<close>, both 64 bits wide.\<close>

definition taru_otoul :: "string \<Rightarrow> bool \<times> 64 word" where
  "taru_otoul s =
     (let (s, val) = otoul_digits (dropWhile (\<lambda>c. c = CHR '' '') s) 0
      in (dropWhile (\<lambda>c. c = CHR '' '') s = [], val))"

section \<open>Octal digit strings\<close>

fun octal_digits :: "nat \<Rightarrow> nat \<Rightarrow> string" where
  "octal_digits x 0 = []"
| "octal_digits x (Suc n) = octal_digits (x div 8) n @ [digit_char (x mod 8)]"

lemma length_octal_digits [simp]: "length (octal_digits x n) = n"
  by (induction x n rule: octal_digits.induct) auto

lemma digit_char_val [simp]: "d < 10 \<Longrightarrow> digit_val (digit_char d) = d"
  by (simp add: digit_val_def of_char_of)

lemma digit_char_isodigit [simp]: "d < 8 \<Longrightarrow> isodigit (digit_char d)"
  unfolding isodigit_def less_eq_char_def by (simp add: of_char_of)

lemma octal_digits_isodigit: "c \<in> set (octal_digits x n) \<Longrightarrow> isodigit c"
  by (induction x n rule: octal_digits.induct) (auto simp del: One_nat_def)

lemma isodigit_not: "isodigit c \<Longrightarrow> c \<noteq> NUL" "isodigit c \<Longrightarrow> c \<noteq> CHR '' ''"
    "isodigit c \<Longrightarrow> \<not> isspace c"
  by (auto simp: isodigit_def isspace_def less_eq_char_def)

lemma c_string_octal_digits [simp]: "c_string (octal_digits x n)"
  unfolding c_string_def using octal_digits_isodigit isodigit_not(1) by blast

lemma word64_8_low: "unat (and v (7 :: 64 word)) = unat v mod 8"
proof -
  have "and v (7 :: 64 word) = take_bit 3 v" by (simp add: take_bit_eq_mask mask_numeral)
  then show ?thesis by (simp only: unsigned_take_bit_eq) (simp add: take_bit_eq_mod)
qed

lemma word64_drop3: "unat (drop_bit 3 (v :: 64 word)) = unat v div 8"
  by (simp add: drop_bit_eq_div unat_div)

lemma to_octal_loop_digits:
  assumes "0 \<le> off" "off + int n \<le> int (length b)"
  shows "to_octal_loop v n b off = mem_write b off (octal_digits (unat v) n)"
  using assms
proof (induction v n b off rule: to_octal_loop.induct)
  case (1 v b off)
  then show ?case by (simp add: mem_write_def)
next
  case (2 v i b off)
  let ?d = "[digit_char (unat (and v 7))]" and ?ds = "octal_digits (unat v div 8) i"
  obtain b' where b': "mem_write b off (?ds @ ?d) = Some b'"
    using "2.prems" by (simp add: mem_write_def)
  obtain b1 where b1: "mem_write b (off + int i) ?d = Some b1" "mem_write b1 off ?ds = Some b'"
    using mem_write_snoc [OF b'] by (auto simp: bind_iff)
  have "to_octal_loop (drop_bit LG_8 v) i b1 off = mem_write b1 off ?ds"
    using "2.IH" [OF b1(1)] "2.prems" mem_write_length [OF b1(1)] by (simp only: word64_drop3)
  with b' b1 show ?case by (simp add: word64_8_low)
qed


lemma MAX_VAL_octal: "n \<le> 21 \<Longrightarrow> unat (MAX_VAL_WITH_DIGITS n LG_8) = 8 ^ n - 1"
proof -
  assume n: "n \<le> 21"
  have "unat (push_bit (n * 3) (1 :: 64 word)) = 2 ^ (n * 3)"
  proof -
    have "push_bit (n * 3) (1 :: 64 word) = of_nat (2 ^ (n * 3))" by (simp add: push_bit_eq_mult)
    moreover have "(2 :: nat) ^ (n * 3) < 2 ^ 64" using n by (intro power_strict_increasing) auto
    ultimately show ?thesis by (simp only: unat_of_nat) (simp add: take_bit_nat_eq_self)
  qed
  moreover have "(2 :: nat) ^ (n * 3) = 8 ^ n" by (simp add: mult.commute [of n] power_mult)
  moreover have "push_bit (n * 3) (1 :: 64 word) \<noteq> 0"
    using calculation by (metis unsigned_0 power_not_zero zero_neq_numeral)
  ultimately show ?thesis using n by (simp add: MAX_VAL_WITH_DIGITS_def unat_minus_one)
qed

text \<open>Writing a value that fits: the digits and the terminator.\<close>

lemma to_chars_fits:
  assumes "2 \<le> n" "n \<le> 22" "unat v < 8 ^ (n - 1)" "0 \<le> off" "off + int n \<le> int (length b)"
  shows "to_chars False v k sub b off n type fmt c = mem_write b off (octal_digits (unat v) (n - 1) @ [c])"
proof -
  obtain m where m: "n = Suc m" "1 \<le> m" using assms(1) by (cases n) auto
  have "v \<le> MAX_VAL_WITH_DIGITS (n - 1) LG_8"
    using MAX_VAL_octal [of "n - 1"] assms(2,3) by (simp add: word_le_nat_alt)
  moreover obtain b' where b': "mem_write b off (octal_digits (unat v) m @ [c]) = Some b'"
    using assms m by (simp add: mem_write_def)
  moreover obtain b1 where b1: "mem_write b (off + int m) [c] = Some b1"
    "mem_write b1 off (octal_digits (unat v) m) = Some b'"
    using mem_write_snoc [OF b'] by (auto simp: bind_iff)
  moreover have "to_octal v b1 off m = mem_write b1 off (octal_digits (unat v) m)"
    using assms m mem_write_length [OF b1(1)] by (simp add: to_octal_def to_octal_loop_digits)
  ultimately show ?thesis
    using m by (subst to_chars.simps) (simp add: Let_def)
qed

lemma otoul_digits_append:
  "list_all isodigit ds \<Longrightarrow>
   otoul_digits (ds @ rest) v = otoul_digits rest (foldl (\<lambda>v c. 8 * v + of_nat (digit_val c)) v ds)"
  by (induction ds arbitrary: v) auto

lemma foldl_octal_digits:
  "foldl (\<lambda>v c. 8 * v + of_nat (digit_val c)) (v :: 64 word) (octal_digits x n)
   = v * 8 ^ n + of_nat (x mod 8 ^ n)"
proof (induction n arbitrary: x)
  case 0
  then show ?case by simp
next
  case (Suc n)
  have "x mod 8 ^ Suc n = 8 * (x div 8 mod 8 ^ n) + x mod 8"
    by (simp add: mod_mult2_eq)
  then have "(of_nat (x mod 8 ^ Suc n) :: 64 word) = 8 * of_nat (x div 8 mod 8 ^ n) + of_nat (x mod 8)"
    by (simp only: of_nat_add of_nat_mult of_nat_numeral)
  with Suc.IH [of "x div 8"] show ?case by (simp add: algebra_simps)
qed

lemma otoul_digits_stop: "rest = [] \<or> \<not> isodigit (hd rest) \<Longrightarrow> otoul_digits rest v = (rest, v)"
  by (cases rest) auto

lemma octal_digits_parse:
  assumes "rest = [] \<or> \<not> isodigit (hd rest)"
  shows "otoul_digits (octal_digits x n @ rest) 0 = (rest, of_nat (x mod 8 ^ n))"
  using assms octal_digits_isodigit
  by (subst otoul_digits_append) (auto simp: foldl_octal_digits otoul_digits_stop list_all_iff)

lemma dropWhile_octal_digits:
  assumes "0 < n"
  shows "dropWhile (\<lambda>c. c = CHR '' '') (octal_digits x n @ rest) = octal_digits x n @ rest"
proof -
  have "octal_digits x n \<noteq> []" using assms by (metis length_octal_digits less_numeral_extra(3) list.size(3))
  then obtain c cs where c: "octal_digits x n = c # cs" by (cases "octal_digits x n") auto
  then have "isodigit c" using octal_digits_isodigit [of c x n] by simp
  then show ?thesis using c isodigit_not(2) by auto
qed

lemma otoumax_octal_digits:
  assumes "0 < n" "rest = [] \<or> \<not> isodigit (hd rest)" "x < 8 ^ n"
  shows "taru_otoumax (octal_digits x n @ rest) = (dropWhile (\<lambda>c. c = CHR '' '') rest = [], of_nat x)"
  using assms by (simp add: taru_otoumax_def dropWhile_octal_digits octal_digits_parse)

lemma taru_otoul_otoumax: "taru_otoul = taru_otoumax"
  by (simp add: fun_eq_iff taru_otoul_def taru_otoumax_def)

lemma c_read_nth: "0 \<le> p \<Longrightarrow> p < int (length b) \<Longrightarrow> c_read b p = Some (b ! nat p)"
  by (simp add: c_read_def)

lemma c_read_drop:
  assumes "0 \<le> p" "drop (nat p) b = c # r"
  shows "c_read b p = Some c"
proof -
  have "drop (nat p) b \<noteq> []" using assms(2) by simp
  then have "nat p < length b" by simp
  with assms show ?thesis by (simp add: c_read_def nth_via_drop nat_less_iff)
qed

text \<open>\<open>taru_from_oct\<close> on a block that holds digits at \<open>p\<close>.\<close>

lemma from_oct_digits_run:
  assumes "take (length ds) (drop (nat p) b) = ds" "list_all isodigit ds" "0 \<le> p"
  shows "from_oct_digits (int (length ds) + k) b p v =
    from_oct_digits k b (p + int (length ds)) (foldl (\<lambda>v c. 8 * v + int (digit_val c)) v ds)
    \<or> k < 0"
  using assms
proof (induction ds arbitrary: p v)
  case Nil
  then show ?case by simp
next
  case (Cons d ds)
  have "drop (nat p) b \<noteq> []" using Cons.prems(1) by auto
  then have len: "nat p < length b" by simp
  then have d: "b ! nat p = d" and "take (length ds) (drop (nat (p + 1)) b) = ds"
    using Cons.prems by (auto simp: nat_add_distrib Cons_nth_drop_Suc [symmetric])
  with Cons.IH [of "p + 1" "8 * v + int (digit_val d)"] Cons.prems len show ?case
    by (subst from_oct_digits.simps) (auto simp: c_read_def ac_simps)
qed

lemma foldl_octal_digits_int:
  "foldl (\<lambda>v c. 8 * v + int (digit_val c)) v (octal_digits x n) = v * 8 ^ n + int (x mod 8 ^ n)"
proof (induction n arbitrary: x)
  case 0
  then show ?case by simp
next
  case (Suc n)
  have "x mod 8 ^ Suc n = 8 * (x div 8 mod 8 ^ n) + x mod 8"
    by (simp add: mod_mult2_eq)
  with Suc.IH [of "x div 8"] show ?case by (simp add: algebra_simps)
qed

lemma from_oct_spaces_run:
  assumes "take (length sp) (drop (nat p) b) = sp" "list_all isspace sp" "0 \<le> p" "0 < k"
    "p + int (length sp) < int (length b)" "\<not> isspace (b ! nat (p + int (length sp)))"
  shows "from_oct_spaces (int (length sp) + k) b p = Some (Some (k, p + int (length sp)))"
  using assms
proof (induction sp arbitrary: p)
  case Nil
  then show ?case by (subst from_oct_spaces.simps) (simp add: c_read_def)
next
  case (Cons d ds)
  have "drop (nat p) b \<noteq> []" using Cons.prems(1) by auto
  then have len: "nat p < length b" by simp
  then have d: "b ! nat p = d" and "take (length ds) (drop (nat (p + 1)) b) = ds"
    using Cons.prems by (auto simp: nat_add_distrib Cons_nth_drop_Suc [symmetric])
  with Cons.IH [of "p + 1"] Cons.prems len show ?case
    by (subst from_oct_spaces.simps) (auto simp: c_read_def ac_simps)
qed

text \<open>A field of blanks, octal digits and a terminator is read back, whether the terminator is a
  blank or NUL.\<close>

lemma taru_from_oct_field:
  assumes "take (length sp + n + 1) (drop (nat p) b) = sp @ octal_digits x n @ [c]"
    "list_all isspace sp" "0 \<le> p" "0 < n" "x < 8 ^ n" "c = NUL \<or> isspace c"
    "int (length sp + n) \<le> digs"
  shows "taru_from_oct digs b p = Some (int x)"
proof -
  let ?ds = "octal_digits x n" and ?q = "p + int (length sp)"
  define m where "m = digs - int (length sp) - int n"
  have m: "0 \<le> m" "digs = int (length sp) + (int (length ?ds) + m)" using assms(7) by (auto simp: m_def)
  obtain r where r: "drop (nat p) b = sp @ ?ds @ c # r"
    by (metis assms(1) append_Cons append_Nil append_assoc append_take_drop_id)
  have q: "nat ?q = nat p + length sp" using assms(3) by simp
  have dq: "drop (nat ?q) b = ?ds @ c # r" unfolding q using r by (simp add: add.commute [of "nat p"] flip: drop_drop)
  then have lenq: "nat ?q < length b" by (metis append_is_Nil_conv drop_all list.simps(3) not_le)
  have hd: "b ! nat ?q = hd (?ds @ c # r)" using dq lenq by (metis hd_drop_conv_nth)
  obtain d ds' where ds: "?ds = d # ds'" using assms(4) by (cases ?ds) (auto dest: arg_cong [of _ _ length])
  have "\<not> isspace (b ! nat ?q)" using hd ds octal_digits_isodigit [of d x n] isodigit_not(3) by simp
  then have s1: "from_oct_spaces digs b p = Some (Some (int (length ?ds) + m, ?q))"
    unfolding m(2) using assms(2,3,4) m(1) lenq r
    by (intro from_oct_spaces_run) auto
  have "list_all isodigit ?ds" using octal_digits_isodigit by (auto simp: list_all_iff)
  then have s2: "from_oct_digits (int (length ?ds) + m) b ?q 0
      = from_oct_digits m b (?q + int n) (int x)"
    using from_oct_digits_run [of ?ds ?q b m 0] dq assms(3,5) m(1)
    by (simp add: foldl_octal_digits_int)
  have n: "nat (?q + int n) = nat ?q + n" using assms(3) by simp
  have "drop (nat (?q + int n)) b = c # r" unfolding n using dq by (simp add: add.commute [of _ n] flip: drop_drop del: nat_add_distrib)
  then have rd: "c_read b (?q + int n) = Some c"
    using assms(3) by (intro c_read_drop) auto
  have "\<not> isodigit c" using assms(6) isodigit_not by auto
  then have s3: "from_oct_digits m b (?q + int n) (int x) = Some (int x, m, ?q + int n)"
    using rd by (subst from_oct_digits.simps) auto
  show ?thesis using s1 s2 s3 rd assms(6) by (auto simp: taru_from_oct_def)
qed

section \<open>Properties\<close>

text \<open>C35: a value that fits is written as zero padded octal digits and a terminator and is read back
  by both scanners; the bytes outside the field stay.\<close>

theorem uintmax_field_roundtrip:
  assumes "2 \<le> n" "n \<le> 22" "unat v < 8 ^ (n - 1)" "0 \<le> off" "off + int n \<le> int (length b)"
    and "c = NUL \<or> c = CHR '' ''"
  shows "\<exists>b'. uintmax_to_chars v b off n fmt c = Some b' \<and> length b' = length b \<and>
     (\<forall>j < length b. int j < off \<or> off + int n \<le> int j \<longrightarrow> b' ! j = b ! j) \<and>
     taru_from_oct (int n) b' off = Some (uint v) \<and>
     snd (taru_otoumax (cstr (drop (nat off) b'))) = v \<and>
     (c = NUL \<longrightarrow> fst (taru_otoumax (cstr (drop (nat off) b'))))"
proof -
  let ?ds = "octal_digits (unat v) (n - 1)"
  define b' where "b' = take (nat off) b @ (?ds @ [c]) @ drop (nat off + n) b"
  have w: "mem_write b off (?ds @ [c]) = Some b'"
    using assms(1,4,5) by (simp add: mem_write_def b'_def)
  then have put: "uintmax_to_chars v b off n fmt c = Some b'"
    using to_chars_fits [OF assms(1-5)] by (simp add: uintmax_to_chars_def)
  have len: "length b' = length b" by (rule mem_write_length [OF w])
  have o: "nat off \<le> length b" using assms by linarith
  have d: "drop (nat off) b' = ?ds @ c # drop (nat off + n) b" using o by (simp add: b'_def)
  have out: "b' ! j = b ! j" if "j < length b" "int j < off \<or> off + int n \<le> int j" for j
    using mem_write_nth [OF w that(1)] that(2) assms(1) by auto
  have fo: "taru_from_oct (int n) b' off = Some (int (unat v))"
    by (rule taru_from_oct_field [where sp = "[]" and n = "n - 1" and c = c])
      (use assms d in \<open>auto simp: isspace_def\<close>)
  have rest: "cstr (drop (nat off) b') = ?ds @ cstr (c # drop (nat off + n) b)"
    using d octal_digits_isodigit isodigit_not(1) by (simp add: cstr_def takeWhile_append2)
  have "taru_otoumax (cstr (drop (nat off) b'))
      = (dropWhile (\<lambda>c. c = CHR '' '') (cstr (c # drop (nat off + n) b)) = [], of_nat (unat v))"
    unfolding rest by (rule otoumax_octal_digits)
      (use assms in \<open>auto simp: cstr_def isodigit_def less_eq_char_def\<close>)
  with put len out fo show ?thesis by (auto simp: cstr_def)
qed

text \<open>an id above the range of its field. The expression \<open>8 ^ (size - 1)\<close> is an exclusive or in C,
  so what is stored is 15 for the eight byte fields.\<close>

theorem uid_to_chars_oversized:
  assumes "8 ^ 7 \<le> unat v" "0 \<le> off" "off + 8 \<le> int (length b)"
  shows "uid_to_chars sub v b off 8 fmt c = mem_write b off (''0000017'' @ [c]) \<and>
         gid_to_chars sub v b off 8 fmt c = mem_write b off (''0000017'' @ [c])"
proof -
  have "unat v < 2 ^ 32" using unsigned_less [of v, where ?'a = nat] by simp
  then have "unat v < 2 ^ 64" by simp
  then have "unat (ucast v :: 64 word) = unat v" by (simp add: unsigned_ucast_eq take_bit_nat_eq_self)
  then have big: "\<not> (ucast v :: 64 word) \<le> MAX_VAL_WITH_DIGITS 7 LG_8"
    using assms(1) MAX_VAL_octal [of 7] by (simp add: word_le_nat_alt)
  have "to_chars False 15 4 (Some sub) b off 8 ''id_again'' fmt c
      = mem_write b off (octal_digits (unat (15 :: 64 word)) (8 - 1) @ [c])"
    using assms by (intro to_chars_fits) auto
  moreover have "octal_digits (unat (15 :: 64 word)) (8 - 1) = ''0000017''" by code_simp
  moreover have "xor 8 (of_nat (8 - 1)) = (15 :: 64 word)" by code_simp
  ultimately have again: "to_chars False (xor 8 (of_nat (8 - 1))) 4 (Some sub) b off 8 ''id_again'' fmt c
      = mem_write b off (''0000017'' @ [c])" by simp
  show ?thesis
    unfolding uid_to_chars_def gid_to_chars_def
    using big again by (subst (1 2) to_chars.simps) (simp add: Let_def)
qed


text \<open>The value of a decimal digit string.\<close>

definition dec_value :: "string \<Rightarrow> nat" where
  "dec_value = foldl (\<lambda>v c. 10 * v + digit_val c) 0"

definition dec_digits :: "string \<Rightarrow> bool" where
  "dec_digits s \<longleftrightarrow> list_all (\<lambda>c. CHR ''0'' \<le> c \<and> c \<le> CHR ''9'') s"


abbreviation dec_step :: "nat \<Rightarrow> char \<Rightarrow> nat" where "dec_step v c \<equiv> 10 * v + digit_val c"

text \<open>After an overflow the last step has wrapped: the previous value is at least a tenth of the
  range and the new one is less than ten times it. Another step wraps again.\<close>

definition wrapped :: "64 word \<Rightarrow> 64 word \<Rightarrow> bool" where
  "wrapped oldval val \<longleftrightarrow> 1844674407370955161 \<le> unat oldval \<and> unat val < 10 * unat oldval \<and>
     (unat oldval = 1844674407370955161 \<longrightarrow> val < oldval)"

lemma unat_dec_step: "unat (10 * v + of_nat d :: 64 word) = (10 * unat v + d) mod 2 ^ 64"
proof -
  have "10 * v + of_nat d = (of_nat (10 * unat v + d) :: 64 word)" by simp
  then show ?thesis by (simp only: unat_of_nat) (simp add: take_bit_eq_mod)
qed

lemma dec_digit_le: "CHR ''0'' \<le> c \<Longrightarrow> c \<le> CHR ''9'' \<Longrightarrow> digit_val c \<le> 9"
  by (simp add: digit_val_def less_eq_char_def)

lemma dec_step_wraps:
  assumes "2 ^ 64 \<le> 10 * unat (v :: 64 word) + d" "d \<le> 9"
  shows "wrapped v (10 * v + of_nat d)"
proof -
  let ?n = "10 * unat v + d"
  have "?n mod 2 ^ 64 + 2 ^ 64 \<le> ?n"
    using le_mod_geq [OF assms(1)] mod_less_eq_dividend [of "?n - 2 ^ 64" "2 ^ 64"] assms(1)
    by linarith
  moreover have "1844674407370955161 \<le> unat v" using assms by simp
  ultimately show ?thesis
    using assms(2) by (auto simp: wrapped_def unat_dec_step word_less_nat_alt)
qed

lemma datoul_wrapped:
  "wrapped oldval val \<Longrightarrow> case datoul_digits s oldval val of (_, o', v') \<Rightarrow> wrapped o' v'"
proof (induction s oldval val rule: datoul_digits.induct)
  case (1 oldval val)
  then show ?case by simp
next
  case (2 c s oldval val)
  show ?case
  proof (cases "CHR ''0'' \<le> c \<and> c \<le> CHR ''9'' \<and> val \<ge> oldval")
    case False
    with "2.prems" show ?thesis by auto
  next
    case True
    then have "unat oldval \<noteq> 1844674407370955161" "unat oldval \<le> unat val"
      using "2.prems" by (auto simp: wrapped_def word_le_nat_alt word_less_nat_alt)
    then have "2 ^ 64 \<le> 10 * unat val + digit_val c"
      using "2.prems" by (simp add: wrapped_def)
    then have "wrapped val (10 * val + of_nat (digit_val c))"
      using True dec_digit_le by (intro dec_step_wraps) auto
    then show ?thesis using "2.IH" True by simp
  qed
qed

lemma foldl_dec_step_mono: "n \<le> foldl dec_step n ds"
proof (induction ds arbitrary: n)
  case (Cons c ds)
  from Cons.IH [of "dec_step n c"] show ?case by simp
qed simp

lemma datoul_digits_run:
  assumes "dec_digits ds" "oldval \<noteq> 0 \<longrightarrow> 10 * unat oldval \<le> unat val"
    "rest = [] \<or> \<not> (CHR ''0'' \<le> hd rest \<and> hd rest \<le> CHR ''9'')"
  shows "case datoul_digits (ds @ rest) oldval val of (r, o', v') \<Rightarrow>
     (if foldl dec_step (unat val) ds < 2 ^ 64
      then r = rest \<and> unat v' = foldl dec_step (unat val) ds \<and> (o' \<noteq> 0 \<longrightarrow> 10 * unat o' \<le> unat v')
      else wrapped o' v')"
  using assms(1,2)
proof (induction ds arbitrary: oldval val)
  case Nil
  have "unat val < 2 ^ 64" using unsigned_less [of val, where ?'a = nat] by simp
  with Nil assms(3) show ?case by (cases rest) auto
next
  case (Cons c ds)
  have c: "CHR ''0'' \<le> c" "c \<le> CHR ''9''" "dec_digits ds" using Cons.prems(1) by (auto simp: dec_digits_def)
  have ge: "oldval \<le> val" using Cons.prems(2) by (cases "oldval = 0") (auto simp: word_le_nat_alt)
  let ?v = "10 * val + of_nat (digit_val c)" and ?n = "10 * unat val + digit_val c"
  show ?case
  proof (cases "?n < 2 ^ 64")
    case True
    then have v: "unat ?v = ?n" by (simp only: unat_dec_step mod_less)
    then have "val \<noteq> 0 \<longrightarrow> 10 * unat val \<le> unat ?v" by simp
    from Cons.IH [OF c(3) this, unfolded v] show ?thesis using c ge by (auto split: prod.splits if_splits)
  next
    case False
    then have "wrapped val ?v" using dec_digit_le [OF c(1,2)] by (intro dec_step_wraps) auto
    from datoul_wrapped [OF this, of "ds @ rest"] show ?thesis
      using c ge False foldl_dec_step_mono [of ?n ds] by (auto split: prod.splits)
  qed
qed

text \<open>the decimal scanner returns the value of a digit string between blanks, and reports an
  overflow exactly when the value does not fit an \<open>unsigned long\<close>, although it multiplies with
  wrap-around and only compares neighbouring values.\<close>

theorem taru_datoul_decimal:
  assumes "dec_digits ds"
  shows "taru_datoul (replicate k CHR '' '' @ ds @ replicate m CHR '' '') =
    (if dec_value ds < 2 ^ 64 then (0, Some (of_nat (dec_value ds))) else (2, None))"
proof -
  let ?sp = "\<lambda>c. c = CHR '' ''" and ?rest = "replicate m CHR '' ''"
  have sp: "dropWhile ?sp (replicate k CHR '' '' @ ys) = dropWhile ?sp ys" for k ys
    by (induction k) auto
  define rs where "rs = (if ds = [] then [] else ?rest)"
  have rest: "rs = [] \<or> \<not> (CHR ''0'' \<le> hd rs \<and> hd rs \<le> CHR ''9'')"
    by (cases m) (auto simp: less_eq_char_def rs_def)
  have ds: "dropWhile ?sp (ds @ ?rest) = ds @ rs"
    using assms sp [of m "[]"] by (cases ds) (auto simp: dec_digits_def less_eq_char_def rs_def)
  have z: "dropWhile ?sp rs = []" using sp [of m "[]"] by (simp add: rs_def)
  obtain r o' v' where r: "datoul_digits (ds @ rs) 0 0 = (r, o', v')"
    by (metis prod_cases3)
  have run: "if dec_value ds < 2 ^ 64
      then r = rs \<and> unat v' = dec_value ds \<and> (o' \<noteq> 0 \<longrightarrow> 10 * unat o' \<le> unat v')
      else wrapped o' v'"
    using datoul_digits_run [OF assms _ rest, of 0 0] unfolding r dec_value_def unsigned_0 by simp
  show ?thesis
  proof (cases "dec_value ds < 2 ^ 64")
    case True
    then have u: "unat v' = dec_value ds" "o' \<noteq> 0 \<longrightarrow> 10 * unat o' \<le> unat v'" using run by auto
    have "\<not> (o' \<noteq> 0 \<and> v' div o' < 10)"
    proof
      assume o: "o' \<noteq> 0 \<and> v' div o' < 10"
      then have "unat v' div unat o' < 10" by (simp add: word_less_nat_alt unat_div)
      moreover have "10 \<le> unat v' div unat o'"
        using o u(2) div_le_mono [of "10 * unat o'" "unat v'" "unat o'"] by (simp add: unat_gt_0)
      ultimately show False by simp
    qed
    moreover have "v' = of_nat (dec_value ds)" by (simp flip: u(1))
    ultimately show ?thesis
      using True run r z by (auto simp: taru_datoul_def sp ds)
  next
    case False
    then have "wrapped o' v'" using run by auto
    then have "o' \<noteq> 0" "unat v' < unat o' * 10" by (auto simp: wrapped_def)
    then have "unat v' div unat o' < 10" by (simp add: less_mult_imp_div_less mult.commute)
    then have "v' div o' < 10" by (simp add: word_less_nat_alt unat_div)
    with False \<open>o' \<noteq> 0\<close> r show ?thesis by (simp add: taru_datoul_def sp ds)
  qed
qed

text \<open>\<open>taru_to_oct\<close>: as many digits as the value needs, right aligned.\<close>

lemma to_oct_digits_run:
  assumes "0 < m" "x < 8 ^ m" "0 \<le> p" "p + int m \<le> int (length b)"
  shows "\<exists>k b'. 0 < k \<and> k \<le> m \<and> x < 8 ^ k \<and> to_oct_digits (int x) (int m) b p = Some (b', int (m - k)) \<and>
     mem_write b (p + int (m - k)) (octal_digits x k) = Some b'"
  using assms
proof (induction m arbitrary: x b)
  case 0
  then show ?case by simp
next
  case (Suc m)
  let ?d = "[digit_char (x mod 8)]"
  obtain b1 where b1: "mem_write b (p + int m) ?d = Some b1"
    using Suc.prems(3,4) by (simp add: mem_write_def)
  note len = mem_write_length [OF b1]
  have d: "nat (int x mod 8) = x mod 8" "int x div 8 = int (x div 8)" by (simp_all add: nat_mod_distrib zdiv_int)
  show ?case
  proof (cases "0 < m \<and> x div 8 \<noteq> 0")
    case False
    then have "x < 8 ^ 1" using Suc.prems(2) by (auto simp: div_eq_0_iff)
    moreover have "to_oct_digits (int x) (int (Suc m)) b p = Some (b1, int (Suc m - 1))"
      using False b1 d by (subst to_oct_digits.simps) (auto simp: add.assoc)
    ultimately show ?thesis
      using b1 by (intro exI [of _ 1] exI [of _ b1]) auto
  next
    case True
    have "x div 8 < 8 ^ m" using Suc.prems(2) by (simp add: less_mult_imp_div_less mult.commute)
    then obtain k b' where k: "0 < k" "k \<le> m" "x div 8 < 8 ^ k"
      "to_oct_digits (int (x div 8)) (int m) b1 p = Some (b', int (m - k))"
      "mem_write b1 (p + int (m - k)) (octal_digits (x div 8) k) = Some b'"
      using Suc.IH [of "x div 8" b1] True Suc.prems len by auto
    have "x < 8 ^ Suc k" using k(3) by (simp add: div_less_iff_less_mult mult.commute)
    moreover have "to_oct_digits (int x) (int (Suc m)) b p = Some (b', int (Suc m - Suc k))"
      using True b1 d k by (subst to_oct_digits.simps) (auto simp: add.assoc)
    moreover have "mem_write b (p + int (Suc m - Suc k)) (octal_digits x (Suc k)) = Some b'"
    proof -
      obtain b'' where b'': "mem_write b (p + int (m - k)) (octal_digits (x div 8) k @ ?d) = Some b''"
        using Suc.prems k(2) by (simp add: mem_write_def)
      have "p + int (m - k) + int (length (octal_digits (x div 8) k)) = p + int m" using k(2) by simp
      then show ?thesis
        using mem_write_snoc [OF b''] b1 k(5) b'' by simp
    qed
    ultimately show ?thesis using k(2) by (intro exI [of _ "Suc k"] exI [of _ b']) auto
  qed
qed

text \<open>the blank padded field of \<open>taru_to_oct\<close> is read back by \<open>taru_from_oct\<close>; its last byte and
  the bytes outside are left alone.\<close>

theorem taru_to_oct_roundtrip:
  assumes "3 \<le> n" "x < 8 ^ (n - 2)" "0 \<le> p" "p + int n \<le> int (length b)"
  shows "\<exists>b'. taru_to_oct (int x) (int n) b p = Some b' \<and> taru_from_oct (int n) b' p = Some (int x) \<and>
     length b' = length b \<and> (\<forall>j < length b. int j < p \<or> p + int n - 1 \<le> int j \<longrightarrow> b' ! j = b ! j)"
proof -
  define m where "m = n - 2"
  have m: "n = m + 2" "0 < m" using assms(1) by (auto simp: m_def)
  obtain b1 where b1: "mem_write b (p + int m) '' '' = Some b1"
    using assms m by (auto simp: mem_write_def)
  note l1 = mem_write_length [OF b1]
  obtain k b2 where k: "0 < k" "k \<le> m" "x < 8 ^ k"
    "to_oct_digits (int x) (int m) b1 p = Some (b2, int (m - k))"
    "mem_write b1 (p + int (m - k)) (octal_digits x k) = Some b2"
    using to_oct_digits_run [of m x p b1] assms m l1 by auto
  note l2 = mem_write_length [OF k(5)]
  let ?sp = "replicate (m - k) CHR '' ''"
  define b3 where "b3 = take (nat p) b2 @ ?sp @ drop (nat p + length ?sp) b2"
  have w3: "mem_write b2 p ?sp = Some b3"
    using assms m l1 l2 by (auto simp: mem_write_def b3_def)
  note l3 = mem_write_length [OF w3]
  have "(if int (m - k) > 0 then mem_set b2 p CHR '' '' (int (m - k)) else Some b2) = Some b3"
  proof (cases "k < m")
    case True
    then show ?thesis using w3 by (simp add: mem_set_def del: of_nat_diff)
  qed (simp add: b3_def)
  then have run: "taru_to_oct (int x) (int n) b p = Some b3"
    using b1 k(4) m by (simp add: taru_to_oct_def del: of_nat_diff)
  have np: "nat (p + int (m - k)) = nat p + (m - k)" using assms(3) by simp
  have at: "b3 ! j = (if p \<le> int j \<and> int j < p + int (m - k) then CHR '' ''
      else if p + int (m - k) \<le> int j \<and> int j < p + int m then octal_digits x k ! (j - (nat p + (m - k)))
      else if int j = p + int m then CHR '' '' else b ! j)" if "j < length b" for j
    using mem_write_nth [OF w3, of j] mem_write_nth [OF k(5), of j] mem_write_nth [OF b1, of j]
      that l1 l2 k(2) by (auto simp: np simp del: of_nat_diff split: if_splits)
  have "take (length ?sp + k + 1) (drop (nat p) b3) = ?sp @ octal_digits x k @ [CHR '' '']"
  proof (rule nth_equalityI)
    show "length (take (length ?sp + k + 1) (drop (nat p) b3)) = length (?sp @ octal_digits x k @ '' '')"
      using assms m l1 l2 l3 k(2) by auto
    fix i assume "i < length (take (length ?sp + k + 1) (drop (nat p) b3))"
    then have i: "i < m + 1" "nat p + i < length b" using l1 l2 l3 k(2) by auto
    then show "take (length ?sp + k + 1) (drop (nat p) b3) ! i = (?sp @ octal_digits x k @ '' '') ! i"
      using at [of "nat p + i"] assms(3) k(2) l1 l2 l3
      by (auto simp: nth_append of_nat_diff)
  qed
  then have "taru_from_oct (int n) b3 p = Some (int x)"
    by (rule taru_from_oct_field) (use k assms m in \<open>auto simp: isspace_def list_all_iff\<close>)
  then show ?thesis
    using run at l1 l2 l3 m by (intro exI [of _ b3]) auto
qed

section \<open>The properties at concrete inputs\<close>

theorem uintmax_field_roundtrip_witness:
  "\<exists>b'. uintmax_to_chars 420 (replicate 8 CHR ''x'') 0 8 POSIX_FORMAT NUL = Some b' \<and>
     taru_from_oct 8 b' 0 = Some 420 \<and> snd (taru_otoumax (cstr (drop 0 b'))) = 420"
  using uintmax_field_roundtrip [of 8 420 0 "replicate 8 CHR ''x''" NUL POSIX_FORMAT] by auto

theorem uid_to_chars_oversized_witness:
  "uid_to_chars (0, False) 3000000 (replicate 8 CHR ''x'') 0 8 POSIX_FORMAT NUL = Some (''0000017'' @ [NUL])"
  using uid_to_chars_oversized [of 3000000 0 "replicate 8 CHR ''x''" "(0, False)" POSIX_FORMAT NUL]
  by (simp add: mem_write_def)

theorem taru_datoul_decimal_witness:
  "taru_datoul '' 18446744073709551616 '' = (2, None)"
  using taru_datoul_decimal [of "''18446744073709551616''" 1 1]
  by (simp add: dec_digits_def dec_value_def digit_val_def less_eq_char_def)

theorem taru_to_oct_roundtrip_witness:
  "\<exists>b'. taru_to_oct 493 8 (replicate 8 CHR ''x'') 0 = Some b' \<and> taru_from_oct 8 b' 0 = Some 493"
  using taru_to_oct_roundtrip [of 8 493 0 "replicate 8 CHR ''x''"] by auto

end
