(* ===== verification/Sysdb.thy ===== *)
theory Sysdb
  imports Prelude
begin

text \<open>
  The user and group name cache of \<open>swsupplib/taru/otar.c\<close>. The two databases of the system
  (\<open>getpwnam\<close>, \<open>getpwuid\<close>, \<open>getgrnam\<close>, \<open>getgrgid\<close>) are a parameter, a record of two partial functions;
  users and groups are two instances of the same code with a cache each. The \<open>STROB\<close> of a cache
  cell is represented by the string it holds, \<^term>\<open>None\<close> before it is allocated. The message for an
  unknown name or id is not part of the model.
\<close>

record sysdb =
  getnam :: "string \<Rightarrow> int option"
  getid :: "int \<Rightarrow> string option"

record sysdbpair =
  idM :: int
  snameM :: "string option"
  in_sysM :: int

record dbcache =
  nset :: int
  cacheM :: "sysdbpair list"

abbreviation CACHE_LEN :: int where "CACHE_LEN \<equiv> 10"
definition TARU_SYSDBNAME_LEN :: nat where "TARU_SYSDBNAME_LEN = 120"
definition AHS_USERNAME_NOBODY :: string where "AHS_USERNAME_NOBODY = ''nobody''"
definition AHS_UID_NOBODY :: int where "AHS_UID_NOBODY = 2097151"

definition dbcache_init :: dbcache where
  "dbcache_init = \<lparr>nset = 0, cacheM = replicate 10 \<lparr>idM = 0, snameM = None, in_sysM = - 1\<rparr>\<rparr>"

definition dbcache_set :: "dbcache \<Rightarrow> string \<Rightarrow> int \<Rightarrow> int \<Rightarrow> dbcache option" where
  "dbcache_set c name xid in_sys =
     (let (n, cell) = (if nset c \<ge> CACHE_LEN then (1, 0) else (nset c + 1, nset c))
      in if 0 \<le> cell \<and> cell < int (length (cacheM c))
         then Some \<lparr>nset = n,
                cacheM = (cacheM c)[nat cell := \<lparr>idM = c_int xid, snameM = Some name, in_sysM = in_sys\<rparr>]\<rparr>
         else None)"

text \<open>The search also allocates an empty \<open>STROB\<close> in a cell that has none; it looks only at cells in
  use, and a cell in use always has one, so the write is left out: an absent name compares like
  the empty one.\<close>

definition cell_matches :: "string option \<Rightarrow> int \<Rightarrow> sysdbpair \<Rightarrow> bool" where
  "cell_matches name xid pair \<longleftrightarrow>
     (case name of None \<Rightarrow> False
      | Some n \<Rightarrow> (case snameM pair of None \<Rightarrow> [] | Some m \<Rightarrow> m) = n)
     \<or> xid \<ge> 0 \<and> idM pair = xid"

definition dbcache_lookup :: "dbcache \<Rightarrow> string option \<Rightarrow> int \<Rightarrow> sysdbpair option" where
  "dbcache_lookup c name xid = List.find (cell_matches name xid) (take (nat (nset c)) (cacheM c))"

definition return_name_by_cache :: "dbcache \<Rightarrow> int \<Rightarrow> (string \<times> int) option option" where
  "return_name_by_cache c xid =
     (case dbcache_lookup c None xid of
        None \<Rightarrow> Some None
      | Some pair \<Rightarrow> map_option (\<lambda>s. Some (s, in_sysM pair)) (snameM pair))"

definition return_id_by_cache :: "dbcache \<Rightarrow> string \<Rightarrow> (int \<times> int) option" where
  "return_id_by_cache c name =
     map_option (\<lambda>pair. (c_int (idM pair), in_sysM pair)) (dbcache_lookup c (Some name) (- 1))"

text \<open>The part of \<open>get_pwent\<close> that asks the system for a name the cache does not know.\<close>

definition get_by_name ::
  "sysdb \<Rightarrow> dbcache \<Rightarrow> string \<Rightarrow> (int \<times> int option \<times> string option \<times> dbcache) option" where
  "get_by_name db c userkey =
     (case getnam db userkey of
        Some pid \<Rightarrow> do {
          c \<leftarrow> dbcache_set c userkey pid 0;
          Some (0, Some pid, None, c) }
      | None \<Rightarrow> do {
          c \<leftarrow> dbcache_set c userkey AHS_UID_NOBODY (- 1);
          Some (- 1, Some AHS_UID_NOBODY, None, c) })"

text \<open>\<open>get_pwent\<close> returns its status, the id left in \<open>*ppid\<close> (\<^term>\<open>None\<close> when it is not written),
  the name copied to the caller's buffers, and the cache.\<close>

definition get_pwent ::
  "sysdb \<Rightarrow> dbcache \<Rightarrow> int \<Rightarrow> string option \<Rightarrow> (int \<times> int option \<times> string option \<times> dbcache) option" where
  "get_pwent db c xid userkey =
     (case userkey of
        Some key \<Rightarrow>
          if key = [] then Some (- 1, None, None, c)
          else (case return_id_by_cache c key of
              Some (n, is_in_sysdb) \<Rightarrow>
                if n \<ge> 0 then Some (is_in_sysdb, Some n, None, c) else get_by_name db c key
            | None \<Rightarrow> get_by_name db c key)
      | None \<Rightarrow> do {
          r \<leftarrow> return_name_by_cache c (c_int xid);
          case r of
            Some (cname, is_in_sysdb) \<Rightarrow> Some (is_in_sysdb, None, Some cname, c)
          | None \<Rightarrow>
              (case getid db xid of
                 Some cname \<Rightarrow> do {
                   c \<leftarrow> dbcache_set c cname xid 0;
                   Some (0, None, Some cname, c) }
               | None \<Rightarrow> do {
                   c \<leftarrow> dbcache_set c AHS_USERNAME_NOBODY xid (- 1);
                   Some (- 1, None, Some AHS_USERNAME_NOBODY, c) }) })"

text \<open>What \<open>get_pwent\<close> stores in a fixed buffer of \<open>TARU_SYSDBNAME_LEN\<close> bytes.\<close>

definition tarbuf_of :: "string \<Rightarrow> block" where
  "tarbuf_of cname = strncpy_bytes cname (TARU_SYSDBNAME_LEN - 1) @ [NUL]"

text \<open>The public lookups; the same definitions serve users and groups.\<close>

definition taru_get_uid_by_name ::
  "sysdb \<Rightarrow> dbcache \<Rightarrow> string \<Rightarrow> (int \<times> 32 word option \<times> dbcache) option" where
  "taru_get_uid_by_name db c username = do {
     (ret, pid, _, c) \<leftarrow> get_pwent db c 0 (Some username);
     Some (ret, map_option word_of_int pid, c) }"

definition taru_get_gid_by_name ::
  "sysdb \<Rightarrow> dbcache \<Rightarrow> string \<Rightarrow> (int \<times> 32 word option \<times> dbcache) option" where
  "taru_get_gid_by_name db c groupname = do {
     (ret, pid, _, c) \<leftarrow> get_pwent db c 0 (Some groupname);
     Some (ret, map_option word_of_int pid, c) }"

definition taru_get_tar_user_by_uid :: "sysdb \<Rightarrow> dbcache \<Rightarrow> 32 word \<Rightarrow> (int \<times> block option \<times> dbcache) option" where
  "taru_get_tar_user_by_uid db c uid = do {
     (ret, _, name, c) \<leftarrow> get_pwent db c (uint uid) None;
     Some (ret, map_option tarbuf_of name, c) }"

definition taru_get_tar_group_by_gid :: "sysdb \<Rightarrow> dbcache \<Rightarrow> 32 word \<Rightarrow> (int \<times> block option \<times> dbcache) option" where
  "taru_get_tar_group_by_gid db c gid = do {
     (ret, _, name, c) \<leftarrow> get_pwent db c (uint gid) None;
     Some (ret, map_option tarbuf_of name, c) }"

definition taru_get_pax_user_by_uid :: "sysdb \<Rightarrow> dbcache \<Rightarrow> 32 word \<Rightarrow> (int \<times> string option \<times> dbcache) option" where
  "taru_get_pax_user_by_uid db c uid = do {
     (ret, _, name, c) \<leftarrow> get_pwent db c (uint uid) None;
     Some (ret, name, c) }"

definition taru_get_pax_group_by_gid :: "sysdb \<Rightarrow> dbcache \<Rightarrow> 32 word \<Rightarrow> (int \<times> string option \<times> dbcache) option" where
  "taru_get_pax_group_by_gid db c gid = do {
     (ret, _, name, c) \<leftarrow> get_pwent db c (uint gid) None;
     Some (ret, name, c) }"

text \<open>The direct lookups, which bypass the cache. \<open>swlib_strncpy\<close> fills a buffer of \<open>n\<close> bytes.\<close>

definition swlib_strncpy :: "string \<Rightarrow> nat \<Rightarrow> block" where
  "swlib_strncpy src n = strncpy_bytes src (n - 1) @ [NUL]"

definition SNAME_LEN :: nat where "SNAME_LEN = 32"

definition l_tar_sysdata_getuser :: "sysdb \<Rightarrow> int \<Rightarrow> string option \<times> block \<times> string" where
  "l_tar_sysdata_getuser db uid =
     (case getid db uid of
        None \<Rightarrow> (None, replicate SNAME_LEN NUL, [])
      | Some name \<Rightarrow> (Some name, swlib_strncpy name SNAME_LEN, name))"

definition l_tar_sysdata_getgroup :: "sysdb \<Rightarrow> int \<Rightarrow> string option \<times> block \<times> string" where
  "l_tar_sysdata_getgroup db gid =
     (case getid db gid of
        None \<Rightarrow> (None, replicate SNAME_LEN NUL, [])
      | Some name \<Rightarrow> (Some name, swlib_strncpy name SNAME_LEN, name))"

section \<open>Transparency of the cache\<close>

text \<open>A database whose two directions agree and whose ids are below the range in which the cache's
  \<open>int\<close> would turn negative; it has no account with the id that stands for an unknown name.\<close>

definition db_coherent :: "sysdb \<Rightarrow> bool" where
  "db_coherent db \<longleftrightarrow> (\<forall>n i. getnam db n = Some i \<longrightarrow> getid db i = Some n \<and> 0 \<le> i \<and> i < INT_LIMIT \<and> i \<noteq> AHS_UID_NOBODY)"

definition pair_ok :: "sysdb \<Rightarrow> sysdbpair \<Rightarrow> bool" where
  "pair_ok db p \<longleftrightarrow> (\<exists>n. snameM p = Some n \<and>
     (case getnam db n of
        Some i \<Rightarrow> idM p = i \<and> in_sysM p = 0
      | None \<Rightarrow> idM p = AHS_UID_NOBODY \<and> in_sysM p = - 1))"

definition cache_ok :: "sysdb \<Rightarrow> dbcache \<Rightarrow> bool" where
  "cache_ok db c \<longleftrightarrow> 0 \<le> nset c \<and> nset c \<le> CACHE_LEN \<and> length (cacheM c) = 10 \<and>
     list_all (pair_ok db) (take (nat (nset c)) (cacheM c))"

lemma cache_ok_init: "cache_ok db dbcache_init"
  by (simp add: cache_ok_def dbcache_init_def)

lemma dbcache_set_ok:
  assumes "cache_ok db c" "pair_ok db \<lparr>idM = c_int xid, snameM = Some name, in_sysM = sys\<rparr>"
  shows "\<exists>c'. dbcache_set c name xid sys = Some c' \<and> cache_ok db c'"
proof (cases "nset c \<ge> CACHE_LEN")
  case True
  with assms show ?thesis
    by (cases "cacheM c") (auto simp: dbcache_set_def cache_ok_def)
next
  case False
  then have "nat (nset c) < length (cacheM c)" "nat (nset c + 1) = Suc (nat (nset c))"
    using assms(1) by (auto simp: cache_ok_def)
  with False assms show ?thesis
    by (auto simp: dbcache_set_def cache_ok_def take_Suc_conv_app_nth)
qed

lemma dbcache_lookup_ok:
  assumes "cache_ok db c" "dbcache_lookup c name xid = Some p"
  shows "pair_ok db p" "cell_matches name xid p"
  using assms by (auto simp: cache_ok_def dbcache_lookup_def find_Some_iff list_all_length)

lemma pair_ok_by_name:
  assumes "pair_ok db p" "cell_matches (Some n) (- 1) p"
  shows "(idM p, in_sysM p) = (case getnam db n of Some i \<Rightarrow> (i, 0) | None \<Rightarrow> (AHS_UID_NOBODY, - 1))"
  using assms by (auto simp: pair_ok_def cell_matches_def split: option.splits)

lemma AHS_UID_NOBODY_int [simp]: "c_int AHS_UID_NOBODY = AHS_UID_NOBODY" "0 \<le> AHS_UID_NOBODY"
  by (simp_all add: AHS_UID_NOBODY_def)

text \<open>Whatever the cache holds, a lookup by name answers as the system does.\<close>

lemma get_pwent_name_ok:
  assumes "cache_ok db c" "db_coherent db" "n \<noteq> []"
  shows "\<exists>c'. get_pwent db c xid (Some n) =
      Some (case getnam db n of Some i \<Rightarrow> (0, Some i, None, c') | None \<Rightarrow> (- 1, Some AHS_UID_NOBODY, None, c')) \<and>
     cache_ok db c'"
proof -
  have xid: "getnam db n = Some i \<Longrightarrow> c_int i = i \<and> 0 \<le> i" for i
    using assms(2) by (auto simp: db_coherent_def)
  show ?thesis
  proof (cases "dbcache_lookup c (Some n) (- 1)")
    case (Some p)
    then have "(idM p, in_sysM p) = (case getnam db n of Some i \<Rightarrow> (i, 0) | None \<Rightarrow> (AHS_UID_NOBODY, - 1))"
      using dbcache_lookup_ok [OF assms(1)] pair_ok_by_name by blast
    with Some assms xid show ?thesis
      by (auto simp: get_pwent_def return_id_by_cache_def split: option.splits)
  next
    case None
    show ?thesis
    proof (cases "getnam db n")
      case (Some i)
      then have "pair_ok db \<lparr>idM = c_int i, snameM = Some n, in_sysM = 0\<rparr>"
        using xid by (simp add: pair_ok_def)
      from dbcache_set_ok [OF assms(1) this] None Some assms(3) show ?thesis
        by (auto simp: get_pwent_def get_by_name_def return_id_by_cache_def)
    next
      case nosys: None
      then have "pair_ok db \<lparr>idM = c_int AHS_UID_NOBODY, snameM = Some n, in_sysM = - 1\<rparr>"
        by (simp add: pair_ok_def)
      from dbcache_set_ok [OF assms(1) this] None nosys assms(3) show ?thesis
        by (auto simp: get_pwent_def get_by_name_def return_id_by_cache_def)
    qed
  qed
qed

text \<open>A lookup of an id the system knows answers with the system's name.\<close>

lemma get_pwent_id_ok:
  assumes "cache_ok db c" "db_coherent db" "getid db i = Some n" "getnam db n = Some i"
  shows "\<exists>c'. get_pwent db c i None = Some (0, None, Some n, c') \<and> cache_ok db c'"
proof -
  have i: "c_int i = i" "0 \<le> i" "i \<noteq> AHS_UID_NOBODY"
    using assms(2,4) by (auto simp: db_coherent_def)
  show ?thesis
  proof (cases "dbcache_lookup c None i")
    case (Some p)
    then have p: "pair_ok db p" "idM p = i"
      using dbcache_lookup_ok [OF assms(1) Some] by (auto simp: cell_matches_def)
    then obtain m where m: "snameM p = Some m" "getnam db m = Some i" "in_sysM p = 0"
      using i by (auto simp: pair_ok_def split: option.splits)
    then have "m = n" using assms(2,3) by (auto simp: db_coherent_def)
    with Some m i assms(1) show ?thesis
      by (auto simp: get_pwent_def return_name_by_cache_def)
  next
    case None
    have "pair_ok db \<lparr>idM = c_int i, snameM = Some n, in_sysM = 0\<rparr>"
      using assms(4) i by (simp add: pair_ok_def)
    from dbcache_set_ok [OF assms(1) this] None assms(3) i show ?thesis
      by (auto simp: get_pwent_def return_name_by_cache_def)
  qed
qed

section \<open>The caches a process can reach\<close>

text \<open>One lookup: by a name, known or not, or by an id the system knows.\<close>

inductive lookup_step :: "sysdb \<Rightarrow> dbcache \<Rightarrow> dbcache \<Rightarrow> bool" for db :: sysdb where
  by_name: "get_pwent db c xid (Some n) = Some (r, pid, nm, c') \<Longrightarrow> lookup_step db c c'"
| by_id: "getid db i = Some n \<Longrightarrow> getnam db n = Some i \<Longrightarrow> get_pwent db c i None = Some (r, pid, nm, c') \<Longrightarrow>
    lookup_step db c c'"

inductive_cases lookup_stepE: "lookup_step db c c'"

lemma lookup_step_ok:
  assumes "lookup_step db c c'" "cache_ok db c" "db_coherent db"
  shows "cache_ok db c'"
  using assms(1)
proof (rule lookup_stepE)
  fix xid n r pid nm
  assume l: "get_pwent db c xid (Some n) = Some (r, pid, nm, c')"
  show "cache_ok db c'"
  proof (cases "n = []")
    case True
    then show ?thesis using l assms(2) by (simp add: get_pwent_def)
  next
    case False
    then show ?thesis using get_pwent_name_ok [OF assms(2,3) False, of xid] l by (auto split: option.splits)
  qed
next
  fix i n r pid nm
  assume "getid db i = Some n" "getnam db n = Some i" "get_pwent db c i None = Some (r, pid, nm, c')"
  then show "cache_ok db c'" using get_pwent_id_ok [OF assms(2,3)] by force
qed

lemma reachable_cache_ok:
  assumes "(lookup_step db)\<^sup>*\<^sup>* dbcache_init c" "db_coherent db"
  shows "cache_ok db c"
  using assms(1)
  by (induction rule: rtranclp_induct) (use cache_ok_init lookup_step_ok assms(2) in blast)+


text \<open>and a lookup of an id the system knows answers with the system's name.\<close>

theorem get_pwent_id_transparent:
  assumes "(lookup_step db)\<^sup>*\<^sup>* dbcache_init c" "db_coherent db" "getid db i = Some n" "getnam db n = Some i"
  shows "\<exists>c'. get_pwent db c i None = Some (0, None, Some n, c') \<and> (lookup_step db)\<^sup>*\<^sup>* dbcache_init c'"
proof -
  obtain c' where l: "get_pwent db c i None = Some (0, None, Some n, c')"
    using get_pwent_id_ok [OF reachable_cache_ok [OF assms(1,2)] assms(2-4)] by blast
  then have "lookup_step db c c'" by (rule lookup_step.by_id [OF assms(3,4)])
  with l assms(1) show ?thesis by (meson rtranclp.rtrancl_into_rtrancl)
qed

text \<open>asking for an id without a name enters the pair (\<open>nobody\<close>, id) into the cache, and a later
  lookup of the account \<open>nobody\<close> answers with that id and the status of an unknown name.\<close>

theorem nobody_lookup_polluted:
  assumes "getid db i = None" "0 \<le> i" "i < INT_LIMIT"
  shows "\<exists>c. get_pwent db dbcache_init i None = Some (- 1, None, Some ''nobody'', c) \<and>
     get_pwent db c 0 (Some ''nobody'') = Some (- 1, Some i, None, c)"
  using assms
  by (cases "i = 0") (auto simp: get_pwent_def return_name_by_cache_def dbcache_lookup_def dbcache_init_def
      dbcache_set_def return_id_by_cache_def cell_matches_def AHS_USERNAME_NOBODY_def numeral_eq_Suc)

section \<open>The properties at concrete inputs\<close>

definition root_db :: sysdb where
  "root_db = \<lparr>getnam = (\<lambda>n. if n = ''root'' then Some 0 else None), getid = (\<lambda>i. if i = 0 then Some ''root'' else None)\<rparr>"

lemma root_db_coherent: "db_coherent root_db"
  by (auto simp: db_coherent_def root_db_def AHS_UID_NOBODY_def split: if_splits)

lemma root_cache:
  obtains c where "(lookup_step root_db)\<^sup>*\<^sup>* dbcache_init c" "nset c = 1"
proof -
  have "get_pwent root_db dbcache_init 0 (Some ''root'') =
      Some (0, Some 0, None, dbcache_init\<lparr>cacheM := (cacheM dbcache_init)[0 := \<lparr>idM = 0, snameM = Some ''root'', in_sysM = 0\<rparr>], nset := 1\<rparr>)"
    by code_simp
  from lookup_step.by_name [OF this] show thesis
    by (intro that [OF r_into_rtranclp]) (assumption, simp)
qed


theorem get_pwent_id_transparent_witness:
  "\<exists>c c'. nset c = 1 \<and> get_pwent root_db c 0 None = Some (0, None, Some ''root'', c') \<and>
     (lookup_step root_db)\<^sup>*\<^sup>* dbcache_init c'"
proof -
  obtain c where "(lookup_step root_db)\<^sup>*\<^sup>* dbcache_init c" "nset c = 1" by (rule root_cache)
  then show ?thesis
    using get_pwent_id_transparent [OF _ root_db_coherent, of c 0 "''root''"] by (auto simp: root_db_def)
qed

theorem nobody_lookup_polluted_witness:
  "\<exists>c. get_pwent root_db dbcache_init 1234 None = Some (- 1, None, Some ''nobody'', c) \<and>
     get_pwent root_db c 0 (Some ''nobody'') = Some (- 1, Some 1234, None, c)"
  using nobody_lookup_polluted [of root_db 1234] by (simp add: root_db_def)

end
