(* ===== verification/Ahs.thy ===== *)
theory Ahs
  imports ToOct Sysdb Cplob
begin

text \<open>
  The archive member header, \<open>struct new_cpio_header\<close> of \<open>swsupplib/taru/cpiohdr.h\<close>, and its access
  functions in \<open>swsupplib/taru/ahs.c\<close>. The four names are \<open>STROB\<close> objects in the C code; a name is
  represented by the string its \<open>STROB\<close> holds and by \<^term>\<open>None\<close> while there is no object.
\<close>

section \<open>The header\<close>

record exatt =
  is_in_useM :: int
  vendorM :: string
  namespaceM :: string
  attrnameM :: string
  attrvalueM :: string
  ex_lenM :: int

text \<open>The digests of a file, in ASCII, with a switch for each.\<close>

record file_digs =
  do_poisonM :: int
  md5_hex :: string
  do_md5 :: "16 word"
  sha1_hex :: string
  do_sha1 :: "16 word"
  sha512_hex :: string
  do_sha512 :: "16 word"
  size_dec :: string
  do_size :: "16 word"

record new_cpio_header =
  c_magic :: "16 word"
  c_ino :: "64 word"
  c_mode :: "64 word"
  c_uid :: "64 word"
  c_gid :: "64 word"
  c_nlink :: "64 word"
  c_mtime :: "64 word"
  c_filesize :: "64 word"
  c_dev_maj :: "64 word"
  c_dev_min :: "64 word"
  c_rdev_maj :: "64 word"
  c_rdev_min :: "64 word"
  c_namesize :: "64 word"
  c_chksum :: "64 word"
  c_name :: "string option"
  c_tar_linkname :: "string option"
  c_username :: "string option"
  c_groupname :: "string option"
  c_cu :: "8 word"
  c_cg :: "8 word"
  c_is_tar_lnktype :: "8 word"
  usage_maskM :: "8 word"
  extHeader_usage_maskM :: "32 word"
  extHeader_needs_maskM :: "32 word"
  digsM :: "file_digs option"
  extattlistM :: "exatt cplob option"
  c_atime :: "64 word"
  c_atime_nsec :: "64 word"
  c_ctime :: "64 word"
  c_ctime_nsec :: "64 word"

abbreviation CP_IFMT :: "64 word" where "CP_IFMT \<equiv> 0xF000"
abbreviation CP_IFBLK :: "64 word" where "CP_IFBLK \<equiv> 0x6000"
abbreviation CP_IFCHR :: "64 word" where "CP_IFCHR \<equiv> 0x2000"
abbreviation CP_IFDIR :: "64 word" where "CP_IFDIR \<equiv> 0x4000"
abbreviation CP_IFREG :: "64 word" where "CP_IFREG \<equiv> 0x8000"
abbreviation CP_IFIFO :: "64 word" where "CP_IFIFO \<equiv> 0x1000"
abbreviation CP_IFLNK :: "64 word" where "CP_IFLNK \<equiv> 0xA000"
abbreviation CP_IFSOCK :: "64 word" where "CP_IFSOCK \<equiv> 0xC000"

definition TARLINKNAMESIZE :: nat where "TARLINKNAMESIZE = 100"

section \<open>Names\<close>

text \<open>A set with a null pointer drops the object; with a length it keeps at most that many characters.
  A get of an absent name creates an empty one.\<close>

definition ahsStaticSetTarname_i :: "string option \<Rightarrow> int \<Rightarrow> string option" where
  "ahsStaticSetTarname_i name len =
     (case name of
        None \<Rightarrow> None
      | Some n \<Rightarrow> Some (if len < 0 then n else take (nat len) n))"

definition ahsStaticGetTarname_i :: "string option \<Rightarrow> string" where
  "ahsStaticGetTarname_i c_sb = (case c_sb of None \<Rightarrow> [] | Some s \<Rightarrow> s)"

definition ahsStatic_strip_leading_slash_i :: "string \<Rightarrow> string" where
  "ahsStatic_strip_leading_slash_i name =
     (let p = dropWhile (\<lambda>c. c = CHR ''/'') name
      in if p = [] \<and> name \<noteq> [] then ''/'' else p)"

definition ahsStatic_strip_name_leading_slash :: "new_cpio_header \<Rightarrow> new_cpio_header" where
  "ahsStatic_strip_name_leading_slash h =
     h\<lparr>c_name := Some (ahsStatic_strip_leading_slash_i (ahsStaticGetTarname_i (c_name h)))\<rparr>"

definition ahsStaticGetTarLinkname :: "new_cpio_header \<Rightarrow> string" where
  "ahsStaticGetTarLinkname h = ahsStaticGetTarname_i (c_tar_linkname h)"

definition ahsStaticGetTarFilename :: "new_cpio_header \<Rightarrow> string" where
  "ahsStaticGetTarFilename h = ahsStaticGetTarname_i (c_name h)"

definition ahsStaticGetTarUsername :: "new_cpio_header \<Rightarrow> string" where
  "ahsStaticGetTarUsername h = ahsStaticGetTarname_i (c_username h)"

definition ahsStaticGetTarGroupname :: "new_cpio_header \<Rightarrow> string" where
  "ahsStaticGetTarGroupname h = ahsStaticGetTarname_i (c_groupname h)"

definition ahsStaticSetPaxLinkname :: "new_cpio_header \<Rightarrow> string option \<Rightarrow> new_cpio_header" where
  "ahsStaticSetPaxLinkname h name = h\<lparr>c_tar_linkname := ahsStaticSetTarname_i name (- 1)\<rparr>"

definition ahsStaticSetTarLinkname :: "new_cpio_header \<Rightarrow> string option \<Rightarrow> new_cpio_header" where
  "ahsStaticSetTarLinkname h name =
     h\<lparr>c_tar_linkname := ahsStaticSetTarname_i name (int TARLINKNAMESIZE)\<rparr>"

definition ahsStaticSetTarFilename :: "new_cpio_header \<Rightarrow> string option \<Rightarrow> new_cpio_header" where
  "ahsStaticSetTarFilename h name = h\<lparr>c_name := ahsStaticSetTarname_i name (- 1)\<rparr>"

definition ahsStaticSetTarUsername :: "new_cpio_header \<Rightarrow> string option \<Rightarrow> new_cpio_header" where
  "ahsStaticSetTarUsername h name = h\<lparr>c_username := ahsStaticSetTarname_i name (- 1)\<rparr>"

definition ahsStaticSetTarGroupname :: "new_cpio_header \<Rightarrow> string option \<Rightarrow> new_cpio_header" where
  "ahsStaticSetTarGroupname h name = h\<lparr>c_groupname := ahsStaticSetTarname_i name (- 1)\<rparr>"

lemmas ahs_name_defs = ahsStaticSetTarname_i_def ahsStaticGetTarname_i_def ahsStaticGetTarLinkname_def
  ahsStaticGetTarFilename_def ahsStaticGetTarUsername_def ahsStaticGetTarGroupname_def
  ahsStaticSetPaxLinkname_def ahsStaticSetTarLinkname_def ahsStaticSetTarFilename_def
  ahsStaticSetTarUsername_def ahsStaticSetTarGroupname_def

section \<open>A new header\<close>

text \<open>The digests: \<open>taru_digs_init\<close> leaves the switches alone for a negative \<open>enable\<close>.\<close>

definition taru_digs_init :: "file_digs \<Rightarrow> int \<Rightarrow> int \<Rightarrow> file_digs" where
  "taru_digs_init digs enable poison =
     (let digs = digs\<lparr>do_poisonM := poison, md5_hex := [], sha1_hex := [], sha512_hex := [], size_dec := []\<rparr>
      in if enable \<ge> 0 then digs\<lparr>do_md5 := of_int enable, do_sha1 := of_int enable, do_sha512 := of_int enable,
             do_size := of_int enable\<rparr>
         else digs)"

definition taru_digs_create :: "file_digs \<Rightarrow> file_digs" where
  "taru_digs_create mem = taru_digs_init mem 0 0"

definition taru_init_header_digs :: "file_digs \<Rightarrow> new_cpio_header \<Rightarrow> new_cpio_header" where
  "taru_init_header_digs mem h =
     h\<lparr>digsM := Some (case digsM h of None \<Rightarrow> taru_digs_create mem | Some d \<Rightarrow> taru_digs_init d 0 0)\<rparr>"

definition taru_free_header_digs :: "new_cpio_header \<Rightarrow> new_cpio_header" where
  "taru_free_header_digs h = h\<lparr>digsM := None\<rparr>"

text \<open>\<open>taru_init_header\<close> and \<open>taru_make_header\<close> of \<open>taru.c\<close>. \<open>now\<close> is the result of \<open>time\<close>,
  \<open>mem\<close> and \<open>dmem\<close> the content of the memory \<open>malloc\<close> returns. The loop over the extended attributes compares
  (\<open>p->is_in_useM == 0\<close>) where an assignment is meant, so it only reads the list.\<close>

definition taru_init_header :: "64 word \<Rightarrow> file_digs \<Rightarrow> new_cpio_header \<Rightarrow> new_cpio_header option" where
  "taru_init_header now dmem h = do {
     _ \<leftarrow> (case extattlistM h of
            None \<Rightarrow> Some ()
          | Some l \<Rightarrow> nta_scan (cplob_val l) 0 (\<lambda>p s. Inr s) ());
     Some (taru_init_header_digs dmem (h\<lparr>c_mode := 0x100, c_uid := of_int AHS_UID_NOBODY, c_gid := of_int AHS_UID_NOBODY, c_nlink := 0,
       c_mtime := now, c_ctime := now, c_atime := now, c_atime_nsec := 0, c_ctime_nsec := 0, c_filesize := 0,
       c_dev_maj := 0, c_dev_min := 0, c_rdev_maj := 0, c_rdev_min := 0, c_cu := 1, c_cg := 1,
       c_is_tar_lnktype := - 1, c_groupname := Some [], c_username := Some [], c_tar_linkname := Some [],
       c_name := Some [], usage_maskM := 0, extHeader_usage_maskM := 0, extHeader_needs_maskM := 0\<rparr>)) }"

definition taru_make_header :: "64 word \<Rightarrow> file_digs \<Rightarrow> new_cpio_header \<Rightarrow> new_cpio_header option" where
  "taru_make_header now dmem mem =
     taru_init_header now dmem (mem\<lparr>c_name := None, c_tar_linkname := None, c_username := None,
       c_groupname := None, digsM := None, extattlistM := None\<rparr>)"

text \<open>The header \<open>taru_make_header\<close> returns at time 0 in cleared memory.\<close>

definition zero_digs :: file_digs where
  "zero_digs = \<lparr>do_poisonM = 0, md5_hex = [], do_md5 = 0, sha1_hex = [], do_sha1 = 0, sha512_hex = [], do_sha512 = 0,
     size_dec = [], do_size = 0\<rparr>"

definition zero_mem :: new_cpio_header where
  "zero_mem = \<lparr>c_magic = 0, c_ino = 0, c_mode = 0, c_uid = 0, c_gid = 0, c_nlink = 0, c_mtime = 0, c_filesize = 0,
     c_dev_maj = 0, c_dev_min = 0, c_rdev_maj = 0, c_rdev_min = 0, c_namesize = 0, c_chksum = 0, c_name = None,
     c_tar_linkname = None, c_username = None, c_groupname = None, c_cu = 0, c_cg = 0, c_is_tar_lnktype = 0,
     usage_maskM = 0, extHeader_usage_maskM = 0, extHeader_needs_maskM = 0, digsM = None, extattlistM = None, c_atime = 0,
     c_atime_nsec = 0, c_ctime = 0, c_ctime_nsec = 0\<rparr>"

definition fresh_header :: new_cpio_header where
  "fresh_header = the (taru_make_header 0 zero_digs zero_mem)"

lemma fresh_header_simps [simp]:
  "taru_make_header 0 zero_digs zero_mem = Some fresh_header"
  "c_mode fresh_header = 0x100" "c_uid fresh_header = 2097151" "c_gid fresh_header = 2097151"
  "c_name fresh_header = Some []" "c_tar_linkname fresh_header = Some []" "c_filesize fresh_header = 0"
  "extHeader_usage_maskM fresh_header = 0" "extHeader_needs_maskM fresh_header = 0" "extattlistM fresh_header = None"
  "c_rdev_maj fresh_header = 0" "c_rdev_min fresh_header = 0" "c_mtime fresh_header = 0"
  "c_username fresh_header = Some []" "c_groupname fresh_header = Some []"
  by (simp_all add: fresh_header_def taru_make_header_def taru_init_header_def taru_init_header_digs_def AHS_UID_NOBODY_def)

section \<open>Fields\<close>

text \<open>\<open>AHS\<close> is a pointer to a header; \<open>mode_t\<close>, \<open>uid_t\<close> and \<open>gid_t\<close> have 32 bits, \<open>time_t\<close>, \<open>ino_t\<close>,
  \<open>dev_t\<close> and \<open>intmax_t\<close> 64.\<close>

definition ahs_set_mode :: "new_cpio_header \<Rightarrow> 32 word \<Rightarrow> new_cpio_header" where
  "ahs_set_mode xhs mode = xhs\<lparr>c_mode := ucast mode\<rparr>"

definition ahs_get_mode :: "new_cpio_header \<Rightarrow> 32 word" where
  "ahs_get_mode xhs = ucast (c_mode xhs)"

definition ahs_set_perms :: "new_cpio_header \<Rightarrow> 32 word \<Rightarrow> new_cpio_header" where
  "ahs_set_perms xhs perms =
     ahs_set_mode xhs (or (and (ahs_get_mode xhs) (not 0xFFF)) perms)"

definition ahs_get_perms :: "new_cpio_header \<Rightarrow> 32 word" where
  "ahs_get_perms xhs = and (ahs_get_mode xhs) 0xFFF"

definition ahs_set_uid :: "new_cpio_header \<Rightarrow> 32 word \<Rightarrow> new_cpio_header" where
  "ahs_set_uid xhs uid = xhs\<lparr>c_uid := ucast uid\<rparr>"

definition ahs_set_gid :: "new_cpio_header \<Rightarrow> 32 word \<Rightarrow> new_cpio_header" where
  "ahs_set_gid xhs gid = xhs\<lparr>c_gid := ucast gid\<rparr>"

definition ahs_set_uid_by_name ::
  "sysdb \<Rightarrow> dbcache \<Rightarrow> new_cpio_header \<Rightarrow> string \<Rightarrow> (new_cpio_header \<times> dbcache) option" where
  "ahs_set_uid_by_name db c xhs username = do {
     (ret, x, c) \<leftarrow> taru_get_uid_by_name db c username;
     if ret \<noteq> 0 then Some (xhs\<lparr>c_uid := of_int AHS_UID_NOBODY\<rparr>, c)
     else map_option (\<lambda>x. (xhs\<lparr>c_uid := ucast x\<rparr>, c)) x }"

definition ahs_set_gid_by_name ::
  "sysdb \<Rightarrow> dbcache \<Rightarrow> new_cpio_header \<Rightarrow> string \<Rightarrow> (new_cpio_header \<times> dbcache) option" where
  "ahs_set_gid_by_name db c xhs groupname = do {
     (ret, x, c) \<leftarrow> taru_get_gid_by_name db c groupname;
     if ret \<noteq> 0 then Some (xhs\<lparr>c_gid := of_int AHS_UID_NOBODY\<rparr>, c)
     else map_option (\<lambda>x. (xhs\<lparr>c_gid := ucast x\<rparr>, c)) x }"

definition ahs_set_filesize :: "new_cpio_header \<Rightarrow> 64 word \<Rightarrow> new_cpio_header" where
  "ahs_set_filesize xhs filesize = xhs\<lparr>c_filesize := filesize\<rparr>"

definition ahs_set_nlink :: "new_cpio_header \<Rightarrow> 32 word \<Rightarrow> new_cpio_header" where
  "ahs_set_nlink xhs nlink = xhs\<lparr>c_nlink := scast nlink\<rparr>"

definition ahs_set_inode :: "new_cpio_header \<Rightarrow> 64 word \<Rightarrow> new_cpio_header" where
  "ahs_set_inode xhs ino = xhs\<lparr>c_ino := ino\<rparr>"

definition ahs_set_mtime :: "new_cpio_header \<Rightarrow> 64 word \<Rightarrow> new_cpio_header" where
  "ahs_set_mtime xhs mtime = xhs\<lparr>c_mtime := mtime\<rparr>"

definition ahs_set_devmajor :: "new_cpio_header \<Rightarrow> 64 word \<Rightarrow> new_cpio_header" where
  "ahs_set_devmajor xhs dev = xhs\<lparr>c_rdev_maj := dev\<rparr>"

definition ahs_set_devminor :: "new_cpio_header \<Rightarrow> 64 word \<Rightarrow> new_cpio_header" where
  "ahs_set_devminor xhs dev = xhs\<lparr>c_rdev_min := dev\<rparr>"

definition ahs_set_name :: "new_cpio_header \<Rightarrow> string \<Rightarrow> new_cpio_header" where
  "ahs_set_name xhs name = ahsStaticSetTarFilename xhs (Some name)"

definition ahs_set_linkname :: "new_cpio_header \<Rightarrow> string \<Rightarrow> new_cpio_header" where
  "ahs_set_linkname xhs linkname = ahsStaticSetPaxLinkname xhs (Some linkname)"

definition ahs_set_tar_username :: "new_cpio_header \<Rightarrow> string \<Rightarrow> new_cpio_header" where
  "ahs_set_tar_username xhs name = ahsStaticSetTarUsername xhs (Some name)"

definition ahs_set_tar_groupname :: "new_cpio_header \<Rightarrow> string \<Rightarrow> new_cpio_header" where
  "ahs_set_tar_groupname xhs name = ahsStaticSetTarGroupname xhs (Some name)"

definition ahs_set_sys_db_u_policy :: "new_cpio_header \<Rightarrow> 32 word \<Rightarrow> new_cpio_header" where
  "ahs_set_sys_db_u_policy xhs c = xhs\<lparr>c_cu := ucast c\<rparr>"

definition ahs_set_sys_db_g_policy :: "new_cpio_header \<Rightarrow> 32 word \<Rightarrow> new_cpio_header" where
  "ahs_set_sys_db_g_policy xhs c = xhs\<lparr>c_cg := ucast c\<rparr>"

text \<open>\<open>ahs_get_linkname\<close> with a buffer: 99 characters and a NUL.\<close>

definition ahs_get_linkname :: "new_cpio_header \<Rightarrow> bool \<Rightarrow> string" where
  "ahs_get_linkname xhs buf =
     (let name = ahsStaticGetTarLinkname xhs in if buf then take 99 name else name)"

definition ahs_get_name :: "new_cpio_header \<Rightarrow> string" where
  "ahs_get_name xhs = ahsStaticGetTarFilename xhs"

definition ahs_get_system_username ::
  "sysdb \<Rightarrow> dbcache \<Rightarrow> new_cpio_header \<Rightarrow> (block option \<times> dbcache) option" where
  "ahs_get_system_username db c xhs = do {
     (ret, buf, c) \<leftarrow> taru_get_tar_user_by_uid db c (ucast (c_uid xhs));
     Some (if ret \<noteq> 0 then None else buf, c) }"

definition ahs_get_system_groupname ::
  "sysdb \<Rightarrow> dbcache \<Rightarrow> new_cpio_header \<Rightarrow> (block option \<times> dbcache) option" where
  "ahs_get_system_groupname db c xhs = do {
     (ret, buf, c) \<leftarrow> taru_get_tar_group_by_gid db c (ucast (c_gid xhs));
     Some (if ret \<noteq> 0 then None else buf, c) }"

section \<open>Owners that the system does not know\<close>

definition isalpha :: "char \<Rightarrow> bool" where
  "isalpha c \<longleftrightarrow> CHR ''A'' \<le> c \<and> c \<le> CHR ''Z'' \<or> CHR ''a'' \<le> c \<and> c \<le> CHR ''z''"

definition isdigit :: "char \<Rightarrow> bool" where
  "isdigit c \<longleftrightarrow> CHR ''0'' \<le> c \<and> c \<le> CHR ''9''"

definition is_numeric_name :: "string \<Rightarrow> bool" where
  "is_numeric_name name \<longleftrightarrow> name \<noteq> [] \<and> list_all (\<lambda>c. \<not> isalpha c) name"

text \<open>\<open>atol\<close> of the C library.\<close>

definition c_atol :: "string \<Rightarrow> int" where
  "c_atol s =
     (let s = dropWhile isspace s;
          (sg, s) = (case s of c # r \<Rightarrow> if c = CHR ''-'' then (- 1, r) else if c = CHR ''+'' then (1, r) else (1, s)
                    | [] \<Rightarrow> (1, s));
          v = sg * int (foldl (\<lambda>v c. 10 * v + digit_val c) 0 (takeWhile isdigit s))
      in max (- (2 ^ 63)) (min v (2 ^ 63 - 1)))"

text \<open>\<open>count_newlines\<close>: the number of messages before the given one, or of all messages.\<close>

function count_newlines_loop :: "string \<Rightarrow> string option \<Rightarrow> int \<Rightarrow> int" where
  "count_newlines_loop s key ret =
     (case dropWhile (\<lambda>c. c \<noteq> CHR 0x0A) s of
        [] \<Rightarrow> ret
      | _ # s' \<Rightarrow>
          if (case key of None \<Rightarrow> False | Some k \<Rightarrow> take (length k) s' = k) then ret + 1
          else count_newlines_loop s' key (ret + 1))"
  by auto
termination
proof (relation "measure (\<lambda>(s, key, ret). length s)", goal_cases)
  case (2 s key ret x xs)
  then have "length (dropWhile (\<lambda>c. c \<noteq> CHR 0x0A) s) = Suc (length xs)" by simp
  moreover have "length (dropWhile (\<lambda>c. c \<noteq> CHR 0x0A) s) \<le> length s" by (rule length_dropWhile_le)
  ultimately show ?case by simp
qed simp

declare count_newlines_loop.simps [simp del]

definition count_newlines :: "string \<Rightarrow> string option \<Rightarrow> int" where
  "count_newlines store key =
     (case key of
        Some k \<Rightarrow> if take (length k) store = k then 0 else count_newlines_loop store key 0
      | None \<Rightarrow> count_newlines_loop store key 0)"

text \<open>\<open>error_msg_control\<close> with a name: \<open>store\<close> holds the messages given so far, one line each;
  \<open>utilname\<close> is the name of the running program. It returns the number for the id, whether the
  message is new, and the store.\<close>

definition not_found_msg :: "string \<Rightarrow> string \<Rightarrow> string \<Rightarrow> string" where
  "not_found_msg utilname dbname name =
     utilname @ '': '' @ dbname @ '' name ['' @ name @ ''] not found in system database'' @ [CHR 0x0A]"

definition error_msg_control :: "string \<Rightarrow> string \<Rightarrow> string \<Rightarrow> string \<Rightarrow> int \<times> bool \<times> string" where
  "error_msg_control utilname store name dbname =
     (let tmp = not_found_msg utilname dbname name
      in if substr_index tmp store \<noteq> None then (count_newlines store (Some tmp), False, store)
         else (count_newlines (store @ tmp) None, True, store @ tmp))"

definition ahs_set_user_systempair ::
  "sysdb \<Rightarrow> dbcache \<Rightarrow> string \<Rightarrow> string \<Rightarrow> new_cpio_header \<Rightarrow> string \<Rightarrow>
   (int \<times> new_cpio_header \<times> dbcache \<times> string) option" where
  "ahs_set_user_systempair db c utilname store xhs name =
     (if \<not> is_numeric_name name then do {
        let xhs = ahs_set_tar_username xhs name;
        (r, x, c) \<leftarrow> taru_get_uid_by_name db c name;
        if r < 0 then
          (let (n, _, store) = error_msg_control utilname store name ''user''
           in Some (1, ahs_set_uid xhs (word_of_int (AHS_UID_NOBODY - n)), c, store))
        else map_option (\<lambda>x. (0, ahs_set_uid xhs x, c, store)) x }
      else Some (0, ahs_set_uid (ahs_set_tar_username xhs []) (word_of_int (c_atol name)), c, store))"

definition ahs_set_group_systempair ::
  "sysdb \<Rightarrow> dbcache \<Rightarrow> string \<Rightarrow> string \<Rightarrow> new_cpio_header \<Rightarrow> string \<Rightarrow>
   (int \<times> new_cpio_header \<times> dbcache \<times> string) option" where
  "ahs_set_group_systempair db c utilname store xhs name =
     (if \<not> is_numeric_name name then do {
        let xhs = ahs_set_tar_groupname xhs name;
        (r, x, c) \<leftarrow> taru_get_gid_by_name db c name;
        if r < 0 then
          (let (n, _, store) = error_msg_control utilname store name ''group''
           in Some (1, ahs_set_gid xhs (word_of_int (AHS_UID_NOBODY - n)), c, store))
        else map_option (\<lambda>x. (0, ahs_set_gid xhs x, c, store)) x }
      else Some (0, ahs_set_gid (ahs_set_tar_groupname xhs []) (word_of_int (c_atol name)), c, store))"

lemma sysdb_empty_unknown:
  assumes "n \<noteq> []" "getnam db n = None"
  shows "\<exists>c. taru_get_uid_by_name db dbcache_init n = Some (- 1, Some (word_of_int AHS_UID_NOBODY), c) \<and>
     taru_get_uid_by_name db c n = Some (- 1, Some (word_of_int AHS_UID_NOBODY), c)"
  using assms
  by (auto simp: taru_get_uid_by_name_def get_pwent_def get_by_name_def return_id_by_cache_def
      dbcache_lookup_def dbcache_init_def dbcache_set_def cell_matches_def numeral_eq_Suc)

text \<open>the id given to an unknown user depends on whether the message is new: the same name gets
  one id at its first use and another one at every later use.\<close>

theorem unknown_user_id_changes:
  assumes "getnam db ''joe'' = None"
  shows "\<exists>x1 c1 s1 x2 c2 s2.
     ahs_set_user_systempair db dbcache_init ''swpackage'' [] xhs ''joe'' = Some (1, x1, c1, s1) \<and>
     ahs_set_user_systempair db c1 ''swpackage'' s1 x1 ''joe'' = Some (1, x2, c2, s2) \<and>
     c_uid x1 = 2097150 \<and> c_uid x2 = 2097151"
proof -
  obtain c where c: "taru_get_uid_by_name db dbcache_init ''joe'' = Some (- 1, Some (word_of_int AHS_UID_NOBODY), c)"
    "taru_get_uid_by_name db c ''joe'' = Some (- 1, Some (word_of_int AHS_UID_NOBODY), c)"
    using sysdb_empty_unknown [of "''joe''" db] assms by auto
  let ?msg = "not_found_msg ''swpackage'' ''user'' ''joe''"
  have n: "\<not> is_numeric_name ''joe''" by code_simp
  have e1: "error_msg_control ''swpackage'' [] ''joe'' ''user'' = (1, True, ?msg)" by code_simp
  have e2: "error_msg_control ''swpackage'' ?msg ''joe'' ''user'' = (0, False, ?msg)" by code_simp
  have w: "(ucast (word_of_int (AHS_UID_NOBODY - 1) :: 32 word) :: 64 word) = 2097150"
    "(ucast (word_of_int AHS_UID_NOBODY :: 32 word) :: 64 word) = 2097151" by code_simp+
  show ?thesis
    using n c e1 e2 w
    by (simp add: ahs_set_user_systempair_def ahs_set_uid_def)
qed

lemma and_mask_idem: "and p (not M) = 0 \<Longrightarrow> and p M = (p :: 32 word)"
proof -
  assume "and p (not M) = 0"
  then have "and p M = or (and p M) (and p (not M))" by simp
  also have "\<dots> = and p (or M (not M))" by (rule bit.conj_disj_distrib [symmetric])
  also have "\<dots> = p" by simp
  finally show ?thesis .
qed

text \<open>setting the permissions keeps the file type and is read back.\<close>

theorem ahs_perms_roundtrip:
  assumes "and p (not 0xFFF) = 0"
  shows "ahs_get_perms (ahs_set_perms xhs p) = p \<and>
     and (ahs_get_mode (ahs_set_perms xhs p)) (not 0xFFF) = and (ahs_get_mode xhs) (not 0xFFF)"
proof -
  have g: "ahs_get_mode (ahs_set_mode x m) = m" for x m
    by (simp add: ahs_get_mode_def ahs_set_mode_def, rule bit_word_eqI) (auto simp: bit_unsigned_iff)
  have "and p 0xFFF = p" by (rule and_mask_idem [OF assms])
  moreover have "and (and m (not 0xFFF)) 0xFFF = (0 :: 32 word)" for m
    by (simp add: and.assoc)
  moreover have "and (and m (not 0xFFF)) (not 0xFFF) = and m (not (0xFFF :: 32 word))" for m
    by (simp add: and.assoc)
  ultimately show ?thesis
    using assms by (simp add: ahs_get_perms_def ahs_set_perms_def g bit.conj_disj_distrib2)
qed

section \<open>The properties at concrete inputs\<close>

theorem unknown_user_id_changes_witness:
  "\<exists>x1 c1 s1 x2 c2 s2.
     ahs_set_user_systempair root_db dbcache_init ''swpackage'' [] fresh_header ''joe'' = Some (1, x1, c1, s1) \<and>
     ahs_set_user_systempair root_db c1 ''swpackage'' s1 x1 ''joe'' = Some (1, x2, c2, s2) \<and>
     c_uid x1 = 2097150 \<and> c_uid x2 = 2097151"
  by (rule unknown_user_id_changes) (simp add: root_db_def)

theorem ahs_perms_roundtrip_witness:
  "ahs_get_perms (ahs_set_perms fresh_header 0x1A4) = 0x1A4"
  using ahs_perms_roundtrip [of "0x1A4" fresh_header] by simp

end
