(* ===== verification/TarHeader.thy ===== *)
theory TarHeader
  imports Ahs
begin

text \<open>
  The 512 byte tar header record (\<open>swsupplib/taru/tarhdr.h\<close>, \<open>taru.h\<close>) and the routines on single
  fields: checksum and magic test (\<open>otar.c\<close>), the member name in its two fields (\<open>otar.c\<close>,
  \<open>mtar.c\<close>) and the file types. A header is a block; a field is addressed by its offset.
\<close>

section \<open>Layout and flags\<close>

abbreviation TARRECORDSIZE :: nat where "TARRECORDSIZE \<equiv> 512"
definition TARNAMESIZE :: nat where "TARNAMESIZE = 100"
definition TARPREFIXSIZE :: nat where "TARPREFIXSIZE = 155"

abbreviation THB_BO_mode :: int where "THB_BO_mode \<equiv> 100"
abbreviation THB_BO_uid :: int where "THB_BO_uid \<equiv> 108"
abbreviation THB_BO_gid :: int where "THB_BO_gid \<equiv> 116"
abbreviation THB_BO_size :: int where "THB_BO_size \<equiv> 124"
abbreviation THB_BO_mtime :: int where "THB_BO_mtime \<equiv> 136"
abbreviation THB_BO_chksum :: int where "THB_BO_chksum \<equiv> 148"
abbreviation THB_BO_typeflag :: int where "THB_BO_typeflag \<equiv> 156"
abbreviation THB_BO_linkname :: int where "THB_BO_linkname \<equiv> 157"
abbreviation THB_BO_magic :: int where "THB_BO_magic \<equiv> 257"
abbreviation THB_BO_version :: int where "THB_BO_version \<equiv> 263"
abbreviation THB_BO_uname :: int where "THB_BO_uname \<equiv> 265"
abbreviation THB_BO_gname :: int where "THB_BO_gname \<equiv> 297"
abbreviation THB_BO_devmajor :: int where "THB_BO_devmajor \<equiv> 329"
abbreviation THB_BO_devminor :: int where "THB_BO_devminor \<equiv> 337"
abbreviation THB_BO_prefix :: int where "THB_BO_prefix \<equiv> 345"

text \<open>The bits of \<open>taru_tarheaderflagsM\<close>.\<close>

type_synonym tarflags = "32 word"

definition flag_set :: "tarflags \<Rightarrow> tarflags \<Rightarrow> bool" where
  "flag_set flags f \<longleftrightarrow> and flags f \<noteq> 0"

definition TARU_TAR_BE_LIKE_PAX :: tarflags where "TARU_TAR_BE_LIKE_PAX = 0x1"
definition TARU_TAR_NUMERIC_UIDS :: tarflags where "TARU_TAR_NUMERIC_UIDS = 0x2"
definition TARU_TAR_GNU_LONG_LINKS :: tarflags where "TARU_TAR_GNU_LONG_LINKS = 0x4"
definition TARU_TAR_GNU_GNUTAR :: tarflags where "TARU_TAR_GNU_GNUTAR = 0x8"
definition TARU_TAR_BE_LIKE_STAR :: tarflags where "TARU_TAR_BE_LIKE_STAR = 0x20"
definition TARU_TAR_FRAGILE_FORMAT :: tarflags where "TARU_TAR_FRAGILE_FORMAT = 0x40"
definition TARU_TAR_RETAIN_HEADER_IDS :: tarflags where "TARU_TAR_RETAIN_HEADER_IDS = 0x100"
definition TARU_TAR_GNU_OLDGNUTAR :: tarflags where "TARU_TAR_GNU_OLDGNUTAR = 0x200"
definition TARU_TAR_GNU_OLDGNUPOSIX :: tarflags where "TARU_TAR_GNU_OLDGNUPOSIX = 0x400"
definition TARU_TAR_NAMESIZE_99 :: tarflags where "TARU_TAR_NAMESIZE_99 = 0x800"
definition TARU_TAR_PAXEXTHDR :: tarflags where "TARU_TAR_PAXEXTHDR = 0x1000"
definition TARU_TAR_PAXEXTHDR_MD :: tarflags where "TARU_TAR_PAXEXTHDR_MD = 0x2000"

lemmas flag_defs = flag_set_def TARU_TAR_BE_LIKE_PAX_def TARU_TAR_NUMERIC_UIDS_def
  TARU_TAR_GNU_LONG_LINKS_def TARU_TAR_GNU_GNUTAR_def TARU_TAR_BE_LIKE_STAR_def
  TARU_TAR_FRAGILE_FORMAT_def TARU_TAR_RETAIN_HEADER_IDS_def TARU_TAR_GNU_OLDGNUTAR_def
  TARU_TAR_GNU_OLDGNUPOSIX_def TARU_TAR_NAMESIZE_99_def TARU_TAR_PAXEXTHDR_def TARU_TAR_PAXEXTHDR_MD_def

abbreviation REGTYPE :: char where "REGTYPE \<equiv> CHR ''0''"
abbreviation AREGTYPE :: char where "AREGTYPE \<equiv> NUL"
abbreviation LNKTYPE :: char where "LNKTYPE \<equiv> CHR ''1''"
abbreviation SYMTYPE :: char where "SYMTYPE \<equiv> CHR ''2''"
abbreviation CHRTYPE :: char where "CHRTYPE \<equiv> CHR ''3''"
abbreviation BLKTYPE :: char where "BLKTYPE \<equiv> CHR ''4''"
abbreviation DIRTYPE :: char where "DIRTYPE \<equiv> CHR ''5''"
abbreviation FIFOTYPE :: char where "FIFOTYPE \<equiv> CHR ''6''"
abbreviation CONTTYPE :: char where "CONTTYPE \<equiv> CHR ''7''"
abbreviation XHDTYPE :: char where "XHDTYPE \<equiv> CHR ''x''"
abbreviation XGLTYPE :: char where "XGLTYPE \<equiv> CHR ''g''"
abbreviation GNUTYPE_LONGNAME :: char where "GNUTYPE_LONGNAME \<equiv> CHR ''L''"
abbreviation GNUTYPE_LONGLINK :: char where "GNUTYPE_LONGLINK \<equiv> CHR ''K''"
abbreviation NOTDUMPEDTYPE :: char where "NOTDUMPEDTYPE \<equiv> CHR 0x09"

definition GNU_LONG_LINK :: string where "GNU_LONG_LINK = ''././@LongLink''"
definition TMAGIC :: string where "TMAGIC = ''ustar''"

text \<open>The C string at an offset, and \<open>strncpy\<close> of a string into a field.\<close>

definition c_string_at :: "block \<Rightarrow> int \<Rightarrow> string option" where
  "c_string_at b off = map_option (\<lambda>n. take (nat n) (drop (nat off) b)) (c_strlen b off)"

definition strncpy_field :: "block \<Rightarrow> int \<Rightarrow> string \<Rightarrow> nat \<Rightarrow> block option" where
  "strncpy_field b off s n = mem_write b off (strncpy_bytes s n)"

section \<open>Checksum and tests\<close>

definition byte_sum :: "block \<Rightarrow> nat" where
  "byte_sum b = sum_list (map of_char b)"

definition taru_tar_checksum :: "block \<Rightarrow> 64 word option" where
  "taru_tar_checksum hdr =
     (if length hdr < TARRECORDSIZE then None
      else Some (of_nat (byte_sum (take 148 hdr) + 8 * 32 + byte_sum (take 356 (drop 156 hdr)))))"

definition taru_tarheader_check :: "block \<Rightarrow> int option" where
  "taru_tarheader_check buffer =
     (if length buffer < TARRECORDSIZE then None
      else if take 5 (drop 257 buffer) \<noteq> TMAGIC then Some 1
      else do {
        sumis \<leftarrow> taru_from_oct 8 buffer THB_BO_chksum;
        sum \<leftarrow> taru_tar_checksum buffer;
        Some (if sum \<noteq> word_of_int sumis then - 1 else 0) })"

text \<open>\<open>null_block\<close> tests whole \<open>long\<close>s.\<close>

definition null_block :: "block \<Rightarrow> int \<Rightarrow> bool option" where
  "null_block b n =
     (let k = 8 * nat (n div 8)
      in if length b < k then None else Some (list_all (\<lambda>c. c = NUL) (take k b)))"

datatype archive_format_in = arf_unknown | arf_binary | arf_oldascii | arf_newascii | arf_crcascii
  | arf_tar | arf_ustar | arf_hpoldascii | arf_hpbinary | arf_filesystem

definition skip_pad :: "64 word \<Rightarrow> archive_format_in \<Rightarrow> 64 word" where
  "skip_pad offset fmt =
     (if fmt = arf_crcascii \<or> fmt = arf_newascii then (4 - (offset mod 4)) mod 4
      else if fmt = arf_binary \<or> fmt = arf_hpbinary then (2 - (offset mod 2)) mod 2
      else if fmt = arf_tar \<or> fmt = arf_ustar then (512 - (offset mod 512)) mod 512
      else 0)"

text \<open>\<open>taru_tape_skip_padding\<close>; \<open>read_amount\<close> stands for \<open>taru_read_amount\<close> on the descriptor.\<close>

definition taru_tape_skip_padding ::
  "(int \<Rightarrow> 64 word \<Rightarrow> int) \<Rightarrow> int \<Rightarrow> 64 word \<Rightarrow> archive_format_in \<Rightarrow> int" where
  "taru_tape_skip_padding read_amount in_file_des offset fmt =
     (let pad = skip_pad offset fmt
      in if pad \<noteq> 0 then (if in_file_des < 0 then uint pad else read_amount in_file_des pad) else 0)"

section \<open>File types\<close>

text \<open>The result is the new mode and the status.\<close>

definition taru_set_filetype_from_tartype ::
  "char \<Rightarrow> 64 word \<Rightarrow> string option \<Rightarrow> (64 word \<times> int) option" where
  "taru_set_filetype_from_tartype ch mode filename =
     (let mode = and mode (not CP_IFMT)
      in if ch = REGTYPE \<or> ch = CONTTYPE then Some (or mode CP_IFREG, 0)
         else if ch = DIRTYPE then Some (or mode CP_IFDIR, 0)
         else if ch = CHRTYPE then Some (or mode CP_IFCHR, 0)
         else if ch = BLKTYPE then Some (or mode CP_IFBLK, 0)
         else if ch = FIFOTYPE then Some (or mode CP_IFIFO, 0)
         else if ch = SYMTYPE then Some (or mode CP_IFLNK, 0)
         else if ch = LNKTYPE then Some (or mode CP_IFREG, 0)
         else if ch = AREGTYPE then
           (case filename of
              None \<Rightarrow> Some (or mode CP_IFREG, 0)
            | Some f \<Rightarrow> if f = [] then None
                        else if last f = CHR ''/'' then Some (or mode CP_IFDIR, 0)
                        else Some (or mode CP_IFREG, 0))
         else if ch = NOTDUMPEDTYPE then Some (or mode CP_IFSOCK, 0)
         else Some (or mode CP_IFREG, 1))"

text \<open>\<open>tarui_get_filetypes\<close>: the type flag and the file type bits of a mode; \<open>S_ISDOOR\<close> is 0 and
  \<open>S_ISNWK\<close> is not defined on the supported hosts.\<close>

definition tarui_get_filetypes :: "64 word \<Rightarrow> int \<times> int" where
  "tarui_get_filetypes mode =
     (let fmt = and mode CP_IFMT
      in if fmt = CP_IFREG then (of_char REGTYPE, uint CP_IFREG)
         else if fmt = CP_IFDIR then (of_char DIRTYPE, uint CP_IFDIR)
         else if fmt = CP_IFBLK then (of_char BLKTYPE, uint CP_IFBLK)
         else if fmt = CP_IFCHR then (of_char CHRTYPE, uint CP_IFCHR)
         else if fmt = CP_IFIFO then (of_char FIFOTYPE, uint CP_IFIFO)
         else if fmt = CP_IFLNK then (of_char SYMTYPE, uint CP_IFLNK)
         else if fmt = CP_IFSOCK then (of_char NOTDUMPEDTYPE, uint CP_IFSOCK)
         else (- 1, - 1))"

definition taru_get_tar_filetype :: "64 word \<Rightarrow> int" where
  "taru_get_tar_filetype mode = fst (tarui_get_filetypes mode)"

definition taru_get_cpio_filetype :: "64 word \<Rightarrow> int" where
  "taru_get_cpio_filetype mode = snd (tarui_get_filetypes mode)"

section \<open>The member name\<close>

text \<open>The last slash at or before an index, 0 when there is none. A zero length makes the C loop
  start at \<open>SIZE_MAX\<close>.\<close>

fun split_loop :: "string \<Rightarrow> nat \<Rightarrow> nat" where
  "split_loop name 0 = 0"
| "split_loop name (Suc i) = (if name ! Suc i = CHR ''/'' then Suc i else split_loop name i)"

definition split_long_name :: "string \<Rightarrow> nat \<Rightarrow> nat option" where
  "split_long_name name len =
     (let len = (if len > TARPREFIXSIZE then TARPREFIXSIZE + 1 else len)
      in if len = 0 then None else Some (split_loop name (len - 1)))"

definition taru_split_name_ustar :: "block \<Rightarrow> string \<Rightarrow> (block \<times> int) option" where
  "taru_split_name_ustar hdr name = do {
     hdr \<leftarrow> mem_set hdr 0 NUL (int TARNAMESIZE);
     hdr \<leftarrow> mem_set hdr THB_BO_prefix NUL (int TARPREFIXSIZE);
     let len = length name;
     if len > TARPREFIXSIZE + TARNAMESIZE + 1 then Some (hdr, - 1)
     else do {
       i \<leftarrow> split_long_name name len;
       if len - i - 1 > TARNAMESIZE then Some (hdr, - 1)
       else if i = 0 then Some (hdr, 0)
       else do {
         hdr \<leftarrow> mem_write hdr 0 (drop (i + 1) name);
         hdr \<leftarrow> mem_write hdr THB_BO_prefix (take i name);
         Some (hdr, 0) } } }"

text \<open>Hexadecimal escapes in a name (\<open>swsupplib/misc/swlib.c\<close>).\<close>

definition toupper :: "char \<Rightarrow> char" where
  "toupper c = (if CHR ''a'' \<le> c \<and> c \<le> CHR ''z'' then char_of (of_char c - (32 :: nat)) else c)"

definition hex_val :: "char \<Rightarrow> nat option" where
  "hex_val c = (if isdigit c then Some (of_char c - 48)
     else if CHR ''A'' \<le> c \<and> c \<le> CHR ''F'' then Some (of_char c - 7 - 48) else None)"

definition convert_hex_seq :: "char \<Rightarrow> char \<Rightarrow> nat option" where
  "convert_hex_seq d1 d2 = do { a \<leftarrow> hex_val d1; b \<leftarrow> hex_val d2; Some (16 * a + b) }"

definition does_have_hex_escape :: "string \<Rightarrow> (nat \<times> nat) option" where
  "does_have_hex_escape src =
     (case substr_index (CHR 0x5C # ''x'') src of
        None \<Rightarrow> None
      | Some t \<Rightarrow>
          if t = 0 \<or> src ! (t - 1) \<noteq> CHR 0x5C then
            (if length src < t + 4 then None
             else map_option (Pair t) (convert_hex_seq (toupper (src ! (t + 2))) (toupper (src ! (t + 3)))))
          else None)"

lemma substr_index_less: "substr_index p s = Some t \<Longrightarrow> p \<noteq> [] \<Longrightarrow> t < length s"
  by (induction p s arbitrary: t rule: substr_index.induct) (auto split: if_splits)

function process_all_hex_escapes :: "string \<Rightarrow> string" where
  "process_all_hex_escapes src =
     (case does_have_hex_escape src of
        None \<Rightarrow> src
      | Some (t, v) \<Rightarrow> take t src @ char_of v # process_all_hex_escapes (drop (t + 4) src))"
  by auto
termination
proof (relation "measure length", goal_cases)
  case (2 src p t v)
  then have "t < length src"
    by (auto simp: does_have_hex_escape_def dest: substr_index_less split: option.splits if_splits)
  then show ?case by simp
qed simp

declare process_all_hex_escapes.simps [simp del]

definition swlib_process_hex_escapes :: "string \<Rightarrow> string" where
  "swlib_process_hex_escapes s = cstr (process_all_hex_escapes s)"

text \<open>The checksum field: eight bytes with the terminator for pax and star, otherwise six digits, the
  terminator, and the byte that was there.\<close>

definition taru_set_tar_header_sum :: "block \<Rightarrow> tarflags \<Rightarrow> block option" where
  "taru_set_tar_header_sum hdr tar_iflags =
     (let like_star = flag_set tar_iflags TARU_TAR_BE_LIKE_STAR;
          like_pax = flag_set tar_iflags TARU_TAR_BE_LIKE_PAX;
          termch = (if like_star then CHR '' '' else NUL)
      in do {
        sum \<leftarrow> taru_tar_checksum hdr;
        if like_pax \<or> like_star then uintmax_to_chars sum hdr THB_BO_chksum 8 POSIX_FORMAT termch
        else uintmax_to_chars sum hdr THB_BO_chksum 7 POSIX_FORMAT termch })"

definition taru_set_new_linkname :: "block \<Rightarrow> string \<Rightarrow> (block \<times> int) option" where
  "taru_set_new_linkname hdr name = do {
     hdr \<leftarrow> mem_set hdr THB_BO_linkname NUL (int TARLINKNAMESIZE);
     hdr \<leftarrow> strncpy_field hdr THB_BO_linkname name TARLINKNAMESIZE;
     Some (hdr, if length name > TARLINKNAMESIZE then - 1 else 0) }"

definition taru_set_new_name :: "block \<Rightarrow> string \<Rightarrow> tarflags \<Rightarrow> (block \<times> int) option" where
  "taru_set_new_name hdr fpname tar_iflags =
     (let name = (if substr_index (CHR 0x5C # ''x'') fpname \<noteq> None
                  then swlib_process_hex_escapes fpname else fpname)
      in do {
        (hdr, ret) \<leftarrow> (if length name \<le> TARNAMESIZE
           then do { hdr \<leftarrow> strncpy_field hdr 0 name TARNAMESIZE; Some (hdr, 0) }
           else taru_split_name_ustar hdr name);
        if ret \<noteq> 0 then Some (hdr, ret)
        else do { hdr \<leftarrow> taru_set_tar_header_sum hdr tar_iflags; Some (hdr, ret) } })"

text \<open>Reading the name back: \<open>stash_tar_filename\<close> joins the two fields in a static buffer of 513
  bytes. \<open>strncpy\<close> and \<open>strncat\<close> stop at the end of a field.\<close>

definition field_chars :: "block \<Rightarrow> int \<Rightarrow> nat \<Rightarrow> string" where
  "field_chars hdr off n = cstr (take n (drop (nat off) hdr))"

definition stash_tar_filename :: "string option \<Rightarrow> string \<Rightarrow> string" where
  "stash_tar_filename prefix filename =
     (case prefix of
        None \<Rightarrow> filename
      | Some p \<Rightarrow> if p = [] then filename
                  else take (TARPREFIXSIZE + TARNAMESIZE) (p @ ''/'' @ filename))"

definition taru_dup_tar_name :: "block \<Rightarrow> string" where
  "taru_dup_tar_name hdr =
     (let filename = field_chars hdr 0 TARNAMESIZE
      in if take 5 (drop 257 hdr) \<noteq> TMAGIC then stash_tar_filename None filename
         else stash_tar_filename (Some (field_chars hdr THB_BO_prefix TARPREFIXSIZE)) filename)"

definition joined_name :: "block \<Rightarrow> string" where
  "joined_name hdr = stash_tar_filename (Some (field_chars hdr THB_BO_prefix TARPREFIXSIZE))
     (field_chars hdr 0 TARNAMESIZE)"

definition taru_dup_tar_linkname :: "block \<Rightarrow> string" where
  "taru_dup_tar_linkname hdr = field_chars hdr THB_BO_linkname TARLINKNAMESIZE"

text \<open>Whether a name fits the two fields. \<open>split_scan\<close> looks for the first slash that splits the name
  into a prefix of fewer than 155 characters and a rest of at most \<open>tarnamesize\<close>; a trailing slash
  is taken off before and put back after.\<close>

fun split_scan :: "string \<Rightarrow> nat \<Rightarrow> nat \<Rightarrow> bool" where
  "split_scan [] p tarnamesize = False"
| "split_scan (c # r) p tarnamesize =
     (if c = CHR ''/'' \<and> p < TARPREFIXSIZE \<and> length r \<le> tarnamesize \<and> p \<noteq> 0 then True
      else split_scan r (p + 1) tarnamesize)"

text \<open>The result is the status and the value stored in \<open>*p_do_gnu_long_link\<close>.\<close>

definition taru_is_tar_linkname_too_long :: "string \<Rightarrow> tarflags \<Rightarrow> int \<times> int" where
  "taru_is_tar_linkname_too_long name flags =
     (if length name \<le> TARLINKNAMESIZE then (0, 0)
      else if flag_set flags TARU_TAR_GNU_LONG_LINKS then
        (if length name < TARRECORDSIZE then (0, 1) else (1, 0))
      else if flag_set flags TARU_TAR_PAXEXTHDR then (0, 0)
      else (1, 0))"

definition tar_name_size :: "tarflags \<Rightarrow> bool \<Rightarrow> nat" where
  "tar_name_size flags is_dir =
     (let n = (if flag_set flags TARU_TAR_GNU_LONG_LINKS \<and> flag_set flags TARU_TAR_NAMESIZE_99
                  \<or> flag_set flags TARU_TAR_GNU_OLDGNUTAR
               then TARNAMESIZE - 1 else TARNAMESIZE)
      in if is_dir then n - 1 else n)"

definition taru_is_tar_filename_too_long :: "string \<Rightarrow> tarflags \<Rightarrow> bool \<Rightarrow> int \<times> int" where
  "taru_is_tar_filename_too_long name0 flags is_dir =
     (let name = (if length name0 > 1 \<and> last name0 = CHR ''/'' then butlast name0 else name0);
          gnu = flag_set flags TARU_TAR_GNU_LONG_LINKS;
          exthdr = flag_set flags TARU_TAR_PAXEXTHDR;
          n = tar_name_size flags is_dir;
          len = length name;
          too_long = (if len < n then False
             else if len > n + TARPREFIXSIZE + 1 \<and> \<not> gnu \<and> \<not> exthdr then True
             else \<not> split_scan name 0 n)
      in if too_long then
           (if gnu then
              (if len \<ge> 512 then (1, 0) else if len > n then (0, 1) else (0, 0))
            else if exthdr then (0, 0) else (1, 0))
         else (0, 0))"

section \<open>Fields of a record\<close>

text \<open>The contract of a field in a fixed-size record: a store succeeds inside the record, a load of the
  same field gives the stored value, and a load of a disjoint field is not affected. Fields of
  different kinds (numbers, strings) share the client lemmas on sequences of stores.\<close>

locale record_field =
  fixes store :: "block \<Rightarrow> int \<Rightarrow> nat \<Rightarrow> 'v \<Rightarrow> block option"
    and load :: "block \<Rightarrow> int \<Rightarrow> nat \<Rightarrow> 'v option"
    and fits :: "nat \<Rightarrow> 'v \<Rightarrow> bool"
  assumes store_load: "0 \<le> off \<Longrightarrow> off + int n \<le> int (length b) \<Longrightarrow> fits n v \<Longrightarrow>
      \<exists>b'. store b off n v = Some b' \<and> length b' = length b \<and> load b' off n = Some v \<and>
        (\<forall>j < length b. int j < off \<or> off + int n \<le> int j \<longrightarrow> b' ! j = b ! j)"
    and load_local: "0 \<le> off \<Longrightarrow> off + int n \<le> int (length b) \<Longrightarrow> length b' = length b \<Longrightarrow>
      (\<forall>j < length b. off \<le> int j \<and> int j < off + int n \<longrightarrow> b' ! j = b ! j) \<Longrightarrow>
      load b off n = Some v \<Longrightarrow> load b' off n = Some v"
begin

lemma store_frame:
  assumes "0 \<le> off" "off + int n \<le> int (length b)" "fits n v" "store b off n v = Some b'"
    "0 \<le> off2" "off2 + int m \<le> int (length b)" "off2 + int m \<le> off \<or> off + int n \<le> off2"
    "load b off2 m = Some w"
  shows "load b' off2 m = Some w"
proof -
  have l: "length b' = length b" and
    f: "\<forall>j < length b. int j < off \<or> off + int n \<le> int j \<longrightarrow> b' ! j = b ! j"
    using store_load [OF assms(1-3)] assms(4) by auto
  have "\<forall>j < length b. off2 \<le> int j \<and> int j < off2 + int m \<longrightarrow> b' ! j = b ! j"
  proof (intro allI impI)
    fix j assume "j < length b" "off2 \<le> int j \<and> int j < off2 + int m"
    moreover from this have "int j < off \<or> off + int n \<le> int j" using assms(7) by linarith
    ultimately show "b' ! j = b ! j" using f by blast
  qed
  then show ?thesis using load_local [OF assms(5,6) l] assms(8) by blast
qed

lemma store_two:
  assumes "0 \<le> off" "off + int n \<le> int (length b)" "fits n v"
    "0 \<le> off2" "off2 + int m \<le> int (length b)" "fits m w" "off + int n \<le> off2 \<or> off2 + int m \<le> off"
  shows "\<exists>b'. do { b \<leftarrow> store b off n v; store b off2 m w } = Some b' \<and> length b' = length b \<and>
     load b' off n = Some v \<and> load b' off2 m = Some w"
proof -
  obtain b1 where b1: "store b off n v = Some b1" "length b1 = length b" "load b1 off n = Some v"
    using store_load [OF assms(1-3)] by blast
  have l: "off2 + int m \<le> int (length b1)" "off + int n \<le> int (length b1)" using assms b1(2) by auto
  obtain b2 where b2: "store b1 off2 m w = Some b2" "length b2 = length b1" "load b2 off2 m = Some w"
    using store_load [OF assms(4) l(1) assms(6)] by blast
  have "load b2 off n = Some v"
    by (rule store_frame [OF assms(4) l(1) assms(6) b2(1) assms(1) l(2) _ b1(3)]) (use assms(7) in auto)
  with b1 b2 show ?thesis by auto
qed

end

text \<open>String fields: \<open>strncpy\<close> and \<open>field_chars\<close>.\<close>

lemma field_chars_cong:
  assumes "0 \<le> off" "off + int n \<le> int (length b)" "length b' = length b"
    "\<forall>j < length b. off \<le> int j \<and> int j < off + int n \<longrightarrow> b' ! j = b ! j"
  shows "take n (drop (nat off) b') = take n (drop (nat off) b)"
  using assms by (intro nth_equalityI) auto

interpretation str_field: record_field "\<lambda>b off n s. strncpy_field b off s n"
  "\<lambda>b off n. Some (field_chars b off n)" "\<lambda>n s. c_string s \<and> length s \<le> n"
proof unfold_locales
  fix off :: int and n :: nat and b :: block and v :: string
  assume a: "0 \<le> off" "off + int n \<le> int (length b)" "c_string v \<and> length v \<le> n"
  obtain b' where b': "mem_write b off (strncpy_bytes v n) = Some b'"
    using a by (simp add: mem_write_def)
  have "take n (drop (nat off) b') = strncpy_bytes v n" using mem_write_field [OF b'] by simp
  moreover have "cstr (strncpy_bytes v n) = v"
    using a(3) by (cases "n - length v") (auto simp: strncpy_bytes_def)
  ultimately have "field_chars b' off n = v" by (simp add: field_chars_def)
  with b' show "\<exists>b'. strncpy_field b off v n = Some b' \<and> length b' = length b \<and>
      Some (field_chars b' off n) = Some v \<and>
      (\<forall>j < length b. int j < off \<or> off + int n \<le> int j \<longrightarrow> b' ! j = b ! j)"
    using mem_write_nth [OF b'] mem_write_length [OF b'] by (auto simp: strncpy_field_def)
next
  fix off :: int and n :: nat and b b' :: block and v
  assume a: "0 \<le> off" "off + int n \<le> int (length b)" "length b' = length b"
    "\<forall>j < length b. off \<le> int j \<and> int j < off + int n \<longrightarrow> b' ! j = b ! j"
    and v: "Some (field_chars b off n) = Some v"
  from v show "Some (field_chars b' off n) = Some v"
    unfolding field_chars_def field_chars_cong [OF a] .
qed


section \<open>Names survive the two fields\<close>

lemma field_chars_fld: "field_chars b off n = cstr (fld b (nat off) n)"
  by (simp add: field_chars_def fld_def)

lemma cstr_strncpy_bytes [simp]: "c_string s \<Longrightarrow> length s \<le> n \<Longrightarrow> cstr (strncpy_bytes s n) = s"
  by (cases "n - length s") (auto simp: strncpy_bytes_def)

lemma strncpy_bytes_pad: "length s \<le> n \<Longrightarrow> strncpy_bytes s n = s @ replicate (n - length s) NUL"
  by (simp add: strncpy_bytes_def)

lemma split_loop_le: "split_loop name n \<le> n"
  by (induction name n rule: split_loop.induct) (auto intro: le_SucI)

lemma split_loop_slash: "0 < split_loop name n \<Longrightarrow> name ! split_loop name n = CHR ''/''"
  by (induction name n rule: split_loop.induct) (auto split: if_splits)

lemma split_loop_ge: "0 < i \<Longrightarrow> i \<le> n \<Longrightarrow> name ! i = CHR ''/'' \<Longrightarrow> i \<le> split_loop name n"
  by (induction name n rule: split_loop.induct) (auto simp: le_Suc_eq)

text \<open>The index at which \<open>taru_split_name_ustar\<close> splits.\<close>

definition split_at :: "string \<Rightarrow> nat" where
  "split_at name = split_loop name (min (length name) (TARPREFIXSIZE + 1) - 1)"

lemma split_at_le: "split_at name \<le> TARPREFIXSIZE" "name \<noteq> [] \<Longrightarrow> split_at name < length name"
proof -
  let ?n = "min (length name) (TARPREFIXSIZE + 1) - 1"
  have l: "split_at name \<le> ?n" unfolding split_at_def by (rule split_loop_le)
  then show "split_at name \<le> TARPREFIXSIZE" by simp
  have "?n < length name" if "name \<noteq> []" using that by (cases name) (auto simp: min_def)
  with l show "name \<noteq> [] \<Longrightarrow> split_at name < length name" by linarith
qed

lemma split_name_ok:
  assumes "length hdr = 512" "name \<noteq> []" "length name \<le> 256" "length name - split_at name - 1 \<le> 100"
  shows "taru_split_name_ustar hdr name = Some
    (if split_at name = 0 then put (put hdr 0 (replicate 100 NUL)) 345 (replicate 155 NUL)
     else put (put (put (put hdr 0 (replicate 100 NUL)) 345 (replicate 155 NUL))
            0 (drop (split_at name + 1) name)) 345 (take (split_at name) name), 0)"
proof -
  have s: "split_long_name name (length name) = Some (split_at name)"
  proof (cases "length name > TARPREFIXSIZE")
    case True
    then have "min (length name) (TARPREFIXSIZE + 1) - 1 = TARPREFIXSIZE" by simp
    with True show ?thesis by (simp add: split_long_name_def split_at_def)
  next
    case False
    with assms(2) show ?thesis by (simp add: split_long_name_def split_at_def min_def)
  qed
  have "split_at name \<le> 155" "split_at name < length name"
    using split_at_le assms(2) by (auto simp: TARPREFIXSIZE_def)
  with assms s show ?thesis
    by (simp add: taru_split_name_ustar_def TARNAMESIZE_def TARPREFIXSIZE_def mem_simps)
qed

lemma dup_joined: "fld hdr 257 5 = TMAGIC \<Longrightarrow> taru_dup_tar_name hdr = joined_name hdr"
  by (simp add: taru_dup_tar_name_def joined_name_def fld_def)

lemma joined_name_cong:
  "fld a 0 100 = fld b 0 100 \<Longrightarrow> fld a 345 155 = fld b 345 155 \<Longrightarrow> joined_name a = joined_name b"
  by (simp add: joined_name_def field_chars_fld TARNAMESIZE_def TARPREFIXSIZE_def)

lemma split_name_joined:
  assumes "length hdr = 512" "c_string name" "length name \<le> 256"
    "0 < split_at name" "length name - split_at name - 1 \<le> 100"
  shows "\<exists>hdr'. taru_split_name_ustar hdr name = Some (hdr', 0) \<and> length hdr' = 512 \<and>
     joined_name hdr' = take 255 name \<and> fld hdr' 500 12 = fld hdr 500 12 \<and>
     (\<forall>p n. 100 \<le> p \<and> p + n \<le> 345 \<longrightarrow> fld hdr' p n = fld hdr p n)"
proof -
  let ?i = "split_at name" and ?z = "put (put hdr 0 (replicate 100 NUL)) 345 (replicate 155 NUL)"
  let ?h = "put (put ?z 0 (drop (?i + 1) name)) 345 (take ?i name)"
  have ne: "name \<noteq> []" using assms(4) by (auto simp: split_at_def)
  have i: "?i \<le> 155" "?i < length name" using split_at_le ne by (auto simp: TARPREFIXSIZE_def)
  have eq: "taru_split_name_ustar hdr name = Some (?h, 0)"
    using split_name_ok [OF assms(1) ne assms(3,5)] assms(4) by simp
  have len: "length ?z = 512" "length (put ?z 0 (drop (?i + 1) name)) = 512" "length ?h = 512"
    using assms(1,5) i by (simp_all add: mem_simps)
  have z: "length (put hdr 0 (replicate 100 NUL)) = 512" using assms(1) by (simp add: mem_simps)
  have "fld ?h 0 100 = fld (put ?z 0 (drop (?i + 1) name)) 0 100"
    using i len by (intro fld_put_other) auto
  also have "\<dots> = drop (?i + 1) name @ drop (length (drop (?i + 1) name)) (fld ?z 0 100)"
    using assms(5) len by (intro fld_put_prefix) auto
  also have "fld ?z 0 100 = replicate 100 NUL" using assms(1) z by (simp add: mem_simps)
  finally have nm: "fld ?h 0 100 = strncpy_bytes (drop (?i + 1) name) 100"
    using assms(5) by (simp add: strncpy_bytes_def)
  have "fld ?h 345 155 = take ?i name @ drop (length (take ?i name)) (fld (put ?z 0 (drop (?i + 1) name)) 345 155)"
    using i len by (intro fld_put_prefix) auto
  also have "fld (put ?z 0 (drop (?i + 1) name)) 345 155 = fld ?z 345 155"
    using assms(5) len by (intro fld_put_other) auto
  also have "fld ?z 345 155 = replicate 155 NUL" using z by (simp add: mem_simps)
  finally have pf: "fld ?h 345 155 = strncpy_bytes (take ?i name) 155"
    using i by (simp add: strncpy_bytes_def)
  have mg: "fld ?h p n = fld hdr p n" if "100 \<le> p" "p + n \<le> 345" for p n
    using assms i len that by (simp add: mem_simps)
  have tl: "fld ?h 500 12 = fld hdr 500 12" using assms i len by (simp add: mem_simps)
  have sl: "name ! ?i = CHR ''/''"
    using split_loop_slash assms(4) by (simp add: split_at_def)
  have j: "take ?i name @ ''/'' @ drop (?i + 1) name = name"
    using id_take_nth_drop [OF i(2)] sl by simp
  have "take ?i name \<noteq> []" using assms(4) ne by simp
  then have "joined_name ?h = take 255 (take ?i name @ ''/'' @ drop (?i + 1) name)"
    using nm pf assms(2,5) i
    by (simp add: joined_name_def stash_tar_filename_def field_chars_fld TARPREFIXSIZE_def
        TARNAMESIZE_def c_string_take c_string_drop)
  with eq len mg tl j show ?thesis by (intro exI [of _ ?h]) simp
qed

text \<open>a name that has a usable slash is split and joined again; only a name of 256 characters
  loses its last one, cut by the buffer of \<open>stash_tar_filename\<close>.\<close>

theorem ustar_split_roundtrip:
  assumes "length hdr = 512" "fld hdr 257 5 = TMAGIC" "c_string name" "length name \<le> 256"
    "0 < i" "i \<le> 155" "i < length name" "name ! i = CHR ''/''" "length name - i - 1 \<le> 100"
  shows "\<exists>hdr'. taru_split_name_ustar hdr name = Some (hdr', 0) \<and>
     taru_dup_tar_name hdr' = take 255 name"
proof -
  have "i \<le> min (length name) (TARPREFIXSIZE + 1) - 1"
    using assms(6,7) by (auto simp: TARPREFIXSIZE_def)
  then have "i \<le> split_at name"
    unfolding split_at_def using split_loop_ge assms(5,8) by blast
  then have "0 < split_at name" "length name - split_at name - 1 \<le> 100" using assms by auto
  from split_name_joined [OF assms(1,3,4) this] obtain h where h:
    "taru_split_name_ustar hdr name = Some (h, 0)" "joined_name h = take 255 name"
    "\<forall>p n. 100 \<le> p \<and> p + n \<le> 345 \<longrightarrow> fld h p n = fld hdr p n" by blast
  then have "fld h 257 5 = TMAGIC" using assms(2) by simp
  with h dup_joined show ?thesis by auto
qed

text \<open>a name of 101 characters without a usable slash is reported as stored, with both name
  fields empty.\<close>

theorem ustar_split_loses_name:
  assumes "length hdr = 512" "length name = 101" "CHR ''/'' \<notin> set name"
  shows "\<exists>hdr'. taru_split_name_ustar hdr name = Some (hdr', 0) \<and>
     fld hdr' 0 100 = replicate 100 NUL \<and> fld hdr' 345 155 = replicate 155 NUL"
proof -
  have "name ! split_at name \<noteq> CHR ''/''" if "0 < split_at name"
  proof -
    have "split_at name < length name" using split_at_le(2) assms(2) by (metis list.size(3) zero_neq_numeral)
    then show ?thesis using assms(3) by (metis nth_mem)
  qed
  then have s: "split_at name = 0"
    using split_loop_slash unfolding split_at_def by blast
  have z: "length (put hdr 0 (replicate 100 NUL)) = 512" using assms(1) by (simp add: mem_simps)
  have ne: "name \<noteq> []" using assms(2) by auto
  from split_name_ok [OF assms(1) ne] s assms(2)
  have "taru_split_name_ustar hdr name
    = Some (put (put hdr 0 (replicate 100 NUL)) 345 (replicate 155 NUL), 0)" by simp
  with z assms(1) show ?thesis by (simp add: mem_simps)
qed

lemma byte_sum_le: "byte_sum b \<le> 255 * length b"
proof (induction b)
  case (Cons c b)
  have "of_char c < (256 :: nat)" by (rule nat_of_char_less_256)
  with Cons show ?case by (simp add: byte_sum_def del: nat_of_char_less_256)
qed (simp add: byte_sum_def)

lemma checksum_ok:
  assumes "length hdr = 512"
  obtains v where "taru_tar_checksum hdr = Some v" "unat v < 8 ^ 6"
    "unat v = byte_sum (fld hdr 0 148) + 256 + byte_sum (fld hdr 156 356)"
proof -
  let ?n = "byte_sum (fld hdr 0 148) + 256 + byte_sum (fld hdr 156 356)"
  have "?n \<le> 255 * 148 + 256 + 255 * 356"
    using byte_sum_le [of "fld hdr 0 148"] byte_sum_le [of "fld hdr 156 356"] assms
    by (simp add: length_fld)
  then have n: "?n < 262144" by simp
  then have "unat (of_nat ?n :: 64 word) = ?n" by (simp only: unat_of_nat) (simp add: take_bit_nat_eq_self)
  moreover have "taru_tar_checksum hdr = Some (of_nat ?n)"
    using assms by (simp add: taru_tar_checksum_def fld_def)
  ultimately show thesis using n by (intro that) auto
qed

lemma set_tar_header_sum_ok:
  assumes "length hdr = 512"
  obtains bs where "taru_set_tar_header_sum hdr fl = Some (put hdr 148 bs)" "length bs \<le> 8"
proof -
  obtain v where v: "taru_tar_checksum hdr = Some v" "unat v < 8 ^ 6" using checksum_ok [OF assms] by metis
  let ?c = "if flag_set fl TARU_TAR_BE_LIKE_STAR then CHR '' '' else NUL"
  have "unat v < 8 ^ (8 - 1)" "unat v < 8 ^ (7 - 1)" using v(2) by simp_all
  then have "uintmax_to_chars v hdr 148 8 POSIX_FORMAT ?c = Some (put hdr 148 (octal_digits (unat v) 7 @ [?c]))"
    "uintmax_to_chars v hdr 148 7 POSIX_FORMAT ?c = Some (put hdr 148 (octal_digits (unat v) 6 @ [?c]))"
    using assms by (simp_all add: uintmax_to_chars_def to_chars_fits mem_simps)
  with v(1) show thesis
    by (intro that [of "if flag_set fl TARU_TAR_BE_LIKE_PAX \<or> flag_set fl TARU_TAR_BE_LIKE_STAR
          then octal_digits (unat v) 7 @ [?c] else octal_digits (unat v) 6 @ [?c]"])
      (auto simp: taru_set_tar_header_sum_def Let_def)
qed

lemma split_scan_slash:
  "split_scan s p n \<Longrightarrow> \<exists>j < length s. s ! j = CHR ''/'' \<and> p + j < 155 \<and> length s - j - 1 \<le> n \<and> p + j \<noteq> 0"
proof (induction s p n rule: split_scan.induct)
  case (2 c r p n)
  show ?case
  proof (cases "c = CHR ''/'' \<and> p < TARPREFIXSIZE \<and> length r \<le> n \<and> p \<noteq> 0")
    case True
    then show ?thesis by (intro exI [of _ 0]) (auto simp: TARPREFIXSIZE_def)
  next
    case False
    then obtain j where "j < length r" "r ! j = CHR ''/''" "p + 1 + j < 155" "length r - j - 1 \<le> n"
      using 2 by auto
    then show ?thesis by (intro exI [of _ "Suc j"]) auto
  qed
qed simp

lemma joined_short_name:
  assumes "length hdr = 512" "fld hdr 345 155 = replicate 155 NUL" "c_string name" "length name \<le> 100"
  shows "joined_name (put hdr 0 (strncpy_bytes name 100)) = name"
proof -
  have "cstr (replicate 155 NUL) = []" by (simp add: cstr_def numeral_eq_Suc)
  with assms show ?thesis
    by (simp add: joined_name_def field_chars_fld mem_simps TARNAMESIZE_def TARPREFIXSIZE_def
        stash_tar_filename_def)
qed

lemma fits_split:
  assumes "taru_is_tar_filename_too_long name 0 is_dir = (0, g)" "name \<noteq> []"
    "last name \<noteq> CHR ''/'' \<or> is_dir" "100 < length name"
  obtains i where "0 < i" "i < 155" "i < length name" "name ! i = CHR ''/''" "length name - i - 1 \<le> 100"
proof -
  define nm where "nm = (if length name > 1 \<and> last name = CHR ''/'' then butlast name else name)"
  have fl: "\<not> flag_set 0 f" for f by (simp add: flag_set_def)
  let ?n = "tar_name_size 0 is_dir"
  have n: "?n = (if is_dir then 99 else 100)" by (simp add: tar_name_size_def fl TARNAMESIZE_def)
  have len: "length name \<le> Suc (length nm)" "length nm \<le> length name" by (auto simp: nm_def)
  have nth: "nm ! j = name ! j" if "j < length nm" for j
    using that by (auto simp: nm_def nth_butlast)
  have dir: "length nm \<noteq> length name \<Longrightarrow> is_dir" using assms(3) by (auto simp: nm_def split: if_splits)
  have "\<not> length nm < ?n" using assms(4) len dir n by (auto split: if_splits)
  then have "split_scan nm 0 ?n"
    using assms(1) unfolding taru_is_tar_filename_too_long_def nm_def [symmetric]
    by (simp add: fl Let_def split: if_splits)
  from split_scan_slash [OF this] obtain j where j: "j < length nm" "nm ! j = CHR ''/''" "j < 155"
    "length nm - j - 1 \<le> ?n" "j \<noteq> 0" by auto
  then have "length name - j - 1 \<le> 100" using len dir n by (cases "length nm = length name") (auto split: if_splits)
  with j len nth show thesis by (intro that [of j]) auto
qed

lemma set_new_name_joined:
  assumes "length hdr = 512" "fld hdr 345 155 = replicate 155 NUL"
    "c_string name" "name \<noteq> []" "substr_index (CHR 0x5C # ''x'') name = None"
    "length name \<le> 100 \<or> fst (taru_is_tar_filename_too_long name 0 is_dir) = 0" "last name \<noteq> CHR ''/'' \<or> is_dir"
  obtains hdr' where "taru_set_new_name hdr name fl = Some (hdr', 0)" "length hdr' = 512"
    "joined_name hdr' = name" "\<And>p n. 156 \<le> p \<Longrightarrow> p + n \<le> 345 \<Longrightarrow> fld hdr' p n = fld hdr p n"
    "fld hdr' 500 12 = fld hdr 500 12"
proof -
  obtain h where h: "length h = 512" "joined_name h = name"
    "\<And>p n. 156 \<le> p \<Longrightarrow> p + n \<le> 345 \<Longrightarrow> fld h p n = fld hdr p n" "fld h 500 12 = fld hdr 500 12"
    "taru_set_new_name hdr name fl = do { h' \<leftarrow> taru_set_tar_header_sum h fl; Some (h', 0) }"
  proof (cases "length name \<le> 100")
    case True
    let ?h = "put hdr 0 (strncpy_bytes name 100)"
    show thesis
    proof (rule that)
      show "taru_set_new_name hdr name fl = do { h' \<leftarrow> taru_set_tar_header_sum ?h fl; Some (h', 0) }"
        using assms(1,5) True
        by (simp add: taru_set_new_name_def strncpy_field_def mem_simps TARNAMESIZE_def)
      show "joined_name ?h = name" by (rule joined_short_name [OF assms(1,2,3) True])
    qed (use assms(1) in \<open>simp_all add: mem_simps\<close>)
  next
    case False
    obtain g where "taru_is_tar_filename_too_long name 0 is_dir = (0, g)"
      using False assms(6) by (cases "taru_is_tar_filename_too_long name 0 is_dir") auto
    from False fits_split [OF this assms(4,7)]
    obtain i where i: "0 < i" "i < 155" "i < length name" "name ! i = CHR ''/''" "length name - i - 1 \<le> 100" by auto
    then have len: "length name \<le> 255" by linarith
    have "i \<le> min (length name) (TARPREFIXSIZE + 1) - 1" using i by (auto simp: TARPREFIXSIZE_def)
    then have "i \<le> split_at name" unfolding split_at_def using split_loop_ge i(1,4) by blast
    then have s: "0 < split_at name" "length name - split_at name - 1 \<le> 100" "length name \<le> 256"
      using i len by auto
    from split_name_joined [OF assms(1,3) s(3,1,2)] obtain h where h: "taru_split_name_ustar hdr name = Some (h, 0)"
      "length h = 512" "joined_name h = take 255 name" "fld h 500 12 = fld hdr 500 12"
      "\<forall>p n. 100 \<le> p \<and> p + n \<le> 345 \<longrightarrow> fld h p n = fld hdr p n" by blast
    show thesis
    proof (rule that [of h])
      show "taru_set_new_name hdr name fl = do { h' \<leftarrow> taru_set_tar_header_sum h fl; Some (h', 0) }"
        using h(1) assms(5) False by (simp add: taru_set_new_name_def TARNAMESIZE_def)
      show "joined_name h = name" using h(3) len by simp
    qed (use h in auto)
  qed
  obtain bs where bs: "taru_set_tar_header_sum h fl = Some (put h 148 bs)" "length bs \<le> 8"
    by (rule set_tar_header_sum_ok [OF h(1)])
  show thesis
  proof (rule that)
    show "joined_name (put h 148 bs) = name"
      unfolding h(2) [symmetric] using h(1) bs(2) by (intro joined_name_cong) (auto simp: mem_simps)
  qed (use h bs in \<open>simp_all add: mem_simps\<close>)
qed


section \<open>Checksum, padding and types\<close>

lemma header_sum_put:
  assumes "length hdr = 512" "fld hdr 257 5 = TMAGIC"
  obtains bs where "taru_set_tar_header_sum hdr fl = Some (put hdr 148 bs)" "length bs \<le> 8"
    "taru_tarheader_check (put hdr 148 bs) = Some 0" "\<exists>n c v. (n = 6 \<or> n = 7) \<and> (c = NUL \<or> c = CHR '' '') \<and> bs = octal_digits (unat v) n @ [c] \<and>
      taru_tar_checksum (put hdr 148 bs) = Some v \<and> unat v < 8 ^ 6"
proof -
  obtain v where v: "taru_tar_checksum hdr = Some v" "unat v < 8 ^ 6"
    "unat v = byte_sum (fld hdr 0 148) + 256 + byte_sum (fld hdr 156 356)"
    by (rule checksum_ok [OF assms(1)])
  let ?c = "if flag_set fl TARU_TAR_BE_LIKE_STAR then CHR '' '' else NUL"
  define n where "n = (if flag_set fl TARU_TAR_BE_LIKE_PAX \<or> flag_set fl TARU_TAR_BE_LIKE_STAR then 7 else 6 :: nat)"
  define bs where "bs = octal_digits (unat v) n @ [?c]"
  let ?h = "put hdr 148 bs"
  have n: "n = 6 \<or> n = 7" "0 < n" "n \<le> 7" by (auto simp: n_def)
  have lt: "unat v < 8 ^ n" using v(2) n(1) by auto
  have lb: "length bs = n + 1" by (simp add: bs_def)
  have "uintmax_to_chars v hdr 148 (n + 1) POSIX_FORMAT ?c = Some ?h"
    using n lt assms(1) by (auto simp: uintmax_to_chars_def to_chars_fits mem_simps bs_def)
  then have set: "taru_set_tar_header_sum hdr fl = Some ?h"
    using v(1) by (auto simp: taru_set_tar_header_sum_def n_def Let_def split: if_splits)
  have lh: "length ?h = 512" using assms(1) lb n(3) by (simp add: mem_simps)
  have f: "fld ?h 0 148 = fld hdr 0 148" "fld ?h 156 356 = fld hdr 156 356" "fld ?h 257 5 = TMAGIC"
    using assms lb n(3) by (simp_all add: mem_simps)
  obtain w where w: "taru_tar_checksum ?h = Some w"
    "unat w = byte_sum (fld ?h 0 148) + 256 + byte_sum (fld ?h 156 356)"
    using checksum_ok [OF lh] by metis
  then have "unat w = unat v" using v(3) f by simp
  then have "w = v" by (simp add: word_unat_eq_iff)
  moreover have "taru_from_oct 8 ?h 148 = Some (int (unat v))"
  proof (rule taru_from_oct_field [where sp = "[]" and n = n])
    have "fld ?h 148 (n + 1) = bs" using assms(1) lb n(3) by (intro fld_put_same) auto
    then show "take (length [] + n + 1) (drop (nat 148) ?h) = [] @ octal_digits (unat v) n @ [?c]"
      by (simp add: bs_def fld_def)
  qed (use n lt in \<open>auto simp: isspace_def\<close>)
  ultimately have chk: "taru_tarheader_check ?h = Some 0"
    using w(1) lh f(3) by (simp add: taru_tarheader_check_def fld_def)
  have ex: "(n = 6 \<or> n = 7) \<and> (?c = NUL \<or> ?c = CHR '' '') \<and> bs = octal_digits (unat v) n @ [?c] \<and>
      taru_tar_checksum ?h = Some v \<and> unat v < 8 ^ 6"
    using n(1) w(1) \<open>w = v\<close> v(2) unfolding bs_def by simp
  have "length bs \<le> 8" using lb n(3) by simp
  from that [OF set this chk] ex show thesis by blast
qed

text \<open>C4: a header whose checksum was set passes the check.\<close>

theorem header_sum_check:
  assumes "length hdr = 512" "fld hdr 257 5 = TMAGIC"
  shows "\<exists>hdr'. taru_set_tar_header_sum hdr fl = Some hdr' \<and> taru_tarheader_check hdr' = Some 0"
  using header_sum_put [OF assms, of fl] by blast

definition pad_block :: "archive_format_in \<Rightarrow> nat" where
  "pad_block fmt = (case fmt of arf_crcascii \<Rightarrow> 4 | arf_newascii \<Rightarrow> 4 | arf_binary \<Rightarrow> 2 | arf_hpbinary \<Rightarrow> 2
     | arf_tar \<Rightarrow> 512 | arf_ustar \<Rightarrow> 512 | _ \<Rightarrow> 1)"

lemma pad_word:
  assumes "b \<in> {2, 4, 512}"
  shows "unat ((of_nat b - (v mod of_nat b)) mod of_nat b :: 64 word) = (b - unat v mod b) mod b"
proof -
  have b: "unat (of_nat b :: 64 word) = b" "0 < b" using assms by auto
  have m: "unat (v mod of_nat b) = unat v mod b" using b by (simp add: unat_mod)
  then have "unat (v mod of_nat b) \<le> unat (of_nat b :: 64 word)" using b by (simp add: less_imp_le)
  then have "unat (of_nat b - (v mod of_nat b) :: 64 word) = b - unat v mod b"
    using b m by (simp add: unat_sub word_le_nat_alt)
  then show ?thesis using b by (simp add: unat_mod)
qed

lemma skip_pad_block:
  "unat (skip_pad offset fmt) < pad_block fmt \<and>
   (unat offset + unat (skip_pad offset fmt)) mod pad_block fmt = 0"
proof -
  have pad: "(b - n mod b) mod b < b \<and> (n + (b - n mod b) mod b) mod b = 0" if "0 < b" for n b :: nat
  proof -
    have "(n + (b - n mod b)) mod b = (n mod b + (b - n mod b)) mod b" by (simp add: mod_add_left_eq)
    also have "\<dots> = 0" using that by (simp add: less_imp_le)
    finally show ?thesis using that by (simp add: mod_add_right_eq)
  qed
  have al: "unat ((of_nat b - (offset mod of_nat b)) mod of_nat b) < b \<and>
      (unat offset + unat ((of_nat b - (offset mod of_nat b)) mod of_nat b)) mod b = 0"
    if "b \<in> {2, 4, 512}" for b
    unfolding pad_word [OF that] by (rule pad) (use that in auto)
  note a = al [of 2, simplified of_nat_numeral] al [of 4, simplified of_nat_numeral]
    al [of 512, simplified of_nat_numeral]
  show ?thesis
    by (cases fmt; simp only: skip_pad_def pad_block_def archive_format_in.simps simp_thms if_True if_False;
        (rule a)?) simp_all
qed

text \<open>the padding is less than a block and completes the last block of a member.\<close>

theorem skip_pad_aligns:
  "unat (skip_pad offset fmt) < pad_block fmt \<and>
   (unat offset + unat (skip_pad offset fmt)) mod pad_block fmt = 0"
  by (rule skip_pad_block)

lemma type_bits:
  assumes "and f M = (f :: 64 word)"
  shows "and (or (and p (not M)) f) M = f \<and> and (or (and p (not M)) f) (not M) = and p (not M)"
proof -
  have "and f (not M) = and (and f M) (not M)" using assms by simp
  also have "\<dots> = 0" by (simp only: and.assoc bit.conj_cancel_right bit.conj_zero_right)
  finally show ?thesis using assms by (simp add: bit.conj_disj_distrib2 and.assoc)
qed

text \<open>the type flag written for a file type is read as the same file type.\<close>

theorem filetype_roundtrip:
  assumes "and mode CP_IFMT \<in> {CP_IFREG, CP_IFDIR, CP_IFCHR, CP_IFBLK, CP_IFIFO, CP_IFLNK, CP_IFSOCK}"
  shows "\<exists>m. taru_set_filetype_from_tartype (char_of (nat (taru_get_tar_filetype mode))) perms fn = Some (m, 0) \<and>
     and m CP_IFMT = and mode CP_IFMT \<and> and m (not CP_IFMT) = and perms (not CP_IFMT) \<and>
     taru_get_cpio_filetype m = uint (and mode CP_IFMT)"
proof -
  let ?p = "and perms (not CP_IFMT)"
  have t: "and (or ?p f) CP_IFMT = f \<and> and (or ?p f) (not CP_IFMT) = ?p" if "and f CP_IFMT = f" for f
    using that by (rule type_bits)
  have c: "taru_get_cpio_filetype (or ?p f) = uint f"
    if "f \<in> {CP_IFREG, CP_IFDIR, CP_IFCHR, CP_IFBLK, CP_IFIFO, CP_IFLNK, CP_IFSOCK}" for f
    using that t [of f] by (auto simp: taru_get_cpio_filetype_def tarui_get_filetypes_def)
  have S: ?thesis if "taru_get_tar_filetype mode = int (of_char ch)"
    "taru_set_filetype_from_tartype ch perms fn = Some (or ?p f, 0)"
    "and f CP_IFMT = f" "taru_get_cpio_filetype (or ?p f) = uint f" "and mode CP_IFMT = f" for ch f
    using that t [of f] by (intro exI [of _ "or ?p f"]) simp
  note types = taru_get_tar_filetype_def tarui_get_filetypes_def taru_set_filetype_from_tartype_def Let_def
  from assms show ?thesis
    apply (elim insertE emptyE)
    subgoal by (rule S [of REGTYPE CP_IFREG]) (simp_all add: types c [simplified])
    subgoal by (rule S [of DIRTYPE CP_IFDIR]) (simp_all add: types c [simplified])
    subgoal by (rule S [of CHRTYPE CP_IFCHR]) (simp_all add: types c [simplified])
    subgoal by (rule S [of BLKTYPE CP_IFBLK]) (simp_all add: types c [simplified])
    subgoal by (rule S [of FIFOTYPE CP_IFIFO]) (simp_all add: types c [simplified])
    subgoal by (rule S [of SYMTYPE CP_IFLNK]) (simp_all add: types c [simplified])
    subgoal by (rule S [of NOTDUMPEDTYPE CP_IFSOCK]) (simp_all add: types c [simplified])
    done
qed

section \<open>The properties at concrete inputs\<close>

abbreviation ustar_block :: block where
  "ustar_block \<equiv> replicate 257 NUL @ TMAGIC @ replicate 250 NUL"

lemma ustar_block_fields:
  "length ustar_block = 512" "fld ustar_block 257 5 = TMAGIC" "fld ustar_block 345 155 = replicate 155 NUL"
  by (simp_all add: TMAGIC_def fld_def)

lemma CHR_not_replicate: "c \<noteq> d \<Longrightarrow> c_string (replicate n CHR ''a'')"
  by (simp add: c_string_def)


theorem ustar_split_roundtrip_witness:
  "\<exists>hdr'. taru_split_name_ustar ustar_block (replicate 60 CHR ''a'' @ ''/'' @ replicate 60 CHR ''b'') = Some (hdr', 0) \<and>
     taru_dup_tar_name hdr' = replicate 60 CHR ''a'' @ ''/'' @ replicate 60 CHR ''b''"
  using ustar_split_roundtrip [OF ustar_block_fields(1,2), of "replicate 60 CHR ''a'' @ ''/'' @ replicate 60 CHR ''b''" 60]
  by (simp add: c_string_def nth_append)

theorem ustar_split_loses_name_witness:
  "\<exists>hdr'. taru_split_name_ustar ustar_block (replicate 101 CHR ''a'') = Some (hdr', 0) \<and>
     fld hdr' 0 100 = replicate 100 NUL \<and> fld hdr' 345 155 = replicate 155 NUL"
  using ustar_split_loses_name [OF ustar_block_fields(1), of "replicate 101 CHR ''a''"] by simp

theorem header_sum_check_witness:
  "\<exists>hdr'. taru_set_tar_header_sum ustar_block 0 = Some hdr' \<and> taru_tarheader_check hdr' = Some 0"
  using header_sum_check [OF ustar_block_fields(1,2), of 0] .

theorem filetype_roundtrip_witness:
  "\<exists>m. taru_set_filetype_from_tartype (char_of (nat (taru_get_tar_filetype 0x41ED))) 0x1ED None = Some (m, 0) \<and>
     and m CP_IFMT = CP_IFDIR \<and> taru_get_cpio_filetype m = 0x4000"
  using filetype_roundtrip [of "0x41ED" "0x1ED" None] by auto

end
