(* ===== verification/Strob_Bytes.thy ===== *)
theory Strob_Bytes
  imports Strob
begin

text \<open>
  The \<open>STROB\<close> object as a byte buffer: what \<open>strob_set_memlength\<close>, \<open>strob_set_up\<close>, \<open>strob_memcpy_at\<close>
  and \<open>strob_sprintf_at\<close> keep of the bytes below the recorded length, and what they store.
\<close>

text \<open>\<open>strob_bytes s bs\<close>: the object is well formed and its first bytes, all below the recorded length,
  are \<open>bs\<close>.\<close>

definition strob_bytes :: "strob \<Rightarrow> char list \<Rightarrow> bool" where
  "strob_bytes s bs \<longleftrightarrow> strob_wf s \<and> int (length bs) \<le> sb_length s \<and>
     (\<exists>b. sb_str s = Some b \<and> take (length bs) b = bs)"

lemma strob_bytesE:
  assumes "strob_bytes s bs"
  obtains b where "strob_wf s" "sb_str s = Some b" "take (length bs) b = bs" "int (length bs) \<le> sb_length s"
    "int (length b) = sb_reserve s" "sb_length s \<le> sb_reserve s" "last b = NUL" "2 \<le> sb_reserve s" "0 \<le> sb_extra s"
  using assms unfolding strob_bytes_def by (auto elim!: strob_wfE)

lemma strob_bytes_Nil: "strob_wf s \<Longrightarrow> strob_bytes s []"
  by (auto simp: strob_bytes_def elim!: strob_wfE)

lemma strob_set_memlength_keeps:
  assumes wf: "strob_wf s" and b: "sb_str s = Some b" and room: "strob_room s n"
  obtains s' b' where "strob_set_memlength s n = Some s'" "sb_str s' = Some b'" "strob_wf s'" "sb_length s' = n"
    "n \<le> sb_reserve s'" "sb_extra s' = sb_extra s" "sb_reserve s \<le> sb_reserve s'"
    "sb_reserve s' \<le> max (sb_reserve s) (n + sb_extra s)"
    "take (nat (sb_length s)) b' = take (nat (sb_length s)) b"
proof -
  obtain s1 b1 where s1: "strob_reopen_if s n = Some s1" "sb_str s1 = Some b1" "strob_wf s1" "n \<le> sb_reserve s1"
    "sb_extra s1 = sb_extra s" "sb_reserve s \<le> sb_reserve s1" "sb_reserve s1 \<le> max (sb_reserve s) (n + sb_extra s)"
    "take (nat (sb_length s)) b1 = take (nat (sb_length s)) b"
    using strob_reopen_if_ok [OF wf room b] by metis
  have "0 \<le> n" using room by (simp add: strob_room_def)
  then have "strob_wf (s1\<lparr>sb_length := n\<rparr>)" using s1 by (auto simp: strob_wf_def)
  then show thesis
    by (intro that [of "s1\<lparr>sb_length := n\<rparr>" b1]) (use s1 in \<open>auto simp: strob_set_memlength_def\<close>)
qed

lemma strob_wf_write:
  assumes "strob_wf s" "sb_str s = Some b" "mem_write b off bs = Some b'"
    "bs = [] \<or> off + int (length bs) < sb_reserve s \<or> last bs = NUL"
  shows "strob_wf (s\<lparr>sb_str := Some b'\<rparr>)"
proof -
  from assms(1,2) have w: "int (length b) = sb_reserve s" "b \<noteq> []" "last b = NUL" by (auto elim!: strob_wfE)
  have l: "length b' = length b" using mem_write_length [OF assms(3)] .
  then have "b' \<noteq> []" using w(2) by auto
  have "last b' = NUL"
  proof -
    let ?j = "length b - 1"
    have j: "?j < length b" using w(2) by (cases b) auto
    have "last b' = b' ! ?j" using l \<open>b' \<noteq> []\<close> by (simp add: last_conv_nth)
    also have "\<dots> = (if off \<le> int ?j \<and> int ?j < off + int (length bs) then bs ! (?j - nat off) else b ! ?j)"
      by (rule mem_write_nth [OF assms(3) j])
    also have "\<dots> = NUL"
    proof (cases "off \<le> int ?j \<and> int ?j < off + int (length bs)")
      case True
      have o: "0 \<le> off" "off + int (length bs) \<le> int (length b)" using assms(3) by (auto simp: mem_write_def split: if_splits)
      then have "bs \<noteq> []" "off + int (length bs) = sb_reserve s" using True w(1) by auto
      then have "last bs = NUL" "?j - nat off = length bs - 1" using assms(4) o w(1) by auto
      then show ?thesis using True \<open>bs \<noteq> []\<close> by (simp add: last_conv_nth)
    next
      case False
      have "b ! ?j = NUL" using w by (simp add: last_conv_nth)
      then show ?thesis by (simp only: if_not_P [OF False])
    qed
    finally show ?thesis .
  qed
  then show ?thesis using assms(1,2) l by (auto simp: strob_wf_def)
qed

lemma mem_write_take:
  assumes "mem_write b off bs = Some b'" "int n \<le> off"
  shows "take n b' = take n b"
  using assms by (auto simp: mem_write_def min_def split: if_splits)

lemma mem_write_take_end:
  assumes "mem_write b (int n) bs = Some b'"
  shows "take (n + length bs) b' = take n b @ bs"
  using assms by (cases bs) (auto simp: mem_write_def min_def split: if_splits)

lemma strob_set_length_bytes:
  assumes "strob_bytes s bs" "strob_room s (n + 1)" "int (length bs) \<le> n"
  obtains s' where "strob_set_length s n = Some s'" "strob_bytes s' bs" "sb_length s' = n + 1" "n < sb_reserve s'"
    "sb_extra s' = sb_extra s" "sb_reserve s' \<le> max (sb_reserve s) (n + 1 + sb_extra s)"
proof -
  obtain b where b: "strob_wf s" "sb_str s = Some b" "take (length bs) b = bs" "int (length bs) \<le> sb_length s"
    using assms(1) by (rule strob_bytesE)
  obtain s1 b1 where s1: "strob_set_memlength s (n + 1) = Some s1" "sb_str s1 = Some b1" "strob_wf s1"
    "sb_length s1 = n + 1" "n + 1 \<le> sb_reserve s1" "sb_extra s1 = sb_extra s"
    "sb_reserve s1 \<le> max (sb_reserve s) (n + 1 + sb_extra s)"
    "take (nat (sb_length s)) b1 = take (nat (sb_length s)) b"
    by (rule strob_set_memlength_keeps [OF b(1,2) assms(2)]) blast
  have r1: "int (length b1) = sb_reserve s1" using s1(2,3) by (auto elim!: strob_wfE)
  then obtain b2 where b2: "mem_write b1 n [NUL] = Some b2"
    using s1(5) assms(3) by (auto simp: mem_write_def)
  have "take (length bs) b1 = take (length bs) b"
    using s1(8) b(4) by (metis nat_int min.absorb1 nat_mono take_take)
  then have "take (length bs) b2 = bs" using mem_write_take [OF b2 assms(3)] b(3) by simp
  moreover have "strob_wf (s1\<lparr>sb_str := Some b2\<rparr>)" using strob_wf_write [OF s1(3,2) b2] by simp
  ultimately have "strob_bytes (s1\<lparr>sb_str := Some b2\<rparr>) bs"
    using s1(4) assms(3) by (auto simp: strob_bytes_def)
  then show thesis
    by (rule that [rotated]) (use s1 b2 in \<open>auto simp: strob_set_length_def\<close>)
qed

lemma strob_set_memlength_bytes:
  assumes "strob_bytes s bs" "strob_room s n" "int (length bs) \<le> n"
  obtains s' where "strob_set_memlength s n = Some s'" "strob_bytes s' bs" "sb_length s' = n" "n \<le> sb_reserve s'"
    "sb_extra s' = sb_extra s" "sb_reserve s \<le> sb_reserve s'" "sb_reserve s' \<le> max (sb_reserve s) (n + sb_extra s)"
proof -
  obtain b where b: "strob_wf s" "sb_str s = Some b" "take (length bs) b = bs" "int (length bs) \<le> sb_length s"
    using assms(1) by (rule strob_bytesE)
  obtain s1 b1 where s1: "strob_set_memlength s n = Some s1" "sb_str s1 = Some b1" "strob_wf s1"
    "sb_length s1 = n" "n \<le> sb_reserve s1" "sb_extra s1 = sb_extra s" "sb_reserve s \<le> sb_reserve s1"
    "sb_reserve s1 \<le> max (sb_reserve s) (n + sb_extra s)"
    "take (nat (sb_length s)) b1 = take (nat (sb_length s)) b"
    by (rule strob_set_memlength_keeps [OF b(1,2) assms(2)]) blast
  have "take (length bs) b1 = take (length bs) b"
    using s1(9) b(4) by (metis nat_int min.absorb1 nat_mono take_take)
  then have "strob_bytes s1 bs" using s1 b(3) assms(3) by (auto simp: strob_bytes_def)
  then show thesis by (rule that [rotated]) (use s1 in auto)
qed

text \<open>A store right behind the known bytes.\<close>

lemma strob_bytes_store:
  assumes "strob_bytes s bs" "sb_str s = Some b" "int (length bs + length xs) \<le> sb_length s"
    "int (length bs + length xs) < sb_reserve s"
  obtains b' where "mem_write b (int (length bs)) xs = Some b'" "strob_bytes (s\<lparr>sb_str := Some b'\<rparr>) (bs @ xs)"
proof -
  obtain w: "strob_wf s" "take (length bs) b = bs" "int (length b) = sb_reserve s"
    using assms(1,2) by (auto elim: strob_bytesE)
  then obtain b' where b': "mem_write b (int (length bs)) xs = Some b'"
    using assms(4) by (auto simp: mem_write_def)
  have "take (length (bs @ xs)) b' = bs @ xs" using mem_write_take_end [OF b'] w(2) by simp
  moreover have "strob_wf (s\<lparr>sb_str := Some b'\<rparr>)" using strob_wf_write [OF w(1) assms(2) b'] assms(4) by auto
  ultimately have "strob_bytes (s\<lparr>sb_str := Some b'\<rparr>) (bs @ xs)" using assms(3) by (auto simp: strob_bytes_def)
  then show thesis by (rule that [OF b'])
qed


text \<open>\<open>strob_memcpy_at\<close> right behind the known bytes.\<close>

lemma strob_set_up_keeps:
  assumes "strob_bytes s bs" "strob_room s (n + 1)" "int (length bs) \<le> n"
  obtains s' where "strob_set_up s n = Some s'" "strob_bytes s' bs" "n \<le> sb_length s'" "n < sb_reserve s'"
    "sb_extra s' = sb_extra s" "sb_reserve s' \<le> max (sb_reserve s) (n + 1 + sb_extra s)"
proof -
  obtain b where b: "strob_wf s" "sb_str s = Some b" "take (length bs) b = bs" "int (length bs) \<le> sb_length s"
    using assms(1) by (rule strob_bytesE)
  obtain s1 b1 where s1: "strob_reopen_if s (n + 1) = Some s1" "sb_str s1 = Some b1" "strob_wf s1"
    "n + 1 \<le> sb_reserve s1" "sb_length s1 = sb_length s" "sb_extra s1 = sb_extra s"
    "take (nat (sb_length s)) b1 = take (nat (sb_length s)) b"
    "sb_reserve s1 \<le> max (sb_reserve s) (n + 1 + sb_extra s)"
    using strob_reopen_if_ok [OF b(1) assms(2) b(2)] by metis
  have t1: "take (length bs) b1 = bs" using s1(7) b(3,4) by (metis nat_int min.absorb1 nat_mono take_take)
  have r1: "int (length b1) = sb_reserve s1" using s1(2,3) by (auto elim!: strob_wfE)
  show thesis
  proof (cases "n > sb_length s")
    case False
    then show thesis
      by (intro that [of s1]) (use s1 t1 b assms(3) in \<open>auto simp: strob_set_up_def strob_bytes_def\<close>)
  next
    case True
    obtain b2 where b2: "mem_write b1 n [NUL] = Some b2" using s1(4) r1 assms(3) by (auto simp: mem_write_def)
    have w: "strob_wf (s1\<lparr>sb_str := Some b2\<rparr>)" using strob_wf_write [OF s1(3,2) b2] by simp
    then have "strob_wf (s1\<lparr>sb_length := n, sb_str := Some b2\<rparr>)"
      using s1(4) assms(3) by (auto simp: strob_wf_def)
    moreover have "take (length bs) b2 = bs" using mem_write_take [OF b2 assms(3)] t1 by simp
    ultimately show thesis
      by (intro that [of "s1\<lparr>sb_length := n, sb_str := Some b2\<rparr>"])
        (use s1 b2 True assms(3) in \<open>auto simp: strob_set_up_def strob_bytes_def\<close>)
  qed
qed

lemma strob_memcpy_at_bytes:
  assumes "strob_bytes s bs" "strob_room s (int (length (bs @ xs)) + 1)"
  obtains s' where "strob_memcpy_at s (int (length bs)) xs = Some s'" "strob_bytes s' (bs @ xs)"
    "int (length (bs @ xs)) < sb_reserve s'" "sb_extra s' = sb_extra s"
    "sb_reserve s' \<le> max (sb_reserve s) (int (length (bs @ xs)) + 1 + sb_extra s)"
proof -
  let ?n = "int (length (bs @ xs))"
  have ex: "0 \<le> sb_extra s" using assms(1) by (auto elim: strob_bytesE)
  have lim: "?n < INT_LIMIT" using assms(2) ex by (simp add: strob_room_def)
  have n: "c_int (int (length xs)) + c_int (int (length bs)) = ?n" using lim by simp
  obtain s1 where s1: "strob_set_up s ?n = Some s1" "strob_bytes s1 bs" "?n \<le> sb_length s1" "?n < sb_reserve s1"
    "sb_extra s1 = sb_extra s" "sb_reserve s1 \<le> max (sb_reserve s) (?n + 1 + sb_extra s)"
    by (rule strob_set_up_keeps [OF assms(1,2)]) auto
  obtain b where b: "sb_str s1 = Some b" using s1(2) by (auto elim: strob_bytesE)
  obtain b' where b': "mem_write b (int (length bs)) xs = Some b'" "strob_bytes (s1\<lparr>sb_str := Some b'\<rparr>) (bs @ xs)"
    by (rule strob_bytes_store [OF s1(2) b, of xs]) (use s1 in auto)
  show thesis
    by (rule that [OF _ b'(2)]) (use s1 b b'(1) n in \<open>auto simp: strob_memcpy_at_def\<close>)
qed

text \<open>\<open>strob_sprintf_at\<close> right behind the known bytes: one enlargement by 128 bytes is enough for an
  output shorter than that.\<close>

lemma vsnprintf_at_bytes:
  assumes "strob_bytes s bs" "sb_str s = Some b" "c_string out"
    "int (length bs + length out) \<le> sb_length s" "int (length bs + length out) < sb_reserve s"
    "sb_reserve s < INT_LIMIT"
  obtains b' where "c_vsnprintf b (int (length bs)) (sb_reserve s - int (length bs)) out = Some b'"
    "strob_bytes (s\<lparr>sb_str := Some b'\<rparr>) (bs @ out)" "c_strlen b' (int (length bs)) = Some (int (length out))"
proof -
  obtain w: "strob_wf s" "take (length bs) b = bs" "int (length b) = sb_reserve s"
    using assms(1,2) by (auto elim: strob_bytesE)
  have sz: "c_size (sb_reserve s - int (length bs)) = sb_reserve s - int (length bs)" using assms(5,6) by simp
  have tk: "take (nat (sb_reserve s - int (length bs)) - 1) out = out" using assms(5) by simp
  obtain b' where b': "mem_write b (int (length bs)) (out @ [NUL]) = Some b'"
    using assms(5) w(3) by (auto simp: mem_write_def)
  have v: "c_vsnprintf b (int (length bs)) (sb_reserve s - int (length bs)) out = Some b'"
    using b' tk assms(5) unfolding c_vsnprintf_def sz by simp
  have t: "take (length bs + length (out @ [NUL])) b' = bs @ out @ [NUL]"
    using mem_write_take_end [OF b'] w(2) by simp
  have "take (length (bs @ out)) b' = take (length (bs @ out)) (take (length bs + length (out @ [NUL])) b')"
    by (simp add: min_def)
  also have "\<dots> = bs @ out" unfolding t by simp
  finally have "take (length (bs @ out)) b' = bs @ out" .
  moreover have "strob_wf (s\<lparr>sb_str := Some b'\<rparr>)" by (rule strob_wf_write [OF w(1) assms(2) b']) simp
  ultimately have "strob_bytes (s\<lparr>sb_str := Some b'\<rparr>) (bs @ out)" using assms(4) by (auto simp: strob_bytes_def)
  moreover have "c_strlen b' (int (length bs)) = Some (int (length out))"
  proof -
    have "b' = bs @ out @ NUL # drop (length bs + length (out @ [NUL])) b'"
      by (metis t append_take_drop_id append.assoc append_Cons append_Nil)
    then have "drop (length bs) b' = out @ NUL # drop (length bs + length (out @ [NUL])) b'"
      by (metis append_eq_conv_conj)
    then show ?thesis using assms(3) by (simp add: c_strlen_def)
  qed
  ultimately show thesis by (rule that [OF v])
qed

lemma strob_sprintf_at_bytes:
  assumes "strob_bytes s bs" "int (length bs) < sb_reserve s" "c_string out" "length out \<le> 128"
    "strob_room s (sb_reserve s + 128)"
  obtains s' b' where "strob_sprintf_at s (int (length bs)) out = Some (s', int (length out))"
    "strob_bytes s' (bs @ out)" "sb_str s' = Some b'" "c_strlen b' (int (length bs)) = Some (int (length out))"
    "sb_extra s' = sb_extra s" "sb_reserve s' \<le> sb_reserve s + 128 + sb_extra s"
    "int (length (bs @ out)) < sb_reserve s'"
proof -
  let ?off = "int (length bs)"
  obtain b where b: "strob_wf s" "sb_str s = Some b" "int (length b) = sb_reserve s" "0 \<le> sb_extra s"
     "sb_length s \<le> sb_reserve s" "2 \<le> sb_reserve s" "?off \<le> sb_length s"
    using assms(1) by (rule strob_bytesE) blast
  have r0: "strob_room s (sb_reserve s)" using assms(5) b(6) by (auto simp: strob_room_def)
  have lim: "sb_reserve s < INT_LIMIT" using assms(5) b(4) by (simp add: strob_room_def)
  obtain s1 where s1: "strob_set_memlength s (sb_reserve s) = Some s1" "strob_bytes s1 bs" "sb_length s1 = sb_reserve s"
    "sb_extra s1 = sb_extra s" "sb_reserve s1 = sb_reserve s"
  proof -
    have "strob_reopen_if s (sb_reserve s) = Some s"
      using b(4,5,6) assms(5) by (simp add: strob_reopen_if_def strob_room_def)
    then show thesis
      using assms(1) b by (intro that [of "s\<lparr>sb_length := sb_reserve s\<rparr>"])
        (auto simp: strob_set_memlength_def strob_bytes_def strob_wf_def)
  qed
  obtain b1 where b1: "sb_str s1 = Some b1" "take (length bs) b1 = bs" "int (length b1) = sb_reserve s" "strob_wf s1"
    using s1(2,5) by (auto elim: strob_bytesE)
  have start: "strob_sprintf_at s ?off out = strob_vsprintf_at_loop s ?off out 0 None"
    using b(5,7) by (simp add: strob_sprintf_at_def strob_vsprintf_at_def strob_get_reserve_def)
  show thesis
  proof (cases "?off + int (length out) < sb_reserve s")
    case True
    obtain b2 where b2: "c_vsnprintf b1 ?off (sb_reserve s1 - ?off) out = Some b2"
      "strob_bytes (s1\<lparr>sb_str := Some b2\<rparr>) (bs @ out)" "c_strlen b2 ?off = Some (int (length out))"
      by (rule vsnprintf_at_bytes [OF s1(2) b1(1) assms(3)]) (use True s1 lim in auto)
    have "strob_vsprintf_at_loop s ?off out 0 None = Some (s1\<lparr>sb_str := Some b2\<rparr>, int (length out))"
      using s1 b1 b2(1) True by (subst strob_vsprintf_at_loop.simps) (simp add: rewind_oldend_def)
    then show thesis by (intro that [OF _ b2(2)]) (use start s1 b2 True b(4) in auto)
  next
    case False
    obtain b2 where b2: "c_vsnprintf b1 ?off (sb_reserve s1 - ?off) out = Some b2" "mem_write b1 ?off
        (take (nat (sb_reserve s - ?off) - 1) out @ [NUL]) = Some b2"
    proof -
      let ?w = "take (nat (sb_reserve s - ?off) - 1) out @ [NUL]"
      have sz: "c_size (sb_reserve s - ?off) = sb_reserve s - ?off" using lim assms(2) by simp
      have "int (length ?w) \<le> sb_reserve s - ?off" using assms(2) by auto
      then obtain b2 where "mem_write b1 ?off ?w = Some b2" using b1(3) by (auto simp: mem_write_def)
      then show thesis using that assms(2) unfolding c_vsnprintf_def s1(5) sz by auto
    qed
    have l2: "length b2 = length b1" using mem_write_length [OF b2(2)] .
    obtain b3 where b3: "mem_write b2 ?off [NUL] = Some b3" using assms(2) l2 b1(3) by (auto simp: mem_write_def)
    let ?s3 = "s1\<lparr>sb_str := Some b3\<rparr>"
    have w2: "strob_wf (s1\<lparr>sb_str := Some b2\<rparr>)" by (rule strob_wf_write [OF b1(4,1) b2(2)]) simp
    have w3: "strob_wf ?s3" using strob_wf_write [OF w2 _ b3] by simp
    have "take (length bs) b3 = bs"
      using mem_write_take [OF b3, of "length bs"] mem_write_take [OF b2(2), of "length bs"] b1(2) by simp
    then have y3: "strob_bytes ?s3 bs" using w3 s1(3) assms(2) by (auto simp: strob_bytes_def)
    have r3: "strob_room ?s3 (sb_reserve s + 128)" using assms(5) s1(4) by (simp add: strob_room_def)
    obtain s4 where s4: "strob_set_memlength ?s3 (sb_reserve s + 128) = Some s4" "strob_bytes s4 bs"
      "sb_length s4 = sb_reserve s + 128" "sb_reserve s + 128 \<le> sb_reserve s4" "sb_extra s4 = sb_extra s" "sb_reserve s4 \<le> max (sb_reserve s) (sb_reserve s + 128 + sb_extra s)"
      by (rule strob_set_memlength_bytes [OF y3 r3]) (use assms(2) s1(4,5) in auto)
    have l4: "sb_reserve s4 < INT_LIMIT" using s4(6) assms(5) b(4) by (simp add: strob_room_def)
    obtain b4 where b4: "sb_str s4 = Some b4" using s4(2) by (auto elim: strob_bytesE)
    obtain b5 where b5: "c_vsnprintf b4 ?off (sb_reserve s4 - ?off) out = Some b5"
      "strob_bytes (s4\<lparr>sb_str := Some b5\<rparr>) (bs @ out)" "c_strlen b5 ?off = Some (int (length out))"
      by (rule vsnprintf_at_bytes [OF s4(2) b4 assms(3)]) (use assms(2,4) s4 l4 in auto)
    have "strob_vsprintf_at_loop s ?off out 0 None
        = strob_vsprintf_at_loop (s1\<lparr>sb_str := Some b2\<rparr>) ?off out 128 (Some ?off)"
      using s1 b1 b2(1) False by (subst strob_vsprintf_at_loop.simps) (simp add: rewind_oldend_def)
    also have "\<dots> = Some (s4\<lparr>sb_str := Some b5\<rparr>, int (length out))"
      using b3 s1(5) s4 b4 b5(1) assms(2,4) by (subst strob_vsprintf_at_loop.simps) (simp add: rewind_oldend_def)
    finally show thesis by (intro that [OF _ b5(2)]) (use start s4 b4 b5 assms(2,4) b(4) in auto)
  qed
qed

end
