(* ===== verification/Taru.thy ===== *)
theory Taru
  imports TarHeader Strob_Bytes
begin

text \<open>
  The archiver object \<open>TARU\<close> and the operations of \<open>swsupplib/taru/taru.c\<close> on it: the recording of
  header bytes, the format flags and named formats, and the checks of a header against the limits of
  the ustar fields.
\<close>

section \<open>The object\<close>

text \<open>The object of \<open>taru/etar.c\<close>: one header record, its flags and the time at which it was opened. Of the 2048
  bytes that \<open>etar_open\<close> allocates only those of the record are used. \<open>now\<close> is what \<open>time\<close> returns.\<close>

record etar =
  etar_tarheaderflagsM :: tarflags
  tar_hdrM :: block
  timeM :: "64 word"

definition etar_open :: "tarflags \<Rightarrow> 64 word \<Rightarrow> etar" where
  "etar_open flags now = \<lparr>etar_tarheaderflagsM = flags, tar_hdrM = replicate TARRECORDSIZE NUL, timeM = now\<rparr>"

record taru =
  taru_tarheaderflagsM :: tarflags
  do_record_headerM :: bool
  headerM :: strob
  header_lengthM :: int
  u_ent_bufferM :: block
  exthdr_dataM :: strob
  read_bufferM :: strob
  read_buffer_posM :: int
  preview_fdM :: int
  preview_levelM :: int
  linkrecord_disableM :: bool
  etarM :: etar

text \<open>The entry buffer is allocated with \<open>strob_open (SNAME_LEN + SNAME_LEN)\<close>, 65 bytes.\<close>

definition taru_create :: "64 word \<Rightarrow> taru option" where
  "taru_create now = do {
     hb \<leftarrow> strob_open 1024;
     e \<leftarrow> strob_open (int SNAME_LEN + int SNAME_LEN);
     ent \<leftarrow> sb_str e;
     rb \<leftarrow> strob_open (int TARRECORDSIZE * 4);
     xb \<leftarrow> strob_open 16;
     Some \<lparr>taru_tarheaderflagsM = 0, do_record_headerM = False, headerM = hb, header_lengthM = 0,
       u_ent_bufferM = ent, exthdr_dataM = xb, read_bufferM = rb, read_buffer_posM = 0, preview_fdM = - 1,
       preview_levelM = 0, linkrecord_disableM = False, etarM = etar_open 0 now\<rparr> }"

definition taru_set_preview_level :: "taru \<Rightarrow> int \<Rightarrow> taru" where
  "taru_set_preview_level taru preview_level = taru\<lparr>preview_levelM := preview_level\<rparr>"

definition taru_get_preview_level :: "taru \<Rightarrow> int" where
  "taru_get_preview_level taru = preview_levelM taru"

definition taru_set_preview_fd :: "taru \<Rightarrow> int \<Rightarrow> taru" where
  "taru_set_preview_fd taru fd = taru\<lparr>preview_fdM := fd\<rparr>"

definition taru_get_preview_fd :: "taru \<Rightarrow> int" where
  "taru_get_preview_fd taru = preview_fdM taru"

section \<open>Recorded headers\<close>

definition taru_set_header_recording :: "taru \<Rightarrow> int \<Rightarrow> taru" where
  "taru_set_header_recording taru n = taru\<lparr>do_record_headerM := n \<noteq> 0\<rparr>"

definition taru_get_recorded_header :: "taru \<Rightarrow> (block \<times> int) option" where
  "taru_get_recorded_header taru = do { b \<leftarrow> strob_get_str (headerM taru); Some (b, header_lengthM taru) }"

definition taru_clear_header_buffer :: "taru \<Rightarrow> taru" where
  "taru_clear_header_buffer taru = taru\<lparr>header_lengthM := 0\<rparr>"

text \<open>The recording of one record, as it stands in the reader (at the end of what is recorded) and in the
  writer (at offset 0).\<close>

definition record_header_at :: "taru \<Rightarrow> int \<Rightarrow> block \<Rightarrow> taru option" where
  "record_header_at taru off tar_rec = do {
     s \<leftarrow> strob_set_memlength (headerM taru) (off + 512);
     b \<leftarrow> sb_str s;
     b \<leftarrow> mem_write b off (take 512 tar_rec);
     Some (taru\<lparr>headerM := s\<lparr>sb_str := Some b\<rparr>, header_lengthM := off + 512\<rparr>) }"

definition taru_append_to_header_buffer :: "taru \<Rightarrow> char list \<Rightarrow> taru option" where
  "taru_append_to_header_buffer taru buf = do {
     s \<leftarrow> strob_set_length (headerM taru) (header_lengthM taru + int (length buf) + 1);
     b \<leftarrow> sb_str s;
     b \<leftarrow> mem_write b (header_lengthM taru) buf;
     Some (taru\<lparr>headerM := s\<lparr>sb_str := Some b\<rparr>, header_lengthM := header_lengthM taru + int (length buf)\<rparr>) }"

text \<open>The size of a member as a signed number; \<^term>\<open>None\<close> is the fatal error for a size that has no
  such value (\<open>off_t\<close> has 64 bits).\<close>

definition taru_hdr_get_filesize :: "new_cpio_header \<Rightarrow> int option" where
  "taru_hdr_get_filesize h = (if c_filesize h \<ge> 2 ^ 63 - 1 then None else Some (sint (c_filesize h)))"

text \<open>The text \<open>taru_digs_print\<close> appends to its buffer.\<close>

definition taru_digs_print :: "file_digs \<Rightarrow> strob \<Rightarrow> strob option" where
  "taru_digs_print digs buffer = do {
     (buffer, _) \<leftarrow> strob_sprintf buffer True (if do_md5 digs = 1 then '' ['' @ md5_hex digs @ '']'' else '' []'');
     (buffer, _) \<leftarrow> strob_sprintf buffer True (if do_sha1 digs = 1 then '' ['' @ sha1_hex digs @ '']'' else '' []'');
     Some buffer }"

section \<open>Formats\<close>

definition TARU_TAR_GNU_BLOCKSIZE_B1 :: tarflags where "TARU_TAR_GNU_BLOCKSIZE_B1 = 0x10"

definition taru_set_tarheader_flag :: "taru \<Rightarrow> tarflags \<Rightarrow> bool \<Rightarrow> taru" where
  "taru_set_tarheader_flag taru flag n =
     taru\<lparr>taru_tarheaderflagsM :=
       (if n then or (taru_tarheaderflagsM taru) flag else and (taru_tarheaderflagsM taru) (not flag))\<rparr>"

definition set_flags :: "taru \<Rightarrow> (tarflags \<times> bool) list \<Rightarrow> taru" where
  "set_flags taru fs = foldl (\<lambda>t (f, n). taru_set_tarheader_flag t f n) taru fs"

text \<open>The returned format is \<^term>\<open>None\<close> for an unknown name, which is an error.\<close>

definition taru_set_tar_header_policy :: "taru \<Rightarrow> string \<Rightarrow> taru \<times> archive_format_in option" where
  "taru_set_tar_header_policy taru user_format =
     (if user_format = ''ustar'' then
        (set_flags taru [(TARU_TAR_GNU_OLDGNUTAR, False), (TARU_TAR_GNU_LONG_LINKS, False),
           (TARU_TAR_BE_LIKE_PAX, False)], Some arf_ustar)
      else if user_format = ''gnu'' \<or> user_format = ''gnutar'' then
        (set_flags taru [(TARU_TAR_GNU_OLDGNUPOSIX, False), (TARU_TAR_GNU_OLDGNUTAR, False),
           (TARU_TAR_BE_LIKE_PAX, False), (TARU_TAR_GNU_LONG_LINKS, True), (TARU_TAR_GNU_BLOCKSIZE_B1, True),
           (TARU_TAR_GNU_GNUTAR, True)], Some arf_ustar)
      else if user_format = ''ustar.star'' then
        (set_flags taru [(TARU_TAR_GNU_OLDGNUTAR, False), (TARU_TAR_GNU_OLDGNUPOSIX, False),
           (TARU_TAR_BE_LIKE_PAX, False), (TARU_TAR_BE_LIKE_STAR, True), (TARU_TAR_GNU_BLOCKSIZE_B1, True)],
         Some arf_ustar)
      else if user_format = ''oldgnu'' then
        (set_flags taru [(TARU_TAR_GNU_OLDGNUTAR, True), (TARU_TAR_GNU_LONG_LINKS, True),
           (TARU_TAR_GNU_BLOCKSIZE_B1, True)], Some arf_ustar)
      else if user_format = ''ustar0'' then
        (set_flags taru [(TARU_TAR_GNU_OLDGNUTAR, False), (TARU_TAR_GNU_LONG_LINKS, False),
           (TARU_TAR_BE_LIKE_PAX, False), (TARU_TAR_GNU_BLOCKSIZE_B1, True), (TARU_TAR_GNU_OLDGNUPOSIX, True)],
         Some arf_ustar)
      else if user_format = ''bsdpax3'' then
        (set_flags taru [(TARU_TAR_GNU_BLOCKSIZE_B1, True), (TARU_TAR_BE_LIKE_PAX, False)], Some arf_ustar)
      else if user_format = ''newc'' then (taru, Some arf_newascii)
      else if user_format = ''crc'' then (taru, Some arf_crcascii)
      else if user_format = ''odc'' then (taru, Some arf_oldascii)
      else if user_format = ''pax'' \<or> user_format = ''posix'' then
        (set_flags taru [(TARU_TAR_GNU_OLDGNUPOSIX, False), (TARU_TAR_GNU_OLDGNUTAR, False),
           (TARU_TAR_GNU_LONG_LINKS, False), (TARU_TAR_BE_LIKE_PAX, False), (TARU_TAR_PAXEXTHDR, True)],
         Some arf_ustar)
      else (taru, None))"

section \<open>Limits of the ustar fields\<close>

abbreviation TARU_EHUM_ATIME :: "32 word" where "TARU_EHUM_ATIME \<equiv> 0x1"
abbreviation TARU_EHUM_CTIME :: "32 word" where "TARU_EHUM_CTIME \<equiv> 0x8"
abbreviation TARU_EHUM_GID :: "32 word" where "TARU_EHUM_GID \<equiv> 0x10"
abbreviation TARU_EHUM_GNAME :: "32 word" where "TARU_EHUM_GNAME \<equiv> 0x20"
abbreviation TARU_EHUM_LINKPATH :: "32 word" where "TARU_EHUM_LINKPATH \<equiv> 0x40"
abbreviation TARU_EHUM_MTIME :: "32 word" where "TARU_EHUM_MTIME \<equiv> 0x80"
abbreviation TARU_EHUM_PATH :: "32 word" where "TARU_EHUM_PATH \<equiv> 0x100"
abbreviation TARU_EHUM_SIZE :: "32 word" where "TARU_EHUM_SIZE \<equiv> 0x800"
abbreviation TARU_EHUM_UID :: "32 word" where "TARU_EHUM_UID \<equiv> 0x1000"
abbreviation TARU_EHUM_UNAME :: "32 word" where "TARU_EHUM_UNAME \<equiv> 0x2000"
abbreviation TARU_EHUM_ANY :: "32 word" where "TARU_EHUM_ANY \<equiv> 0x4000"
abbreviation TARU_EHUM_DEV_MAJ :: "32 word" where "TARU_EHUM_DEV_MAJ \<equiv> 0x8000"
abbreviation TARU_EHUM_DEV_MIN :: "32 word" where "TARU_EHUM_DEV_MIN \<equiv> 0x10000"

definition TAR_MAX_7OCTAL :: "64 word" where "TAR_MAX_7OCTAL = 2097151"
definition TAR_MAX_SIZE :: "64 word" where "TAR_MAX_SIZE = 8589934591"

definition mask_if :: "bool \<Rightarrow> 32 word \<Rightarrow> 32 word \<Rightarrow> 32 word" where
  "mask_if p flag need = (if p then or need flag else need)"

text \<open>The messages the function prints are left out.\<close>

definition taru_fill_exthdr_needs_mask :: "new_cpio_header \<Rightarrow> tarflags \<Rightarrow> 32 word" where
  "taru_fill_exthdr_needs_mask h tarheaderflags =
     (let need = 0;
          need = mask_if (fst (taru_is_tar_filename_too_long (ahsStaticGetTarFilename h) 0 False) \<noteq> 0)
                   TARU_EHUM_PATH need;
          need = mask_if (fst (taru_is_tar_linkname_too_long (ahsStaticGetTarLinkname h) 0) \<noteq> 0)
                   TARU_EHUM_LINKPATH need;
          need = mask_if (c_filesize h > TAR_MAX_SIZE) TARU_EHUM_SIZE need;
          need = mask_if (c_uid h > TAR_MAX_7OCTAL) TARU_EHUM_UID need;
          need = mask_if (c_gid h > TAR_MAX_7OCTAL) TARU_EHUM_GID need;
          need = mask_if (length (ahsStaticGetTarUsername h) \<ge> 32) TARU_EHUM_UNAME need;
          need = mask_if (length (ahsStaticGetTarGroupname h) \<ge> 32) TARU_EHUM_GNAME need;
          need = mask_if (c_filesize h > TAR_MAX_SIZE) TARU_EHUM_SIZE need;
          need = mask_if (c_dev_maj h > TAR_MAX_7OCTAL) TARU_EHUM_DEV_MAJ need;
          need = mask_if (c_dev_min h > TAR_MAX_7OCTAL) TARU_EHUM_DEV_MIN need
      in if flag_set tarheaderflags TARU_TAR_PAXEXTHDR_MD then
           foldl or need [TARU_EHUM_PATH, TARU_EHUM_LINKPATH, TARU_EHUM_SIZE, TARU_EHUM_UID, TARU_EHUM_GID,
             TARU_EHUM_UNAME, TARU_EHUM_GNAME, TARU_EHUM_MTIME, TARU_EHUM_SIZE]
         else need)"

definition taru_check_devno_for_tar :: "new_cpio_header \<Rightarrow> int" where
  "taru_check_devno_for_tar h =
     (if c_rdev_maj h > 2097151 then 1 else if c_rdev_min h > 2097151 then 2 else 0)"

text \<open>The macros \<open>makedev\<close> and \<open>minor\<close> of the C library on a 64-bit \<open>dev_t\<close>.\<close>

definition c_makedev :: "32 word \<Rightarrow> 32 word \<Rightarrow> 64 word" where
  "c_makedev maj mi =
     (let maj = ucast maj; mi = ucast mi
      in or (or (push_bit 8 (and maj 0xFFF)) (push_bit 32 (and maj (not 0xFFF))))
            (or (and mi 0xFF) (push_bit 12 (and mi (not 0xFF)))))"

definition c_minor :: "64 word \<Rightarrow> 32 word" where
  "c_minor dev = ucast (or (and dev 0xFF) (and (drop_bit 12 dev) (not 0xFF)))"

definition taru_check_devno_for_system :: "new_cpio_header \<Rightarrow> int" where
  "taru_check_devno_for_system h =
     (let d = (ucast (c_makedev (ucast (c_rdev_maj h)) (ucast (c_rdev_min h))) :: 32 word);
          mi = c_minor (scast d)
      in if (ucast (c_rdev_maj h) :: 32 word) \<noteq> mi then 1
         else if (ucast (c_rdev_min h) :: 32 word) \<noteq> mi then 2 else 0)"


section \<open>What is recorded\<close>

text \<open>\<open>recorded taru bs\<close>: the bytes recorded so far are \<open>bs\<close>.\<close>

definition recorded :: "taru \<Rightarrow> char list \<Rightarrow> bool" where
  "recorded taru bs \<longleftrightarrow> strob_bytes (headerM taru) bs \<and> header_lengthM taru = int (length bs)"

lemma recorded_get:
  "recorded taru bs \<Longrightarrow> \<exists>b. taru_get_recorded_header taru = Some (b, int (length bs)) \<and> take (length bs) b = bs"
  by (auto simp: recorded_def taru_get_recorded_header_def strob_get_str_def elim!: strob_bytesE)

lemma recorded_clear: "recorded taru bs \<Longrightarrow> recorded (taru_clear_header_buffer taru) []"
  by (auto simp: recorded_def taru_clear_header_buffer_def strob_bytes_Nil elim!: strob_bytesE)

lemma append_recorded:
  assumes "recorded taru bs" "strob_room (headerM taru) (int (length bs + length buf) + 2)"
  shows "\<exists>taru'. taru_append_to_header_buffer taru buf = Some taru' \<and> recorded taru' (bs @ buf) \<and>
     sb_extra (headerM taru') = sb_extra (headerM taru)"
proof -
  have r: "strob_bytes (headerM taru) bs" "header_lengthM taru = int (length bs)"
    using assms(1) by (auto simp: recorded_def)
  let ?n = "int (length bs) + int (length buf) + 1"
  have "strob_room (headerM taru) (?n + 1)" using assms(2) by (simp add: add.assoc)
  then obtain s where s: "strob_set_length (headerM taru) ?n = Some s" "strob_bytes s bs" "sb_length s = ?n + 1"
    "?n < sb_reserve s" "sb_extra s = sb_extra (headerM taru)"
    by (rule strob_set_length_bytes [OF r(1)]) auto
  obtain b where b: "sb_str s = Some b" using s(2) by (auto elim: strob_bytesE)
  obtain b' where "mem_write b (int (length bs)) buf = Some b'" "strob_bytes (s\<lparr>sb_str := Some b'\<rparr>) (bs @ buf)"
    by (rule strob_bytes_store [OF s(2) b, of buf]) (use s in auto)
  then show ?thesis using s(1,5) b r(2) by (simp add: taru_append_to_header_buffer_def recorded_def)
qed

lemma record_header_recorded:
  assumes "strob_bytes (headerM taru) bs" "length tar_rec = 512" "last tar_rec = NUL"
    "strob_room (headerM taru) (int (length bs) + 512)"
  shows "\<exists>taru'. record_header_at taru (int (length bs)) tar_rec = Some taru' \<and> recorded taru' (bs @ tar_rec)"
proof -
  let ?n = "int (length bs) + 512"
  obtain s where s: "strob_set_memlength (headerM taru) ?n = Some s" "strob_bytes s bs" "sb_length s = ?n"
    "?n \<le> sb_reserve s"
    by (rule strob_set_memlength_bytes [OF assms(1,4)]) auto
  obtain b where b: "sb_str s = Some b" "strob_wf s" "take (length bs) b = bs" "int (length b) = sb_reserve s"
    using s(2) by (auto elim: strob_bytesE)
  obtain b' where b': "mem_write b (int (length bs)) tar_rec = Some b'"
    using b(4) s(4) assms(2) by (auto simp: mem_write_def)
  have t: "take (length (bs @ tar_rec)) b' = bs @ tar_rec" using mem_write_take_end [OF b'] b(3) by simp
  have "strob_wf (s\<lparr>sb_str := Some b'\<rparr>)" using strob_wf_write [OF b(2,1) b'] assms(3) by simp
  then have "strob_bytes (s\<lparr>sb_str := Some b'\<rparr>) (bs @ tar_rec)"
    using t s(3) assms(2) by (auto simp: strob_bytes_def)
  then show ?thesis
    using s(1) b(1) b' assms(2) by (simp add: record_header_at_def recorded_def)
qed

text \<open>C36: header bytes appended one after the other are all kept, in order, whatever reallocations of the
  buffer happen in between.\<close>

theorem header_buffer_appends:
  assumes "recorded taru bs"
    "length bs + length (concat bufs) + 2 + nat (sb_extra (headerM taru)) < 2 ^ 31"
  shows "\<exists>taru'. foldl (\<lambda>t buf. Option.bind t (\<lambda>t. taru_append_to_header_buffer t buf)) (Some taru) bufs = Some taru' \<and>
     recorded taru' (bs @ concat bufs) \<and>
     (\<exists>b. taru_get_recorded_header taru' = Some (b, int (length (bs @ concat bufs))) \<and>
          take (length (bs @ concat bufs)) b = bs @ concat bufs)"
proof -
  have "\<exists>taru'. foldl (\<lambda>t buf. Option.bind t (\<lambda>t. taru_append_to_header_buffer t buf)) (Some taru) bufs = Some taru' \<and>
     recorded taru' (bs @ concat bufs)"
    using assms
  proof (induction bufs arbitrary: taru bs)
    case Nil
    then show ?case by simp
  next
    case (Cons buf bufs)
    have "strob_room (headerM taru) (int (length bs + length buf) + 2)"
      using Cons.prems(2) by (simp add: strob_room_def)
    then obtain t where t: "taru_append_to_header_buffer taru buf = Some t" "recorded t (bs @ buf)"
      "sb_extra (headerM t) = sb_extra (headerM taru)"
      using append_recorded [OF Cons.prems(1)] by blast
    then show ?case using Cons.IH [OF t(2)] Cons.prems(2) by simp
  qed
  then show ?thesis using recorded_get by blast
qed


section \<open>Limits\<close>

lemma mask_if_zero: "flag \<noteq> 0 \<Longrightarrow> mask_if p flag need = 0 \<longleftrightarrow> \<not> p \<and> need = 0"
  by (simp add: mask_if_def or_eq_0_iff)

lemma max7_nat: "(x > TAR_MAX_7OCTAL) = (8 ^ 7 \<le> unat x)" "(x > TAR_MAX_SIZE) = (8 ^ 11 \<le> unat x)"
  by (auto simp: TAR_MAX_7OCTAL_def TAR_MAX_SIZE_def word_less_nat_alt)

text \<open>outside the mandatory mode a header needs no extended records exactly when its name, link, size,
  ids, owner names and device numbers all fit the fields of a ustar header.\<close>

theorem needs_mask_zero:
  assumes "\<not> flag_set fl TARU_TAR_PAXEXTHDR_MD"
  shows "taru_fill_exthdr_needs_mask h fl = 0 \<longleftrightarrow>
     fst (taru_is_tar_filename_too_long (ahsStaticGetTarFilename h) 0 False) = 0 \<and>
     length (ahsStaticGetTarLinkname h) \<le> 100 \<and> unat (c_filesize h) < 8 ^ 11 \<and>
     unat (c_uid h) < 8 ^ 7 \<and> unat (c_gid h) < 8 ^ 7 \<and>
     length (ahsStaticGetTarUsername h) < 32 \<and> length (ahsStaticGetTarGroupname h) < 32 \<and>
     unat (c_dev_maj h) < 8 ^ 7 \<and> unat (c_dev_min h) < 8 ^ 7"
proof -
  have l: "fst (taru_is_tar_linkname_too_long n 0) = 0 \<longleftrightarrow> length n \<le> 100" for n
    by (simp add: taru_is_tar_linkname_too_long_def TARLINKNAMESIZE_def flag_set_def)
  show ?thesis
    using assms unfolding taru_fill_exthdr_needs_mask_def Let_def max7_nat
    by (auto simp: mask_if_zero l not_le)
qed

text \<open>the device numbers that are written for a special file, \<open>c_rdev_maj\<close> and \<open>c_rdev_min\<close>, have no
  influence on the mask; it tests \<open>c_dev_maj\<close> and \<open>c_dev_min\<close>.\<close>

theorem needs_mask_ignores_rdev:
  "taru_fill_exthdr_needs_mask (h\<lparr>c_rdev_maj := x, c_rdev_min := y\<rparr>) fl = taru_fill_exthdr_needs_mask h fl"
  by (simp add: taru_fill_exthdr_needs_mask_def ahs_name_defs)

lemma bits_below:
  assumes "unat (w :: 64 word) < 2 ^ n" "n < 64"
  shows "bit w k \<Longrightarrow> k < n"
proof -
  have "take_bit n w = w"
    using assms(1) by (simp add: word_unat_eq_iff unsigned_take_bit_eq take_bit_nat_eq_self)
  then show "bit w k \<Longrightarrow> k < n" by (metis bit_take_bit_iff)
qed

text \<open>\<open>taru_check_devno_for_system\<close> compares the major number with the minor number of the device it
  composes, so an ordinary device is refused unless its two numbers are equal.\<close>

theorem check_devno_for_system_minor:
  assumes "unat (c_rdev_maj h) < 2 ^ 12" "unat (c_rdev_min h) < 2 ^ 8"
  shows "taru_check_devno_for_system h = (if c_rdev_maj h = c_rdev_min h then 0 else 1)"
proof -
  define M where "M = c_rdev_maj h"
  define m where "m = c_rdev_min h"
  have bM: "bit M k \<Longrightarrow> k < 12" and bm: "bit m k \<Longrightarrow> k < 8" for k
    using bits_below [OF assms(1), of k] bits_below [OF assms(2), of k] by (simp_all add: M_def m_def)
  have u: "ucast (ucast M :: 32 word) = M" "ucast (ucast m :: 32 word) = m"
    by (rule bit_word_eqI, use bM bm in \<open>force simp: bit_simps\<close>)+
  have mi: "c_minor (scast (ucast (c_makedev (ucast M) (ucast m)) :: 32 word)) = ucast m"
  proof -
    let ?D = "or (push_bit 8 M) m"
    have i: "bit (0xFF :: 64 word) j \<longleftrightarrow> j < 8" "bit (0xFFF :: 64 word) j \<longleftrightarrow> j < 12" if "j < 64" for j
      using that bit_mask_iff [where 'a = "64 word", of 8 j] bit_mask_iff [where 'a = "64 word", of 12 j]
      by (auto simp: mask_numeral)
    have a: "and M 0xFFF = M" "and M (not 0xFFF) = 0" "and m 0xFF = m" "and m (not 0xFF) = 0"
      by (rule bit_word_eqI, use i in \<open>auto simp: bit_simps dest: bM bm\<close>)+
    have D: "c_makedev (ucast M) (ucast m) = ?D" unfolding c_makedev_def Let_def u a by simp
    have bD: "bit ?D k \<longleftrightarrow> 8 \<le> k \<and> k < 20 \<and> bit M (k - 8) \<or> k < 8 \<and> bit m k" for k
      by (auto simp: bit_simps dest: bM bm)
    have e: "(scast (ucast ?D :: 32 word) :: 64 word) = ?D"
    proof (rule bit_word_eqI)
      fix k assume "k < LENGTH(64)"
      then show "bit (scast (ucast ?D :: 32 word) :: 64 word) k \<longleftrightarrow> bit ?D k"
        using bD [of k] bD [of 31] by (auto simp: bit_signed_iff bit_unsigned_iff min_def)
    qed
    have "and ?D 0xFF = m" by (rule bit_word_eqI) (use bD i in \<open>auto simp: bit_and_iff dest: bm\<close>)
    moreover have "and (drop_bit 12 ?D) (not 0xFF) = 0"
    proof (rule bit_word_eqI)
      fix k assume k: "k < LENGTH(64)"
      have "\<not> (bit (drop_bit 12 ?D) k \<and> \<not> bit (0xFF :: 64 word) k)"
        unfolding bit_drop_bit_eq comp_def bD using i(1) [of k] k by auto
      then show "bit (and (drop_bit 12 ?D) (not 0xFF)) k \<longleftrightarrow> bit (0 :: 64 word) k"
        by (simp only: bit_and_iff bit_not_iff bit_0_eq bot_apply bot_bool_def) blast
    qed
    ultimately show ?thesis by (simp add: D e c_minor_def)
  qed
  have "M = m" if "ucast M = (ucast m :: 32 word)" using u that by metis
  then have "ucast M = (ucast m :: 32 word) \<longleftrightarrow> M = m" by blast
  then show ?thesis using mi by (auto simp: taru_check_devno_for_system_def M_def m_def)
qed

section \<open>The properties at concrete inputs\<close>

lemma taru_create_ok: "\<exists>taru. taru_create now = Some taru \<and> recorded taru [] \<and> sb_extra (headerM taru) = 156 \<and>
    \<not> do_record_headerM taru \<and> taru_tarheaderflagsM taru = 0 \<and> length (u_ent_bufferM taru) = 65"
proof -
  have "strob_bytes (empty_strob 1025) []"
    using empty_strob_holds [of 1025] by (intro strob_bytes_Nil) (simp add: strob_holds_def)
  then show ?thesis
    by (simp add: taru_create_def strob_open_eq SNAME_LEN_def recorded_def)
      (simp add: empty_strob_def STROB_LENGTHINCR_def)
qed

theorem header_buffer_appends_witness:
  "\<exists>taru taru' b. taru_create 0 = Some taru \<and>
     foldl (\<lambda>t buf. Option.bind t (\<lambda>t. taru_append_to_header_buffer t buf)) (Some taru) [''abc'', ''de''] = Some taru' \<and>
     recorded taru' ''abcde'' \<and> taru_get_recorded_header taru' = Some (b, 5)"
proof -
  obtain taru where t: "taru_create 0 = Some taru" "recorded taru []" "sb_extra (headerM taru) = 156"
    using taru_create_ok by blast
  have room: "length ([] :: string) + length (concat [''abc'', ''de'']) + 2 + nat (sb_extra (headerM taru)) < 2 ^ 31"
    using t(3) by simp
  have bytes: "[] @ concat [''abc'', ''de''] = ''abcde''" "int (length ''abcde'') = 5" by simp_all
  show ?thesis using t(1) header_buffer_appends [OF t(2) room, unfolded bytes] by blast
qed

theorem needs_mask_zero_witness:
  "taru_fill_exthdr_needs_mask (fresh_header\<lparr>c_uid := 3000000\<rparr>) 0 \<noteq> 0"
  using needs_mask_zero [of 0 "fresh_header\<lparr>c_uid := 3000000\<rparr>"] by (simp add: flag_set_def)

theorem check_devno_for_system_minor_witness:
  "taru_check_devno_for_system (fresh_header\<lparr>c_rdev_maj := 8, c_rdev_min := 1\<rparr>) = 1"
  using check_devno_for_system_minor [of "fresh_header\<lparr>c_rdev_maj := 8, c_rdev_min := 1\<rparr>"] by simp

end
