(* ===== verification/TarWrite.thy ===== *)
theory TarWrite
  imports Taru
begin

text \<open>
  Writing a header: \<open>taru_write_out_tar_header2\<close> of \<open>swsupplib/taru/otar.c\<close> and \<open>taru_safewrite\<close> of
  \<open>copyout.c\<close>. The function is cut at its switch and at its two lookups of the owner, which are
  definitions of their own; an early return is \<open>Inl\<close> of the returned number.
\<close>

text \<open>The two sources of names and the results the substitutes of \<open>to_oct.c\<close> would give.\<close>

record owners =
  userdb :: sysdb
  groupdb :: sysdb
  usercache :: dbcache
  groupcache :: dbcache
  uid_sub :: "64 word \<times> bool"
  gid_sub :: "64 word \<times> bool"

abbreviation TARU_C_BY_UNONE :: "8 word" where "TARU_C_BY_UNONE \<equiv> 0"
abbreviation TARU_C_BY_USYS :: "8 word" where "TARU_C_BY_USYS \<equiv> 1"
abbreviation TARU_C_BY_UID :: "8 word" where "TARU_C_BY_UID \<equiv> 2"
abbreviation TARU_C_BY_UNAME :: "8 word" where "TARU_C_BY_UNAME \<equiv> 3"

abbreviation NOBODY_ID :: "32 word" where "NOBODY_ID \<equiv> 2097151"

text \<open>\<open>taru_safewrite\<close>: \<open>results\<close> are the values the successive calls of \<open>uxfio_write\<close> return.\<close>

fun taru_safewrite :: "int \<Rightarrow> int \<Rightarrow> int list \<Rightarrow> int option" where
  "taru_safewrite amount rc [] = (if amount = 0 then Some (if rc < 0 then - amount else amount) else None)"
| "taru_safewrite amount rc (r # results) =
     (if amount = 0 then Some (if rc < 0 then - amount else amount)
      else if r < amount \<and> r > 0 then taru_safewrite (amount - r) r results
      else Some (if r < 0 then - amount else amount))"

section \<open>The parts of the header\<close>

definition header_member_name :: "new_cpio_header \<Rightarrow> tarflags \<Rightarrow> string" where
  "header_member_name h tar_iflags =
     (let name = ahsStaticGetTarFilename h
      in if and (c_mode h) CP_IFMT = CP_IFDIR \<and> last name \<noteq> CHR ''/'' then
           (if length name \<ge> TARNAMESIZE - 1 \<and>
               (flag_set tar_iflags TARU_TAR_GNU_OLDGNUTAR \<or> flag_set tar_iflags TARU_TAR_GNU_OLDGNUPOSIX)
            then name else name @ ''/'')
         else name)"

definition write_typeflag ::
  "new_cpio_header \<Rightarrow> block \<Rightarrow> char \<Rightarrow> (int + block) option" where
  "write_typeflag h hdr termch =
     (let fmt = and (c_mode h) CP_IFMT;
          tmpp = ahsStaticGetTarLinkname h;
          is_long_link = (ahsStaticGetTarFilename h = GNU_LONG_LINK)
      in if fmt = CP_IFREG then
           (if tmpp \<noteq> [] then
              (if length tmpp > TARLINKNAMESIZE then Some (Inl (- 4))
               else do {
                 hdr \<leftarrow> strncpy_field hdr THB_BO_linkname tmpp TARLINKNAMESIZE;
                 hdr \<leftarrow> size_to_chars 0 hdr THB_BO_size 12 POSIX_FORMAT termch;
                 hdr \<leftarrow> mem_write hdr THB_BO_typeflag [LNKTYPE];
                 Some (Inr hdr) })
            else map_option Inr (mem_write hdr THB_BO_typeflag [REGTYPE]))
         else if fmt = CP_IFDIR then map_option Inr (mem_write hdr THB_BO_typeflag [DIRTYPE])
         else if fmt = CP_IFCHR then map_option Inr (mem_write hdr THB_BO_typeflag [CHRTYPE])
         else if fmt = CP_IFBLK then map_option Inr (mem_write hdr THB_BO_typeflag [BLKTYPE])
         else if fmt = CP_IFSOCK \<or> fmt = CP_IFIFO then map_option Inr (mem_write hdr THB_BO_typeflag [FIFOTYPE])
         else if fmt = CP_IFLNK then
           (if is_long_link \<and> length tmpp > 510 \<or> \<not> is_long_link \<and> length tmpp > TARLINKNAMESIZE
            then Some (Inl (- 5))
            else do {
              hdr \<leftarrow> mem_write hdr THB_BO_typeflag [if is_long_link then GNUTYPE_LONGLINK else SYMTYPE];
              hdr \<leftarrow> size_to_chars (if is_long_link then of_nat (length tmpp) else 0) hdr THB_BO_size 12
                POSIX_FORMAT termch;
              hdr \<leftarrow> strncpy_field hdr THB_BO_linkname tmpp TARLINKNAMESIZE;
              Some (Inr hdr) })
         else if c_mode h = 0 \<and> is_long_link then
           map_option Inr (mem_write hdr THB_BO_typeflag
             [if tmpp = [] then GNUTYPE_LONGNAME else GNUTYPE_LONGLINK])
         else Some (Inr hdr))"

text \<open>The owner fields: the name at \<open>name_off\<close> and the id, written with \<open>id_to_chars\<close>. \<open>getsys\<close> is
  the direct lookup of an id, \<open>byname\<close> and \<open>byid\<close> are the cached ones. A lookup of an id through the
  cache stores \<open>TARU_SYSDBNAME_LEN\<close> bytes in the entry buffer.\<close>

definition write_owner ::
  "string option \<Rightarrow> 8 word \<Rightarrow> 64 word \<Rightarrow> bool \<Rightarrow>
   (int \<Rightarrow> string option \<times> block \<times> string) \<Rightarrow>
   (dbcache \<Rightarrow> string \<Rightarrow> (int \<times> 32 word option \<times> dbcache) option) \<Rightarrow>
   (dbcache \<Rightarrow> 32 word \<Rightarrow> (int \<times> block option \<times> dbcache) option) \<Rightarrow>
   (32 word \<Rightarrow> block \<Rightarrow> block option) \<Rightarrow> int \<Rightarrow> block \<Rightarrow> block \<Rightarrow> dbcache \<Rightarrow>
   (block \<times> block \<times> dbcache) option" where
  "write_owner name policy xid numeric_uids getsys byname byid id_to_chars name_off hdr ent c =
     (if (case name of None \<Rightarrow> True | Some n \<Rightarrow> n = []) \<and> policy \<noteq> TARU_C_BY_UNONE then do {
        ent \<leftarrow> mem_write ent 0 (fst (snd (getsys (uint (ucast xid :: 32 word)))));
        hdr \<leftarrow> mem_write hdr name_off (swlib_strncpy (cstr ent) SNAME_LEN);
        Some (hdr, ent, c) }
      else if policy = TARU_C_BY_USYS \<or> policy = TARU_C_BY_UNAME then do {
        n \<leftarrow> name;
        (ret, pid, c) \<leftarrow> byname c n;
        pid \<leftarrow> (if ret \<noteq> 0 then Some NOBODY_ID else pid);
        hdr \<leftarrow> mem_write hdr name_off (swlib_strncpy n SNAME_LEN);
        hdr \<leftarrow> id_to_chars pid hdr;
        Some (hdr, ent, c) }
      else if policy = TARU_C_BY_UID then
        (if \<not> numeric_uids then do {
           (_, buf, c) \<leftarrow> byid c (ucast xid);
           buf \<leftarrow> buf;
           ent \<leftarrow> mem_write ent 0 buf;
           hdr \<leftarrow> mem_write hdr name_off (swlib_strncpy (cstr ent) SNAME_LEN);
           hdr \<leftarrow> id_to_chars (ucast xid) hdr;
           Some (hdr, ent, c) }
         else do {
           hdr \<leftarrow> mem_write hdr name_off (swlib_strncpy [] SNAME_LEN);
           hdr \<leftarrow> id_to_chars (ucast xid) hdr;
           Some (hdr, ent, c) })
      else do {
        n \<leftarrow> name;
        hdr \<leftarrow> mem_write hdr name_off (swlib_strncpy n SNAME_LEN);
        hdr \<leftarrow> id_to_chars (ucast xid) hdr;
        Some (hdr, ent, c) })"

text \<open>The device numbers of special files and the filling of these fields for the other types.\<close>

definition write_devices :: "new_cpio_header \<Rightarrow> tarflags \<Rightarrow> block \<Rightarrow> char \<Rightarrow> block option" where
  "write_devices h tar_iflags hdr termch =
     (if hdr ! 156 = CHRTYPE \<or> hdr ! 156 = BLKTYPE then do {
        hdr \<leftarrow> major_to_chars (ucast (c_rdev_maj h)) hdr THB_BO_devmajor 8 POSIX_FORMAT termch;
        minor_to_chars (ucast (c_rdev_min h)) hdr THB_BO_devminor 8 POSIX_FORMAT termch }
      else if flag_set tar_iflags TARU_TAR_BE_LIKE_PAX then do {
        hdr \<leftarrow> strncpy_field hdr THB_BO_devmajor ''0000000'' 8;
        strncpy_field hdr THB_BO_devminor ''0000000'' 8 }
      else if flag_set tar_iflags TARU_TAR_BE_LIKE_STAR then do {
        hdr \<leftarrow> strncpy_field hdr THB_BO_devmajor ''0000000 '' 8;
        strncpy_field hdr THB_BO_devminor ''0000000 '' 8 }
      else if flag_set tar_iflags TARU_TAR_GNU_GNUTAR \<or> flag_set tar_iflags TARU_TAR_GNU_OLDGNUTAR \<or>
              flag_set tar_iflags TARU_TAR_GNU_OLDGNUPOSIX then Some hdr
      else do {
        hdr \<leftarrow> strncpy_field hdr THB_BO_devmajor ''0000000'' 8;
        strncpy_field hdr THB_BO_devminor ''0000000'' 8 })"

definition write_magic :: "tarflags \<Rightarrow> block \<Rightarrow> block option" where
  "write_magic tar_iflags hdr =
     (if \<not> flag_set tar_iflags TARU_TAR_GNU_GNUTAR \<and> \<not> flag_set tar_iflags TARU_TAR_GNU_OLDGNUTAR then do {
        hdr \<leftarrow> strncpy_field hdr THB_BO_magic TMAGIC 6;
        strncpy_field hdr (THB_BO_magic + 6) ''00'' 2 }
      else do {
        hdr \<leftarrow> strncpy_field hdr THB_BO_magic ''ustar '' 6;
        strncpy_field hdr (THB_BO_magic + 6) '' '' 2 })"

text \<open>The numeric fields up to the version.\<close>

definition write_numbers :: "owners \<Rightarrow> new_cpio_header \<Rightarrow> tarflags \<Rightarrow> block \<Rightarrow> char \<Rightarrow> block option" where
  "write_numbers w h tar_iflags hdr termch = do {
     hdr \<leftarrow> mode_to_chars (ucast (c_mode h)) hdr THB_BO_mode 8
       (if flag_set tar_iflags TARU_TAR_GNU_OLDGNUTAR then OLDGNU_FORMAT else POSIX_FORMAT) termch;
     hdr \<leftarrow> uid_to_chars (uid_sub w) (ucast (c_uid h)) hdr THB_BO_uid 8 POSIX_FORMAT termch;
     hdr \<leftarrow> gid_to_chars (gid_sub w) (ucast (c_gid h)) hdr THB_BO_gid 8 POSIX_FORMAT termch;
     hdr \<leftarrow> off_to_chars (c_filesize h) hdr THB_BO_size 12 POSIX_FORMAT termch;
     hdr \<leftarrow> time_to_chars (c_mtime h) hdr THB_BO_mtime 12 POSIX_FORMAT termch;
     mem_write hdr THB_BO_version ''00'' }"

text \<open>\<open>taru_write_out_tar_header2\<close>. \<open>out\<close> is \<^term>\<open>None\<close> when the header goes to the caller's buffer,
  else the results of the writes to the descriptor. The result is the returned number, the record
  as written, and the changed state.\<close>

definition taru_write_out_tar_header2 ::
  "owners \<Rightarrow> taru \<Rightarrow> new_cpio_header \<Rightarrow> int list option \<Rightarrow> string option \<Rightarrow> string option \<Rightarrow> tarflags \<Rightarrow>
   (int \<times> block \<times> owners \<times> taru) option" where
  "taru_write_out_tar_header2 w taru h out username groupname tar_iflags =
     (let termch = (if flag_set tar_iflags TARU_TAR_BE_LIKE_STAR then CHR '' '' else NUL);
          numeric = flag_set tar_iflags TARU_TAR_NUMERIC_UIDS;
          tar_rec = replicate TARRECORDSIZE NUL
      in if ahsStaticGetTarFilename h = [] then Some (- 1, tar_rec, w, taru)
         else do {
           (hdr, ret) \<leftarrow> taru_set_new_name tar_rec (header_member_name h tar_iflags) (taru_tarheaderflagsM taru);
           if ret \<noteq> 0 then Some (- 13, hdr, w, taru)
           else do {
             hdr \<leftarrow> write_numbers w h tar_iflags hdr termch;
             r \<leftarrow> write_typeflag h hdr termch;
             case r of
               Inl e \<Rightarrow> Some (e, hdr, w, taru)
             | Inr hdr \<Rightarrow> do {
                 hdr \<leftarrow> write_magic tar_iflags hdr;
                 (hdr, ent, uc) \<leftarrow> write_owner username (c_cu h) (c_uid h) numeric
                   (l_tar_sysdata_getuser (userdb w)) (taru_get_uid_by_name (userdb w))
                   (taru_get_tar_user_by_uid (userdb w))
                   (\<lambda>i hdr. uid_to_chars (uid_sub w) i hdr THB_BO_uid 8 POSIX_FORMAT termch)
                   THB_BO_uname hdr (u_ent_bufferM taru) (usercache w);
                 (hdr, ent, gc) \<leftarrow> write_owner groupname (c_cg h) (c_gid h) numeric
                   (l_tar_sysdata_getgroup (groupdb w)) (taru_get_gid_by_name (groupdb w))
                   (taru_get_tar_group_by_gid (groupdb w))
                   (\<lambda>i hdr. gid_to_chars (gid_sub w) i hdr THB_BO_gid 8 POSIX_FORMAT termch)
                   THB_BO_gname hdr ent (groupcache w);
                 hdr \<leftarrow> (if numeric then do {
                     hdr \<leftarrow> mem_set hdr THB_BO_uname NUL (int SNAME_LEN);
                     mem_set hdr THB_BO_gname NUL (int SNAME_LEN) }
                   else Some hdr);
                 hdr \<leftarrow> write_devices h tar_iflags hdr termch;
                 hdr \<leftarrow> mem_set hdr THB_BO_chksum CHR '' '' 8;
                 hdr \<leftarrow> taru_set_tar_header_sum hdr tar_iflags;
                 let taru = taru\<lparr>u_ent_bufferM := ent\<rparr>;
                 taru \<leftarrow> (if do_record_headerM taru then record_header_at taru 0 hdr else Some taru);
                 let w = w\<lparr>usercache := uc, groupcache := gc\<rparr>;
                 ret \<leftarrow> (case out of None \<Rightarrow> Some (int TARRECORDSIZE)
                         | Some results \<Rightarrow> taru_safewrite (int TARRECORDSIZE) 0 results);
                 Some (ret, hdr, w, taru) } } })"

section \<open>The numbers in closed form\<close>

lemma sint_nonneg: "unat (v :: 64 word) < 2 ^ 63 \<Longrightarrow> \<not> sint v < 0"
proof -
  assume "unat v < 2 ^ 63"
  then have "int (unat v) < int (2 ^ 63)" by (simp only: of_nat_less_iff)
  then have "uint v < 2 ^ 63" by simp
  moreover have "- (2 ^ 63) \<le> uint v" by (rule order_trans [of _ 0]) simp_all
  ultimately have "sint v = uint v"
    using signed_take_bit_int_eq_self [of 63 "uint v"] by (simp add: sint_uint)
  then show ?thesis by simp
qed

lemma sint_uint32: "unat (v :: 32 word) < 2 ^ 31 \<Longrightarrow> sint v = uint v"
proof -
  assume "unat v < 2 ^ 31"
  then have "int (unat v) < int (2 ^ 31)" by (simp only: of_nat_less_iff)
  then have "uint v < 2 ^ 31" by simp
  moreover have "- (2 ^ 31) \<le> uint v" by (rule order_trans [of _ 0]) simp_all
  ultimately show "sint v = uint v"
    using signed_take_bit_int_eq_self [of 31 "uint v"] by (simp add: sint_uint)
qed

lemma scast_ucast32: "unat (v :: 32 word) < 2 ^ 31 \<Longrightarrow> (scast v :: 64 word) = ucast v"
  using sint_uint32 [of v] by (metis of_int_sint of_int_uint)

lemma unat_down: "unat (v :: 64 word) < 2 ^ 32 \<Longrightarrow> unat (ucast v :: 32 word) = unat v"
  by (simp add: unsigned_ucast_eq take_bit_nat_eq_self)

lemma unat_up: "unat (ucast (v :: 32 word) :: 64 word) = unat v"
proof -
  have "unat v < 2 ^ 32" using unsigned_less [of v, where ?'a = nat] by simp
  then have "unat v < 2 ^ 64" by simp
  then show ?thesis by (simp add: unsigned_ucast_eq take_bit_nat_eq_self)
qed

lemma num_put [mem_simps]:
  assumes "unat v < 8 ^ (n - 1)" "2 \<le> n" "n \<le> 22" "0 \<le> off" "off + int n \<le> int (length b)"
  shows "to_chars False v k sub b off n ty fmt c = Some (put b (nat off) (octal_digits (unat v) (n - 1) @ [c]))"
proof -
  have "int (length (octal_digits (unat v) (n - 1) @ [c])) = int n" using assms(2) by simp
  then show ?thesis using to_chars_fits [OF assms(2,3,1,4,5)] mem_write_put assms(4,5) by metis
qed

lemma mode_bit: "(if and w (2 ^ k) \<noteq> 0 then 2 ^ k else 0) = and w (2 ^ k :: 64 word)"
proof -
  have "and w (2 ^ k) = (if bit w k then 2 ^ k else 0)"
    by (rule bit_word_eqI) (auto simp: bit_and_iff bit_exp_iff)
  then show ?thesis by simp
qed

lemma mode_bits_mask: "foldr (\<lambda>(S, T) u. or (if and w S \<noteq> 0 then T else 0) u) mode_bits 0 = and w 0xFFF"
proof -
  have m: "(if and w S \<noteq> 0 then S else 0) = and w S"
    if "S \<in> {0x800, 0x400, 0x200, 0x100, 0x80, 0x40, 0x20, 0x10, 8, 4, 2, 1}" for S
  proof -
    have "{0x800, 0x400, 0x200, 0x100, 0x80, 0x40, 0x20, 0x10, 8, 4, 2, 1}
        = (\<lambda>k. 2 ^ k :: 64 word) ` set [11, 10, 9, 8, 7, 6, 5, 4, 3, 2, 1, 0]" by simp
    with that obtain k where "S = 2 ^ k" by blast
    then show ?thesis by (simp only: mode_bit)
  qed
  have "foldr (\<lambda>(S, T) u. or (if and w S \<noteq> 0 then T else 0) u) mode_bits 0
      = foldr (\<lambda>S u. or (and w S) u) [0x800, 0x400, 0x200, 0x100, 0x80, 0x40, 0x20, 0x10, 8, 4, 2, 1] 0"
    unfolding mode_bits_def by (simp only: foldr.simps o_apply id_apply prod.case m insert_iff simp_thms)
  also have "\<dots> = and w (foldr or [0x800, 0x400, 0x200, 0x100, 0x80, 0x40, 0x20, 0x10, 8, 4, 2, 1] 0)"
    by (simp only: foldr.simps o_apply id_apply bit.conj_disj_distrib bit.conj_zero_right)
  also have "foldr or [0x800, 0x400, 0x200, 0x100, 0x80, 0x40, 0x20, 0x10, 8, 4, 2, 1] 0 = (0xFFF :: 64 word)"
    by simp
  finally show ?thesis .
qed

section \<open>Headers that the ustar format can hold\<close>

abbreviation file_type :: "new_cpio_header \<Rightarrow> 64 word" where "file_type h \<equiv> and (c_mode h) CP_IFMT"

text \<open>The limits of the ustar fields, no database policy, and one of the portable file types.\<close>

definition ustar_ok :: "new_cpio_header \<Rightarrow> tarflags \<Rightarrow> string \<Rightarrow> string \<Rightarrow> bool" where
  "ustar_ok h fl user grp \<longleftrightarrow>
     (let name = header_member_name h fl in
      ahsStaticGetTarFilename h \<noteq> [] \<and> c_string name \<and> substr_index (CHR 0x5C # ''x'') name = None \<and>
      (length name \<le> 100 \<or> fst (taru_is_tar_filename_too_long name 0 (file_type h = CP_IFDIR)) = 0) \<and>
      (last name \<noteq> CHR ''/'' \<or> file_type h = CP_IFDIR)) \<and>
     unat (c_mode h) < 8 ^ 7 \<and> unat (c_uid h) < 8 ^ 7 \<and> unat (c_gid h) < 8 ^ 7 \<and>
     unat (c_filesize h) < 8 ^ 11 \<and> unat (c_mtime h) < 8 ^ 11 \<and>
     file_type h \<in> {CP_IFREG, CP_IFDIR, CP_IFCHR, CP_IFBLK, CP_IFIFO, CP_IFLNK} \<and>
     c_string (ahsStaticGetTarLinkname h) \<and> length (ahsStaticGetTarLinkname h) \<le> 100 \<and>
     ahsStaticGetTarFilename h \<noteq> GNU_LONG_LINK \<and>
     unat (c_rdev_maj h) < 8 ^ 7 \<and> unat (c_rdev_min h) < 8 ^ 7 \<and>
     c_string user \<and> length user \<le> 31 \<and> c_string grp \<and> length grp \<le> 31 \<and>
     c_cu h = TARU_C_BY_UNONE \<and> c_cg h = TARU_C_BY_UNONE"

abbreviation oct8 :: "nat \<Rightarrow> char \<Rightarrow> block" where "oct8 x c \<equiv> octal_digits x 7 @ [c]"
abbreviation oct12 :: "nat \<Rightarrow> char \<Rightarrow> block" where "oct12 x c \<equiv> octal_digits x 11 @ [c]"

text \<open>The mode as written: the old GNU format keeps the file type bits.\<close>

definition mode_written :: "new_cpio_header \<Rightarrow> tarflags \<Rightarrow> nat" where
  "mode_written h fl = (if flag_set fl TARU_TAR_GNU_OLDGNUTAR then unat (c_mode h)
     else unat (and (c_mode h) 0xFFF))"

lemma mode_put:
  assumes "unat (c_mode h) < 8 ^ 7" "108 \<le> length hdr"
  shows "mode_to_chars (ucast (c_mode h)) hdr THB_BO_mode 8
     (if flag_set fl TARU_TAR_GNU_OLDGNUTAR then OLDGNU_FORMAT else POSIX_FORMAT) c
   = Some (put hdr 100 (oct8 (mode_written h fl) c))"
proof -
  let ?w = "ucast (ucast (c_mode h) :: 32 word) :: 64 word"
  have "unat ?w = unat (c_mode h)" using assms(1) by (simp add: unat_up unat_down)
  then have w: "?w = c_mode h" by (simp add: word_unat_eq_iff)
  have "and (c_mode h) 0xFFF \<le> c_mode h" by (rule word_and_le2)
  then have le: "unat (and (c_mode h) 0xFFF) < 8 ^ 7" using assms(1) by (simp add: word_le_nat_alt)
  have st: "\<forall>(S, T) \<in> set mode_bits. S = T" by (simp add: mode_bits_def)
  show ?thesis
    unfolding mode_to_chars_def w Let_def mode_bits_mask
    using st le assms by (simp add: mode_written_def num_put)
qed

definition numbers_put :: "new_cpio_header \<Rightarrow> tarflags \<Rightarrow> char \<Rightarrow> block \<Rightarrow> block" where
  "numbers_put h fl c hdr =
     put (put (put (put (put (put hdr 100 (oct8 (mode_written h fl) c))
       108 (oct8 (unat (c_uid h)) c)) 116 (oct8 (unat (c_gid h)) c))
       124 (oct12 (unat (c_filesize h)) c)) 136 (oct12 (unat (c_mtime h)) c)) 263 ''00''"

lemma write_numbers_put:
  assumes "ustar_ok h fl user grp" "length hdr = 512"
  shows "write_numbers w h fl hdr c = Some (numbers_put h fl c hdr)"
proof -
  have b: "unat (c_mode h) < 8 ^ 7" "unat (c_uid h) < 8 ^ 7" "unat (c_gid h) < 8 ^ 7"
    "unat (c_filesize h) < 8 ^ 11" "unat (c_mtime h) < 8 ^ 11"
    using assms(1) by (auto simp: ustar_ok_def Let_def)
  have i: "unat (ucast (ucast (c_uid h) :: 32 word) :: 64 word) = unat (c_uid h)"
    "unat (ucast (ucast (c_gid h) :: 32 word) :: 64 word) = unat (c_gid h)"
    using b by (simp_all add: unat_up unat_down)
  have s: "\<not> sint (c_filesize h) < 0" "\<not> sint (c_mtime h) < 0" using b by (auto intro!: sint_nonneg)
  show ?thesis
    unfolding write_numbers_def numbers_put_def
    using assms(2) b i s mode_put [OF b(1), of hdr fl c]
    by (simp add: uid_to_chars_def gid_to_chars_def off_to_chars_def time_to_chars_def mem_simps)
qed

definition tarflag :: "new_cpio_header \<Rightarrow> char" where
  "tarflag h = (if file_type h = CP_IFREG then (if ahsStaticGetTarLinkname h = [] then REGTYPE else LNKTYPE)
     else if file_type h = CP_IFDIR then DIRTYPE else if file_type h = CP_IFCHR then CHRTYPE
     else if file_type h = CP_IFBLK then BLKTYPE else if file_type h = CP_IFLNK then SYMTYPE else FIFOTYPE)"

definition link_written :: "new_cpio_header \<Rightarrow> string" where
  "link_written h = (if file_type h \<in> {CP_IFREG, CP_IFLNK} then ahsStaticGetTarLinkname h else [])"

definition size_written :: "new_cpio_header \<Rightarrow> nat" where
  "size_written h = (if tarflag h \<in> {LNKTYPE, SYMTYPE} then 0 else unat (c_filesize h))"

lemma write_typeflag_put:
  assumes ok: "ustar_ok h fl user grp" and len: "length hdr = 512"
    and z: "fld hdr 157 100 = replicate 100 NUL" "fld hdr 124 12 = oct12 (unat (c_filesize h)) c"
  obtains hdr' where "write_typeflag h hdr c = Some (Inr hdr')" "length hdr' = 512"
    "fld hdr' 156 1 = [tarflag h]" "fld hdr' 157 100 = strncpy_bytes (link_written h) 100"
    "fld hdr' 124 12 = oct12 (size_written h) c"
    "\<And>p n. p + n \<le> 124 \<or> 136 \<le> p \<and> p + n \<le> 156 \<or> 257 \<le> p \<Longrightarrow> fld hdr' p n = fld hdr p n"
proof -
  have s0: "size_to_chars 0 b 124 12 POSIX_FORMAT c = Some (put b 124 (oct12 0 c))" if "length b = 512" for b
    using that by (simp add: size_to_chars_def num_put)
  have lk: "strncpy_field b 157 (ahsStaticGetTarLinkname h) TARLINKNAMESIZE
      = Some (put b 157 (strncpy_bytes (ahsStaticGetTarLinkname h) 100))" if "length b = 512" for b
    using that by (simp add: strncpy_field_def mem_simps TARLINKNAMESIZE_def)
  have l100: "\<not> length (ahsStaticGetTarLinkname h) > TARLINKNAMESIZE" and nl: "ahsStaticGetTarFilename h \<noteq> GNU_LONG_LINK"
    using ok by (auto simp: ustar_ok_def TARLINKNAMESIZE_def)
  have e: "strncpy_bytes [] 100 = replicate 100 NUL" by (simp add: strncpy_bytes_def)
  consider (plain) "tarflag h \<notin> {LNKTYPE, SYMTYPE}" | (hard) "tarflag h = LNKTYPE" | (sym) "tarflag h = SYMTYPE"
    by blast
  then show thesis
  proof cases
    case plain
    have "link_written h = []" "size_written h = unat (c_filesize h)"
      using plain by (auto simp: tarflag_def link_written_def size_written_def split: if_splits)
    moreover have "write_typeflag h hdr c = Some (Inr (put hdr 156 [tarflag h]))"
      using plain ok len nl
      by (auto simp: write_typeflag_def tarflag_def ustar_ok_def Let_def mem_simps split: if_splits)
    ultimately show thesis
      using len z e by (intro that [of "put hdr 156 [tarflag h]"]) (auto simp: mem_simps)
  next
    case hard
    then have h: "file_type h = CP_IFREG" "ahsStaticGetTarLinkname h \<noteq> []"
      by (auto simp: tarflag_def split: if_splits)
    let ?h = "put (put (put hdr 157 (strncpy_bytes (ahsStaticGetTarLinkname h) 100)) 124 (oct12 0 c)) 156 [LNKTYPE]"
    have "write_typeflag h hdr c = Some (Inr ?h)"
      using h len l100 lk s0 by (simp add: write_typeflag_def Let_def mem_simps)
    then show thesis
      using h hard len by (intro that [of ?h]) (auto simp: mem_simps link_written_def size_written_def)
  next
    case sym
    then have h: "file_type h = CP_IFLNK" by (auto simp: tarflag_def split: if_splits)
    let ?h = "put (put (put hdr 156 [SYMTYPE]) 124 (oct12 0 c)) 157 (strncpy_bytes (ahsStaticGetTarLinkname h) 100)"
    have "write_typeflag h hdr c = Some (Inr ?h)"
      using h len l100 nl lk s0 by (simp add: write_typeflag_def Let_def mem_simps)
    then show thesis
      using h sym len by (intro that [of ?h]) (auto simp: mem_simps link_written_def size_written_def)
  qed
qed

lemma write_magic_put:
  assumes "length hdr = 512"
  obtains hdr' where "write_magic fl hdr = Some hdr'" "length hdr' = 512" "fld hdr' 257 5 = TMAGIC"
    "\<And>p n. p + n \<le> 257 \<or> 265 \<le> p \<Longrightarrow> fld hdr' p n = fld hdr p n"
proof -
  have f5: "fld b 257 5 = take 5 (fld b 257 6)" for b by (simp add: fld_def)
  have t: "take 5 (strncpy_bytes TMAGIC 6) = TMAGIC" "take 5 (strncpy_bytes ''ustar '' 6) = TMAGIC"
    by code_simp+
  let ?a = "put (put hdr 257 (strncpy_bytes TMAGIC 6)) 263 (strncpy_bytes ''00'' 2)"
  let ?b = "put (put hdr 257 (strncpy_bytes ''ustar '' 6)) 263 (strncpy_bytes '' '' 2)"
  have "write_magic fl hdr = Some (if \<not> flag_set fl TARU_TAR_GNU_GNUTAR \<and> \<not> flag_set fl TARU_TAR_GNU_OLDGNUTAR
      then ?a else ?b)"
    using assms by (simp add: write_magic_def strncpy_field_def mem_simps)
  moreover have "length ?a = 512" "length ?b = 512" "fld ?a 257 5 = TMAGIC" "fld ?b 257 5 = TMAGIC"
    using assms t by (simp_all add: mem_simps f5)
  moreover have "fld ?a p n = fld hdr p n" "fld ?b p n = fld hdr p n" if "p + n \<le> 257 \<or> 265 \<le> p" for p n
    using assms that by (auto simp: mem_simps)
  ultimately show thesis
    by (intro that [of "if \<not> flag_set fl TARU_TAR_GNU_GNUTAR \<and> \<not> flag_set fl TARU_TAR_GNU_OLDGNUTAR
        then ?a else ?b"]) auto
qed

lemma write_owner_put:
  assumes "length hdr = 512" "name_off = 265 \<or> name_off = 297" "c_string n" "length n \<le> 31"
    "id_to_chars (ucast xid) (put hdr name_off (strncpy_bytes n 32)) = Some hdr'"
  shows "write_owner (Some n) TARU_C_BY_UNONE xid numeric getsys byname byid id_to_chars (int name_off) hdr ent c
    = Some (hdr', ent, c)"
proof -
  have "swlib_strncpy n SNAME_LEN = strncpy_bytes n 32"
    using assms(4) by (simp add: swlib_strncpy_def SNAME_LEN_def strncpy_bytes_def
        replicate_append_same [symmetric] Suc_diff_le numeral_eq_Suc)
  then show ?thesis
    using assms by (auto simp: write_owner_def mem_simps)
qed

lemma id_put:
  assumes "unat xid < 8 ^ 7" "length b = 512" "p \<le> 504"
  shows "uid_to_chars sub (ucast xid) b (int p) 8 fmt c = Some (put b p (oct8 (unat (xid :: 64 word)) c))"
    "gid_to_chars sub (ucast xid) b (int p) 8 fmt c = Some (put b p (oct8 (unat xid) c))"
proof -
  have "unat (ucast (ucast xid :: 32 word) :: 64 word) = unat xid"
    using assms(1) by (simp add: unat_up unat_down)
  then show "uid_to_chars sub (ucast xid) b (int p) 8 fmt c = Some (put b p (oct8 (unat xid) c))"
    "gid_to_chars sub (ucast xid) b (int p) 8 fmt c = Some (put b p (oct8 (unat xid) c))"
    using assms by (simp_all add: uid_to_chars_def gid_to_chars_def num_put)
qed


lemma write_devices_put:
  assumes ok: "ustar_ok h fl user grp" and len: "length hdr = 512" and t: "fld hdr 156 1 = [tarflag h]"
  obtains hdr' where "write_devices h fl hdr c = Some hdr'" "length hdr' = 512"
    "\<And>p n. p + n \<le> 329 \<or> 345 \<le> p \<Longrightarrow> fld hdr' p n = fld hdr p n"
    "tarflag h \<in> {CHRTYPE, BLKTYPE} \<Longrightarrow> fld hdr' 329 8 = oct8 (unat (c_rdev_maj h)) c \<and>
       fld hdr' 337 8 = oct8 (unat (c_rdev_min h)) c"
proof -
  have "take 1 (drop 156 hdr) = [hdr ! 156]" using len by (simp add: take_Suc_conv_app_nth)
  then have h156: "hdr ! 156 = tarflag h" using t by (simp add: fld_def)
  have b: "unat (c_rdev_maj h) < 8 ^ 7" "unat (c_rdev_min h) < 8 ^ 7" using ok by (auto simp: ustar_ok_def)
  have dev: "major_to_chars (ucast v) b 329 8 POSIX_FORMAT c = Some (put b 329 (oct8 (unat v) c))"
    "minor_to_chars (ucast v) b 337 8 POSIX_FORMAT c = Some (put b 337 (oct8 (unat v) c))"
    if "unat v < 8 ^ 7" "length b = 512" for v :: "64 word" and b
  proof -
    have u: "unat (ucast v :: 32 word) = unat v" using that by (intro unat_down) simp
    then have u31: "unat (ucast v :: 32 word) < 2 ^ 31" using that by simp
    show "major_to_chars (ucast v) b 329 8 POSIX_FORMAT c = Some (put b 329 (oct8 (unat v) c))"
      "minor_to_chars (ucast v) b 337 8 POSIX_FORMAT c = Some (put b 337 (oct8 (unat v) c))"
      using that sint_uint32 [OF u31] scast_ucast32 [OF u31] u
      by (simp_all add: major_to_chars_def minor_to_chars_def num_put unat_up)
  qed
  define r where "r = (if tarflag h \<in> {CHRTYPE, BLKTYPE}
      then put (put hdr 329 (oct8 (unat (c_rdev_maj h)) c)) 337 (oct8 (unat (c_rdev_min h)) c)
      else if flag_set fl TARU_TAR_BE_LIKE_PAX then
        put (put hdr 329 (strncpy_bytes ''0000000'' 8)) 337 (strncpy_bytes ''0000000'' 8)
      else if flag_set fl TARU_TAR_BE_LIKE_STAR then
        put (put hdr 329 (strncpy_bytes ''0000000 '' 8)) 337 (strncpy_bytes ''0000000 '' 8)
      else if flag_set fl TARU_TAR_GNU_GNUTAR \<or> flag_set fl TARU_TAR_GNU_OLDGNUTAR \<or>
              flag_set fl TARU_TAR_GNU_OLDGNUPOSIX then hdr
      else put (put hdr 329 (strncpy_bytes ''0000000'' 8)) 337 (strncpy_bytes ''0000000'' 8))"
  have "write_devices h fl hdr c = Some r"
    using len b dev unfolding write_devices_def h156 r_def
    by (simp add: strncpy_field_def mem_simps)
  then show thesis
    by (rule that) (use len in \<open>auto simp: r_def mem_simps\<close>)
qed


section \<open>The header as a whole\<close>

text \<open>What the record holds after the write: the fields of a header, each with its terminator.\<close>

definition num_at :: "block \<Rightarrow> nat \<Rightarrow> nat \<Rightarrow> nat \<Rightarrow> bool" where
  "num_at b off n x \<longleftrightarrow> (\<exists>c. (c = NUL \<or> c = CHR '' '') \<and> fld b off n = octal_digits x (n - 1) @ [c])"

definition written :: "block \<Rightarrow> new_cpio_header \<Rightarrow> tarflags \<Rightarrow> string \<Rightarrow> string \<Rightarrow> bool" where
  "written b h fl user grp \<longleftrightarrow>
     length b = 512 \<and> fld b 257 5 = TMAGIC \<and> taru_dup_tar_name b = header_member_name h fl \<and>
     num_at b 100 8 (mode_written h fl) \<and> num_at b 108 8 (unat (c_uid h)) \<and> num_at b 116 8 (unat (c_gid h)) \<and>
     num_at b 124 12 (size_written h) \<and> num_at b 136 12 (unat (c_mtime h)) \<and> fld b 156 1 = [tarflag h] \<and>
     fld b 157 100 = strncpy_bytes (link_written h) 100 \<and>
     (\<not> flag_set fl TARU_TAR_NUMERIC_UIDS \<longrightarrow>
        fld b 265 32 = strncpy_bytes user 32 \<and> fld b 297 32 = strncpy_bytes grp 32) \<and>
     (tarflag h \<in> {CHRTYPE, BLKTYPE} \<longrightarrow>
        num_at b 329 8 (unat (c_rdev_maj h)) \<and> num_at b 337 8 (unat (c_rdev_min h))) \<and>
     fld b 500 12 = replicate 12 NUL"

lemma num_atI: "fld b off n = octal_digits x (n - 1) @ [c] \<Longrightarrow> c = NUL \<or> c = CHR '' '' \<Longrightarrow> num_at b off n x"
  by (auto simp: num_at_def)

lemma numbers_put_fld:
  assumes "length hdr = 512"
  shows "length (numbers_put h fl c hdr) = 512"
    "fld (numbers_put h fl c hdr) 100 8 = oct8 (mode_written h fl) c"
    "fld (numbers_put h fl c hdr) 108 8 = oct8 (unat (c_uid h)) c"
    "fld (numbers_put h fl c hdr) 116 8 = oct8 (unat (c_gid h)) c"
    "fld (numbers_put h fl c hdr) 124 12 = oct12 (unat (c_filesize h)) c"
    "fld (numbers_put h fl c hdr) 136 12 = oct12 (unat (c_mtime h)) c"
    "p + n \<le> 100 \<or> 156 \<le> p \<and> p + n \<le> 263 \<or> 265 \<le> p \<Longrightarrow> fld (numbers_put h fl c hdr) p n = fld hdr p n"
  using assms unfolding numbers_put_def by (auto simp: mem_simps)

text \<open>The owner part: both names and, again, both ids.\<close>

lemma write_owners_put:
  assumes ok: "ustar_ok h fl user grp" and len: "length hdr = 512"
  obtains x1 x2 hdr' where
    "write_owner (Some user) (c_cu h) (c_uid h) numeric gu bu iu
        (\<lambda>i hdr. uid_to_chars us i hdr 108 8 POSIX_FORMAT c) 265 hdr ent uc = Some (x1, ent, uc)"
    "write_owner (Some grp) (c_cg h) (c_gid h) numeric gg bg ig
        (\<lambda>i hdr. gid_to_chars gs i hdr 116 8 POSIX_FORMAT c) 297 x1 ent gc = Some (x2, ent, gc)"
    "(if numeric then do { hdr \<leftarrow> mem_set x2 265 NUL (int SNAME_LEN); mem_set hdr 297 NUL (int SNAME_LEN) }
      else Some x2) = Some hdr'"
    "length hdr' = 512" "fld hdr' 108 8 = oct8 (unat (c_uid h)) c" "fld hdr' 116 8 = oct8 (unat (c_gid h)) c"
    "\<not> numeric \<Longrightarrow> fld hdr' 265 32 = strncpy_bytes user 32 \<and> fld hdr' 297 32 = strncpy_bytes grp 32"
    "\<And>p n. p + n \<le> 108 \<or> 124 \<le> p \<and> p + n \<le> 265 \<or> 329 \<le> p \<Longrightarrow> fld hdr' p n = fld hdr p n"
proof -
  have o: "c_string user" "length user \<le> 31" "c_string grp" "length grp \<le> 31"
    "c_cu h = TARU_C_BY_UNONE" "c_cg h = TARU_C_BY_UNONE" "unat (c_uid h) < 8 ^ 7" "unat (c_gid h) < 8 ^ 7"
    using ok by (auto simp: ustar_ok_def Let_def)
  let ?a = "put (put hdr 265 (strncpy_bytes user 32)) 108 (oct8 (unat (c_uid h)) c)"
  let ?b = "put (put ?a 297 (strncpy_bytes grp 32)) 116 (oct8 (unat (c_gid h)) c)"
  let ?d = "put (put ?b 265 (replicate 32 NUL)) 297 (replicate 32 NUL)"
  have la: "length (put hdr 265 (strncpy_bytes user 32)) = 512" "length ?a = 512" using len by (simp_all add: mem_simps)
  have lb: "length (put ?a 297 (strncpy_bytes grp 32)) = 512" "length ?b = 512" using la by (simp_all add: mem_simps)
  have ld: "length ?d = 512" using lb by (simp add: mem_simps)
  have u: "write_owner (Some user) (c_cu h) (c_uid h) numeric gu bu iu
        (\<lambda>i hdr. uid_to_chars us i hdr 108 8 POSIX_FORMAT c) 265 hdr ent uc = Some (?a, ent, uc)"
    using write_owner_put [where name_off = 265 and id_to_chars = "\<lambda>i hdr. uid_to_chars us i hdr 108 8 POSIX_FORMAT c",
        OF len _ o(1,2)] id_put(1) [OF o(7) la(1), of 108 us POSIX_FORMAT c] o(5) by simp
  have g: "write_owner (Some grp) (c_cg h) (c_gid h) numeric gg bg ig
        (\<lambda>i hdr. gid_to_chars gs i hdr 116 8 POSIX_FORMAT c) 297 ?a ent gc = Some (?b, ent, gc)"
    using write_owner_put [where name_off = 297 and id_to_chars = "\<lambda>i hdr. gid_to_chars gs i hdr 116 8 POSIX_FORMAT c",
        OF la(2) _ o(3,4)] id_put(2) [OF o(8) lb(1), of 116 gs POSIX_FORMAT c] o(6) by simp
  show thesis
    by (rule that [of ?a ?b "if numeric then ?d else ?b"])
      (use u g len la lb ld in \<open>auto simp: mem_simps SNAME_LEN_def\<close>)
qed

lemma write_header_written:
  assumes ok: "ustar_ok h fl user grp"
    and rec: "do_record_headerM taru \<Longrightarrow> strob_wf (headerM taru) \<and> strob_room (headerM taru) 512"
  obtains hdr taru' where
    "taru_write_out_tar_header2 w taru h None (Some user) (Some grp) fl = Some (512, hdr, w, taru')"
    "written hdr h fl user grp" "taru_tarheader_check hdr = Some 0"
    "if do_record_headerM taru then recorded taru' hdr else taru' = taru"
    "\<exists>n c v. (n = 6 \<or> n = 7) \<and> (c = NUL \<or> c = CHR '' '') \<and> fld hdr 148 (n + 1) = octal_digits (unat v) n @ [c] \<and>
       taru_tar_checksum hdr = Some v \<and> unat v < 8 ^ 6"
proof -
  let ?c = "if flag_set fl TARU_TAR_BE_LIKE_STAR then CHR '' '' else NUL"
  let ?num = "flag_set fl TARU_TAR_NUMERIC_UIDS"
  let ?z = "replicate 512 NUL" and ?nm = "header_member_name h fl"
  have o: "ahsStaticGetTarFilename h \<noteq> []" "c_string ?nm" "substr_index (CHR 0x5C # ''x'') ?nm = None"
    "length ?nm \<le> 100 \<or> fst (taru_is_tar_filename_too_long ?nm 0 (file_type h = CP_IFDIR)) = 0"
    "last ?nm \<noteq> CHR ''/'' \<or> file_type h = CP_IFDIR"
    using ok by (auto simp: ustar_ok_def Let_def)
  have ne: "?nm \<noteq> []" using o(1) by (simp add: header_member_name_def Let_def)
  have lz: "length ?z = 512" and pz: "fld ?z 345 155 = replicate 155 NUL" by (simp_all add: fld_replicate)
  obtain h1 where h1: "taru_set_new_name ?z ?nm (taru_tarheaderflagsM taru) = Some (h1, 0)" "length h1 = 512"
    "joined_name h1 = ?nm" "\<And>p n. 156 \<le> p \<Longrightarrow> p + n \<le> 345 \<Longrightarrow> fld h1 p n = fld ?z p n"
    "fld h1 500 12 = fld ?z 500 12"
    using set_new_name_joined [OF lz pz o(2) ne o(3,4,5)] by blast
  let ?h2 = "numbers_put h fl ?c h1"
  note n2 = numbers_put_fld [OF h1(2), where h = h and fl = fl and c = ?c]
  have "fld ?h2 157 100 = replicate 100 NUL" using n2(7) h1(4) by (simp add: fld_replicate)
  then obtain h3 where h3: "write_typeflag h ?h2 ?c = Some (Inr h3)" "length h3 = 512"
    "fld h3 156 1 = [tarflag h]" "fld h3 157 100 = strncpy_bytes (link_written h) 100"
    "fld h3 124 12 = oct12 (size_written h) ?c"
    "\<And>p n. p + n \<le> 124 \<or> 136 \<le> p \<and> p + n \<le> 156 \<or> 257 \<le> p \<Longrightarrow> fld h3 p n = fld ?h2 p n"
    by (rule write_typeflag_put [OF ok n2(1) _ n2(5)]) blast
  obtain h4 where h4: "write_magic fl h3 = Some h4" "length h4 = 512" "fld h4 257 5 = TMAGIC"
    "\<And>p n. p + n \<le> 257 \<or> 265 \<le> p \<Longrightarrow> fld h4 p n = fld h3 p n"
    by (rule write_magic_put [OF h3(2), of fl]) blast
  obtain x1 x2 h5 where h5: "write_owner (Some user) (c_cu h) (c_uid h) ?num
        (l_tar_sysdata_getuser (userdb w)) (taru_get_uid_by_name (userdb w)) (taru_get_tar_user_by_uid (userdb w))
        (\<lambda>i hdr. uid_to_chars (uid_sub w) i hdr 108 8 POSIX_FORMAT ?c) 265 h4 (u_ent_bufferM taru) (usercache w)
      = Some (x1, u_ent_bufferM taru, usercache w)"
    "write_owner (Some grp) (c_cg h) (c_gid h) ?num
        (l_tar_sysdata_getgroup (groupdb w)) (taru_get_gid_by_name (groupdb w)) (taru_get_tar_group_by_gid (groupdb w))
        (\<lambda>i hdr. gid_to_chars (gid_sub w) i hdr 116 8 POSIX_FORMAT ?c) 297 x1 (u_ent_bufferM taru) (groupcache w)
      = Some (x2, u_ent_bufferM taru, groupcache w)"
    "(if ?num then do { hdr \<leftarrow> mem_set x2 265 NUL (int SNAME_LEN); mem_set hdr 297 NUL (int SNAME_LEN) }
      else Some x2) = Some h5"
    "length h5 = 512" "fld h5 108 8 = oct8 (unat (c_uid h)) ?c" "fld h5 116 8 = oct8 (unat (c_gid h)) ?c"
    "\<not> ?num \<Longrightarrow> fld h5 265 32 = strncpy_bytes user 32 \<and> fld h5 297 32 = strncpy_bytes grp 32"
    "\<And>p n. p + n \<le> 108 \<or> 124 \<le> p \<and> p + n \<le> 265 \<or> 329 \<le> p \<Longrightarrow> fld h5 p n = fld h4 p n"
    by (rule write_owners_put [OF ok h4(2)]) blast
  have "fld h5 156 1 = [tarflag h]" using h5(8) h4(4) h3(3) by simp
  then obtain h6 where h6: "write_devices h fl h5 ?c = Some h6" "length h6 = 512"
    "\<And>p n. p + n \<le> 329 \<or> 345 \<le> p \<Longrightarrow> fld h6 p n = fld h5 p n"
    "tarflag h \<in> {CHRTYPE, BLKTYPE} \<Longrightarrow> fld h6 329 8 = oct8 (unat (c_rdev_maj h)) ?c \<and>
       fld h6 337 8 = oct8 (unat (c_rdev_min h)) ?c"
    by (rule write_devices_put [OF ok h5(4)]) blast
  let ?h7 = "put h6 148 (replicate 8 CHR '' '')"
  have h7: "mem_set h6 148 CHR '' '' 8 = Some ?h7" "length ?h7 = 512" "fld ?h7 257 5 = TMAGIC"
    using h6(2,3) h5(8) h4(3) by (simp_all add: mem_simps)
  obtain bs where bs: "taru_set_tar_header_sum ?h7 fl = Some (put ?h7 148 bs)" "length bs \<le> 8"
    "taru_tarheader_check (put ?h7 148 bs) = Some 0" "\<exists>n c v. (n = 6 \<or> n = 7) \<and> (c = NUL \<or> c = CHR '' '') \<and>
      bs = octal_digits (unat v) n @ [c] \<and> taru_tar_checksum (put ?h7 148 bs) = Some v \<and> unat v < 8 ^ 6"
    by (rule header_sum_put [OF h7(2,3), of fl]) blast
  let ?hdr = "put ?h7 148 bs"
  have L: "length ?hdr = 512" using h7(2) bs(2) by (simp add: mem_simps)
  have F: "fld ?hdr p n = fld h6 p n" if "p + n \<le> 148 \<or> 156 \<le> p" for p n
    using that h6(2) h7(2) bs(2) by (auto simp: mem_simps)
  have F5: "fld ?hdr p n = fld h5 p n" if "p + n \<le> 148 \<or> 156 \<le> p" "p + n \<le> 329 \<or> 345 \<le> p" for p n
    using F h6(3) that by metis
  have F4: "fld ?hdr p n = fld h4 p n"
    if "p + n \<le> 108 \<or> 124 \<le> p \<and> p + n \<le> 148 \<or> 156 \<le> p \<and> p + n \<le> 265 \<or> 345 \<le> p" for p n
  proof -
    have "fld h5 p n = fld h4 p n" using that by (intro h5(8)) auto
    then show ?thesis using F5 [of p n] that by auto
  qed
  have F3: "fld ?hdr p n = fld h3 p n"
    if "p + n \<le> 108 \<or> 124 \<le> p \<and> p + n \<le> 148 \<or> 156 \<le> p \<and> p + n \<le> 257 \<or> 345 \<le> p" for p n
  proof -
    have "fld h4 p n = fld h3 p n" using that by (intro h4(4)) auto
    then show ?thesis using F4 [of p n] that by auto
  qed
  have F2: "fld ?hdr p n = fld ?h2 p n"
    if "p + n \<le> 108 \<or> 136 \<le> p \<and> p + n \<le> 148 \<or> 345 \<le> p" for p n
  proof -
    have "fld h3 p n = fld ?h2 p n" using that by (intro h3(6)) auto
    then show ?thesis using F3 [of p n] that by auto
  qed
  have F1: "fld ?hdr p n = fld h1 p n" if "p + n \<le> 100 \<or> 345 \<le> p" for p n
  proof -
    have "fld ?h2 p n = fld h1 p n" using that by (intro n2(7)) auto
    then show ?thesis using F2 [of p n] that by auto
  qed
  have mg: "fld ?hdr 257 5 = TMAGIC" using F4 [of 257 5] h4(3) by simp
  have "joined_name ?hdr = ?nm" unfolding h1(3) [symmetric] by (intro joined_name_cong F1) auto
  then have nm: "taru_dup_tar_name ?hdr = ?nm" using dup_joined [OF mg] by simp
  have c: "?c = NUL \<or> ?c = CHR '' ''" by simp
  have W: "written ?hdr h fl user grp"
    unfolding written_def
  proof (intro conjI impI)
    show "num_at ?hdr 100 8 (mode_written h fl)" by (rule num_atI [OF _ c]) (simp add: F2 n2(2))
    show "num_at ?hdr 108 8 (unat (c_uid h))" by (rule num_atI [OF _ c]) (simp add: F5 h5(5))
    show "num_at ?hdr 116 8 (unat (c_gid h))" by (rule num_atI [OF _ c]) (simp add: F5 h5(6))
    show "num_at ?hdr 124 12 (size_written h)" by (rule num_atI [OF _ c]) (simp add: F3 h3(5))
    show "num_at ?hdr 136 12 (unat (c_mtime h))" by (rule num_atI [OF _ c]) (simp add: F2 n2(6))
    show "fld ?hdr 156 1 = [tarflag h]" using F3 [of 156 1] h3(3) by simp
    show "fld ?hdr 157 100 = strncpy_bytes (link_written h) 100" using F3 [of 157 100] h3(4) by simp
    show "fld ?hdr 500 12 = replicate 12 NUL" using F1 [of 500 12] h1(5) by (simp add: fld_replicate)
  next
    assume "\<not> ?num"
    then show "fld ?hdr 265 32 = strncpy_bytes user 32" using F5 [of 265 32] h5(7) by simp
  next
    assume "\<not> ?num"
    then show "fld ?hdr 297 32 = strncpy_bytes grp 32" using F5 [of 297 32] h5(7) by simp
  next
    assume t: "tarflag h \<in> {CHRTYPE, BLKTYPE}"
    show "num_at ?hdr 329 8 (unat (c_rdev_maj h))" by (rule num_atI [OF _ c]) (use F [of 329 8] h6(4) [OF t] in simp)
  next
    assume t: "tarflag h \<in> {CHRTYPE, BLKTYPE}"
    show "num_at ?hdr 337 8 (unat (c_rdev_min h))" by (rule num_atI [OF _ c]) (use F [of 337 8] h6(4) [OF t] in simp)
  qed (use L mg nm in auto)
  have sum: "\<exists>n c v. (n = 6 \<or> n = 7) \<and> (c = NUL \<or> c = CHR '' '') \<and> fld ?hdr 148 (n + 1) = octal_digits (unat v) n @ [c] \<and>
       taru_tar_checksum ?hdr = Some v \<and> unat v < 8 ^ 6"
  proof -
    obtain n c v where e: "n = 6 \<or> n = 7" "c = NUL \<or> c = CHR '' ''" "bs = octal_digits (unat v) n @ [c]"
      "taru_tar_checksum ?hdr = Some v" "unat v < 8 ^ 6"
      using bs(4) by blast
    have "fld ?hdr 148 (n + 1) = bs" using e(1,3) h7(2) by (intro fld_put_same) auto
    then show ?thesis using e by blast
  qed
  have z: "last ?hdr = NUL"
  proof -
    have "drop 500 ?hdr = replicate 12 NUL" using W L by (simp add: written_def fld_def)
    then have "?hdr ! 511 = NUL" using L nth_drop [of 500 ?hdr 11] by simp
    moreover have "?hdr \<noteq> []" using L by auto
    ultimately show ?thesis using L by (simp add: last_conv_nth)
  qed
  obtain t where t: "(if do_record_headerM taru then record_header_at taru 0 ?hdr else Some taru) = Some t"
    "if do_record_headerM taru then recorded t ?hdr else t = taru"
    using rec record_header_recorded [of taru "[]" ?hdr] L z
    by (cases "do_record_headerM taru") (auto simp: strob_bytes_Nil)
  have "taru_write_out_tar_header2 w taru h None (Some user) (Some grp) fl = Some (512, ?hdr, w, t)"
    unfolding taru_write_out_tar_header2_def Let_def
    using o(1) h1(1) write_numbers_put [OF ok h1(2), of w ?c] h3(1) h4(1) h5(1-3) h6(1) h7(1) bs(1) t(1)
    by (simp split: if_split_asm)
  then show thesis by (rule that) (use W bs(3) sum t(2) in auto)
qed

end
