(* ===== verification/Pax.thy ===== *)
theory Pax
  imports TarWrite Strob_Tokens
begin

text \<open>
  Pax extended headers: the list of extended attributes of a header (\<open>swsupplib/taru/taru.c\<close>), the
  construction of the records (\<open>copyout.c\<close>), their interpretation (\<open>readinheader.c\<close>) and the number
  scanners of \<open>misc/swlib.c\<close>. An attribute's value is the bytes its \<open>STROB\<close> holds.
\<close>

section \<open>Number scanners\<close>

text \<open>\<open>strtol\<close> and \<open>strtoul\<close> in base 10: the sign, the digits and the number of characters consumed.\<close>

definition dec_scan :: "string \<Rightarrow> int \<times> nat \<times> nat" where
  "dec_scan s =
     (let ws = takeWhile isspace s;
          r = drop (length ws) s;
          (sg, k) = (if r \<noteq> [] \<and> hd r = CHR ''-'' then (- 1, 1)
                     else if r \<noteq> [] \<and> hd r = CHR ''+'' then (1, 1) else (1, 0));
          ds = takeWhile isdigit (drop k r)
      in if ds = [] then (1, 0, 0)
         else (sg, foldl (\<lambda>v c. 10 * v + digit_val c) 0 ds, length ws + k + length ds))"

definition c_strtol :: "string \<Rightarrow> int \<times> nat \<times> bool" where
  "c_strtol s =
     (let (sg, v, n) = dec_scan s; x = sg * int v
      in if x < - (2 ^ 63) then (- (2 ^ 63), n, True)
         else if x > 2 ^ 63 - 1 then (2 ^ 63 - 1, n, True)
         else (x, n, False))"

definition c_strtoul :: "string \<Rightarrow> 64 word \<times> nat \<times> bool" where
  "c_strtoul s =
     (let (sg, v, n) = dec_scan s
      in if v > 2 ^ 64 - 1 then (- 1, n, True) else (of_int (sg * int v), n, False))"

text \<open>The results are the value, the end of the number and \<open>*result\<close>. \<open>errno\<close> is taken to be 0 before the
  call.\<close>

definition swlib_atoi2 :: "string \<Rightarrow> int \<times> nat \<times> int" where
  "swlib_atoi2 nptr =
     (let (ret, n, overflow) = c_strtol nptr
      in (c_int ret, n, if n = 0 \<and> ret = 0 \<or> overflow then 1 else 0))"

definition swlib_atoi :: "string \<Rightarrow> int \<times> int" where
  "swlib_atoi nptr = (let (ret, _, result) = swlib_atoi2 nptr in (ret, result))"

text \<open>When the caller asks for the end of the number (\<open>fp_endptr\<close> is not null) the test for an empty number
  reads the uninitialised local \<open>endptr\<close>; \<open>junk\<close> is whether it happens to equal \<open>nptr\<close>.\<close>

definition swlib_atoul :: "string \<Rightarrow> bool option \<Rightarrow> 64 word \<times> nat \<times> int" where
  "swlib_atoul nptr junk =
     (let (ret, n, overflow) = c_strtoul nptr;
          at_start = (case junk of None \<Rightarrow> n = 0 | Some j \<Rightarrow> j)
      in (ret, n, if at_start \<and> ret = 0 \<or> overflow then 1 else 0))"

text \<open>\<open>nsec\<close> is \<^term>\<open>None\<close> when the caller passes a null pointer for the nanoseconds.\<close>

definition set_unsigned_long_value ::
  "bool \<Rightarrow> 64 word option \<Rightarrow> string \<Rightarrow> 64 word \<times> 64 word option \<times> int" where
  "set_unsigned_long_value junk nsec val =
     (let nsec = map_option (\<lambda>_. 0) nsec;
          (ret, n, result) = swlib_atoul val (Some junk)
      in if result \<noteq> 0 then (0, nsec, result)
         else if nsec \<noteq> None \<and> n < length val \<and> val ! n = CHR ''.'' then
           (let (ret2, _, result) = swlib_atoul (drop (n + 1) val) None
            in if result \<noteq> 0 then (ret, nsec, result) else (ret, Some ret2, result))
         else (ret, nsec, result))"

section \<open>The list of extended attributes\<close>

definition taru_exatt_init :: "exatt \<Rightarrow> exatt" where
  "taru_exatt_init hnew = hnew\<lparr>is_in_useM := 0, ex_lenM := - 1, vendorM := [], namespaceM := [],
     attrnameM := [], attrvalueM := []\<rparr>"

definition taru_exatt_create :: exatt where
  "taru_exatt_create = \<lparr>is_in_useM = 0, vendorM = [], namespaceM = [], attrnameM = [], attrvalueM = [], ex_lenM = - 1\<rparr>"

definition exattlist_of :: "new_cpio_header \<Rightarrow> int \<Rightarrow> exatt cplob option" where
  "exattlist_of h nobj =
     (case extattlistM h of Some l \<Rightarrow> Some l
      | None \<Rightarrow> map_option (\<lambda>l. l\<lparr>refcountM := 1\<rparr>) (cplob_open nobj))"

text \<open>The scan for the first unused entry; the state is the index and whether one was found.\<close>

definition free_scan :: "exatt \<Rightarrow> int \<times> bool \<Rightarrow> int \<times> bool + int \<times> bool" where
  "free_scan p s = (if is_in_useM p = 0 then Inl (fst s, True) else Inr (fst s + 1, False))"

text \<open>The header and the index of the entry the returned pointer stands for.\<close>

definition taru_exattlist_get_free :: "new_cpio_header \<Rightarrow> (new_cpio_header \<times> int) option" where
  "taru_exattlist_get_free h = do {
     l \<leftarrow> exattlist_of h 3;
     (i, found) \<leftarrow> nta_scan (cplob_val l) 0 free_scan (0, False);
     if found then do {
       p \<leftarrow> cell_read (cp_list l) i;
       p \<leftarrow> p;
       cs \<leftarrow> cell_write (cp_list l) i (Some (taru_exatt_init p));
       Some (h\<lparr>extattlistM := Some (l\<lparr>cp_list := cs\<rparr>)\<rparr>, i) }
     else do {
       l \<leftarrow> cplob_add_nta l (Some taru_exatt_create);
       Some (h\<lparr>extattlistM := Some l\<rparr>, i) } }"

text \<open>The loop of \<open>taru_exattlist_init\<close> compares where it means to assign, so it changes nothing.\<close>

definition taru_exattlist_init :: "new_cpio_header \<Rightarrow> new_cpio_header option" where
  "taru_exattlist_init h = do {
     l \<leftarrow> exattlist_of h 22;
     _ \<leftarrow> nta_scan (cplob_val l) 0 (\<lambda>p s. Inr s) ();
     Some (h\<lparr>extattlistM := Some l\<rparr>) }"

definition exatt_read :: "new_cpio_header \<Rightarrow> int \<Rightarrow> exatt option" where
  "exatt_read h i = do { l \<leftarrow> extattlistM h; p \<leftarrow> cell_read (cp_list l) i; p }"

definition exatt_write :: "new_cpio_header \<Rightarrow> int \<Rightarrow> exatt \<Rightarrow> new_cpio_header option" where
  "exatt_write h i p = do {
     l \<leftarrow> extattlistM h;
     cs \<leftarrow> cell_write (cp_list l) i (Some p);
     Some (h\<lparr>extattlistM := Some (l\<lparr>cp_list := cs\<rparr>)\<rparr>) }"

section \<open>Attribute names\<close>

definition isupper :: "char \<Rightarrow> bool" where
  "isupper c \<longleftrightarrow> CHR ''A'' \<le> c \<and> c \<le> CHR ''Z''"

definition islower :: "char \<Rightarrow> bool" where
  "islower c \<longleftrightarrow> CHR ''a'' \<le> c \<and> c \<le> CHR ''z''"

text \<open>The loop over the words of a qualified name; the state is the entry and the three flags.\<close>

fun fqname_loop :: "string list \<Rightarrow> exatt \<Rightarrow> bool \<Rightarrow> bool \<Rightarrow> bool \<Rightarrow> int \<times> exatt \<times> bool \<times> bool \<times> bool" where
  "fqname_loop [] e has_prefix has_namespace has_name = (0, e, has_prefix, has_namespace, has_name)"
| "fqname_loop (s # ss) e has_prefix has_namespace has_name =
     (let upper = isupper (if s = [] then NUL else hd s)
      in if upper \<and> \<not> has_prefix then
           fqname_loop ss (e\<lparr>vendorM := cstr (swlib_strncpy s 100)\<rparr>) True has_namespace has_name
         else if \<not> upper \<and> \<not> has_namespace then
           fqname_loop ss (e\<lparr>namespaceM := cstr (swlib_strncpy s 100)\<rparr>) has_prefix True has_name
         else if \<not> upper \<and> \<not> has_name then
           fqname_loop ss (e\<lparr>attrnameM := s\<rparr>) has_prefix has_namespace True
         else (- 1, e, has_prefix, has_namespace, has_name))"

definition taru_exatt_parse_fqname :: "exatt \<Rightarrow> string \<Rightarrow> int \<Rightarrow> (int \<times> exatt) option" where
  "taru_exatt_parse_fqname e attr attrlen = do {
     tmp \<leftarrow> strob_open 32;
     tmp \<leftarrow> strob_strncpy tmp attr attrlen;
     let e = e\<lparr>vendorM := [], namespaceM := [], attrnameM := []\<rparr>;
     ws \<leftarrow> strtok_collect tmp TokSelf ''.'';
     let (retval, e, has_prefix, has_namespace, has_name) = fqname_loop ws e False False False;
     Some (retval,
       if has_namespace \<and> \<not> has_name \<and> \<not> has_prefix
       then e\<lparr>attrnameM := namespaceM e, namespaceM := []\<rparr> else e) }"


section \<open>Reading records\<close>

text \<open>The result is \<open>Inl\<close> of the error code for a null pointer, else \<open>Inr\<close> of the position after the
  record. Nothing compares the stated length with the size of the data, so \<open>memcpy\<close> may read past the
  block; that is \<^term>\<open>None\<close>.\<close>

definition taru_read_ext_header_record ::
  "new_cpio_header \<Rightarrow> block \<Rightarrow> int \<Rightarrow> (new_cpio_header \<times> (int + int)) option" where
  "taru_read_ext_header_record h b data = do {
     s \<leftarrow> c_string_at b data;
     let (len, n, _) = swlib_atoi2 s;
     let pos = data + int n;
     c \<leftarrow> c_read b pos;
     if \<not> isspace c then Some (h, Inl (- 1))
     else do {
       let attr = pos + 1;
       rest \<leftarrow> c_string_at b attr;
       case first_index (\<lambda>c. c = CHR ''='') rest of
         None \<Rightarrow> Some (h, Inl (- 2))
       | Some attrlen \<Rightarrow> do {
           let val_pos = attr + int attrlen + 1;
           let valuelen = c_int (len - c_int (val_pos - data) - 1);
           if valuelen < 0 then Some (h, Inl (- 4))
           else do {
             (h, i) \<leftarrow> taru_exattlist_get_free h;
             e \<leftarrow> exatt_read h i;
             (retval, e) \<leftarrow> taru_exatt_parse_fqname e rest (int attrlen);
             if retval < 0 then do { h \<leftarrow> exatt_write h i e; Some (h, Inl (- 5)) }
             else if val_pos + valuelen > int (length b) then None
             else do {
               h \<leftarrow> exatt_write h i (e\<lparr>attrvalueM := take (nat valuelen) (drop (nat val_pos) b),
                      ex_lenM := valuelen, is_in_useM := 1\<rparr>);
               Some (h, Inr (val_pos + valuelen + 1)) } } } } }"

text \<open>The loop returns the number of records with the error code, negated on an error. A failure of the
  first record is therefore the number 0, which the caller takes for success.\<close>

partial_function (option) read_records_loop ::
  "new_cpio_header \<Rightarrow> block \<Rightarrow> int \<Rightarrow> int \<Rightarrow> int \<Rightarrow> int \<Rightarrow> (int \<times> int option \<times> new_cpio_header) option" where
  "read_records_loop h b data len current_pos num_of_records =
     (if current_pos - data < len then do {
        (h, r) \<leftarrow> taru_read_ext_header_record h b current_pos;
        case r of
          Inl e \<Rightarrow> Some (- num_of_records, Some e, h)
        | Inr retpos \<Rightarrow> read_records_loop h b data len retpos (num_of_records + 1) }
      else Some (num_of_records, None, h))"

definition taru_read_all_ext_header_records ::
  "new_cpio_header \<Rightarrow> block \<Rightarrow> int \<Rightarrow> int \<Rightarrow> (int \<times> int option \<times> new_cpio_header) option" where
  "taru_read_all_ext_header_records h b data len =
     read_records_loop (h\<lparr>extHeader_usage_maskM := or (extHeader_usage_maskM h) TARU_EHUM_ANY\<rparr>) b data len data 0"

text \<open>An unqualified lower case attribute replaces the value of the ustar header. The size is stored into
  \<open>c_uid\<close>.\<close>

definition use_mask :: "32 word \<Rightarrow> new_cpio_header \<Rightarrow> new_cpio_header" where
  "use_mask flag h = h\<lparr>extHeader_usage_maskM := or (extHeader_usage_maskM h) flag\<rparr>"

definition taru_exatt_override_ustar ::
  "bool \<Rightarrow> new_cpio_header \<Rightarrow> exatt \<Rightarrow> int \<times> new_cpio_header \<times> exatt" where
  "taru_exatt_override_ustar junk h e =
     (let attr = attrnameM e; val = cstr (attrvalueM e); e0 = e\<lparr>is_in_useM := 0\<rparr>
      in if \<not> (namespaceM e = [] \<and> attr \<noteq> [] \<and> islower (hd attr)) then (0, h, e)
         else if attr = ''path'' then (0, use_mask TARU_EHUM_PATH (ahsStaticSetTarFilename h (Some val)), e0)
         else if attr = ''linkpath'' then (0, use_mask TARU_EHUM_LINKPATH (ahsStaticSetPaxLinkname h (Some val)), e0)
         else if attr = ''gname'' then (0, use_mask TARU_EHUM_GNAME (ahsStaticSetTarGroupname h (Some val)), e0)
         else if attr = ''uname'' then (0, use_mask TARU_EHUM_UNAME (ahsStaticSetTarUsername h (Some val)), e0)
         else if attr = ''atime'' then
           (let (v, n, ret) = set_unsigned_long_value junk (Some (c_atime_nsec h)) val
            in (ret, use_mask TARU_EHUM_ATIME (h\<lparr>c_atime := v, c_atime_nsec := the n\<rparr>), e0))
         else if attr = ''mtime'' then
           (let (v, n, ret) = set_unsigned_long_value junk None val
            in (ret, use_mask TARU_EHUM_MTIME (h\<lparr>c_mtime := v\<rparr>), e0))
         else if attr = ''ctime'' then
           (let (v, n, ret) = set_unsigned_long_value junk (Some (c_ctime_nsec h)) val
            in (ret, use_mask TARU_EHUM_CTIME (h\<lparr>c_ctime := v, c_ctime_nsec := the n\<rparr>), e0))
         else if attr = ''gid'' then
           (let (v, n, ret) = set_unsigned_long_value junk None val
            in (ret, use_mask TARU_EHUM_GID (h\<lparr>c_gid := v\<rparr>), e0))
         else if attr = ''uid'' then
           (let (v, n, ret) = set_unsigned_long_value junk None val
            in (ret, use_mask TARU_EHUM_UID (h\<lparr>c_uid := v\<rparr>), e0))
         else if attr = ''size'' then
           (let (v, n, ret) = set_unsigned_long_value junk None val
            in (ret, use_mask TARU_EHUM_SIZE (h\<lparr>c_uid := v\<rparr>), e0))
         else (0, h, e\<lparr>is_in_useM := 1\<rparr>))"

text \<open>The loop at the end of \<open>taru_read_in_tar_header2\<close>: every entry of the list, used or not.\<close>

partial_function (option) override_loop ::
  "bool \<Rightarrow> new_cpio_header \<Rightarrow> exatt cplob \<Rightarrow> int \<Rightarrow> (new_cpio_header \<times> exatt cplob) option" where
  "override_loop junk h l index = do {
     p \<leftarrow> cplob_val l index;
     case p of
       None \<Rightarrow> Some (h, l)
     | Some p \<Rightarrow> do {
         let (_, h, p) = taru_exatt_override_ustar junk h p;
         cs \<leftarrow> cell_write (cp_list l) index (Some p);
         override_loop junk h (l\<lparr>cp_list := cs\<rparr>) (index + 1) } }"

definition apply_ext_headers :: "bool \<Rightarrow> new_cpio_header \<Rightarrow> new_cpio_header option" where
  "apply_ext_headers junk h =
     (if extHeader_usage_maskM h \<noteq> 0 then
        (case extattlistM h of
           None \<Rightarrow> Some h
         | Some l \<Rightarrow> map_option (\<lambda>(h, l). h\<lparr>extattlistM := Some l\<rparr>) (override_loop junk h l 0))
      else Some h)"

section \<open>Writing records\<close>

text \<open>The number of decimal digits, as the two counting loops find it.\<close>

function count_digits :: "int \<Rightarrow> int" where
  "count_digits r = (if r div 10 \<ge> 1 then 1 + count_digits (r div 10) else 1)"
  by auto
termination
  by (relation "measure nat") auto

declare count_digits.simps [simp del]

function ilen_loop :: "int \<Rightarrow> int \<Rightarrow> int" where
  "ilen_loop rlen i =
     (if i < 99 then (if count_digits (rlen + i) = i then i + rlen else ilen_loop rlen (i + 1)) else - 1)"
  by auto
termination
  by (relation "measure (\<lambda>(rlen, i). nat (99 - i))") auto

declare ilen_loop.simps [simp del]

definition get_ilen :: "int \<Rightarrow> int" where
  "get_ilen rlen = ilen_loop rlen (count_digits rlen)"

text \<open>The digits \<open>%d\<close> and \<open>%lu\<close> print.\<close>

function dec_string :: "nat \<Rightarrow> string" where
  "dec_string n = (if n < 10 then [digit_char n] else dec_string (n div 10) @ [digit_char (n mod 10)])"
  by auto
termination
  by (relation "measure id") auto

declare dec_string.simps [simp del]

definition construct_exthdr_record ::
  "strob \<Rightarrow> int \<Rightarrow> string \<Rightarrow> char list \<Rightarrow> (strob \<times> int) option" where
  "construct_exthdr_record buf initial_offset keyword val = do {
     let rlen = 1 + int (length keyword) + int (length val) + 1 + 1;
     let ret = get_ilen rlen;
     if ret < 0 then None
     else do {
       let rlen = ret;
       (buf, _) \<leftarrow> strob_sprintf_at buf initial_offset (dec_string (nat rlen) @ '' '' @ keyword @ ''='');
       b \<leftarrow> strob_get_str buf;
       ret \<leftarrow> c_strlen b initial_offset;
       buf \<leftarrow> strob_memcpy_at buf (initial_offset + ret) val;
       if ret + int (length val) + 1 \<noteq> rlen then None
       else do {
         buf \<leftarrow> strob_memcpy_at buf (initial_offset + rlen - 1) [CHR 0x0A];
         Some (buf, rlen) } } }"

text \<open>One record of \<open>write_exthdrs_ustar_records\<close>: written if its bit is set, with the change of the header
  that follows. For the group id the code shortens \<open>c_uid\<close>.\<close>

definition exthdr_step ::
  "32 word \<Rightarrow> string \<Rightarrow> (new_cpio_header \<Rightarrow> string) \<Rightarrow> (new_cpio_header \<Rightarrow> new_cpio_header) \<Rightarrow>
   new_cpio_header \<times> strob \<times> int \<Rightarrow> (new_cpio_header \<times> strob \<times> int) option" where
  "exthdr_step flag keyword val shorten st =
     (let (h, buf, data_len) = st
      in if and (extHeader_needs_maskM h) flag \<noteq> 0 then do {
           (buf, ret) \<leftarrow> construct_exthdr_record buf data_len keyword (val h);
           Some (shorten h, buf, data_len + ret) }
         else Some st)"

definition cut_name :: "nat \<Rightarrow> string option \<Rightarrow> string option" where
  "cut_name n name = Some (take n (ahsStaticGetTarname_i name))"

definition write_exthdrs_ustar_records ::
  "strob \<Rightarrow> new_cpio_header \<Rightarrow> (new_cpio_header \<times> strob \<times> int) option" where
  "write_exthdrs_ustar_records buf h = do {
     st \<leftarrow> exthdr_step TARU_EHUM_LINKPATH ''linkpath'' ahsStaticGetTarLinkname
            (\<lambda>h. h\<lparr>c_tar_linkname := cut_name TARNAMESIZE (c_tar_linkname h)\<rparr>) (h, buf, 0);
     st \<leftarrow> exthdr_step TARU_EHUM_PATH ''path'' ahsStaticGetTarFilename
            (\<lambda>h. h\<lparr>c_name := cut_name TARNAMESIZE (c_name h)\<rparr>) st;
     st \<leftarrow> exthdr_step TARU_EHUM_SIZE ''size'' (\<lambda>h. dec_string (unat (c_filesize h)))
            (\<lambda>h. h\<lparr>c_filesize := TAR_MAX_SIZE\<rparr>) st;
     st \<leftarrow> exthdr_step TARU_EHUM_UID ''uid'' (\<lambda>h. dec_string (unat (c_uid h)))
            (\<lambda>h. h\<lparr>c_uid := TAR_MAX_7OCTAL\<rparr>) st;
     st \<leftarrow> exthdr_step TARU_EHUM_GID ''gid'' (\<lambda>h. dec_string (unat (c_gid h)))
            (\<lambda>h. h\<lparr>c_uid := TAR_MAX_7OCTAL\<rparr>) st;
     st \<leftarrow> exthdr_step TARU_EHUM_UNAME ''uname'' ahsStaticGetTarUsername
            (\<lambda>h. h\<lparr>c_username := cut_name 31 (c_username h)\<rparr>) st;
     st \<leftarrow> exthdr_step TARU_EHUM_GNAME ''gname'' ahsStaticGetTarGroupname
            (\<lambda>h. h\<lparr>c_groupname := cut_name 31 (c_groupname h)\<rparr>) st;
     st \<leftarrow> exthdr_step TARU_EHUM_DEV_MAJ ''SWBIS.devmajor'' (\<lambda>h. dec_string (unat (c_dev_maj h)))
            (\<lambda>h. h\<lparr>c_dev_maj := TAR_MAX_7OCTAL\<rparr>) st;
     exthdr_step TARU_EHUM_DEV_MIN ''SWBIS.devminor'' (\<lambda>h. dec_string (unat (c_dev_min h)))
       (\<lambda>h. h\<lparr>c_dev_min := TAR_MAX_7OCTAL\<rparr>) st }"

text \<open>The records of the attributes: the loop ends at the first entry that is not in use.\<close>

definition fqname :: "exatt \<Rightarrow> string" where
  "fqname p = vendorM p @ (if vendorM p \<noteq> [] then ''.'' else []) @ namespaceM p @
     (if namespaceM p \<noteq> [] then ''.'' else []) @ attrnameM p"

partial_function (option) xattr_records_loop ::
  "strob \<Rightarrow> exatt cplob \<Rightarrow> int \<Rightarrow> int \<Rightarrow> (strob \<times> int) option" where
  "xattr_records_loop buf extlist index data_len = do {
     p \<leftarrow> cplob_val extlist index;
     case p of
       None \<Rightarrow> Some (buf, data_len)
     | Some p \<Rightarrow>
         if is_in_useM p = 0 then Some (buf, data_len)
         else do {
           (buf, ret) \<leftarrow> construct_exthdr_record buf data_len (fqname p) (attrvalueM p);
           xattr_records_loop buf extlist (index + 1) (data_len + ret) } }"

definition write_exthdrs_xattr_records :: "strob \<Rightarrow> new_cpio_header \<Rightarrow> int \<Rightarrow> (strob \<times> int) option" where
  "write_exthdrs_xattr_records buf h data_len =
     (case extattlistM h of
        None \<Rightarrow> Some (buf, data_len)
      | Some l \<Rightarrow> xattr_records_loop buf l 0 data_len)"


section \<open>The length of a record\<close>

lemma count_digits_bounds:
  assumes "0 \<le> r"
  shows "1 \<le> count_digits r \<and> r < 10 ^ nat (count_digits r) \<and> (r = 0 \<or> 10 ^ nat (count_digits r - 1) \<le> r)"
  using assms
proof (induction r rule: count_digits.induct)
  case (1 r)
  show ?case
  proof (cases "r div 10 \<ge> 1")
    case False
    then show ?thesis using 1(2) by (subst (1 2 3) count_digits.simps) auto
  next
    case True
    have ih: "1 \<le> count_digits (r div 10)" "r div 10 < 10 ^ nat (count_digits (r div 10))"
      "10 ^ nat (count_digits (r div 10) - 1) \<le> r div 10"
      using 1(1) [OF True] 1(2) True by auto
    let ?k = "nat (count_digits (r div 10))"
    have c: "count_digits r = 1 + count_digits (r div 10)" using True by (subst count_digits.simps) simp
    have k: "nat (count_digits r) = Suc ?k" "nat (count_digits r - 1) = Suc (nat (count_digits (r div 10) - 1))"
      using c ih(1) by auto
    have "r < 10 ^ Suc ?k" using ih(2) by simp
    moreover have "10 ^ Suc (nat (count_digits (r div 10) - 1)) \<le> r" using ih(3) by simp
    ultimately show ?thesis using c ih(1) k by simp
  qed
qed

lemma count_digits_eq:
  assumes "0 < r" "0 < k" "10 ^ (k - 1) \<le> r" "r < 10 ^ k"
  shows "count_digits r = int k"
proof -
  let ?c = "nat (count_digits r)"
  have b: "1 \<le> count_digits r" "r < 10 ^ ?c" "10 ^ nat (count_digits r - 1) \<le> r"
    using count_digits_bounds [of r] assms(1) by auto
  have n: "nat (count_digits r - 1) = ?c - 1" by simp
  have "(10 :: int) ^ (k - 1) < 10 ^ ?c" "(10 :: int) ^ (?c - 1) < 10 ^ k" using b n assms by (metis order.strict_trans1)+
  then have "k - 1 < ?c" "?c - 1 < k" by (simp_all only: power_strict_increasing_iff one_less_numeral_iff semiring_norm)
  then have "?c = k" using b(1) assms(2) by linarith
  then show ?thesis using b(1) by simp
qed

text \<open>\<open>get_ilen\<close> finds the length of a record, a number that counts its own digits.\<close>

lemma get_ilen_fixpoint:
  assumes "0 < r" "r < 10 ^ 90"
  shows "get_ilen r = r + count_digits (get_ilen r) \<and> r < get_ilen r \<and> get_ilen r \<le> r + 91"
proof -
  let ?k = "nat (count_digits r)"
  have b: "1 \<le> count_digits r" "r < 10 ^ ?k" "10 ^ (?k - 1) \<le> r"
    using count_digits_bounds [of r] assms(1) nat_diff_distrib [of 1 "count_digits r"] by auto
  have "(10 :: int) ^ (?k - 1) < 10 ^ 90" using b(3) assms(2) by linarith
  then have "?k - 1 < 90" by (simp only: power_strict_increasing_iff one_less_numeral_iff semiring_norm)
  then have k: "?k \<le> 90" "count_digits r = int ?k" "0 < ?k" "count_digits r < 98" using b(1) by linarith+
  have le: "int ?k < 10 ^ ?k" by (rule of_nat_less_numeral_power_cancel_iff [THEN iffD2]) (rule less_exp [THEN less_le_trans], simp add: power_mono)
  show ?thesis
  proof (cases "r + int ?k < 10 ^ ?k")
    case True
    then have "count_digits (r + int ?k) = int ?k" using b(3) k assms(1) by (intro count_digits_eq) auto
    then have "get_ilen r = int ?k + r" using k by (simp add: get_ilen_def, subst ilen_loop.simps) simp
    then show ?thesis using \<open>count_digits (r + int ?k) = int ?k\<close> k by (simp add: add.commute)
  next
    case False
    have "r + (int ?k + 1) < 10 ^ ?k + 10 ^ ?k + 1" using b(2) le by linarith
    also have "\<dots> \<le> 10 ^ Suc ?k" using le k(3) by simp
    finally have hi: "r + (int ?k + 1) < 10 ^ Suc ?k" .
    have c1: "count_digits (r + (int ?k + 1)) = int (Suc ?k)" using False hi assms(1) by (intro count_digits_eq) auto
    have "r + int ?k < 10 ^ Suc ?k" using hi by linarith
    then have c0: "count_digits (r + int ?k) = int (Suc ?k)" using False assms(1) by (intro count_digits_eq) auto
    have "get_ilen r = ilen_loop r (int ?k + 1)"
      using c0 k by (simp add: get_ilen_def, subst ilen_loop.simps) simp
    also have "\<dots> = int ?k + 1 + r" using c1 k by (subst ilen_loop.simps) simp
    finally show ?thesis using c1 k by (simp add: add.commute)
  qed
qed

text \<open>The digits of the length.\<close>

lemma length_dec_string: "int (length (dec_string n)) = count_digits (int n)"
proof (induction n rule: dec_string.induct)
  case (1 n)
  show ?case
  proof (cases "n < 10")
    case True
    then show ?thesis by (subst dec_string.simps, subst count_digits.simps) auto
  next
    case False
    have q: "int n div 10 = int (n div 10)" by (simp add: zdiv_int)
    have "1 \<le> int (n div 10)" using False by linarith
    then have "count_digits (int n) = 1 + count_digits (int (n div 10))"
      by (subst count_digits.simps) (simp only: q if_True)
    moreover have "dec_string n = dec_string (n div 10) @ [digit_char (n mod 10)]"
      using False by (subst dec_string.simps) simp
    ultimately show ?thesis using 1 [OF False] by simp
  qed
qed

lemma dec_string_digits: "c \<in> set (dec_string n) \<Longrightarrow> isdigit c"
proof (induction n rule: dec_string.induct)
  case (1 n)
  have d: "isdigit (digit_char k)" if "k < 10" for k :: nat
    using that unfolding isdigit_def less_eq_char_def by (simp add: of_char_of)
  show ?case
  proof (cases "n < 10")
    case True
    then have "dec_string n = [digit_char n]" by (subst dec_string.simps) simp
    then show ?thesis using 1(2) d [OF True] by simp
  next
    case False
    then have "dec_string n = dec_string (n div 10) @ [digit_char (n mod 10)]" by (subst dec_string.simps) simp
    then show ?thesis using 1(1) [OF False] 1(2) d [of "n mod 10"] by auto
  qed
qed

lemma dec_string_not_Nil [simp]: "dec_string n \<noteq> []"
  by (subst dec_string.simps) simp

lemma dec_string_value: "foldl (\<lambda>v c. 10 * v + digit_val c) 0 (dec_string n) = n"
proof (induction n rule: dec_string.induct)
  case (1 n)
  show ?case
  proof (cases "n < 10")
    case True
    then have "dec_string n = [digit_char n]" by (subst dec_string.simps) simp
    then show ?thesis using True by simp
  next
    case False
    then have "dec_string n = dec_string (n div 10) @ [digit_char (n mod 10)]" by (subst dec_string.simps) simp
    then show ?thesis using 1 [OF False] by simp
  qed
qed

lemma dec_scan_dec_string:
  assumes "rest = [] \<or> \<not> isdigit (hd rest)"
  shows "dec_scan (dec_string n @ rest) = (1, n, length (dec_string n))"
proof -
  obtain d ds where d: "dec_string n = d # ds" by (cases "dec_string n") auto
  then have "isdigit d" using dec_string_digits [of d n] by simp
  then have nd: "\<not> isspace d" "d \<noteq> CHR ''-''" "d \<noteq> CHR ''+''"
    by (auto simp: isdigit_def isspace_def less_eq_char_def)
  have tw: "takeWhile isdigit (dec_string n @ rest) = dec_string n"
    using assms dec_string_digits by (cases rest) (auto simp: takeWhile_append)
  have ws: "takeWhile isspace (dec_string n @ rest) = []" using nd d by simp
  show ?thesis
    unfolding dec_scan_def Let_def ws using nd d tw dec_string_value [of n] by simp
qed

end
