(* ===== verification/TarRead.thy ===== *)
theory TarRead
  imports TarWrite
begin

text \<open>
  Decoding a ustar record into a member header: the part of \<open>i_taru_read_in_tar_header2\<close>
  (\<open>swsupplib/taru/otar.c\<close>) that follows the reading of the record, and the loop that guards it.
\<close>

text \<open>The number at an offset, as \<open>taru_otoul\<close> and \<open>taru_otoumax\<close> leave it.\<close>

definition read_num :: "block \<Rightarrow> int \<Rightarrow> 64 word option" where
  "read_num hdr off = map_option (\<lambda>s. snd (taru_otoumax s)) (c_string_at hdr off)"

text \<open>The id of an owner: looked up by name unless the header's ids are to be retained or the name is
  not known.\<close>

definition read_owner_id ::
  "(dbcache \<Rightarrow> string \<Rightarrow> (int \<times> 32 word option \<times> dbcache) option) \<Rightarrow> dbcache \<Rightarrow> bool \<Rightarrow> string \<Rightarrow>
   block \<Rightarrow> int \<Rightarrow> (64 word \<times> dbcache) option" where
  "read_owner_id byname c retain name hdr off =
     (if retain then map_option (\<lambda>v. (v, c)) (read_num hdr off)
      else do {
        (ret, pid, c) \<leftarrow> byname c name;
        if ret = 0 then map_option (\<lambda>p. (ucast p, c)) pid
        else map_option (\<lambda>v. (v, c)) (read_num hdr off) })"

text \<open>The switch on the type flag.\<close>

definition read_typeflag :: "block \<Rightarrow> new_cpio_header \<Rightarrow> new_cpio_header option" where
  "read_typeflag hdr h =
     (let t = hdr ! 156;
          link = field_chars hdr THB_BO_linkname TARLINKNAMESIZE;
          type_bits = (\<lambda>h f. h\<lparr>c_mode := or (c_mode h) f\<rparr>);
          no_data = (\<lambda>h. h\<lparr>c_filesize := 0\<rparr>)
      in if t = DIRTYPE then Some (type_bits h CP_IFDIR)
         else if t = CHRTYPE then Some (no_data (ahsStaticSetTarLinkname (type_bits h CP_IFCHR) (Some link)))
         else if t = BLKTYPE then Some (no_data (ahsStaticSetTarLinkname (type_bits h CP_IFBLK) (Some link)))
         else if t = FIFOTYPE then Some (no_data (ahsStaticSetTarLinkname (type_bits h CP_IFIFO) (Some link)))
         else if t = SYMTYPE then
           (let h = type_bits h CP_IFLNK;
                h = (if and (extHeader_usage_maskM h) TARU_EHUM_LINKPATH = 0
                     then ahsStaticSetTarLinkname h (Some link) else h)
            in Some (no_data h))
         else if t = LNKTYPE then Some (no_data (ahsStaticSetTarLinkname (type_bits h CP_IFREG) (Some link)))
         else if t = AREGTYPE then
           (let name = ahsStaticGetTarFilename h
            in if name = [] then None
               else Some (type_bits h (if last name = CHR ''/'' then CP_IFDIR else CP_IFREG)))
         else Some (type_bits h CP_IFREG))"

definition decode_tar_header ::
  "owners \<Rightarrow> tarflags \<Rightarrow> block \<Rightarrow> new_cpio_header \<Rightarrow> (new_cpio_header \<times> owners) option" where
  "decode_tar_header w flags hdr h = do {
     let tmpname = (if and (extHeader_usage_maskM h) TARU_EHUM_PATH = 0 then Some (taru_dup_tar_name hdr) else None);
     let h = (case tmpname of Some n \<Rightarrow> ahsStaticSetTarFilename h (Some n) | None \<Rightarrow> h);
     let h = h\<lparr>c_namesize := of_nat (length (ahsStaticGetTarFilename h)) + 1\<rparr>;
     let h = h\<lparr>c_nlink := (if hdr ! 156 = LNKTYPE then 2 else 1)\<rparr>;
     mode \<leftarrow> read_num hdr THB_BO_mode;
     let h = h\<lparr>c_mode := and mode 0xFFF\<rparr>;
     uname \<leftarrow> c_string_at hdr THB_BO_uname;
     let h = ahsStaticSetTarUsername h (Some uname);
     (uid, uc) \<leftarrow> read_owner_id (taru_get_uid_by_name (userdb w)) (usercache w)
       (flag_set flags TARU_TAR_RETAIN_HEADER_IDS) uname hdr THB_BO_uid;
     let h = h\<lparr>c_uid := uid\<rparr>;
     _ \<leftarrow> taru_set_filetype_from_tartype (hdr ! 156) (c_mode h) tmpname;
     let h = h\<lparr>c_is_tar_lnktype := (if hdr ! 156 = LNKTYPE then 1 else 0)\<rparr>;
     gname \<leftarrow> c_string_at hdr THB_BO_gname;
     let h = ahsStaticSetTarGroupname h (Some gname);
     (gid, gc) \<leftarrow> read_owner_id (taru_get_gid_by_name (groupdb w)) (groupcache w)
       (flag_set flags TARU_TAR_RETAIN_HEADER_IDS) gname hdr THB_BO_gid;
     let h = h\<lparr>c_gid := gid\<rparr>;
     filesize \<leftarrow> read_num hdr THB_BO_size;
     mtime \<leftarrow> read_num hdr THB_BO_mtime;
     maj \<leftarrow> read_num hdr THB_BO_devmajor;
     min \<leftarrow> read_num hdr THB_BO_devminor;
     let h = h\<lparr>c_filesize := filesize, c_mtime := mtime, c_rdev_maj := maj, c_rdev_min := min\<rparr>;
     h \<leftarrow> read_typeflag hdr h;
     Some (h, w\<lparr>usercache := uc, groupcache := gc\<rparr>) }"

text \<open>The loop around the decoding. On a wrong checksum it shifts \<open>tar_rec\<close> by one byte and reads
  another one into it, but goes on looking at \<open>tar_hdr\<close>, which points to the read buffer.
  \<open>input\<close> are the bytes that follow on the descriptor; the result is the returned number with
  the header, \<open>Inl\<close> for an error return.\<close>

partial_function (option) read_tar_header_loop ::
  "owners \<Rightarrow> tarflags \<Rightarrow> bool \<Rightarrow> block \<Rightarrow> block \<Rightarrow> char list \<Rightarrow> nat \<Rightarrow> new_cpio_header \<Rightarrow>
   (int + new_cpio_header \<times> owners \<times> nat) option" where
  "read_tar_header_loop w flags from_buffer tar_hdr tar_rec input skipped h = do {
     chksum \<leftarrow> read_num tar_hdr THB_BO_chksum;
     sum \<leftarrow> taru_tar_checksum tar_hdr;
     let h = h\<lparr>c_chksum := chksum\<rparr>;
     if chksum \<noteq> sum then
       (if \<not> from_buffer then
          (if flag_set flags TARU_TAR_FRAGILE_FORMAT then Some (Inl (- 2))
           else read_tar_header_loop w flags from_buffer tar_hdr
                  (tl tar_rec @ take 1 input) (drop 1 input) (skipped + 1) h)
        else Some (Inl (- 3)))
     else do {
       (h, w) \<leftarrow> decode_tar_header w flags tar_hdr h;
       if skipped > 0 \<and> flag_set flags TARU_TAR_FRAGILE_FORMAT then Some (Inl (- 4))
       else Some (Inr (h, w, skipped)) } }"

text \<open>Whatever the loop returns, it stopped at the record it was given.\<close>

definition stops :: "tarflags \<Rightarrow> bool \<Rightarrow> block \<Rightarrow> bool" where
  "stops flags from_buffer tar_hdr \<longleftrightarrow>
     from_buffer \<or> flag_set flags TARU_TAR_FRAGILE_FORMAT \<or> read_num tar_hdr THB_BO_chksum = taru_tar_checksum tar_hdr"

lemma loop_stops:
  "read_tar_header_loop w flags fb tar_hdr tar_rec input skipped h = Some r \<Longrightarrow> stops flags fb tar_hdr"
proof (induction rule: read_tar_header_loop.raw_induct [rotated, consumes 1])
  case (1 loop w flags fb tar_hdr tar_rec input skipped h r)
  show ?case
  proof (cases "fb \<or> flag_set flags TARU_TAR_FRAGILE_FORMAT \<or> read_num tar_hdr THB_BO_chksum = taru_tar_checksum tar_hdr")
    case False
    with 1(2) obtain i2 n2 h2 where "loop w flags fb tar_hdr (tl tar_rec @ take 1 input) i2 n2 h2 = Some r"
      by (fastforce simp: bind_iff Let_def split: if_splits)
    then show ?thesis by (rule 1(1))
  qed (simp add: stops_def)
qed

text \<open>C38: a record with a wrong checksum read from a descriptor makes the loop run for ever, whatever
  follows in the archive.\<close>

theorem bad_checksum_never_returns:
  assumes "read_num tar_hdr THB_BO_chksum = Some c" "taru_tar_checksum tar_hdr = Some s" "c \<noteq> s"
    "\<not> flag_set flags TARU_TAR_FRAGILE_FORMAT"
  shows "read_tar_header_loop w flags False tar_hdr tar_rec input skipped h = None"
  using loop_stops [of w flags False tar_hdr tar_rec input skipped h] assms
  by (cases "read_tar_header_loop w flags False tar_hdr tar_rec input skipped h") (auto simp: stops_def)

section \<open>What is written is read back\<close>

lemma fld_split: "off + n \<le> length b \<Longrightarrow> drop off b = fld b off n @ drop (off + n) b"
  by (simp add: fld_def add.commute flip: drop_drop)

lemma NUL_tail:
  assumes "length b = 512" "fld b 500 12 = replicate 12 NUL" "off \<le> 511"
  shows "NUL \<in> set (drop off b)"
proof -
  have "drop 500 b = replicate 12 NUL" using assms(1,2) by (simp add: fld_def)
  then have "b ! 511 = NUL" using assms(1) nth_drop [of 500 b 11] by simp
  then have "drop off b ! (511 - off) = NUL" "511 - off < length (drop off b)" using assms by simp_all
  then show ?thesis by (metis nth_mem)
qed

lemma c_string_at_cstr:
  assumes "NUL \<in> set (drop off b)"
  shows "c_string_at b (int off) = Some (cstr (drop off b))"
proof -
  have "off < length b" using assms by (cases "off < length b") auto
  then show ?thesis using assms by (simp add: c_string_at_def c_strlen_def cstr_prefix_take)
qed

lemma cstr_append: "c_string s \<Longrightarrow> cstr (s @ b) = s @ cstr b"
  by (simp add: cstr_def c_string_def takeWhile_append)

lemma read_num_at:
  assumes len: "length b = 512" "fld b 500 12 = replicate 12 NUL"
    and f: "fld b off (Suc n) = octal_digits x n @ [c]" "c = NUL \<or> c = CHR '' ''" "x < 8 ^ n" "0 < n" "off + n < 511"
  shows "read_num b (int off) = Some (of_nat x)"
proof -
  let ?r = "drop (off + Suc n) b"
  have "drop off b = (octal_digits x n @ [c]) @ ?r"
    using fld_split [of off "Suc n" b] f(1,5) len(1) by simp
  then have d: "drop off b = octal_digits x n @ c # ?r" by simp
  have "c_string_at b (int off) = Some (octal_digits x n @ cstr (c # ?r))"
    using c_string_at_cstr [OF NUL_tail [OF len, of off]] f(5) by (simp add: d cstr_append)
  moreover have "cstr (c # ?r) = [] \<or> \<not> isodigit (hd (cstr (c # ?r)))"
    using f(2) by (auto simp: cstr_def isodigit_def less_eq_char_def)
  ultimately show ?thesis using otoumax_octal_digits [OF f(4)] f(3) by (simp add: read_num_def)
qed

lemma read_num_written:
  assumes "written b h fl user grp" "num_at b off n x" "x < 8 ^ (n - 1)" "2 \<le> n" "off + n < 511"
  shows "read_num b (int off) = Some (of_nat x)"
proof -
  obtain c where "fld b off n = octal_digits x (n - 1) @ [c]" "c = NUL \<or> c = CHR '' ''"
    using assms(2) by (auto simp: num_at_def)
  then show ?thesis
    using assms read_num_at [of b off "n - 1" x c] by (simp add: written_def)
qed

lemma read_name_written:
  assumes "written b h fl user grp" "fld b off 32 = strncpy_bytes s 32" "c_string s" "length s \<le> 31" "off + 32 < 511"
  shows "c_string_at b (int off) = Some s"
proof -
  have w: "length b = 512" "fld b 500 12 = replicate 12 NUL" using assms(1) by (simp_all add: written_def)
  obtain k where k: "32 - length s = Suc k" using assms(4) by (cases "32 - length s") auto
  have "strncpy_bytes s 32 = s @ NUL # replicate k NUL"
    using assms(4) k by (simp add: strncpy_bytes_def)
  then have "cstr (drop off b) = s"
    using fld_split [of off 32 b] assms(2,3,5) w(1) by simp
  then show ?thesis using c_string_at_cstr [OF NUL_tail [OF w, of off]] assms(5) by simp
qed

text \<open>What a reader must get back from a written header: the name, the permissions and the type, the ids and
  names of the owner, the size of the data that follows, the time, the link and the device.\<close>

definition same_member :: "new_cpio_header \<Rightarrow> new_cpio_header \<Rightarrow> string \<Rightarrow> string \<Rightarrow> bool" where
  "same_member h' h user grp \<longleftrightarrow>
     c_mode h' = or (and (c_mode h) 0xFFF) (file_type h) \<and>
     c_uid h' = c_uid h \<and> c_gid h' = c_gid h \<and>
     ahsStaticGetTarUsername h' = user \<and> ahsStaticGetTarGroupname h' = grp \<and>
     c_mtime h' = c_mtime h \<and>
     c_filesize h' = (if tarflag h \<in> {REGTYPE, DIRTYPE} then c_filesize h else 0) \<and>
     (tarflag h \<in> {CHRTYPE, BLKTYPE} \<longrightarrow> c_rdev_maj h' = c_rdev_maj h \<and> c_rdev_min h' = c_rdev_min h) \<and>
     c_is_tar_lnktype h' = (if tarflag h = LNKTYPE then 1 else 0)"

definition read_back :: "new_cpio_header \<Rightarrow> new_cpio_header \<Rightarrow> tarflags \<Rightarrow> string \<Rightarrow> string \<Rightarrow> bool" where
  "read_back h' h fl user grp \<longleftrightarrow>
     ahsStaticGetTarFilename h' = header_member_name h fl \<and>
     (tarflag h \<in> {LNKTYPE, SYMTYPE} \<longrightarrow> ahsStaticGetTarLinkname h' = ahsStaticGetTarLinkname h) \<and>
     same_member h' h user grp"

lemma mode_perms: "and (of_nat (mode_written h fl)) 0xFFF = and (c_mode h) 0xFFF"
  by (simp add: mode_written_def and.assoc)

lemma mode_written_less: "unat (c_mode h) < 8 ^ 7 \<Longrightarrow> mode_written h fl < 8 ^ 7"
proof -
  have "and (c_mode h) 0xFFF \<le> c_mode h" by (rule word_and_le2)
  then have "unat (and (c_mode h) 0xFFF) \<le> unat (c_mode h)" by (simp add: word_le_nat_alt)
  then show "unat (c_mode h) < 8 ^ 7 \<Longrightarrow> mode_written h fl < 8 ^ 7" by (auto simp: mode_written_def)
qed

text \<open>The reads of the fields of a written header.\<close>

lemma written_reads:
  assumes ok: "ustar_ok h fl user grp" and w: "written b h fl user grp" and num: "\<not> flag_set fl TARU_TAR_NUMERIC_UIDS"
  shows "read_num b 100 = Some (of_nat (mode_written h fl))"
    "read_num b 108 = Some (c_uid h)" "read_num b 116 = Some (c_gid h)"
    "read_num b 124 = Some (of_nat (size_written h))" "read_num b 136 = Some (c_mtime h)"
    "c_string_at b 265 = Some user" "c_string_at b 297 = Some grp" "b ! 156 = tarflag h"
    "field_chars b 157 100 = link_written h"
proof -
  have o: "unat (c_mode h) < 8 ^ 7" "unat (c_uid h) < 8 ^ 7" "unat (c_gid h) < 8 ^ 7"
    "unat (c_filesize h) < 8 ^ 11" "unat (c_mtime h) < 8 ^ 11" "c_string user" "length user \<le> 31"
    "c_string grp" "length grp \<le> 31" "c_string (ahsStaticGetTarLinkname h)" "length (ahsStaticGetTarLinkname h) \<le> 100"
    using ok by (auto simp: ustar_ok_def Let_def)
  have f: "num_at b 100 8 (mode_written h fl)" "num_at b 108 8 (unat (c_uid h))" "num_at b 116 8 (unat (c_gid h))"
    "num_at b 124 12 (size_written h)" "num_at b 136 12 (unat (c_mtime h))"
    "fld b 265 32 = strncpy_bytes user 32" "fld b 297 32 = strncpy_bytes grp 32" "fld b 156 1 = [tarflag h]"
    "fld b 157 100 = strncpy_bytes (link_written h) 100" "length b = 512"
    using w num by (simp_all add: written_def)
  note rn = read_num_written [OF w]
  show "read_num b 100 = Some (of_nat (mode_written h fl))" using rn [OF f(1)] mode_written_less [OF o(1)] by simp
  show "read_num b 108 = Some (c_uid h)" "read_num b 116 = Some (c_gid h)"
    using rn [OF f(2)] rn [OF f(3)] o by simp_all
  show "read_num b 124 = Some (of_nat (size_written h))" using rn [OF f(4)] o(4) by (simp add: size_written_def)
  show "read_num b 136 = Some (c_mtime h)" using rn [OF f(5)] o by simp
  show "c_string_at b 265 = Some user" "c_string_at b 297 = Some grp"
    using read_name_written [OF w f(6)] read_name_written [OF w f(7)] o by simp_all
  show "b ! 156 = tarflag h" using f(8,10) by (auto simp: fld_def take_Suc hd_drop_conv_nth)
  have "c_string (link_written h)" "length (link_written h) \<le> 100"
    using o(10,11) by (auto simp: link_written_def c_string_def)
  then show "field_chars b 157 100 = link_written h" using f(9) by (simp add: field_chars_fld)
qed

lemma written_devices:
  assumes w: "written b h fl user grp"
  obtains x y where "read_num b 329 = Some x" "read_num b 337 = Some y"
    "ustar_ok h fl user grp \<Longrightarrow> tarflag h \<in> {CHRTYPE, BLKTYPE} \<Longrightarrow> x = c_rdev_maj h \<and> y = c_rdev_min h"
proof -
  have len: "length b = 512" "fld b 500 12 = replicate 12 NUL" using w by (simp_all add: written_def)
  have "NUL \<in> set (drop 329 b)" "NUL \<in> set (drop 337 b)" using NUL_tail [OF len] by simp_all
  from this [THEN c_string_at_cstr]
  obtain x y where xy: "read_num b 329 = Some x" "read_num b 337 = Some y" by (simp add: read_num_def)
  moreover have "x = c_rdev_maj h \<and> y = c_rdev_min h"
    if ok: "ustar_ok h fl user grp" and t: "tarflag h \<in> {CHRTYPE, BLKTYPE}"
  proof -
    have n: "num_at b 329 8 (unat (c_rdev_maj h))" "num_at b 337 8 (unat (c_rdev_min h))"
      using w t by (auto simp: written_def)
    have "unat (c_rdev_maj h) < 8 ^ 7" "unat (c_rdev_min h) < 8 ^ 7" using ok by (auto simp: ustar_ok_def)
    then show ?thesis using read_num_written [OF w n(1)] read_num_written [OF w n(2)] xy by simp
  qed
  ultimately show thesis by (rule that)
qed

lemma taru_set_filetype_some: "c \<noteq> AREGTYPE \<Longrightarrow> \<exists>r. taru_set_filetype_from_tartype c m n = Some r"
  by (simp add: taru_set_filetype_from_tartype_def Let_def)

text \<open>Whether the link name of the record is left aside: a regular file or directory has none, and an
  extended header may have set that of a symbolic link.\<close>

definition keeps_link :: "new_cpio_header \<Rightarrow> 32 word \<Rightarrow> bool" where
  "keeps_link h usage \<longleftrightarrow> tarflag h \<in> {REGTYPE, DIRTYPE} \<or> tarflag h = SYMTYPE \<and> and usage TARU_EHUM_LINKPATH \<noteq> 0"

lemma read_typeflag_tarflag:
  assumes t: "hdr ! 156 = tarflag h" and l: "field_chars hdr 157 100 = link_written h"
    and ok: "ustar_ok h fl user grp"
  shows "read_typeflag hdr g = Some (g\<lparr>c_mode := or (c_mode g) (file_type h),
     c_filesize := (if tarflag h \<in> {REGTYPE, DIRTYPE} then c_filesize g else 0),
     c_tar_linkname := (if keeps_link h (extHeader_usage_maskM g) then c_tar_linkname g else Some (link_written h))\<rparr>)"
proof -
  have ft: "file_type h \<in> {CP_IFREG, CP_IFDIR, CP_IFCHR, CP_IFBLK, CP_IFIFO, CP_IFLNK}"
    and len: "length (link_written h) \<le> 100"
    using ok by (auto simp: ustar_ok_def link_written_def)
  have set: "ahsStaticSetTarLinkname x (Some (link_written h)) = x\<lparr>c_tar_linkname := Some (link_written h)\<rparr>" for x
    using len by (simp add: ahs_name_defs TARLINKNAMESIZE_def)
  consider "file_type h = CP_IFREG" "tarflag h = REGTYPE" | "file_type h = CP_IFREG" "tarflag h = LNKTYPE"
    | "file_type h = CP_IFDIR" "tarflag h = DIRTYPE" | "file_type h = CP_IFCHR" "tarflag h = CHRTYPE"
    | "file_type h = CP_IFBLK" "tarflag h = BLKTYPE" | "file_type h = CP_IFIFO" "tarflag h = FIFOTYPE"
    | "file_type h = CP_IFLNK" "tarflag h = SYMTYPE"
    using ft by (cases "ahsStaticGetTarLinkname h = []") (auto simp: tarflag_def)
  then show ?thesis
    by cases (simp_all add: read_typeflag_def t l keeps_link_def set TARLINKNAMESIZE_def)
qed

text \<open>With the ids of the header retained the owners are not looked up.\<close>

lemma read_owner_id_retain: "read_owner_id byname c True name hdr off = map_option (\<lambda>v. (v, c)) (read_num hdr off)"
  by (simp add: read_owner_id_def)

lemma decode_written_over:
  assumes ok: "ustar_ok h fl user grp" and w: "written b h fl user grp" and num: "\<not> flag_set fl TARU_TAR_NUMERIC_UIDS"
    and r: "flag_set rfl TARU_TAR_RETAIN_HEADER_IDS"
  obtains h' where "decode_tar_header v rfl b h0 = Some (h', v)" "same_member h' h user grp"
    "ahsStaticGetTarFilename h' =
      (if and (extHeader_usage_maskM h0) TARU_EHUM_PATH = 0 then header_member_name h fl else ahsStaticGetTarFilename h0)"
    "ahsStaticGetTarLinkname h' =
      (if keeps_link h (extHeader_usage_maskM h0) then ahsStaticGetTarLinkname h0 else link_written h)"
    "extHeader_usage_maskM h' = extHeader_usage_maskM h0" "extattlistM h' = extattlistM h0"
proof -
  note rd = written_reads [OF ok w num]
  obtain x y where xy: "read_num b 329 = Some x" "read_num b 337 = Some y"
    "tarflag h \<in> {CHRTYPE, BLKTYPE} \<Longrightarrow> x = c_rdev_maj h \<and> y = c_rdev_min h"
    using written_devices [OF w] ok by metis
  have nm: "taru_dup_tar_name b = header_member_name h fl" using w by (simp add: written_def)
  have "tarflag h \<noteq> AREGTYPE" by (auto simp: tarflag_def split: if_splits)
  note ft = taru_set_filetype_some [OF this]
  have same: "v\<lparr>usercache := usercache v, groupcache := groupcache v\<rparr> = v" by (cases v) simp
  define g0 where "g0 = (if and (extHeader_usage_maskM h0) TARU_EHUM_PATH = 0
    then ahsStaticSetTarFilename h0 (Some (header_member_name h fl)) else h0)"
  have g0: "extHeader_usage_maskM g0 = extHeader_usage_maskM h0" "c_tar_linkname g0 = c_tar_linkname h0"
    "ahsStaticGetTarFilename g0 = (if and (extHeader_usage_maskM h0) TARU_EHUM_PATH = 0
      then header_member_name h fl else ahsStaticGetTarFilename h0)" "extattlistM g0 = extattlistM h0"
    by (simp_all add: g0_def ahs_name_defs)
  let ?g = "g0\<lparr>c_namesize := of_nat (length (ahsStaticGetTarFilename g0)) + 1,
    c_nlink := (if tarflag h = LNKTYPE then 2 else 1), c_mode := and (c_mode h) 0xFFF, c_username := Some user,
    c_uid := c_uid h, c_is_tar_lnktype := (if tarflag h = LNKTYPE then 1 else 0), c_groupname := Some grp,
    c_gid := c_gid h, c_filesize := of_nat (size_written h), c_mtime := c_mtime h, c_rdev_maj := x, c_rdev_min := y\<rparr>"
  have d: "decode_tar_header v rfl b h0 = map_option (\<lambda>h'. (h', v)) (read_typeflag b ?g)"
  proof (cases "and (extHeader_usage_maskM h0) TARU_EHUM_PATH = 0")
    case True
    obtain p where "taru_set_filetype_from_tartype (tarflag h) (and (c_mode h) 0xFFF) (Some (header_member_name h fl)) = Some p"
      using ft by blast
    then show ?thesis using True r
      by (simp add: decode_tar_header_def rd nm read_owner_id_retain mode_perms xy ahs_name_defs same
        map_conv_bind_option o_def g0_def)
  next
    case False
    obtain p where "taru_set_filetype_from_tartype (tarflag h) (and (c_mode h) 0xFFF) None = Some p"
      using ft by blast
    then show ?thesis using False r
      by (simp add: decode_tar_header_def rd nm read_owner_id_retain mode_perms xy ahs_name_defs same
        map_conv_bind_option o_def g0_def)
  qed
  have sz: "of_nat (size_written h) = c_filesize h" if "tarflag h \<in> {REGTYPE, DIRTYPE}"
    using that by (auto simp: size_written_def)
  let ?r = "?g\<lparr>c_mode := or (c_mode ?g) (file_type h),
     c_filesize := (if tarflag h \<in> {REGTYPE, DIRTYPE} then c_filesize ?g else 0),
     c_tar_linkname := (if keeps_link h (extHeader_usage_maskM ?g) then c_tar_linkname ?g else Some (link_written h))\<rparr>"
  have rt: "read_typeflag b ?g = Some ?r" by (rule read_typeflag_tarflag [OF rd(8,9) ok])
  have "same_member ?r h user grp"
    unfolding same_member_def
  proof (intro conjI impI)
    show "c_filesize ?r = (if tarflag h \<in> {REGTYPE, DIRTYPE} then c_filesize h else 0)"
      using sz by simp
    show "c_rdev_maj ?r = c_rdev_maj h" "c_rdev_min ?r = c_rdev_min h" if "tarflag h \<in> {CHRTYPE, BLKTYPE}"
      using xy(3) [OF that] by simp_all
  qed (simp_all add: ahs_name_defs)
  moreover have "decode_tar_header v rfl b h0 = Some (?r, v)" unfolding d rt by simp
  ultimately show thesis using g0 by (intro that [of ?r]) (simp_all add: ahs_name_defs)
qed

lemma decode_written:
  assumes "ustar_ok h fl user grp" "written b h fl user grp" "\<not> flag_set fl TARU_TAR_NUMERIC_UIDS"
    "flag_set rfl TARU_TAR_RETAIN_HEADER_IDS" "extHeader_usage_maskM h0 = 0"
  obtains h' where "decode_tar_header v rfl b h0 = Some (h', v)" "read_back h' h fl user grp"
proof -
  obtain h' where h': "decode_tar_header v rfl b h0 = Some (h', v)" "same_member h' h user grp"
    "ahsStaticGetTarFilename h' = header_member_name h fl"
    "ahsStaticGetTarLinkname h' = (if keeps_link h 0 then ahsStaticGetTarLinkname h0 else link_written h)"
    using assms(5) by (auto intro: decode_written_over [OF assms(1-4), of v h0])
  have "link_written h = ahsStaticGetTarLinkname h" if "tarflag h \<in> {LNKTYPE, SYMTYPE}"
    using that by (simp add: link_written_def tarflag_def split: if_splits)
  then have "read_back h' h fl user grp" using h'(2-) by (auto simp: read_back_def keeps_link_def)
  then show thesis using h'(1) by (rule that [rotated])
qed

text \<open>The record that is written has the right checksum.\<close>

lemma write_header_accepted:
  assumes "ustar_ok h fl user grp" "\<not> do_record_headerM taru"
  obtains hdr taru' s where "taru_write_out_tar_header2 w taru h None (Some user) (Some grp) fl = Some (512, hdr, w, taru')"
    "written hdr h fl user grp" "read_num hdr 148 = Some s" "taru_tar_checksum hdr = Some s"
proof -
  obtain hdr taru' where w: "taru_write_out_tar_header2 w taru h None (Some user) (Some grp) fl = Some (512, hdr, w, taru')"
    "written hdr h fl user grp"
    and sum: "\<exists>n c v. (n = 6 \<or> n = 7) \<and> (c = NUL \<or> c = CHR '' '') \<and> fld hdr 148 (n + 1) = octal_digits (unat v) n @ [c] \<and>
       taru_tar_checksum hdr = Some v \<and> unat v < 8 ^ 6"
    by (rule write_header_written [OF assms(1), of taru w]) (use assms(2) in auto)
  obtain n c s where s: "n = 6 \<or> n = 7" "c = NUL \<or> c = CHR '' ''" "fld hdr 148 (Suc n) = octal_digits (unat s) n @ [c]"
    "taru_tar_checksum hdr = Some s" "unat s < 8 ^ 6"
    using sum by auto
  have len: "length hdr = 512" "fld hdr 500 12 = replicate 12 NUL" using w(2) by (simp_all add: written_def)
  have "unat s < 8 ^ n" using s(1,5) by auto
  then have "read_num hdr 148 = Some s" using read_num_at [OF len s(3,2)] s(1) by auto
  then show thesis using that w s(4) by blast
qed



section \<open>The properties at concrete inputs\<close>

definition sample_header :: new_cpio_header where
  "sample_header = fresh_header\<lparr>c_name := Some ''usr/bin/sw'', c_mode := 0x81A4, c_filesize := 1234, c_cu := 0, c_cg := 0\<rparr>"

lemma sample_header_ok: "ustar_ok sample_header 0 ''root'' ''root''"
proof -
  have "taru_is_tar_filename_too_long ''usr/bin/sw'' 0 False = (0, 0)" by code_simp
  then show ?thesis
    by (simp add: ustar_ok_def sample_header_def header_member_name_def c_string_def
      ahsStaticGetTarFilename_def ahsStaticGetTarLinkname_def ahsStaticGetTarname_i_def GNU_LONG_LINK_def)
qed


theorem bad_checksum_never_returns_witness:
  "\<forall>w tar_rec input skipped h.
     read_tar_header_loop w 0 False (replicate 148 CHR ''a'' @ replicate 364 NUL) tar_rec input skipped h = None"
proof -
  have "read_num (replicate 148 CHR ''a'' @ replicate 364 NUL) THB_BO_chksum = Some 0"
    by (simp add: read_num_def c_string_at_def c_strlen_def cstr_def taru_otoumax_def)
  moreover have "taru_tar_checksum (replicate 148 CHR ''a'' @ replicate 364 NUL) = Some 14612"
    by (simp add: taru_tar_checksum_def byte_sum_def sum_list_replicate)
  ultimately show ?thesis by (intro allI bad_checksum_never_returns) (auto simp: flag_set_def)
qed

end
