(* ===== verification/PaxRecords.thy ===== *)
theory PaxRecords
  imports Pax TarRead
begin

text \<open>
  The records of pax extended headers: what \<open>construct_exthdr_record\<close> writes, and that
  \<open>taru_read_ext_header_record\<close> reads it back.
\<close>

section \<open>Writing one record\<close>

definition rec_length :: "string \<Rightarrow> char list \<Rightarrow> nat" where
  "rec_length kw v = nat (get_ilen (int (length kw + length v) + 3))"

definition rec_bytes :: "string \<Rightarrow> char list \<Rightarrow> char list" where
  "rec_bytes kw v = dec_string (rec_length kw v) @ '' '' @ kw @ ''='' @ v @ [CHR 0x0A]"

lemma rec_length_ok:
  assumes "int (length kw + length v) < 2 ^ 31"
  shows "length (rec_bytes kw v) = rec_length kw v" "get_ilen (int (length kw + length v) + 3) = int (rec_length kw v)"
    "length kw + length v + 3 < rec_length kw v" "rec_length kw v \<le> length kw + length v + 94"
    "length (dec_string (rec_length kw v)) \<le> 91"
proof -
  let ?r = "int (length kw + length v) + 3"
  have "?r < 2 ^ 32" using assms by simp
  also have "(2 :: int) ^ 32 < 10 ^ 90" by simp
  finally have r: "0 < ?r" "?r < 10 ^ 90" by simp_all
  note f = get_ilen_fixpoint [OF r]
  show e: "get_ilen ?r = int (rec_length kw v)" using f by (simp add: rec_length_def)
  have "int (length (dec_string (rec_length kw v))) = get_ilen ?r - ?r"
    using f by (simp add: length_dec_string flip: e)
  then show "length (rec_bytes kw v) = rec_length kw v" "length (dec_string (rec_length kw v)) \<le> 91"
    using f e by (simp_all add: rec_bytes_def)
  show "length kw + length v + 3 < rec_length kw v" "rec_length kw v \<le> length kw + length v + 94"
    using f e by auto
qed

text \<open>What is needed of a buffer for \<open>k\<close> more records that end before the byte \<open>T\<close>.\<close>

definition pax_room :: "strob \<Rightarrow> nat \<Rightarrow> int \<Rightarrow> bool" where
  "pax_room buf k T \<longleftrightarrow> max (sb_reserve buf) (T + 1 + sb_extra buf) + int k * (128 + sb_extra buf) + sb_extra buf < INT_LIMIT"

lemma dec_string_c_string [simp]: "c_string (dec_string n)"
  unfolding c_string_def using dec_string_digits [of NUL n] by (auto simp: isdigit_def less_eq_char_def)

lemma construct_exthdr_record_ok:
  assumes buf: "strob_bytes buf bs" "int (length bs) < sb_reserve buf" and room: "pax_room buf (Suc k) T"
    and kw: "c_string kw" "length kw \<le> 30" and v31: "int (length kw + length v) < 2 ^ 31" and T: "int (length bs + rec_length kw v) \<le> T"
  shows "\<exists>buf'. construct_exthdr_record buf (int (length bs)) kw v = Some (buf', int (rec_length kw v)) \<and>
     strob_bytes buf' (bs @ rec_bytes kw v) \<and> int (length (bs @ rec_bytes kw v)) < sb_reserve buf' \<and>
     sb_extra buf' = sb_extra buf \<and> pax_room buf' k T"
proof -
  let ?r = "rec_length kw v"
  let ?out = "dec_string ?r @ '' '' @ kw @ ''=''"
  have T0: "0 \<le> T" and ex: "0 \<le> sb_extra buf" "0 \<le> sb_reserve buf"
    using T buf by (auto elim: strob_bytesE)
  define K where "K = int k * (128 + sb_extra buf)"
  have K: "0 \<le> K" "int (Suc k) * (128 + sb_extra buf) = K + 128 + sb_extra buf"
    using ex by (simp_all add: K_def distrib_right)
  have room': "sb_reserve buf + 128 + 2 * sb_extra buf + K < INT_LIMIT" "T + 129 + 3 * sb_extra buf + K < INT_LIMIT"
    using room unfolding pax_room_def K(2) by (simp_all add: max_def split: if_splits)
  note r = rec_length_ok [OF v31]
  have out: "c_string ?out" "length ?out \<le> 128" "length ?out + length v + 1 = ?r"
    using kw r by (auto simp: c_string_def [of "_ @ _"] c_string_def [of kw] rec_bytes_def)
  obtain s1 b1 where s1: "strob_sprintf_at buf (int (length bs)) ?out = Some (s1, int (length ?out))"
    "strob_bytes s1 (bs @ ?out)" "sb_str s1 = Some b1" "c_strlen b1 (int (length bs)) = Some (int (length ?out))"
    "sb_extra s1 = sb_extra buf" "sb_reserve s1 \<le> sb_reserve buf + 128 + sb_extra buf"
    by (rule strob_sprintf_at_bytes [OF buf out(1,2)]) (use room' ex K(1) in \<open>auto simp: strob_room_def\<close>)
  obtain s2 where s2: "strob_memcpy_at s1 (int (length (bs @ ?out))) v = Some s2" "strob_bytes s2 ((bs @ ?out) @ v)"
    "sb_extra s2 = sb_extra buf" "sb_reserve s2 \<le> max (sb_reserve s1) (int (length ((bs @ ?out) @ v)) + 1 + sb_extra s1)"
    by (rule strob_memcpy_at_bytes [OF s1(2), of v]) (use room' ex K(1) T out(3) s1(5) in \<open>auto simp: strob_room_def\<close>)
  obtain s3 where s3: "strob_memcpy_at s2 (int (length ((bs @ ?out) @ v))) [CHR 0x0A] = Some s3"
    "strob_bytes s3 (((bs @ ?out) @ v) @ [CHR 0x0A])" "int (length (((bs @ ?out) @ v) @ [CHR 0x0A])) < sb_reserve s3"
    "sb_extra s3 = sb_extra buf"
    "sb_reserve s3 \<le> max (sb_reserve s2) (int (length (((bs @ ?out) @ v) @ [CHR 0x0A])) + 1 + sb_extra s2)"
    by (rule strob_memcpy_at_bytes [OF s2(2), of "[CHR 0x0A]"])
      (use room' ex K(1) T out(3) s2(3) in \<open>auto simp: strob_room_def\<close>)
  have bytes: "((bs @ ?out) @ v) @ [CHR 0x0A] = bs @ rec_bytes kw v" by (simp add: rec_bytes_def)
  have len: "int (length (bs @ ?out)) = int (length bs) + int (length ?out)"
    "int (length ((bs @ ?out) @ v)) = int (length bs) + int ?r - 1"
    "1 + int (length kw) + int (length v) + 1 + 1 = int (length kw + length v) + 3"
    "int (length ?out) + int (length v) + 1 = int ?r"
    "int (length (((bs @ ?out) @ v) @ [CHR 0x0A])) = int (length bs) + int ?r"
    using out(3) by simp_all
  have "construct_exthdr_record buf (int (length bs)) kw v = Some (s3, int ?r)"
    unfolding construct_exthdr_record_def Let_def len(3) r(2)
    using s1(1,3,4) s2(1) s3(1) len(4) unfolding len(1,2)
    by (simp add: strob_get_str_def del: length_append)
  moreover have "sb_reserve s3 \<le> max (sb_reserve buf + 128 + sb_extra buf) (T + 1 + sb_extra buf)"
    using s1(5,6) s2(3,4) s3(5) T unfolding len(2,5) by linarith
  then have "pax_room s3 k T" using room' ex unfolding pax_room_def s3(4) K_def [symmetric] by linarith
  ultimately show ?thesis using s3 unfolding bytes by blast
qed

section \<open>Writing the records of a header\<close>

text \<open>The records that are needed, with the values of the unchanged header.\<close>

definition needed :: "new_cpio_header \<Rightarrow> 32 word \<Rightarrow> bool" where
  "needed h flag \<longleftrightarrow> and (extHeader_needs_maskM h) flag \<noteq> 0"

definition header_records :: "new_cpio_header \<Rightarrow> (string \<times> char list) list" where
  "header_records h =
     (if needed h TARU_EHUM_LINKPATH then [(''linkpath'', ahsStaticGetTarLinkname h)] else []) @
     (if needed h TARU_EHUM_PATH then [(''path'', ahsStaticGetTarFilename h)] else []) @
     (if needed h TARU_EHUM_SIZE then [(''size'', dec_string (unat (c_filesize h)))] else []) @
     (if needed h TARU_EHUM_UID then [(''uid'', dec_string (unat (c_uid h)))] else []) @
     (if needed h TARU_EHUM_GID
      then [(''gid'', dec_string (unat (c_gid h)))] else []) @
     (if needed h TARU_EHUM_UNAME then [(''uname'', ahsStaticGetTarUsername h)] else []) @
     (if needed h TARU_EHUM_GNAME then [(''gname'', ahsStaticGetTarGroupname h)] else []) @
     (if needed h TARU_EHUM_DEV_MAJ then [(''SWBIS.devmajor'', dec_string (unat (c_dev_maj h)))] else []) @
     (if needed h TARU_EHUM_DEV_MIN then [(''SWBIS.devminor'', dec_string (unat (c_dev_min h)))] else [])"

definition records_bytes :: "(string \<times> char list) list \<Rightarrow> char list" where
  "records_bytes rs = concat (map (\<lambda>(kw, v). rec_bytes kw v) rs)"

lemma records_bytes_simps [simp]:
  "records_bytes [] = []" "records_bytes ((kw, v) # rs) = rec_bytes kw v @ records_bytes rs"
  "records_bytes (rs @ rs') = records_bytes rs @ records_bytes rs'"
  by (simp_all add: records_bytes_def)

text \<open>The buffer behind the records \<open>rs\<close>, with room for \<open>k\<close> more.\<close>

definition pax_at :: "strob \<Rightarrow> (string \<times> char list) list \<Rightarrow> nat \<Rightarrow> int \<Rightarrow> bool" where
  "pax_at buf rs k T \<longleftrightarrow> strob_bytes buf (records_bytes rs) \<and> int (length (records_bytes rs)) < sb_reserve buf \<and>
     pax_room buf k T"

lemma pax_room_less: "pax_room buf (Suc k) T \<Longrightarrow> 0 \<le> sb_extra buf \<Longrightarrow> pax_room buf k T"
  by (simp add: pax_room_def distrib_right)

lemma exthdr_step_ok:
  assumes "pax_at buf rs (Suc k) T" "c_string kw" "length kw \<le> 30"
    "needed h flag \<Longrightarrow> int (length kw + length (val h)) < 2 ^ 31" "rs' = rs @ (if needed h flag then [(kw, val h)] else [])" "int (length (records_bytes rs')) \<le> T"
  shows "\<exists>buf'. exthdr_step flag kw val sh (h, buf, int (length (records_bytes rs))) =
      Some (if needed h flag then sh h else h, buf', int (length (records_bytes rs'))) \<and> pax_at buf' rs' k T"
proof (cases "needed h flag")
  case False
  have "0 \<le> sb_extra buf" using assms(1) by (auto simp: pax_at_def elim: strob_bytesE)
  then show ?thesis using False assms(1,5) pax_room_less
    by (auto simp: exthdr_step_def needed_def pax_at_def)
next
  case True
  note r = rec_length_ok(1) [OF assms(4) [OF True]]
  have "int (length (records_bytes rs) + rec_length kw (val h)) \<le> T" using assms(5,6) True r by simp
  from construct_exthdr_record_ok [OF _ _ _ assms(2,3) assms(4) [OF True] this, of buf k] assms(1)
  obtain buf' where b: "construct_exthdr_record buf (int (length (records_bytes rs))) kw (val h) =
      Some (buf', int (rec_length kw (val h)))" "strob_bytes buf' (records_bytes rs @ rec_bytes kw (val h))"
    "int (length (records_bytes rs @ rec_bytes kw (val h))) < sb_reserve buf'" "pax_room buf' k T"
    by (auto simp: pax_at_def)
  then show ?thesis using True assms(5) r
    by (auto simp: exthdr_step_def needed_def pax_at_def)
qed

type_synonym ext_field = "32 word \<times> string \<times> (new_cpio_header \<Rightarrow> string) \<times> (new_cpio_header \<Rightarrow> new_cpio_header)"

fun run_fields :: "ext_field list \<Rightarrow> new_cpio_header \<times> strob \<times> int \<Rightarrow> (new_cpio_header \<times> strob \<times> int) option" where
  "run_fields [] st = Some st"
| "run_fields ((flag, kw, val, sh) # fs) st = Option.bind (exthdr_step flag kw val sh st) (run_fields fs)"

fun field_records :: "ext_field list \<Rightarrow> new_cpio_header \<Rightarrow> (string \<times> char list) list" where
  "field_records [] h = []"
| "field_records ((flag, kw, val, sh) # fs) h =
     (if needed h flag then [(kw, val h)] else []) @ field_records fs (if needed h flag then sh h else h)"

fun field_header :: "ext_field list \<Rightarrow> new_cpio_header \<Rightarrow> new_cpio_header" where
  "field_header [] h = h"
| "field_header ((flag, kw, val, sh) # fs) h = field_header fs (if needed h flag then sh h else h)"

lemma field_header_append: "field_header (fs @ gs) h = field_header gs (field_header fs h)"
  by (induction fs h rule: field_header.induct) auto

lemma field_header_invariant:
  assumes "\<forall>(flag, kw, val, sh) \<in> set fs. \<forall>h. g (sh h) = g h"
  shows "g (field_header fs h) = g h"
  using assms by (induction fs h rule: field_header.induct) auto

lemma run_fields_ok:
  assumes "pax_at buf rs (length fs + k) T"
    "\<forall>(flag, kw, val, sh) \<in> set fs. c_string kw \<and> length kw \<le> 30"
    "\<forall>(kw, v) \<in> set (field_records fs h). int (length kw + length v) < 2 ^ 31"
    "int (length (records_bytes (rs @ field_records fs h))) \<le> T"
  shows "\<exists>buf'. run_fields fs (h, buf, int (length (records_bytes rs))) =
     Some (field_header fs h, buf', int (length (records_bytes (rs @ field_records fs h)))) \<and>
     pax_at buf' (rs @ field_records fs h) k T"
  using assms
proof (induction fs arbitrary: h buf rs)
  case Nil
  then show ?case by simp
next
  case (Cons f fs)
  obtain flag kw val sh where f: "f = (flag, kw, val, sh)" by (metis prod_cases4)
  let ?rs = "rs @ (if needed h flag then [(kw, val h)] else [])" and ?h = "if needed h flag then sh h else h"
  have rec: "rs @ field_records (f # fs) h = ?rs @ field_records fs ?h" by (simp add: f)
  have "\<exists>buf'. exthdr_step flag kw val sh (h, buf, int (length (records_bytes rs))) =
      Some (?h, buf', int (length (records_bytes ?rs))) \<and> pax_at buf' ?rs (length fs + k) T"
    by (rule exthdr_step_ok) (use Cons.prems f rec in auto)
  then obtain buf' where b: "exthdr_step flag kw val sh (h, buf, int (length (records_bytes rs))) =
      Some (?h, buf', int (length (records_bytes ?rs)))" "pax_at buf' ?rs (length fs + k) T" by blast
  have "\<exists>buf''. run_fields fs (?h, buf', int (length (records_bytes ?rs))) =
      Some (field_header fs ?h, buf'', int (length (records_bytes (?rs @ field_records fs ?h)))) \<and>
      pax_at buf'' (?rs @ field_records fs ?h) k T"
    by (rule Cons.IH [OF b(2)]) (use Cons.prems f rec in \<open>auto split: if_splits\<close>)
  then show ?case using b(1) unfolding rec by (simp add: f)
qed

definition ustar_fields :: "ext_field list" where
  "ustar_fields =
    [(TARU_EHUM_LINKPATH, ''linkpath'', ahsStaticGetTarLinkname, \<lambda>h. h\<lparr>c_tar_linkname := cut_name TARNAMESIZE (c_tar_linkname h)\<rparr>),
     (TARU_EHUM_PATH, ''path'', ahsStaticGetTarFilename, \<lambda>h. h\<lparr>c_name := cut_name TARNAMESIZE (c_name h)\<rparr>),
     (TARU_EHUM_SIZE, ''size'', \<lambda>h. dec_string (unat (c_filesize h)), \<lambda>h. h\<lparr>c_filesize := TAR_MAX_SIZE\<rparr>),
     (TARU_EHUM_UID, ''uid'', \<lambda>h. dec_string (unat (c_uid h)), \<lambda>h. h\<lparr>c_uid := TAR_MAX_7OCTAL\<rparr>),
     (TARU_EHUM_GID, ''gid'', \<lambda>h. dec_string (unat (c_gid h)), \<lambda>h. h\<lparr>c_uid := TAR_MAX_7OCTAL\<rparr>),
     (TARU_EHUM_UNAME, ''uname'', ahsStaticGetTarUsername, \<lambda>h. h\<lparr>c_username := cut_name 31 (c_username h)\<rparr>),
     (TARU_EHUM_GNAME, ''gname'', ahsStaticGetTarGroupname, \<lambda>h. h\<lparr>c_groupname := cut_name 31 (c_groupname h)\<rparr>),
     (TARU_EHUM_DEV_MAJ, ''SWBIS.devmajor'', \<lambda>h. dec_string (unat (c_dev_maj h)), \<lambda>h. h\<lparr>c_dev_maj := TAR_MAX_7OCTAL\<rparr>),
     (TARU_EHUM_DEV_MIN, ''SWBIS.devminor'', \<lambda>h. dec_string (unat (c_dev_min h)), \<lambda>h. h\<lparr>c_dev_min := TAR_MAX_7OCTAL\<rparr>)]"

lemma run_fields_Cons:
  "run_fields ((flag, kw, val, sh) # fs) = (\<lambda>st. Option.bind (exthdr_step flag kw val sh st) (run_fields fs))"
  "run_fields [] = Some"
  by (rule ext, simp)+

lemma write_exthdrs_run: "write_exthdrs_ustar_records buf h = run_fields ustar_fields (h, buf, 0)"
  by (simp add: write_exthdrs_ustar_records_def ustar_fields_def run_fields_Cons del: run_fields.simps)

text \<open>No step changes a mask or a value that a later record takes.\<close>

lemma field_records_independent:
  assumes "\<forall>(flag, kw, val, sh) \<in> set fs. \<forall>h f. needed (sh h) f = needed h f"
    "sorted_wrt (\<lambda>(_, _, _, sh) (_, _, val, _). \<forall>h. val (sh h) = val h) fs"
  shows "field_records fs h = concat (map (\<lambda>(flag, kw, val, sh). if needed h flag then [(kw, val h)] else []) fs)"
  using assms
proof (induction fs arbitrary: h)
  case Nil
  then show ?case by simp
next
  case (Cons f fs)
  obtain flag kw val sh where f: "f = (flag, kw, val, sh)" by (metis prod_cases4)
  let ?at = "\<lambda>h (flag, kw, val, _). if needed h flag then [(kw, val h)] else []"
  have "?at (sh h) x = ?at h x" if "x \<in> set fs" for x using that Cons.prems f by auto
  then have "map (?at (sh h)) fs = map (?at h) fs" by (rule map_cong [OF refl])
  moreover have ih: "field_records fs (sh h) = concat (map (?at (sh h)) fs)" "field_records fs h = concat (map (?at h) fs)"
    using Cons.prems by (intro Cons.IH; auto)+
  ultimately have "field_records fs (sh h) = field_records fs h" by (simp only: ih)
  then show ?case using ih(2) by (simp add: f)
qed

lemma ustar_field_records: "field_records ustar_fields h = header_records h"
proof -
  have "sorted_wrt (\<lambda>(_, _, _, sh) (_, _, val, _). \<forall>h. val (sh h) = val h) ustar_fields"
    by (simp add: ustar_fields_def ahsStaticGetTarLinkname_def ahsStaticGetTarFilename_def ahsStaticGetTarUsername_def
      ahsStaticGetTarGroupname_def)
  moreover have "\<forall>(flag, kw, val, sh) \<in> set ustar_fields. \<forall>h f. needed (sh h) f = needed h f"
    by (simp add: ustar_fields_def needed_def)
  ultimately show ?thesis
    by (simp add: field_records_independent header_records_def split del: if_split)
      (simp add: ustar_fields_def split del: if_split)
qed

lemma write_exthdrs_ustar_records_ok:
  assumes "strob_bytes buf []" "pax_room buf 9 (int (length (records_bytes (header_records h))))"
    "\<forall>(kw, v) \<in> set (header_records h). int (length kw + length v) < 2 ^ 31"
  shows "\<exists>buf'. write_exthdrs_ustar_records buf h =
      Some (field_header ustar_fields h, buf', int (length (records_bytes (header_records h)))) \<and>
      strob_bytes buf' (records_bytes (header_records h))"
proof -
  have "0 < sb_reserve buf" using assms(1) by (auto elim: strob_bytesE)
  then have "pax_at buf [] (length ustar_fields + 0) (int (length (records_bytes (header_records h))))"
    using assms(1,2) by (simp add: pax_at_def ustar_fields_def eval_nat_numeral)
  moreover have "\<forall>(flag, kw, val, sh) \<in> set ustar_fields. c_string kw \<and> length kw \<le> 30"
    by (simp add: ustar_fields_def c_string_def)
  ultimately have "\<exists>buf'. run_fields ustar_fields (h, buf, int (length (records_bytes []))) =
      Some (field_header ustar_fields h, buf', int (length (records_bytes ([] @ field_records ustar_fields h)))) \<and>
      pax_at buf' ([] @ field_records ustar_fields h) 0 (int (length (records_bytes (header_records h))))"
    by (rule run_fields_ok) (use assms(3) in \<open>simp_all add: ustar_field_records\<close>)
  then show ?thesis by (auto simp: write_exthdrs_run ustar_field_records pax_at_def)
qed

section \<open>Reading one record\<close>

text \<open>The attribute name as the words of the keyword, and the entry a record becomes.\<close>

definition parse_name :: "string \<Rightarrow> int \<times> exatt" where
  "parse_name kw =
     (let (retval, e, has_prefix, has_namespace, has_name) = fqname_loop (tokens ''.'' kw) taru_exatt_create False False False
      in (retval, if has_namespace \<and> \<not> has_name \<and> \<not> has_prefix
            then e\<lparr>attrnameM := namespaceM e, namespaceM := []\<rparr> else e))"

definition exatt_of :: "string \<times> char list \<Rightarrow> exatt" where
  "exatt_of = (\<lambda>(kw, v). (snd (parse_name kw))\<lparr>attrvalueM := v, ex_lenM := int (length v), is_in_useM := 1\<rparr>)"

lemma parse_fqname_ok:
  assumes "c_string attr" "int n < 2 ^ 31 - 200"
  shows "taru_exatt_parse_fqname taru_exatt_create attr (int n) = Some (parse_name (take n attr))"
proof -
  obtain tmp where t: "strob_open 32 = Some tmp" "strob_wf tmp" "sb_extra tmp = 156"
    using strob_open_holds [of 32] by (auto simp: strob_holds_def STROB_LENGTHINCR_def)
  have "strob_room tmp (int n + 1)" using t(3) assms(2) by (simp add: strob_room_def)
  then obtain tmp' where "strob_strncpy tmp attr (int n) = Some tmp'" "strob_holds tmp' (take n attr)"
    using strob_strncpy_holds [OF t(2) assms(1), of "int n"] by auto
  then show ?thesis
    using t(1) strtok_collect_self [of tmp' "take n attr"]
    by (simp add: taru_exatt_parse_fqname_def parse_name_def taru_exatt_create_def split: prod.split)
qed

definition ext_list :: "new_cpio_header \<Rightarrow> exatt list \<Rightarrow> bool" where
  "ext_list h es \<longleftrightarrow> (\<forall>e \<in> set es. is_in_useM e \<noteq> 0) \<and>
     (case extattlistM h of None \<Rightarrow> es = [] | Some l \<Rightarrow> nta_inv l \<and> nta_elems l = es)"

lemma list_scan_free:
  "\<forall>e \<in> set es. is_in_useM e \<noteq> 0 \<Longrightarrow> list_scan free_scan es (i, False) = (i + int (length es), False)"
  by (induction es arbitrary: i) (auto simp: free_scan_def)

lemma get_free_append:
  assumes "ext_list h es"
  shows "\<exists>l. taru_exattlist_get_free h = Some (h\<lparr>extattlistM := Some l\<rparr>, int (length es)) \<and> nta_inv l \<and>
     nta_elems l = es @ [taru_exatt_create]"
proof -
  obtain l where l: "exattlist_of h 3 = Some l" "nta_inv l" "nta_elems l = es"
  proof (cases "extattlistM h")
    case None
    obtain l :: "exatt cplob" where o: "cplob_open 3 = Some l" "nta_inv l" "nta_elems l = []"
      using cplob_open_nta [of 3] by blast
    have "nta_inv (l\<lparr>refcountM := 1\<rparr>) = nta_inv l" "nta_elems (l\<lparr>refcountM := 1\<rparr>) = nta_elems l"
      by (simp_all add: nta_inv_def nta_elems_def)
    then show thesis using that None o assms by (auto simp: exattlist_of_def ext_list_def)
  next
    case (Some l)
    then show thesis using that assms by (auto simp: exattlist_of_def ext_list_def)
  qed
  have "nta_scan (cplob_val l) 0 free_scan (0, False) = Some (int (length es), False)"
    using cplob_scan_all [OF l(2), of free_scan] list_scan_free [of es 0] l(3) assms by (simp add: ext_list_def)
  moreover obtain l' where "cplob_add_nta l (Some taru_exatt_create) = Some l'" "nta_inv l'"
    "nta_elems l' = es @ [taru_exatt_create]"
    using cplob_add_nta_ok [OF l(2)] l(3) by blast
  ultimately show ?thesis using l(1) by (intro exI [of _ l']) (simp add: taru_exattlist_get_free_def)
qed

text \<open>Reading and replacing the last entry.\<close>

lemma exatt_last:
  assumes "nta_inv l" "nta_elems l = es @ [e]"
  shows "exatt_read (h\<lparr>extattlistM := Some l\<rparr>) (int (length es)) = Some e"
    "\<exists>l'. exatt_write (h\<lparr>extattlistM := Some l\<rparr>) (int (length es)) e' = Some (h\<lparr>extattlistM := Some l'\<rparr>) \<and>
       nta_inv l' \<and> nta_elems l' = es @ [e']"
proof -
  obtain cs where "cell_write (cp_list l) (int (length es)) (Some e') = Some cs" "nta_inv (l\<lparr>cp_list := cs\<rparr>)"
    "nta_elems (l\<lparr>cp_list := cs\<rparr>) = es @ [e']" "cell_read (cp_list l) (int (length es)) = Some (Some e)"
    using nta_update [OF assms(1), of "length es" e'] assms(2) by auto
  then show "exatt_read (h\<lparr>extattlistM := Some l\<rparr>) (int (length es)) = Some e"
    "\<exists>l'. exatt_write (h\<lparr>extattlistM := Some l\<rparr>) (int (length es)) e' = Some (h\<lparr>extattlistM := Some l'\<rparr>) \<and>
       nta_inv l' \<and> nta_elems l' = es @ [e']"
    by (auto simp: exatt_read_def exatt_write_def)
qed

lemma first_index_append: "P x \<Longrightarrow> \<forall>c \<in> set xs. \<not> P c \<Longrightarrow> first_index P (xs @ x # ys) = Some (length xs)"
  by (induction xs) auto

lemma read_record_steps:
  assumes "c_string_at b data = Some s" "swlib_atoi2 s = (len, n, err)" "c_read b (data + int n) = Some c" "isspace c"
    "c_string_at b (data + int n + 1) = Some rest" "first_index (\<lambda>c. c = CHR ''='') rest = Some a"
    "vp = data + int n + 1 + int a + 1" "vl = c_int (len - c_int (vp - data) - 1)" "0 \<le> vl" "vp + vl \<le> int (length b)"
    "taru_exattlist_get_free h = Some (h1, i)" "exatt_read h1 i = Some e"
    "taru_exatt_parse_fqname e rest (int a) = Some (0, e')"
    "exatt_write h1 i (e'\<lparr>attrvalueM := take (nat vl) (drop (nat vp) b), ex_lenM := vl, is_in_useM := 1\<rparr>) = Some h2"
  shows "taru_read_ext_header_record h b data = Some (h2, Inr (vp + vl + 1))"
  unfolding taru_read_ext_header_record_def Let_def
  using assms by (simp add: Let_def)

lemma read_record_ok:
  assumes b: "drop data b = rec_bytes kw v @ rest" "NUL \<in> set rest" and h: "ext_list h es"
    and kw: "c_string kw" "CHR ''='' \<notin> set kw" "fst (parse_name kw) = 0" "length kw \<le> 30"
    and v: "int (length v) < 2 ^ 31 - 200" "int data + int (rec_length kw v) < 2 ^ 31"
  shows "\<exists>l. taru_read_ext_header_record h b (int data) =
      Some (h\<lparr>extattlistM := Some l\<rparr>, Inr (int (data + rec_length kw v))) \<and>
      nta_inv l \<and> nta_elems l = es @ [exatt_of (kw, v)]"
proof -
  let ?r = "rec_length kw v"
  let ?ds = "dec_string ?r"
  let ?L = "length ?ds"
  have v31: "int (length kw + length v) < 2 ^ 31" using v(1) kw(4) by simp
  note r = rec_length_ok [OF v31]
  have rlen: "?r = ?L + 1 + length kw + 1 + length v + 1" using r(1) by (simp add: rec_bytes_def)
  have d: "drop data b = ?ds @ '' '' @ kw @ ''='' @ v @ [CHR 0x0A] @ rest" using b(1) by (simp add: rec_bytes_def)
  have dd: "drop (data + n) b = drop n (drop data b)" for n by (simp add: add.commute)
  have d1: "drop (data + (?L + 1)) b = kw @ ''='' @ v @ [CHR 0x0A] @ rest"
    "drop (data + ?L) b = '' '' @ kw @ ''='' @ v @ [CHR 0x0A] @ rest"
    "drop (data + (?L + 1 + length kw + 1)) b = v @ [CHR 0x0A] @ rest"
    unfolding dd unfolding d by simp_all
  have blen: "data + ?r < length b"
  proof -
    have "rest \<noteq> []" using b(2) by auto
    then have "?r < length (drop data b)" using r(1) by (simp add: b(1))
    then show ?thesis by simp
  qed
  obtain s where s: "c_string_at b (int data) = Some (?ds @ CHR '' '' # s)"
  proof -
    have "cstr (?ds @ CHR '' '' # u) = ?ds @ CHR '' '' # cstr u" for u
      using dec_string_c_string by (simp add: cstr_def c_string_def takeWhile_append)
    then have "cstr (drop data b) = ?ds @ CHR '' '' # cstr (kw @ ''='' @ v @ [CHR 0x0A] @ rest)"
      unfolding d by simp
    moreover have "NUL \<in> set (drop data b)" using b(2) d by simp
    ultimately show thesis using that c_string_at_cstr [of data b] by simp
  qed
  obtain u where u: "c_string_at b (int (data + (?L + 1))) = Some (kw @ CHR ''='' # u)" "c_string u"
  proof -
    have "cstr (kw @ CHR ''='' # w) = kw @ CHR ''='' # cstr w" for w
      using kw(1) by (simp add: cstr_def c_string_def takeWhile_append)
    then have "cstr (drop (data + (?L + 1)) b) = kw @ CHR ''='' # cstr (v @ [CHR 0x0A] @ rest)"
      unfolding d1 by simp
    moreover have "NUL \<in> set (drop (data + (?L + 1)) b)" using b(2) d1(1) by simp
    ultimately show thesis using that c_string_at_cstr [of "data + (?L + 1)" b] by simp
  qed
  have "isspace CHR '' ''" by (simp add: isspace_def)
  then have sc: "dec_scan (?ds @ CHR '' '' # s) = (1, ?r, ?L)"
    by (intro dec_scan_dec_string) (simp add: isdigit_def less_eq_char_def)
  have atoi: "swlib_atoi2 (?ds @ CHR '' '' # s) = (int ?r, ?L, 0)"
    using v(2) by (simp add: swlib_atoi2_def c_strtol_def sc)
  have blank: "c_read b (int data + int ?L) = Some (CHR '' '')"
  proof -
    have "data + ?L < length b" using blen rlen by simp
    moreover from this have "b ! (data + ?L) = CHR '' ''" using d1(2) by (metis append_Cons hd_drop_conv_nth list.sel(1))
    ultimately show ?thesis by (simp add: c_read_def nat_add_distrib)
  qed
  have eq: "first_index (\<lambda>c. c = CHR ''='') (kw @ CHR ''='' # u) = Some (length kw)"
    using kw(2) by (intro first_index_append) auto
  obtain l where l: "taru_exattlist_get_free h = Some (h\<lparr>extattlistM := Some l\<rparr>, int (length es))" "nta_inv l"
    "nta_elems l = es @ [taru_exatt_create]"
    using get_free_append [OF h] by blast
  obtain l' where l': "exatt_write (h\<lparr>extattlistM := Some l\<rparr>) (int (length es)) (exatt_of (kw, v)) = Some (h\<lparr>extattlistM := Some l'\<rparr>)"
    "nta_inv l'" "nta_elems l' = es @ [exatt_of (kw, v)]"
    using exatt_last(2) [OF l(2,3)] by blast
  have pn: "taru_exatt_parse_fqname taru_exatt_create (kw @ CHR ''='' # u) (int (length kw)) = Some (0, snd (parse_name kw))"
    using parse_fqname_ok [of "kw @ CHR ''='' # u" "length kw"] kw u(2) by (cases "parse_name kw") simp
  let ?vp = "int data + int ?L + 1 + int (length kw) + 1"
  have vl: "int (length v) = c_int (int ?r - c_int (?vp - int data) - 1)" using v rlen by simp
  have val: "take (nat (int (length v))) (drop (nat ?vp) b) = v"
  proof -
    have "nat ?vp = data + (?L + 1 + length kw + 1)" by simp
    then show ?thesis unfolding \<open>nat ?vp = _\<close> d1 by simp
  qed
  have at: "c_string_at b (int data + int ?L + 1) = Some (kw @ CHR ''='' # u)" using u(1) by (simp add: add.commute)
  have fits: "?vp + int (length v) \<le> int (length b)" and after: "?vp + int (length v) + 1 = int (data + ?r)"
    using blen rlen by simp_all
  have "taru_read_ext_header_record h b (int data) = Some (h\<lparr>extattlistM := Some l'\<rparr>, Inr (?vp + int (length v) + 1))"
    by (rule read_record_steps [OF s atoi blank \<open>isspace CHR '' ''\<close> at eq refl vl _ fits l(1) exatt_last(1) [OF l(2,3)] pn])
      (use l'(1) val in \<open>simp_all add: exatt_of_def\<close>)
  then have "taru_read_ext_header_record h b (int data) = Some (h\<lparr>extattlistM := Some l'\<rparr>, Inr (int (data + ?r)))"
    unfolding after .
  then show ?thesis using l'(2,3) by blast
qed

section \<open>Reading all records\<close>

definition record_ok :: "string \<times> char list \<Rightarrow> bool" where
  "record_ok = (\<lambda>(kw, v). c_string kw \<and> CHR ''='' \<notin> set kw \<and> fst (parse_name kw) = 0 \<and> length kw \<le> 30 \<and>
     int (length v) < 2 ^ 31 - 200)"

lemma exatt_of_in_use [simp]: "is_in_useM (exatt_of x) = 1"
  by (simp add: exatt_of_def split: prod.split)

lemma read_records_ok:
  assumes "list_all record_ok rs" "drop data b = records_bytes rs @ rest" "NUL \<in> set rest" "ext_list h es"
    "int data + int (length (records_bytes rs)) < 2 ^ 31" "int data - d0 + int (length (records_bytes rs)) = len"
  shows "\<exists>l. read_records_loop h b d0 len (int data) k = Some (k + int (length rs), None, h\<lparr>extattlistM := l\<rparr>) \<and>
     ext_list (h\<lparr>extattlistM := l\<rparr>) (es @ map exatt_of rs)"
  using assms
proof (induction rs arbitrary: data h es k)
  case Nil
  have "ext_list (h\<lparr>extattlistM := extattlistM h\<rparr>) es" using Nil(4) by simp
  moreover have "\<not> int data - d0 < len" using Nil(6) by simp
  ultimately show ?case
    by (intro exI [of _ "extattlistM h"]) (subst read_records_loop.simps, simp)
next
  case (Cons x rs)
  obtain kw v where x: "x = (kw, v)" by (cases x)
  note ok = Cons.prems(1) [unfolded x, simplified record_ok_def list.pred_inject, simplified]
  have v31: "int (length kw + length v) < 2 ^ 31" using ok by simp
  note r = rec_length_ok(1,3) [OF v31]
  have d: "drop data b = rec_bytes kw v @ records_bytes rs @ rest" using Cons.prems(2) x by simp
  have n: "NUL \<in> set (records_bytes rs @ rest)" using Cons.prems(3) by simp
  obtain l where l: "taru_read_ext_header_record h b (int data) =
      Some (h\<lparr>extattlistM := Some l\<rparr>, Inr (int (data + rec_length kw v)))" "nta_inv l"
    "nta_elems l = es @ [exatt_of (kw, v)]"
    using read_record_ok [OF d n Cons.prems(4)] ok Cons.prems(5) x r(1) by auto
  have "\<exists>l'. read_records_loop (h\<lparr>extattlistM := Some l\<rparr>) b d0 len (int (data + rec_length kw v)) (k + 1) =
      Some (k + 1 + int (length rs), None, h\<lparr>extattlistM := Some l\<rparr>\<lparr>extattlistM := l'\<rparr>) \<and>
      ext_list (h\<lparr>extattlistM := Some l\<rparr>\<lparr>extattlistM := l'\<rparr>) ((es @ [exatt_of (kw, v)]) @ map exatt_of rs)"
  proof (rule Cons.IH)
    show "list_all record_ok rs" using Cons.prems(1) by simp
    show "drop (data + rec_length kw v) b = records_bytes rs @ rest"
      using arg_cong [OF d, of "drop (rec_length kw v)"] r(1) by (simp add: add.commute)
    show "ext_list (h\<lparr>extattlistM := Some l\<rparr>) (es @ [exatt_of (kw, v)])"
      using l Cons.prems(4) by (auto simp: ext_list_def)
  qed (use Cons.prems x r(1) in auto)
  moreover have "int data - d0 < len" using Cons.prems(6) r x by simp
  ultimately show ?case using l(1) x by (subst read_records_loop.simps) (simp add: add.assoc)
qed

section \<open>Applying the records\<close>

definition override :: "bool \<Rightarrow> new_cpio_header \<Rightarrow> exatt \<Rightarrow> new_cpio_header" where
  "override junk h e = fst (snd (taru_exatt_override_ustar junk h e))"

lemma override_loop_ok:
  assumes "nta_inv l" "i \<le> length (nta_elems l)"
  shows "\<exists>l'. override_loop junk h l (int i) = Some (foldl (override junk) h (drop i (nta_elems l)), l')"
  using assms
proof (induction "length (nta_elems l) - i" arbitrary: i h l)
  case 0
  then show ?case using cplob_val_end [OF 0(2)] by (subst override_loop.simps) simp
next
  case (Suc n)
  let ?e = "nta_elems l ! i"
  have i: "i < length (nta_elems l)" using Suc(2) by simp
  have n: "n = length (nta_elems l) - Suc i" using Suc(2) by linarith
  obtain r h' e' where o: "taru_exatt_override_ustar junk h ?e = (r, h', e')" by (metis prod_cases3)
  obtain cs where cs: "cell_write (cp_list l) (int i) (Some e') = Some cs" "nta_inv (l\<lparr>cp_list := cs\<rparr>)"
    "nta_elems (l\<lparr>cp_list := cs\<rparr>) = (nta_elems l)[i := e']"
    using nta_update [OF Suc(3) i] by blast
  obtain l' where "override_loop junk h' (l\<lparr>cp_list := cs\<rparr>) (int (Suc i)) =
      Some (foldl (override junk) h' (drop (Suc i) ((nta_elems l)[i := e'])), l')"
    using Suc(1) [of "l\<lparr>cp_list := cs\<rparr>" "Suc i" h'] n cs(2,3) i by auto
  moreover have "cplob_val l (int i) = Some (Some ?e)" using cplob_val_elem [OF Suc(3), of "int i"] i by simp
  ultimately show ?case
    using o cs(1) i by (subst override_loop.simps) (simp add: override_def add.commute flip: Cons_nth_drop_Suc)
qed

text \<open>What a record of each keyword does to the header.\<close>

lemma parse_names:
  "parse_name ''path'' = (0, taru_exatt_create\<lparr>attrnameM := ''path''\<rparr>)"
  "parse_name ''linkpath'' = (0, taru_exatt_create\<lparr>attrnameM := ''linkpath''\<rparr>)"
  "parse_name ''uname'' = (0, taru_exatt_create\<lparr>attrnameM := ''uname''\<rparr>)"
  "parse_name ''gname'' = (0, taru_exatt_create\<lparr>attrnameM := ''gname''\<rparr>)"
  "parse_name ''uid'' = (0, taru_exatt_create\<lparr>attrnameM := ''uid''\<rparr>)"
  "parse_name ''gid'' = (0, taru_exatt_create\<lparr>attrnameM := ''gid''\<rparr>)"
  "parse_name ''size'' = (0, taru_exatt_create\<lparr>attrnameM := ''size''\<rparr>)"
  "parse_name ''SWBIS.devmajor'' = (0, taru_exatt_create\<lparr>vendorM := ''SWBIS'', namespaceM := ''devmajor''\<rparr>)"
  "parse_name ''SWBIS.devminor'' = (0, taru_exatt_create\<lparr>vendorM := ''SWBIS'', namespaceM := ''devminor''\<rparr>)"
  by code_simp+

definition apply_record :: "bool \<Rightarrow> new_cpio_header \<Rightarrow> string \<times> char list \<Rightarrow> new_cpio_header" where
  "apply_record junk h x = override junk h (exatt_of x)"

lemma set_number:
  assumes "0 < n" "n < 2 ^ 64"
  shows "set_unsigned_long_value junk None (dec_string n) = (of_nat n, None, 0)"
proof -
  have sc: "dec_scan (dec_string n) = (1, n, length (dec_string n))" using dec_scan_dec_string [of "[]" n] by simp
  have "(of_nat n :: 64 word) \<noteq> 0" using assms by (simp add: word_of_nat_eq_0_iff dvd_def) (metis assms mult_0_right nat_dvd_not_less dvd_triv_left)
  then show ?thesis
    using assms by (simp add: set_unsigned_long_value_def swlib_atoul_def c_strtoul_def sc split: option.split)
qed

lemma override_entry:
  assumes "namespaceM e = []" "attrnameM e \<noteq> []" "islower (hd (attrnameM e))"
  shows "attrnameM e = ''path'' \<Longrightarrow> override junk h e = use_mask TARU_EHUM_PATH (ahsStaticSetTarFilename h (Some (cstr (attrvalueM e))))"
    "attrnameM e = ''linkpath'' \<Longrightarrow> override junk h e = use_mask TARU_EHUM_LINKPATH (ahsStaticSetPaxLinkname h (Some (cstr (attrvalueM e))))"
    "attrnameM e = ''uname'' \<Longrightarrow> override junk h e = use_mask TARU_EHUM_UNAME (ahsStaticSetTarUsername h (Some (cstr (attrvalueM e))))"
    "attrnameM e = ''gname'' \<Longrightarrow> override junk h e = use_mask TARU_EHUM_GNAME (ahsStaticSetTarGroupname h (Some (cstr (attrvalueM e))))"
    "attrnameM e = ''gid'' \<Longrightarrow> override junk h e =
       use_mask TARU_EHUM_GID (h\<lparr>c_gid := fst (set_unsigned_long_value junk None (cstr (attrvalueM e)))\<rparr>)"
    "attrnameM e = ''uid'' \<Longrightarrow> override junk h e =
       use_mask TARU_EHUM_UID (h\<lparr>c_uid := fst (set_unsigned_long_value junk None (cstr (attrvalueM e)))\<rparr>)"
    "attrnameM e = ''size'' \<Longrightarrow> override junk h e =
       use_mask TARU_EHUM_SIZE (h\<lparr>c_uid := fst (set_unsigned_long_value junk None (cstr (attrvalueM e)))\<rparr>)"
  using assms by (simp_all add: override_def taru_exatt_override_ustar_def Let_def case_prod_beta)

lemma islower_letters: "islower CHR ''p''" "islower CHR ''l''" "islower CHR ''u''" "islower CHR ''g''" "islower CHR ''s''"
  by code_simp+

lemma apply_record_simps:
  "apply_record junk h (''path'', v) = use_mask TARU_EHUM_PATH (ahsStaticSetTarFilename h (Some (cstr v)))"
  "apply_record junk h (''linkpath'', v) = use_mask TARU_EHUM_LINKPATH (ahsStaticSetPaxLinkname h (Some (cstr v)))"
  "apply_record junk h (''uname'', v) = use_mask TARU_EHUM_UNAME (ahsStaticSetTarUsername h (Some (cstr v)))"
  "apply_record junk h (''gname'', v) = use_mask TARU_EHUM_GNAME (ahsStaticSetTarGroupname h (Some (cstr v)))"
  "apply_record junk h (''gid'', v) = use_mask TARU_EHUM_GID (h\<lparr>c_gid := fst (set_unsigned_long_value junk None (cstr v))\<rparr>)"
  "apply_record junk h (''uid'', v) = use_mask TARU_EHUM_UID (h\<lparr>c_uid := fst (set_unsigned_long_value junk None (cstr v))\<rparr>)"
  "apply_record junk h (''size'', v) = use_mask TARU_EHUM_SIZE (h\<lparr>c_uid := fst (set_unsigned_long_value junk None (cstr v))\<rparr>)"
  "apply_record junk h (''SWBIS.devmajor'', v) = h" "apply_record junk h (''SWBIS.devminor'', v) = h"
  by (simp_all add: apply_record_def exatt_of_def parse_names taru_exatt_create_def override_entry islower_letters)
    (simp_all add: override_def taru_exatt_override_ustar_def)

text \<open>A field of the header after all records is decided by the record of its keyword.\<close>

lemma fold_records:
  assumes "distinct (map fst rs)" "\<And>h x. x \<in> set rs \<Longrightarrow> fst x \<noteq> k \<Longrightarrow> g (apply_record junk h x) = g h"
    "\<And>h v. (k, v) \<in> set rs \<Longrightarrow> g (apply_record junk h (k, v)) = new v"
  shows "g (foldl (apply_record junk) h rs) = (case map_of rs k of None \<Rightarrow> g h | Some v \<Rightarrow> new v)"
  using assms
proof (induction rs arbitrary: h)
  case Nil
  then show ?case by simp
next
  case (Cons x rs)
  have IH: "g (foldl (apply_record junk) (apply_record junk h x) rs) =
      (case map_of rs k of None \<Rightarrow> g (apply_record junk h x) | Some v \<Rightarrow> new v)"
    using Cons.prems by (intro Cons.IH) auto
  show ?case
  proof (cases "fst x = k")
    case True
    then have "map_of rs k = None" using Cons.prems(1) by (auto simp: map_of_eq_None_iff)
    then show ?thesis using IH True Cons.prems(3) [of "snd x" h] by (cases x) auto
  next
    case False
    then show ?thesis using IH Cons.prems(2) [of x h] by (cases x) (auto split: option.split)
  qed
qed

lemma header_record_keys: "x \<in> set (header_records h) \<Longrightarrow>
    fst x \<in> {''linkpath'', ''path'', ''size'', ''uid'', ''gid'', ''uname'', ''gname'', ''SWBIS.devmajor'', ''SWBIS.devminor''}"
  by (auto simp: header_records_def split: if_splits)

lemma map_add_if: "(m ++ map_of (if b then [(k, v)] else [])) x = (if b \<and> x = k then Some v else m x)"
  by auto

lemma map_of_if: "map_of (if b then [(k, v)] else []) x = (if b \<and> x = k then Some v else None)"
  by auto

lemma map_fst_if: "map fst (if b then [(k, v)] else []) = (if b then [k] else [])"
  by simp

lemma header_records_distinct: "distinct (map fst (header_records h))"
  by (simp only: header_records_def map_append map_fst_if distinct_append) auto

lemma header_records_map_of:
  "map_of (header_records h) ''path'' = (if needed h TARU_EHUM_PATH then Some (ahsStaticGetTarFilename h) else None)"
  "map_of (header_records h) ''linkpath'' = (if needed h TARU_EHUM_LINKPATH then Some (ahsStaticGetTarLinkname h) else None)"
  "map_of (header_records h) ''uname'' = (if needed h TARU_EHUM_UNAME then Some (ahsStaticGetTarUsername h) else None)"
  "map_of (header_records h) ''gname'' = (if needed h TARU_EHUM_GNAME then Some (ahsStaticGetTarGroupname h) else None)"
  "map_of (header_records h) ''uid'' = (if needed h TARU_EHUM_UID then Some (dec_string (unat (c_uid h))) else None)"
  "map_of (header_records h) ''gid'' = (if needed h TARU_EHUM_GID then Some (dec_string (unat (c_gid h))) else None)"
  "map_of (header_records h) ''size'' = (if needed h TARU_EHUM_SIZE then Some (dec_string (unat (c_filesize h))) else None)"
  by (simp_all add: header_records_def map_of_if map_add_if cong: if_cong split del: if_split)

section \<open>Round trip\<close>

text \<open>The records of a header with small values are readable.\<close>

definition ext_values_ok :: "new_cpio_header \<Rightarrow> bool" where
  "ext_values_ok h \<longleftrightarrow> c_string (ahsStaticGetTarFilename h) \<and> c_string (ahsStaticGetTarLinkname h) \<and>
     c_string (ahsStaticGetTarUsername h) \<and> c_string (ahsStaticGetTarGroupname h) \<and>
     length (ahsStaticGetTarFilename h) < 2 ^ 24 \<and> length (ahsStaticGetTarLinkname h) < 2 ^ 24 \<and>
     length (ahsStaticGetTarUsername h) < 2 ^ 24 \<and> length (ahsStaticGetTarGroupname h) < 2 ^ 24 \<and>
     (needed h TARU_EHUM_SIZE \<longrightarrow> c_filesize h \<noteq> 0) \<and> (needed h TARU_EHUM_UID \<longrightarrow> c_uid h \<noteq> 0) \<and>
     (needed h TARU_EHUM_GID \<longrightarrow> c_gid h \<noteq> 0)"

lemma dec_string_short: "length (dec_string (unat (w :: 64 word))) \<le> 20"
proof -
  let ?n = "unat w"
  have b: "1 \<le> count_digits (int ?n)" "?n = 0 \<or> 10 ^ nat (count_digits (int ?n) - 1) \<le> int ?n"
    using count_digits_bounds [OF of_nat_0_le_iff, of ?n] unfolding of_nat_eq_0_iff by blast+
  have "uint w < 2 ^ 64" using uint_lt2p [of w] by simp
  then have "int ?n < 2 ^ 64" by simp
  then have lt: "int ?n < 10 ^ 20" by simp
  have "count_digits (int ?n) \<le> 20"
  proof (cases "?n = 0")
    case True
    show ?thesis unfolding True by (simp add: count_digits.simps)
  next
    case False
    then have "(10 :: int) ^ nat (count_digits (int ?n) - 1) < 10 ^ 20" using b(2) lt by linarith
    then have "nat (count_digits (int ?n) - 1) < 20"
      by (simp only: power_strict_increasing_iff one_less_numeral_iff semiring_norm)
    then show ?thesis by linarith
  qed
  then show ?thesis using length_dec_string [of ?n] by simp
qed

lemma header_records_ok:
  assumes "ext_values_ok h"
  shows "list_all record_ok (header_records h)" "\<forall>(kw, v) \<in> set (header_records h). int (length kw + length v) < 2 ^ 31"
    "\<forall>(kw, v) \<in> set (header_records h). length v < 2 ^ 24"
proof -
  have s: "length (dec_string (unat w)) < 2 ^ 24" for w :: "64 word" using dec_string_short [of w] by simp
  show l: "\<forall>(kw, v) \<in> set (header_records h). length v < 2 ^ 24"
    using assms s by (auto simp: header_records_def ext_values_ok_def split: if_splits)
  have k: "c_string kw \<and> CHR ''='' \<notin> set kw \<and> fst (parse_name kw) = 0 \<and> length kw \<le> 30"
    if "(kw, v) \<in> set (header_records h)" for kw v
    using header_record_keys [OF that] by (auto simp: parse_names c_string_def)
  show "list_all record_ok (header_records h)" using k l by (fastforce simp: record_ok_def list_all_iff)
  show "\<forall>(kw, v) \<in> set (header_records h). int (length kw + length v) < 2 ^ 31" using k l by fastforce
qed

lemma read_all_records:
  assumes "list_all record_ok rs" "drop data b = records_bytes rs @ rest" "NUL \<in> set rest" "ext_list h0 []"
    "int data + int (length (records_bytes rs)) < 2 ^ 31"
  shows "\<exists>l. taru_read_all_ext_header_records h0 b (int data) (int (length (records_bytes rs))) =
      Some (int (length rs), None, use_mask TARU_EHUM_ANY h0\<lparr>extattlistM := l\<rparr>) \<and>
     ext_list (use_mask TARU_EHUM_ANY h0\<lparr>extattlistM := l\<rparr>) (map exatt_of rs)"
proof -
  have "ext_list (use_mask TARU_EHUM_ANY h0) []" using assms(4) by (simp add: ext_list_def use_mask_def)
  from read_records_ok [OF assms(1-3) this assms(5), of "int data" "int (length (records_bytes rs))" 0]
  show ?thesis by (simp add: taru_read_all_ext_header_records_def use_mask_def)
qed

lemma any_mask: "extHeader_usage_maskM (use_mask TARU_EHUM_ANY h\<lparr>extattlistM := l\<rparr>) \<noteq> 0"
proof
  assume "extHeader_usage_maskM (use_mask TARU_EHUM_ANY h\<lparr>extattlistM := l\<rparr>) = 0"
  then have "bit (or (extHeader_usage_maskM h) TARU_EHUM_ANY) 14 = False" by (simp add: use_mask_def)
  then show False by (simp add: bit_or_iff)
qed

lemma apply_records:
  assumes "ext_list h (map exatt_of rs)" "extHeader_usage_maskM h \<noteq> 0"
  shows "\<exists>l'. apply_ext_headers junk h = Some ((foldl (apply_record junk) h rs)\<lparr>extattlistM := l'\<rparr>)"
proof (cases "extattlistM h")
  case None
  then have "rs = []" using assms(1) by (simp add: ext_list_def)
  moreover have "h\<lparr>extattlistM := None\<rparr> = h" using None by (cases h) simp
  ultimately show ?thesis using None assms(2) by (intro exI [of _ None]) (simp add: apply_ext_headers_def)
next
  case (Some l0)
  then have "nta_inv l0" "nta_elems l0 = map exatt_of rs" using assms(1) by (simp_all add: ext_list_def)
  then obtain l' where "override_loop junk h l0 0 = Some (foldl (override junk) h (map exatt_of rs), l')"
    using override_loop_ok [of l0 0 junk h] by auto
  moreover have "foldl (override junk) h (map exatt_of rs) = foldl (apply_record junk) h rs"
    by (simp add: foldl_map apply_record_def [abs_def])
  ultimately show ?thesis using Some assms(2) by (auto simp: apply_ext_headers_def)
qed

lemma pax_read_back:
  assumes "list_all record_ok rs" "extattlistM h0 = None" "int (length (records_bytes rs)) < 2 ^ 31"
  shows "\<exists>h1 h2 l. taru_read_all_ext_header_records h0 (records_bytes rs @ NUL # pad) 0 (int (length (records_bytes rs))) =
      Some (int (length rs), None, h1) \<and> apply_ext_headers junk h1 = Some h2 \<and>
      h2 = (foldl (apply_record junk) (use_mask TARU_EHUM_ANY h0\<lparr>extattlistM := extattlistM h1\<rparr>) rs)\<lparr>extattlistM := l\<rparr>"
proof -
  have "ext_list h0 []" using assms(2) by (simp add: ext_list_def)
  then obtain l where l: "taru_read_all_ext_header_records h0 (records_bytes rs @ NUL # pad) 0 (int (length (records_bytes rs))) =
      Some (int (length rs), None, use_mask TARU_EHUM_ANY h0\<lparr>extattlistM := l\<rparr>)"
    "ext_list (use_mask TARU_EHUM_ANY h0\<lparr>extattlistM := l\<rparr>) (map exatt_of rs)"
    using read_all_records [OF assms(1), of 0 "records_bytes rs @ NUL # pad" "NUL # pad" h0] assms(3) by auto
  from apply_records [OF l(2) any_mask, of junk] l(1) show ?thesis by auto
qed

lemma records_bytes_le:
  assumes "list_all record_ok rs" "\<forall>(kw, v) \<in> set rs. length v < 2 ^ 24"
  shows "length (records_bytes rs) \<le> length rs * (2 ^ 24 + 200)"
  using assms
proof (induction rs)
  case (Cons x rs)
  obtain kw v where x: "x = (kw, v)" by (cases x)
  have k: "length kw \<le> 30" "length v < 2 ^ 24" using Cons.prems x by (simp_all add: record_ok_def)
  then have v31: "int (length kw + length v) < 2 ^ 31" by simp
  have "length (rec_bytes kw v) \<le> 2 ^ 24 + 200" using rec_length_ok(1,4) [OF v31] k by simp
  then show ?case using Cons x by simp
qed simp

lemma length_header_records: "length (header_records h) \<le> 9"
  by (simp add: header_records_def)

lemma apply_record_other:
  assumes "x \<in> set (header_records h0)"
  shows "fst x \<noteq> ''path'' \<Longrightarrow> ahsStaticGetTarFilename (apply_record junk h x) = ahsStaticGetTarFilename h"
    "fst x \<noteq> ''linkpath'' \<Longrightarrow> ahsStaticGetTarLinkname (apply_record junk h x) = ahsStaticGetTarLinkname h"
    "fst x \<noteq> ''uname'' \<Longrightarrow> ahsStaticGetTarUsername (apply_record junk h x) = ahsStaticGetTarUsername h"
    "fst x \<noteq> ''gname'' \<Longrightarrow> ahsStaticGetTarGroupname (apply_record junk h x) = ahsStaticGetTarGroupname h"
    "fst x \<noteq> ''gid'' \<Longrightarrow> c_gid (apply_record junk h x) = c_gid h"
    "fst x \<noteq> ''uid'' \<Longrightarrow> fst x \<noteq> ''size'' \<Longrightarrow> c_uid (apply_record junk h x) = c_uid h"
    "c_filesize (apply_record junk h x) = c_filesize h"
    "c_mode (apply_record junk h x) = c_mode h" "c_mtime (apply_record junk h x) = c_mtime h"
proof -
  obtain kw v where x: "x = (kw, v)" by (cases x)
  note kw = header_record_keys [OF assms, unfolded x fst_conv]
  note names = ahs_name_defs use_mask_def apply_record_simps
  show "fst x \<noteq> ''path'' \<Longrightarrow> ahsStaticGetTarFilename (apply_record junk h x) = ahsStaticGetTarFilename h"
    "fst x \<noteq> ''linkpath'' \<Longrightarrow> ahsStaticGetTarLinkname (apply_record junk h x) = ahsStaticGetTarLinkname h"
    "fst x \<noteq> ''uname'' \<Longrightarrow> ahsStaticGetTarUsername (apply_record junk h x) = ahsStaticGetTarUsername h"
    "fst x \<noteq> ''gname'' \<Longrightarrow> ahsStaticGetTarGroupname (apply_record junk h x) = ahsStaticGetTarGroupname h"
    "fst x \<noteq> ''gid'' \<Longrightarrow> c_gid (apply_record junk h x) = c_gid h"
    "fst x \<noteq> ''uid'' \<Longrightarrow> fst x \<noteq> ''size'' \<Longrightarrow> c_uid (apply_record junk h x) = c_uid h"
    "c_filesize (apply_record junk h x) = c_filesize h"
    "c_mode (apply_record junk h x) = c_mode h" "c_mtime (apply_record junk h x) = c_mtime h"
    using kw unfolding x fst_conv by (elim insertE emptyE; simp add: names)+
qed

lemma apply_record_field:
  "ahsStaticGetTarFilename (apply_record junk h (''path'', v)) = cstr v"
  "ahsStaticGetTarLinkname (apply_record junk h (''linkpath'', v)) = cstr v"
  "ahsStaticGetTarUsername (apply_record junk h (''uname'', v)) = cstr v"
  "ahsStaticGetTarGroupname (apply_record junk h (''gname'', v)) = cstr v"
  "c_gid (apply_record junk h (''gid'', v)) = fst (set_unsigned_long_value junk None (cstr v))"
  "c_uid (apply_record junk h (''uid'', v)) = fst (set_unsigned_long_value junk None (cstr v))"
  "c_uid (apply_record junk h (''size'', v)) = fst (set_unsigned_long_value junk None (cstr v))"
  by (simp_all add: ahs_name_defs use_mask_def apply_record_simps)

lemma set_id_number:
  assumes "w \<noteq> 0"
  shows "fst (set_unsigned_long_value junk None (dec_string (unat (w :: 64 word)))) = w"
proof -
  have "unat w < 2 ^ LENGTH(64)" by (rule unsigned_less)
  then show ?thesis using set_number [of "unat w" junk] assms by (simp add: unat_gt_0)
qed

text \<open>What a header has after the records of \<open>h\<close>.\<close>

abbreviation after_records :: "bool \<Rightarrow> new_cpio_header \<Rightarrow> new_cpio_header \<Rightarrow> new_cpio_header" where
  "after_records junk h h0 \<equiv> foldl (apply_record junk) h0 (header_records h)"

lemma names_after_records:
  assumes "ext_values_ok h"
  shows "ahsStaticGetTarFilename (after_records junk h h0) =
      (if needed h TARU_EHUM_PATH then ahsStaticGetTarFilename h else ahsStaticGetTarFilename h0)"
    "ahsStaticGetTarLinkname (after_records junk h h0) =
      (if needed h TARU_EHUM_LINKPATH then ahsStaticGetTarLinkname h else ahsStaticGetTarLinkname h0)"
    "ahsStaticGetTarUsername (after_records junk h h0) =
      (if needed h TARU_EHUM_UNAME then ahsStaticGetTarUsername h else ahsStaticGetTarUsername h0)"
    "ahsStaticGetTarGroupname (after_records junk h h0) =
      (if needed h TARU_EHUM_GNAME then ahsStaticGetTarGroupname h else ahsStaticGetTarGroupname h0)"
proof -
  note fold = fold_records [OF header_records_distinct apply_record_other(1) apply_record_field(1)]
    fold_records [OF header_records_distinct apply_record_other(2) apply_record_field(2)]
    fold_records [OF header_records_distinct apply_record_other(3) apply_record_field(3)]
    fold_records [OF header_records_distinct apply_record_other(4) apply_record_field(4)]
  show "ahsStaticGetTarFilename (after_records junk h h0) =
      (if needed h TARU_EHUM_PATH then ahsStaticGetTarFilename h else ahsStaticGetTarFilename h0)"
    "ahsStaticGetTarLinkname (after_records junk h h0) =
      (if needed h TARU_EHUM_LINKPATH then ahsStaticGetTarLinkname h else ahsStaticGetTarLinkname h0)"
    "ahsStaticGetTarUsername (after_records junk h h0) =
      (if needed h TARU_EHUM_UNAME then ahsStaticGetTarUsername h else ahsStaticGetTarUsername h0)"
    "ahsStaticGetTarGroupname (after_records junk h h0) =
      (if needed h TARU_EHUM_GNAME then ahsStaticGetTarGroupname h else ahsStaticGetTarGroupname h0)"
    using assms by (simp_all add: fold header_records_map_of ext_values_ok_def)
qed

lemma ids_after_records:
  assumes "ext_values_ok h"
  shows "c_gid (after_records junk h h0) = (if needed h TARU_EHUM_GID then c_gid h else c_gid h0)"
    "\<not> needed h TARU_EHUM_SIZE \<Longrightarrow>
       c_uid (after_records junk h h0) = (if needed h TARU_EHUM_UID then c_uid h else c_uid h0)"
    "needed h TARU_EHUM_SIZE \<Longrightarrow> \<not> needed h TARU_EHUM_UID \<Longrightarrow> c_uid (after_records junk h h0) = c_filesize h"
    "c_filesize (after_records junk h h0) = c_filesize h0" "c_mode (after_records junk h h0) = c_mode h0"
    "c_mtime (after_records junk h h0) = c_mtime h0"
proof -
  let ?num = "\<lambda>v. fst (set_unsigned_long_value junk None (cstr v))"
  show "c_gid (after_records junk h h0) = (if needed h TARU_EHUM_GID then c_gid h else c_gid h0)"
    using assms
    by (simp add: fold_records [OF header_records_distinct apply_record_other(5) apply_record_field(5)] header_records_map_of set_id_number ext_values_ok_def)
  have size: "needed h TARU_EHUM_SIZE" if "x \<in> set (header_records h)" "fst x = ''size''" for x
    using that by (auto simp: header_records_def split: if_splits)
  have uid: "needed h TARU_EHUM_UID" if "x \<in> set (header_records h)" "fst x = ''uid''" for x
    using that by (auto simp: header_records_def split: if_splits)
  show "c_uid (after_records junk h h0) = (if needed h TARU_EHUM_UID then c_uid h else c_uid h0)" if "\<not> needed h TARU_EHUM_SIZE"
  proof -
    have "c_uid (apply_record junk h1 x) = c_uid h1" if "x \<in> set (header_records h)" "fst x \<noteq> ''uid''" for h1 x
      using apply_record_other(6) [OF that] size that(1) \<open>\<not> needed h TARU_EHUM_SIZE\<close> by blast
    from fold_records [OF header_records_distinct this apply_record_field(6), where h = h0]
    show ?thesis using assms by (simp add: header_records_map_of set_id_number ext_values_ok_def)
  qed
  show "c_uid (after_records junk h h0) = c_filesize h" if "needed h TARU_EHUM_SIZE" "\<not> needed h TARU_EHUM_UID"
  proof -
    have "c_uid (apply_record junk h1 x) = c_uid h1" if "x \<in> set (header_records h)" "fst x \<noteq> ''size''" for h1 x
      using apply_record_other(6) [OF that(1) _ that(2)] uid that(1) \<open>\<not> needed h TARU_EHUM_UID\<close> by blast
    from fold_records [OF header_records_distinct this apply_record_field(7), where h = h0]
    show ?thesis using assms that by (simp add: header_records_map_of set_id_number ext_values_ok_def)
  qed
  have keep: "g (after_records junk h h0) = g h0"
    if "\<And>h1 x. x \<in> set (header_records h) \<Longrightarrow> g (apply_record junk h1 x) = g h1" for g :: "new_cpio_header \<Rightarrow> 64 word"
  proof -
    have "g (foldl (apply_record junk) h1 rs) = g h1" if "set rs \<subseteq> set (header_records h)" for h1 rs
      using that \<open>\<And>h1 x. x \<in> set (header_records h) \<Longrightarrow> g (apply_record junk h1 x) = g h1\<close>
      by (induction rs arbitrary: h1) auto
    then show ?thesis by blast
  qed
  show "c_filesize (after_records junk h h0) = c_filesize h0" "c_mode (after_records junk h h0) = c_mode h0"
    "c_mtime (after_records junk h h0) = c_mtime h0"
    by (rule keep, erule apply_record_other)+
qed

lemma pax_written:
  assumes "ext_values_ok h" "strob_bytes buf []" "sb_reserve buf \<le> 2 ^ 20" "sb_extra buf \<le> 2 ^ 20"
  shows "\<exists>buf' bs. write_exthdrs_ustar_records buf h = Some (field_header ustar_fields h, buf', int (length bs)) \<and>
     strob_bytes buf' bs \<and> bs = records_bytes (header_records h) \<and> int (length bs) < 2 ^ 31"
proof -
  note ok = header_records_ok [OF assms(1)]
  let ?bs = "records_bytes (header_records h)"
  have "length ?bs \<le> length (header_records h) * (2 ^ 24 + 200)" by (rule records_bytes_le [OF ok(1,3)])
  also have "\<dots> \<le> 9 * (2 ^ 24 + 200)" using length_header_records by (intro mult_right_mono) simp_all
  finally have len: "length ?bs \<le> 9 * (2 ^ 24 + 200)" .
  have "0 \<le> sb_extra buf" using assms(2) by (auto elim: strob_bytesE)
  then have "pax_room buf 9 (int (length ?bs))" using len assms(3,4) by (simp add: pax_room_def)
  then obtain buf' where w: "write_exthdrs_ustar_records buf h = Some (field_header ustar_fields h, buf', int (length ?bs))"
    "strob_bytes buf' ?bs"
    using write_exthdrs_ustar_records_ok [OF assms(2) _ ok(2)] by blast
  have "int (length ?bs) < 2 ^ 31" using len by simp
  then show ?thesis using w by blast
qed

lemma pax_written_and_read:
  assumes "ext_values_ok h" "strob_bytes buf []" "sb_reserve buf \<le> 2 ^ 20" "sb_extra buf \<le> 2 ^ 20" "extattlistM h0 = None"
  shows "\<exists>buf' bs h1 h2 l l'. write_exthdrs_ustar_records buf h = Some (field_header ustar_fields h, buf', int (length bs)) \<and>
     strob_bytes buf' bs \<and>
     taru_read_all_ext_header_records h0 (bs @ NUL # pad) 0 (int (length bs)) = Some (int (length (header_records h)), None, h1) \<and>
     apply_ext_headers junk h1 = Some h2 \<and>
     h2 = (after_records junk h (use_mask TARU_EHUM_ANY h0\<lparr>extattlistM := l\<rparr>))\<lparr>extattlistM := l'\<rparr>"
proof -
  obtain buf' where w: "write_exthdrs_ustar_records buf h = Some (field_header ustar_fields h, buf', int (length (records_bytes (header_records h))))"
    "strob_bytes buf' (records_bytes (header_records h))" "int (length (records_bytes (header_records h))) < 2 ^ 31"
    using pax_written [OF assms(1-4)] by blast
  show ?thesis using pax_read_back [OF header_records_ok(1) [OF assms(1)] assms(5) w(3), of pad junk] w(1,2) by blast
qed


text \<open>C39: reading the record of a size that does not fit stores it as the user id and leaves the size of
  the member as it was.\<close>

theorem pax_size_becomes_uid:
  assumes "ext_values_ok h" "strob_bytes buf []" "sb_reserve buf \<le> 2 ^ 20" "sb_extra buf \<le> 2 ^ 20" "extattlistM h0 = None"
    "needed h TARU_EHUM_SIZE" "\<not> needed h TARU_EHUM_UID"
  shows "\<exists>h' buf' bs k h1 h2. write_exthdrs_ustar_records buf h = Some (h', buf', int (length bs)) \<and> strob_bytes buf' bs \<and>
     taru_read_all_ext_header_records h0 (bs @ NUL # pad) 0 (int (length bs)) = Some (k, None, h1) \<and>
     apply_ext_headers junk h1 = Some h2 \<and> c_uid h2 = c_filesize h \<and> c_filesize h2 = c_filesize h0"
proof -
  obtain buf' bs h1 h2 l l' where w: "write_exthdrs_ustar_records buf h = Some (field_header ustar_fields h, buf', int (length bs))"
    "strob_bytes buf' bs"
    "taru_read_all_ext_header_records h0 (bs @ NUL # pad) 0 (int (length bs)) = Some (int (length (header_records h)), None, h1)"
    "apply_ext_headers junk h1 = Some h2"
    "h2 = (after_records junk h (use_mask TARU_EHUM_ANY h0\<lparr>extattlistM := l\<rparr>))\<lparr>extattlistM := l'\<rparr>"
    using pax_written_and_read [OF assms(1-5), of pad junk] by blast
  have "c_uid h2 = c_filesize h" "c_filesize h2 = c_filesize h0"
    using ids_after_records(3,4) [OF assms(1)] assms(6,7) by (simp_all add: w(5) use_mask_def)
  with w show ?thesis by blast
qed

text \<open>the record of a group id leaves the header's group id as it was and replaces the user id.\<close>

theorem gid_record_replaces_uid:
  assumes "ext_values_ok h" "strob_bytes buf []" "sb_reserve buf \<le> 2 ^ 20" "sb_extra buf \<le> 2 ^ 20"
    "needed h TARU_EHUM_GID"
  shows "\<exists>h' buf' n. write_exthdrs_ustar_records buf h = Some (h', buf', n) \<and> c_gid h' = c_gid h \<and> c_uid h' = 2097151"
proof -
  obtain buf' n where w: "write_exthdrs_ustar_records buf h = Some (field_header ustar_fields h, buf', n)"
    using pax_written_and_read [OF assms(1-4), of fresh_header "[]" True] by auto
  define A where "A = take 4 ustar_fields"
  define B where "B = drop 5 ustar_fields"
  let ?gid = "(TARU_EHUM_GID, ''gid'', \<lambda>h. dec_string (unat (c_gid h)), \<lambda>h. h\<lparr>c_uid := TAR_MAX_7OCTAL\<rparr>)"
  have split: "ustar_fields = A @ [?gid] @ B" by (simp add: A_def B_def ustar_fields_def)
  have "\<forall>(flag, kw, val, sh) \<in> set A. \<forall>h. needed (sh h) TARU_EHUM_GID = needed h TARU_EHUM_GID"
    "\<forall>(flag, kw, val, sh) \<in> set B. \<forall>h. c_uid (sh h) = c_uid h"
    "\<forall>(flag, kw, val, sh) \<in> set ustar_fields. \<forall>h. c_gid (sh h) = c_gid h"
    by (simp_all add: A_def B_def ustar_fields_def needed_def)
  note inv = this [THEN field_header_invariant]
  have "field_header ustar_fields h = field_header B ((field_header A h)\<lparr>c_uid := TAR_MAX_7OCTAL\<rparr>)"
    using assms(5) inv(1) by (simp add: split field_header_append)
  then have "c_uid (field_header ustar_fields h) = 2097151" using inv(2) by (simp add: TAR_MAX_7OCTAL_def)
  then show ?thesis using w inv(3) by auto
qed

text \<open>a record is appended behind the bytes already in the buffer; it begins with a decimal number that
  is its own length.\<close>

theorem construct_exthdr_record_counts:
  assumes "strob_bytes buf bs" "int (length bs) < sb_reserve buf" "c_string kw" "length kw \<le> 30" "length v \<le> 2 ^ 24"
    "length bs \<le> 2 ^ 28" "sb_reserve buf \<le> 2 ^ 28" "sb_extra buf \<le> 2 ^ 20"
  shows "\<exists>buf' n. construct_exthdr_record buf (int (length bs)) kw v = Some (buf', int n) \<and>
     strob_bytes buf' (bs @ dec_string n @ '' '' @ kw @ ''='' @ v @ [CHR 0x0A]) \<and>
     n = length (dec_string n @ '' '' @ kw @ ''='' @ v @ [CHR 0x0A])"
proof -
  have v31: "int (length kw + length v) < 2 ^ 31" using assms(4,5) by simp
  note r = rec_length_ok(1,4) [OF v31]
  have "0 \<le> sb_extra buf" using assms(1) by (auto elim: strob_bytesE)
  then have "pax_room buf (Suc 0) (int (length bs + rec_length kw v))"
    using assms(4-8) r(2) by (simp add: pax_room_def)
  from construct_exthdr_record_ok [OF assms(1,2) this assms(3,4) v31 order.refl]
  obtain buf' where "construct_exthdr_record buf (int (length bs)) kw v = Some (buf', int (rec_length kw v))"
    "strob_bytes buf' (bs @ rec_bytes kw v)" by blast
  then show ?thesis
    using r(1) unfolding rec_bytes_def by (intro exI [of _ buf'] exI [of _ "rec_length kw v"]) simp
qed

text \<open>a first record without an equals sign ends the reading with the number 0, which is also the
  result for no records at all.\<close>

theorem bad_first_record_returns_zero:
  assumes "c_string s" "CHR ''='' \<notin> set s" "0 < n" "n < 2 ^ 31" "0 < len"
  shows "\<exists>h'. taru_read_all_ext_header_records h (dec_string n @ '' '' @ s @ NUL # pad) 0 len = Some (0, Some (- 2), h')"
proof -
  let ?ds = "dec_string n" and ?h = "use_mask TARU_EHUM_ANY h"
  let ?b = "?ds @ '' '' @ s @ NUL # pad"
  have c: "c_string_at ?b (int 0) = Some (?ds @ '' '' @ s)"
    using assms(1) c_string_at_cstr [of 0 ?b] cstr_append_NUL [of "?ds @ '' '' @ s" pad] by simp
  have sc: "dec_scan (?ds @ '' '' @ s) = (1, n, length ?ds)"
    by (intro dec_scan_dec_string) (simp add: isdigit_def less_eq_char_def)
  have a: "swlib_atoi2 (?ds @ '' '' @ s) = (int n, length ?ds, 0)"
    using assms(3,4) by (simp add: swlib_atoi2_def c_strtol_def sc del: append.simps)
  have blank: "c_read ?b (int (length ?ds)) = Some (CHR '' '')" by (simp add: c_read_def nth_append)
  have rest: "c_string_at ?b (int (length ?ds + 1)) = Some s"
    using assms(1) c_string_at_cstr [of "length ?ds + 1" ?b] by simp
  have none: "first_index (\<lambda>c. c = CHR ''='') s = None" using assms(2) by (induction s) auto
  have "taru_read_ext_header_record ?h ?b 0 = Some (?h, Inl (- 2))"
    using c a blank rest none by (simp add: taru_read_ext_header_record_def isspace_def add.commute)
  then have "read_records_loop ?h ?b 0 len 0 0 = Some (- 0, Some (- 2), ?h)"
    using assms(5) by (subst read_records_loop.simps) simp
  then show ?thesis by (auto simp: taru_read_all_ext_header_records_def use_mask_def)
qed

section \<open>The properties at concrete inputs\<close>

definition long_name_header :: new_cpio_header where
  "long_name_header = fresh_header\<lparr>c_name := Some (replicate 120 CHR ''a''), c_gid := 3000000, c_filesize := 0x300000000,
     extHeader_needs_maskM := or TARU_EHUM_PATH TARU_EHUM_GID\<rparr>"

lemma empty_buffer: "strob_open 1024 = Some (empty_strob 1025)" "strob_bytes (empty_strob 1025) []"
  "sb_reserve (empty_strob 1025) \<le> 2 ^ 20" "sb_extra (empty_strob 1025) \<le> 2 ^ 20"
  "int (length ([] :: string)) < sb_reserve (empty_strob 1025)"
proof -
  show "strob_bytes (empty_strob 1025) []"
    using empty_strob_holds [of 1025] by (intro strob_bytes_Nil) (simp add: strob_holds_def)
qed (simp_all add: strob_open_eq empty_strob_def STROB_LENGTHINCR_def)

lemma long_name_header_ok:
  "ext_values_ok long_name_header" "needed long_name_header TARU_EHUM_PATH" "needed long_name_header TARU_EHUM_GID"
  "ext_values_ok (long_name_header\<lparr>extHeader_needs_maskM := TARU_EHUM_SIZE\<rparr>)"
  "needed (long_name_header\<lparr>extHeader_needs_maskM := TARU_EHUM_SIZE\<rparr>) TARU_EHUM_SIZE"
  "\<not> needed (long_name_header\<lparr>extHeader_needs_maskM := TARU_EHUM_SIZE\<rparr>) TARU_EHUM_UID"
  by (simp_all add: ext_values_ok_def long_name_header_def needed_def ahs_name_defs c_string_def)


theorem pax_size_becomes_uid_witness:
  "\<exists>h' buf' bs k h1 h2. write_exthdrs_ustar_records (empty_strob 1025) (long_name_header\<lparr>extHeader_needs_maskM := TARU_EHUM_SIZE\<rparr>) =
      Some (h', buf', int (length bs)) \<and>
     taru_read_all_ext_header_records fresh_header (bs @ [NUL]) 0 (int (length bs)) = Some (k, None, h1) \<and>
     apply_ext_headers True h1 = Some h2 \<and> c_uid h2 = 0x300000000 \<and> c_filesize h2 = 0"
proof -
  have v: "c_filesize (long_name_header\<lparr>extHeader_needs_maskM := TARU_EHUM_SIZE\<rparr>) = 0x300000000"
    "c_filesize fresh_header = 0"
    by (simp_all add: long_name_header_def)
  have "extattlistM fresh_header = None" by simp
  from pax_size_becomes_uid [OF long_name_header_ok(4) empty_buffer(2-4) this long_name_header_ok(5,6), of "[]" True]
  show ?thesis unfolding v by blast
qed

theorem gid_record_replaces_uid_witness:
  "\<exists>h' buf' n. write_exthdrs_ustar_records (empty_strob 1025) long_name_header = Some (h', buf', n) \<and>
     c_gid h' = 3000000 \<and> c_uid h' = 2097151"
proof -
  have "c_gid long_name_header = 3000000" by (simp add: long_name_header_def)
  then show ?thesis using gid_record_replaces_uid [OF long_name_header_ok(1) empty_buffer(2-4) long_name_header_ok(3)] by simp
qed

theorem construct_exthdr_record_counts_witness:
  "\<exists>buf' n. construct_exthdr_record (empty_strob 1025) 0 ''path'' ''usr/bin'' = Some (buf', int n) \<and>
     strob_bytes buf' (dec_string n @ '' path=usr/bin'' @ [CHR 0x0A])"
proof -
  from construct_exthdr_record_counts [OF empty_buffer(2,5), of "''path''" "''usr/bin''"] show ?thesis
    using empty_buffer(3,4) by (auto simp: c_string_def)
qed

theorem bad_first_record_returns_zero_witness:
  "\<exists>h'. taru_read_all_ext_header_records fresh_header (''9 path a'' @ [CHR 0x0A, NUL]) 0 9 = Some (0, Some (- 2), h')"
proof -
  have "dec_string 9 = ''9''" by code_simp
  then show ?thesis
    using bad_first_record_returns_zero [of "''path a'' @ [CHR 0x0A]" 9 9 fresh_header "[]"] by (simp add: c_string_def)
qed

end
