(* ===== verification/Tape.thy ===== *)
theory Tape
  imports Strob_Bytes TarWrite Pax "HOL-Library.Signed_Division"
begin

text \<open>
  Moving bytes between descriptors: the pump and the copy with digests of \<open>misc/swlib.c\<close>, the pass through
  buffer of \<open>taru/taruib.c\<close>, the padding and the data of members (\<open>taru/copyout.c\<close>,
  \<open>taru/readinheader.c\<close>, \<open>taru/otar.c\<close>).

  A descriptor that is read is the list of the bytes that follow on it; a read returns as many bytes as
  are asked for, fewer only at the end. This is what \<open>uxfio_sfa_read\<close> does on a virtual descriptor
  (theory \<open>UxfioStream\<close>). On a descriptor of the system \<open>atomicio\<close> is the same as long as all the bytes
  asked for follow, and returns 0 when only some do; that case is outside this model. A descriptor that is written takes all bytes, and
  the bytes written are a result. Read and write errors are not modelled.
\<close>

section \<open>Reading, and the pass through buffer\<close>

definition SWLIB_PIPE_BUF :: int where "SWLIB_PIPE_BUF = 512"
definition TARU_BUFSIZ :: int where "TARU_BUFSIZ = 8192"

definition uxfio_sfa_read :: "char list \<Rightarrow> int \<Rightarrow> char list \<times> char list" where
  "uxfio_sfa_read inp pcount = (take (nat pcount) inp, drop (nat pcount) inp)"

text \<open>The static variables of \<open>taruib.c\<close>, and what has been written to \<open>g_taruib_gst_fdM\<close> so far.\<close>

record taruib =
  overflow_releaseM :: int
  gst_fdM :: int
  gst_lenM :: int
  gst_bufferM :: block
  passed_on :: "char list"

definition taruib_get_reserve :: "taruib \<Rightarrow> int" where
  "taruib_get_reserve ib = TARU_BUFSIZ + int TARRECORDSIZE"

definition taruib_get_nominal_reserve :: "taruib \<Rightarrow> int" where
  "taruib_get_nominal_reserve ib = taruib_get_reserve ib - int TARRECORDSIZE"

definition taruib_initialize_pass_thru_buffer :: "taruib \<Rightarrow> taruib" where
  "taruib_initialize_pass_thru_buffer ib = ib\<lparr>overflow_releaseM := 0, gst_fdM := -1, gst_lenM := 0\<rparr>"

definition taruib_set_overflow_release :: "int \<Rightarrow> taruib \<Rightarrow> taruib" where
  "taruib_set_overflow_release i ib = ib\<lparr>overflow_releaseM := i\<rparr>"

definition taruib_set_fd :: "int \<Rightarrow> taruib \<Rightarrow> taruib" where
  "taruib_set_fd fd ib = ib\<lparr>gst_fdM := fd\<rparr>"

definition taruib_set_datalen :: "int \<Rightarrow> taruib \<Rightarrow> taruib" where
  "taruib_set_datalen n ib = ib\<lparr>gst_lenM := n\<rparr>"

definition taruib_unread :: "int \<Rightarrow> taruib \<Rightarrow> taruib" where
  "taruib_unread n ib = ib\<lparr>gst_lenM := (if n > gst_lenM ib then 0 else gst_lenM ib - n)\<rparr>"

text \<open>\<open>uxfio_write\<close> of bytes of the buffer to the descriptor of the buffer.\<close>

definition pass_buffer :: "int \<Rightarrow> taruib \<Rightarrow> taruib option" where
  "pass_buffer n ib =
     (if 0 \<le> n \<and> n \<le> int (length (gst_bufferM ib))
      then Some (ib\<lparr>passed_on := passed_on ib @ take (nat n) (gst_bufferM ib)\<rparr>) else None)"

text \<open>\<open>taruib_clear_buffer\<close> on a descriptor that takes all bytes.\<close>

definition taruib_clear_buffer :: "taruib \<Rightarrow> (taruib \<times> int) option" where
  "taruib_clear_buffer ib = do {
     ib' \<leftarrow> pass_buffer (gst_lenM ib) ib;
     Some (ib'\<lparr>gst_lenM := 0\<rparr>, gst_lenM ib) }"

text \<open>\<open>taru_tape_buffered_read\<close>; \<^term>\<open>None\<close> is also the \<open>exit (2)\<close> of the code.\<close>

definition taru_tape_buffered_read ::
  "taruib \<Rightarrow> char list \<Rightarrow> int \<Rightarrow> (char list \<times> char list \<times> taruib) option" where
  "taru_tape_buffered_read ib inp pcount =
     (let (buf, inp) = uxfio_sfa_read inp pcount; count = int (length buf)
      in if gst_fdM ib > 0 \<and> count > 0
         then do {
           let data_len = gst_lenM ib;
           (ib, dst) \<leftarrow> (if taruib_get_nominal_reserve ib - data_len < count \<and> overflow_releaseM ib = 0
                        then map_option (\<lambda>ib. (taruib_set_datalen count ib, 0)) (pass_buffer data_len ib)
                        else if data_len + c_int pcount > taruib_get_reserve ib then None
                        else Some (taruib_set_datalen (data_len + count) ib, data_len));
           b \<leftarrow> mem_write (gst_bufferM ib) dst buf;
           Some (buf, inp, ib\<lparr>gst_bufferM := b\<rparr>) }
         else Some (buf, inp, ib))"

section \<open>The pump\<close>

text \<open>The parts of the state of \<open>swlib_i_pipe_pump\<close> that are outputs: what is written to the discharge
  descriptor and to the adjunct descriptor, and the buffer \<open>obuf\<close>. \<^term>\<open>None\<close> stands for a negative
  descriptor and for a null pointer.\<close>

record pumped =
  discharged :: "char list option"
  adjoined :: "char list option"
  obuf :: "strob option"

definition sink_write :: "char list option \<Rightarrow> char list \<Rightarrow> char list option" where
  "sink_write s bs = map_option (\<lambda>out. out @ bs) s"

definition obuf_store :: "int \<Rightarrow> char list \<Rightarrow> pumped \<Rightarrow> pumped option" where
  "obuf_store off bs p =
     (case obuf p of None \<Rightarrow> Some p
      | Some sb \<Rightarrow> map_option (\<lambda>sb. p\<lparr>obuf := Some sb\<rparr>) (strob_memcpy_at sb off bs))"

definition obuf_finish :: "pumped \<Rightarrow> pumped option" where
  "obuf_finish p =
     (case obuf p of None \<Rightarrow> Some p | Some sb \<Rightarrow> map_option (\<lambda>sb. p\<lparr>obuf := Some sb\<rparr>) (strob_append_hidden_null sb))"

text \<open>The two loops, for all of the input and for a limited amount. In the second the adjunct descriptor is
  only written when there is a discharge descriptor.\<close>

definition pump_all_step :: "int \<Rightarrow> char list \<Rightarrow> pumped \<Rightarrow> pumped option" where
  "pump_all_step byteswritten bytes p =
     obuf_store byteswritten bytes (p\<lparr>discharged := sink_write (discharged p) bytes, adjoined := sink_write (adjoined p) bytes\<rparr>)"

definition pump_amount_step :: "int \<Rightarrow> char list \<Rightarrow> pumped \<Rightarrow> pumped option" where
  "pump_amount_step byteswritten bytes p =
     obuf_store byteswritten bytes
       (if discharged p = None then p
        else p\<lparr>discharged := sink_write (discharged p) bytes, adjoined := sink_write (adjoined p) bytes\<rparr>)"

function pump_all_loop :: "int \<Rightarrow> char list \<Rightarrow> pumped \<Rightarrow> (int \<times> pumped \<times> char list) option" where
  "pump_all_loop byteswritten inp p =
     (let (bytes, inp) = uxfio_sfa_read inp SWLIB_PIPE_BUF
      in if bytes = [] then Some (byteswritten, p, inp)
         else (case pump_all_step byteswritten bytes p of
                 None \<Rightarrow> None
               | Some p \<Rightarrow> pump_all_loop (byteswritten + int (length bytes)) inp p))"
  by auto
termination
  by (relation "measure (\<lambda>(byteswritten, inp, p). length inp)") (auto simp: uxfio_sfa_read_def)

function pump_amount_loop ::
  "int \<Rightarrow> int \<Rightarrow> int \<Rightarrow> char list \<Rightarrow> pumped \<Rightarrow> (int \<times> pumped \<times> char list) option" where
  "pump_amount_loop c_amount byteswritten remains inp p =
     (let (bytes, inp) = uxfio_sfa_read inp remains
      in if bytes = [] then Some (byteswritten, p, inp)
         else (case pump_amount_step byteswritten bytes p of
                 None \<Rightarrow> None
               | Some p \<Rightarrow>
                   (let byteswritten = byteswritten + int (length bytes);
                        remains = (if c_amount - byteswritten < remains
                                   then (if c_amount - byteswritten > SWLIB_PIPE_BUF then SWLIB_PIPE_BUF
                                         else c_amount - byteswritten)
                                   else remains)
                    in if remains = 0 then Some (byteswritten, p, inp)
                       else pump_amount_loop c_amount byteswritten remains inp p)))"
  by auto
termination
  by (relation "measure (\<lambda>(c_amount, byteswritten, remains, inp, p). length inp)") (auto simp: uxfio_sfa_read_def)

declare pump_amount_loop.simps [simp del] pump_all_loop.simps [simp del]

text \<open>The new amount, the outputs and the rest of the input.\<close>

definition swlib_i_pipe_pump :: "int \<Rightarrow> char list \<Rightarrow> pumped \<Rightarrow> (int \<times> pumped \<times> char list) option" where
  "swlib_i_pipe_pump amount inp p = do {
     p \<leftarrow> (case obuf p of None \<Rightarrow> Some p | Some sb \<Rightarrow> map_option (\<lambda>sb. p\<lparr>obuf := Some sb\<rparr>) (strob_strcpy sb []));
     (n, p, inp) \<leftarrow> (if amount < 0 then pump_all_loop 0 inp p
                     else pump_amount_loop amount 0 (if amount < SWLIB_PIPE_BUF then amount else SWLIB_PIPE_BUF) inp p);
     p \<leftarrow> obuf_finish p;
     Some (n, p, inp) }"

definition no_sinks :: pumped where
  "no_sinks = \<lparr>discharged = None, adjoined = None, obuf = None\<rparr>"

definition swlib_pump_amount :: "int \<Rightarrow> char list \<Rightarrow> char list option \<Rightarrow> (int \<times> char list option \<times> char list) option" where
  "swlib_pump_amount amount inp out =
     map_option (\<lambda>(n, p, inp). (n, discharged p, inp)) (swlib_i_pipe_pump amount inp (no_sinks\<lparr>discharged := out\<rparr>))"

definition swlib_pipe_pump :: "char list \<Rightarrow> char list option \<Rightarrow> (int \<times> char list option \<times> char list) option" where
  "swlib_pipe_pump inp out = swlib_pump_amount (-1) inp out"

definition swlib_read_amount :: "int \<Rightarrow> char list \<Rightarrow> (int \<times> char list) option" where
  "swlib_read_amount amount inp = map_option (\<lambda>(n, _, inp). (c_int n, inp)) (swlib_pump_amount amount inp None)"

definition taru_pump_amount2 ::
  "int \<Rightarrow> char list \<Rightarrow> char list option \<Rightarrow> char list option \<Rightarrow> (int \<times> pumped \<times> char list) option" where
  "taru_pump_amount2 amount inp out adjunct = swlib_i_pipe_pump amount inp (no_sinks\<lparr>discharged := out, adjoined := adjunct\<rparr>)"

definition taru_read_amount :: "int \<Rightarrow> char list \<Rightarrow> (int \<times> char list) option" where
  "taru_read_amount amount inp = map_option (\<lambda>(n, _, inp). (n, inp)) (taru_pump_amount2 amount inp None None)"

text \<open>\<open>taru_tape_skip_padding\<close> on a descriptor.\<close>

definition skip_padding :: "64 word \<Rightarrow> archive_format_in \<Rightarrow> char list \<Rightarrow> (int \<times> char list) option" where
  "skip_padding offset fmt inp =
     (let pad = skip_pad offset fmt in if pad \<noteq> 0 then taru_read_amount (uint pad) inp else Some (0, inp))"

section \<open>The pump passes on what it is asked for\<close>

lemma strob_set_up_length: "strob_set_up s n = Some s' \<Longrightarrow> sb_length s' \<le> max (sb_length s) n"
  by (auto simp: strob_set_up_def strob_reopen_if_def strob_reopen_def strob_reopen_fill_with_def bind_iff Let_def
      split: if_splits option.splits)

lemma strob_memcpy_at_length:
  "strob_memcpy_at s off xs = Some s' \<Longrightarrow> sb_length s' \<le> max (sb_length s) (c_int (int (length xs)) + c_int off)"
  by (auto simp: strob_memcpy_at_def bind_iff dest!: strob_set_up_length)

text \<open>\<open>pumped_to adj lim p0 bs p\<close>: the state \<open>p\<close> is \<open>p0\<close> after the bytes \<open>bs\<close>, the adjunct descriptor taking
  part if \<open>adj\<close>; \<open>lim\<close> bounds what the buffer will be asked to hold.\<close>

definition obuf_holds :: "int \<Rightarrow> strob option \<Rightarrow> char list \<Rightarrow> strob option \<Rightarrow> bool" where
  "obuf_holds lim b0 bs b \<longleftrightarrow>
     (case b of None \<Rightarrow> b0 = None
      | Some sb \<Rightarrow> b0 \<noteq> None \<and> strob_bytes sb bs \<and> sb_length sb \<le> int (length bs) \<and> strob_room sb (lim + 2))"

definition pumped_to :: "bool \<Rightarrow> int \<Rightarrow> pumped \<Rightarrow> char list \<Rightarrow> pumped \<Rightarrow> bool" where
  "pumped_to adj lim p0 bs p \<longleftrightarrow>
     discharged p = sink_write (discharged p0) bs \<and>
     adjoined p = (if adj then sink_write (adjoined p0) bs else adjoined p0) \<and>
     obuf_holds lim (obuf p0) bs (obuf p)"

lemma sink_write_append [simp]: "sink_write (sink_write s xs) ys = sink_write s (xs @ ys)"
  by (cases s) (simp_all add: sink_write_def)

lemma sink_write_None [simp]: "sink_write s xs = None \<longleftrightarrow> s = None" "sink_write None xs = None"
  "sink_write (Some out) xs = Some (out @ xs)"
  by (simp_all add: sink_write_def)

lemma obuf_store_ok:
  assumes "obuf_holds lim b0 bs (obuf p)" "int (length (bs @ xs)) \<le> lim"
  shows "\<exists>b'. obuf_store (int (length bs)) xs p = Some (p\<lparr>obuf := b'\<rparr>) \<and> obuf_holds lim b0 (bs @ xs) b'"
proof (cases "obuf p")
  case None
  then show ?thesis using assms(1) by (intro exI [of _ None]) (simp add: obuf_store_def obuf_holds_def)
next
  case (Some sb)
  then have sb: "b0 \<noteq> None" "strob_bytes sb bs" "sb_length sb \<le> int (length bs)" "strob_room sb (lim + 2)"
    using assms(1) by (auto simp: obuf_holds_def)
  have ex: "0 \<le> sb_extra sb" using sb(2) by (auto elim: strob_bytesE)
  have "strob_room sb (int (length (bs @ xs)) + 1)" using sb(4) assms(2) by (simp add: strob_room_def)
  from strob_memcpy_at_bytes [OF sb(2) this] obtain sb' where sb': "strob_memcpy_at sb (int (length bs)) xs = Some sb'"
    "strob_bytes sb' (bs @ xs)" "sb_extra sb' = sb_extra sb" by metis
  have "int (length bs) < INT_LIMIT" "int (length xs) < INT_LIMIT" using sb(4) assms(2) ex by (auto simp: strob_room_def)
  then have "sb_length sb' \<le> int (length (bs @ xs))" using strob_memcpy_at_length [OF sb'(1)] sb(3) by simp
  then show ?thesis
    using sb' sb by (intro exI [of _ "Some sb'"]) (simp add: obuf_store_def Some strob_room_def obuf_holds_def)
qed

lemma pump_steps:
  assumes "pumped_to adj lim p0 bs p" "int (length (bs @ xs)) \<le> lim"
  shows "adj \<Longrightarrow> \<exists>p'. pump_all_step (int (length bs)) xs p = Some p' \<and> pumped_to adj lim p0 (bs @ xs) p'"
    "adj = (discharged p0 \<noteq> None) \<Longrightarrow> \<exists>p'. pump_amount_step (int (length bs)) xs p = Some p' \<and> pumped_to adj lim p0 (bs @ xs) p'"
proof -
  have "obuf_holds lim (obuf p0) bs (obuf (p\<lparr>discharged := d, adjoined := a\<rparr>))" for d a
    using assms(1) by (simp add: pumped_to_def)
  note store = obuf_store_ok [OF this assms(2)]
  show "\<exists>p'. pump_all_step (int (length bs)) xs p = Some p' \<and> pumped_to adj lim p0 (bs @ xs) p'" if adj
  proof -
    obtain b' where "obuf_store (int (length bs)) xs
        (p\<lparr>discharged := sink_write (discharged p) xs, adjoined := sink_write (adjoined p) xs\<rparr>) =
        Some (p\<lparr>discharged := sink_write (discharged p) xs, adjoined := sink_write (adjoined p) xs, obuf := b'\<rparr>)"
      "obuf_holds lim (obuf p0) (bs @ xs) b'"
      using store by blast
    with assms(1) that show ?thesis by (simp add: pump_all_step_def pumped_to_def)
  qed
  show "\<exists>p'. pump_amount_step (int (length bs)) xs p = Some p' \<and> pumped_to adj lim p0 (bs @ xs) p'"
    if "adj = (discharged p0 \<noteq> None)"
  proof -
    define d where "d = sink_write (discharged p) xs"
    define a where "a = (if discharged p = None then adjoined p else sink_write (adjoined p) xs)"
    have upd: "(if discharged p = None then p
        else p\<lparr>discharged := sink_write (discharged p) xs, adjoined := sink_write (adjoined p) xs\<rparr>) =
      p\<lparr>discharged := d, adjoined := a\<rparr>"
      by (cases p) (auto simp: d_def a_def)
    obtain b' where "obuf_store (int (length bs)) xs (p\<lparr>discharged := d, adjoined := a\<rparr>) =
        Some (p\<lparr>discharged := d, adjoined := a, obuf := b'\<rparr>)" "obuf_holds lim (obuf p0) (bs @ xs) b'"
      using store by blast
    with assms(1) that show ?thesis
      by (cases p) (auto simp: pump_amount_step_def upd pumped_to_def d_def a_def)
  qed
qed

lemma pump_all_loop_ok:
  assumes "pumped_to True lim p0 bs p" "int (length (bs @ inp)) \<le> lim"
  shows "\<exists>p'. pump_all_loop (int (length bs)) inp p = Some (int (length (bs @ inp)), p', []) \<and>
    pumped_to True lim p0 (bs @ inp) p'"
  using assms
proof (induction "length inp" arbitrary: bs inp p rule: less_induct)
  case less
  show ?case
  proof (cases "inp = []")
    case True
    then show ?thesis
      using less.prems by (subst pump_all_loop.simps) (simp add: uxfio_sfa_read_def)
  next
    case False
    let ?xs = "take 512 inp" and ?rest = "drop 512 inp"
    have ne: "?xs \<noteq> []" using False by simp
    obtain p1 where p1: "pump_all_step (int (length bs)) ?xs p = Some p1" "pumped_to True lim p0 (bs @ ?xs) p1"
      using pump_steps(1) [OF less.prems(1), of ?xs] less.prems(2) by fastforce
    have "length ?rest < length inp" using False by simp
    from less.hyps [OF this p1(2)] less.prems(2)
    obtain p2 where "pump_all_loop (int (length (bs @ ?xs))) ?rest p1 = Some (int (length (bs @ inp)), p2, [])"
      "pumped_to True lim p0 (bs @ inp) p2" by auto
    then show ?thesis
      using ne p1(1) by (subst pump_all_loop.simps) (simp add: uxfio_sfa_read_def SWLIB_PIPE_BUF_def)
  qed
qed

lemma pump_amount_loop_ok:
  assumes "pumped_to adj lim p0 bs p" "adj = (discharged p0 \<noteq> None)" "int (length (bs @ take k inp)) \<le> lim"
  shows "\<exists>p'. pump_amount_loop (int (length bs + k)) (int (length bs)) (min 512 (int k)) inp p =
      Some (int (length (bs @ take k inp)), p', drop k inp) \<and> pumped_to adj lim p0 (bs @ take k inp) p'"
  using assms
proof (induction "length inp" arbitrary: bs inp p k rule: less_induct)
  case less
  show ?case
  proof (cases "inp = [] \<or> k = 0")
    case True
    then show ?thesis
      using less.prems by (subst pump_amount_loop.simps) (auto simp: uxfio_sfa_read_def)
  next
    case False
    define m where "m = min 512 k"
    let ?xs = "take m inp" and ?rest = "drop m inp"
    have m: "nat (min 512 (int k)) = m" "0 < m" "m \<le> k" using False by (auto simp: m_def)
    have ne: "?xs \<noteq> []" using False m(2) by simp
    have split: "bs @ take k inp = (bs @ ?xs) @ take (k - m) ?rest"
      using m(3) by (metis append.assoc le_add_diff_inverse take_add)
    have "int (length (bs @ ?xs)) \<le> lim" using less.prems(3) unfolding split by simp
    from pump_steps(2) [OF less.prems(1) this less.prems(2)]
    obtain p1 where p1: "pump_amount_step (int (length bs)) ?xs p = Some p1" "pumped_to adj lim p0 (bs @ ?xs) p1" by blast
    let ?bw = "int (length bs) + int (length ?xs)" and ?c = "int (length bs + k)"
    let ?rem = "if ?c - ?bw < min 512 (int k) then (if ?c - ?bw > 512 then 512 else ?c - ?bw) else min 512 (int k)"
    have rem: "?rem = min 512 (?c - ?bw)" using ne False by (auto simp: m_def min_def)
    show ?thesis
    proof (cases "?c - ?bw = 0")
      case True
      then have "length ?xs = k" by simp
      then have "m = k" "take k inp = ?xs" using m(3) by (simp_all add: min_def split: if_splits)
      then show ?thesis
        using ne p1 m True rem by (subst pump_amount_loop.simps) (simp add: uxfio_sfa_read_def SWLIB_PIPE_BUF_def)
    next
      case nz: False
      define k' where "k' = k - length ?xs"
      have k': "?c = int (length (bs @ ?xs) + k')" "?c - ?bw = int k'" using m(3) by (auto simp: k'_def)
      have tk: "take k' ?rest = take (k - m) ?rest" "drop k' ?rest = drop (k - m) ?rest"
        using m(3) by (cases "m \<le> length inp"; simp add: k'_def)+
      have "length ?rest < length inp" using False m(2) by simp
      moreover have "int (length ((bs @ ?xs) @ take k' ?rest)) \<le> lim" using less.prems(3) unfolding split tk(1) .
      ultimately obtain p2 where p2: "pump_amount_loop ?c (int (length (bs @ ?xs))) (min 512 (int k')) ?rest p1 =
          Some (int (length (bs @ take k inp)), p2, drop k' ?rest)" "pumped_to adj lim p0 (bs @ take k inp) p2"
        using less.hyps [OF _ p1(2) less.prems(2), of ?rest k'] unfolding split tk(1) k'(1) by blast
      have dr: "drop k' ?rest = drop k inp" unfolding tk(2) using m(3) by simp
      have kk: "int k' = int k - int (length ?xs)" using k'(2) by simp
      then show ?thesis
        using ne p1(1) p2 m(1) nz unfolding dr
        by (subst pump_amount_loop.simps)
          (auto simp: uxfio_sfa_read_def SWLIB_PIPE_BUF_def kk min_def simp del: length_take split: if_splits)
    qed
  qed
qed

lemma obuf_finish_ok:
  assumes "pumped_to adj lim p0 bs p" "int (length bs) \<le> lim"
  shows "\<exists>b'. obuf_finish p = Some (p\<lparr>obuf := b'\<rparr>) \<and> (case b' of None \<Rightarrow> obuf p0 = None | Some sb \<Rightarrow> obuf p0 \<noteq> None \<and> strob_bytes sb bs)"
proof (cases "obuf p")
  case None
  then show ?thesis using assms(1) by (intro exI [of _ None]) (simp add: obuf_finish_def pumped_to_def obuf_holds_def)
next
  case (Some sb)
  then have sb: "obuf p0 \<noteq> None" "strob_bytes sb bs" "sb_length sb \<le> int (length bs)" "strob_room sb (lim + 2)"
    using assms(1) by (auto simp: pumped_to_def obuf_holds_def)
  have l: "sb_length sb = int (length bs)" using sb(2,3) by (auto elim: strob_bytesE)
  have room: "strob_room sb (sb_length sb + 1 + 1)" using sb(4) assms(2) l by (simp add: strob_room_def)
  obtain s1 where s1: "strob_set_up sb (sb_length sb + 1) = Some s1" "strob_bytes s1 bs" "sb_length sb + 1 \<le> sb_length s1"
    "sb_length sb + 1 < sb_reserve s1"
    by (rule strob_set_up_keeps [OF sb(2) room]) (use l in auto)
  obtain b where b: "sb_str s1 = Some b" "strob_wf s1" "int (length b) = sb_reserve s1" "take (length bs) b = bs"
    using s1(2) by (auto elim: strob_bytesE)
  have "sb_length s1 \<le> sb_length sb + 1" using strob_set_up_length [OF s1(1)] by simp
  then obtain b2 where b2: "mem_write b (sb_length s1) [NUL] = Some b2"
    using s1(3,4) b(3) l by (auto simp: mem_write_def)
  have "strob_bytes (s1\<lparr>sb_str := Some b2\<rparr>) bs"
    using strob_wf_write [OF b(2,1) b2] mem_write_take [OF b2, of "length bs"] s1(3) l b(4)
    by (simp add: strob_bytes_def)
  then show ?thesis
    using Some s1(1) b(1) b2 sb(1)
    by (intro exI [of _ "Some (s1\<lparr>sb_str := Some b2\<rparr>)"]) (simp add: obuf_finish_def strob_append_hidden_null_def)
qed

lemma obuf_start_ok:
  assumes "case obuf p of None \<Rightarrow> True | Some sb \<Rightarrow> strob_wf sb \<and> strob_room sb (lim + 2)" "0 \<le> lim"
  shows "\<exists>b. (case obuf p of None \<Rightarrow> Some p | Some sb \<Rightarrow> map_option (\<lambda>sb. p\<lparr>obuf := Some sb\<rparr>) (strob_strcpy sb [])) =
      Some (p\<lparr>obuf := b\<rparr>) \<and> pumped_to adj lim (p\<lparr>obuf := b\<rparr>) [] (p\<lparr>obuf := b\<rparr>) \<and> (b = None \<longleftrightarrow> obuf p = None)"
proof (cases "obuf p")
  case None
  then show ?thesis
    by (intro exI [of _ None]) (cases p, auto simp: pumped_to_def obuf_holds_def sink_write_def map_option.id [unfolded id_def])
next
  case (Some sb)
  then have sb: "strob_wf sb" "strob_room sb (lim + 2)" using assms(1) by auto
  then have "strob_room sb (int (length []) + 1)" using assms(2) by (simp add: strob_room_def)
  from strob_strcpy_holds [OF sb(1) c_string_Nil this] obtain s' where s': "strob_strcpy sb [] = Some s'" "strob_holds s' []"
    "sb_extra s' = sb_extra sb" by blast
  have "strob_wf s'" using s'(2) by (simp add: strob_holds_def)
  moreover have "sb_length s' = 0"
    using s'(1) by (auto simp: strob_strcpy_def strob_strcpy_at_offset_def bind_iff)
  ultimately show ?thesis
    using Some s' sb
    by (intro exI [of _ "Some s'"])
      (cases p, auto simp: pumped_to_def obuf_holds_def sink_write_def map_option.id [unfolded id_def] strob_bytes_Nil strob_room_def)
qed

text \<open>The bytes a request for \<open>amount\<close> bytes moves.\<close>

definition asked_for :: "int \<Rightarrow> char list \<Rightarrow> char list" where
  "asked_for amount inp = (if amount < 0 then inp else take (nat amount) inp)"

lemma pump_ok:
  assumes "case obuf p of None \<Rightarrow> True | Some sb \<Rightarrow> strob_wf sb \<and> strob_room sb (int (length (asked_for amount inp)) + 2)"
  shows "\<exists>b. swlib_i_pipe_pump amount inp p = Some (int (length (asked_for amount inp)),
        \<lparr>discharged = sink_write (discharged p) (asked_for amount inp),
         adjoined = (if amount < 0 \<or> discharged p \<noteq> None then sink_write (adjoined p) (asked_for amount inp) else adjoined p),
         obuf = b\<rparr>, drop (length (asked_for amount inp)) inp) \<and>
      (case b of None \<Rightarrow> obuf p = None | Some sb \<Rightarrow> obuf p \<noteq> None \<and> strob_bytes sb (asked_for amount inp))"
proof -
  let ?bs = "asked_for amount inp"
  let ?lim = "int (length ?bs)" and ?adj = "amount < 0 \<or> discharged p \<noteq> None"
  obtain b0 where b0: "(case obuf p of None \<Rightarrow> Some p | Some sb \<Rightarrow> map_option (\<lambda>sb. p\<lparr>obuf := Some sb\<rparr>) (strob_strcpy sb [])) =
      Some (p\<lparr>obuf := b0\<rparr>)" "pumped_to ?adj ?lim (p\<lparr>obuf := b0\<rparr>) [] (p\<lparr>obuf := b0\<rparr>)" "b0 = None \<longleftrightarrow> obuf p = None"
    using obuf_start_ok [OF assms, of ?adj] by auto
  obtain p1 where p1: "(if amount < 0 then pump_all_loop 0 inp (p\<lparr>obuf := b0\<rparr>)
      else pump_amount_loop amount 0 (if amount < SWLIB_PIPE_BUF then amount else SWLIB_PIPE_BUF) inp (p\<lparr>obuf := b0\<rparr>)) =
      Some (?lim, p1, drop (length ?bs) inp)" "pumped_to ?adj ?lim (p\<lparr>obuf := b0\<rparr>) ?bs p1"
  proof (cases "amount < 0")
    case True
    then show thesis
      using that pump_all_loop_ok [of ?lim _ "[]" _ inp] b0(2) by (simp add: asked_for_def) blast
  next
    case False
    then have "(if amount < SWLIB_PIPE_BUF then amount else SWLIB_PIPE_BUF) = min 512 (int (nat amount))"
      by (simp add: SWLIB_PIPE_BUF_def)
    moreover have "drop (length ?bs) inp = drop (nat amount) inp" using False by (simp add: asked_for_def min_def)
    ultimately show thesis
      using that pump_amount_loop_ok [of ?adj ?lim "p\<lparr>obuf := b0\<rparr>" "[]" "p\<lparr>obuf := b0\<rparr>" "nat amount" inp]
        b0(2) False by (auto simp: asked_for_def)
  qed
  obtain b1 where b1: "obuf_finish p1 = Some (p1\<lparr>obuf := b1\<rparr>)"
    "case b1 of None \<Rightarrow> b0 = None | Some sb \<Rightarrow> b0 \<noteq> None \<and> strob_bytes sb ?bs"
    using obuf_finish_ok [OF p1(2) order.refl] by (auto cong: option.case_cong)
  have "p1\<lparr>obuf := b1\<rparr> = \<lparr>discharged = sink_write (discharged p) ?bs,
      adjoined = (if ?adj then sink_write (adjoined p) ?bs else adjoined p), obuf = b1\<rparr>"
    using p1(2) by (cases p1) (simp add: pumped_to_def)
  then show ?thesis
    using b0(1) p1(1) b1(1) b1(2) [unfolded b0(3)]
    by (intro exI [of _ b1]) (simp add: swlib_i_pipe_pump_def b0(3) cong: option.case_cong)
qed

lemma pump_no_obuf:
  assumes "obuf p = None"
  shows "swlib_i_pipe_pump amount inp p = Some (int (length (asked_for amount inp)),
        p\<lparr>discharged := sink_write (discharged p) (asked_for amount inp),
          adjoined := (if amount < 0 \<or> discharged p \<noteq> None then sink_write (adjoined p) (asked_for amount inp) else adjoined p)\<rparr>,
        drop (length (asked_for amount inp)) inp)"
proof -
  have "case obuf p of None \<Rightarrow> True | Some sb \<Rightarrow> strob_wf sb \<and> strob_room sb (int (length (asked_for amount inp)) + 2)"
    using assms by simp
  from pump_ok [OF this] show ?thesis using assms by (cases p) (auto split: option.splits)
qed

lemma no_sinks_simps [simp]:
  "discharged (no_sinks\<lparr>discharged := d, adjoined := a\<rparr>) = d" "adjoined (no_sinks\<lparr>discharged := d, adjoined := a\<rparr>) = a"
  "obuf (no_sinks\<lparr>discharged := d, adjoined := a\<rparr>) = None"
  by (simp_all add: no_sinks_def)

lemma taru_pump_amount2_ok:
  "taru_pump_amount2 amount inp out adjunct = Some (int (length (asked_for amount inp)),
     \<lparr>discharged = sink_write out (asked_for amount inp),
      adjoined = (if amount < 0 \<or> out \<noteq> None then sink_write adjunct (asked_for amount inp) else adjunct), obuf = None\<rparr>,
     drop (length (asked_for amount inp)) inp)"
  using pump_no_obuf [of "no_sinks\<lparr>discharged := out, adjoined := adjunct\<rparr>" amount inp]
  by (simp add: taru_pump_amount2_def)

lemma taru_read_amount_ok:
  "0 \<le> amount \<Longrightarrow> taru_read_amount amount inp = Some (min amount (int (length inp)), drop (nat amount) inp)"
  by (simp add: taru_read_amount_def taru_pump_amount2_ok asked_for_def) (auto simp: min_def nat_le_iff)

lemma skip_padding_ok:
  assumes "unat (skip_pad offset fmt) \<le> length inp"
  shows "skip_padding offset fmt inp = Some (uint (skip_pad offset fmt), drop (unat (skip_pad offset fmt)) inp)"
proof (cases "skip_pad offset fmt = 0")
  case True
  then show ?thesis by (simp add: skip_padding_def)
next
  case False
  have "nat (uint (skip_pad offset fmt)) = unat (skip_pad offset fmt)" by simp
  moreover have "uint (skip_pad offset fmt) \<le> int (length inp)" using assms by (metis of_nat_le_iff uint_nat)
  ultimately show ?thesis
    using False taru_read_amount_ok [of "uint (skip_pad offset fmt)" inp]
    by (simp only: skip_padding_def Let_def if_True not_False_eq_True) simp
qed

section \<open>What was read and what is passed on\<close>

text \<open>The bytes that went through the buffer of \<open>taruib.c\<close>: those written, then those still held.\<close>

definition taruib_stream :: "taruib \<Rightarrow> char list" where
  "taruib_stream ib = passed_on ib @ take (nat (gst_lenM ib)) (gst_bufferM ib)"

definition taruib_inv :: "taruib \<Rightarrow> bool" where
  "taruib_inv ib \<longleftrightarrow> length (gst_bufferM ib) = 8704 \<and> 0 \<le> gst_lenM ib \<and> gst_lenM ib \<le> 8704"

lemma pass_buffer_ok:
  "taruib_inv ib \<Longrightarrow> pass_buffer (gst_lenM ib) ib = Some (ib\<lparr>passed_on := taruib_stream ib\<rparr>)"
  by (auto simp: pass_buffer_def taruib_inv_def taruib_stream_def)



section \<open>Copying with digests\<close>

definition SHA_BLOCKSIZE :: int where "SHA_BLOCKSIZE = 512"
definition DIGS_ENABLE_ON :: "16 word" where "DIGS_ENABLE_ON = 1"

text \<open>The digest routines are parameters: from the pieces they are given, in order, to the text of the md5
  routine and to the bytes of the other two.\<close>

record digest_fns =
  md5_fn :: "char list list \<Rightarrow> string"
  sha1_fn :: "char list list \<Rightarrow> block"
  sha512_fn :: "char list list \<Rightarrow> block"

text \<open>The pieces of at most 1024 bytes in which a block is given to the md5 routine.\<close>

function md5_pieces :: "char list \<Rightarrow> char list list" where
  "md5_pieces buf = (if buf = [] then [] else take 1024 buf # md5_pieces (drop 1024 buf))"
  by auto
termination
  by (relation "measure length") auto

declare md5_pieces.simps [simp del]

text \<open>The loop of \<open>swlib_i_digs_copy\<close> has read and written the blocks \<open>blocks\<close> of which \<open>retval\<close> bytes. A read is
  \<open>taru_tape_buffered_read\<close> without a descriptor in \<open>taruib.c\<close>, or \<open>swlib_safe_read\<close>.\<close>

function digs_copy_loop :: "int \<Rightarrow> int \<Rightarrow> char list \<Rightarrow> char list list \<Rightarrow> int \<times> char list list \<times> char list" where
  "digs_copy_loop count retval inp blocks =
     (let readamount = (if count \<ge> 0 then (if count - retval > SHA_BLOCKSIZE then SHA_BLOCKSIZE else count - retval)
                        else SHA_BLOCKSIZE);
          (buf, inp) = uxfio_sfa_read inp readamount
      in if buf = [] then (retval, blocks, inp)
         else (let retval = retval + int (length buf)
               in if retval < count \<or> count < 0 then digs_copy_loop count retval inp (blocks @ [buf])
                  else (retval, blocks @ [buf], inp)))"
  by auto
termination
  by (relation "measure (\<lambda>(count, retval, inp, blocks). length inp)") (auto simp: uxfio_sfa_read_def)

declare digs_copy_loop.simps [simp del]

text \<open>The two digits of \<open>%02x\<close>.\<close>

definition hex_digit :: "nat \<Rightarrow> char" where
  "hex_digit n = (if n < 10 then char_of (48 + n) else char_of (87 + n))"

definition hex2 :: "char \<Rightarrow> string" where
  "hex2 c = [hex_digit (of_char c div 16), hex_digit (of_char c mod 16)]"

definition finish_digs :: "digest_fns \<Rightarrow> int \<Rightarrow> char list list \<Rightarrow> file_digs \<Rightarrow> file_digs" where
  "finish_digs fns retval blocks digs =
     (let digs = (if do_md5 digs = DIGS_ENABLE_ON
                  then digs\<lparr>md5_hex := take 32 (md5_fn fns (concat (map md5_pieces blocks)))\<rparr> else digs);
          digs = (if do_size digs \<noteq> 0 then digs\<lparr>size_dec := take 31 (dec_string (nat retval))\<rparr> else digs);
          digs = (if do_sha1 digs = DIGS_ENABLE_ON
                  then digs\<lparr>sha1_hex := concat (map hex2 (take 20 (sha1_fn fns blocks)))\<rparr> else digs)
      in if do_sha512 digs = DIGS_ENABLE_ON
         then digs\<lparr>sha512_hex := concat (map hex2 (take 64 (sha512_fn fns blocks)))\<rparr> else digs)"

text \<open>\<open>swlib_i_digs_copy\<close>: the count, what is written to the two descriptors, the digests, the rest of the input.
  A descriptor that is not positive is not written.\<close>

record copied =
  cp_ret :: int
  cp_out :: "char list"
  cp_adjunct :: "char list"
  cp_digs :: "file_digs option"
  cp_rest :: "char list"

definition swlib_i_digs_copy :: "digest_fns \<Rightarrow> int \<Rightarrow> int \<Rightarrow> file_digs option \<Rightarrow> int \<Rightarrow> char list \<Rightarrow> copied" where
  "swlib_i_digs_copy fns ofd count digs adjunct_ofd inp =
     (let (retval, blocks, rest) = digs_copy_loop count 0 inp []
      in \<lparr>cp_ret = retval, cp_out = (if ofd > 0 then concat blocks else []),
          cp_adjunct = (if adjunct_ofd > 0 then concat blocks else []),
          cp_digs = map_option (finish_digs fns retval blocks) digs, cp_rest = rest\<rparr>)"

definition swlib_pump_amount8 :: "digest_fns \<Rightarrow> int \<Rightarrow> int \<Rightarrow> int \<Rightarrow> file_digs option \<Rightarrow> char list \<Rightarrow> copied" where
  "swlib_pump_amount8 fns ofd amount adjunct_ofd digs inp = swlib_i_digs_copy fns ofd amount digs adjunct_ofd inp"

section \<open>Padding and the data of members\<close>

text \<open>\<open>taru_tape_pad_output\<close>: the result and the bytes written. \<open>offset\<close> is signed, so \<open>%\<close> is \<open>smod\<close>.\<close>

definition pad_size :: "int \<Rightarrow> archive_format_in \<Rightarrow> int" where
  "pad_size offset fmt =
     (if fmt = arf_newascii \<or> fmt = arf_crcascii then (4 - (offset smod 4)) smod 4
      else if fmt = arf_tar \<or> fmt = arf_ustar then (512 - (offset smod 512)) smod 512
      else if fmt \<noteq> arf_oldascii \<and> fmt \<noteq> arf_hpoldascii then (2 - (offset smod 2)) smod 2
      else 0)"

definition taru_tape_pad_output :: "int \<Rightarrow> int \<Rightarrow> archive_format_in \<Rightarrow> int \<times> char list" where
  "taru_tape_pad_output out_file_des offset fmt =
     (let pad = pad_size offset fmt
      in if out_file_des < 0 then (0, []) else if pad \<noteq> 0 then (pad, replicate (nat pad) NUL) else (0, []))"

text \<open>\<open>tarui_tape_buffered_write\<close>: without a header buffer the bytes go to the descriptor and their number is
  the result, with one they are copied to its beginning and the result is 0.\<close>

definition tarui_tape_buffered_write ::
  "char list \<Rightarrow> block option \<Rightarrow> (int \<times> char list \<times> block option) option" where
  "tarui_tape_buffered_write in_buf header_buffer =
     (case header_buffer of
        Some b \<Rightarrow> map_option (\<lambda>b. (0, [], Some b)) (mem_write b 0 in_buf)
      | None \<Rightarrow> Some (c_int (int (length in_buf)), in_buf, None))"

text \<open>\<open>tape_clear_rest_of_block\<close>: the result and the zero bytes written.\<close>

function clear_rest_loop :: "int \<Rightarrow> int \<Rightarrow> char list \<Rightarrow> char list" where
  "clear_rest_loop io_block_size n out =
     (if n < io_block_size
      then (let k = (if io_block_size - n > 512 then 512 else io_block_size - n)
            in clear_rest_loop io_block_size (n + k) (out @ replicate (nat k) NUL))
      else out)"
  by auto
termination
  by (relation "measure (\<lambda>(io_block_size, n, out). nat (io_block_size - n))") auto

declare clear_rest_loop.simps [simp del]

definition tape_clear_rest_of_block :: "int \<Rightarrow> 64 word \<Rightarrow> (int \<times> char list) option" where
  "tape_clear_rest_of_block io_block_size output_size =
     (if io_block_size = 0 then None
      else (let out = clear_rest_loop io_block_size (sint (output_size mod of_int io_block_size)) []
            in Some (int (length out), out)))"

text \<open>\<open>taru_read_for_crc_checksum\<close>: \<open>file_size\<close> is an \<open>int\<close>. The sum and the rest of the input.\<close>

function crc_loop :: "int \<Rightarrow> char list \<Rightarrow> nat \<Rightarrow> nat \<times> char list" where
  "crc_loop bytes_left inp crc =
     (if bytes_left > 0
      then (let (buf, inp) = uxfio_sfa_read inp TARU_BUFSIZ
            in if buf = [] then (crc, inp)
               else crc_loop (bytes_left - int (length buf)) inp (crc + byte_sum buf))
      else (crc, inp))"
  by auto
termination
  by (relation "measure (\<lambda>(bytes_left, inp, crc). length inp)") (auto simp: uxfio_sfa_read_def)

declare crc_loop.simps [simp del]

definition taru_read_for_crc_checksum :: "char list \<Rightarrow> int \<Rightarrow> 64 word \<times> char list" where
  "taru_read_for_crc_checksum inp file_size =
     (let (crc, rest) = crc_loop file_size inp 0 in (of_nat crc, rest))"

text \<open>\<open>taru_write_archive_member_data_i\<close>. The input is the bytes of \<open>input_fd\<close>, or none for a negative descriptor:
  then \<open>content name\<close> is the content of the file of the header's name, if it can be opened. \<open>fout\<close> is the result of the
  callback and what it writes. The result names what each descriptor receives.\<close>

record member_data =
  md_ret :: int
  md_out :: "char list"
  md_pad :: "char list"
  md_adjunct :: "char list"
  md_digs :: "file_digs option"
  md_rest :: "char list"

definition no_data_written :: "int \<Rightarrow> file_digs option \<Rightarrow> char list \<Rightarrow> member_data" where
  "no_data_written ret digs inp =
     \<lparr>md_ret = ret, md_out = [], md_pad = [], md_adjunct = [], md_digs = digs, md_rest = inp\<rparr>"

definition taru_write_archive_member_data_i ::
  "digest_fns \<Rightarrow> (string \<Rightarrow> char list option) \<Rightarrow> new_cpio_header \<Rightarrow> int \<Rightarrow> int \<Rightarrow> char list option \<Rightarrow>
   (int \<times> char list) option \<Rightarrow> archive_format_in \<Rightarrow> int \<Rightarrow> file_digs option \<Rightarrow> member_data" where
  "taru_write_archive_member_data_i fns content h out_file_des pad_out_file_des input fout fmt adjunct_ofd digs =
     (if and (c_mode h) CP_IFMT = CP_IFREG \<and> ahsStaticGetTarLinkname h = []
      then (case (case input of Some inp \<Rightarrow> Some inp | None \<Rightarrow> content (ahsStaticGetTarFilename h)) of
              None \<Rightarrow> no_data_written (-1) digs []
            | Some inp \<Rightarrow>
                (case fout of
                   Some (ret, out) \<Rightarrow> (no_data_written ret digs inp)\<lparr>md_out := out\<rparr>
                 | None \<Rightarrow>
                     (let size = sint (c_filesize h);
                          c = swlib_pump_amount8 fns out_file_des size adjunct_ofd digs inp;
                          r = \<lparr>md_ret = -1, md_out = cp_out c, md_pad = [], md_adjunct = cp_adjunct c,
                               md_digs = cp_digs c, md_rest = cp_rest c\<rparr>
                      in if cp_ret c < 0 then r
                         else if cp_ret c \<noteq> size then r
                         else (let (n, pad) = taru_tape_pad_output pad_out_file_des size fmt;
                                   (m, apad) = (if adjunct_ofd \<ge> 0 then taru_tape_pad_output adjunct_ofd size fmt else (0, []));
                                   r = r\<lparr>md_pad := pad\<rparr>
                               in if cp_ret c + n < 0 then r
                                  else if m < 0 then r\<lparr>md_adjunct := cp_adjunct c @ apad\<rparr>
                                  else r\<lparr>md_ret := cp_ret c + n, md_adjunct := cp_adjunct c @ apad\<rparr>))))
      else no_data_written 0 digs (case input of Some inp \<Rightarrow> inp | None \<Rightarrow> []))"

text \<open>\<open>taru_write_archive_member_data\<close> writes data and padding to one descriptor, \<open>taru_write_archive_file_data\<close>
  the padding to the null device.\<close>

definition taru_write_archive_member_data ::
  "digest_fns \<Rightarrow> (string \<Rightarrow> char list option) \<Rightarrow> new_cpio_header \<Rightarrow> int \<Rightarrow> char list option \<Rightarrow>
   (int \<times> char list) option \<Rightarrow> archive_format_in \<Rightarrow> int \<Rightarrow> file_digs option \<Rightarrow> member_data" where
  "taru_write_archive_member_data fns content h out_file_des input fout fmt adjunct_ofd digs =
     (let r = taru_write_archive_member_data_i fns content h out_file_des out_file_des input fout fmt adjunct_ofd digs
      in r\<lparr>md_out := md_out r @ md_pad r, md_pad := []\<rparr>)"

definition taru_write_archive_file_data ::
  "digest_fns \<Rightarrow> (string \<Rightarrow> char list option) \<Rightarrow> new_cpio_header \<Rightarrow> int \<Rightarrow> int \<Rightarrow> char list option \<Rightarrow>
   (int \<times> char list) option \<Rightarrow> archive_format_in \<Rightarrow> member_data" where
  "taru_write_archive_file_data fns content h out_file_des nullfd input fout fmt =
     taru_write_archive_member_data_i fns content h out_file_des nullfd input fout fmt (-1) (digsM h)"

section \<open>Copies are exact\<close>

lemma concat_md5_pieces [simp]: "concat (md5_pieces buf) = buf"
proof (induction buf rule: md5_pieces.induct)
  case (1 buf)
  then show ?case by (subst md5_pieces.simps) auto
qed

lemma concat_concat_md5_pieces: "concat (concat (map md5_pieces blocks)) = concat blocks"
  by (induction blocks) simp_all

lemma digs_copy_loop_ok:
  assumes "count < 0 \<or> int n \<le> count"
  shows "\<exists>cs. digs_copy_loop count (int n) inp blocks =
      (int (n + length (asked_for (if count < 0 then count else count - int n) inp)), blocks @ cs,
       drop (length (asked_for (if count < 0 then count else count - int n) inp)) inp) \<and>
      concat cs = asked_for (if count < 0 then count else count - int n) inp"
  using assms
proof (induction "length inp" arbitrary: n inp blocks rule: less_induct)
  case less
  let ?left = "if count < 0 then count else count - int n"
  define k where "k = (if count < 0 then 512 else nat (min 512 (count - int n)))"
  have rd: "uxfio_sfa_read inp (if count \<ge> 0 then (if count - int n > SHA_BLOCKSIZE then SHA_BLOCKSIZE else count - int n)
      else SHA_BLOCKSIZE) = (take k inp, drop k inp)"
    using less.prems by (auto simp: uxfio_sfa_read_def SHA_BLOCKSIZE_def k_def min_def)
  show ?case
  proof (cases "take k inp = []")
    case True
    then have "asked_for ?left inp = []" using less.prems by (auto simp: asked_for_def k_def split: if_splits)
    moreover have "drop k inp = inp" using True by auto
    ultimately show ?thesis
      using True by (subst digs_copy_loop.simps) (simp add: rd del: take_eq_Nil)
  next
    case False
    let ?xs = "take k inp" and ?rest = "drop k inp"
    define n' where "n' = n + length ?xs"
    have pre: "count < 0 \<or> int n' \<le> count" using less.prems by (auto simp: n'_def k_def)
    have sh: "length ?rest < length inp" using False by auto
    have split: "asked_for ?left inp = ?xs @ asked_for (if count < 0 then count else count - int n') ?rest"
    proof (cases "count < 0")
      case True
      then show ?thesis by (simp add: asked_for_def)
    next
      case nn: False
      have "k \<le> nat (count - int n)" using nn by (simp add: k_def)
      then have a: "take (nat (count - int n)) inp = ?xs @ take (nat (count - int n) - k) ?rest"
        by (metis le_add_diff_inverse take_add)
      have b: "take (nat (count - int n')) ?rest = take (nat (count - int n) - k) ?rest"
      proof (cases "k \<le> length inp")
        case True
        then have "int n' = int n + int k" by (simp add: n'_def)
        then have "nat (count - int n') = nat (count - int n) - k" by linarith
        then show ?thesis by simp
      qed simp
      show ?thesis using nn less.prems pre a b by (auto simp: asked_for_def)
    qed
    have unf: "digs_copy_loop count (int n) inp blocks = (if int n' < count \<or> count < 0
        then digs_copy_loop count (int n') ?rest (blocks @ [?xs]) else (int n', blocks @ [?xs], ?rest))"
      using False by (subst digs_copy_loop.simps) (simp add: rd Let_def n'_def del: length_take take_eq_Nil)
    show ?thesis
    proof (cases "int n' < count \<or> count < 0")
      case True
      from less.hyps [OF sh pre] obtain cs where cs: "digs_copy_loop count (int n') ?rest (blocks @ [?xs]) =
          (int (n' + length (asked_for (if count < 0 then count else count - int n') ?rest)), (blocks @ [?xs]) @ cs,
           drop (length (asked_for (if count < 0 then count else count - int n') ?rest)) ?rest)"
        "concat cs = asked_for (if count < 0 then count else count - int n') ?rest" by blast
      have kx: "k \<le> length inp \<or> ?rest = []" by auto
      have dr: "drop (length (asked_for (if count < 0 then count else count - int n') ?rest)) ?rest =
          drop (length (asked_for ?left inp)) inp"
        using kx unfolding split by (auto simp: min_def add.commute)
      have "digs_copy_loop count (int n) inp blocks = digs_copy_loop count (int n') ?rest (blocks @ [?xs])"
        unfolding unf if_P [OF True] ..
      then show ?thesis
        unfolding cs(1) dr using cs(2) split by (intro exI [of _ "?xs # cs"]) (simp add: n'_def)
    next
      case fin: False
      then have eq: "int n' = count" "0 \<le> count" using pre by auto
      then have nil: "asked_for (if count < 0 then count else count - int n') ?rest = []" by (simp add: asked_for_def)
      have "digs_copy_loop count (int n) inp blocks = (int n', blocks @ [?xs], ?rest)"
        unfolding unf if_not_P [OF fin] ..
      moreover have "drop (length ?xs) inp = ?rest" by (auto simp: min_def)
      ultimately show ?thesis
        unfolding split nil by (intro exI [of _ "[?xs]"]) (simp add: n'_def del: length_take)
    qed
  qed
qed

text \<open>A routine of which the result depends on the bytes it was given, not on how they were cut.\<close>

definition streaming :: "(char list list \<Rightarrow> 'a) \<Rightarrow> bool" where
  "streaming f \<longleftrightarrow> (\<forall>xs ys. concat xs = concat ys \<longrightarrow> f xs = f ys)"

lemma streamingD: "streaming f \<Longrightarrow> concat xs = concat ys \<Longrightarrow> f xs = f ys"
  unfolding streaming_def by blast

definition digests_of :: "digest_fns \<Rightarrow> char list \<Rightarrow> file_digs \<Rightarrow> file_digs" where
  "digests_of fns bs digs = finish_digs (fns\<lparr>md5_fn := \<lambda>_. md5_fn fns [bs]\<rparr>) (int (length bs)) [bs] digs"

lemma finish_digs_streaming:
  assumes "streaming (md5_fn fns)" "streaming (sha1_fn fns)" "streaming (sha512_fn fns)"
  shows "finish_digs fns (int (length (concat blocks))) blocks digs = digests_of fns (concat blocks) digs"
proof -
  have "md5_fn fns (concat (map md5_pieces blocks)) = md5_fn fns [concat blocks]"
    "sha1_fn fns blocks = sha1_fn fns [concat blocks]" "sha512_fn fns blocks = sha512_fn fns [concat blocks]"
    by (rule streamingD [OF assms(1)] streamingD [OF assms(2)] streamingD [OF assms(3)], simp add: concat_concat_md5_pieces)+
  then show ?thesis by (simp add: finish_digs_def digests_of_def)
qed

lemma digs_copy_ok:
  assumes "streaming (md5_fn fns)" "streaming (sha1_fn fns)" "streaming (sha512_fn fns)"
  shows "swlib_i_digs_copy fns ofd count digs adj inp =
    \<lparr>cp_ret = int (length (asked_for count inp)), cp_out = (if ofd > 0 then asked_for count inp else []),
     cp_adjunct = (if adj > 0 then asked_for count inp else []),
     cp_digs = map_option (digests_of fns (asked_for count inp)) digs, cp_rest = drop (length (asked_for count inp)) inp\<rparr>"
proof -
  have "count < 0 \<or> int 0 \<le> count" by auto
  from digs_copy_loop_ok [OF this, of inp "[]"] obtain cs where
    "digs_copy_loop count 0 inp [] = (int (length (asked_for count inp)), cs, drop (length (asked_for count inp)) inp)"
    "concat cs = asked_for count inp" by (auto cong: if_cong)
  then show ?thesis
    using finish_digs_streaming [OF assms, of cs] by (cases digs) (simp_all add: swlib_i_digs_copy_def)
qed

text \<open>What the writer pads the reader skips, for the formats both know.\<close>

lemma pad_size_skip_pad:
  assumes "int n < 2 ^ 63" "fmt \<noteq> arf_unknown" "fmt \<noteq> arf_filesystem"
  shows "pad_size (int n) fmt = uint (skip_pad (of_nat n) fmt)"
proof -
  have n: "unat (of_nat n :: 64 word) = n" using assms(1) by (simp add: unat_of_nat)
  have p: "(int b - (int n smod int b)) smod int b = uint ((of_nat b - ((of_nat n :: 64 word) mod of_nat b)) mod of_nat b)"
    if "b \<in> {2, 4, 512}" for b
  proof -
    have b: "0 < b" using that by auto
    have "int n smod int b = int (n mod b)" by (simp add: smod_int_alt_def zmod_int sgn_if)
    moreover have "n mod b < b" using b by simp
    moreover have "(int b - int (n mod b)) smod int b = int ((b - n mod b) mod b)"
      using b by (simp add: smod_int_alt_def zmod_int sgn_if of_nat_diff less_imp_le)
    ultimately show ?thesis using pad_word [OF that, of "of_nat n"] n by (simp add: uint_nat)
  qed
  note q = p [of 2, simplified] p [of 4, simplified] p [of 512, simplified]
  show ?thesis using assms(2,3) by (cases fmt) (simp_all add: pad_size_def skip_pad_def q)
qed

lemma taru_tape_pad_output_ok:
  assumes "int n < 2 ^ 63" "0 \<le> fd" "fmt \<noteq> arf_unknown" "fmt \<noteq> arf_filesystem"
  shows "taru_tape_pad_output fd (int n) fmt =
    (int (unat (skip_pad (of_nat n) fmt)), replicate (unat (skip_pad (of_nat n) fmt)) NUL)"
proof (cases "skip_pad (of_nat n) fmt = 0")
  case True
  then show ?thesis using assms by (simp add: taru_tape_pad_output_def pad_size_skip_pad)
next
  case False
  then have "uint (skip_pad (of_nat n) fmt) \<noteq> 0" by (simp add: uint_0_iff)
  then show ?thesis using assms by (simp add: taru_tape_pad_output_def pad_size_skip_pad Let_def)
qed

text \<open>A header whose data is archived from a descriptor.\<close>

definition regular_data :: "new_cpio_header \<Rightarrow> bool" where
  "regular_data h \<longleftrightarrow> and (c_mode h) CP_IFMT = CP_IFREG \<and> ahsStaticGetTarLinkname h = [] \<and> unat (c_filesize h) < 2 ^ 63"

definition padding_of :: "new_cpio_header \<Rightarrow> archive_format_in \<Rightarrow> char list" where
  "padding_of h fmt = replicate (unat (skip_pad (c_filesize h) fmt)) NUL"

lemma size_word: "unat (c_filesize h) < 2 ^ 63 \<Longrightarrow> sint (c_filesize h) = uint (c_filesize h) \<and> uint (c_filesize h) < 2 ^ 63"
proof -
  assume "unat (c_filesize h) < 2 ^ 63"
  then have "int (unat (c_filesize h)) < 2 ^ 63" by (metis of_nat_less_iff of_nat_numeral of_nat_power)
  then have "uint (c_filesize h) < 2 ^ 63" by simp
  moreover have "- (2 ^ 63) \<le> uint (c_filesize h)" by (rule order_trans [OF _ uint_ge_0]) simp
  ultimately show ?thesis using signed_take_bit_int_eq_self [of 63 "uint (c_filesize h)"] by (simp add: sint_uint)
qed

lemma member_data_ok:
  assumes "regular_data h" "unat (c_filesize h) \<le> length inp" "0 \<le> fd" "0 \<le> pad_fd" "fmt \<noteq> arf_unknown" "fmt \<noteq> arf_filesystem"
    "streaming (md5_fn fns)" "streaming (sha1_fn fns)" "streaming (sha512_fn fns)"
  shows "taru_write_archive_member_data_i fns content h fd pad_fd (Some inp) None fmt adj digs =
    \<lparr>md_ret = int (unat (c_filesize h) + length (padding_of h fmt)),
     md_out = (if fd > 0 then take (unat (c_filesize h)) inp else []), md_pad = padding_of h fmt,
     md_adjunct = (if adj > 0 then take (unat (c_filesize h)) inp @ padding_of h fmt else if adj = 0 then padding_of h fmt else []),
     md_digs = map_option (digests_of fns (take (unat (c_filesize h)) inp)) digs,
     md_rest = drop (unat (c_filesize h)) inp\<rparr>"
proof -
  have sz: "sint (c_filesize h) = uint (c_filesize h)" "int (unat (c_filesize h)) < 2 ^ 63"
    using assms(1) size_word [of h] by (auto simp: regular_data_def)
  let ?n = "uint (c_filesize h)" and ?k = "uint (skip_pad (c_filesize h) fmt)"
  have af: "asked_for ?n inp = take (unat (c_filesize h)) inp" by (simp add: asked_for_def)
  have la: "int (length (take (unat (c_filesize h)) inp)) = ?n" using assms(2) by simp
  have nn: "\<not> ?n + ?k < 0" "\<not> ?k < 0" "\<not> ?n < 0" by (simp_all add: not_less)
  have w: "(of_nat (unat (c_filesize h)) :: 64 word) = c_filesize h" by simp
  have pad: "taru_tape_pad_output f ?n fmt = (?k, padding_of h fmt)" if "0 \<le> f" for f
    using taru_tape_pad_output_ok [OF sz(2) that assms(5,6)] by (simp add: padding_of_def)
  have lr: "int (unat (c_filesize h) + length (padding_of h fmt)) = ?n + ?k" by (simp add: padding_of_def)
  have ld: "length (take (unat (c_filesize h)) inp) = unat (c_filesize h)" using assms(2) by simp
  have reg: "and (c_mode h) CP_IFMT = CP_IFREG \<and> ahsStaticGetTarLinkname h = []" using assms(1) by (simp add: regular_data_def)
  show ?thesis
    unfolding lr taru_write_archive_member_data_i_def if_P [OF reg] swlib_pump_amount8_def digs_copy_ok [OF assms(7-9)] sz(1) af
    using pad [OF assms(4)] pad [of adj]
    by (cases "0 \<le> adj") (simp_all add: Let_def af nn la ld del: length_take)
qed


text \<open>a member whose input ends early is reported, although the bytes that were there have been written.\<close>

theorem short_member_data_fails:
  assumes "regular_data h" "length inp < unat (c_filesize h)" "0 < fd"
    "streaming (md5_fn fns)" "streaming (sha1_fn fns)" "streaming (sha512_fn fns)"
  shows "taru_write_archive_member_data fns content h fd (Some inp) None fmt adj digs =
     \<lparr>md_ret = -1, md_out = inp, md_pad = [], md_adjunct = (if adj > 0 then inp else []),
      md_digs = map_option (digests_of fns inp) digs, md_rest = []\<rparr>"
proof -
  have sz: "sint (c_filesize h) = uint (c_filesize h)" using assms(1) size_word [of h] by (simp add: regular_data_def)
  have af: "asked_for (uint (c_filesize h)) inp = inp" using assms(2) by (simp add: asked_for_def)
  have lt: "int (length inp) \<noteq> uint (c_filesize h)" using assms(2) by (metis nat_int nat_uint_eq less_irrefl)
  show ?thesis
    using assms(1,3) lt
    by (simp add: taru_write_archive_member_data_def taru_write_archive_member_data_i_def swlib_pump_amount8_def
        digs_copy_ok [OF assms(4-6)] af sz regular_data_def Let_def)
qed

section \<open>The checksum of cpio members\<close>

lemma byte_sum_append [simp]: "byte_sum (xs @ ys) = byte_sum xs + byte_sum ys"
  by (simp add: byte_sum_def)

lemma crc_loop_ok:
  assumes "n \<le> length inp"
  shows "crc_loop (int n) inp crc =
    (crc + byte_sum (take (8192 * ((n + 8191) div 8192)) inp), drop (8192 * ((n + 8191) div 8192)) inp)"
  using assms
proof (induction n arbitrary: inp crc rule: less_induct)
  case (less n)
  show ?case
  proof (cases "n = 0")
    case True
    then show ?thesis by (subst crc_loop.simps) (simp add: byte_sum_def)
  next
    case False
    let ?xs = "take 8192 inp"
    have ne: "?xs \<noteq> []" using False less.prems by auto
    show ?thesis
    proof (cases "n \<le> 8192")
      case True
      have "(n + 8191) div 8192 = 1" using True False by (intro div_nat_eqI) auto
      moreover have "int n - int (length ?xs) \<le> 0" using True less.prems by (simp add: min_def)
      then have "crc_loop (int n - int (length ?xs)) (drop 8192 inp) (crc + byte_sum ?xs) = (crc + byte_sum ?xs, drop 8192 inp)"
        by (subst crc_loop.simps) (simp del: length_take)
      ultimately show ?thesis
        using ne False by (subst crc_loop.simps) (simp add: uxfio_sfa_read_def TARU_BUFSIZ_def del: length_take take_eq_Nil)
    next
      case big: False
      then have l: "length ?xs = 8192" "int n - int (length ?xs) = int (n - 8192)" using less.prems by auto
      have q: "(n + 8191) div 8192 = Suc ((n - 8192 + 8191) div 8192)"
      proof -
        obtain m where "n = m + 8192" using big by (metis le_add_diff_inverse2 nat_le_linear)
        then show ?thesis by simp
      qed
      let ?m = "8192 * ((n - 8192 + 8191) div 8192)"
      have "crc_loop (int n) inp crc = crc_loop (int (n - 8192)) (drop 8192 inp) (crc + byte_sum ?xs)"
        using ne False l(2) by (subst crc_loop.simps) (simp add: uxfio_sfa_read_def TARU_BUFSIZ_def del: length_take take_eq_Nil)
      also have "\<dots> = (crc + byte_sum ?xs + byte_sum (take ?m (drop 8192 inp)), drop ?m (drop 8192 inp))"
        by (rule less.IH) (use big less.prems in auto)
      also have "\<dots> = (crc + byte_sum (take (8192 + ?m) inp), drop (8192 + ?m) inp)"
        by (simp only: take_add byte_sum_append drop_drop add.assoc add.commute [of ?m 8192])
      finally show ?thesis unfolding q mult_Suc_right by (simp only: mult_1_right)
    qed
  qed
qed

text \<open>the checksum of a cpio member is that of the data rounded up to whole buffers of 8192 bytes, so it
  covers what follows the member on the descriptor.\<close>

theorem crc_covers_following_bytes:
  assumes "0 < n" "n \<le> length inp" "int n < 2 ^ 31"
  shows "taru_read_for_crc_checksum inp (int n) =
    (of_nat (byte_sum (take n inp)) + of_nat (byte_sum (take (8192 * ((n + 8191) div 8192) - n) (drop n inp))),
     drop (8192 * ((n + 8191) div 8192)) inp)"
proof -
  have "n \<le> 8192 * ((n + 8191) div 8192)" by linarith
  then have "take (8192 * ((n + 8191) div 8192)) inp = take n inp @ take (8192 * ((n + 8191) div 8192) - n) (drop n inp)"
    by (metis le_add_diff_inverse take_add)
  then show ?thesis
    using crc_loop_ok [OF assms(2), of 0] by (simp add: taru_read_for_crc_checksum_def)
qed

section \<open>Concrete instances\<close>



definition plain_fns :: digest_fns where
  "plain_fns = \<lparr>md5_fn = concat, sha1_fn = concat, sha512_fn = concat\<rparr>"

lemma plain_fns_streaming: "streaming (md5_fn plain_fns)" "streaming (sha1_fn plain_fns)" "streaming (sha512_fn plain_fns)"
  by (auto simp: streaming_def plain_fns_def)

lemma small_regular_data: "regular_data (fresh_header\<lparr>c_mode := 0x81A4, c_filesize := 3\<rparr>)"
  by (simp add: regular_data_def ahsStaticGetTarLinkname_def ahsStaticGetTarname_i_def)


theorem short_member_data_fails_witness:
  "taru_write_archive_member_data plain_fns (\<lambda>_. None) (fresh_header\<lparr>c_mode := 0x81A4, c_filesize := 3\<rparr>) 1
       (Some ''ab'') None arf_ustar (-1) None =
     \<lparr>md_ret = -1, md_out = ''ab'', md_pad = [], md_adjunct = [], md_digs = None, md_rest = []\<rparr>"
  using short_member_data_fails [OF small_regular_data _ _ plain_fns_streaming, of "''ab''" 1 "\<lambda>_. None" arf_ustar "-1" None]
  by simp

theorem crc_covers_following_bytes_witness:
  "taru_read_for_crc_checksum ''abc'' 2 = (of_nat (byte_sum ''ab'') + of_nat (byte_sum ''c''), [])"
  using crc_covers_following_bytes [of 2 "''abc''"] by simp

end
