(* ===== verification/Cpio.thy ===== *)
theory Cpio
  imports Tape
begin

text \<open>
  The headers of cpio archives: \<open>taru_write_out_header\<close> and \<open>taru_write_archive_trailer\<close> of
  \<open>taru/copyout.c\<close>, \<open>taru_read_in_header\<close> and \<open>taru_read_header\<close> of \<open>taru/readinheader.c\<close>, and the readers of
  \<open>taru/copyinnew.c\<close> and \<open>taru/copyinold.c\<close>. The preview lines and messages are not modelled. The integers of
  the C library are those of a 64 bit little endian system.
\<close>

section \<open>Numbers of a fixed width\<close>

text \<open>\<open>%0<w>lo\<close> and \<open>%0<w>lx\<close>: the digits to the base 8 or 16, with zeros up to the width.\<close>

function radix_string :: "nat \<Rightarrow> nat \<Rightarrow> string" where
  "radix_string b n = (if b < 2 \<or> n < b then [hex_digit n] else radix_string b (n div b) @ [hex_digit (n mod b)])"
  by auto
termination
  by (relation "measure (\<lambda>(b, n). n)") (auto simp: not_less)

declare radix_string.simps [simp del]

definition zpad :: "nat \<Rightarrow> string \<Rightarrow> string" where
  "zpad w s = replicate (w - length s) CHR ''0'' @ s"

definition fmt_lx :: "nat \<Rightarrow> 64 word \<Rightarrow> string" where
  "fmt_lx w v = zpad w (radix_string 16 (unat v))"

definition fmt_lo :: "nat \<Rightarrow> 64 word \<Rightarrow> string" where
  "fmt_lo w v = zpad w (radix_string 8 (unat v))"

text \<open>One conversion \<open>%<w>lo\<close> or \<open>%<w>lx\<close> of \<open>sscanf\<close>: blanks are skipped, then at most \<open>w\<close> characters are taken as
  \<open>strtoul\<close> takes them. \<^term>\<open>None\<close> is a matching failure, which ends the scan.\<close>

definition radix_val :: "char \<Rightarrow> nat" where
  "radix_val c = (if isdigit c then of_char c - 48 else of_char (toupper c) - 55)"

definition radix_digit :: "nat \<Rightarrow> char \<Rightarrow> bool" where
  "radix_digit b c \<longleftrightarrow> (isdigit c \<or> (CHR ''A'' \<le> toupper c \<and> toupper c \<le> CHR ''F'')) \<and> radix_val c < b"

definition scan_ul :: "nat \<Rightarrow> nat \<Rightarrow> string \<Rightarrow> (64 word \<times> string) option" where
  "scan_ul b w s =
     (let s = dropWhile isspace s;
          item = take w s;
          sg = (case item of c # _ \<Rightarrow> if c = CHR ''-'' \<or> c = CHR ''+'' then 1 else 0 | [] \<Rightarrow> 0);
          hex = (if b = 16 \<and> map toupper (take 2 (drop sg item)) = ''0X'' then 2 else 0);
          ds = takeWhile (radix_digit b) (drop (sg + hex) item);
          v = min (foldl (\<lambda>v c. v * b + radix_val c) 0 ds) (2 ^ 64 - 1)
      in if ds = [] then None
         else Some ((if take 1 item = ''-'' then - of_nat v else of_nat v), drop (sg + hex + length ds) s))"

fun sscanf_ul :: "nat \<Rightarrow> nat list \<Rightarrow> string \<Rightarrow> 64 word list" where
  "sscanf_ul b [] s = []"
| "sscanf_ul b (w # ws) s = (case scan_ul b w s of None \<Rightarrow> [] | Some (v, s) \<Rightarrow> v # sscanf_ul b ws s)"

text \<open>The variable of the \<open>i\<close>-th conversion: it keeps its value when the scan ended before.\<close>

definition scanned :: "64 word list \<Rightarrow> nat \<Rightarrow> 64 word \<Rightarrow> 64 word" where
  "scanned vs i old = (if i < length vs then vs ! i else old)"

section \<open>Device numbers\<close>

definition c_major :: "64 word \<Rightarrow> 32 word" where
  "c_major dev = ucast (or (and (drop_bit 8 dev) 0xFFF) (and (drop_bit 32 dev) (not 0xFFF)))"

definition hdr_dev :: "new_cpio_header \<Rightarrow> 64 word" where
  "hdr_dev h = c_makedev (ucast (c_dev_maj h)) (ucast (c_dev_min h))"

definition hdr_rdev :: "new_cpio_header \<Rightarrow> 64 word" where
  "hdr_rdev h = c_makedev (ucast (c_rdev_maj h)) (ucast (c_rdev_min h))"

definition special_file :: "new_cpio_header \<Rightarrow> bool" where
  "special_file h \<longleftrightarrow> and (c_mode h) CP_IFMT \<in> set [CP_IFCHR, CP_IFBLK, CP_IFSOCK, CP_IFIFO]"

section \<open>Writing\<close>

definition TARU_TAR_DO_STRIP_LEADING_SLASH :: tarflags where "TARU_TAR_DO_STRIP_LEADING_SLASH = 0x80"
definition CPIO_INBAND_EOA_FILENAME :: string where "CPIO_INBAND_EOA_FILENAME = ''TRAILER!!!''"

text \<open>The \<open>namesize\<close> bytes of a name, of which the last is the terminating NUL.\<close>

definition name_bytes :: "new_cpio_header \<Rightarrow> char list option" where
  "name_bytes h =
     (let name = ahsStaticGetTarFilename h
      in if unat (c_namesize h) \<le> length name + 1 then Some (take (unat (c_namesize h)) (name @ [NUL])) else None)"

text \<open>The text of \<open>ascii_header\<close>, an array of 112 or 78 characters.\<close>

definition newc_text :: "string \<Rightarrow> new_cpio_header \<Rightarrow> string option" where
  "newc_text magic h =
     (let s = magic @ concat (map (fmt_lx 8) [c_ino h, c_mode h, c_uid h, c_gid h, c_nlink h, c_mtime h, c_filesize h,
            c_dev_maj h, c_dev_min h, c_rdev_maj h, c_rdev_min h, c_namesize h, c_chksum h])
      in if length s < 112 then Some s else None)"

definition odc_text :: "64 word \<Rightarrow> 64 word \<Rightarrow> new_cpio_header \<Rightarrow> string option" where
  "odc_text dev rdev h =
     (let low = (\<lambda>v. fmt_lo 6 (and v 0xFFFF));
          s = ''070707'' @ low dev @ low (c_ino h) @ low (c_mode h) @ low (c_uid h) @ low (c_gid h) @ low (c_nlink h) @
              low rdev @ fmt_lo 11 (c_mtime h) @ low (c_namesize h) @ fmt_lo 11 (c_filesize h)
      in if length s < 78 then Some s else None)"

definition le16 :: "64 word \<Rightarrow> char list" where
  "le16 v = [char_of (unat (and v 0xFF)), char_of (unat (and (drop_bit 8 v) 0xFF))]"

definition bin_bytes :: "64 word \<Rightarrow> 64 word \<Rightarrow> new_cpio_header \<Rightarrow> char list" where
  "bin_bytes dev rdev h =
     concat (map le16 [0x71C7, dev, c_ino h, c_mode h, c_uid h, c_gid h, c_nlink h, rdev,
       drop_bit 16 (c_mtime h), c_mtime h, c_namesize h, drop_bit 16 (c_filesize h), c_filesize h])"

text \<open>The numbers of special files for HP/UX: the device number in the file size.\<close>

definition hp_numbers :: "64 word \<Rightarrow> new_cpio_header \<Rightarrow> 64 word \<times> 64 word \<times> new_cpio_header" where
  "hp_numbers dev h =
     (if special_file h then (dev, 1, h\<lparr>c_filesize := hdr_rdev h\<rparr>) else (hdr_dev h, hdr_rdev h, h))"

text \<open>A sequence of writes by \<open>tarui_tape_buffered_write\<close> of which the results are added.\<close>

fun buffered_writes :: "char list list \<Rightarrow> block option \<Rightarrow> (int \<times> char list \<times> block option) option" where
  "buffered_writes [] hb = Some (0, [], hb)"
| "buffered_writes (bs # rest) hb = do {
     (n, out, hb) \<leftarrow> tarui_tape_buffered_write bs hb;
     (m, out', hb) \<leftarrow> buffered_writes rest hb;
     Some (n + m, out @ out', hb) }"

text \<open>\<open>taru_write_out_header\<close>: the result, what is written to the descriptor, the caller's buffer, and the changed
  state. For tar the descriptor takes the record in one write.\<close>

record header_out =
  ho_ret :: int
  ho_bytes :: "char list"
  ho_buffer :: "block option"
  ho_hdr :: new_cpio_header
  ho_owners :: owners
  ho_taru :: taru

definition taru_write_out_header ::
  "owners \<Rightarrow> taru \<Rightarrow> new_cpio_header \<Rightarrow> int \<Rightarrow> archive_format_in \<Rightarrow> block option \<Rightarrow> tarflags \<Rightarrow> header_out option" where
  "taru_write_out_header w taru h out_des fmt hb tarheaderflags =
     (let h = (if flag_set tarheaderflags TARU_TAR_DO_STRIP_LEADING_SLASH then ahsStatic_strip_name_leading_slash h else h);
          done = (\<lambda>h ret out hb. \<lparr>ho_ret = ret, ho_bytes = out, ho_buffer = hb, ho_hdr = h, ho_owners = w, ho_taru = taru\<rparr>)
      in if fmt = arf_newascii \<or> fmt = arf_crcascii then do {
           let h = (if fmt = arf_crcascii then h else h\<lparr>c_chksum := 0\<rparr>);
           text \<leftarrow> newc_text (if fmt = arf_crcascii then ''070702'' else ''070701'') h;
           name \<leftarrow> name_bytes h;
           (ret, out, hb) \<leftarrow> buffered_writes [take 110 text, name] hb;
           let (n, pad) = taru_tape_pad_output out_des (sint (c_namesize h + 110)) fmt;
           Some (done h (ret + n) (out @ pad) hb) }
         else if fmt = arf_oldascii \<or> fmt = arf_hpoldascii then do {
           let (dev, rdev, h) = (if fmt = arf_oldascii then (hdr_dev h, hdr_rdev h, h) else hp_numbers 0 h);
           text \<leftarrow> odc_text dev rdev h;
           name \<leftarrow> name_bytes h;
           (ret, out, hb) \<leftarrow> buffered_writes [take 76 text, name] hb;
           Some (done h ret out hb) }
         else if fmt = arf_tar \<or> fmt = arf_ustar then do {
           (ret, hdr, w', taru') \<leftarrow> taru_write_out_tar_header2 w taru h (Some [int TARRECORDSIZE])
             (Some (ahsStaticGetTarUsername h)) (Some (ahsStaticGetTarGroupname h)) tarheaderflags;
           Some ((done h ret (if ret = int TARRECORDSIZE then hdr else []) hb)\<lparr>ho_owners := w', ho_taru := taru'\<rparr>) }
         else do {
           let (dev, rdev, h) = (if fmt \<noteq> arf_hpbinary then (hdr_dev h, hdr_rdev h, h) else hp_numbers (hdr_dev h) h);
           name \<leftarrow> name_bytes h;
           (ret, out, hb) \<leftarrow> buffered_writes [bin_bytes dev rdev h, name] hb;
           let (n, pad) = taru_tape_pad_output out_des (sint (c_namesize h + 26)) fmt;
           Some (done h (ret + n) (out @ pad) hb) })"

text \<open>The fields of the trailer's header.\<close>

definition trailer_header :: "new_cpio_header \<Rightarrow> new_cpio_header" where
  "trailer_header h =
     ahsStaticSetTarFilename (h\<lparr>c_ino := 0, c_mode := 0, c_uid := 0, c_gid := 0, c_nlink := 1, c_dev_maj := 0, c_dev_min := 0,
       c_rdev_maj := 0, c_rdev_min := 0, c_mtime := 0, c_chksum := 0, c_filesize := 0, c_namesize := 11\<rparr>)
       (Some CPIO_INBAND_EOA_FILENAME)"

text \<open>\<open>taru_write_archive_trailer\<close>: the result and the bytes written. \<open>h\<close> is the header of \<open>ahsStaticCreateFilehdr\<close>.\<close>

definition trailer_blocks :: "int \<Rightarrow> 64 word \<Rightarrow> tarflags \<Rightarrow> int" where
  "trailer_blocks gnu_tar_block_size bytes_written flags =
     (if flag_set flags TARU_TAR_GNU_BLOCKSIZE_B1 then (if flag_set flags TARU_TAR_BE_LIKE_STAR then 3 else 2)
      else if flag_set flags TARU_TAR_GNU_OLDGNUTAR
      then (let n_tar_blocks = gnu_tar_block_size sdiv 512;
                nblock = c_int (uint ((bytes_written mod of_int gnu_tar_block_size) div 512));
                nblock = n_tar_blocks - nblock
            in if nblock < 2 then nblock + n_tar_blocks else nblock)
      else 2)"

definition taru_write_archive_trailer ::
  "owners \<Rightarrow> taru \<Rightarrow> new_cpio_header \<Rightarrow> archive_format_in \<Rightarrow> int \<Rightarrow> int \<Rightarrow> 64 word \<Rightarrow> tarflags \<Rightarrow>
   (int \<times> char list) option" where
  "taru_write_archive_trailer w taru h fmt fd io_block_size bytes_written flags =
     (let gnu_tar_block_size = (if io_block_size \<noteq> 0 then io_block_size else 10240)
      in if fmt \<noteq> arf_tar \<and> fmt \<noteq> arf_ustar then do {
           r \<leftarrow> taru_write_out_header w taru (trailer_header h) fd fmt None 0;
           if bytes_written \<noteq> 0 then do {
             let bytes_written = (if ho_ret r > 0 then bytes_written + of_int (ho_ret r) else bytes_written);
             (n, zeros) \<leftarrow> tape_clear_rest_of_block 512 bytes_written;
             Some (ho_ret r + n, ho_bytes r @ zeros) }
           else Some (ho_ret r, ho_bytes r) }
         else do {
           let aligned = (bytes_written mod 512 = 0);
           let nblock = trailer_blocks gnu_tar_block_size bytes_written (if aligned then flags else 0);
           let zeros = concat (replicate (nat nblock) (replicate 512 NUL));
           Some (if aligned then int (length zeros) else -1, zeros) })"

section \<open>Reading\<close>

text \<open>The name field after a read of \<open>bytes\<close> into it. Bytes that were not read are indeterminate, so there must be a
  NUL among those that were.\<close>

definition read_name :: "char list \<Rightarrow> new_cpio_header \<Rightarrow> new_cpio_header option" where
  "read_name bytes h = (if NUL \<in> set bytes then Some (h\<lparr>c_name := Some (cstr bytes)\<rparr>) else None)"

text \<open>\<open>tarui_read_new_ascii_from_buf\<close>. The value of the file size is indeterminate before the seventh conversion.\<close>

definition tarui_read_new_ascii_from_buf :: "new_cpio_header \<Rightarrow> string \<Rightarrow> (int \<times> new_cpio_header) option" where
  "tarui_read_new_ascii_from_buf h s =
     (let vs = sscanf_ul 16 (replicate 13 8) s
      in if length vs < 7 then None
         else (let h = h\<lparr>c_ino := scanned vs 0 (c_ino h), c_mode := scanned vs 1 (c_mode h), c_uid := scanned vs 2 (c_uid h),
                   c_gid := scanned vs 3 (c_gid h), c_nlink := scanned vs 4 (c_nlink h), c_mtime := scanned vs 5 (c_mtime h),
                   c_filesize := vs ! 6, c_dev_maj := scanned vs 7 (c_dev_maj h), c_dev_min := scanned vs 8 (c_dev_min h),
                   c_rdev_maj := scanned vs 9 (c_rdev_maj h), c_rdev_min := scanned vs 10 (c_rdev_min h),
                   c_namesize := scanned vs 11 (c_namesize h), c_chksum := scanned vs 12 (c_chksum h)\<rparr>
               in Some (if c_namesize h > 6000 then -1 else 104, h)))"

text \<open>\<open>taru_read_in_new_ascii\<close> from a descriptor: the result, the header and the rest of the input.\<close>

definition taru_read_in_new_ascii ::
  "new_cpio_header \<Rightarrow> archive_format_in \<Rightarrow> char list \<Rightarrow> (int \<times> new_cpio_header \<times> char list) option" where
  "taru_read_in_new_ascii h fmt inp =
     (let (ascii_header, inp) = uxfio_sfa_read inp 104
      in if length ascii_header \<noteq> 104 then Some (-1, h, inp)
         else do {
           (bytesread, h) \<leftarrow> tarui_read_new_ascii_from_buf h (cstr ascii_header);
           if bytesread < 0 then Some (- bytesread, h, inp)
           else do {
             let (name, inp) = uxfio_sfa_read inp (uint (c_namesize h));
             h \<leftarrow> read_name name h;
             let bytesread = bytesread + uint (c_namesize h);
             (n, inp) \<leftarrow> skip_padding (of_int (bytesread + 6)) fmt inp;
             Some (bytesread + n, h, inp) } })"

text \<open>\<open>taru_read_in_old_ascii2\<close> from a descriptor. All ten values are used.\<close>

definition odc_fix_hp :: "new_cpio_header \<Rightarrow> new_cpio_header" where
  "odc_fix_hp h =
     (if special_file h \<and> c_filesize h \<noteq> 0 \<and> c_rdev_maj h = 0 \<and> c_rdev_min h = 1
      then h\<lparr>c_rdev_maj := ucast (c_major (c_filesize h)), c_rdev_min := ucast (c_minor (c_filesize h)), c_filesize := 0\<rparr>
      else h)"

definition taru_read_in_old_ascii2 :: "new_cpio_header \<Rightarrow> char list \<Rightarrow> (int \<times> new_cpio_header \<times> char list) option" where
  "taru_read_in_old_ascii2 h inp =
     (let (ascii_header, inp) = uxfio_sfa_read inp 70
      in if length ascii_header \<noteq> 70 then Some (-1, h, inp)
         else do {
           let vs = sscanf_ul 8 [6, 6, 6, 6, 6, 6, 6, 11, 6, 11] (cstr ascii_header);
           _ \<leftarrow> (if length vs < 10 then None else Some ());
           let h = h\<lparr>c_ino := vs ! 1, c_mode := vs ! 2, c_uid := vs ! 3, c_gid := vs ! 4, c_nlink := vs ! 5, c_mtime := vs ! 7,
                 c_namesize := vs ! 8, c_filesize := vs ! 9,
                 c_dev_maj := ucast (c_major (vs ! 0)), c_dev_min := ucast (c_minor (vs ! 0)),
                 c_rdev_maj := ucast (c_major (vs ! 6)), c_rdev_min := ucast (c_minor (vs ! 6))\<rparr>;
           let (name, inp) = uxfio_sfa_read inp (uint (c_namesize h));
           if int (length name) \<noteq> c_int (uint (c_namesize h)) then Some (-70, h, inp)
           else do {
             h \<leftarrow> read_name name h;
             Some (70 + uint (c_namesize h), odc_fix_hp h, inp) } })"

text \<open>\<open>taru_read_in_header\<close>: the bytes of the magic are read into the header, of which they fill \<open>c_magic\<close>. The result
  is the returned number, \<open>*p_eoa\<close>, the header and the rest of the input. For tar it is the reader of tar headers.\<close>

definition magic_of :: "char list \<Rightarrow> 16 word" where
  "magic_of m = of_nat (of_char (m ! 0) + 256 * of_char (m ! 1))"

definition at_trailer :: "new_cpio_header \<Rightarrow> bool \<Rightarrow> bool" where
  "at_trailer h eoa \<longleftrightarrow> eoa \<or> ahsStaticGetTarFilename h = CPIO_INBAND_EOA_FILENAME"

function magic_loop ::
  "archive_format_in \<Rightarrow> new_cpio_header \<Rightarrow> char list \<Rightarrow> int \<Rightarrow> bool \<Rightarrow> char list \<Rightarrow>
   (int \<times> bool \<times> new_cpio_header \<times> char list) option" where
  "magic_loop fmt h m retval eoa inp =
     (let h = h\<lparr>c_magic := magic_of m\<rparr>
      in if fmt = arf_newascii \<and> m = ''070701'' \<or> fmt = arf_crcascii \<and> m = ''070702'' then do {
           (ret, h, inp) \<leftarrow> taru_read_in_new_ascii h fmt inp;
           Some (if ret < 0 then (- retval, eoa, h, inp) else (retval + ret, at_trailer h eoa, h, inp)) }
         else if (fmt = arf_oldascii \<or> fmt = arf_hpoldascii) \<and> m = ''070707'' then do {
           (ret, h, inp) \<leftarrow> taru_read_in_old_ascii2 h inp;
           Some (if ret \<le> 0 then (- retval, eoa, h, inp) else (retval + ret, at_trailer h eoa, h, inp)) }
         else if (fmt = arf_binary \<or> fmt = arf_hpbinary) \<and> (c_magic h = 0x71C7 \<or> c_magic h = 0xC771)
         then Some (retval, eoa, h, inp)
         else (case inp of
                 [] \<Rightarrow> Some (- retval, eoa, h, [])
               | c # inp \<Rightarrow> magic_loop fmt h (drop 1 m @ [c]) (retval + 1) eoa inp))"
  by auto
termination
  by (relation "measure (\<lambda>(fmt, h, m, retval, eoa, inp). length inp)") auto

declare magic_loop.simps [simp del]

definition taru_read_in_header ::
  "(new_cpio_header \<Rightarrow> char list \<Rightarrow> (int \<times> bool \<times> new_cpio_header \<times> char list) option) \<Rightarrow>
   archive_format_in \<Rightarrow> new_cpio_header \<Rightarrow> bool \<Rightarrow> char list \<Rightarrow> (int \<times> bool \<times> new_cpio_header \<times> char list) option" where
  "taru_read_in_header read_tar fmt h eoa inp =
     (if fmt = arf_unknown then Some (-1, eoa, h, inp)
      else if fmt = arf_tar \<or> fmt = arf_ustar then
        map_option (\<lambda>(ret, e, h, rest). (if ret < 0 then -1 else ret, eoa \<or> e, h, rest)) (read_tar h inp)
      else (let h = ahsStaticSetPaxLinkname h None; (m, inp) = uxfio_sfa_read inp 6
            in if length m \<noteq> 6 then Some (-1, eoa, h, inp) else magic_loop fmt h m 6 eoa inp))"

text \<open>\<open>taru_read_header\<close>: a symbolic link of a cpio archive has its target as data.\<close>

definition taru_read_header ::
  "(new_cpio_header \<Rightarrow> char list \<Rightarrow> (int \<times> bool \<times> new_cpio_header \<times> char list) option) \<Rightarrow>
   archive_format_in \<Rightarrow> new_cpio_header \<Rightarrow> bool \<Rightarrow> char list \<Rightarrow> (int \<times> bool \<times> new_cpio_header \<times> char list) option" where
  "taru_read_header read_tar fmt h eoa inp = do {
     (ret, eoa, h, inp) \<leftarrow> taru_read_in_header read_tar fmt h eoa inp;
     if ret < 0 then Some (-1, eoa, h, inp)
     else if fmt \<noteq> arf_tar \<and> fmt \<noteq> arf_ustar then
       (if and (c_mode h) CP_IFMT = CP_IFLNK then do {
          _ \<leftarrow> (if c_filesize h < 0x7FFFFFFF then Some () else None);
          let (target, inp) = uxfio_sfa_read inp (uint (c_filesize h));
          let full = (length target = unat (c_filesize h));
          _ \<leftarrow> (if full \<or> NUL \<in> set target then Some () else None);
          (n, inp) \<leftarrow> skip_padding (c_filesize h) fmt inp;
          Some (ret + int (length target) + n, eoa, ahsStaticSetPaxLinkname h (Some (cstr target)), inp) }
        else Some (ret, eoa, ahsStaticSetPaxLinkname h None, inp))
     else Some (ret, eoa, h, inp) }"

section \<open>Digits of a fixed width are scanned back\<close>

fun fixed :: "nat \<Rightarrow> nat \<Rightarrow> nat \<Rightarrow> string" where
  "fixed b 0 n = []"
| "fixed b (Suc w) n = fixed b w (n div b) @ [hex_digit (n mod b)]"

lemma length_fixed [simp]: "length (fixed b w n) = w"
  by (induction b w n rule: fixed.induct) simp_all

lemma hex_digit_0: "hex_digit 0 = CHR ''0''"
  by code_simp

lemma fixed_0: "fixed b w 0 = replicate w CHR ''0''"
  by (induction w) (simp_all add: hex_digit_0 replicate_append_same [symmetric])

lemma zpad_snoc: "zpad (Suc w) (s @ [c]) = zpad w s @ [c]"
  by (simp add: zpad_def)

lemma zpad_radix_string:
  assumes "2 \<le> b" "n < b ^ w" "0 < w"
  shows "zpad w (radix_string b n) = fixed b w n"
  using assms(2,3)
proof (induction w arbitrary: n)
  case 0
  then show ?case by simp
next
  case (Suc w)
  show ?case
  proof (cases "n < b")
    case True
    then have "radix_string b n = [] @ [hex_digit n]" by (subst radix_string.simps) simp
    then show ?thesis using True zpad_snoc [of w "[]" "hex_digit n"] by (simp add: zpad_def fixed_0)
  next
    case False
    have w: "0 < w" using False Suc.prems(1) by (cases w) auto
    have "radix_string b n = radix_string b (n div b) @ [hex_digit (n mod b)]"
      using False assms(1) by (subst radix_string.simps) simp
    moreover have "n div b < b ^ w" using Suc.prems(1) assms(1) by (simp add: less_mult_imp_div_less mult.commute)
    ultimately show ?thesis using Suc.IH [of "n div b"] w by (simp add: zpad_snoc)
  qed
qed

lemma hex_digit_facts:
  assumes "d < 16"
  shows "radix_val (hex_digit d) = d" "\<not> isspace (hex_digit d)" "hex_digit d \<noteq> CHR ''-''" "hex_digit d \<noteq> CHR ''+''"
    "toupper (hex_digit d) \<noteq> CHR ''X''" "hex_digit d \<noteq> NUL" "d < b \<Longrightarrow> radix_digit b (hex_digit d)"
proof -
  have "list_all (\<lambda>d. radix_val (hex_digit d) = d \<and> \<not> isspace (hex_digit d) \<and> hex_digit d \<noteq> CHR ''-'' \<and>
      hex_digit d \<noteq> CHR ''+'' \<and> toupper (hex_digit d) \<noteq> CHR ''X'' \<and> hex_digit d \<noteq> NUL \<and> radix_digit 16 (hex_digit d)) [0..<16]"
    by code_simp
  then have f: "radix_val (hex_digit d) = d \<and> \<not> isspace (hex_digit d) \<and> hex_digit d \<noteq> CHR ''-'' \<and>
      hex_digit d \<noteq> CHR ''+'' \<and> toupper (hex_digit d) \<noteq> CHR ''X'' \<and> hex_digit d \<noteq> NUL \<and> radix_digit 16 (hex_digit d)"
    using assms unfolding list_all_iff by auto
  then show "radix_val (hex_digit d) = d" "\<not> isspace (hex_digit d)" "hex_digit d \<noteq> CHR ''-''" "hex_digit d \<noteq> CHR ''+''"
    "toupper (hex_digit d) \<noteq> CHR ''X''" "hex_digit d \<noteq> NUL" by blast+
  show "d < b \<Longrightarrow> radix_digit b (hex_digit d)" using f by (simp add: radix_digit_def)
qed

lemma fixed_set: "c \<in> set (fixed b w n) \<Longrightarrow> 0 < b \<Longrightarrow> \<exists>d < b. c = hex_digit d"
  by (induction b w n rule: fixed.induct) (auto dest: mod_less_divisor)

lemma fixed_value:
  assumes "0 < b" "b \<le> 16"
  shows "foldl (\<lambda>v c. v * b + radix_val c) 0 (fixed b w n) = n mod b ^ w"
proof (induction w arbitrary: n)
  case 0
  then show ?case by simp
next
  case (Suc w)
  have "n mod b < 16" using assms by (meson mod_less_divisor order_less_le_trans)
  then show ?case by (simp add: Suc.IH hex_digit_facts mod_mult2_eq mult.commute)
qed

lemma scan_ul_fixed:
  assumes "b = 8 \<or> b = 16" "0 < w" "n < b ^ w" "n < 2 ^ 64"
  shows "scan_ul b w (fixed b w n @ rest) = Some (of_nat n, rest)"
proof -
  let ?ds = "fixed b w n"
  have b: "0 < b" "b \<le> 16" using assms(1) by auto
  have ch: "\<exists>d < 16. c = hex_digit d \<and> radix_digit b c" if mem: "c \<in> set ?ds" for c
  proof -
    obtain d where "d < b" "c = hex_digit d" using fixed_set [OF mem b(1)] by blast
    then show ?thesis using b(2) hex_digit_facts(7) [of d b] by (intro exI [of _ d]) simp
  qed
  obtain c ds where cs: "?ds = c # ds" using assms(2) by (cases ?ds) (auto dest: arg_cong [of _ _ length])
  have c: "\<not> isspace c" "c \<noteq> CHR ''-''" "c \<noteq> CHR ''+''" using ch [of c] cs hex_digit_facts by auto
  have x: "map toupper (take 2 (c # ds)) \<noteq> ''0X''"
  proof
    assume "map toupper (take 2 (c # ds)) = ''0X''"
    then obtain d where "d \<in> set ds" "toupper d = CHR ''X''" by (cases ds) auto
    then show False using ch [of d] cs hex_digit_facts(5) by auto
  qed
  have tk: "take w (?ds @ rest) = ?ds" by simp
  have sp: "dropWhile isspace (?ds @ rest) = ?ds @ rest" using c(1) by (simp add: cs)
  have tw: "takeWhile (radix_digit b) ?ds = ?ds" using ch by (auto simp: takeWhile_eq_all_conv)
  have v: "foldl (\<lambda>v c. v * b + radix_val c) 0 ?ds = n" using fixed_value [OF b, of w n] assms(3) by simp
  have "scan_ul b w (?ds @ rest) =
      (if ?ds = [] then None else Some (of_nat (min n (2 ^ 64 - 1)), drop (length ?ds) (?ds @ rest)))"
  proof -
    have sg: "(case ?ds of c # _ \<Rightarrow> if c = CHR ''-'' \<or> c = CHR ''+'' then 1 else 0 | [] \<Rightarrow> 0) = (0 :: nat)"
      "take 1 ?ds \<noteq> ''-''" using c by (simp_all add: cs)
    have x0: "\<not> (b = 16 \<and> map toupper (take 2 ?ds) = ''0X'')" using x by (simp add: cs)
    show ?thesis
      by (simp only: scan_ul_def Let_def sp tk sg drop_0 if_not_P [OF x0] tw v add_0 if_False)
  qed
  then show ?thesis using cs assms(4) by (simp add: min_def)
qed

lemma sscanf_ul_fixed:
  assumes "b = 8 \<or> b = 16" "list_all2 (\<lambda>w n. 0 < w \<and> n < b ^ w \<and> n < 2 ^ 64) ws ns"
  shows "sscanf_ul b ws (concat (map2 (fixed b) ws ns)) = map of_nat ns"
  using assms(2)
proof (induction rule: list_all2_induct)
  case (Cons w ws n ns)
  then show ?case by (simp add: scan_ul_fixed [OF assms(1)])
qed simp

lemma fmt_lx_fixed: "unat v < 2 ^ 32 \<Longrightarrow> fmt_lx 8 v = fixed 16 8 (unat v)"
  using zpad_radix_string [of 16 "unat v" 8] by (simp add: fmt_lx_def)

lemma fmt_lo_fixed: "0 < w \<Longrightarrow> unat v < 8 ^ w \<Longrightarrow> fmt_lo w v = fixed 8 w (unat v)"
  using zpad_radix_string [of 8 "unat v" w] by (simp add: fmt_lo_def)

lemma fixed_no_NUL: "0 < b \<Longrightarrow> b \<le> 16 \<Longrightarrow> c_string (fixed b w n)"
  unfolding c_string_def using fixed_set hex_digit_facts(6) by (metis order_less_le_trans)

lemma fixed_fields_no_NUL: "0 < b \<Longrightarrow> b \<le> 16 \<Longrightarrow> c_string (concat (map2 (fixed b) ws ns))"
  using fixed_no_NUL by (auto simp: c_string_def)

section \<open>New ascii headers\<close>

definition newc_fields :: "new_cpio_header \<Rightarrow> 64 word list" where
  "newc_fields h = [c_ino h, c_mode h, c_uid h, c_gid h, c_nlink h, c_mtime h, c_filesize h,
     c_dev_maj h, c_dev_min h, c_rdev_maj h, c_rdev_min h, c_namesize h, c_chksum h]"

text \<open>A name with its recorded size.\<close>

definition name_ok :: "new_cpio_header \<Rightarrow> nat \<Rightarrow> bool" where
  "name_ok h m \<longleftrightarrow> c_string (ahsStaticGetTarFilename h) \<and>
     unat (c_namesize h) = length (ahsStaticGetTarFilename h) + 1 \<and> unat (c_namesize h) \<le> m"

text \<open>The header that a reader makes of the fields.\<close>

definition newc_read :: "new_cpio_header \<Rightarrow> new_cpio_header \<Rightarrow> new_cpio_header" where
  "newc_read h0 h = h0\<lparr>c_ino := c_ino h, c_mode := c_mode h, c_uid := c_uid h, c_gid := c_gid h, c_nlink := c_nlink h,
     c_mtime := c_mtime h, c_filesize := c_filesize h, c_dev_maj := c_dev_maj h, c_dev_min := c_dev_min h,
     c_rdev_maj := c_rdev_maj h, c_rdev_min := c_rdev_min h, c_namesize := c_namesize h, c_chksum := c_chksum h,
     c_name := Some (ahsStaticGetTarFilename h)\<rparr>"

lemma name_bytes_ok: "name_ok h m \<Longrightarrow> name_bytes h = Some (ahsStaticGetTarFilename h @ [NUL])"
  by (simp add: name_bytes_def name_ok_def)

lemma read_name_ok: "name_ok h m \<Longrightarrow> read_name (ahsStaticGetTarFilename h @ [NUL]) h' = Some (h'\<lparr>c_name := Some (ahsStaticGetTarFilename h)\<rparr>)"
  by (simp add: read_name_def name_ok_def)

lemma newc_text_ok:
  assumes "\<forall>v \<in> set (newc_fields h). unat v < 2 ^ 32" "length magic = 6"
  shows "newc_text magic h = Some (magic @ concat (map2 (fixed 16) (replicate 13 8) (map unat (newc_fields h))))"
    "length (concat (map2 (fixed 16) (replicate 13 8) (map unat (newc_fields h)))) = 104"
proof -
  have r: "replicate 13 (8::nat) = [8,8,8,8,8,8,8,8,8,8,8,8,8]" by (simp add: numeral_eq_Suc)
  have f: "concat (map (fmt_lx 8) (newc_fields h)) = concat (map2 (fixed 16) (replicate 13 8) (map unat (newc_fields h)))"
    unfolding r using assms(1) by (simp add: newc_fields_def fmt_lx_fixed)
  show l: "length (concat (map2 (fixed 16) (replicate 13 8) (map unat (newc_fields h)))) = 104"
    unfolding r by (simp add: newc_fields_def)
  then show "newc_text magic h = Some (magic @ concat (map2 (fixed 16) (replicate 13 8) (map unat (newc_fields h))))"
    using assms(2) f [symmetric] by (simp add: newc_text_def newc_fields_def Let_def)
qed

lemma newc_scan:
  assumes "\<forall>v \<in> set (newc_fields h). unat v < 2 ^ 32"
  shows "sscanf_ul 16 (replicate 13 8) (concat (map2 (fixed 16) (replicate 13 8) (map unat (newc_fields h)))) = newc_fields h"
proof -
  have "list_all2 (\<lambda>w n. 0 < w \<and> n < 16 ^ w \<and> n < 2 ^ 64) (replicate 13 8) (map unat (newc_fields h))"
  proof -
    have r: "replicate 13 (8::nat) = [8,8,8,8,8,8,8,8,8,8,8,8,8]" by (simp add: numeral_eq_Suc)
    have "unat v < 2 ^ 64" for v :: "64 word" using unsigned_less [of v] by simp
    then show ?thesis unfolding r using assms by (simp add: newc_fields_def)
  qed
  from sscanf_ul_fixed [OF _ this] show ?thesis by (simp add: comp_def map_idI)
qed

lemma buffered_writes_two:
  "length a < 2 ^ 31 \<Longrightarrow> length b < 2 ^ 31 \<Longrightarrow>
   buffered_writes [a, b] None = Some (int (length a) + int (length b), a @ b, None)"
  by (simp add: tarui_tape_buffered_write_def)

text \<open>The header that is written: the checksum is cleared in the format that has none.\<close>

definition newc_sent :: "archive_format_in \<Rightarrow> new_cpio_header \<Rightarrow> new_cpio_header" where
  "newc_sent fmt h = (if fmt = arf_crcascii then h else h\<lparr>c_chksum := 0\<rparr>)"

definition newc_magic :: "archive_format_in \<Rightarrow> string" where
  "newc_magic fmt = (if fmt = arf_crcascii then ''070702'' else ''070701'')"

definition newc_pad :: "new_cpio_header \<Rightarrow> archive_format_in \<Rightarrow> nat" where
  "newc_pad h fmt = unat (skip_pad (c_namesize h + 110) fmt)"

lemma newc_sent_simps [simp]:
  "c_namesize (newc_sent fmt h) = c_namesize h" "ahsStaticGetTarFilename (newc_sent fmt h) = ahsStaticGetTarFilename h"
  "name_ok (newc_sent fmt h) m = name_ok h m"
  by (simp_all add: newc_sent_def ahsStaticGetTarFilename_def name_ok_def)

lemma small_word: "unat (v :: 64 word) \<le> m \<Longrightarrow> m + k < 2 ^ 63 \<Longrightarrow> unat (v + of_nat k) = unat v + k \<and> sint (v + of_nat k) = int (unat v + k)"
proof -
  assume a: "unat v \<le> m" "m + k < 2 ^ 63"
  have k: "unat (of_nat k :: 64 word) = k" using a by (simp add: unat_of_nat)
  have u: "unat (v + of_nat k) = unat v + k"
    using a k by (subst unat_add_lem [THEN iffD1]) auto
  then have "int (unat (v + of_nat k)) < int (2 ^ 63)" unfolding of_nat_less_iff using a by linarith
  then have "uint (v + of_nat k) < 2 ^ 63" by simp
  moreover have "- (2 ^ 63) \<le> uint (v + of_nat k)" by (rule order_trans [OF _ uint_ge_0]) simp
  ultimately have "sint (v + of_nat k) = uint (v + of_nat k)"
    using signed_take_bit_int_eq_self [of 63 "uint (v + of_nat k)"] by (simp add: sint_uint)
  moreover have "uint (v + of_nat k) = int (unat v + k)" using u by (metis of_nat_unat)
  ultimately show ?thesis using u by simp
qed

lemma newc_written:
  assumes "fmt = arf_newascii \<or> fmt = arf_crcascii" "\<forall>v \<in> set (newc_fields (newc_sent fmt h)). unat v < 2 ^ 32" "name_ok h 6000"
    "0 \<le> fd" "\<not> flag_set fl TARU_TAR_DO_STRIP_LEADING_SLASH"
  shows "\<exists>bytes. taru_write_out_header w taru h fd fmt None fl =
      Some \<lparr>ho_ret = int (length bytes), ho_bytes = bytes, ho_buffer = None, ho_hdr = newc_sent fmt h, ho_owners = w, ho_taru = taru\<rparr> \<and>
    bytes = newc_magic fmt @ concat (map2 (fixed 16) (replicate 13 8) (map unat (newc_fields (newc_sent fmt h)))) @
      (ahsStaticGetTarFilename h @ [NUL]) @ replicate (newc_pad h fmt) NUL"
proof -
  let ?h = "newc_sent fmt h"
  let ?fields = "concat (map2 (fixed 16) (replicate 13 8) (map unat (newc_fields ?h)))"
  let ?name = "ahsStaticGetTarFilename h @ [NUL]"
  have m: "length (newc_magic fmt) = 6" by (simp add: newc_magic_def)
  note tx = newc_text_ok [OF assms(2) m]
  have tk: "take 110 (newc_magic fmt @ ?fields) = newc_magic fmt @ ?fields" using tx(2) m by simp
  have nm: "name_bytes ?h = Some ?name" using name_bytes_ok [of ?h 6000] assms(3) by simp
  have n: "length ?name \<le> 6000" "unat (c_namesize h) \<le> 6000" using assms(3) by (auto simp: name_ok_def)
  have b: "buffered_writes [newc_magic fmt @ ?fields, ?name] None =
      Some (110 + int (length ?name), (newc_magic fmt @ ?fields) @ ?name, None)"
    using buffered_writes_two [of "newc_magic fmt @ ?fields" ?name] tx(2) m n(1) by simp
  have s: "unat (c_namesize h + 110) = unat (c_namesize h) + 110" "sint (c_namesize h + 110) = int (unat (c_namesize h) + 110)"
    using small_word [OF n(2), of 110] by simp_all
  have w: "of_nat (unat (c_namesize h) + 110) = c_namesize h + 110" by simp
  have p: "taru_tape_pad_output fd (sint (c_namesize h + 110)) fmt =
      (int (newc_pad h fmt), replicate (newc_pad h fmt) NUL)"
  proof -
    have "int (k + 110) < 2 ^ 63" if "k \<le> 6000" for k using that by simp
    from this [OF n(2)] have "int (unat (c_namesize h) + 110) < 2 ^ 63" .
    moreover have "fmt \<noteq> arf_unknown" "fmt \<noteq> arf_filesystem" using assms(1) by auto
    ultimately show ?thesis
      using taru_tape_pad_output_ok [of "unat (c_namesize h) + 110" fd fmt] assms(4) unfolding w s(2) newc_pad_def by blast
  qed
  have h: "(if fmt = arf_crcascii then h else h\<lparr>c_chksum := 0\<rparr>) = ?h" by (simp add: newc_sent_def)
  have mg: "(if fmt = arf_crcascii then ''070702'' else ''070701'') = newc_magic fmt" by (simp add: newc_magic_def)
  have cn: "c_namesize ?h = c_namesize h" by simp
  have "taru_write_out_header w taru h fd fmt None fl =
      Some \<lparr>ho_ret = 110 + int (length ?name) + int (newc_pad h fmt), ho_bytes = ((newc_magic fmt @ ?fields) @ ?name) @ replicate (newc_pad h fmt) NUL,
        ho_buffer = None, ho_hdr = ?h, ho_owners = w, ho_taru = taru\<rparr>"
    unfolding taru_write_out_header_def Let_def if_not_P [OF assms(5)] if_P [OF assms(1)] h mg tx(1) cn
    by (simp only: Option.bind.bind_lunit tk nm b p case_prod_conv)
  then show ?thesis using tx(2) m by simp
qed

lemma newc_read_back:
  assumes "fmt = arf_newascii \<or> fmt = arf_crcascii" "\<forall>v \<in> set (newc_fields h). unat v < 2 ^ 32" "name_ok h 6000"
  shows "taru_read_in_new_ascii h0 fmt (concat (map2 (fixed 16) (replicate 13 8) (map unat (newc_fields h))) @
      (ahsStaticGetTarFilename h @ [NUL]) @ replicate (newc_pad h fmt) NUL @ rest) =
    Some (int (104 + unat (c_namesize h) + newc_pad h fmt), newc_read h0 h, rest)"
proof -
  let ?fields = "concat (map2 (fixed 16) (replicate 13 8) (map unat (newc_fields h)))"
  let ?name = "ahsStaticGetTarFilename h @ [NUL]" and ?pad = "replicate (newc_pad h fmt) NUL"
  have l: "length ?fields = 104" by (rule newc_text_ok(2) [OF assms(2), of "''070701''"]) simp
  have n: "length ?name = unat (c_namesize h)" "unat (c_namesize h) \<le> 6000" "c_namesize h \<le> 6000"
    using assms(3) by (auto simp: name_ok_def word_le_nat_alt)
  have cs: "cstr ?fields = ?fields"
    by (rule cstr_id) (rule fixed_fields_no_NUL, simp_all)
  have rd: "uxfio_sfa_read (?fields @ ?name @ ?pad @ rest) 104 = (?fields, ?name @ ?pad @ rest)"
    using l by (simp add: uxfio_sfa_read_def)
  let ?h = "h0\<lparr>c_ino := c_ino h, c_mode := c_mode h, c_uid := c_uid h, c_gid := c_gid h, c_nlink := c_nlink h,
     c_mtime := c_mtime h, c_filesize := c_filesize h, c_dev_maj := c_dev_maj h, c_dev_min := c_dev_min h,
     c_rdev_maj := c_rdev_maj h, c_rdev_min := c_rdev_min h, c_namesize := c_namesize h, c_chksum := c_chksum h\<rparr>"
  have buf: "tarui_read_new_ascii_from_buf h0 ?fields = Some (104, ?h)"
    unfolding tarui_read_new_ascii_from_buf_def newc_scan [OF assms(2)]
    using n(3) by (simp add: newc_fields_def scanned_def not_less)
  have rn: "uxfio_sfa_read (?name @ ?pad @ rest) (uint (c_namesize h)) = (?name, ?pad @ rest)"
    using n(1) [symmetric] by (simp add: uxfio_sfa_read_def del: uint_nat)
  have w: "(of_int (104 + uint (c_namesize h) + 6) :: 64 word) = c_namesize h + 110" by (simp add: add.commute)
  have sk: "skip_padding (of_int (104 + uint (c_namesize h) + 6)) fmt (?pad @ rest) = Some (int (newc_pad h fmt), rest)"
    unfolding w using skip_padding_ok [of "c_namesize h + 110" fmt "?pad @ rest"] by (simp add: newc_pad_def)
  have hn: "c_namesize ?h = c_namesize h" by simp
  have res: "(if (104::int) < 0 then Some (- 104, ?h, ?name @ ?pad @ rest) else
      (let (name, inp) = uxfio_sfa_read (?name @ ?pad @ rest) (uint (c_namesize ?h)) in
        read_name name ?h \<bind> (\<lambda>h. let bytesread = 104 + uint (c_namesize h) in
          skip_padding (of_int (bytesread + 6)) fmt inp \<bind> (\<lambda>(n, inp). Some (bytesread + n, h, inp))))) =
      Some (int (104 + unat (c_namesize h) + newc_pad h fmt), newc_read h0 h, rest)"
    using read_name_ok [OF assms(3), of ?h] sk n(1)
    by (simp add: rn [unfolded append_assoc append_Cons append_Nil] newc_read_def Let_def)
  show ?thesis
    unfolding taru_read_in_new_ascii_def append_assoc [symmetric] rd [unfolded append_assoc [symmetric]]
    using l buf res by (simp add: cs Let_def)
qed

lemma cpio_header_read:
  assumes "fmt \<noteq> arf_unknown" "fmt \<noteq> arf_tar" "fmt \<noteq> arf_ustar" "uxfio_sfa_read inp 6 = (m, inp')" "length m = 6"
    "ahsStaticSetPaxLinkname h None = h'"
  shows "taru_read_in_header rt fmt h eoa inp = magic_loop fmt h' m 6 eoa inp'"
  using assms by (simp add: taru_read_in_header_def)

lemma magic_loop_newc:
  assumes "fmt = arf_newascii \<or> fmt = arf_crcascii" "taru_read_in_new_ascii (h0\<lparr>c_magic := 0x3730\<rparr>) fmt inp = Some (ret, h', rest)" "0 \<le> ret"
  shows "magic_loop fmt h0 (newc_magic fmt) retval eoa inp = Some (retval + ret, at_trailer h' eoa, h', rest)"
proof -
  have m: "magic_of (newc_magic fmt) = 0x3730" by (auto simp: newc_magic_def magic_of_def)
  show ?thesis
    using assms by (subst magic_loop.simps) (auto simp: m Let_def, simp_all add: newc_magic_def)
qed

text \<open>C10: a header within the limits of the new ascii formats is written with its name, padded to four bytes, and
  read back as the same header, the end of the archive being told by the name of the trailer.\<close>

theorem newc_header_roundtrip:
  assumes "fmt = arf_newascii \<or> fmt = arf_crcascii" "\<forall>v \<in> set (newc_fields (newc_sent fmt h)). unat v < 2 ^ 32" "name_ok h 6000"
    "0 \<le> fd" "\<not> flag_set fl TARU_TAR_DO_STRIP_LEADING_SLASH"
  shows "\<exists>bytes. taru_write_out_header w taru h fd fmt None fl =
      Some \<lparr>ho_ret = int (length bytes), ho_bytes = bytes, ho_buffer = None, ho_hdr = newc_sent fmt h, ho_owners = w, ho_taru = taru\<rparr> \<and>
    length bytes mod 4 = 0 \<and>
    taru_read_in_header rt fmt h0 eoa (bytes @ rest) =
      Some (int (length bytes), eoa \<or> ahsStaticGetTarFilename h = CPIO_INBAND_EOA_FILENAME,
        newc_read (h0\<lparr>c_tar_linkname := None, c_magic := 0x3730\<rparr>) (newc_sent fmt h), rest)"
proof -
  let ?snt = "newc_sent fmt h"
  let ?fields = "concat (map2 (fixed 16) (replicate 13 8) (map unat (newc_fields ?snt)))"
  let ?name = "ahsStaticGetTarFilename h @ [NUL]" and ?pad = "replicate (newc_pad h fmt) NUL"
  let ?old = "h0\<lparr>c_tar_linkname := None\<rparr>"
  obtain bytes where b: "taru_write_out_header w taru h fd fmt None fl =
      Some \<lparr>ho_ret = int (length bytes), ho_bytes = bytes, ho_buffer = None, ho_hdr = ?snt, ho_owners = w, ho_taru = taru\<rparr>"
    "bytes = newc_magic fmt @ ?fields @ ?name @ ?pad"
    using newc_written [OF assms] by blast
  have f: "fmt \<noteq> arf_unknown" "fmt \<noteq> arf_tar" "fmt \<noteq> arf_ustar" using assms(1) by auto
  have m: "length (newc_magic fmt) = 6" by (simp add: newc_magic_def)
  have l: "length ?fields = 104" by (rule newc_text_ok(2) [OF assms(2) m])
  have n: "length ?name = unat (c_namesize h)" "unat (c_namesize h) \<le> 6000" using assms(3) by (auto simp: name_ok_def)
  have len: "length bytes = 110 + unat (c_namesize h) + newc_pad h fmt" using b(2) m l n(1) by simp
  have "(unat (c_namesize h + 110) + newc_pad h fmt) mod 4 = 0"
    using assms(1) skip_pad_block [of "c_namesize h + 110" fmt] by (auto simp: newc_pad_def pad_block_def)
  then have al: "length bytes mod 4 = 0" using small_word [OF n(2), of 110] len by (simp add: ac_simps)
  have np: "newc_pad ?snt fmt = newc_pad h fmt" by (simp add: newc_pad_def)
  have "taru_read_in_new_ascii (?old\<lparr>c_magic := 0x3730\<rparr>) fmt (?fields @ ?name @ ?pad @ rest) =
      Some (int (104 + unat (c_namesize h) + newc_pad h fmt), newc_read (?old\<lparr>c_magic := 0x3730\<rparr>) ?snt, rest)"
    using newc_read_back [OF assms(1,2), of "?old\<lparr>c_magic := 0x3730\<rparr>" rest] assms(3) np by simp
  from magic_loop_newc [OF assms(1) this]
  have l1: "magic_loop fmt ?old (newc_magic fmt) 6 eoa (?fields @ ?name @ ?pad @ rest) =
      Some (int (length bytes), at_trailer (newc_read (?old\<lparr>c_magic := 0x3730\<rparr>) ?snt) eoa, newc_read (?old\<lparr>c_magic := 0x3730\<rparr>) ?snt, rest)"
    using len by simp
  have l2: "at_trailer (newc_read (?old\<lparr>c_magic := 0x3730\<rparr>) ?snt) eoa \<longleftrightarrow>
      eoa \<or> ahsStaticGetTarFilename h = CPIO_INBAND_EOA_FILENAME"
    by (simp add: at_trailer_def newc_read_def ahsStaticGetTarFilename_def [of "_\<lparr>c_name := _\<rparr>"] ahsStaticGetTarname_i_def)
  have l3: "uxfio_sfa_read (bytes @ rest) 6 = (newc_magic fmt, ?fields @ ?name @ ?pad @ rest)"
    using b(2) m by (simp add: uxfio_sfa_read_def)
  have l4: "ahsStaticSetPaxLinkname h0 None = ?old" by (simp add: ahsStaticSetPaxLinkname_def ahsStaticSetTarname_i_def)
  have rd: "taru_read_in_header rt fmt h0 eoa (bytes @ rest) =
      Some (int (length bytes), eoa \<or> ahsStaticGetTarFilename h = CPIO_INBAND_EOA_FILENAME,
        newc_read (h0\<lparr>c_tar_linkname := None, c_magic := 0x3730\<rparr>) ?snt, rest)"
    unfolding cpio_header_read [OF f l3 m l4] l1 l2 ..
  show ?thesis by (intro exI [of _ bytes] conjI b(1) al rd)
qed

section \<open>Old ascii headers\<close>

text \<open>The header that a reader makes of the fields of an old ascii header: their low 16 bits, and device numbers
  taken apart again.\<close>

definition odc_read :: "64 word \<Rightarrow> 64 word \<Rightarrow> new_cpio_header \<Rightarrow> new_cpio_header \<Rightarrow> new_cpio_header" where
  "odc_read dev rdev h0 h = (let low = (\<lambda>v. and v 0xFFFF) in
     h0\<lparr>c_ino := low (c_ino h), c_mode := low (c_mode h), c_uid := low (c_uid h), c_gid := low (c_gid h),
       c_nlink := low (c_nlink h), c_mtime := c_mtime h, c_namesize := c_namesize h, c_filesize := c_filesize h,
       c_dev_maj := ucast (c_major (low dev)), c_dev_min := ucast (c_minor (low dev)),
       c_rdev_maj := ucast (c_major (low rdev)), c_rdev_min := ucast (c_minor (low rdev)),
       c_name := Some (ahsStaticGetTarFilename h)\<rparr>)"

definition odc_fields :: "64 word \<Rightarrow> 64 word \<Rightarrow> new_cpio_header \<Rightarrow> 64 word list" where
  "odc_fields dev rdev h = (let low = (\<lambda>v. and v 0xFFFF) in
     [low dev, low (c_ino h), low (c_mode h), low (c_uid h), low (c_gid h), low (c_nlink h), low rdev, c_mtime h,
      low (c_namesize h), c_filesize h])"

abbreviation odc_widths :: "nat list" where "odc_widths \<equiv> [6, 6, 6, 6, 6, 6, 6, 11, 6, 11]"

abbreviation odc_digits :: "64 word \<Rightarrow> 64 word \<Rightarrow> new_cpio_header \<Rightarrow> string" where
  "odc_digits dev rdev h \<equiv> concat (map2 (fixed 8) odc_widths (map unat (odc_fields dev rdev h)))"

lemma low16: "unat (and v 0xFFFF :: 64 word) < 2 ^ 16"
proof -
  have "and v 0xFFFF = take_bit 16 v" using take_bit_eq_mask [of 16 v] by (simp add: mask_numeral)
  then have "and v 0xFFFF = v mod 2 ^ 16" by (simp only: take_bit_eq_mod)
  then show ?thesis by (simp add: unat_mod)
qed

lemma low16_id: "unat (v :: 64 word) < 2 ^ 16 \<Longrightarrow> and v 0xFFFF = v"
proof -
  assume "unat v < 2 ^ 16"
  then have "take_bit 16 v = v" by (simp add: take_bit_eq_mod word_less_nat_alt unat_mod word_unat_eq_iff)
  then show ?thesis using take_bit_eq_mask [of 16 v] by (simp add: mask_numeral)
qed

lemma odc_limits:
  assumes "unat (c_mtime h) < 2 ^ 33" "unat (c_filesize h) < 2 ^ 33"
  shows "list_all2 (\<lambda>w n. 0 < w \<and> n < 8 ^ w \<and> n < 2 ^ 64) odc_widths (map unat (odc_fields dev rdev h))"
proof -
  have "unat (and v 0xFFFF :: 64 word) < 262144" "unat (and v 0xFFFF :: 64 word) < 18446744073709551616" for v
    using low16 [of v] by simp_all
  then show ?thesis using assms by (simp add: odc_fields_def Let_def)
qed

lemma odc_text_ok:
  assumes "unat (c_mtime h) < 2 ^ 33" "unat (c_filesize h) < 2 ^ 33"
  shows "odc_text dev rdev h = Some (''070707'' @ odc_digits dev rdev h)" "length (odc_digits dev rdev h) = 70"
proof -
  have l: "fmt_lo 6 (and v 0xFFFF) = fixed 8 6 (unat (and v 0xFFFF))" for v
    using low16 [of v] by (intro fmt_lo_fixed) simp_all
  have m: "fmt_lo 11 (c_mtime h) = fixed 8 11 (unat (c_mtime h))" "fmt_lo 11 (c_filesize h) = fixed 8 11 (unat (c_filesize h))"
    using assms by (intro fmt_lo_fixed; simp)+
  show "length (odc_digits dev rdev h) = 70" by (simp add: odc_fields_def Let_def)
  show "odc_text dev rdev h = Some (''070707'' @ odc_digits dev rdev h)"
    by (simp add: odc_text_def odc_fields_def Let_def l m)
qed

text \<open>The numbers and the header that are written in the two formats.\<close>

definition odc_sent :: "archive_format_in \<Rightarrow> new_cpio_header \<Rightarrow> 64 word \<times> 64 word \<times> new_cpio_header" where
  "odc_sent fmt h = (if fmt = arf_oldascii then (hdr_dev h, hdr_rdev h, h) else hp_numbers 0 h)"

lemma odc_read_back:
  assumes "unat (c_mtime h) < 2 ^ 33" "unat (c_filesize h) < 2 ^ 33" "name_ok h 65535"
  shows "taru_read_in_old_ascii2 h0 (odc_digits dev rdev h @ (ahsStaticGetTarFilename h @ [NUL]) @ rest) =
    Some (int (70 + unat (c_namesize h)), odc_fix_hp (odc_read dev rdev h0 h), rest)"
proof -
  let ?digits = "odc_digits dev rdev h" and ?name = "ahsStaticGetTarFilename h @ [NUL]"
  have n: "length ?name = unat (c_namesize h)" "unat (c_namesize h) < 2 ^ 16" using assms(3) by (auto simp: name_ok_def)
  have ns: "and (c_namesize h) 0xFFFF = c_namesize h" by (rule low16_id [OF n(2)])
  have l: "length ?digits = 70" by (rule odc_text_ok(2) [OF assms(1,2)])
  have cs: "cstr ?digits = ?digits" by (rule cstr_id) (rule fixed_fields_no_NUL, simp_all)
  have sc: "sscanf_ul 8 odc_widths ?digits = odc_fields dev rdev h"
    using sscanf_ul_fixed [OF _ odc_limits [OF assms(1,2), of dev rdev]] by (simp add: comp_def map_idI)
  have rd: "uxfio_sfa_read (?digits @ ?name @ rest) 70 = (?digits, ?name @ rest)" using l by (simp add: uxfio_sfa_read_def)
  have rn: "uxfio_sfa_read (?name @ rest) (uint (c_namesize h)) = (?name, rest)"
    using n(1) [symmetric] by (simp add: uxfio_sfa_read_def del: uint_nat)
  have un: "uint (c_namesize h) = int (length ?name)" using n(1) by simp
  have cu: "c_int (uint (c_namesize h)) = int (length ?name)" proof -
    have "length ?name < 65536" using n by simp
    then show ?thesis unfolding un by simp
  qed
  have len: "length (odc_fields dev rdev h) = 10" by (simp add: odc_fields_def Let_def)
  have rdn: "read_name ?name g = Some (g\<lparr>c_name := Some (ahsStaticGetTarFilename h)\<rparr>)" for g
    by (rule read_name_ok [OF assms(3)])
  let ?h = "h0\<lparr>c_ino := odc_fields dev rdev h ! 1, c_mode := odc_fields dev rdev h ! 2, c_uid := odc_fields dev rdev h ! 3,
      c_gid := odc_fields dev rdev h ! 4, c_nlink := odc_fields dev rdev h ! 5, c_mtime := odc_fields dev rdev h ! 7,
      c_namesize := odc_fields dev rdev h ! 8, c_filesize := odc_fields dev rdev h ! 9,
      c_dev_maj := ucast (c_major (odc_fields dev rdev h ! 0)), c_dev_min := ucast (c_minor (odc_fields dev rdev h ! 0)),
      c_rdev_maj := ucast (c_major (odc_fields dev rdev h ! 6)), c_rdev_min := ucast (c_minor (odc_fields dev rdev h ! 6))\<rparr>"
  have hn: "c_namesize ?h = c_namesize h" by (simp add: odc_fields_def Let_def ns)
  have hr: "?h\<lparr>c_name := Some (ahsStaticGetTarFilename h)\<rparr> = odc_read dev rdev h0 h"
    by (simp add: odc_fields_def odc_read_def Let_def ns)
  have rn2: "c_namesize (odc_read dev rdev h0 h) = c_namesize h" by (simp add: odc_read_def Let_def)
  have "taru_read_in_old_ascii2 h0 (?digits @ ?name @ rest) = Some (70 + uint (c_namesize h), odc_fix_hp (odc_read dev rdev h0 h), rest)"
    using l by (simp only: taru_read_in_old_ascii2_def rd case_prod_conv Let_def cs sc len hn rn cu rdn hr rn2
        simp_thms if_False Option.bind.bind_lunit less_irrefl)
  then show ?thesis by simp
qed

lemma odc_sent_name: "odc_sent fmt h = (dev, rdev, h') \<Longrightarrow> c_namesize h' = c_namesize h \<and> c_mtime h' = c_mtime h \<and>
    ahsStaticGetTarFilename h' = ahsStaticGetTarFilename h"
  by (auto simp: odc_sent_def hp_numbers_def ahsStaticGetTarFilename_def split: if_splits)

lemma odc_written:
  assumes "fmt = arf_oldascii \<or> fmt = arf_hpoldascii" "odc_sent fmt h = (dev, rdev, h')"
    "unat (c_mtime h) < 2 ^ 33" "unat (c_filesize h') < 2 ^ 33" "name_ok h 65535" "\<not> flag_set fl TARU_TAR_DO_STRIP_LEADING_SLASH"
  shows "taru_write_out_header w taru h fd fmt None fl =
    Some \<lparr>ho_ret = int (76 + unat (c_namesize h)), ho_bytes = (''070707'' @ odc_digits dev rdev h') @ ahsStaticGetTarFilename h @ [NUL],
      ho_buffer = None, ho_hdr = h', ho_owners = w, ho_taru = taru\<rparr>"
proof -
  let ?name = "ahsStaticGetTarFilename h @ [NUL]"
  note nm = odc_sent_name [OF assms(2)]
  have nk: "name_ok h' 65535" using nm assms(5) by (simp add: name_ok_def)
  have mt: "unat (c_mtime h') < 2 ^ 33" using nm assms(3) by simp
  note tx = odc_text_ok [OF mt assms(4), of dev rdev]
  have n: "length ?name = unat (c_namesize h)" "length ?name < 65536" using assms(5) by (auto simp: name_ok_def)
  have tk: "take 76 (''070707'' @ odc_digits dev rdev h') = ''070707'' @ odc_digits dev rdev h'" using tx(2) by simp
  have "length (''070707'' @ odc_digits dev rdev h') < 2 ^ 31" "length ?name < 2 ^ 31" using tx(2) n(2) by simp_all
  note b = buffered_writes_two [OF this]
  have nb: "name_bytes h' = Some ?name" using name_bytes_ok [OF nk] nm by simp
  have r: "int (length (''070707'' @ odc_digits dev rdev h')) + int (length ?name) = int (76 + unat (c_namesize h))"
    using tx(2) n(1) by simp
  have f: "\<not> (fmt = arf_newascii \<or> fmt = arf_crcascii)" using assms(1) by auto
  have s: "(if fmt = arf_oldascii then (hdr_dev h, hdr_rdev h, h) else hp_numbers 0 h) = (dev, rdev, h')"
    using assms(2) by (simp add: odc_sent_def)
  show ?thesis
    unfolding taru_write_out_header_def Let_def if_not_P [OF assms(6)] if_not_P [OF f] if_P [OF assms(1)] s
    by (simp only: case_prod_conv tx(1) nb Option.bind.bind_lunit tk b r)
qed

text \<open>C11: an old ascii header is read back with the low 16 bits of its numbers and of the device numbers; the device
  number of a special file that the HP/UX variant stores in the size is put back.\<close>

theorem odc_header_roundtrip:
  assumes "fmt = arf_oldascii \<or> fmt = arf_hpoldascii" "odc_sent fmt h = (dev, rdev, h')"
    "unat (c_mtime h) < 2 ^ 33" "unat (c_filesize h') < 2 ^ 33" "name_ok h 65535" "\<not> flag_set fl TARU_TAR_DO_STRIP_LEADING_SLASH"
  shows "\<exists>bytes. taru_write_out_header w taru h fd fmt None fl =
      Some \<lparr>ho_ret = int (length bytes), ho_bytes = bytes, ho_buffer = None, ho_hdr = h', ho_owners = w, ho_taru = taru\<rparr> \<and>
    taru_read_in_header rt fmt h0 eoa (bytes @ rest) =
      Some (int (length bytes), eoa \<or> ahsStaticGetTarFilename h = CPIO_INBAND_EOA_FILENAME,
        odc_fix_hp (odc_read dev rdev (h0\<lparr>c_tar_linkname := None, c_magic := 0x3730\<rparr>) h'), rest)"
proof -
  let ?name = "ahsStaticGetTarFilename h @ [NUL]" and ?old = "h0\<lparr>c_tar_linkname := None\<rparr>"
  let ?bytes = "(''070707'' @ odc_digits dev rdev h') @ ?name"
  let ?rd = "odc_fix_hp (odc_read dev rdev (?old\<lparr>c_magic := 0x3730\<rparr>) h')"
  note nm = odc_sent_name [OF assms(2)]
  have nk: "name_ok h' 65535" using nm assms(5) by (simp add: name_ok_def)
  have mt: "unat (c_mtime h') < 2 ^ 33" using nm assms(3) by simp
  have l: "length (odc_digits dev rdev h') = 70" by (rule odc_text_ok(2) [OF mt assms(4)])
  have n: "length ?name = unat (c_namesize h)" using assms(5) by (simp add: name_ok_def)
  have len: "length ?bytes = 76 + unat (c_namesize h)" using l n by simp
  have mg: "magic_of ''070707'' = 0x3730" by (simp add: magic_of_def)
  have rd: "taru_read_in_old_ascii2 (?old\<lparr>c_magic := 0x3730\<rparr>) (odc_digits dev rdev h' @ ?name @ rest) =
      Some (int (70 + unat (c_namesize h)), ?rd, rest)"
    using odc_read_back [OF mt assms(4) nk, of "?old\<lparr>c_magic := 0x3730\<rparr>" dev rdev rest] nm by simp
  have tr: "at_trailer ?rd eoa \<longleftrightarrow> eoa \<or> ahsStaticGetTarFilename h = CPIO_INBAND_EOA_FILENAME"
    using nm by (simp add: at_trailer_def odc_fix_hp_def odc_read_def Let_def ahs_name_defs)
  have fm: "(fmt = arf_newascii \<and> ''070707'' = ''070701'' \<or> fmt = arf_crcascii \<and> ''070707'' = ''070702'') = False"
    "((fmt = arf_oldascii \<or> fmt = arf_hpoldascii) \<and> ''070707'' = ''070707'') = True" using assms(1) by auto
  have nn: "\<not> int (70 + unat (c_namesize h)) \<le> 0" by linarith
  have ml: "magic_loop fmt ?old ''070707'' 6 eoa (odc_digits dev rdev h' @ ?name @ rest) =
      Some (int (length ?bytes), eoa \<or> ahsStaticGetTarFilename h = CPIO_INBAND_EOA_FILENAME, ?rd, rest)"
    unfolding len
    by (subst magic_loop.simps) (simp only: Let_def fm if_True if_False mg rd nn Option.bind.bind_lunit case_prod_conv tr, simp)
  have f: "fmt \<noteq> arf_unknown" "fmt \<noteq> arf_tar" "fmt \<noteq> arf_ustar" using assms(1) by auto
  have sp: "uxfio_sfa_read (?bytes @ rest) 6 = (''070707'', odc_digits dev rdev h' @ ?name @ rest)"
    by (simp add: uxfio_sfa_read_def)
  have pl: "ahsStaticSetPaxLinkname h0 None = ?old" by (simp add: ahsStaticSetPaxLinkname_def ahsStaticSetTarname_i_def)
  have m6: "length ''070707'' = 6" by simp
  have "taru_read_in_header rt fmt h0 eoa (?bytes @ rest) =
      Some (int (length ?bytes), eoa \<or> ahsStaticGetTarFilename h = CPIO_INBAND_EOA_FILENAME, ?rd, rest)"
    unfolding cpio_header_read [OF f sp m6 pl] ml ..
  then show ?thesis
    by (intro exI [of _ ?bytes] conjI) (rule odc_written [OF assms, unfolded len [symmetric]])
qed

section \<open>The end of an archive\<close>

lemma trailer_blocks_old_gnu:
  assumes "unat bw = 512 * m" "0 < k" "k < 2 ^ 20" "\<not> flag_set fl TARU_TAR_GNU_BLOCKSIZE_B1" "flag_set fl TARU_TAR_GNU_OLDGNUTAR"
  shows "trailer_blocks (int (512 * k)) bw fl = int (if k - m mod k < 2 then k - m mod k + k else k - m mod k)"
proof -
  have u: "unat (of_int (int (512 * k)) :: 64 word) = 512 * k"
    using assms(3) by (simp add: unat_of_nat del: of_nat_mult)
  have "unat (bw mod of_int (int (512 * k))) = 512 * (m mod k)"
    unfolding unat_mod u assms(1) by (rule mult_mod_right [symmetric])
  then have "unat ((bw mod of_int (int (512 * k))) div 512) = m mod k" by (simp add: unat_div)
  then have d: "uint ((bw mod of_int (int (512 * k))) div 512) = int (m mod k)" by (metis of_nat_unat)
  have lt: "m mod k < k" using assms(2) by simp
  then have c: "c_int (int (m mod k)) = int (m mod k)" using assms(3) by (intro c_int_nonneg; simp)
  have q: "int (512 * k) sdiv 512 = int k" by (simp add: signed_divide_int_def sgn_if)
  show ?thesis
    unfolding trailer_blocks_def if_not_P [OF assms(4)] if_P [OF assms(5)] Let_def d c q
    using lt by (auto simp: of_nat_diff)
qed

lemma trailer_zero_blocks:
  assumes "fmt = arf_tar \<or> fmt = arf_ustar" "unat bytes_written mod 512 = 0" "0 < k" "k < 2 ^ 20"
  shows "\<exists>zeros. taru_write_archive_trailer w taru h fmt fd (int (512 * k)) bytes_written fl = Some (int (length zeros), zeros) \<and>
    set zeros \<subseteq> {NUL} \<and> 1024 \<le> length zeros \<and>
    (if flag_set fl TARU_TAR_GNU_BLOCKSIZE_B1 then length zeros = (if flag_set fl TARU_TAR_BE_LIKE_STAR then 1536 else 1024)
     else if flag_set fl TARU_TAR_GNU_OLDGNUTAR
     then (unat bytes_written + length zeros) mod (512 * k) = 0 \<and> length zeros < 512 * k + 1024
     else length zeros = 1024)"
proof -
  obtain m where m: "unat bytes_written = 512 * m" using assms(2) by (meson dvdE mod_eq_0_iff_dvd)
  have al: "bytes_written mod 512 = 0"
    using assms(2) by (simp add: word_unat_eq_iff unat_mod)
  define n where "n = nat (trailer_blocks (int (512 * k)) bytes_written fl)"
  define zeros where "zeros = concat (replicate n (replicate 512 NUL))"
  have len: "length zeros = 512 * n" by (simp add: zeros_def length_concat sum_list_replicate mult.commute)
  have nz: "int (512 * k) \<noteq> 0" using assms(3) by simp
  have f: "\<not> (fmt \<noteq> arf_tar \<and> fmt \<noteq> arf_ustar)" using assms(1) by auto
  have r: "taru_write_archive_trailer w taru h fmt fd (int (512 * k)) bytes_written fl = Some (int (length zeros), zeros)"
    unfolding taru_write_archive_trailer_def Let_def if_P [OF nz] if_not_P [OF f] by (simp add: al zeros_def n_def)
  have s: "set zeros \<subseteq> {NUL}" by (auto simp: zeros_def)
  have nb: "2 \<le> n \<and> (if flag_set fl TARU_TAR_GNU_BLOCKSIZE_B1 then n = (if flag_set fl TARU_TAR_BE_LIKE_STAR then 3 else 2)
     else if flag_set fl TARU_TAR_GNU_OLDGNUTAR then (m + n) mod k = 0 \<and> n < k + 2 else n = 2)"
  proof (cases "flag_set fl TARU_TAR_GNU_BLOCKSIZE_B1 \<or> \<not> flag_set fl TARU_TAR_GNU_OLDGNUTAR")
    case True
    then show ?thesis by (auto simp: n_def trailer_blocks_def)
  next
    case False
    have lt: "m mod k < k" using assms(3) by simp
    have n: "n = (if k - m mod k < 2 then k - m mod k + k else k - m mod k)"
      using trailer_blocks_old_gnu [OF m assms(3,4)] False by (simp add: n_def)
    have "(m + (k - m mod k)) mod k = (m mod k + (k - m mod k)) mod k" by (simp add: mod_add_left_eq)
    then have z: "(m + (k - m mod k)) mod k = 0" using lt by simp
    then have "(m + (k - m mod k + k)) mod k = 0" by (metis add.assoc mod_add_self2)
    with z show ?thesis using False lt unfolding n by auto
  qed
  have "(unat bytes_written + length zeros) mod (512 * k) = 512 * ((m + n) mod k)"
    unfolding m len distrib_left [symmetric] by (rule mult_mod_right [symmetric])
  with nb r s show ?thesis unfolding len by (intro exI [of _ zeros]) (auto simp: len)
qed

text \<open>the trailer of a tar archive in the format of old GNU tar ends the archive with at least two zero blocks at
  a multiple of the block size; the other formats end with two blocks, or three for star.\<close>

theorem tar_trailer_completes_block:
  assumes "fmt = arf_tar \<or> fmt = arf_ustar" "unat bytes_written mod 512 = 0" "0 < k" "k < 2 ^ 20"
  shows "\<exists>zeros. taru_write_archive_trailer w taru h fmt fd (int (512 * k)) bytes_written fl = Some (int (length zeros), zeros) \<and>
    set zeros \<subseteq> {NUL} \<and> 1024 \<le> length zeros \<and>
    (if flag_set fl TARU_TAR_GNU_BLOCKSIZE_B1 then length zeros = (if flag_set fl TARU_TAR_BE_LIKE_STAR then 1536 else 1024)
     else if flag_set fl TARU_TAR_GNU_OLDGNUTAR
     then (unat bytes_written + length zeros) mod (512 * k) = 0 \<and> length zeros < 512 * k + 1024
     else length zeros = 1024)"
  by (rule trailer_zero_blocks [OF assms])

section \<open>Concrete instances\<close>

definition cpio_header :: new_cpio_header where
  "cpio_header = zero_mem\<lparr>c_mode := 0x81A4, c_filesize := 3, c_name := Some ''etc/hosts'', c_namesize := 10\<rparr>"

lemma cpio_header_ok: "name_ok cpio_header 6000" "name_ok cpio_header 65535"
  "\<forall>v \<in> set (newc_fields (newc_sent arf_newascii cpio_header)). unat v < 2 ^ 32"
  "ahsStaticGetTarFilename cpio_header = ''etc/hosts''"
  by (simp_all add: cpio_header_def name_ok_def ahs_name_defs newc_fields_def newc_sent_def zero_mem_def)

lemma no_strip: "\<not> flag_set 0 TARU_TAR_DO_STRIP_LEADING_SLASH"
  by (simp add: flag_set_def)

theorem newc_header_roundtrip_witness:
  "\<forall>w taru h0. \<exists>bytes. taru_write_out_header w taru cpio_header 1 arf_newascii None 0 =
      Some \<lparr>ho_ret = int (length bytes), ho_bytes = bytes, ho_buffer = None, ho_hdr = newc_sent arf_newascii cpio_header,
        ho_owners = w, ho_taru = taru\<rparr> \<and>
    length bytes mod 4 = 0 \<and>
    taru_read_in_header (\<lambda>_ _. None) arf_newascii h0 False (bytes @ ''data'') =
      Some (int (length bytes), False, newc_read (h0\<lparr>c_tar_linkname := None, c_magic := 0x3730\<rparr>) (newc_sent arf_newascii cpio_header), ''data'')"
  using newc_header_roundtrip [OF _ cpio_header_ok(3,1) _ no_strip, where fd = 1 and eoa = False and rest = "''data''" and rt = "\<lambda>_ _. None"]
  by (simp add: cpio_header_ok(4) CPIO_INBAND_EOA_FILENAME_def)

theorem odc_header_roundtrip_witness:
  "\<forall>w taru h0. \<exists>bytes. taru_write_out_header w taru cpio_header 1 arf_oldascii None 0 =
      Some \<lparr>ho_ret = int (length bytes), ho_bytes = bytes, ho_buffer = None, ho_hdr = cpio_header, ho_owners = w, ho_taru = taru\<rparr> \<and>
    taru_read_in_header (\<lambda>_ _. None) arf_oldascii h0 False (bytes @ ''data'') =
      Some (int (length bytes), False, odc_fix_hp (odc_read (hdr_dev cpio_header) (hdr_rdev cpio_header)
        (h0\<lparr>c_tar_linkname := None, c_magic := 0x3730\<rparr>) cpio_header), ''data'')"
proof -
  have "odc_sent arf_oldascii cpio_header = (hdr_dev cpio_header, hdr_rdev cpio_header, cpio_header)"
    "unat (c_mtime cpio_header) < 2 ^ 33" "unat (c_filesize cpio_header) < 2 ^ 33"
    by (simp_all add: odc_sent_def) (simp_all add: cpio_header_def zero_mem_def)
  from odc_header_roundtrip [OF _ this cpio_header_ok(2) no_strip, where fd = 1 and eoa = False and rest = "''data''" and rt = "\<lambda>_ _. None"]
  show ?thesis by (simp add: cpio_header_ok(4) CPIO_INBAND_EOA_FILENAME_def)
qed

theorem tar_trailer_completes_block_witness:
  "\<forall>w taru h. \<exists>zeros. taru_write_archive_trailer w taru h arf_ustar 1 (int (512 * 20)) 1536 TARU_TAR_GNU_OLDGNUTAR =
      Some (int (length zeros), zeros) \<and> (1536 + length zeros) mod 10240 = 0"
proof -
  have f: "flag_set TARU_TAR_GNU_OLDGNUTAR TARU_TAR_GNU_OLDGNUTAR" "\<not> flag_set TARU_TAR_GNU_OLDGNUTAR TARU_TAR_GNU_BLOCKSIZE_B1"
    by (simp_all add: flag_set_def TARU_TAR_GNU_OLDGNUTAR_def TARU_TAR_GNU_BLOCKSIZE_B1_def)
  have "\<exists>zeros. taru_write_archive_trailer w taru h arf_ustar 1 (int (512 * 20)) 1536 TARU_TAR_GNU_OLDGNUTAR =
      Some (int (length zeros), zeros) \<and> (1536 + length zeros) mod 10240 = 0" for w taru h
    using tar_trailer_completes_block [of arf_ustar 1536 20 w taru h 1 TARU_TAR_GNU_OLDGNUTAR] f by auto
  then show ?thesis by blast
qed

end
