(* ===== verification/TarStream.thy ===== *)
theory TarStream
  imports PaxRecords Cpio
begin

text \<open>
  Reading one tar member header from an archive: \<open>i_taru_read_in_tar_header2\<close> and
  \<open>taru_read_in_tar_header2\<close> (\<open>swsupplib/taru/otar.c\<close>) with \<open>taru_read_pax_data_blocks\<close>
  (\<open>swsupplib/taru/taru.c\<close>). A member may be preceded by records that carry a long name, a long link
  name or extended header records; the end of the archive is two null blocks.
\<close>

section \<open>The source of the records\<close>

text \<open>The archive is read from a descriptor, through the pass through buffer, or taken from memory. In
  memory the parameters are the block, the position of \<open>fsource_buffer\<close> in it and \<open>fsource_buffer_len\<close>.\<close>

datatype tar_source = Tar_fd "char list" taruib | Tar_buffer block int int

definition from_buffer :: "tar_source \<Rightarrow> bool" where
  "from_buffer src = (case src of Tar_fd _ _ \<Rightarrow> False | Tar_buffer _ _ _ \<Rightarrow> True)"

text \<open>One record; \<open>at\<close> is the offset from \<open>fsource_buffer\<close>.\<close>

definition fetch_block :: "tar_source \<Rightarrow> int \<Rightarrow> (char list \<times> tar_source) option" where
  "fetch_block src at =
     (case src of
        Tar_fd inp ib \<Rightarrow>
          map_option (\<lambda>(buf, inp, ib). (buf, Tar_fd inp ib)) (taru_tape_buffered_read ib inp (int TARRECORDSIZE))
      | Tar_buffer b off len \<Rightarrow>
          (if 0 \<le> off + at \<and> off + at + int TARRECORDSIZE \<le> int (length b)
           then Some (take TARRECORDSIZE (drop (nat (off + at)) b), src) else None))"

definition consume_len :: "int \<Rightarrow> tar_source \<Rightarrow> tar_source" where
  "consume_len n src = (case src of Tar_buffer b off len \<Rightarrow> Tar_buffer b off (len - n) | _ \<Rightarrow> src)"

definition advance :: "int \<Rightarrow> tar_source \<Rightarrow> tar_source" where
  "advance n src = (case src of Tar_buffer b off len \<Rightarrow> Tar_buffer b (off + n) len | _ \<Rightarrow> src)"

section \<open>The data of extended headers\<close>

function pax_blocks_loop ::
  "int \<Rightarrow> int \<Rightarrow> int \<Rightarrow> taru \<Rightarrow> tar_source \<Rightarrow> int \<Rightarrow> (int \<times> taru \<times> tar_source) option" where
  "pax_blocks_loop n_blocks n base taru src retval =
     (if n < n_blocks then do {
        (blk, src) \<leftarrow> fetch_block src ((if from_buffer src then n + 1 else n) * int TARRECORDSIZE);
        b \<leftarrow> sb_str (read_bufferM taru);
        b \<leftarrow> mem_write b (base + n * int TARRECORDSIZE) blk;
        let taru = taru\<lparr>read_bufferM := (read_bufferM taru)\<lparr>sb_str := Some b\<rparr>\<rparr>;
        let ret = int (length blk);
        if ret \<noteq> int TARRECORDSIZE then Some (- 1, taru, src)
        else do {
          taru \<leftarrow> (if do_record_headerM taru then record_header_at taru (header_lengthM taru) blk else Some taru);
          pax_blocks_loop n_blocks (n + 1) base (taru\<lparr>read_buffer_posM := read_buffer_posM taru + ret\<rparr>) src
            (retval + ret) } }
      else Some (retval, taru, src))"
  by auto
termination by (relation "measure (\<lambda>(n_blocks, n, _). nat (n_blocks - n))") auto

declare pax_blocks_loop.simps [simp del]

definition taru_read_pax_data_blocks ::
  "taru \<Rightarrow> tar_source \<Rightarrow> int \<Rightarrow> (int \<times> taru \<times> tar_source) option" where
  "taru_read_pax_data_blocks taru src data_len = do {
     let n_blocks = data_len sdiv int TARRECORDSIZE + (if data_len smod int TARRECORDSIZE \<noteq> 0 then 1 else 0);
     let base = read_buffer_posM taru;
     s \<leftarrow> strob_set_length (read_bufferM taru) (base + n_blocks * int TARRECORDSIZE + int TARRECORDSIZE + 10);
     (retval, taru, src) \<leftarrow> pax_blocks_loop n_blocks 0 base (taru\<lparr>read_bufferM := s\<rparr>) src 0;
     if retval < 0 then Some (- 1, taru, src)
     else do {
       b \<leftarrow> sb_str (read_bufferM taru);
       b \<leftarrow> mem_write b (base + retval) [NUL];
       Some (retval, taru\<lparr>read_bufferM := (read_bufferM taru)\<lparr>sb_str := Some b\<rparr>\<rparr>, src) } }"

text \<open>The size that is asked for is checked against what is left in memory; a descriptor is just read.
  \<^term>\<open>None\<close> is the \<open>exit (24)\<close> on a failure.\<close>

definition read_ext_data ::
  "taru \<Rightarrow> tar_source \<Rightarrow> 64 word \<Rightarrow> (int \<times> taru \<times> tar_source) option" where
  "read_ext_data taru src filesize =
     (case src of
        Tar_buffer b off len \<Rightarrow>
          (if (word_of_int len :: 64 word) < filesize then None
           else do {
             (n, taru, src) \<leftarrow> taru_read_pax_data_blocks taru src (c_int (uint filesize));
             if n < 0 then None else Some (n, taru, if n > 0 then consume_len n src else src) })
      | Tar_fd inp ib \<Rightarrow> do {
          (n, taru, src) \<leftarrow> taru_read_pax_data_blocks taru src (c_int (uint filesize));
          if n < 0 then None else Some (n, taru, src) })"

definition ext_type :: "char \<Rightarrow> bool" where
  "ext_type t \<longleftrightarrow> t = GNUTYPE_LONGNAME \<or> t = GNUTYPE_LONGLINK \<or> t = XHDTYPE \<or> t = XGLTYPE"

text \<open>The switch on the type of the record whose data are at \<open>data\<close>. \<open>Inl\<close> is an error return;
  \<^term>\<open>None\<close> is also the \<open>exit (26)\<close> for a global header.\<close>

definition use_ext_data ::
  "char \<Rightarrow> block \<Rightarrow> int \<Rightarrow> int \<Rightarrow> new_cpio_header \<Rightarrow> (new_cpio_header + new_cpio_header) option" where
  "use_ext_data t b data len h =
     (if t = GNUTYPE_LONGNAME then
        map_option (\<lambda>s. Inr (use_mask TARU_EHUM_PATH (ahsStaticSetTarFilename h (Some s)))) (c_string_at b data)
      else if t = GNUTYPE_LONGLINK then
        map_option (\<lambda>s. Inr (use_mask TARU_EHUM_LINKPATH (ahsStaticSetPaxLinkname h (Some s)))) (c_string_at b data)
      else if t = XHDTYPE then
        map_option (\<lambda>(n, _, h). if n < 0 then Inl h else Inr h) (taru_read_all_ext_header_records h b data len)
      else None)"

section \<open>One header\<close>

text \<open>What the reader leaves behind: the returned number, the end of archive indication, and the state.\<close>

record header_in =
  hi_ret :: int
  hi_eoa :: int
  hi_taru :: taru
  hi_source :: tar_source
  hi_header :: new_cpio_header
  hi_owners :: owners

text \<open>The record at the current position of the read buffer's object: it is always stored at the beginning
  of the buffer, while the position moves on.\<close>

definition read_record :: "taru \<Rightarrow> tar_source \<Rightarrow> (char list \<times> taru \<times> tar_source) option" where
  "read_record taru src = do {
     s \<leftarrow> strob_set_length (read_bufferM taru) (read_buffer_posM taru + int TARRECORDSIZE);
     (blk, src) \<leftarrow> fetch_block src (read_buffer_posM taru);
     b \<leftarrow> sb_str s;
     b \<leftarrow> mem_write b 0 blk;
     Some (blk, taru\<lparr>read_bufferM := s\<lparr>sb_str := Some b\<rparr>\<rparr>, consume_len (int TARRECORDSIZE) src) }"

definition accept_record :: "taru \<Rightarrow> (block \<times> taru) option" where
  "accept_record taru = do {
     let pos = read_buffer_posM taru + int TARRECORDSIZE;
     s \<leftarrow> strob_set_length (read_bufferM taru) (pos + int TARRECORDSIZE);
     b \<leftarrow> sb_str s;
     let taru = taru\<lparr>read_bufferM := s, read_buffer_posM := pos\<rparr>;
     taru \<leftarrow> (if do_record_headerM taru then record_header_at taru (header_lengthM taru) (take TARRECORDSIZE b)
             else Some taru);
     Some (take TARRECORDSIZE b, taru) }"

text \<open>The second block of the end of the archive. In memory it is not looked at.\<close>

definition read_end_of_archive ::
  "taru \<Rightarrow> new_cpio_header \<Rightarrow> owners \<Rightarrow> tar_source \<Rightarrow> header_in option" where
  "read_end_of_archive taru h w src = do {
     let h = ahsStaticSetTarFilename h (Some CPIO_INBAND_EOA_FILENAME);
     (blk, src) \<leftarrow> (if from_buffer src then Some (replicate TARRECORDSIZE NUL, src)
                   else fetch_block src 0);
     b \<leftarrow> sb_str (read_bufferM taru);
     b \<leftarrow> mem_write b 0 blk;
     nulls \<leftarrow> null_block b (int TARRECORDSIZE);
     let retval = (if length blk \<noteq> TARRECORDSIZE \<or> \<not> nulls then - 1 else 1024);
     Some \<lparr>hi_ret = retval, hi_eoa = retval,
       hi_taru = taru\<lparr>read_bufferM := (read_bufferM taru)\<lparr>sb_str := Some b\<rparr>,
         read_buffer_posM := read_buffer_posM taru + int TARRECORDSIZE\<rparr>,
       hi_source = src, hi_header = h, hi_owners = w\<rparr> }"

text \<open>The pointer \<open>tar_hdr\<close> goes on being used after the data of an extended header have been read. If that
  reallocates the read buffer the pointer is dangling: \<^term>\<open>None\<close>. The record in which the loop shifts
  bytes is not initialised.\<close>

definition unset_record :: block where "unset_record = replicate TARRECORDSIZE uninit"

partial_function (option) i_taru_read_in_tar_header2 ::
  "tarflags \<Rightarrow> taru \<Rightarrow> new_cpio_header \<Rightarrow> owners \<Rightarrow> tar_source \<Rightarrow> int \<Rightarrow> header_in option" where
  "i_taru_read_in_tar_header2 flags taru h w src fp_retval = do {
     (blk, taru, src) \<leftarrow> read_record taru src;
     if length blk \<noteq> TARRECORDSIZE then
       Some \<lparr>hi_ret = (if blk = [] then 0 else - 1), hi_eoa = 0, hi_taru = taru, hi_source = src,
         hi_header = h, hi_owners = w\<rparr>
     else do {
       (hdr, taru) \<leftarrow> accept_record taru;
       nulls \<leftarrow> null_block hdr (int TARRECORDSIZE);
       if nulls then read_end_of_archive taru h w src
       else if ext_type (hdr ! nat THB_BO_typeflag) then do {
         filesize \<leftarrow> read_num hdr THB_BO_size;
         let h = h\<lparr>c_filesize := filesize\<rparr>;
         (n, taru', src) \<leftarrow> read_ext_data taru src filesize;
         if sb_reserve (read_bufferM taru') \<noteq> sb_reserve (read_bufferM taru) then None
         else do {
           b \<leftarrow> sb_str (read_bufferM taru');
           used \<leftarrow> use_ext_data (hdr ! nat THB_BO_typeflag) b (read_buffer_posM taru' - n) (c_int (uint filesize)) h;
           case used of
             Inl h \<Rightarrow> Some \<lparr>hi_ret = - 11, hi_eoa = 0, hi_taru = taru', hi_source = src, hi_header = h, hi_owners = w\<rparr>
           | Inr h \<Rightarrow> i_taru_read_in_tar_header2 flags taru' h w (advance (int TARRECORDSIZE + n) src)
               (fp_retval + (int TARRECORDSIZE + n)) } }
       else do {
         chksum \<leftarrow> read_num hdr THB_BO_chksum;
         r \<leftarrow> read_tar_header_loop w flags (from_buffer src) hdr unset_record
               (case src of Tar_fd inp _ \<Rightarrow> inp | _ \<Rightarrow> []) 0 h;
         Some (case r of
             Inl e \<Rightarrow> \<lparr>hi_ret = e, hi_eoa = 0, hi_taru = taru, hi_source = src,
               hi_header = h\<lparr>c_chksum := chksum\<rparr>, hi_owners = w\<rparr>
           | Inr (h, w, skipped) \<Rightarrow> \<lparr>hi_ret = int TARRECORDSIZE + fp_retval, hi_eoa = 0, hi_taru = taru,
               hi_source = src, hi_header = h, hi_owners = w\<rparr>) } } }"

definition taru_read_in_tar_header2 ::
  "bool \<Rightarrow> tarflags \<Rightarrow> taru \<Rightarrow> new_cpio_header \<Rightarrow> owners \<Rightarrow> tar_source \<Rightarrow> header_in option" where
  "taru_read_in_tar_header2 junk flags taru h w src = do {
     let taru = taru\<lparr>read_buffer_posM := 0\<rparr>;
     let taru = (if do_record_headerM taru then taru\<lparr>header_lengthM := 0\<rparr> else taru);
     h \<leftarrow> taru_exattlist_init (h\<lparr>extHeader_usage_maskM := 0\<rparr>);
     let h = ahsStaticSetPaxLinkname (ahsStaticSetTarFilename h (Some [])) (Some []);
     r \<leftarrow> i_taru_read_in_tar_header2 flags taru h w src 0;
     h \<leftarrow> apply_ext_headers junk (hi_header r);
     Some (r\<lparr>hi_header := h\<rparr>) }"


section \<open>Reading from a descriptor\<close>

text \<open>\<open>reads taru R\<close>: the read buffer is well formed and has \<open>R\<close> bytes, and headers are not recorded.\<close>

definition reads :: "taru \<Rightarrow> int \<Rightarrow> bool" where
  "reads taru R \<longleftrightarrow> strob_wf (read_bufferM taru) \<and> sb_reserve (read_bufferM taru) = R \<and>
     R + sb_extra (read_bufferM taru) < INT_LIMIT \<and> 0 \<le> read_buffer_posM taru \<and> \<not> do_record_headerM taru"

lemma strob_set_length_inside:
  assumes "strob_bytes s bs" "int (length bs) \<le> n" "n + 1 \<le> sb_reserve s" "sb_reserve s + sb_extra s < INT_LIMIT"
  obtains s' where "strob_set_length s n = Some s'" "strob_bytes s' bs" "sb_length s' = n + 1"
    "sb_reserve s' = sb_reserve s" "sb_extra s' = sb_extra s"
proof -
  have e: "0 \<le> sb_extra s" using assms(1) by (auto elim: strob_bytesE)
  have "strob_room s (n + 1)" using assms(2-4) e by (simp add: strob_room_def)
  from strob_set_length_bytes [OF assms(1) this assms(2)] obtain s' where s':
    "strob_set_length s n = Some s'" "strob_bytes s' bs" "sb_length s' = n + 1" "sb_extra s' = sb_extra s" by blast
  have "c_int (n + 1) = n + 1" using assms(2-4) e by simp
  then have "sb_reserve s' = sb_reserve s"
    using s'(1) assms(3) by (auto simp: strob_set_length_def strob_set_memlength_def strob_reopen_if_def bind_iff)
  with s' show thesis by (intro that)
qed

lemma fetch_fd: "gst_fdM ib \<le> 0 \<Longrightarrow> fetch_block (Tar_fd inp ib) at = Some (take 512 inp, Tar_fd (drop 512 inp) ib)"
  by (simp add: fetch_block_def taru_tape_buffered_read_def uxfio_sfa_read_def)

lemma from_buffer_simps [simp]: "\<not> from_buffer (Tar_fd inp ib)" "from_buffer (Tar_buffer b off len)"
  "consume_len n (Tar_fd inp ib) = Tar_fd inp ib" "advance n (Tar_fd inp ib) = Tar_fd inp ib"
  "consume_len n (Tar_buffer b off len) = Tar_buffer b off (len - n)"
  "advance n (Tar_buffer b off len) = Tar_buffer b (off + n) len"
  by (simp_all add: from_buffer_def consume_len_def advance_def)

text \<open>The first two steps: a whole record is read and accepted.\<close>

lemma read_record_step:
  assumes "reads taru R" "read_buffer_posM taru + 1025 \<le> R"
    "fetch_block src (read_buffer_posM taru) = Some (blk, src')" "length blk = 512"
  obtains taru1 s where "read_record taru src = Some (blk, taru1, consume_len 512 src')"
    "accept_record taru1 = Some (blk, taru\<lparr>read_bufferM := s, read_buffer_posM := read_buffer_posM taru + 512\<rparr>)"
    "reads (taru\<lparr>read_bufferM := s, read_buffer_posM := read_buffer_posM taru + 512\<rparr>) R" "strob_bytes s blk"
    "sb_length s = read_buffer_posM taru + 1025" "sb_extra s = sb_extra (read_bufferM taru)"
proof -
  let ?p = "read_buffer_posM taru" and ?rb = "read_bufferM taru"
  have r: "strob_wf ?rb" "sb_reserve ?rb = R" "R + sb_extra ?rb < INT_LIMIT" "0 \<le> ?p" "\<not> do_record_headerM taru"
    using assms(1) by (simp_all add: reads_def)
  obtain s1 where s1: "strob_set_length ?rb (?p + 512) = Some s1" "strob_bytes s1 []" "sb_length s1 = ?p + 512 + 1"
    "sb_reserve s1 = sb_reserve ?rb" "sb_extra s1 = sb_extra ?rb"
    by (rule strob_set_length_inside [OF strob_bytes_Nil [OF r(1)], of "?p + 512"]) (use r assms(2) in auto)
  obtain b1 where b1: "sb_str s1 = Some b1" using s1(2) by (auto elim: strob_bytesE)
  obtain b2 where b2: "mem_write b1 (int (length ([] :: char list))) blk = Some b2" "strob_bytes (s1\<lparr>sb_str := Some b2\<rparr>) ([] @ blk)"
    by (rule strob_bytes_store [OF s1(2) b1, of blk]) (use s1 r assms(2,4) in auto)
  let ?t1 = "taru\<lparr>read_bufferM := s1\<lparr>sb_str := Some b2\<rparr>\<rparr>"
  obtain s2 where s2: "strob_set_length (s1\<lparr>sb_str := Some b2\<rparr>) (?p + 1024) = Some s2" "strob_bytes s2 blk"
    "sb_length s2 = ?p + 1024 + 1" "sb_reserve s2 = R" "sb_extra s2 = sb_extra ?rb"
    by (rule strob_set_length_inside [of "s1\<lparr>sb_str := Some b2\<rparr>" blk "?p + 1024"]) (use b2 s1 r assms(2,4) in auto)
  obtain b3 where b3: "sb_str s2 = Some b3" "take 512 b3 = blk" using s2(2) assms(4) by (auto elim: strob_bytesE)
  have "read_record taru src = Some (blk, ?t1, consume_len 512 src')"
    using s1(1) b1 b2(1) assms(3) by (simp add: read_record_def)
  moreover have "accept_record ?t1 = Some (blk, taru\<lparr>read_bufferM := s2, read_buffer_posM := ?p + 512\<rparr>)"
    using s2(1) b3 r(5) by (simp add: accept_record_def add.commute)
  moreover have "reads (taru\<lparr>read_bufferM := s2, read_buffer_posM := ?p + 512\<rparr>) R"
    using s2 r by (auto simp: reads_def elim: strob_bytesE)
  ultimately show thesis by (rule that) (use s2 in auto)
qed

lemma null_block_record: "length blk = 512 \<Longrightarrow> null_block blk 512 = Some (list_all (\<lambda>c. c = NUL) blk)"
  by (simp add: null_block_def)

text \<open>The blocks of data are stored one behind the other.\<close>

lemma pax_blocks_loop_fd:
  assumes "strob_bytes (read_bufferM taru) (P @ done')" "length P + m * 512 \<le> nat (sb_length (read_bufferM taru))"
    "length P + m * 512 < nat (sb_reserve (read_bufferM taru))" "\<not> do_record_headerM taru" "gst_fdM ib \<le> 0"
    "length ds = (m - n) * 512" "length done' = n * 512" "n \<le> m"
  shows "\<exists>s. pax_blocks_loop (int m) (int n) (int (length P)) taru (Tar_fd (ds @ rest) ib) (int (n * 512)) =
      Some (int (m * 512), taru\<lparr>read_bufferM := s, read_buffer_posM := read_buffer_posM taru + int (length ds)\<rparr>, Tar_fd rest ib) \<and>
     strob_bytes s (P @ done' @ ds) \<and> sb_length s = sb_length (read_bufferM taru) \<and>
     sb_reserve s = sb_reserve (read_bufferM taru) \<and> sb_extra s = sb_extra (read_bufferM taru)"
  using assms
proof (induction "m - n" arbitrary: n taru done' ds)
  case 0
  then have [simp]: "m = n" by simp
  have "ds = []" using 0(7) by simp
  then have "pax_blocks_loop (int m) (int n) (int (length P)) taru (Tar_fd (ds @ rest) ib) (int (n * 512)) =
      Some (int (m * 512), taru\<lparr>read_bufferM := read_bufferM taru, read_buffer_posM := read_buffer_posM taru + int (length ds)\<rparr>,
        Tar_fd rest ib)"
    by (subst pax_blocks_loop.simps) simp
  then show ?case using 0(2) \<open>ds = []\<close> by (intro exI [of _ "read_bufferM taru"]) simp
next
  case (Suc k)
  let ?rb = "read_bufferM taru"
  define blk where "blk = take 512 ds"
  define tl where "tl = drop 512 ds"
  have n: "n < m" using Suc(2) by simp
  have ds: "ds = blk @ tl" by (simp add: blk_def tl_def)
  have "512 \<le> (m - n) * 512" using n by simp
  then have lb: "length blk = 512" and lt: "length tl = (m - Suc n) * 512"
    using Suc.prems(6) by (simp_all add: blk_def tl_def diff_mult_distrib)
  obtain b where b: "sb_str ?rb = Some b" using Suc.prems(1) by (auto elim: strob_bytesE)
  have nm: "n * 512 + 512 \<le> m * 512" using n by simp
  obtain b' where b': "mem_write b (int (length (P @ done'))) blk = Some b'"
    "strob_bytes (?rb\<lparr>sb_str := Some b'\<rparr>) ((P @ done') @ blk)"
    by (rule strob_bytes_store [OF Suc.prems(1) b, of blk]) (use lb nm Suc.prems(2,3,7) in linarith | simp)+
  let ?t = "taru\<lparr>read_bufferM := ?rb\<lparr>sb_str := Some b'\<rparr>, read_buffer_posM := read_buffer_posM taru + 512\<rparr>"
  have "\<exists>s. pax_blocks_loop (int m) (int (Suc n)) (int (length P)) ?t (Tar_fd (tl @ rest) ib) (int (Suc n * 512)) =
      Some (int (m * 512), ?t\<lparr>read_bufferM := s, read_buffer_posM := read_buffer_posM ?t + int (length tl)\<rparr>, Tar_fd rest ib) \<and>
     strob_bytes s (P @ (done' @ blk) @ tl) \<and> sb_length s = sb_length (read_bufferM ?t) \<and>
     sb_reserve s = sb_reserve (read_bufferM ?t) \<and> sb_extra s = sb_extra (read_bufferM ?t)"
    by (rule Suc.hyps(1)) (use Suc.hyps(2) Suc.prems lb lt b'(2) n in auto)
  then obtain s where s: "pax_blocks_loop (int m) (int (Suc n)) (int (length P)) ?t (Tar_fd (tl @ rest) ib) (int (Suc n * 512)) =
      Some (int (m * 512), ?t\<lparr>read_bufferM := s, read_buffer_posM := read_buffer_posM ?t + int (length tl)\<rparr>, Tar_fd rest ib)"
     "strob_bytes s (P @ (done' @ blk) @ tl)" "sb_length s = sb_length ?rb" "sb_reserve s = sb_reserve ?rb" "sb_extra s = sb_extra ?rb"
    by auto
  have f: "fetch_block (Tar_fd (ds @ rest) ib) (int n * 512) = Some (blk, Tar_fd (tl @ rest) ib)"
    using fetch_fd [OF Suc.prems(5)] lb by (simp add: ds)
  have "pax_blocks_loop (int m) (int n) (int (length P)) taru (Tar_fd (ds @ rest) ib) (int (n * 512)) =
     pax_blocks_loop (int m) (int (Suc n)) (int (length P)) ?t (Tar_fd (tl @ rest) ib) (int (Suc n * 512))"
    using n f b b'(1) lb Suc.prems(4,7) by (subst pax_blocks_loop.simps) (simp add: add.commute)
  also have "\<dots> = Some (int (m * 512), taru\<lparr>read_bufferM := s, read_buffer_posM := read_buffer_posM taru + int (length ds)\<rparr>, Tar_fd rest ib)"
    using s(1) lb by (simp add: ds)
  finally show ?case using s(2-) ds by auto
qed


definition ext_blocks :: "nat \<Rightarrow> nat" where
  "ext_blocks len = (len + 511) div 512"

lemma ext_blocks_eq: "ext_blocks len = len div 512 + (if len mod 512 \<noteq> 0 then 1 else 0)"
proof -
  define q r where "q = len div 512" and "r = len mod 512"
  then have len: "len = 512 * q + r" and r: "r < 512" by simp_all
  show ?thesis
  proof (cases r)
    case 0
    then show ?thesis unfolding ext_blocks_def len by simp
  next
    case (Suc k)
    then have "len + 511 = k + 512 * (q + 1)" "k < 512" using len r by simp_all
    then have "ext_blocks len = q + 1" unfolding ext_blocks_def by (simp only: div_mult_self2 div_less)
    then show ?thesis using Suc by (simp add: q_def r_def)
  qed
qed

lemma ext_blocks_int: "int len sdiv 512 + (if int len smod 512 \<noteq> 0 then 1 else 0) = int (ext_blocks len)"
proof -
  have "int len sdiv 512 = int (len div 512)" "int len smod 512 = int (len mod 512)"
    by (cases "len = 0"; simp add: signed_divide_int_def smod_int_alt_def zdiv_int zmod_int)+
  then show ?thesis unfolding ext_blocks_eq by simp
qed

text \<open>After the data have been read they stand in the buffer at the position at which it was, with a NUL
  behind them, and the position is behind them.\<close>

lemma pax_data_blocks_fd:
  assumes "reads taru R" "strob_bytes (read_bufferM taru) H" "read_buffer_posM taru \<le> sb_length (read_bufferM taru)"
    "read_buffer_posM taru + int (ext_blocks len * 512) + 523 \<le> R" "length ds = ext_blocks len * 512" "gst_fdM ib \<le> 0"
  obtains s b pad where "taru_read_pax_data_blocks taru (Tar_fd (ds @ rest) ib) (int len) =
      Some (int (length ds), taru\<lparr>read_bufferM := s, read_buffer_posM := read_buffer_posM taru + int (length ds)\<rparr>, Tar_fd rest ib)"
    "reads (taru\<lparr>read_bufferM := s, read_buffer_posM := read_buffer_posM taru + int (length ds)\<rparr>) R"
    "sb_str s = Some b" "drop (nat (read_buffer_posM taru)) b = ds @ NUL # pad"
    "sb_extra s = sb_extra (read_bufferM taru)"
proof -
  let ?rb = "read_bufferM taru" and ?p = "read_buffer_posM taru" and ?m = "ext_blocks len"
  have r: "strob_wf ?rb" "sb_reserve ?rb = R" "R + sb_extra ?rb < INT_LIMIT" "0 \<le> ?p" "\<not> do_record_headerM taru"
    using assms(1) by (simp_all add: reads_def)
  obtain b0 where b0: "sb_str ?rb = Some b0" "int (length b0) = R" using r(1,2) by (auto elim: strob_wfE)
  define P where "P = take (nat ?p) b0"
  have lP: "int (length P) = ?p" using b0(2) r(4) assms(4) by (simp add: P_def)
  then have P: "strob_bytes ?rb P" using r(1) assms(3) b0(1) by (simp add: strob_bytes_def P_def)
  let ?len = "?p + int ?m * 512 + 512 + 10"
  obtain s1 where s1: "strob_set_length ?rb ?len = Some s1" "strob_bytes s1 P" "sb_length s1 = ?len + 1"
    "sb_reserve s1 = R" "sb_extra s1 = sb_extra ?rb"
    by (rule strob_set_length_inside [OF P, of ?len]) (use lP r assms(4) in auto)
  let ?t = "taru\<lparr>read_bufferM := s1\<rparr>"
  have "\<exists>s. pax_blocks_loop (int ?m) (int 0) (int (length P)) ?t (Tar_fd (ds @ rest) ib) (int (0 * 512)) =
      Some (int (?m * 512), ?t\<lparr>read_bufferM := s, read_buffer_posM := read_buffer_posM ?t + int (length ds)\<rparr>, Tar_fd rest ib) \<and>
     strob_bytes s (P @ [] @ ds) \<and> sb_length s = sb_length (read_bufferM ?t) \<and>
     sb_reserve s = sb_reserve (read_bufferM ?t) \<and> sb_extra s = sb_extra (read_bufferM ?t)"
    by (rule pax_blocks_loop_fd) (use s1 lP assms(4-6) r(4,5) in auto)
  then obtain s where s: "pax_blocks_loop (int ?m) 0 ?p ?t (Tar_fd (ds @ rest) ib) 0 =
      Some (int (length ds), taru\<lparr>read_bufferM := s, read_buffer_posM := ?p + int (length ds)\<rparr>, Tar_fd rest ib)"
    "strob_bytes s (P @ ds)" "sb_length s = ?len + 1" "sb_reserve s = R" "sb_extra s = sb_extra ?rb"
    using s1 lP assms(5) by auto
  obtain b where b: "sb_str s = Some b" "take (length (P @ ds)) b = P @ ds" "strob_wf s" "int (length b) = R"
    using s(2,4) by (auto elim: strob_bytesE)
  have room: "?p + int (length ds) + 1 < int (length b)" using assms(4,5) b(4) by simp
  define b' where "b' = put b (nat (?p + int (length ds))) [NUL]"
  have w: "mem_write b (?p + int (length ds)) [NUL] = Some b'"
    using room r(4) mem_write_put [of "?p + int (length ds)" "[NUL]" b] by (simp add: b'_def)
  have wf: "strob_wf (s\<lparr>sb_str := Some b'\<rparr>)" using strob_wf_write [OF b(3,1) w] by simp
  have pd: "nat (?p + int (length ds)) = length (P @ ds)" using lP by simp
  have "b' = (P @ ds) @ NUL # drop (length (P @ ds) + 1) b"
    using b(2) unfolding b'_def pd put_def by simp
  then have d: "drop (nat ?p) b' = ds @ NUL # drop (length (P @ ds) + 1) b" using lP by auto
  let ?s = "s\<lparr>sb_str := Some b'\<rparr>"
  have "taru_read_pax_data_blocks taru (Tar_fd (ds @ rest) ib) (int len) =
      Some (int (length ds), taru\<lparr>read_bufferM := ?s, read_buffer_posM := ?p + int (length ds)\<rparr>, Tar_fd rest ib)"
    using s(1) s1(1) b(1) w by (simp add: taru_read_pax_data_blocks_def ext_blocks_int)
  moreover have "reads (taru\<lparr>read_bufferM := ?s, read_buffer_posM := ?p + int (length ds)\<rparr>) R"
    using wf s(4,5) r by (simp add: reads_def)
  ultimately show thesis by (rule that) (use d s(5) in auto)
qed

text \<open>The records of an archive: one that is not an extended header, and one that is, with its data.\<close>

definition plain_record :: "block \<Rightarrow> bool" where
  "plain_record blk \<longleftrightarrow> length blk = 512 \<and> \<not> list_all (\<lambda>c. c = NUL) blk \<and> \<not> ext_type (blk ! 156)"

definition ext_record :: "char \<Rightarrow> nat \<Rightarrow> block \<Rightarrow> bool" where
  "ext_record t len blk \<longleftrightarrow> length blk = 512 \<and> blk ! 156 = t \<and> ext_type t \<and> len < 2 ^ 31 \<and>
     read_num blk THB_BO_size = Some (of_nat len)"

definition read_state :: "taru \<Rightarrow> int \<Rightarrow> int \<Rightarrow> bool" where
  "read_state taru R p \<longleftrightarrow> reads taru R \<and> read_buffer_posM taru = p"

lemma ext_record_not_null: "ext_record t len blk \<Longrightarrow> \<not> list_all (\<lambda>c. c = NUL) blk"
proof
  assume e: "ext_record t len blk" and n: "list_all (\<lambda>c. c = NUL) blk"
  have "blk ! 156 = NUL" using n e by (simp add: list_all_length ext_record_def)
  then show False using e by (auto simp: ext_record_def ext_type_def)
qed

lemma plain_step:
  assumes "reads taru R" "read_buffer_posM taru + 1025 \<le> R" "plain_record hdr" "gst_fdM ib \<le> 0"
    "read_num hdr THB_BO_chksum = Some c"
    "read_tar_header_loop w flags False hdr unset_record rest 0 h = Some (Inr (h', w', k))"
  shows "\<exists>taru'. reads taru' R \<and>
    i_taru_read_in_tar_header2 flags taru h w (Tar_fd (hdr @ rest) ib) fp =
      Some \<lparr>hi_ret = 512 + fp, hi_eoa = 0, hi_taru = taru', hi_source = Tar_fd rest ib, hi_header = h', hi_owners = w'\<rparr>"
proof -
  have l: "length hdr = 512" "\<not> list_all (\<lambda>c. c = NUL) hdr" "\<not> ext_type (hdr ! 156)"
    using assms(3) by (simp_all add: plain_record_def)
  have f: "fetch_block (Tar_fd (hdr @ rest) ib) (read_buffer_posM taru) = Some (hdr, Tar_fd rest ib)"
    using fetch_fd [OF assms(4)] l(1) by simp
  obtain t1 s where s: "read_record taru (Tar_fd (hdr @ rest) ib) = Some (hdr, t1, consume_len 512 (Tar_fd rest ib))"
    "accept_record t1 = Some (hdr, taru\<lparr>read_bufferM := s, read_buffer_posM := read_buffer_posM taru + 512\<rparr>)"
    "reads (taru\<lparr>read_bufferM := s, read_buffer_posM := read_buffer_posM taru + 512\<rparr>) R"
    by (rule read_record_step [OF assms(1,2) f l(1)])
  show ?thesis
    by (rule exI, rule conjI [OF s(3)])
      (subst i_taru_read_in_tar_header2.simps, use s(1,2) l assms(5,6) in \<open>simp add: null_block_record\<close>)
qed

lemma ext_step:
  assumes "reads taru R" "read_buffer_posM taru + 1035 + int (length ds) \<le> R" "ext_record t len hdr" "gst_fdM ib \<le> 0"
    "length ds = ext_blocks len * 512"
    "\<And>b pad data. drop (nat data) b = ds @ NUL # pad \<Longrightarrow> 0 \<le> data \<Longrightarrow> data + int (length ds) \<le> R \<Longrightarrow>
       \<exists>h'. use_ext_data t b data (int len) (h\<lparr>c_filesize := of_nat len\<rparr>) = Some (Inr h') \<and> P h'"
  obtains taru' h' where "P h'" "reads taru' R" "read_buffer_posM taru' = read_buffer_posM taru + (512 + int (length ds))"
    "i_taru_read_in_tar_header2 flags taru h w (Tar_fd (hdr @ ds @ rest) ib) fp =
     i_taru_read_in_tar_header2 flags taru' h' w (Tar_fd rest ib) (fp + (512 + int (length ds)))"
proof -
  let ?p = "read_buffer_posM taru"
  have l: "length hdr = 512" "hdr ! 156 = t" "ext_type t" "len < 2 ^ 31" "read_num hdr 124 = Some (of_nat len)"
    using assms(3) by (simp_all add: ext_record_def)
  note nn = ext_record_not_null [OF assms(3)]
  have p0: "0 \<le> ?p" using assms(1) by (simp add: reads_def)
  have f: "fetch_block (Tar_fd (hdr @ ds @ rest) ib) ?p = Some (hdr, Tar_fd (ds @ rest) ib)"
    using fetch_fd [OF assms(4)] l(1) by simp
  obtain t1 s where s: "read_record taru (Tar_fd (hdr @ ds @ rest) ib) = Some (hdr, t1, consume_len 512 (Tar_fd (ds @ rest) ib))"
    "accept_record t1 = Some (hdr, taru\<lparr>read_bufferM := s, read_buffer_posM := ?p + 512\<rparr>)"
    "reads (taru\<lparr>read_bufferM := s, read_buffer_posM := ?p + 512\<rparr>) R" "strob_bytes s hdr" "sb_length s = ?p + 1025"
    by (rule read_record_step [OF assms(1) _ f l(1)]) (use assms(2) in auto)
  let ?t = "taru\<lparr>read_bufferM := s, read_buffer_posM := ?p + 512\<rparr>"
  obtain s' b pad where d: "taru_read_pax_data_blocks ?t (Tar_fd (ds @ rest) ib) (int len) =
      Some (int (length ds), ?t\<lparr>read_bufferM := s', read_buffer_posM := read_buffer_posM ?t + int (length ds)\<rparr>, Tar_fd rest ib)"
    "reads (?t\<lparr>read_bufferM := s', read_buffer_posM := read_buffer_posM ?t + int (length ds)\<rparr>) R"
    "sb_str s' = Some b" "drop (nat (read_buffer_posM ?t)) b = ds @ NUL # pad"
    by (rule pax_data_blocks_fd [OF s(3) _ _ _ assms(5,4)]) (use s assms(2,5) in auto)
  let ?t' = "?t\<lparr>read_bufferM := s', read_buffer_posM := read_buffer_posM ?t + int (length ds)\<rparr>"
  have cl: "c_int (uint (of_nat len :: 64 word)) = int len"
  proof -
    have "uint (of_nat len :: 64 word) = int len" using l(4) by (simp add: unsigned_of_nat take_bit_nat_eq_self)
    then show ?thesis using l(4) by simp
  qed
  have e: "read_ext_data ?t (Tar_fd (ds @ rest) ib) (of_nat len) = Some (int (length ds), ?t', Tar_fd rest ib)"
    using d(1) by (simp add: read_ext_data_def cl)
  have rv: "sb_reserve s' = sb_reserve s" using s(3) d(2) by (simp add: reads_def)
  have "\<exists>h'. use_ext_data t b (?p + 512) (int len) (h\<lparr>c_filesize := of_nat len\<rparr>) = Some (Inr h') \<and> P h'"
    by (rule assms(6)) (use d(4) p0 assms(2) in auto)
  then obtain h' where u: "use_ext_data t b (?p + 512) (int len) (h\<lparr>c_filesize := of_nat len\<rparr>) = Some (Inr h')" "P h'"
    by blast
  have "i_taru_read_in_tar_header2 flags taru h w (Tar_fd (hdr @ ds @ rest) ib) fp =
     i_taru_read_in_tar_header2 flags ?t' h' w (Tar_fd rest ib) (fp + (512 + int (length ds)))"
    by (subst i_taru_read_in_tar_header2.simps)
      (use s(1,2) l e rv d(3) u(1) nn in \<open>simp add: null_block_record cl add.commute\<close>)
  then show thesis using that [of h' ?t'] u(2) d(2) by simp
qed


section \<open>Members of an archive\<close>

text \<open>The reader at the beginning of a member: a fresh list of attributes and a read buffer of \<open>R\<close> bytes.\<close>

definition ready :: "taru \<Rightarrow> int \<Rightarrow> bool" where
  "ready taru R \<longleftrightarrow> strob_wf (read_bufferM taru) \<and> sb_reserve (read_bufferM taru) = R \<and>
     R + sb_extra (read_bufferM taru) < INT_LIMIT \<and> \<not> do_record_headerM taru"

lemma exattlist_init_fresh:
  assumes "extattlistM h = None"
  obtains l where "taru_exattlist_init h = Some (h\<lparr>extattlistM := Some l\<rparr>)" "nta_inv l" "nta_elems l = []"
proof -
  obtain l :: "exatt cplob" where o: "cplob_open 22 = Some l" "nta_inv l" "nta_elems l = []"
    using cplob_open_nta [of 22] by blast
  have "nta_inv (l\<lparr>refcountM := 1\<rparr>) = nta_inv l" "nta_elems (l\<lparr>refcountM := 1\<rparr>) = nta_elems l"
    by (simp_all add: nta_inv_def nta_elems_def)
  then have l: "nta_inv (l\<lparr>refcountM := 1\<rparr>)" "nta_elems (l\<lparr>refcountM := 1\<rparr>) = []" using o by simp_all
  have "taru_exattlist_init h = Some (h\<lparr>extattlistM := Some (l\<lparr>refcountM := 1\<rparr>)\<rparr>)"
    using assms o cplob_scan_all [OF l(1), of "\<lambda>p s. Inr s" "()"]
    by (simp add: taru_exattlist_init_def exattlist_of_def)
  then show thesis using l by (rule that)
qed

text \<open>What is left of reading a header after the initialisations.\<close>

lemma taru_read_in_tar_header2_start:
  assumes "ready taru R" "extattlistM h0 = None"
  obtains h1 where "reads (taru\<lparr>read_buffer_posM := 0\<rparr>) R" "ext_list h1 []" "extHeader_usage_maskM h1 = 0"
    "ahsStaticGetTarLinkname h1 = []"
    "taru_read_in_tar_header2 junk flags taru h0 w src = do {
       r \<leftarrow> i_taru_read_in_tar_header2 flags (taru\<lparr>read_buffer_posM := 0\<rparr>) h1 w src 0;
       h \<leftarrow> apply_ext_headers junk (hi_header r);
       Some (r\<lparr>hi_header := h\<rparr>) }"
proof -
  have "extattlistM (h0\<lparr>extHeader_usage_maskM := 0\<rparr>) = None" using assms(2) by simp
  then obtain l where l: "taru_exattlist_init (h0\<lparr>extHeader_usage_maskM := 0\<rparr>) =
      Some (h0\<lparr>extHeader_usage_maskM := 0\<rparr>\<lparr>extattlistM := Some l\<rparr>)" "nta_inv l" "nta_elems l = []"
    by (rule exattlist_init_fresh)
  let ?h1 = "ahsStaticSetPaxLinkname (ahsStaticSetTarFilename (h0\<lparr>extHeader_usage_maskM := 0, extattlistM := Some l\<rparr>) (Some [])) (Some [])"
  show thesis
  proof (rule that [of ?h1])
    show "reads (taru\<lparr>read_buffer_posM := 0\<rparr>) R" using assms(1) by (simp add: ready_def reads_def)
    show "ext_list ?h1 []" using l(2,3) by (simp add: ext_list_def ahs_name_defs)
  qed (use l(1) assms(1) in \<open>simp_all add: ahs_name_defs taru_read_in_tar_header2_def ready_def Let_def\<close>)
qed

text \<open>A record written for a header is read by the loop.\<close>

lemma written_plain:
  assumes "ustar_ok h fl user grp" "written hdr h fl user grp" "\<not> flag_set fl TARU_TAR_NUMERIC_UIDS"
  shows "plain_record hdr"
proof -
  have t: "hdr ! 156 = tarflag h" and l: "length hdr = 512"
    using written_reads(8) [OF assms] assms(2) by (simp_all add: written_def)
  have x: "tarflag h \<noteq> NUL" "\<not> ext_type (tarflag h)" by (auto simp: tarflag_def ext_type_def)
  have "\<not> list_all (\<lambda>c. c = NUL) hdr"
  proof
    assume "list_all (\<lambda>c. c = NUL) hdr"
    then have "hdr ! 156 = NUL" using l by (simp add: list_all_length)
    then show False using t x(1) by simp
  qed
  then show ?thesis using l t x(2) by (simp add: plain_record_def)
qed

lemma written_step:
  assumes "reads taru R" "read_buffer_posM taru + 1025 \<le> R" "gst_fdM ib \<le> 0"
    "ustar_ok h fl user grp" "written hdr h fl user grp" "\<not> flag_set fl TARU_TAR_NUMERIC_UIDS"
    "read_num hdr 148 = Some s" "taru_tar_checksum hdr = Some s" "flag_set rfl TARU_TAR_RETAIN_HEADER_IDS"
  obtains taru' h' where "reads taru' R"
    "i_taru_read_in_tar_header2 rfl taru h0 v (Tar_fd (hdr @ rest) ib) fp =
      Some \<lparr>hi_ret = 512 + fp, hi_eoa = 0, hi_taru = taru', hi_source = Tar_fd rest ib, hi_header = h', hi_owners = v\<rparr>"
    "same_member h' h user grp"
    "ahsStaticGetTarFilename h' =
      (if and (extHeader_usage_maskM h0) TARU_EHUM_PATH = 0 then header_member_name h fl else ahsStaticGetTarFilename h0)"
    "ahsStaticGetTarLinkname h' =
      (if keeps_link h (extHeader_usage_maskM h0) then ahsStaticGetTarLinkname h0 else link_written h)"
    "extHeader_usage_maskM h' = extHeader_usage_maskM h0" "extattlistM h' = extattlistM h0"
proof -
  let ?h = "h0\<lparr>c_chksum := s\<rparr>"
  obtain h' where h': "decode_tar_header v rfl hdr ?h = Some (h', v)" "same_member h' h user grp"
    "ahsStaticGetTarFilename h' =
      (if and (extHeader_usage_maskM h0) TARU_EHUM_PATH = 0 then header_member_name h fl else ahsStaticGetTarFilename h0)"
    "ahsStaticGetTarLinkname h' =
      (if keeps_link h (extHeader_usage_maskM h0) then ahsStaticGetTarLinkname h0 else link_written h)"
    "extHeader_usage_maskM h' = extHeader_usage_maskM h0" "extattlistM h' = extattlistM h0"
    by (rule decode_written_over [OF assms(4-6,9), of v ?h]) (simp add: ahs_name_defs)
  have "read_tar_header_loop v rfl False hdr unset_record rest 0 h0 = Some (Inr (h', v, 0))"
    using h'(1) assms(7,8) by (simp add: read_tar_header_loop.simps)
  from plain_step [OF assms(1,2) written_plain [OF assms(4-6)] assms(3,7) this, of fp]
  show thesis using that h'(2-) by blast
qed

lemma c_string_data:
  assumes "drop (nat data) b = s @ NUL # r" "0 \<le> data" "c_string s"
  shows "c_string_at b data = Some s"
proof -
  have "NUL \<in> set (drop (nat data) b)" unfolding assms(1) by simp
  from c_string_at_cstr [OF this] show ?thesis using assms by simp
qed

lemma end_of_archive_reads:
  assumes "ready taru R" "1025 \<le> R" "extattlistM h0 = None" "gst_fdM ib \<le> 0" "length blk = 512"
  shows "\<exists>r. taru_read_in_tar_header2 junk flags taru h0 w (Tar_fd (replicate 512 NUL @ blk @ rest) ib) = Some r \<and>
    hi_ret r = (if blk = replicate 512 NUL then 1024 else - 1) \<and> hi_eoa r = hi_ret r \<and> hi_source r = Tar_fd rest ib \<and>
    ahsStaticGetTarFilename (hi_header r) = ''TRAILER!!!''"
proof -
  define z where "z = replicate 512 NUL"
  let ?taru = "taru\<lparr>read_buffer_posM := 0\<rparr>"
  obtain h1 where h1: "reads ?taru R" "extHeader_usage_maskM h1 = 0"
    "taru_read_in_tar_header2 junk flags taru h0 w (Tar_fd (z @ blk @ rest) ib) = do {
       r \<leftarrow> i_taru_read_in_tar_header2 flags ?taru h1 w (Tar_fd (z @ blk @ rest) ib) 0;
       h \<leftarrow> apply_ext_headers junk (hi_header r);
       Some (r\<lparr>hi_header := h\<rparr>) }"
    by (rule taru_read_in_tar_header2_start [OF assms(1,3)]) blast
  have z: "length z = 512" "list_all (\<lambda>c. c = NUL) z" by (simp_all add: list_all_iff z_def)
  have f: "fetch_block (Tar_fd (z @ blk @ rest) ib) (read_buffer_posM ?taru) = Some (z, Tar_fd (blk @ rest) ib)"
    using fetch_fd [OF assms(4)] z(1) by simp
  obtain t1 s where s: "read_record ?taru (Tar_fd (z @ blk @ rest) ib) = Some (z, t1, consume_len 512 (Tar_fd (blk @ rest) ib))"
    "accept_record t1 = Some (z, ?taru\<lparr>read_bufferM := s, read_buffer_posM := read_buffer_posM ?taru + 512\<rparr>)"
    "strob_bytes s z" "reads (?taru\<lparr>read_bufferM := s, read_buffer_posM := read_buffer_posM ?taru + 512\<rparr>) R"
    by (rule read_record_step [OF h1(1) _ f z(1)]) (use assms(2) in auto)
  obtain b where b: "sb_str s = Some b" "512 \<le> length b"
    using s(3,4) assms(2) by (auto simp: reads_def elim: strob_bytesE)
  define b' where "b' = blk @ drop 512 b"
  have w: "mem_write b 0 blk = Some b'" using b(2) assms(5) by (simp add: mem_write_def b'_def)
  have nb: "null_block b' 512 = Some (list_all (\<lambda>c. c = NUL) blk)"
    using assms(5) b(2) by (simp add: null_block_def b'_def)
  have e: "list_all (\<lambda>c. c = NUL) blk \<longleftrightarrow> blk = z"
    using replicate_length_same [of blk NUL] assms(5) z(2) by (auto simp: list_all_iff z_def [symmetric])
  let ?t2 = "?taru\<lparr>read_bufferM := s, read_buffer_posM := read_buffer_posM ?taru + 512\<rparr>"
  let ?h2 = "ahsStaticSetTarFilename h1 (Some CPIO_INBAND_EOA_FILENAME)"
  define r where "r = \<lparr>hi_ret = (if blk \<noteq> z then - 1 else 1024), hi_eoa = (if blk \<noteq> z then - 1 else 1024),
       hi_taru = ?t2\<lparr>read_bufferM := s\<lparr>sb_str := Some b'\<rparr>, read_buffer_posM := read_buffer_posM ?t2 + 512\<rparr>,
       hi_source = Tar_fd rest ib, hi_header = ?h2, hi_owners = w\<rparr>"
  have "fetch_block (Tar_fd (blk @ rest) ib) 0 = Some (blk, Tar_fd rest ib)"
    using fetch_fd [OF assms(4)] assms(5) by simp
  then have eoa: "read_end_of_archive ?t2 h1 w (Tar_fd (blk @ rest) ib) = Some r"
    unfolding read_end_of_archive_def using b(1) w nb assms(5) by (simp add: r_def e Let_def)
  have "i_taru_read_in_tar_header2 flags ?taru h1 w (Tar_fd (z @ blk @ rest) ib) 0 = Some r"
    by (subst i_taru_read_in_tar_header2.simps)
      (use s(1,2) z eoa in \<open>simp add: null_block_record\<close>)
  moreover have "apply_ext_headers junk ?h2 = Some ?h2" using h1(2) by (simp add: apply_ext_headers_def ahs_name_defs)
  ultimately have "taru_read_in_tar_header2 junk flags taru h0 w (Tar_fd (z @ blk @ rest) ib) = Some (r\<lparr>hi_header := ?h2\<rparr>)"
    unfolding h1(3) by (simp add: r_def)
  then show ?thesis unfolding z_def [symmetric]
    by (intro exI [of _ "r\<lparr>hi_header := ?h2\<rparr>"]) (simp add: r_def ahs_name_defs CPIO_INBAND_EOA_FILENAME_def)
qed




text \<open>The data of an extended header with the records of \<open>rs\<close>: reading them leaves the entries of the list.\<close>

definition records_read :: "(string \<times> char list) list \<Rightarrow> new_cpio_header \<Rightarrow> new_cpio_header \<Rightarrow> bool" where
  "records_read rs h h' \<longleftrightarrow> (\<exists>l. h' = use_mask TARU_EHUM_ANY h\<lparr>extattlistM := l\<rparr>) \<and> ext_list h' (map exatt_of rs)"

lemma use_pax_data:
  assumes "list_all record_ok rs" "ext_list h []" "data + int (length (records_bytes rs)) < 2 ^ 31"
    "drop (nat data) b = (records_bytes rs @ p) @ NUL # pad" "0 \<le> data"
  shows "\<exists>h'. use_ext_data XHDTYPE b data (int (length (records_bytes rs))) h = Some (Inr h') \<and> records_read rs h h'"
proof -
  obtain l where l: "taru_read_all_ext_header_records h b (int (nat data)) (int (length (records_bytes rs))) =
      Some (int (length rs), None, use_mask TARU_EHUM_ANY h\<lparr>extattlistM := l\<rparr>)"
    "ext_list (use_mask TARU_EHUM_ANY h\<lparr>extattlistM := l\<rparr>) (map exatt_of rs)"
    using read_all_records [OF assms(1) _ _ assms(2), of "nat data" b "p @ NUL # pad"] assms(3-5) by auto
  then show ?thesis using assms(5) by (auto simp: use_ext_data_def records_read_def)
qed

lemma pax_member_reads:
  assumes "ready taru R" "1547 + 512 * int (ext_blocks (length bs)) \<le> R" "extattlistM h0 = None" "gst_fdM ib \<le> 0"
    "ext_values_ok h" "bs = records_bytes (header_records h)"
    "ext_record XHDTYPE (length bs) xhdr" "length (bs @ pad) = ext_blocks (length bs) * 512"
    "ustar_ok h' fl user grp" "\<not> flag_set fl TARU_TAR_NUMERIC_UIDS" "flag_set rfl TARU_TAR_RETAIN_HEADER_IDS"
    "written hdr h' fl user grp" "read_num hdr 148 = Some s" "taru_tar_checksum hdr = Some s"
  shows "\<exists>r. taru_read_in_tar_header2 junk rfl taru h0 v (Tar_fd (xhdr @ (bs @ pad) @ hdr @ rest) ib) = Some r \<and>
    hi_ret r = int (length (xhdr @ (bs @ pad) @ hdr)) \<and> hi_eoa r = 0 \<and> hi_source r = Tar_fd rest ib \<and>
    ready (hi_taru r) R \<and> hi_owners r = v \<and>
    ahsStaticGetTarFilename (hi_header r) = (if needed h TARU_EHUM_PATH then ahsStaticGetTarFilename h else header_member_name h' fl) \<and>
    (needed h TARU_EHUM_LINKPATH \<longrightarrow> ahsStaticGetTarLinkname (hi_header r) = ahsStaticGetTarLinkname h) \<and>
    ahsStaticGetTarUsername (hi_header r) = (if needed h TARU_EHUM_UNAME then ahsStaticGetTarUsername h else user) \<and>
    ahsStaticGetTarGroupname (hi_header r) = (if needed h TARU_EHUM_GNAME then ahsStaticGetTarGroupname h else grp) \<and>
    c_gid (hi_header r) = (if needed h TARU_EHUM_GID then c_gid h else c_gid h') \<and>
    (needed h TARU_EHUM_SIZE \<or> c_uid (hi_header r) = (if needed h TARU_EHUM_UID then c_uid h else c_uid h')) \<and>
    c_mode (hi_header r) = or (and (c_mode h') 0xFFF) (file_type h') \<and> c_mtime (hi_header r) = c_mtime h' \<and>
    c_filesize (hi_header r) = (if tarflag h' \<in> {REGTYPE, DIRTYPE} then c_filesize h' else 0)"
proof -
  let ?rs = "header_records h"
  note rok = header_records_ok [OF assms(5)] and bs = assms(6)
  let ?src = "Tar_fd (xhdr @ (bs @ pad) @ hdr @ rest) ib"
  obtain h1 where h1: "reads (taru\<lparr>read_buffer_posM := 0\<rparr>) R" "ext_list h1 []" "extHeader_usage_maskM h1 = 0"
    "taru_read_in_tar_header2 junk rfl taru h0 v ?src = do {
       r \<leftarrow> i_taru_read_in_tar_header2 rfl (taru\<lparr>read_buffer_posM := 0\<rparr>) h1 v ?src 0;
       h \<leftarrow> apply_ext_headers junk (hi_header r);
       Some (r\<lparr>hi_header := h\<rparr>) }"
    by (rule taru_read_in_tar_header2_start [OF assms(1,3)]) blast
  let ?h1 = "h1\<lparr>c_filesize := of_nat (length bs)\<rparr>"
  have R: "R < 2 ^ 31" using assms(1) by (auto simp: ready_def elim: strob_wfE)
  have e1: "ext_list ?h1 []" using h1(2) by (simp add: ext_list_def)
  have use: "\<exists>h'. use_ext_data XHDTYPE b data (int (length bs)) ?h1 = Some (Inr h') \<and> records_read ?rs ?h1 h'"
    if "drop (nat data) b = (bs @ pad) @ NUL # q" "0 \<le> data" "data + int (length (bs @ pad)) \<le> R" for b q data
    using use_pax_data [OF rok(1) e1, of data b pad q] that R by (simp add: bs)
  obtain t1 h2 where t1: "records_read ?rs ?h1 h2" "reads t1 R"
    "read_buffer_posM t1 = read_buffer_posM (taru\<lparr>read_buffer_posM := 0\<rparr>) + (512 + int (length (bs @ pad)))"
    "i_taru_read_in_tar_header2 rfl (taru\<lparr>read_buffer_posM := 0\<rparr>) h1 v ?src 0 =
     i_taru_read_in_tar_header2 rfl t1 h2 v (Tar_fd (hdr @ rest) ib) (0 + (512 + int (length (bs @ pad))))"
    by (rule ext_step [OF h1(1) _ assms(7,4,8), where h = h1 and P = "records_read ?rs ?h1" and flags = rfl and w = v
      and rest = "hdr @ rest" and fp = 0, OF _ use]) (use assms(2,8) in auto)
  obtain l where l: "h2 = use_mask TARU_EHUM_ANY ?h1\<lparr>extattlistM := l\<rparr>" "ext_list h2 (map exatt_of ?rs)"
    using t1(1) by (auto simp: records_read_def)
  have mask: "extHeader_usage_maskM h2 \<noteq> 0" "and (extHeader_usage_maskM h2) TARU_EHUM_PATH = 0"
    using any_mask [of l ?h1] h1(3) by (simp_all add: l(1) use_mask_def)
  have p1: "read_buffer_posM t1 + 1025 \<le> R" using t1(3) assms(2) unfolding assms(8) by simp
  obtain t3 h3 where h3: "i_taru_read_in_tar_header2 rfl t1 h2 v (Tar_fd (hdr @ rest) ib) (0 + (512 + int (length (bs @ pad)))) =
      Some \<lparr>hi_ret = 512 + (0 + (512 + int (length (bs @ pad)))), hi_eoa = 0, hi_taru = t3,
        hi_source = Tar_fd rest ib, hi_header = h3, hi_owners = v\<rparr>"
    "reads t3 R" "same_member h3 h' user grp" "ahsStaticGetTarFilename h3 = header_member_name h' fl"
    "extHeader_usage_maskM h3 = extHeader_usage_maskM h2" "extattlistM h3 = extattlistM h2"
    by (rule written_step [OF t1(2) p1 assms(4,9,12,10,13,14,11), of h2 v rest
      "0 + (512 + int (length (bs @ pad)))"]) (use mask(2) in auto)
  have "ext_list h3 (map exatt_of ?rs)" using l(2) h3(6) by (simp add: ext_list_def)
  then obtain l' where l': "apply_ext_headers junk h3 = Some ((after_records junk h h3)\<lparr>extattlistM := l'\<rparr>)"
    using apply_records [of h3 ?rs junk] mask(1) h3(5) by auto
  let ?r = "\<lparr>hi_ret = 512 + (0 + (512 + int (length (bs @ pad)))), hi_eoa = 0, hi_taru = t3,
        hi_source = Tar_fd rest ib, hi_header = (after_records junk h h3)\<lparr>extattlistM := l'\<rparr>, hi_owners = v\<rparr>"
  have read: "taru_read_in_tar_header2 junk rfl taru h0 v ?src = Some ?r"
    unfolding h1(4) t1(4) h3(1) using l' by simp
  have "length xhdr = 512" "length hdr = 512" using assms(7,12) by (simp_all add: ext_record_def written_def)
  note len = this
  note sm = h3(3) [unfolded same_member_def]
  note keep = names_after_records [OF assms(5), of junk h3] ids_after_records [OF assms(5), of junk h3]
  have ahs: "ahsStaticGetTarFilename (g\<lparr>extattlistM := l'\<rparr>) = ahsStaticGetTarFilename g"
    "ahsStaticGetTarLinkname (g\<lparr>extattlistM := l'\<rparr>) = ahsStaticGetTarLinkname g"
    "ahsStaticGetTarUsername (g\<lparr>extattlistM := l'\<rparr>) = ahsStaticGetTarUsername g"
    "ahsStaticGetTarGroupname (g\<lparr>extattlistM := l'\<rparr>) = ahsStaticGetTarGroupname g" for g
    by (simp_all add: ahs_name_defs)
  show ?thesis
  proof (intro exI [of _ ?r] conjI)
    show "ready (hi_taru ?r) R" using h3(2) by (simp add: ready_def reads_def)
    show "hi_ret ?r = int (length (xhdr @ (bs @ pad) @ hdr))" using len by simp
    show "needed h TARU_EHUM_SIZE \<or> c_uid (hi_header ?r) = (if needed h TARU_EHUM_UID then c_uid h else c_uid h')"
    proof (cases "needed h TARU_EHUM_SIZE")
      case False
      have "c_uid h3 = c_uid h'" using sm by blast
      with keep(6) [OF False] show ?thesis by simp
    qed simp
  qed (use read keep sm h3(4) in \<open>simp_all add: ahs\<close>)
qed



text \<open>A member without records in front of it.\<close>

lemma plain_member_reads:
  assumes "ready taru R" "1025 \<le> R" "extattlistM h0 = None" "gst_fdM ib \<le> 0"
    "ustar_ok h fl user grp" "\<not> flag_set fl TARU_TAR_NUMERIC_UIDS" "flag_set rfl TARU_TAR_RETAIN_HEADER_IDS"
    "written hdr h fl user grp" "read_num hdr 148 = Some s" "taru_tar_checksum hdr = Some s"
  shows "\<exists>r. taru_read_in_tar_header2 junk rfl taru h0 v (Tar_fd (hdr @ rest) ib) = Some r \<and>
    hi_ret r = 512 \<and> hi_eoa r = 0 \<and> hi_source r = Tar_fd rest ib \<and> ready (hi_taru r) R \<and> hi_owners r = v \<and>
    read_back (hi_header r) h fl user grp"
proof -
  let ?src = "Tar_fd (hdr @ rest) ib"
  obtain h1 where h1: "reads (taru\<lparr>read_buffer_posM := 0\<rparr>) R" "extHeader_usage_maskM h1 = 0"
    "taru_read_in_tar_header2 junk rfl taru h0 v ?src = do {
       r \<leftarrow> i_taru_read_in_tar_header2 rfl (taru\<lparr>read_buffer_posM := 0\<rparr>) h1 v ?src 0;
       h \<leftarrow> apply_ext_headers junk (hi_header r);
       Some (r\<lparr>hi_header := h\<rparr>) }"
    by (rule taru_read_in_tar_header2_start [OF assms(1,3)]) blast
  have p: "read_buffer_posM (taru\<lparr>read_buffer_posM := 0\<rparr>) + 1025 \<le> R" using assms(2) by simp
  obtain t3 h3 where h3: "reads t3 R" "i_taru_read_in_tar_header2 rfl (taru\<lparr>read_buffer_posM := 0\<rparr>) h1 v ?src 0 =
      Some \<lparr>hi_ret = 512 + 0, hi_eoa = 0, hi_taru = t3, hi_source = Tar_fd rest ib, hi_header = h3, hi_owners = v\<rparr>"
    "same_member h3 h user grp"
    "ahsStaticGetTarFilename h3 = header_member_name h fl"
    "ahsStaticGetTarLinkname h3 = (if keeps_link h 0 then ahsStaticGetTarLinkname h1 else link_written h)"
    "extHeader_usage_maskM h3 = 0"
    by (rule written_step [OF h1(1) p assms(4,5,8,6,9,10,7), of h1 v rest 0]) (use h1(2) in auto)
  have "link_written h = ahsStaticGetTarLinkname h" if "tarflag h \<in> {LNKTYPE, SYMTYPE}"
    using that by (simp add: link_written_def tarflag_def split: if_splits)
  then have "read_back h3 h fl user grp" using h3(3-5) by (auto simp: read_back_def keeps_link_def)
  moreover have "apply_ext_headers junk h3 = Some h3" using h3(6) by (simp add: apply_ext_headers_def)
  ultimately show ?thesis
    unfolding h1(3) h3(2) using h3(1) by (simp add: ready_def reads_def)
qed

section \<open>Where the reader fails\<close>

text \<open>What reading the data does to the state, whatever the data are.\<close>

lemma pax_blocks_loop_reserve:
  assumes "pax_blocks_loop N n base t src ret = Some (r, t', src')" "\<not> do_record_headerM t"
  shows "sb_reserve (read_bufferM t') = sb_reserve (read_bufferM t)"
  using assms
proof (induction N n base t src ret rule: pax_blocks_loop.induct)
  case (1 N n base t src ret)
  show ?case
    using 1(2) [unfolded pax_blocks_loop.simps [of N n base t src ret]] 1(1,3)
    by (auto simp: bind_iff Let_def split: if_splits)
qed

lemma pax_blocks_loop_memory:
  assumes "pax_blocks_loop N n base t src ret = Some (r, t', src')" "\<not> do_record_headerM t" "from_buffer src" "n \<le> N"
  shows "src' = src \<and> r = ret + (N - n) * 512 \<and> read_buffer_posM t' = read_buffer_posM t + (N - n) * 512"
  using assms
proof (induction N n base t src ret rule: pax_blocks_loop.induct)
  case (1 N n base t src ret)
  note loop = 1(2) [unfolded pax_blocks_loop.simps [of N n base t src ret]]
  obtain blk' off len where src: "src = Tar_buffer blk' off len" using 1(4) by (cases src) auto
  have f: "snd x = src \<and> length (fst x) = 512" if "fetch_block src at = Some x" for x at
    using that by (auto simp: src fetch_block_def split: if_splits)
  show ?case
  proof (cases "n < N")
    case False
    then show ?thesis using loop 1(5) by simp
  next
    case True
    let ?t = "\<lambda>b'. t\<lparr>read_bufferM := (read_bufferM t)\<lparr>sb_str := Some b'\<rparr>, read_buffer_posM := read_buffer_posM t + 512\<rparr>"
    obtain blk b b' where x: "fetch_block src ((n + 1) * 512) = Some (blk, src)" "sb_str (read_bufferM t) = Some b"
      "mem_write b (base + n * 512) blk = Some b'" "length blk = 512"
      "pax_blocks_loop N (n + 1) base (?t b') src (ret + 512) = Some (r, t', src')"
      using loop 1(3,4) True f by (fastforce simp: bind_iff Let_def split: if_splits)
    have "src' = src \<and> r = ret + 512 + (N - (n + 1)) * 512 \<and>
        read_buffer_posM t' = read_buffer_posM (?t b') + (N - (n + 1)) * 512"
      using 1(1) [OF True, of "(blk, src)" blk src b b'] x 1(3,4) True by simp
    then show ?thesis by (simp add: left_diff_distrib)
  qed
qed


lemma pax_data_grow:
  assumes "taru_read_pax_data_blocks taru src (int len) = Some (n, taru', src')" "\<not> do_record_headerM taru"
    "strob_wf (read_bufferM taru)" "0 \<le> read_buffer_posM taru"
    "sb_reserve (read_bufferM taru) < read_buffer_posM taru + int (ext_blocks len * 512) + 523"
    "strob_room (read_bufferM taru) (read_buffer_posM taru + int (ext_blocks len * 512) + 523)"
  shows "sb_reserve (read_bufferM taru) < sb_reserve (read_bufferM taru')"
proof -
  let ?n = "read_buffer_posM taru + int (ext_blocks len) * 512 + 522"
  have room: "strob_room (read_bufferM taru) (?n + 1)" using assms(6) by (simp add: add.assoc)
  obtain s where s: "strob_set_length (read_bufferM taru) ?n = Some s" "?n < sb_reserve s"
    by (rule strob_set_length_bytes [OF strob_bytes_Nil [OF assms(3)] room]) (use assms(4) in auto)
  have "?n = 522 + (read_buffer_posM taru + int (ext_blocks len) * 512)" by simp
  with s(1) have s1: "strob_set_length (read_bufferM taru) (522 + (read_buffer_posM taru + int (ext_blocks len) * 512)) = Some s"
    by simp
  from assms(1) obtain r t where "pax_blocks_loop (int (ext_blocks len)) 0 (read_buffer_posM taru)
      (taru\<lparr>read_bufferM := s\<rparr>) src 0 = Some (r, t, src')" "sb_reserve (read_bufferM taru') = sb_reserve (read_bufferM t)"
    by (auto simp: taru_read_pax_data_blocks_def ext_blocks_int Let_def s1 bind_iff split: if_splits)
  then have "sb_reserve (read_bufferM taru') = sb_reserve s"
    using pax_blocks_loop_reserve [of "int (ext_blocks len)" 0 _ "taru\<lparr>read_bufferM := s\<rparr>"] assms(2) by fastforce
  then show ?thesis using s(2) assms(5) by simp
qed

lemma pax_data_memory:
  assumes "taru_read_pax_data_blocks taru src (int len) = Some (n, taru', src')" "\<not> do_record_headerM taru" "from_buffer src"
  shows "src' = src \<and> n = int (ext_blocks len) * 512 \<and> read_buffer_posM taru' = read_buffer_posM taru + n"
proof -
  from assms(1) obtain s r t where p: "pax_blocks_loop (int (ext_blocks len)) 0 (read_buffer_posM taru)
      (taru\<lparr>read_bufferM := s\<rparr>) src 0 = Some (r, t, src')" "r < 0 \<or> n = r \<and> read_buffer_posM taru' = read_buffer_posM t"
    by (auto simp: taru_read_pax_data_blocks_def ext_blocks_int Let_def bind_iff split: if_splits)
  from pax_blocks_loop_memory [OF p(1)] assms(2,3) p(2) show ?thesis by auto
qed

lemma c_int_word: "n < 2 ^ 31 \<Longrightarrow> c_int (uint (of_nat n :: 64 word)) = int n"
  by (simp add: unsigned_of_nat take_bit_nat_eq_self)


text \<open>an archive in memory that begins with a long name cannot be read, though it holds a header behind it:
  the reader advances its pointer and keeps its position as well, so that it looks for the header at twice the
  distance, outside of the memory if nothing more than that follows.\<close>

theorem long_name_in_memory_fails:
  assumes "ready taru R" "extattlistM h0 = None" "ext_record GNUTYPE_LONGNAME len hdr" "length ds = ext_blocks len * 512"
    "length rest < 1024 + length ds" "1035 + int (length ds) \<le> R"
  shows "taru_read_in_tar_header2 junk flags taru h0 w (Tar_buffer (hdr @ ds @ rest) 0 n) = None"
proof (rule ccontr)
  let ?taru = "taru\<lparr>read_buffer_posM := 0\<rparr>" and ?b = "hdr @ ds @ rest"
  assume "taru_read_in_tar_header2 junk flags taru h0 w (Tar_buffer ?b 0 n) \<noteq> None"
  moreover obtain h1 where h1: "reads ?taru R"
    "taru_read_in_tar_header2 junk flags taru h0 w (Tar_buffer ?b 0 n) = do {
       r \<leftarrow> i_taru_read_in_tar_header2 flags ?taru h1 w (Tar_buffer ?b 0 n) 0;
       h \<leftarrow> apply_ext_headers junk (hi_header r);
       Some (r\<lparr>hi_header := h\<rparr>) }"
    by (rule taru_read_in_tar_header2_start [OF assms(1,2)]) blast
  ultimately obtain r where r: "i_taru_read_in_tar_header2 flags ?taru h1 w (Tar_buffer ?b 0 n) 0 = Some r"
    by (auto simp: bind_eq_None_conv)
  have l: "length hdr = 512" "hdr ! 156 = GNUTYPE_LONGNAME" "len < 2 ^ 31" "read_num hdr 124 = Some (of_nat len)"
    using assms(3) by (simp_all add: ext_record_def)
  note nn = ext_record_not_null [OF assms(3)]
  have f: "fetch_block (Tar_buffer ?b 0 n) 0 = Some (hdr, Tar_buffer ?b 0 n)" using l(1) by (simp add: fetch_block_def)
  obtain t1 s where s: "read_record ?taru (Tar_buffer ?b 0 n) = Some (hdr, t1, consume_len 512 (Tar_buffer ?b 0 n))"
    "accept_record t1 = Some (hdr, ?taru\<lparr>read_bufferM := s, read_buffer_posM := read_buffer_posM ?taru + 512\<rparr>)"
    "reads (?taru\<lparr>read_bufferM := s, read_buffer_posM := read_buffer_posM ?taru + 512\<rparr>) R"
    by (rule read_record_step [OF h1(1) _ _ l(1), of "Tar_buffer ?b 0 n" "Tar_buffer ?b 0 n"]) (use f assms(6) in auto)
  let ?t = "?taru\<lparr>read_bufferM := s, read_buffer_posM := read_buffer_posM ?taru + 512\<rparr>"
  let ?src = "Tar_buffer ?b 0 (n - 512)" and ?m = "int (ext_blocks len)"
  from r [unfolded i_taru_read_in_tar_header2.simps [of flags ?taru h1 w "Tar_buffer ?b 0 n"]]
  obtain k t2 src2 h2 where e: "read_ext_data ?t ?src (of_nat len) = Some (k, t2, src2)"
    "i_taru_read_in_tar_header2 flags t2 h2 w (advance (512 + k) src2) (512 + k) = Some r"
    using s(1,2) l nn
    by (auto simp: null_block_record ext_type_def use_ext_data_def bind_iff split: if_splits)
  have k: "k = ?m * 512" "read_buffer_posM t2 = 512 + k" "advance (512 + k) src2 = Tar_buffer ?b (512 + k) n'"
    if "n' = (if k > 0 then n - 512 - k else n - 512)" for n'
    using e(1) pax_data_memory [of ?t ?src len] s(3) l(3) that
    by (auto simp: read_ext_data_def c_int_word reads_def bind_iff split: if_splits)
  have "fetch_block (Tar_buffer ?b (512 + k) n') (512 + k) = None" for n'
    using assms(4,5) l(1) k(1) by (simp add: fetch_block_def)
  then have "read_record t2 (Tar_buffer ?b (512 + k) n') = None" for n'
    using k(2) by (simp add: read_record_def bind_eq_None_conv)
  then show False using e(2) k(3) by (subst (asm) i_taru_read_in_tar_header2.simps) simp
qed


section \<open>The properties at concrete inputs\<close>

definition ext_sample :: "char \<Rightarrow> nat \<Rightarrow> block" where
  "ext_sample t len = put (put (replicate 512 NUL) 124 (octal_digits len 11 @ [NUL])) 156 [t]"

lemma ext_sample_ok:
  assumes "ext_type t" "len < 2 ^ 31"
  shows "ext_record t len (ext_sample t len)"
proof -
  have l: "length (ext_sample t len) = 512" "fld (ext_sample t len) 500 12 = replicate 12 NUL"
    "fld (ext_sample t len) 124 (Suc 11) = octal_digits len 11 @ [NUL]" "fld (ext_sample t len) 156 1 = [t]"
    by (simp_all add: ext_sample_def mem_simps fld_replicate)
  have "len < 8 ^ 11" using assms(2) by simp
  from read_num_at [OF l(1,2,3) _ this] have "read_num (ext_sample t len) 124 = Some (of_nat len)" by simp
  moreover have "ext_sample t len ! 156 = t" using l(1,4) by (auto simp: fld_def take_Suc hd_drop_conv_nth)
  ultimately show ?thesis using l(1) assms by (simp add: ext_record_def)
qed

lemma ready_sample:
  assumes "2 \<le> R" "R < 2 ^ 31 - 156"
  shows "ready (taru\<lparr>read_bufferM := empty_strob R, do_record_headerM := False\<rparr>) R"
  using assms empty_strob_holds [of R] by (simp add: ready_def strob_holds_def empty_strob_def STROB_LENGTHINCR_def)

definition ext_pad :: "nat \<Rightarrow> char list" where
  "ext_pad len = replicate (ext_blocks len * 512 - len) NUL"

lemma length_ext_pad: "length bs = len \<Longrightarrow> length (bs @ ext_pad len) = ext_blocks len * 512"
proof -
  have "len \<le> ext_blocks len * 512" by (simp add: ext_blocks_def)
  then show "length bs = len \<Longrightarrow> length (bs @ ext_pad len) = ext_blocks len * 512" by (simp add: ext_pad_def)
qed

definition sample_symlink :: new_cpio_header where
  "sample_symlink = sample_header\<lparr>c_mode := 0xA1FF, c_filesize := 0, c_tar_linkname := Some ''x''\<rparr>"

lemma sample_symlink_ok: "ustar_ok sample_symlink 0 ''root'' ''root''" "tarflag sample_symlink = SYMTYPE"
proof -
  have "taru_is_tar_filename_too_long ''usr/bin/sw'' 0 False = (0, 0)" by code_simp
  then show "ustar_ok sample_symlink 0 ''root'' ''root''"
    by (simp add: ustar_ok_def sample_symlink_def sample_header_def header_member_name_def c_string_def
      ahsStaticGetTarFilename_def ahsStaticGetTarLinkname_def ahsStaticGetTarname_i_def GNU_LONG_LINK_def)
  show "tarflag sample_symlink = SYMTYPE" by (simp add: tarflag_def sample_symlink_def sample_header_def)
qed

lemma read_flags: "\<not> flag_set 0 TARU_TAR_NUMERIC_UIDS" "flag_set TARU_TAR_RETAIN_HEADER_IDS TARU_TAR_RETAIN_HEADER_IDS"
  by (simp_all add: flag_set_def TARU_TAR_RETAIN_HEADER_IDS_def)




definition pax_sample :: new_cpio_header where
  "pax_sample = sample_header\<lparr>c_name := Some (replicate 120 CHR ''a''), c_gid := 100,
     extHeader_needs_maskM := or TARU_EHUM_PATH TARU_EHUM_GID\<rparr>"

lemma pax_sample_ok:
  "ext_values_ok pax_sample" "needed pax_sample TARU_EHUM_PATH" "needed pax_sample TARU_EHUM_GID"
  "ustar_ok (field_header ustar_fields pax_sample) 0 ''root'' ''root''"
proof -
  show "ext_values_ok pax_sample"
    unfolding ext_values_ok_def by (intro conjI impI; simp add: pax_sample_def sample_header_def needed_def ahs_name_defs c_string_def)
  show "needed pax_sample TARU_EHUM_PATH" "needed pax_sample TARU_EHUM_GID" by (simp_all add: pax_sample_def needed_def)
  have "substr_index (CHR 0x5C # ''x'') (replicate 100 CHR ''a'') = None" by code_simp
  moreover have "GNU_LONG_LINK \<noteq> replicate 100 CHR ''a''" by code_simp
  ultimately show "ustar_ok (field_header ustar_fields pax_sample) 0 ''root'' ''root''"
    by (simp add: ustar_ok_def pax_sample_def sample_header_def header_member_name_def c_string_def
      ahsStaticGetTarFilename_def ahsStaticGetTarLinkname_def ahsStaticGetTarname_i_def ustar_fields_def needed_def
      cut_name_def TARNAMESIZE_def TAR_MAX_7OCTAL_def)
qed

lemma pax_sample_short: "length (records_bytes (header_records pax_sample)) < 2 ^ 29"
proof -
  note ok = header_records_ok [OF pax_sample_ok(1)]
  have "length (records_bytes (header_records pax_sample)) \<le> length (header_records pax_sample) * (2 ^ 24 + 200)"
    by (rule records_bytes_le [OF ok(1,3)])
  also have "\<dots> \<le> 9 * (2 ^ 24 + 200)" using length_header_records by (intro mult_right_mono) simp_all
  finally show ?thesis by simp
qed



theorem long_name_in_memory_fails_witness:
  "\<forall>taru w. taru_read_in_tar_header2 True 0 (taru\<lparr>read_bufferM := empty_strob 2049, do_record_headerM := False\<rparr>) fresh_header w
     (Tar_buffer (ext_sample GNUTYPE_LONGNAME 5 @ (''name'' @ NUL # ext_pad 5) @ replicate 512 CHR ''u'') 0 1536) = None"
proof (intro allI)
  fix taru :: taru and w
  let ?t = "taru\<lparr>read_bufferM := empty_strob 2049, do_record_headerM := False\<rparr>"
  have b: "ext_blocks 5 = 1" by (simp add: ext_blocks_def)
  have r: "ready ?t 2049" by (rule ready_sample) simp_all
  have len: "length (''name'' @ NUL # ext_pad 5) = ext_blocks 5 * 512"
    using length_ext_pad [of "''name'' @ [NUL]" 5] by simp
  have x: "ext_record GNUTYPE_LONGNAME 5 (ext_sample GNUTYPE_LONGNAME 5)" by (rule ext_sample_ok) (simp_all add: ext_type_def)
  have f: "extattlistM fresh_header = None" by simp
  show "taru_read_in_tar_header2 True 0 ?t fresh_header w
     (Tar_buffer (ext_sample GNUTYPE_LONGNAME 5 @ (''name'' @ NUL # ext_pad 5) @ replicate 512 CHR ''u'') 0 1536) = None"
    by (rule long_name_in_memory_fails [OF r f x len]) (simp_all add: len b del: append.simps append_assoc length_append)
qed

end
