(* ===== verification/Etar.thy ===== *)
theory Etar
  imports TarStream
begin

text \<open>
  \<open>swsupplib/taru/etar.c\<close>, the simpler interface to tar headers: a header record is set field by field and
  written with its data. It is used for the records in front of extended headers. Of the 2048 bytes
  that \<open>etar_open\<close> allocates only those of the record are used.
\<close>

text \<open>The record \<open>etar\<close> and \<open>etar_open\<close> stand in \<open>Taru\<close>, whose object holds one.\<close>

definition etar_get_hdr :: "etar \<Rightarrow> block" where
  "etar_get_hdr etar = tar_hdrM etar"

definition put_hdr :: "etar \<Rightarrow> block \<Rightarrow> etar" where
  "put_hdr etar hdr = etar\<lparr>tar_hdrM := hdr\<rparr>"

section \<open>Setting the fields\<close>

definition etar_set_pathname :: "string \<Rightarrow> etar \<Rightarrow> (etar \<times> int) option" where
  "etar_set_pathname pathname etar = do {
     (hdr, ret) \<leftarrow> taru_set_new_name (tar_hdrM etar) pathname (etar_tarheaderflagsM etar);
     Some (put_hdr etar hdr, ret) }"

definition etar_set_linkname :: "string \<Rightarrow> etar \<Rightarrow> (etar \<times> int) option" where
  "etar_set_linkname name etar = do {
     hdr \<leftarrow> mem_set (tar_hdrM etar) THB_BO_linkname NUL 100;
     hdr \<leftarrow> strncpy_field hdr THB_BO_linkname name 100;
     Some (put_hdr etar hdr, if length name \<le> 100 then 0 else 1) }"

definition etar_set_uname :: "string \<Rightarrow> etar \<Rightarrow> (etar \<times> int) option" where
  "etar_set_uname name etar = do {
     hdr \<leftarrow> strncpy_field (tar_hdrM etar) THB_BO_uname name 32;
     Some (put_hdr etar hdr, if length name > 32 then - 1 else 0) }"

definition etar_set_gname :: "string \<Rightarrow> etar \<Rightarrow> (etar \<times> int) option" where
  "etar_set_gname name etar = do {
     hdr \<leftarrow> strncpy_field (tar_hdrM etar) THB_BO_gname name 32;
     Some (put_hdr etar hdr, if length name > 32 then - 1 else 0) }"

definition etar_set_chksum :: "etar \<Rightarrow> etar option" where
  "etar_set_chksum etar = map_option (put_hdr etar) (taru_set_tar_header_sum (tar_hdrM etar) (etar_tarheaderflagsM etar))"

definition etar_set_mode_ul :: "32 word \<Rightarrow> etar \<Rightarrow> etar option" where
  "etar_set_mode_ul mode_i etar =
     map_option (put_hdr etar) (mode_to_chars mode_i (tar_hdrM etar) THB_BO_mode 8 POSIX_FORMAT NUL)"

text \<open>The substitutes for ids that are too large are those of \<open>to_oct.c\<close>; the database they depend on is the
  parameter \<open>w\<close>.\<close>

definition etar_set_uid :: "owners \<Rightarrow> 32 word \<Rightarrow> etar \<Rightarrow> etar option" where
  "etar_set_uid w val etar =
     map_option (put_hdr etar) (uid_to_chars (uid_sub w) val (tar_hdrM etar) THB_BO_uid 8 POSIX_FORMAT NUL)"

definition etar_set_gid :: "owners \<Rightarrow> 32 word \<Rightarrow> etar \<Rightarrow> etar option" where
  "etar_set_gid w val etar =
     map_option (put_hdr etar) (gid_to_chars (gid_sub w) val (tar_hdrM etar) THB_BO_gid 8 POSIX_FORMAT NUL)"

definition etar_set_size :: "32 word \<Rightarrow> etar \<Rightarrow> etar option" where
  "etar_set_size val etar =
     map_option (put_hdr etar) (off_to_chars (ucast val) (tar_hdrM etar) THB_BO_size 12 POSIX_FORMAT NUL)"

definition etar_set_time :: "64 word \<Rightarrow> etar \<Rightarrow> etar option" where
  "etar_set_time val etar =
     map_option (put_hdr etar) (time_to_chars val (tar_hdrM etar) THB_BO_mtime 12 POSIX_FORMAT NUL)"

definition etar_set_typeflag :: "char \<Rightarrow> etar \<Rightarrow> etar option" where
  "etar_set_typeflag tar_type etar = map_option (put_hdr etar) (mem_write (tar_hdrM etar) THB_BO_typeflag [tar_type])"

definition etar_set_devmajor :: "64 word \<Rightarrow> etar \<Rightarrow> etar option" where
  "etar_set_devmajor devno etar =
     map_option (put_hdr etar) (major_to_chars (ucast devno) (tar_hdrM etar) THB_BO_devmajor 8 POSIX_FORMAT NUL)"

definition etar_set_devminor :: "64 word \<Rightarrow> etar \<Rightarrow> etar option" where
  "etar_set_devminor devno etar =
     map_option (put_hdr etar) (minor_to_chars (ucast devno) (tar_hdrM etar) THB_BO_devminor 8 POSIX_FORMAT NUL)"

definition ETAR_UNSET_FILENAME :: string where "ETAR_UNSET_FILENAME = ''ETAR_UNSET_FILENAME''"

definition etar_init_hdr :: "owners \<Rightarrow> etar \<Rightarrow> etar option" where
  "etar_init_hdr w etar = do {
     let hdr = replicate TARRECORDSIZE NUL;
     hdr \<leftarrow> mem_write hdr THB_BO_version ''00'';
     hdr \<leftarrow> strncpy_field hdr THB_BO_magic TMAGIC 6;
     hdr \<leftarrow> strncpy_field hdr (THB_BO_magic + 6) ''00'' 2;
     (etar, _) \<leftarrow> etar_set_pathname ETAR_UNSET_FILENAME (put_hdr etar hdr);
     etar \<leftarrow> etar_set_mode_ul 0x168 etar;
     etar \<leftarrow> etar_set_uid w 0 etar;
     etar \<leftarrow> etar_set_gid w 0 etar;
     etar \<leftarrow> etar_set_size 0 etar;
     etar \<leftarrow> etar_set_time (timeM etar) etar;
     etar \<leftarrow> etar_set_typeflag DIRTYPE etar;
     (etar, _) \<leftarrow> etar_set_linkname [] etar;
     (etar, _) \<leftarrow> etar_set_uname [] etar;
     (etar, _) \<leftarrow> etar_set_gname [] etar;
     etar \<leftarrow> etar_set_devmajor 0 etar;
     etar \<leftarrow> etar_set_devminor 0 etar;
     etar_set_chksum etar }"

section \<open>Sizes and output\<close>

text \<open>A length argument below zero asks for the length of the string in the buffer.\<close>

definition data_length :: "block \<Rightarrow> int \<Rightarrow> int option" where
  "data_length buf bufsize = (if bufsize < 0 then map_option c_int (c_strlen buf 0) else Some bufsize)"

definition etar_set_size_from_buffer :: "block \<Rightarrow> int \<Rightarrow> etar \<Rightarrow> (etar \<times> int) option" where
  "etar_set_size_from_buffer buf bufsize etar = do {
     len \<leftarrow> data_length buf bufsize;
     etar \<leftarrow> etar_set_size (word_of_int len) etar;
     Some (etar, len) }"

text \<open>The bytes written to a descriptor are a result. \<open>swlib_pad_amount\<close> writes blocks of zeros.\<close>

function pad_amount_loop :: "int \<Rightarrow> char list \<Rightarrow> char list" where
  "pad_amount_loop remains out =
     (if remains > 0 then
        (let am = (if remains > 512 then 512 else remains)
         in pad_amount_loop (remains - am) (out @ replicate (nat am) NUL))
      else out)"
  by auto
termination by (relation "measure (\<lambda>(remains, out). nat remains)") auto

declare pad_amount_loop.simps [simp del]

definition swlib_pad_amount :: "int \<Rightarrow> int \<times> char list" where
  "swlib_pad_amount amount = (let out = pad_amount_loop amount [] in (int (length out), out))"

definition pad_record :: "int \<Rightarrow> int \<times> char list" where
  "pad_record ret =
     (let remains = ret smod int TARRECORDSIZE
      in if ret \<noteq> 0 \<and> remains > 0
         then (int TARRECORDSIZE - remains, snd (swlib_pad_amount (int TARRECORDSIZE - remains)))
         else (0, []))"

definition etar_emit_header :: "etar \<Rightarrow> int \<times> char list" where
  "etar_emit_header etar = (int TARRECORDSIZE, take TARRECORDSIZE (tar_hdrM etar))"

definition etar_emit_data_from_fd :: "char list \<Rightarrow> (int \<times> char list) option" where
  "etar_emit_data_from_fd inp = do {
     (ret, out, _) \<leftarrow> swlib_pipe_pump inp (Some []);
     out \<leftarrow> out;
     if ret < 0 then Some (- 1, out)
     else do {
       let (remains, pad) = pad_record ret;
       Some (ret + remains, out @ pad) } }"

definition etar_emit_data_from_buffer :: "block \<Rightarrow> int \<Rightarrow> (int \<times> char list) option" where
  "etar_emit_data_from_buffer buf bufsize = do {
     len \<leftarrow> data_length buf bufsize;
     if len > int (length buf) then None
     else do {
       let (remains, pad) = pad_record len;
       Some (len + remains, take (nat len) buf @ pad) } }"

definition etar_write_trailer_blocks :: "int \<Rightarrow> (int \<times> char list) option" where
  "etar_write_trailer_blocks nblocks =
     (if nblocks < 0 then None
      else Some (512 * nblocks, concat (replicate (nat nblocks) (replicate 512 NUL))))"

section \<open>The fields after a setting\<close>

text \<open>\<open>record_of etar\<close>: the header is one record, marked as a ustar record and with an empty prefix.\<close>

definition record_of :: "etar \<Rightarrow> bool" where
  "record_of etar \<longleftrightarrow> length (tar_hdrM etar) = 512 \<and> fld (tar_hdrM etar) 257 5 = TMAGIC \<and>
     fld (tar_hdrM etar) 345 155 = replicate 155 NUL \<and> fld (tar_hdrM etar) 500 12 = replicate 12 NUL"


text \<open>A setting only touches the bytes from \<open>lo\<close> to \<open>hi\<close>.\<close>

definition sets :: "etar \<Rightarrow> etar \<Rightarrow> nat \<Rightarrow> nat \<Rightarrow> bool" where
  "sets etar e lo hi \<longleftrightarrow> record_of e \<and> etar_tarheaderflagsM e = etar_tarheaderflagsM etar \<and> timeM e = timeM etar \<and>
     (\<forall>p n. p + n \<le> lo \<or> hi \<le> p \<longrightarrow> fld (tar_hdrM e) p n = fld (tar_hdrM etar) p n)"

lemma sets_put:
  assumes "record_of etar" "off + length bs \<le> 257 \<or> 265 \<le> off \<and> off + length bs \<le> 345"
  shows "sets etar (put_hdr etar (put (tar_hdrM etar) off bs)) off (off + length bs)"
    "fld (tar_hdrM (put_hdr etar (put (tar_hdrM etar) off bs))) off (length bs) = bs"
  using assms by (auto simp: sets_def record_of_def put_hdr_def mem_simps)

lemma sets_refl: "record_of etar \<Longrightarrow> sets etar etar lo hi"
  by (simp add: sets_def)

lemma sets_fld: "sets etar e lo hi \<Longrightarrow> p + n \<le> lo \<or> hi \<le> p \<Longrightarrow> fld (tar_hdrM e) p n = fld (tar_hdrM etar) p n"
  by (auto simp: sets_def)

lemma setsD: "sets etar e lo hi \<Longrightarrow> record_of e"
  "sets etar e lo hi \<Longrightarrow> etar_tarheaderflagsM e = etar_tarheaderflagsM etar"
  "sets etar e lo hi \<Longrightarrow> timeM e = timeM etar"
  by (simp_all add: sets_def)

text \<open>What each setting stores.\<close>

lemma etar_number:
  assumes "record_of etar" "to_field (tar_hdrM etar) = Some (put (tar_hdrM etar) off bs)"
    "off + length bs \<le> 257 \<or> 265 \<le> off \<and> off + length bs \<le> 345"
  shows "\<exists>e. map_option (put_hdr etar) (to_field (tar_hdrM etar)) = Some e \<and> sets etar e off (off + length bs) \<and>
     fld (tar_hdrM e) off (length bs) = bs"
  using sets_put [OF assms(1,3)] assms(2) by auto

lemma etar_set_ids:
  assumes "record_of etar" "unat val < 8 ^ 7"
  shows "\<exists>e. etar_set_uid w val etar = Some e \<and> sets etar e 108 116"
    "\<exists>e. etar_set_gid w val etar = Some e \<and> sets etar e 116 124"
proof -
  have l: "length (tar_hdrM etar) = 512" using assms(1) by (simp add: record_of_def)
  have u: "unat (ucast val :: 64 word) < 8 ^ 7" using assms(2) by (simp add: unat_up)
  have "unat (ucast (ucast val :: 64 word) :: 32 word) = unat val" using assms(2) by (simp add: unat_up unat_down)
  then have c: "ucast (ucast val :: 64 word) = val" by (simp only: word_unat_eq_iff)
  show "\<exists>e. etar_set_uid w val etar = Some e \<and> sets etar e 108 116"
    using id_put(1) [OF u l, of 108 "uid_sub w" POSIX_FORMAT NUL] c
      sets_put(1) [OF assms(1), of 108 "oct8 (unat (ucast val :: 64 word)) NUL"] by (simp add: etar_set_uid_def)
  show "\<exists>e. etar_set_gid w val etar = Some e \<and> sets etar e 116 124"
    using id_put(2) [OF u l, of 116 "gid_sub w" POSIX_FORMAT NUL] c
      sets_put(1) [OF assms(1), of 116 "oct8 (unat (ucast val :: 64 word)) NUL"] by (simp add: etar_set_gid_def)
qed

lemma etar_set_numbers:
  assumes "record_of etar"
  shows "\<exists>e. etar_set_mode_ul m etar = Some e \<and> sets etar e 100 108"
    "\<exists>e. etar_set_size v etar = Some e \<and> sets etar e 124 136 \<and> fld (tar_hdrM e) 124 12 = oct12 (unat v) NUL"
    "unat t < 8 ^ 11 \<Longrightarrow> \<exists>e. etar_set_time t etar = Some e \<and> sets etar e 136 148"
    "\<exists>e. etar_set_devmajor 0 etar = Some e \<and> sets etar e 329 337"
    "\<exists>e. etar_set_devminor 0 etar = Some e \<and> sets etar e 337 345"
proof -
  have l: "length (tar_hdrM etar) = 512" using assms by (simp add: record_of_def)
  let ?m = "and (ucast m) 0xFFF :: 64 word"
  have "?m \<le> 0xFFF" by (rule word_and_le1)
  then have m: "unat ?m < 8 ^ 7" by (simp add: word_le_nat_alt)
  have st: "\<forall>(S, T) \<in> set mode_bits. S = T" by (simp add: mode_bits_def)
  have "mode_to_chars m (tar_hdrM etar) 100 8 POSIX_FORMAT NUL = Some (put (tar_hdrM etar) 100 (oct8 (unat ?m) NUL))"
    unfolding mode_to_chars_def Let_def mode_bits_mask using m l by (simp add: num_put)
  then show "\<exists>e. etar_set_mode_ul m etar = Some e \<and> sets etar e 100 108"
    using sets_put(1) [OF assms, of 100 "oct8 (unat ?m) NUL"] by (simp add: etar_set_mode_ul_def)
  have v: "unat (ucast v :: 64 word) = unat v" by (simp add: unat_up)
  have "unat v < 2 ^ LENGTH(32)" by (rule unsigned_less)
  then have v32: "unat v < 2 ^ 32" by simp
  then have "\<not> sint (ucast v :: 64 word) < 0" using v by (intro sint_nonneg) simp
  then have "off_to_chars (ucast v) (tar_hdrM etar) 124 12 POSIX_FORMAT NUL =
      Some (put (tar_hdrM etar) 124 (oct12 (unat v) NUL))"
    using v v32 l by (simp add: off_to_chars_def num_put)
  then show "\<exists>e. etar_set_size v etar = Some e \<and> sets etar e 124 136 \<and> fld (tar_hdrM e) 124 12 = oct12 (unat v) NUL"
    using sets_put [OF assms, of 124 "oct12 (unat v) NUL"] by (simp add: etar_set_size_def)
  show "\<exists>e. etar_set_time t etar = Some e \<and> sets etar e 136 148" if "unat t < 8 ^ 11"
  proof -
    have "\<not> sint t < 0" using that by (intro sint_nonneg) simp
    then have "time_to_chars t (tar_hdrM etar) 136 12 POSIX_FORMAT NUL = Some (put (tar_hdrM etar) 136 (oct12 (unat t) NUL))"
      using that l by (simp add: time_to_chars_def num_put)
    then show ?thesis using sets_put(1) [OF assms, of 136 "oct12 (unat t) NUL"] by (simp add: etar_set_time_def)
  qed
  have "major_to_chars 0 (tar_hdrM etar) 329 8 POSIX_FORMAT NUL = Some (put (tar_hdrM etar) 329 (oct8 0 NUL))"
    "minor_to_chars 0 (tar_hdrM etar) 337 8 POSIX_FORMAT NUL = Some (put (tar_hdrM etar) 337 (oct8 0 NUL))"
    using l by (simp_all add: major_to_chars_def minor_to_chars_def num_put)
  then show "\<exists>e. etar_set_devmajor 0 etar = Some e \<and> sets etar e 329 337"
    "\<exists>e. etar_set_devminor 0 etar = Some e \<and> sets etar e 337 345"
    using sets_put(1) [OF assms, of 329 "oct8 0 NUL"] sets_put(1) [OF assms, of 337 "oct8 0 NUL"]
    by (simp_all add: etar_set_devmajor_def etar_set_devminor_def)
qed


lemma etar_set_texts:
  assumes "record_of etar"
  shows "\<exists>e. etar_set_linkname [] etar = Some (e, 0) \<and> sets etar e 157 257"
    "\<exists>e. etar_set_uname [] etar = Some (e, 0) \<and> sets etar e 265 297"
    "\<exists>e. etar_set_gname [] etar = Some (e, 0) \<and> sets etar e 297 329"
    "\<exists>e. etar_set_typeflag t etar = Some e \<and> sets etar e 156 157 \<and> fld (tar_hdrM e) 156 1 = [t]"
proof -
  let ?h = "tar_hdrM etar"
  have l: "length ?h = 512" using assms by (simp add: record_of_def)
  have z: "strncpy_bytes [] n = replicate n NUL" for n by (simp add: strncpy_bytes_def)
  have s: "sets etar (put_hdr etar (put ?h 157 (replicate 100 NUL))) 157 257"
    using sets_put(1) [OF assms, of 157 "replicate 100 NUL"] by simp
  have "put (put ?h 157 (replicate 100 NUL)) 157 (replicate 100 NUL) = put ?h 157 (replicate 100 NUL)"
    using l by (simp add: put_def)
  then show "\<exists>e. etar_set_linkname [] etar = Some (e, 0) \<and> sets etar e 157 257"
    using s l by (simp add: etar_set_linkname_def strncpy_field_def mem_simps z)
  show "\<exists>e. etar_set_uname [] etar = Some (e, 0) \<and> sets etar e 265 297"
    "\<exists>e. etar_set_gname [] etar = Some (e, 0) \<and> sets etar e 297 329"
    using sets_put(1) [OF assms, of 265 "replicate 32 NUL"] sets_put(1) [OF assms, of 297 "replicate 32 NUL"] l
    by (simp_all add: etar_set_uname_def etar_set_gname_def strncpy_field_def mem_simps z)
  show "\<exists>e. etar_set_typeflag t etar = Some e \<and> sets etar e 156 157 \<and> fld (tar_hdrM e) 156 1 = [t]"
    using sets_put [OF assms, of 156 "[t]"] l by (simp add: etar_set_typeflag_def mem_simps)
qed

lemma sets_trans:
  assumes "sets a b lo hi" "sets b c lo' hi'" "l \<le> lo" "l \<le> lo'" "hi \<le> u" "hi' \<le> u"
  shows "sets a c l u"
  using assms by (auto simp: sets_def)

lemma etar_set_chksum_ok:
  assumes "record_of etar"
  shows "\<exists>e. etar_set_chksum etar = Some e \<and> sets etar e 148 156 \<and> taru_tarheader_check (tar_hdrM e) = Some 0"
proof -
  have r: "length (tar_hdrM etar) = 512" "fld (tar_hdrM etar) 257 5 = TMAGIC" using assms by (simp_all add: record_of_def)
  obtain bs where bs: "taru_set_tar_header_sum (tar_hdrM etar) (etar_tarheaderflagsM etar) = Some (put (tar_hdrM etar) 148 bs)"
    "length bs \<le> 8" "taru_tarheader_check (put (tar_hdrM etar) 148 bs) = Some 0"
    by (rule header_sum_put [OF r, of "etar_tarheaderflagsM etar"]) blast
  have "sets etar (put_hdr etar (put (tar_hdrM etar) 148 bs)) 148 156"
    using sets_put(1) [OF assms, of 148 bs] bs(2) by (auto simp: sets_def)
  then show ?thesis using bs(1,3) by (simp add: etar_set_chksum_def) (simp add: put_hdr_def)
qed

lemma etar_set_pathname_ok:
  assumes "record_of etar" "c_string name" "length name \<le> 100" "substr_index (CHR 0x5C # ''x'') name = None"
  shows "\<exists>e. etar_set_pathname name etar = Some (e, 0) \<and> sets etar e 0 156 \<and> fld (tar_hdrM e) 0 100 = strncpy_bytes name 100"
proof -
  have l: "length (tar_hdrM etar) = 512" using assms(1) by (simp add: record_of_def)
  let ?e = "put_hdr etar (put (tar_hdrM etar) 0 (strncpy_bytes name 100))"
  have s: "sets etar ?e 0 100" "fld (tar_hdrM ?e) 0 100 = strncpy_bytes name 100"
    using sets_put [OF assms(1), of 0 "strncpy_bytes name 100"] by simp_all
  obtain e where e: "etar_set_chksum ?e = Some e" "sets ?e e 148 156" using etar_set_chksum_ok [OF setsD(1) [OF s(1)]] by blast
  have "etar_set_pathname name etar = Some (e, 0)"
    using e(1) assms(3,4) l
    by (auto simp: etar_set_pathname_def etar_set_chksum_def taru_set_new_name_def strncpy_field_def mem_simps
      TARNAMESIZE_def put_hdr_def)
  moreover have "sets etar e 0 156" by (rule sets_trans [OF s(1) e(2)]) auto
  ultimately show ?thesis using s(2) sets_fld [OF e(2), of 0 100] by simp
qed

lemma etar_init_hdr_ok:
  assumes "unat (timeM etar) < 8 ^ 11"
  shows "\<exists>e. etar_init_hdr w etar = Some e \<and> record_of e \<and> etar_tarheaderflagsM e = etar_tarheaderflagsM etar \<and>
     timeM e = timeM etar"
proof -
  define z where "z = replicate 512 NUL"
  define h where "h = put (put (put z 263 ''00'') 257 (strncpy_bytes TMAGIC 6)) 263 (strncpy_bytes ''00'' 2)"
  have z: "length z = 512" "fld z 345 155 = replicate 155 NUL" "fld z 500 12 = replicate 12 NUL"
    by (simp_all add: z_def fld_replicate)
  have "fld h 257 6 = strncpy_bytes TMAGIC 6" using z(1) by (simp add: h_def mem_simps)
  then have "take 6 (drop 257 h) = TMAGIC @ [NUL]" by (simp add: fld_def strncpy_bytes_def TMAGIC_def)
  then have "take 5 (take 6 (drop 257 h)) = TMAGIC" by (simp add: TMAGIC_def)
  then have m: "fld h 257 5 = TMAGIC" by (simp add: fld_def)
  have h: "record_of (put_hdr etar h)"
    using z m unfolding h_def by (simp add: record_of_def put_hdr_def mem_simps)
  have build: "do { hdr \<leftarrow> mem_write z THB_BO_version ''00''; hdr \<leftarrow> strncpy_field hdr THB_BO_magic TMAGIC 6;
      strncpy_field hdr (THB_BO_magic + 6) ''00'' 2 } = Some h"
    using z(1) by (simp add: strncpy_field_def mem_simps h_def)
  have unset: "c_string ETAR_UNSET_FILENAME" "length ETAR_UNSET_FILENAME \<le> 100"
    "substr_index (CHR 0x5C # ''x'') ETAR_UNSET_FILENAME = None"
    unfolding ETAR_UNSET_FILENAME_def by (simp_all add: c_string_def)
  obtain e1 where e1: "etar_set_pathname ETAR_UNSET_FILENAME (put_hdr etar h) = Some (e1, 0)" "sets (put_hdr etar h) e1 0 156"
    using etar_set_pathname_ok [OF h unset] by blast
  obtain e2 where e2: "etar_set_mode_ul 0x168 e1 = Some e2" "sets e1 e2 100 108"
    using etar_set_numbers(1) [OF setsD(1) [OF e1(2)]] by blast
  obtain e3 where e3: "etar_set_uid w 0 e2 = Some e3" "sets e2 e3 108 116"
    using etar_set_ids(1) [OF setsD(1) [OF e2(2)], of 0] by auto
  obtain e4 where e4: "etar_set_gid w 0 e3 = Some e4" "sets e3 e4 116 124"
    using etar_set_ids(2) [OF setsD(1) [OF e3(2)], of 0] by auto
  obtain e5 where e5: "etar_set_size 0 e4 = Some e5" "sets e4 e5 124 136"
    using etar_set_numbers(2) [OF setsD(1) [OF e4(2)]] by blast
  have t: "timeM e5 = timeM etar"
    using setsD(3) [OF e1(2)] setsD(3) [OF e2(2)] setsD(3) [OF e3(2)] setsD(3) [OF e4(2)] setsD(3) [OF e5(2)]
    by (simp add: put_hdr_def)
  obtain e6 where e6: "etar_set_time (timeM e5) e5 = Some e6" "sets e5 e6 136 148"
    using etar_set_numbers(3) [OF setsD(1) [OF e5(2)]] assms t by auto
  obtain e7 where e7: "etar_set_typeflag DIRTYPE e6 = Some e7" "sets e6 e7 156 157"
    using etar_set_texts(4) [OF setsD(1) [OF e6(2)]] by blast
  obtain e8 where e8: "etar_set_linkname [] e7 = Some (e8, 0)" "sets e7 e8 157 257"
    using etar_set_texts(1) [OF setsD(1) [OF e7(2)]] by blast
  obtain e9 where e9: "etar_set_uname [] e8 = Some (e9, 0)" "sets e8 e9 265 297"
    using etar_set_texts(2) [OF setsD(1) [OF e8(2)]] by blast
  obtain e10 where e10: "etar_set_gname [] e9 = Some (e10, 0)" "sets e9 e10 297 329"
    using etar_set_texts(3) [OF setsD(1) [OF e9(2)]] by blast
  obtain e11 where e11: "etar_set_devmajor 0 e10 = Some e11" "sets e10 e11 329 337"
    using etar_set_numbers(4) [OF setsD(1) [OF e10(2)]] by blast
  obtain e12 where e12: "etar_set_devminor 0 e11 = Some e12" "sets e11 e12 337 345"
    using etar_set_numbers(5) [OF setsD(1) [OF e11(2)]] by blast
  obtain e13 where e13: "etar_set_chksum e12 = Some e13" "sets e12 e13 148 156"
    using etar_set_chksum_ok [OF setsD(1) [OF e12(2)]] by blast
  note all = e1(2) e2(2) e3(2) e4(2) e5(2) e6(2) e7(2) e8(2) e9(2) e10(2) e11(2) e12(2) e13(2)
  have t5: "timeM e5 = timeM e4" "timeM e4 = timeM e3" by (rule setsD(3) [OF e5(2)] setsD(3) [OF e4(2)])+
  have "etar_init_hdr w etar = Some e13"
    using build e1(1) e2(1) e3(1) e4(1) e5(1) e6(1) e7(1) e8(1) e9(1) e10(1) e11(1) e12(1) e13(1)
    by (simp add: etar_init_hdr_def z_def [symmetric] Let_def flip: bind_assoc)
  moreover have "etar_tarheaderflagsM e13 = etar_tarheaderflagsM etar" "timeM e13 = timeM etar"
    using all [THEN setsD(2)] all [THEN setsD(3)] by (simp_all add: put_hdr_def)
  ultimately show ?thesis using setsD(1) [OF e13(2)] by blast
qed

end
