(* ===== verification/Defer.thy ===== *)
theory Defer
  imports Cpio "HOL-Library.Multiset"
begin

text \<open>
  Hard links in cpio archives (\<open>swsupplib/taru/defer.c\<close>). The data of a file with several names belong to the
  last of its members in the archive, so members are put aside until the last one arrives or the archive ends.
\<close>

section \<open>Copying headers\<close>

text \<open>\<open>taru_filehdr2filehdr\<close> (\<open>taru/mtar.c\<close>). The list of attributes is shared, which raises its reference count.\<close>

definition taru_filehdr2filehdr :: "new_cpio_header \<Rightarrow> new_cpio_header \<Rightarrow> new_cpio_header" where
  "taru_filehdr2filehdr dst src =
     (let dst = dst\<lparr>c_magic := c_magic src, c_ino := c_ino src, c_mode := c_mode src, c_uid := c_uid src,
            c_gid := c_gid src, c_nlink := c_nlink src, c_mtime := c_mtime src, c_ctime := c_ctime src,
            c_ctime_nsec := c_ctime_nsec src, c_atime := c_atime src, c_atime_nsec := c_atime_nsec src,
            c_filesize := c_filesize src, c_dev_maj := c_dev_maj src, c_dev_min := c_dev_min src,
            c_rdev_maj := c_rdev_maj src, c_rdev_min := c_rdev_min src, c_namesize := c_namesize src,
            c_chksum := c_chksum src, c_cu := c_cu src, c_cg := c_cg src, c_is_tar_lnktype := c_is_tar_lnktype src\<rparr>;
          dst = ahsStaticSetPaxLinkname dst (Some (ahsStaticGetTarLinkname src));
          dst = ahsStaticSetTarFilename dst (Some (ahsStaticGetTarFilename src));
          dst = ahsStaticSetTarUsername dst (Some (ahsStaticGetTarUsername src));
          dst = ahsStaticSetTarGroupname dst (Some (ahsStaticGetTarGroupname src))
      in dst\<lparr>extattlistM := map_option (\<lambda>l. l\<lparr>refcountM := refcountM l + 1\<rparr>) (extattlistM src)\<rparr>)"

section \<open>The list of members put aside\<close>

record deferred =
  deferoutsM :: "new_cpio_header list"
  formatM :: archive_format_in
  taruM :: taru

definition defer_set_taru :: "deferred \<Rightarrow> taru \<Rightarrow> deferred" where
  "defer_set_taru def taru = def\<lparr>taruM := taru\<rparr>"

definition defer_set_format :: "deferred \<Rightarrow> archive_format_in \<Rightarrow> deferred" where
  "defer_set_format def fmt = def\<lparr>formatM := fmt\<rparr>"

definition defer_open :: "64 word \<Rightarrow> archive_format_in \<Rightarrow> deferred option" where
  "defer_open now fmt = do { taru \<leftarrow> taru_create now; Some \<lparr>deferoutsM = [], formatM = fmt, taruM = taru\<rparr> }"

text \<open>\<open>h0\<close> is the header of \<open>ahsStaticCreateFilehdr\<close>.\<close>

definition def_create_deferment :: "new_cpio_header \<Rightarrow> new_cpio_header \<Rightarrow> new_cpio_header" where
  "def_create_deferment h0 h = ahsStaticSetPaxLinkname (taru_filehdr2filehdr h0 h) None"

definition defer_add_link_defer :: "new_cpio_header \<Rightarrow> deferred \<Rightarrow> new_cpio_header \<Rightarrow> deferred" where
  "defer_add_link_defer h0 def h = def\<lparr>deferoutsM := deferoutsM def @ [def_create_deferment h0 h]\<rparr>"

text \<open>Members belong to the same file when their numbers agree after conversion to \<open>int\<close>.\<close>

definition same_file :: "new_cpio_header \<Rightarrow> new_cpio_header \<Rightarrow> bool" where
  "same_file h d \<longleftrightarrow> (ucast (c_ino d) :: 32 word) = ucast (c_ino h) \<and>
     (ucast (c_dev_maj d) :: 32 word) = ucast (c_dev_maj h) \<and> (ucast (c_dev_min d) :: 32 word) = ucast (c_dev_min h)"

definition def_count_defered_links_to_dev_ino :: "deferred \<Rightarrow> new_cpio_header \<Rightarrow> int" where
  "def_count_defered_links_to_dev_ino def h = int (length (filter (same_file h) (deferoutsM def)))"

definition defer_is_last_link :: "deferred \<Rightarrow> new_cpio_header \<Rightarrow> int" where
  "defer_is_last_link def h =
     (if sint (ucast (c_nlink h) :: 32 word) = def_count_defered_links_to_dev_ino def h + 1 then 1 else 0)"

section \<open>Writing them out\<close>

text \<open>The state of a writing loop: what is returned, the bytes written, the caches of names and the object.\<close>

record def_state =
  ds_ret :: int
  ds_out :: "char list"
  ds_owners :: owners
  ds_def :: deferred

definition def_write_header :: "owners \<Rightarrow> deferred \<Rightarrow> new_cpio_header \<Rightarrow> int \<Rightarrow> (new_cpio_header \<times> def_state) option" where
  "def_write_header w def h out_des = do {
     r \<leftarrow> taru_write_out_header w (taruM def) h out_des (formatM def) None 0;
     Some (ho_hdr r, \<lparr>ds_ret = ho_ret r, ds_out = ho_bytes r, ds_owners = ho_owners r, ds_def = def\<lparr>taruM := ho_taru r\<rparr>\<rparr>) }"

definition def_writeout_defered_file ::
  "digest_fns \<Rightarrow> (string \<Rightarrow> char list option) \<Rightarrow> owners \<Rightarrow> deferred \<Rightarrow> new_cpio_header \<Rightarrow> char list option \<Rightarrow> int \<Rightarrow> def_state option" where
  "def_writeout_defered_file fns content w def header infd outfd = do {
     (header, s) \<leftarrow> def_write_header w def header outfd;
     let r = taru_write_archive_member_data fns content header outfd infd None (formatM def) (- 1) None;
     Some (s\<lparr>ds_ret := c_int (ds_ret s + md_ret r), ds_out := ds_out s @ md_out r\<rparr>) }"

text \<open>One member. The member itself is still in the list when the links are counted.\<close>

definition writeout_member ::
  "digest_fns \<Rightarrow> (string \<Rightarrow> char list option) \<Rightarrow> owners \<Rightarrow> deferred \<Rightarrow> new_cpio_header \<Rightarrow> char list option \<Rightarrow> int \<Rightarrow> bool \<Rightarrow>
   def_state option" where
  "writeout_member fns content w def d infd out_des is_final =
     (let remaining_links = def_count_defered_links_to_dev_ino def d
      in if \<not> is_final \<or> remaining_links > 1 then map_option snd (def_write_header w def (d\<lparr>c_filesize := 0\<rparr>) out_des)
         else if remaining_links = 1 then def_writeout_defered_file fns content w def d infd out_des
         else Some \<lparr>ds_ret = 0, ds_out = [], ds_owners = w, ds_def = def\<rparr>)"

text \<open>The loop over the list: \<open>kept\<close> are the members passed over.\<close>

fun writeout_defers_loop ::
  "digest_fns \<Rightarrow> (string \<Rightarrow> char list option) \<Rightarrow> new_cpio_header \<Rightarrow> char list option \<Rightarrow> int \<Rightarrow> bool \<Rightarrow>
   new_cpio_header list \<Rightarrow> new_cpio_header list \<Rightarrow> def_state \<Rightarrow> def_state option" where
  "writeout_defers_loop fns content key infd out_des is_final kept [] s =
     Some (s\<lparr>ds_def := (ds_def s)\<lparr>deferoutsM := kept\<rparr>\<rparr>)"
| "writeout_defers_loop fns content key infd out_des is_final kept (d # ds) s =
     (if same_file key d then do {
        r \<leftarrow> writeout_member fns content (ds_owners s) ((ds_def s)\<lparr>deferoutsM := kept @ d # ds\<rparr>) d infd out_des is_final;
        writeout_defers_loop fns content key infd out_des is_final kept ds
          (r\<lparr>ds_ret := c_int (ds_ret s + ds_ret r), ds_out := ds_out s @ ds_out r\<rparr>) }
      else writeout_defers_loop fns content key infd out_des is_final (kept @ [d]) ds s)"

definition def_writeout_defers ::
  "digest_fns \<Rightarrow> (string \<Rightarrow> char list option) \<Rightarrow> owners \<Rightarrow> deferred \<Rightarrow> new_cpio_header \<Rightarrow> int \<Rightarrow> char list option \<Rightarrow> bool \<Rightarrow>
   def_state option" where
  "def_writeout_defers fns content w def h out_des infd is_final =
     writeout_defers_loop fns content h infd out_des is_final [] (deferoutsM def)
       \<lparr>ds_ret = 0, ds_out = [], ds_owners = w, ds_def = def\<rparr>"

definition defer_writeout_zero_length_defers ::
  "digest_fns \<Rightarrow> (string \<Rightarrow> char list option) \<Rightarrow> owners \<Rightarrow> deferred \<Rightarrow> new_cpio_header \<Rightarrow> int \<Rightarrow> def_state option" where
  "defer_writeout_zero_length_defers fns content w def h out_des = def_writeout_defers fns content w def h out_des None False"

text \<open>Every pass removes the first member at least, which is why the end is reached.\<close>

lemma loop_keeps:
  "writeout_defers_loop fns content key infd out_des is_final kept ds s = Some r \<Longrightarrow>
   deferoutsM (ds_def r) = kept @ filter (\<lambda>d. \<not> same_file key d) ds"
  by (induction ds arbitrary: kept s) (auto simp: bind_Some_iff split: if_splits)

lemma same_file_refl [simp]: "same_file h h"
  by (simp add: same_file_def)

lemma writeout_defers_shrinks:
  assumes "def_writeout_defers fns content w def h out_des infd is_final = Some r" "deferoutsM def = h # ds"
  shows "length (deferoutsM (ds_def r)) < length (deferoutsM def)"
  using loop_keeps [OF assms(1) [unfolded def_writeout_defers_def]] assms(2) by (simp add: le_imp_less_Suc)

function final_defers_loop ::
  "digest_fns \<Rightarrow> (string \<Rightarrow> char list option) \<Rightarrow> int \<Rightarrow> int \<Rightarrow> def_state \<Rightarrow> def_state option" where
  "final_defers_loop fns content out_des ret s =
     (if ret < 0 then Some (s\<lparr>ds_ret := ret\<rparr>)
      else case deferoutsM (ds_def s) of
          [] \<Rightarrow> Some s
        | h # _ \<Rightarrow>
            (case def_writeout_defers fns content (ds_owners s) (ds_def s) h out_des None True of
               None \<Rightarrow> None
             | Some r \<Rightarrow> final_defers_loop fns content out_des (ds_ret r)
                 (r\<lparr>ds_ret := c_int (ds_ret s + ds_ret r), ds_out := ds_out s @ ds_out r\<rparr>)))"
  by pat_completeness auto
termination
  by (relation "measure (\<lambda>(fns, content, out_des, ret, s). length (deferoutsM (ds_def s)))")
    (auto dest: writeout_defers_shrinks)

declare final_defers_loop.simps [simp del]

definition defer_writeout_final_defers ::
  "digest_fns \<Rightarrow> (string \<Rightarrow> char list option) \<Rightarrow> owners \<Rightarrow> deferred \<Rightarrow> int \<Rightarrow> def_state option" where
  "defer_writeout_final_defers fns content w def out_des =
     final_defers_loop fns content out_des 0 \<lparr>ds_ret = 0, ds_out = [], ds_owners = w, ds_def = def\<rparr>"


section \<open>What is written\<close>

text \<open>Of the members of one file the last one carries the data; \<open>True\<close> marks it. The files come in the order of
  their first members.\<close>

definition def_key :: "new_cpio_header \<Rightarrow> 32 word \<times> 32 word \<times> 32 word" where
  "def_key h = (ucast (c_ino h), ucast (c_dev_maj h), ucast (c_dev_min h))"

fun mark_last :: "new_cpio_header list \<Rightarrow> (new_cpio_header \<times> bool) list" where
  "mark_last [] = []"
| "mark_last (d # ds) = (d, ds = []) # mark_last ds"

function final_order :: "new_cpio_header list \<Rightarrow> (new_cpio_header \<times> bool) list" where
  "final_order [] = []"
| "final_order (d # ds) = mark_last (d # filter (same_file d) ds) @ final_order (filter (\<lambda>e. \<not> same_file d e) ds)"
  by pat_completeness auto
termination by (relation "measure length") (auto simp: le_imp_less_Suc)

lemma same_file_key: "same_file h d \<longleftrightarrow> def_key h = def_key d"
  by (auto simp: same_file_def def_key_def)

text \<open>The bytes of a member in the new ascii formats: its header, with a size only if the data follow, its name,
  the data and the padding.\<close>

definition newc_bytes :: "archive_format_in \<Rightarrow> new_cpio_header \<Rightarrow> char list" where
  "newc_bytes fmt h = newc_magic fmt @
     concat (map2 (fixed 16) (replicate 13 8) (map unat (newc_fields (newc_sent fmt h)))) @
     (ahsStaticGetTarFilename h @ [NUL]) @ replicate (newc_pad h fmt) NUL"

definition link_bytes :: "archive_format_in \<Rightarrow> (string \<Rightarrow> char list option) \<Rightarrow> new_cpio_header \<times> bool \<Rightarrow> char list" where
  "link_bytes fmt content m =
     (if snd m then newc_bytes fmt (fst m) @
        take (unat (c_filesize (fst m))) (the (content (ahsStaticGetTarFilename (fst m)))) @ padding_of (fst m) fmt
      else newc_bytes fmt ((fst m)\<lparr>c_filesize := 0\<rparr>))"

definition deferred_ok :: "archive_format_in \<Rightarrow> (string \<Rightarrow> char list option) \<Rightarrow> new_cpio_header \<Rightarrow> bool" where
  "deferred_ok fmt content h \<longleftrightarrow> (\<forall>v \<in> set (newc_fields (newc_sent fmt h)). unat v < 2 ^ 32) \<and> name_ok h 6000 \<and>
     regular_data h \<and>
     (\<exists>data. content (ahsStaticGetTarFilename h) = Some data \<and> unat (c_filesize h) \<le> length data)"

lemma pump_without_digests:
  "swlib_pump_amount8 fns ofd amount adj None inp = swlib_pump_amount8 plain_fns ofd amount adj None inp"
  by (simp add: swlib_pump_amount8_def swlib_i_digs_copy_def)

lemma data_fns_irrelevant:
  "taru_write_archive_member_data fns content h fd infd fout fmt adj None =
   taru_write_archive_member_data plain_fns content h fd infd fout fmt adj None"
  unfolding taru_write_archive_member_data_def taru_write_archive_member_data_i_def pump_without_digests [of fns] by (rule refl)

lemma data_from_file:
  assumes "and (c_mode h) CP_IFMT = CP_IFREG" "ahsStaticGetTarLinkname h = []" "content (ahsStaticGetTarFilename h) = Some data"
  shows "taru_write_archive_member_data fns content h fd None None fmt adj digs =
     taru_write_archive_member_data fns content h fd (Some data) None fmt adj digs"
  using assms by (simp add: taru_write_archive_member_data_def taru_write_archive_member_data_i_def)

lemma header_written:
  assumes "formatM def = arf_newascii \<or> formatM def = arf_crcascii"
    "\<forall>v \<in> set (newc_fields (newc_sent (formatM def) h)). unat v < 2 ^ 32" "name_ok h 6000" "0 < fd"
  shows "def_write_header w def h fd = Some (newc_sent (formatM def) h,
    \<lparr>ds_ret = int (length (newc_bytes (formatM def) h)), ds_out = newc_bytes (formatM def) h, ds_owners = w, ds_def = def\<rparr>)"
  using newc_written [OF assms(1,2,3) less_imp_le [OF assms(4)] no_strip, of w "taruM def"]
  by (auto simp: def_write_header_def newc_bytes_def)

text \<open>One member.\<close>

lemma member_written:
  assumes "formatM def = arf_newascii \<or> formatM def = arf_crcascii" "deferred_ok (formatM def) content d" "0 < fd"
    "def_count_defered_links_to_dev_ino def d = int n + 1" "length (link_bytes (formatM def) content (d, n = 0)) < 2 ^ 31"
  shows "writeout_member fns content w def d None fd True =
    Some \<lparr>ds_ret = int (length (link_bytes (formatM def) content (d, n = 0))),
      ds_out = link_bytes (formatM def) content (d, n = 0), ds_owners = w, ds_def = def\<rparr>"
proof (cases "n = 0")
  case False
  let ?z = "d\<lparr>c_filesize := 0\<rparr>"
  have "\<forall>v \<in> set (newc_fields (newc_sent (formatM def) ?z)). unat v < 2 ^ 32" "name_ok ?z 6000"
    using assms(2) by (auto simp: deferred_ok_def newc_fields_def newc_sent_def name_ok_def ahs_name_defs)
  from header_written [OF assms(1) this assms(3)] show ?thesis
    using False assms(4) by (simp add: writeout_member_def link_bytes_def)
next
  case True
  obtain data where data: "content (ahsStaticGetTarFilename d) = Some data" "unat (c_filesize d) \<le> length data"
    "\<forall>v \<in> set (newc_fields (newc_sent (formatM def) d)). unat v < 2 ^ 32" "name_ok d 6000" "regular_data d"
    using assms(2) by (auto simp: deferred_ok_def)
  let ?h = "newc_sent (formatM def) d" and ?n = "unat (c_filesize d)"
  have h: "regular_data ?h" "ahsStaticGetTarFilename ?h = ahsStaticGetTarFilename d" "c_filesize ?h = c_filesize d"
    "padding_of ?h (formatM def) = padding_of d (formatM def)"
    using data(5) by (simp_all add: newc_sent_def regular_data_def ahs_name_defs padding_of_def)
  have f: "formatM def \<noteq> arf_unknown" "formatM def \<noteq> arf_filesystem" using assms(1) by auto
  have "taru_write_archive_member_data fns content ?h fd None None (formatM def) (- 1) None =
     taru_write_archive_member_data plain_fns content ?h fd (Some data) None (formatM def) (- 1) None"
    using data_from_file [of ?h content data] data_fns_irrelevant h(1,2) data(1) by (simp add: regular_data_def)
  also have "\<dots> = \<lparr>md_ret = int (?n + length (padding_of d (formatM def))), md_out = take ?n data @ padding_of d (formatM def),
      md_pad = [], md_adjunct = [], md_digs = None, md_rest = drop ?n data\<rparr>"
    using member_data_ok [OF h(1) _ less_imp_le [OF assms(3)] less_imp_le [OF assms(3)] f plain_fns_streaming, of data content "- 1" None]
      data(2) assms(3) h(3,4) by (simp add: taru_write_archive_member_data_def)
  finally have w: "taru_write_archive_member_data fns content ?h fd None None (formatM def) (- 1) None =
      \<lparr>md_ret = int (?n + length (padding_of d (formatM def))), md_out = take ?n data @ padding_of d (formatM def),
      md_pad = [], md_adjunct = [], md_digs = None, md_rest = drop ?n data\<rparr>" .
  have l: "link_bytes (formatM def) content (d, True) = newc_bytes (formatM def) d @ take ?n data @ padding_of d (formatM def)"
    using data(1) by (simp add: link_bytes_def)
  have "c_int (int (length (link_bytes (formatM def) content (d, True)))) = int (length (link_bytes (formatM def) content (d, True)))"
    using assms(5) True by (intro c_int_id) auto
  then have c: "c_int (int (length (newc_bytes (formatM def) d)) + int (?n + length (padding_of d (formatM def)))) =
      int (length (link_bytes (formatM def) content (d, True)))"
    using data(2) unfolding l by simp
  show ?thesis
    using True assms(4) header_written [OF assms(1) data(3,4) assms(3), of w] w c
    by (simp add: writeout_member_def def_writeout_defered_file_def l Let_def del: of_nat_add)
qed


lemma loop_written:
  assumes "fmt = arf_newascii \<or> fmt = arf_crcascii" "0 < fd" "\<forall>d \<in> set ds. deferred_ok fmt content d"
    "filter (same_file key) kept = []" "formatM (ds_def s) = fmt" "ds_ret s = int (length (ds_out s))"
    "length (ds_out s @ concat (map (link_bytes fmt content) (mark_last (filter (same_file key) ds)))) < 2 ^ 31"
  shows "writeout_defers_loop fns content key None fd True kept ds s =
    (let out = ds_out s @ concat (map (link_bytes fmt content) (mark_last (filter (same_file key) ds)))
     in Some \<lparr>ds_ret = int (length out), ds_out = out, ds_owners = ds_owners s,
          ds_def = (ds_def s)\<lparr>deferoutsM := kept @ filter (\<lambda>d. \<not> same_file key d) ds\<rparr>\<rparr>)"
  using assms(3-)
proof (induction ds arbitrary: kept s)
  case Nil
  then show ?case by (cases s) (simp add: Let_def)
next
  case (Cons d ds)
  show ?case
  proof (cases "same_file key d")
    case False
    then show ?thesis using Cons.IH [of "kept @ [d]" s] Cons.prems by simp
  next
    case True
    let ?def = "(ds_def s)\<lparr>deferoutsM := kept @ d # ds\<rparr>" and ?g = "filter (same_file key) ds"
    let ?m = "link_bytes fmt content (d, ?g = [])"
    have k: "same_file d = same_file key" using True by (auto simp: same_file_key fun_eq_iff)
    then have n: "def_count_defered_links_to_dev_ino ?def d = int (length ?g) + 1"
      using Cons.prems(2) True by (simp add: def_count_defered_links_to_dev_ino_def)
    have l: "length (ds_out s) + length ?m < 2 ^ 31" using Cons.prems(5) True by simp
    then have lm: "length ?m < 2 ^ 31" by simp
    have m: "writeout_member fns content (ds_owners s) ?def d None fd True =
        Some \<lparr>ds_ret = int (length ?m), ds_out = ?m, ds_owners = ds_owners s, ds_def = ?def\<rparr>"
      using member_written [of ?def content d fd "length ?g" fns "ds_owners s"] assms(1,2) Cons.prems(1,3) n lm by simp
    let ?s = "\<lparr>ds_ret = int (length (ds_out s @ ?m)), ds_out = ds_out s @ ?m, ds_owners = ds_owners s, ds_def = ?def\<rparr>"
    have "c_int (int (length (ds_out s)) + int (length ?m)) = int (length (ds_out s @ ?m))" using l by simp
    then have "writeout_defers_loop fns content key None fd True kept (d # ds) s =
        writeout_defers_loop fns content key None fd True kept ds ?s"
      using True m Cons.prems(4) by simp
    also have "\<dots> = (let out = ds_out ?s @ concat (map (link_bytes fmt content) (mark_last ?g))
      in Some \<lparr>ds_ret = int (length out), ds_out = out, ds_owners = ds_owners ?s,
          ds_def = (ds_def ?s)\<lparr>deferoutsM := kept @ filter (\<lambda>d. \<not> same_file key d) ds\<rparr>\<rparr>)"
      by (rule Cons.IH) (use Cons.prems True in auto)
    finally show ?thesis using True by (simp add: Let_def)
  qed
qed

lemma final_loop_written:
  assumes "fmt = arf_newascii \<or> fmt = arf_crcascii" "0 < fd" "0 \<le> ret" "ds = deferoutsM (ds_def s)"
    "\<forall>d \<in> set ds. deferred_ok fmt content d" "formatM (ds_def s) = fmt" "ds_ret s = int (length (ds_out s))"
    "length (ds_out s @ concat (map (link_bytes fmt content) (final_order ds))) < 2 ^ 31"
  shows "final_defers_loop fns content fd ret s =
    (let out = ds_out s @ concat (map (link_bytes fmt content) (final_order ds))
     in Some \<lparr>ds_ret = int (length out), ds_out = out, ds_owners = ds_owners s, ds_def = (ds_def s)\<lparr>deferoutsM := []\<rparr>\<rparr>)"
  using assms(3-)
proof (induction ds arbitrary: ret s rule: final_order.induct)
  case 1
  then have d: "(ds_def s)\<lparr>deferoutsM := []\<rparr> = ds_def s" by (cases "ds_def s") simp
  have "final_defers_loop fns content fd ret s = Some s"
    using 1(1) by (subst final_defers_loop.simps) (simp flip: 1(2))
  then show ?case using 1(5) d by (cases s) (simp add: Let_def)
next
  case (2 d ds)
  let ?rest = "filter (\<lambda>e. \<not> same_file d e) ds"
  let ?o = "concat (map (link_bytes fmt content) (mark_last (d # filter (same_file d) ds)))"
  let ?r = "\<lparr>ds_ret = int (length ?o), ds_out = ?o, ds_owners = ds_owners s, ds_def = (ds_def s)\<lparr>deferoutsM := ?rest\<rparr>\<rparr>"
  have l: "length (ds_out s) + length ?o + length (concat (map (link_bytes fmt content) (final_order ?rest))) < 2 ^ 31"
    using "2.prems"(6) by simp
  have dd: "deferoutsM (ds_def s) = d # ds" using "2.prems"(2) by simp
  have w: "def_writeout_defers fns content (ds_owners s) (ds_def s) d fd None True = Some ?r"
    using loop_written [OF assms(1,2), of "d # ds" content d "[]" "\<lparr>ds_ret = 0, ds_out = [], ds_owners = ds_owners s, ds_def = ds_def s\<rparr>" fns]
      "2.prems"(3,4) l dd by (simp add: def_writeout_defers_def)
  let ?s = "?r\<lparr>ds_ret := int (length (ds_out s @ ?o)), ds_out := ds_out s @ ?o\<rparr>"
  have "c_int (int (length (ds_out s)) + int (length ?o)) = int (length (ds_out s @ ?o))" using l by simp
  then have "final_defers_loop fns content fd ret s = final_defers_loop fns content fd (int (length ?o)) ?s"
    using "2.prems"(1,5) w dd by (subst final_defers_loop.simps) simp
  also have "\<dots> = (let out = ds_out ?s @ concat (map (link_bytes fmt content) (final_order ?rest))
     in Some \<lparr>ds_ret = int (length out), ds_out = out, ds_owners = ds_owners ?s, ds_def = (ds_def ?s)\<lparr>deferoutsM := []\<rparr>\<rparr>)"
    by (rule "2.IH") (use "2.prems"(3,4) l in auto)
  finally show ?case by (simp add: Let_def)
qed

lemma mark_last_facts:
  "map fst (mark_last ds) = ds" "map fst (filter snd (mark_last ds)) = (if ds = [] then [] else [last ds])"
  by (induction ds) auto

lemma final_order_mset: "mset (map fst (final_order ds)) = mset ds"
proof (induction ds rule: final_order.induct)
  case (2 d ds)
  have "mset (map fst (final_order (d # ds))) =
      add_mset d (mset (filter (same_file d) ds)) + mset (map fst (final_order (filter (\<lambda>e. \<not> same_file d e) ds)))"
    by (simp add: mark_last_facts)
  also have "\<dots> = add_mset d (mset (filter (same_file d) ds) + mset (filter (\<lambda>e. \<not> same_file d e) ds))" by (simp only: "2.IH") simp
  also have "mset (filter (same_file d) ds) + mset (filter (\<lambda>e. \<not> same_file d e) ds) = mset ds" by simp
  finally show ?case by simp
qed simp

text \<open>The keys of the members with data: each file once.\<close>

lemma final_order_data:
  "distinct (map def_key (map fst (filter snd (final_order ds)))) \<and>
   set (map def_key (map fst (filter snd (final_order ds)))) = def_key ` set ds"
proof (induction ds rule: final_order.induct)
  case (2 d ds)
  let ?g = "d # filter (same_file d) ds" and ?rest = "filter (\<lambda>e. \<not> same_file d e) ds"
  define g where "g = ?g"
  have g: "g \<noteq> []" "\<forall>e \<in> set g. def_key e = def_key d" by (auto simp: g_def same_file_key)
  then have l: "def_key (last g) = def_key d" using last_in_set by blast
  have "map def_key (map fst (filter snd (final_order (d # ds)))) =
      map def_key (map fst (filter snd (mark_last g))) @ map def_key (map fst (filter snd (final_order ?rest)))"
    by (simp add: g_def)
  also have "map def_key (map fst (filter snd (mark_last g))) = [def_key d]" using g(1) l by (simp only: mark_last_facts) simp
  finally have e: "map def_key (map fst (filter snd (final_order (d # ds)))) =
      def_key d # map def_key (map fst (filter snd (final_order ?rest)))" by simp
  have "def_key ` set ?rest = def_key ` set ds - {def_key d}" by (auto simp: same_file_key)
  then show ?case unfolding e using "2.IH" by auto
qed simp


text \<open>Before the last link the members are written without data.\<close>

definition header_ok :: "archive_format_in \<Rightarrow> new_cpio_header \<Rightarrow> bool" where
  "header_ok fmt h \<longleftrightarrow> (\<forall>v \<in> set (newc_fields (newc_sent fmt (h\<lparr>c_filesize := 0\<rparr>))). unat v < 2 ^ 32) \<and> name_ok h 6000"

lemma zero_loop_written:
  assumes "fmt = arf_newascii \<or> fmt = arf_crcascii" "0 < fd" "\<forall>d \<in> set ds. header_ok fmt d"
    "formatM (ds_def s) = fmt" "ds_ret s = int (length (ds_out s))"
    "length (ds_out s @ concat (map (\<lambda>d. newc_bytes fmt (d\<lparr>c_filesize := 0\<rparr>)) (filter (same_file key) ds))) < 2 ^ 31"
  shows "writeout_defers_loop fns content key None fd False kept ds s =
    (let out = ds_out s @ concat (map (\<lambda>d. newc_bytes fmt (d\<lparr>c_filesize := 0\<rparr>)) (filter (same_file key) ds))
     in Some \<lparr>ds_ret = int (length out), ds_out = out, ds_owners = ds_owners s,
          ds_def = (ds_def s)\<lparr>deferoutsM := kept @ filter (\<lambda>d. \<not> same_file key d) ds\<rparr>\<rparr>)"
  using assms(3-)
proof (induction ds arbitrary: kept s)
  case Nil
  then show ?case by (cases s) (simp add: Let_def)
next
  case (Cons d ds)
  show ?case
  proof (cases "same_file key d")
    case False
    then show ?thesis using Cons.IH [of s "kept @ [d]"] Cons.prems by simp
  next
    case True
    let ?def = "(ds_def s)\<lparr>deferoutsM := kept @ d # ds\<rparr>" and ?b = "newc_bytes fmt (d\<lparr>c_filesize := 0\<rparr>)"
    have l: "length (ds_out s) + length ?b < 2 ^ 31" using Cons.prems(4) True by simp
    have "name_ok (d\<lparr>c_filesize := 0\<rparr>) 6000" using Cons.prems(1) by (simp add: header_ok_def name_ok_def ahs_name_defs)
    then have m: "writeout_member fns content (ds_owners s) ?def d None fd False =
        Some \<lparr>ds_ret = int (length ?b), ds_out = ?b, ds_owners = ds_owners s, ds_def = ?def\<rparr>"
      using header_written [of ?def "d\<lparr>c_filesize := 0\<rparr>" fd "ds_owners s"] assms(1,2) Cons.prems(1,2)
      by (simp add: writeout_member_def header_ok_def)
    let ?s = "\<lparr>ds_ret = int (length (ds_out s @ ?b)), ds_out = ds_out s @ ?b, ds_owners = ds_owners s, ds_def = ?def\<rparr>"
    have "c_int (int (length (ds_out s)) + int (length ?b)) = int (length (ds_out s @ ?b))" using l by simp
    then have "writeout_defers_loop fns content key None fd False kept (d # ds) s =
        writeout_defers_loop fns content key None fd False kept ds ?s"
      using True m Cons.prems(3) by simp
    also have "\<dots> = (let out = ds_out ?s @ concat (map (\<lambda>d. newc_bytes fmt (d\<lparr>c_filesize := 0\<rparr>)) (filter (same_file key) ds))
      in Some \<lparr>ds_ret = int (length out), ds_out = out, ds_owners = ds_owners ?s,
          ds_def = (ds_def ?s)\<lparr>deferoutsM := kept @ filter (\<lambda>d. \<not> same_file key d) ds\<rparr>\<rparr>)"
      by (rule Cons.IH) (use Cons.prems True in auto)
    finally show ?thesis using True by (simp add: Let_def)
  qed
qed

text \<open>C19: at the end of the archive every member that was put aside is written and the list is empty; of the
  members of one file exactly one, the last, carries the data.\<close>

theorem deferred_links_written:
  assumes "formatM def = arf_newascii \<or> formatM def = arf_crcascii" "0 < fd"
    "\<forall>d \<in> set (deferoutsM def). deferred_ok (formatM def) content d"
    "length (concat (map (link_bytes (formatM def) content) (final_order (deferoutsM def)))) < 2 ^ 31"
  shows "\<exists>out. defer_writeout_final_defers fns content w def fd =
      Some \<lparr>ds_ret = int (length out), ds_out = out, ds_owners = w, ds_def = def\<lparr>deferoutsM := []\<rparr>\<rparr> \<and>
    out = concat (map (link_bytes (formatM def) content) (final_order (deferoutsM def))) \<and>
    mset (map fst (final_order (deferoutsM def))) = mset (deferoutsM def) \<and>
    distinct (map def_key (map fst (filter snd (final_order (deferoutsM def))))) \<and>
    set (map def_key (map fst (filter snd (final_order (deferoutsM def))))) = def_key ` set (deferoutsM def)"
  using final_loop_written [OF assms(1,2) order_refl refl, of "\<lparr>ds_ret = 0, ds_out = [], ds_owners = w, ds_def = def\<rparr>" content fns]
    assms(3,4) final_order_mset final_order_data
  by (simp add: defer_writeout_final_defers_def Let_def del: map_map mset_map set_map)

text \<open>the last link of a file is recognised by the count of its links, and the members put aside for the file,
  and only these, are then written in order with a size of zero.\<close>

theorem last_link_flushes:
  assumes "formatM def = arf_newascii \<or> formatM def = arf_crcascii" "0 < fd"
    "\<forall>d \<in> set (deferoutsM def). header_ok (formatM def) d"
    "length (concat (map (\<lambda>d. newc_bytes (formatM def) (d\<lparr>c_filesize := 0\<rparr>)) (deferoutsM def))) < 2 ^ 31"
    "sint (ucast (c_nlink h) :: 32 word) = int (length (filter (same_file h) (deferoutsM def))) + 1"
  shows "defer_is_last_link def h = 1 \<and>
    (\<exists>out. defer_writeout_zero_length_defers fns content w def h fd =
      Some \<lparr>ds_ret = int (length out), ds_out = out, ds_owners = w,
        ds_def = def\<lparr>deferoutsM := filter (\<lambda>d. \<not> same_file h d) (deferoutsM def)\<rparr>\<rparr> \<and>
     out = concat (map (\<lambda>d. newc_bytes (formatM def) (d\<lparr>c_filesize := 0\<rparr>)) (filter (same_file h) (deferoutsM def))))"
proof -
  have le: "length (concat (map f (filter P xs))) \<le> length (concat (map f xs))" for f :: "new_cpio_header \<Rightarrow> char list" and P xs
    by (induction xs) auto
  show ?thesis
    using zero_loop_written [OF assms(1,2), of "deferoutsM def" "\<lparr>ds_ret = 0, ds_out = [], ds_owners = w, ds_def = def\<rparr>" h fns content "[]"]
      assms(3,4,5) le_less_trans [OF le assms(4), of "same_file h"]
    by (simp add: defer_is_last_link_def def_count_defered_links_to_dev_ino_def defer_writeout_zero_length_defers_def
      def_writeout_defers_def Let_def)
qed

lemma newc_bytes_length:
  assumes "fmt = arf_newascii \<or> fmt = arf_crcascii" "\<forall>v \<in> set (newc_fields (newc_sent fmt h)). unat v < 2 ^ 32" "name_ok h 6000"
  shows "110 < length (newc_bytes fmt h)" "length (newc_bytes fmt h) \<le> 6114"
proof -
  have m: "length (newc_magic fmt) = 6" by (simp add: newc_magic_def)
  have "pad_block fmt = 4" using assms(1) by (auto simp: pad_block_def)
  then have "newc_pad h fmt < 4" using skip_pad_block [of "c_namesize h + 110" fmt] by (simp add: newc_pad_def)
  then show "110 < length (newc_bytes fmt h)" "length (newc_bytes fmt h) \<le> 6114"
    using newc_text_ok(2) [OF assms(2) m] m assms(3) by (auto simp: newc_bytes_def name_ok_def)
qed

text \<open>a file that cannot be opened at the end of the archive leaves a header that announces its data with nothing
  behind it, and the result that is returned is not negative.\<close>

theorem deferred_file_missing:
  assumes "formatM def = arf_newascii \<or> formatM def = arf_crcascii" "0 < fd" "deferoutsM def = [d]"
    "\<forall>v \<in> set (newc_fields (newc_sent (formatM def) d)). unat v < 2 ^ 32" "name_ok d 6000" "regular_data d"
    "content (ahsStaticGetTarFilename d) = None"
  shows "defer_writeout_final_defers fns content w def fd =
    Some \<lparr>ds_ret = int (length (newc_bytes (formatM def) d)) - 1, ds_out = newc_bytes (formatM def) d, ds_owners = w,
      ds_def = def\<lparr>deferoutsM := []\<rparr>\<rparr> \<and> 0 < int (length (newc_bytes (formatM def) d)) - 1"
proof -
  let ?h = "newc_sent (formatM def) d" and ?b = "newc_bytes (formatM def) d"
  have h: "regular_data ?h" "ahsStaticGetTarFilename ?h = ahsStaticGetTarFilename d"
    using assms(6) by (simp_all add: newc_sent_def regular_data_def ahs_name_defs)
  have r: "md_ret (taru_write_archive_member_data fns content ?h fd None None (formatM def) (- 1) None) = - 1"
    "md_out (taru_write_archive_member_data fns content ?h fd None None (formatM def) (- 1) None) = []"
    using h assms(7) by (simp_all add: regular_data_def taru_write_archive_member_data_def taru_write_archive_member_data_i_def
      no_data_written_def)
  note l = newc_bytes_length [OF assms(1,4,5)]
  define n where "n = int (length ?b) - 1"
  have n: "0 < n" "c_int n = n" "c_int (int (length ?b) - 1) = n" using l by (simp_all add: n_def)
  have c: "def_count_defered_links_to_dev_ino def d = 1" using assms(3) by (simp add: def_count_defered_links_to_dev_ino_def)
  have d: "def\<lparr>deferoutsM := [d]\<rparr> = def" using assms(3) by (cases def) simp
  have "def_writeout_defers fns content w def d fd None True =
      Some \<lparr>ds_ret = n, ds_out = ?b, ds_owners = w, ds_def = def\<lparr>deferoutsM := []\<rparr>\<rparr>"
    using header_written [OF assms(1,4,5,2), of w] c r n
    by (simp add: def_writeout_defers_def assms(3) d writeout_member_def def_writeout_defered_file_def Let_def)
  moreover have "final_defers_loop fns content fd n s = Some s" if "deferoutsM (ds_def s) = []" for s
    using that n(1) by (subst final_defers_loop.simps) simp
  ultimately have "defer_writeout_final_defers fns content w def fd =
      Some \<lparr>ds_ret = n, ds_out = ?b, ds_owners = w, ds_def = def\<lparr>deferoutsM := []\<rparr>\<rparr>"
    using n(2) by (simp add: defer_writeout_final_defers_def assms(3) final_defers_loop.simps [of fns content fd 0])
  then show ?thesis using n(1) by (simp add: n_def)
qed

section \<open>The properties at concrete inputs\<close>

text \<open>Two names of one file of three bytes.\<close>

definition link_a :: new_cpio_header where
  "link_a = cpio_header\<lparr>c_ino := 7, c_nlink := 2, c_dev_maj := 8, c_name := Some ''a'', c_namesize := 2\<rparr>"

definition link_b :: new_cpio_header where
  "link_b = cpio_header\<lparr>c_ino := 7, c_nlink := 2, c_dev_maj := 8, c_name := Some ''b'', c_namesize := 2\<rparr>"

definition sample_deferred :: "taru \<Rightarrow> deferred" where
  "sample_deferred taru = \<lparr>deferoutsM = [link_a, link_b], formatM = arf_newascii, taruM = taru\<rparr>"

definition sample_files :: "string \<Rightarrow> char list option" where
  "sample_files name = (if name = ''a'' \<or> name = ''b'' then Some ''xyz'' else None)"

lemma links_ok:
  "deferred_ok arf_newascii sample_files link_a" "deferred_ok arf_newascii sample_files link_b"
  "header_ok arf_newascii link_a" "header_ok arf_newascii link_b" "same_file link_a link_b" "same_file link_b link_a"
  by (simp_all add: deferred_ok_def header_ok_def link_a_def link_b_def cpio_header_def name_ok_def ahs_name_defs newc_fields_def
    newc_sent_def zero_mem_def regular_data_def sample_files_def same_file_def c_string_def)

lemma links_length:
  "length (newc_bytes arf_newascii (link_a\<lparr>c_filesize := n\<rparr>)) \<le> 6114 \<and> length (newc_bytes arf_newascii (link_b\<lparr>c_filesize := n\<rparr>)) \<le> 6114"
  if "n = 0 \<or> n = 3" for n
  using that newc_bytes_length(2) [of arf_newascii "link_a\<lparr>c_filesize := n\<rparr>"] newc_bytes_length(2) [of arf_newascii "link_b\<lparr>c_filesize := n\<rparr>"]
  by (auto simp: link_a_def link_b_def cpio_header_def name_ok_def ahs_name_defs newc_fields_def newc_sent_def zero_mem_def c_string_def)

lemma links_bytes:
  "map (link_bytes arf_newascii sample_files) (final_order [link_a, link_b]) =
     [newc_bytes arf_newascii (link_a\<lparr>c_filesize := 0\<rparr>), newc_bytes arf_newascii link_b @ ''xyz'' @ [NUL]]"
proof -
  have s: "skip_pad 3 arf_newascii = 1" by code_simp
  have f: "ahsStaticGetTarFilename link_b = ''b''" "c_filesize link_b = 3" "\<not> same_file link_a link_b \<Longrightarrow> False"
    using links_ok(5) by (simp_all add: link_b_def cpio_header_def ahs_name_defs)
  then show ?thesis using s by (auto simp: link_bytes_def padding_of_def sample_files_def)
qed

theorem deferred_links_written_witness:
  "\<forall>taru w. \<exists>out. defer_writeout_final_defers plain_fns sample_files w (sample_deferred taru) 1 =
      Some \<lparr>ds_ret = int (length out), ds_out = out, ds_owners = w, ds_def = (sample_deferred taru)\<lparr>deferoutsM := []\<rparr>\<rparr> \<and>
    out = newc_bytes arf_newascii (link_a\<lparr>c_filesize := 0\<rparr>) @ newc_bytes arf_newascii link_b @ ''xyz'' @ [NUL]"
proof (intro allI)
  fix taru w
  have d: "formatM (sample_deferred taru) = arf_newascii" "deferoutsM (sample_deferred taru) = [link_a, link_b]"
    by (simp_all add: sample_deferred_def)
  have b: "link_b\<lparr>c_filesize := 3\<rparr> = link_b" by (simp add: link_b_def cpio_header_def)
  have l: "length (concat (map (link_bytes arf_newascii sample_files) (final_order [link_a, link_b]))) < 2 ^ 31"
    unfolding links_bytes using links_length [of 0] links_length [of 3] b by simp
  show "\<exists>out. defer_writeout_final_defers plain_fns sample_files w (sample_deferred taru) 1 =
      Some \<lparr>ds_ret = int (length out), ds_out = out, ds_owners = w, ds_def = (sample_deferred taru)\<lparr>deferoutsM := []\<rparr>\<rparr> \<and>
    out = newc_bytes arf_newascii (link_a\<lparr>c_filesize := 0\<rparr>) @ newc_bytes arf_newascii link_b @ ''xyz'' @ [NUL]"
    using deferred_links_written [of "sample_deferred taru" 1 sample_files plain_fns w, unfolded d] links_ok l
    by (simp add: links_bytes del: final_order.simps)
qed

theorem last_link_flushes_witness:
  "\<forall>taru w. defer_is_last_link ((sample_deferred taru)\<lparr>deferoutsM := [link_a]\<rparr>) link_b = 1 \<and>
    (\<exists>out. defer_writeout_zero_length_defers plain_fns sample_files w ((sample_deferred taru)\<lparr>deferoutsM := [link_a]\<rparr>) link_b 1 =
      Some \<lparr>ds_ret = int (length out), ds_out = out, ds_owners = w, ds_def = (sample_deferred taru)\<lparr>deferoutsM := []\<rparr>\<rparr> \<and>
     out = newc_bytes arf_newascii (link_a\<lparr>c_filesize := 0\<rparr>))"
proof (intro allI)
  fix taru w
  let ?d = "(sample_deferred taru)\<lparr>deferoutsM := [link_a]\<rparr>"
  have d: "formatM ?d = arf_newascii" "deferoutsM ?d = [link_a]" by (simp_all add: sample_deferred_def)
  have n: "sint (ucast (c_nlink link_b) :: 32 word) = 2" by (simp add: link_b_def)
  show "defer_is_last_link ?d link_b = 1 \<and>
    (\<exists>out. defer_writeout_zero_length_defers plain_fns sample_files w ?d link_b 1 =
      Some \<lparr>ds_ret = int (length out), ds_out = out, ds_owners = w, ds_def = (sample_deferred taru)\<lparr>deferoutsM := []\<rparr>\<rparr> \<and>
     out = newc_bytes arf_newascii (link_a\<lparr>c_filesize := 0\<rparr>))"
    using last_link_flushes [of ?d 1 link_b plain_fns sample_files w, unfolded d] links_ok links_length [of 0] n by simp
qed

theorem deferred_file_missing_witness:
  "\<forall>taru w. \<exists>n. defer_writeout_final_defers plain_fns (\<lambda>_. None) w ((sample_deferred taru)\<lparr>deferoutsM := [link_b]\<rparr>) 1 =
    Some \<lparr>ds_ret = n, ds_out = newc_bytes arf_newascii link_b, ds_owners = w, ds_def = (sample_deferred taru)\<lparr>deferoutsM := []\<rparr>\<rparr> \<and> 0 < n"
proof (intro allI)
  fix taru w
  let ?d = "(sample_deferred taru)\<lparr>deferoutsM := [link_b]\<rparr>"
  have d: "formatM ?d = arf_newascii" "deferoutsM ?d = [link_b]" by (simp_all add: sample_deferred_def)
  show "\<exists>n. defer_writeout_final_defers plain_fns (\<lambda>_. None) w ?d 1 =
    Some \<lparr>ds_ret = n, ds_out = newc_bytes arf_newascii link_b, ds_owners = w, ds_def = (sample_deferred taru)\<lparr>deferoutsM := []\<rparr>\<rparr> \<and> 0 < n"
    using deferred_file_missing [of ?d 1 link_b "\<lambda>_. None" plain_fns w, unfolded d] links_ok(2) by (simp add: deferred_ok_def)
qed

end
