(* ===== verification/Statbuf.thy ===== *)
theory Statbuf
  imports Cpio
begin

text \<open>
  Headers and the status of files: \<open>taru_filehdr2statbuf\<close> and \<open>taru_statbuf2filehdr\<close>
  (\<open>swsupplib/taru/mtar.c\<close>), with the accessors of \<open>swsupplib/taru/ahs.c\<close> that use them.
\<close>

section \<open>The status of a file\<close>

record statbuf =
  st_mode :: "32 word"
  st_ino :: "64 word"
  st_dev :: "64 word"
  st_rdev :: "64 word"
  st_nlink :: "64 word"
  st_uid :: "32 word"
  st_gid :: "32 word"
  st_size :: "64 word"
  st_atime :: "64 word"
  st_ctime :: "64 word"
  st_mtime :: "64 word"
  st_blksize :: "64 word"
  st_blocks :: "64 word"

text \<open>The type of the mode with its bits in the header; a type that is not listed gives none.\<close>

definition stat_type :: "32 word \<Rightarrow> 64 word" where
  "stat_type mode =
     (let fmt = and (ucast mode) CP_IFMT
      in if fmt \<in> set [CP_IFREG, CP_IFDIR, CP_IFBLK, CP_IFCHR, CP_IFIFO, CP_IFLNK, CP_IFSOCK] then fmt else 0)"

text \<open>The name of the link is returned in a buffer of \<open>cap\<close> bytes of the caller, whose content is \<open>linkname\<close>.
  \<open>readlink\<close> is a parameter; it gives at most the 1024 bytes of the local buffer. Writing behind the
  end of the caller's buffer is \<^term>\<open>None\<close>. The result is the returned number, the header and the buffer.\<close>

definition taru_statbuf2filehdr ::
  "(string \<Rightarrow> string option) \<Rightarrow> new_cpio_header \<Rightarrow> statbuf \<Rightarrow> string option \<Rightarrow> string option \<Rightarrow> string option \<Rightarrow> nat \<Rightarrow>
   (int \<times> new_cpio_header \<times> string option) option" where
  "taru_statbuf2filehdr readlink h st sourcefilename filename linkname cap =
     (let source = (case sourcefilename of None \<Rightarrow> filename | Some s \<Rightarrow> Some s);
          h = h\<lparr>c_mode := or (and (ucast (st_mode st)) 0xFFF) (stat_type (st_mode st)), c_ino := st_ino st, c_nlink := st_nlink st,
            c_uid := ucast (st_uid st), c_gid := ucast (st_gid st), c_filesize := st_size st, c_mtime := st_mtime st,
            c_ctime := st_ctime st, c_atime := st_atime st, c_atime_nsec := 0, c_ctime_nsec := 0,
            c_dev_maj := ucast (c_major (st_dev st)), c_dev_min := ucast (c_minor (st_dev st)),
            c_rdev_maj := ucast (c_major (st_rdev st)), c_rdev_min := ucast (c_minor (st_rdev st))\<rparr>;
          h = (case filename of
                 Some name \<Rightarrow> (ahsStaticSetTarFilename h (Some name))\<lparr>c_namesize := of_nat (length name + 1)\<rparr>
               | None \<Rightarrow> (ahsStaticSetTarFilename h (Some []))\<lparr>c_namesize := 1\<rparr>);
          ready = (\<lambda>h linkname. Some (0, h\<lparr>c_is_tar_lnktype := - 1\<rparr>, linkname))
      in if filename = None \<or> filename = Some [] then ready h linkname
         else if stat_type (st_mode st) = CP_IFLNK \<and> linkname = Some [] then
           (case readlink (the source) of
              None \<Rightarrow> Some (- 1, h, linkname)
            | Some target \<Rightarrow>
                (let target = take 1024 target
                 in if length target < cap then ready (ahsStaticSetPaxLinkname h (Some target)) (Some target) else None))
         else ready (ahsStaticSetPaxLinkname h linkname) linkname)"

text \<open>\<open>now\<close> is the result of \<open>time\<close>. The caches of names may be changed. A size of \<open>LLONG_MAX\<close> or more ends the
  process: \<^term>\<open>None\<close>. The user's policy decides about the group, the group's about the user.\<close>

definition taru_filehdr2statbuf :: "owners \<Rightarrow> 64 word \<Rightarrow> new_cpio_header \<Rightarrow> (statbuf \<times> owners) option" where
  "taru_filehdr2statbuf w now h = do {
     size \<leftarrow> taru_hdr_get_filesize h;
     let st = \<lparr>st_mode = ucast (c_mode h), st_ino = c_ino h, st_dev = hdr_dev h, st_rdev = hdr_rdev h, st_nlink = c_nlink h,
       st_uid = ucast (c_uid h), st_gid = ucast (c_gid h), st_size = of_int size, st_atime = now, st_ctime = now,
       st_mtime = c_mtime h, st_blksize = 512, st_blocks = of_int (size sdiv 512 + 1)\<rparr>;
     (st, w) \<leftarrow> (if c_cu h = TARU_C_BY_UNAME then do {
         (ret, gid, c) \<leftarrow> taru_get_gid_by_name (groupdb w) (groupcache w) (ahsStaticGetTarGroupname h);
         st \<leftarrow> (if ret = 0 then map_option (\<lambda>gid. st\<lparr>st_gid := gid\<rparr>) gid else Some st);
         Some (st, w\<lparr>groupcache := c\<rparr>) }
       else Some (st, w));
     (if c_cg h = TARU_C_BY_UNAME then do {
         (ret, uid, c) \<leftarrow> taru_get_uid_by_name (userdb w) (usercache w) (ahsStaticGetTarUsername h);
         st \<leftarrow> (if ret = 0 then map_option (\<lambda>uid. st\<lparr>st_uid := uid\<rparr>) uid else Some st);
         Some (st, w\<lparr>usercache := c\<rparr>) }
       else Some (st, w)) }"

definition ahs_set_from_statbuf :: "new_cpio_header \<Rightarrow> statbuf \<Rightarrow> new_cpio_header option" where
  "ahs_set_from_statbuf h st = map_option (fst \<circ> snd) (taru_statbuf2filehdr (\<lambda>_. None) h st None None None 0)"

definition ahs_set_to_statbuf :: "owners \<Rightarrow> 64 word \<Rightarrow> new_cpio_header \<Rightarrow> (statbuf \<times> owners) option" where
  "ahs_set_to_statbuf w now h = taru_filehdr2statbuf w now h"

section \<open>Device numbers\<close>

text \<open>A device is composed of its numbers without loss.\<close>

lemma makedev_numbers: "c_major (c_makedev M m) = M \<and> c_minor (c_makedev M m) = m"
proof -
  have i: "bit (0xFF :: 64 word) j \<longleftrightarrow> j < 8" "bit (0xFFF :: 64 word) j \<longleftrightarrow> j < 12" if "j < 64" for j
    using that bit_mask_iff [where 'a = "64 word", of 8 j] bit_mask_iff [where 'a = "64 word", of 12 j]
    by (auto simp: mask_numeral)
  have t1: "bit (push_bit 8 (and (ucast M) 0xFFF) :: 64 word) k \<longleftrightarrow> 8 \<le> k \<and> k < 20 \<and> bit M (k - 8)" if "k < 64" for k
    using that i(2) [of "k - 8"] unfolding bit_push_bit_iff bit_and_iff bit_ucast_iff by auto
  have t2: "bit (push_bit 32 (and (ucast M) (not 0xFFF)) :: 64 word) k \<longleftrightarrow> 44 \<le> k \<and> bit M (k - 32)" if "k < 64" for k
    using that i(2) [of "k - 32"] unfolding bit_push_bit_iff bit_and_iff bit_not_iff bit_ucast_iff by auto
  have t3: "bit (and (ucast m) 0xFF :: 64 word) k \<longleftrightarrow> k < 8 \<and> bit m k" if "k < 64" for k
    using that i(1) [of k] unfolding bit_and_iff bit_ucast_iff by auto
  have t4: "bit (push_bit 12 (and (ucast m) (not 0xFF)) :: 64 word) k \<longleftrightarrow> 20 \<le> k \<and> bit m (k - 12)" if "k < 64" for k
    using that i(1) [of "k - 12"] unfolding bit_push_bit_iff bit_and_iff bit_not_iff bit_ucast_iff by auto
  have b: "bit (c_makedev M m) k \<longleftrightarrow> 8 \<le> k \<and> k < 20 \<and> bit M (k - 8) \<or> 44 \<le> k \<and> bit M (k - 32) \<or>
      k < 8 \<and> bit m k \<or> 20 \<le> k \<and> bit m (k - 12)" if "k < 64" for k
    using t1 [OF that] t2 [OF that] t3 [OF that] t4 [OF that]
    unfolding c_makedev_def Let_def bit_or_iff by blast
  have j: "bit M j \<Longrightarrow> j < 32" "bit m j \<Longrightarrow> j < 32" for j using bit_imp_le_length by fastforce+
  have "bit (c_major (c_makedev M m)) k \<longleftrightarrow> bit M k" if "k < 32" for k
  proof (cases "k < 12")
    case True
    then have "bit (c_makedev M m) (k + 8) \<longleftrightarrow> bit M k" using b [of "k + 8"] by simp
    then show ?thesis using True that i(2) [of k]
      unfolding c_major_def bit_ucast_iff bit_or_iff bit_and_iff bit_not_iff bit_drop_bit_eq comp_def by (simp add: add.commute)
  next
    case False
    then have "bit (c_makedev M m) (k + 32) \<longleftrightarrow> bit M k" using that b [of "k + 32"] j(2) [of "20 + k"] by auto
    then show ?thesis using False that i(2) [of k]
      unfolding c_major_def bit_ucast_iff bit_or_iff bit_and_iff bit_not_iff bit_drop_bit_eq comp_def by (simp add: add.commute)
  qed
  moreover have "bit (c_minor (c_makedev M m)) k \<longleftrightarrow> bit m k" if "k < 32" for k
  proof (cases "k < 8")
    case True
    then have "bit (c_makedev M m) k \<longleftrightarrow> bit m k" using b [of k] by simp
    then show ?thesis using True that i(1) [of k]
      unfolding c_minor_def bit_ucast_iff bit_or_iff bit_and_iff bit_not_iff bit_drop_bit_eq comp_def by simp
  next
    case False
    then have "bit (c_makedev M m) (k + 12) \<longleftrightarrow> bit m k" using that b [of "k + 12"] by auto
    then show ?thesis using False that i(1) [of k]
      unfolding c_minor_def bit_ucast_iff bit_or_iff bit_and_iff bit_not_iff bit_drop_bit_eq comp_def by (simp add: add.commute)
  qed
  ultimately show ?thesis by (auto intro!: bit_word_eqI)
qed


section \<open>From the header to the status and back\<close>

definition stat_ok :: "new_cpio_header \<Rightarrow> bool" where
  "stat_ok h \<longleftrightarrow> unat (c_mode h) < 2 ^ 16 \<and> and (c_mode h) CP_IFMT \<in> set [CP_IFREG, CP_IFDIR, CP_IFBLK, CP_IFCHR, CP_IFIFO, CP_IFLNK, CP_IFSOCK] \<and>
     unat (c_uid h) < 2 ^ 32 \<and> unat (c_gid h) < 2 ^ 32 \<and> unat (c_filesize h) < 2 ^ 63 - 1 \<and>
     unat (c_dev_maj h) < 2 ^ 32 \<and> unat (c_dev_min h) < 2 ^ 32 \<and> unat (c_rdev_maj h) < 2 ^ 32 \<and> unat (c_rdev_min h) < 2 ^ 32"

lemma ucast_down_up: "unat (v :: 64 word) < 2 ^ 32 \<Longrightarrow> ucast (ucast v :: 32 word) = v"
  by (simp add: word_unat_eq_iff unat_down unat_up)

lemma mode_split:
  assumes "unat (m :: 64 word) < 2 ^ 16"
  shows "or (and m 0xFFF) (and m 0xF000) = m"
proof -
  have "or (and m 0xFFF) (and m 0xF000) = and m (or 0xFFF 0xF000)" by (simp only: bit.conj_disj_distrib)
  also have "(or 0xFFF 0xF000 :: 64 word) = mask 16" by (simp add: mask_numeral)
  also have "and m (mask 16) = take_bit 16 m" by (simp only: take_bit_eq_mask)
  also have "take_bit 16 m = m" using assms by (simp add: word_unat_eq_iff unsigned_take_bit_eq take_bit_nat_eq_self)
  finally show ?thesis .
qed

lemma filesize_ok:
  assumes "unat (c_filesize h) < 2 ^ 63 - 1"
  shows "taru_hdr_get_filesize h = Some (sint (c_filesize h))"
  using assms by (simp add: taru_hdr_get_filesize_def word_le_nat_alt)

text \<open>what a header says of a file is turned into a status and back without loss, when the owners are not
  looked up by name.\<close>

theorem statbuf_roundtrip:
  assumes "stat_ok h" "c_cu h \<noteq> TARU_C_BY_UNAME" "c_cg h \<noteq> TARU_C_BY_UNAME" "ahsStaticGetTarFilename h \<noteq> []"
    "ahsStaticGetTarLinkname h \<noteq> [] \<or> and (c_mode h) CP_IFMT \<noteq> CP_IFLNK"
  shows "\<exists>st h'. taru_filehdr2statbuf w now h = Some (st, w) \<and>
    taru_statbuf2filehdr readlink h0 st None (Some (ahsStaticGetTarFilename h)) (Some (ahsStaticGetTarLinkname h)) cap =
      Some (0, h', Some (ahsStaticGetTarLinkname h)) \<and>
    c_mode h' = c_mode h \<and> c_ino h' = c_ino h \<and> c_nlink h' = c_nlink h \<and> c_uid h' = c_uid h \<and> c_gid h' = c_gid h \<and>
    c_filesize h' = c_filesize h \<and> c_mtime h' = c_mtime h \<and> c_dev_maj h' = c_dev_maj h \<and> c_dev_min h' = c_dev_min h \<and>
    c_rdev_maj h' = c_rdev_maj h \<and> c_rdev_min h' = c_rdev_min h \<and>
    ahsStaticGetTarFilename h' = ahsStaticGetTarFilename h \<and> ahsStaticGetTarLinkname h' = ahsStaticGetTarLinkname h"
proof -
  have m: "ucast (ucast (c_mode h) :: 32 word) = c_mode h" using assms(1) by (intro ucast_down_up) (simp add: stat_ok_def)
  have t: "stat_type (ucast (c_mode h)) = and (c_mode h) CP_IFMT" using assms(1) by (simp add: stat_type_def m stat_ok_def Let_def)
  have d: "ucast (c_major (hdr_dev h)) = c_dev_maj h" "ucast (c_minor (hdr_dev h)) = c_dev_min h"
    "ucast (c_major (hdr_rdev h)) = c_rdev_maj h" "ucast (c_minor (hdr_rdev h)) = c_rdev_min h"
    using assms(1) by (simp_all add: hdr_dev_def hdr_rdev_def makedev_numbers ucast_down_up stat_ok_def)
  have i: "ucast (ucast (c_uid h) :: 32 word) = c_uid h" "ucast (ucast (c_gid h) :: 32 word) = c_gid h"
    using assms(1) by (simp_all add: ucast_down_up stat_ok_def)
  have s: "taru_hdr_get_filesize h = Some (sint (c_filesize h))" using assms(1) by (intro filesize_ok) (simp add: stat_ok_def)
  have l: "\<not> (and (c_mode h) CP_IFMT = CP_IFLNK \<and> Some (ahsStaticGetTarLinkname h) = Some [])" using assms(5) by auto
  have ms: "or (and (c_mode h) 0xFFF) (and (c_mode h) CP_IFMT) = c_mode h" using assms(1) by (intro mode_split) (simp add: stat_ok_def)
  show ?thesis
    using assms(2-4) s l ms
    by (auto simp: taru_filehdr2statbuf_def taru_statbuf2filehdr_def Let_def m t d i ahs_name_defs)
qed

text \<open>the policies are confused: for a header whose user is to be looked up by name and whose group is not, the
  status gets the group by its name and the user by the number.\<close>

theorem owner_policies_swapped:
  assumes "c_cu h = TARU_C_BY_UNAME" "c_cg h \<noteq> TARU_C_BY_UNAME" "unat (c_filesize h) < 2 ^ 63 - 1"
    "taru_get_gid_by_name (groupdb w) (groupcache w) (ahsStaticGetTarGroupname h) = Some (0, Some gid, c)"
  shows "\<exists>st. taru_filehdr2statbuf w now h = Some (st, w\<lparr>groupcache := c\<rparr>) \<and> st_gid st = gid \<and> st_uid st = ucast (c_uid h)"
  using assms filesize_ok [OF assms(3)] by (auto simp: taru_filehdr2statbuf_def Let_def)

section \<open>The properties at concrete inputs\<close>

theorem statbuf_roundtrip_witness:
  "\<forall>w now h0. \<exists>st h'. taru_filehdr2statbuf w now (cpio_header\<lparr>c_dev_maj := 0x12345, c_dev_min := 0x6789A\<rparr>) = Some (st, w) \<and>
    taru_statbuf2filehdr (\<lambda>_. None) h0 st None (Some ''etc/hosts'') (Some []) 101 = Some (0, h', Some []) \<and>
    c_mode h' = 0x81A4 \<and> c_filesize h' = 3 \<and> c_dev_maj h' = 0x12345 \<and> c_dev_min h' = 0x6789A"
proof (intro allI)
  fix w now h0
  let ?h = "cpio_header\<lparr>c_dev_maj := 0x12345, c_dev_min := 0x6789A\<rparr>"
  have n: "ahsStaticGetTarFilename ?h = ''etc/hosts''" "ahsStaticGetTarLinkname ?h = []"
    by (simp_all add: cpio_header_def zero_mem_def ahs_name_defs)
  have f: "c_cu ?h \<noteq> TARU_C_BY_UNAME" "c_cg ?h \<noteq> TARU_C_BY_UNAME" "and (c_mode ?h) CP_IFMT \<noteq> CP_IFLNK" "stat_ok ?h"
    by (simp_all add: cpio_header_def zero_mem_def stat_ok_def)
  have c: "c_mode ?h = 0x81A4" "c_filesize ?h = 3" "c_dev_maj ?h = 0x12345" "c_dev_min ?h = 0x6789A"
    by (simp_all add: cpio_header_def)
  show "\<exists>st h'. taru_filehdr2statbuf w now ?h = Some (st, w) \<and>
    taru_statbuf2filehdr (\<lambda>_. None) h0 st None (Some ''etc/hosts'') (Some []) 101 = Some (0, h', Some []) \<and>
    c_mode h' = 0x81A4 \<and> c_filesize h' = 3 \<and> c_dev_maj h' = 0x12345 \<and> c_dev_min h' = 0x6789A"
    using statbuf_roundtrip [of ?h w now "\<lambda>_. None" h0 101, OF f(4,1,2)] f(3) n c by auto
qed

text \<open>A header whose user is looked up by name.\<close>

definition named_user_header :: new_cpio_header where
  "named_user_header = cpio_header\<lparr>c_cu := TARU_C_BY_UNAME, c_uid := 7, c_gid := 8, c_username := Some ''root'', c_groupname := Some ''root''\<rparr>"

definition root_owners :: owners where
  "root_owners = \<lparr>userdb = root_db, groupdb = root_db, usercache = dbcache_init, groupcache = dbcache_init, uid_sub = (0, False),
     gid_sub = (0, False)\<rparr>"

theorem owner_policies_swapped_witness:
  "\<exists>st c. taru_filehdr2statbuf root_owners 0 named_user_header = Some (st, root_owners\<lparr>groupcache := c\<rparr>) \<and> st_gid st = 0 \<and> st_uid st = 7"
proof -
  obtain c where c: "taru_get_gid_by_name root_db dbcache_init ''root'' = Some (0, Some 0, c)"
  proof -
    have "(case taru_get_gid_by_name root_db dbcache_init ''root'' of Some (r, Some g, c) \<Rightarrow> r = 0 \<and> g = 0 | _ \<Rightarrow> False)"
      unfolding root_db_def by code_simp
    then show thesis using that by (auto split: option.splits)
  qed
  have h: "c_cu named_user_header = TARU_C_BY_UNAME" "c_cg named_user_header \<noteq> TARU_C_BY_UNAME"
    "unat (c_filesize named_user_header) < 2 ^ 63 - 1" "ahsStaticGetTarGroupname named_user_header = ''root''"
    "c_uid named_user_header = 7"
    by (simp_all add: named_user_header_def cpio_header_def zero_mem_def ahs_name_defs)
  show ?thesis
    using owner_policies_swapped [OF h(1-3), of root_owners 0 c 0] c h(4,5) by (auto simp: root_owners_def)
qed

end
