(* ===== verification/Hllist.thy ===== *)
theory Hllist
  imports Cplob
begin

text \<open>
  The hard-link record of \<open>swsupplib/taru/hllist.c\<close>: a NULL terminated list of (path, device,
  inode) entries with two switches that disable adding and finding.
\<close>

record hllist_entry =
  path_of :: string
  dev_of :: int
  ino_of :: int
  v_dev_of :: int
  v_ino_of :: int

record hllist =
  disable_find :: bool
  disable_add :: bool
  hl_list :: "hllist_entry cplob"

definition hllist_open :: "hllist option" where
  "hllist_open = do {
     l \<leftarrow> cplob_open 8;
     l \<leftarrow> cplob_additem l 0 None;
     Some \<lparr>disable_find = False, disable_add = False, hl_list = l\<rparr> }"

definition hllist_add_vrecord ::
  "hllist \<Rightarrow> string \<Rightarrow> int \<Rightarrow> int \<Rightarrow> int \<Rightarrow> int \<Rightarrow> hllist option" where
  "hllist_add_vrecord h path dev ino v_dev v_ino =
     (if disable_add h then Some h
      else do {
        let en = \<lparr>path_of = path, dev_of = dev, ino_of = ino, v_dev_of = v_dev, v_ino_of = v_ino\<rparr>;
        lob \<leftarrow> cplob_additem (hl_list h) (cplob_get_nused (hl_list h) - 1) (Some en);
        lob \<leftarrow> cplob_additem lob (cplob_get_nused lob) None;
        Some (h\<lparr>hl_list := lob\<rparr>) })"

definition hllist_add_record :: "hllist \<Rightarrow> string \<Rightarrow> int \<Rightarrow> int \<Rightarrow> hllist option" where
  "hllist_add_record h path dev ino =
     (if disable_add h then Some h else hllist_add_vrecord h path dev ino 0 0)"

text \<open>The loop of \<open>hllist_find_file_entry\<close>: \<open>nfound\<close> is counted up from the caller's value and the
  scan returns at the wanted occurrence. The second result is the value left in \<open>*nfound\<close>.\<close>

definition find_body ::
  "int \<Rightarrow> int \<Rightarrow> int \<Rightarrow> hllist_entry \<Rightarrow> hllist_entry option \<times> int \<Rightarrow>
   (hllist_entry option \<times> int) + (hllist_entry option \<times> int)" where
  "find_body dev ino occurance en s =
     (if ino_of en = ino \<and> dev_of en = dev then
        (let nfound = snd s + 1
         in if occurance > 0 \<and> nfound = occurance then Inl (Some en, nfound)
            else Inr (None, nfound))
      else Inr s)"

definition hllist_find_file_entry ::
  "hllist \<Rightarrow> int \<Rightarrow> int \<Rightarrow> int \<Rightarrow> int \<Rightarrow> (hllist_entry option \<times> int) option" where
  "hllist_find_file_entry h dev ino occurance nfound =
     (if disable_find h then Some (None, nfound)
      else nta_scan (cplob_val (hl_list h)) 0 (find_body dev ino occurance) (None, nfound))"

definition hllist_disable_add :: "hllist \<Rightarrow> hllist" where
  "hllist_disable_add h = h\<lparr>disable_add := True\<rparr>"

definition hllist_disable_find :: "hllist \<Rightarrow> hllist" where
  "hllist_disable_find h = h\<lparr>disable_find := True\<rparr>"

definition hllist_clear_entries_and_disable :: "hllist \<Rightarrow> hllist option" where
  "hllist_clear_entries_and_disable h = do {
     l \<leftarrow> cplob_open 8;
     l \<leftarrow> cplob_additem l 0 None;
     Some (h\<lparr>hl_list := l, disable_find := True\<rparr>) }"

section \<open>The list as a sequence of entries\<close>

definition hl_inv :: "hllist \<Rightarrow> bool" where
  "hl_inv h \<longleftrightarrow> nta_inv (hl_list h) \<and> nused (hl_list h) \<noteq> 0"

definition hl_entries :: "hllist \<Rightarrow> hllist_entry list" where
  "hl_entries h = nta_elems (hl_list h)"

definition matches :: "int \<Rightarrow> int \<Rightarrow> hllist_entry \<Rightarrow> bool" where
  "matches dev ino en \<longleftrightarrow> ino_of en = ino \<and> dev_of en = dev"


text \<open>The open writes the terminating NULL as an item, so the count starts at one; the pair of
  \<open>cplob_additem\<close> calls of an addition then overwrites the NULL and appends a new one.\<close>

lemma hllist_open_ok: "\<exists>h. hllist_open = Some h \<and> hl_inv h \<and> hl_entries h = [] \<and>
    \<not> disable_add h \<and> \<not> disable_find h"
proof -
  have "(hllist_open :: hllist option) = Some \<lparr>disable_find = False, disable_add = False,
      hl_list = \<lparr>cp_list = replicate 8 None, nlen = 8, nused = 1, refcountM = 0\<rparr>\<rparr>"
    by code_simp
  moreover have "hl_inv \<lparr>disable_find = False, disable_add = False,
      hl_list = \<lparr>cp_list = replicate 8 None, nlen = 8, nused = 1, refcountM = 0\<rparr>\<rparr>"
    by (simp add: hl_inv_def nta_inv_def)
  ultimately show ?thesis by (force simp: hl_entries_def nta_elems_def)
qed

lemma cplob_additem_pair_ok:
  assumes "nta_inv lob" "nused lob \<noteq> 0"
  shows "\<exists>lob'. do { l \<leftarrow> cplob_additem lob (nused lob - 1) (Some x); cplob_additem l (nused l) None } = Some lob' \<and>
     nta_inv lob' \<and> nused lob' \<noteq> 0 \<and> nta_elems lob' = nta_elems lob @ [x]"
proof -
  define k where "k = length (nta_elems lob)"
  have w: "nused lob = int k + 1" "int k + 1 \<le> nlen lob" "nlen lob \<le> int (length (cp_list lob))"
    using assms nta_elems_length [OF assms(1)] by (auto simp: nta_inv_def k_def)
  define l1 where "l1 = lob\<lparr>cp_list := (cp_list lob)[k := Some x]\<rparr>"
  have first: "cplob_additem lob (nused lob - 1) (Some x) = Some l1"
    using w by (auto simp: cplob_additem_def cell_write_def l1_def)
  obtain xs m where xs: "int k + 2 \<le> m" "m \<le> int (length xs)"
    "\<And>j. j \<le> k \<Longrightarrow> xs ! j = cp_list l1 ! j"
    "cplob_additem l1 (nused l1) None = Some (l1\<lparr>cp_list := xs[Suc k := None], nlen := m, nused := int k + 2\<rparr>)"
  proof (cases "int k + 2 > nlen lob")
    case False
    then show thesis
      using w by (intro that [of "nlen lob" "cp_list l1"])
        (auto simp: cplob_additem_def cell_write_def l1_def nat_add_distrib)
  next
    case True
    obtain xs where "cplob_reopen (int k + 10) l1
          = Some (l1\<lparr>cp_list := xs, nlen := max (nlen l1) (int k + 10)\<rparr>)"
      "max (nlen l1) (int k + 10) \<le> int (length xs)"
      "\<And>j. int j < nlen l1 \<Longrightarrow> xs ! j = cp_list l1 ! j"
      by (rule cplob_reopen_ok [of l1 "int k + 10"]) (use w in \<open>auto simp: l1_def\<close>)
    then show thesis
      using w True by (intro that [of "max (nlen l1) (int k + 10)" xs])
        (auto simp: cplob_additem_def cell_write_def l1_def nat_add_distrib CPLOB_NLENGTHINCR_def add.commute)
  qed
  let ?l = "l1\<lparr>cp_list := xs[Suc k := None], nlen := m, nused := int k + 2\<rparr>"
  have "nta_inv ?l \<and> nta_elems ?l = nta_elems lob @ [x]"
  proof (rule nta_invI)
    show "cp_list ?l ! i = Some ((nta_elems lob @ [x]) ! i)" if "i < length (nta_elems lob @ [x])" for i
      using that xs(3) [of i] w nta_elems_nth [OF assms(1), of i]
      by (cases "i = k") (auto simp: l1_def k_def nth_append)
  qed (use xs in \<open>auto simp: k_def\<close>)
  with first xs(4) show ?thesis by auto
qed

lemma hllist_add_ok:
  assumes "hl_inv h" "\<not> disable_add h"
  shows "\<exists>h'. hllist_add_vrecord h path dev ino v_dev v_ino = Some h' \<and> hl_inv h' \<and>
     disable_add h' = disable_add h \<and> disable_find h' = disable_find h \<and>
     hl_entries h' = hl_entries h @ [\<lparr>path_of = path, dev_of = dev, ino_of = ino, v_dev_of = v_dev, v_ino_of = v_ino\<rparr>]"
  using assms cplob_additem_pair_ok [of "hl_list h"
      "\<lparr>path_of = path, dev_of = dev, ino_of = ino, v_dev_of = v_dev, v_ino_of = v_ino\<rparr>"]
  by (auto simp: hllist_add_vrecord_def hl_inv_def hl_entries_def cplob_get_nused_def bind_iff)

lemma find_body_matches: "find_body dev ino occ e s =
    (if matches dev ino e then
       (if 0 < occ \<and> snd s + 1 = occ then Inl (Some e, snd s + 1) else Inr (None, snd s + 1))
     else Inr s)"
  by (simp add: find_body_def matches_def Let_def)

lemma list_scan_find:
  assumes "s = (None, nf)"
  shows "list_scan (find_body dev ino occ) es s =
    (let ms = filter (matches dev ino) es
     in if 0 < occ \<and> nf < occ \<and> occ \<le> nf + int (length ms)
        then (Some (ms ! nat (occ - nf - 1)), occ)
        else (None, nf + int (length ms)))"
  using assms
proof (induction es arbitrary: s nf)
  case Nil
  then show ?case by simp
next
  case (Cons e es)
  show ?case
  proof (cases "matches dev ino e")
    case False
    with Cons show ?thesis by (simp add: find_body_matches)
  next
    case m: True
    show ?thesis
    proof (cases "0 < occ \<and> nf + 1 = occ")
      case True
      with m Cons.prems show ?thesis by (auto simp: find_body_matches)
    next
      case False
      have "list_scan (find_body dev ino occ) (e # es) s = list_scan (find_body dev ino occ) es (None, nf + 1)"
        using m False Cons.prems by (auto simp: find_body_matches)
      moreover have "nat (occ - nf - 1) = Suc (nat (occ - (nf + 1) - 1))" if "nf + 1 < occ"
        using that by simp
      ultimately show ?thesis
        using Cons.IH [of "(None, nf + 1)" "nf + 1"] m False by (auto simp: Let_def)
    qed
  qed
qed


interpretation hl: nta_list "\<lambda>h. hl_inv h \<and> \<not> disable_add h" hl_entries
  "\<lambda>h. cplob_val (hl_list h)"
  "\<lambda>h e. hllist_add_vrecord h (path_of e) (dev_of e) (ino_of e) (v_dev_of e) (v_ino_of e)"
  using hllist_add_ok
  by unfold_locales (fastforce simp: hl_inv_def hl_entries_def cplob_val_elem cplob_val_end)+

text \<open>C34: the lookup of a hard link.\<close>

theorem hllist_find_file_entry_nth:
  assumes "hl_inv h" "\<not> disable_find h"
  shows "hllist_find_file_entry h dev ino occ nf =
    (let ms = filter (matches dev ino) (hl_entries h)
     in Some (if 0 < occ \<and> nf < occ \<and> occ \<le> nf + int (length ms)
              then (Some (ms ! nat (occ - nf - 1)), occ)
              else (None, nf + int (length ms))))"
  using assms
  by (simp add: hllist_find_file_entry_def hl_inv_def hl_entries_def cplob_scan_all
      list_scan_find [OF refl] Let_def)

section \<open>The properties at concrete inputs\<close>

theorem hllist_find_file_entry_nth_witness:
  "\<exists>h e. do { h \<leftarrow> hllist_open; h \<leftarrow> hllist_add_vrecord h ''a'' 1 7 0 0; hllist_add_vrecord h ''b'' 1 7 0 0 } = Some h \<and>
     hllist_find_file_entry h 1 7 2 0 = Some (Some e, 2) \<and> path_of e = ''b''"
proof -
  obtain h0 where h0: "hllist_open = Some h0" "hl_inv h0" "hl_entries h0 = []" "\<not> disable_add h0" "\<not> disable_find h0"
    using hllist_open_ok by blast
  obtain h1 where h1: "hllist_add_vrecord h0 ''a'' 1 7 0 0 = Some h1" "hl_inv h1" "\<not> disable_add h1" "\<not> disable_find h1"
    "hl_entries h1 = [\<lparr>path_of = ''a'', dev_of = 1, ino_of = 7, v_dev_of = 0, v_ino_of = 0\<rparr>]"
    using hllist_add_ok [OF h0(2,4)] h0(3,4,5) by fastforce
  obtain h2 where h2: "hllist_add_vrecord h1 ''b'' 1 7 0 0 = Some h2" "hl_inv h2" "\<not> disable_find h2"
    "hl_entries h2 = [\<lparr>path_of = ''a'', dev_of = 1, ino_of = 7, v_dev_of = 0, v_ino_of = 0\<rparr>,
      \<lparr>path_of = ''b'', dev_of = 1, ino_of = 7, v_dev_of = 0, v_ino_of = 0\<rparr>]"
    using hllist_add_ok [OF h1(2,3)] h1(4,5) by fastforce
  have "hllist_find_file_entry h2 1 7 2 0
      = Some (Some \<lparr>path_of = ''b'', dev_of = 1, ino_of = 7, v_dev_of = 0, v_ino_of = 0\<rparr>, 2)"
    using hllist_find_file_entry_nth [OF h2(2,3), of 1 7 2 0] h2(4) by (simp add: matches_def)
  then show ?thesis
    by (intro exI [of _ h2] exI conjI) (simp_all only: h0(1) h1(1) h2(1) Option.bind.bind_lunit, simp)
qed

end
