(* ===== verification/Porinode.thy ===== *)
theory Porinode
  imports Hllist
begin

text \<open>
  \<open>swsupplib/taru/porinode.c\<close>: the virtual device and inode numbers that stand for the real ones in cpio
  archives. The two numbers are counted up together like the digits of a number; the hard links of one
  file share a pair, which is kept in a hard link table.
\<close>

section \<open>The allocator\<close>

definition PORINODE_MAX :: int where "PORINODE_MAX = 0xFFFF - 1"

record porinode =
  current_inodeM :: int
  current_deviceM :: int
  max_inodeM :: int
  max_deviceM :: int
  hllistM :: hllist

definition porinode_open :: "porinode option" where
  "porinode_open = do {
     l \<leftarrow> hllist_open;
     Some \<lparr>current_inodeM = 1, current_deviceM = 1, max_inodeM = PORINODE_MAX, max_deviceM = PORINODE_MAX, hllistM = l\<rparr> }"

text \<open>The next pair. When the numbers are used up a message is printed and the inode number goes on
  growing.\<close>

definition porinode_i_get_next_vinode :: "porinode \<Rightarrow> (int \<times> int) \<times> porinode" where
  "porinode_i_get_next_vinode p =
     (let p = (if current_inodeM p \<ge> max_inodeM p - 1
               then (if current_deviceM p \<ge> max_deviceM p then p
                     else p\<lparr>current_deviceM := current_deviceM p + 1, current_inodeM := 0\<rparr>)
               else p);
          p = p\<lparr>current_inodeM := current_inodeM p + 1\<rparr>
      in ((current_deviceM p, current_inodeM p), p))"

definition porinode_add_vrecord :: "porinode \<Rightarrow> string \<Rightarrow> int \<Rightarrow> int \<Rightarrow> int \<Rightarrow> int \<Rightarrow> porinode option" where
  "porinode_add_vrecord p path dev ino v_dev v_ino = do {
     l \<leftarrow> hllist_add_vrecord (hllistM p) path dev ino v_dev v_ino;
     Some (p\<lparr>hllistM := l\<rparr>) }"

text \<open>The result is the pair \<open>(*p_dev, *p_ino)\<close>.\<close>

definition porinode_make_next_inode :: "porinode \<Rightarrow> int \<Rightarrow> int \<Rightarrow> int \<Rightarrow> ((int \<times> int) \<times> porinode) option" where
  "porinode_make_next_inode p nlinks dev ino =
     (if nlinks < 2 then Some (porinode_i_get_next_vinode p)
      else do {
        (link_record_buf, nfound) \<leftarrow> hllist_find_file_entry (hllistM p) dev ino 1 0;
        if nfound = 0 then do {
          let (v, p) = porinode_i_get_next_vinode p;
          p \<leftarrow> porinode_add_vrecord p [] dev ino (fst v) (snd v);
          Some (v, p) }
        else do {
          en \<leftarrow> link_record_buf;
          Some ((v_dev_of en, v_ino_of en), p) } })"

text \<open>A run of requests for the members of an archive, each with its link count and its real numbers.\<close>

fun make_inodes :: "porinode \<Rightarrow> (int \<times> int \<times> int) list \<Rightarrow> ((int \<times> int) list \<times> porinode) option" where
  "make_inodes p [] = Some ([], p)"
| "make_inodes p ((nlinks, dev, ino) # rs) = do {
     (v, p) \<leftarrow> porinode_make_next_inode p nlinks dev ino;
     (vs, p) \<leftarrow> make_inodes p rs;
     Some (v # vs, p) }"

section \<open>The pairs are unique\<close>

text \<open>The pairs grow in lexicographic order, so what was given out lies below the current pair.\<close>

definition issued :: "porinode \<Rightarrow> int \<times> int \<Rightarrow> bool" where
  "issued p v \<longleftrightarrow> fst v < current_deviceM p \<or> fst v = current_deviceM p \<and> snd v \<le> current_inodeM p"

text \<open>The table maps each pair of real numbers to one pair that was given out, different ones to different ones.\<close>

definition real_of :: "hllist_entry \<Rightarrow> int \<times> int" where "real_of en = (dev_of en, ino_of en)"
definition virtual_of :: "hllist_entry \<Rightarrow> int \<times> int" where "virtual_of en = (v_dev_of en, v_ino_of en)"

definition porinode_inv :: "porinode \<Rightarrow> bool" where
  "porinode_inv p \<longleftrightarrow> hl_inv (hllistM p) \<and> \<not> disable_add (hllistM p) \<and> \<not> disable_find (hllistM p) \<and>
     distinct (map real_of (hl_entries (hllistM p))) \<and> distinct (map virtual_of (hl_entries (hllistM p))) \<and>
     (\<forall>en \<in> set (hl_entries (hllistM p)). issued p (virtual_of en))"

lemma porinode_open_inv: "\<exists>p. porinode_open = Some p \<and> porinode_inv p \<and> hl_entries (hllistM p) = []"
proof -
  obtain l where l: "hllist_open = Some l" "hl_inv l" "hl_entries l = []" "\<not> disable_add l" "\<not> disable_find l"
    using hllist_open_ok by blast
  let ?p = "\<lparr>current_inodeM = 1, current_deviceM = 1, max_inodeM = PORINODE_MAX, max_deviceM = PORINODE_MAX, hllistM = l\<rparr>"
  have "porinode_open = Some ?p" by (simp only: porinode_open_def l(1) Option.bind.bind_lunit)
  moreover have "porinode_inv ?p" using l by (simp add: porinode_inv_def)
  ultimately show ?thesis using l(3) by (intro exI [of _ ?p]) simp
qed

lemma next_vinode:
  assumes "porinode_i_get_next_vinode p = (v, p')"
  shows "hllistM p' = hllistM p" "issued p' v" "\<not> issued p v" "issued p u \<Longrightarrow> issued p' u"
  using assms by (auto simp: porinode_i_get_next_vinode_def issued_def Let_def split: if_splits)

lemma find_first_entry:
  assumes "porinode_inv p"
  shows "hllist_find_file_entry (hllistM p) dev ino 1 0 =
    (case filter (\<lambda>en. real_of en = (dev, ino)) (hl_entries (hllistM p)) of
       [] \<Rightarrow> Some (None, 0) | en # _ \<Rightarrow> Some (Some en, 1))"
proof -
  have m: "matches dev ino = (\<lambda>en. real_of en = (dev, ino))" by (auto simp: matches_def real_of_def fun_eq_iff)
  show ?thesis
    using assms
    by (auto simp: hllist_find_file_entry_def porinode_inv_def hl_inv_def hl_entries_def cplob_scan_all
      list_scan_find [OF refl] m Let_def split: list.split)
qed


text \<open>What is already settled for a request: its pair, if it has been given one as a hard link.\<close>

type_synonym request = "int \<times> int \<times> int"

definition known :: "porinode \<Rightarrow> request \<Rightarrow> (int \<times> int) option" where
  "known p r = (if fst r < 2 then None
     else map_of (map (\<lambda>en. (real_of en, virtual_of en)) (hl_entries (hllistM p))) (snd r))"

text \<open>Two requests are for the same file when both are for hard links and their real numbers agree.\<close>

definition linked :: "request \<Rightarrow> request \<Rightarrow> bool" where
  "linked r r' \<longleftrightarrow> 2 \<le> fst r \<and> 2 \<le> fst r' \<and> snd r = snd r'"

lemma map_of_filter_first:
  "map_of (map (\<lambda>x. (f x, g x)) xs) k = (case filter (\<lambda>x. f x = k) xs of [] \<Rightarrow> None | x # _ \<Rightarrow> Some (g x))"
  by (induction xs) auto

lemma known_issued: "porinode_inv p \<Longrightarrow> known p r = Some v \<Longrightarrow> issued p v"
  by (auto simp: known_def porinode_inv_def split: if_splits dest!: map_of_SomeD)

lemma known_linked: "linked r r' \<Longrightarrow> known p r = known p r'"
  by (simp add: known_def linked_def)

lemma known_inject:
  assumes "porinode_inv p" "known p r = Some v" "known p r' = Some v"
  shows "linked r r'"
proof -
  let ?es = "hl_entries (hllistM p)"
  obtain e e' where e: "e \<in> set ?es" "e' \<in> set ?es" "real_of e = snd r" "real_of e' = snd r'" "virtual_of e = v" "virtual_of e' = v"
    using assms(2,3) by (auto simp: known_def split: if_splits dest!: map_of_SomeD)
  have "inj_on virtual_of (set ?es)" using assms(1) by (simp add: porinode_inv_def distinct_map)
  then have "e = e'" using e by (auto dest: inj_onD)
  then show ?thesis using e assms(2,3) by (auto simp: linked_def known_def split: if_splits)
qed

lemma make_next_inode_ok:
  assumes "porinode_inv p" "r = (n, dev, ino)"
  shows "\<exists>v p'. porinode_make_next_inode p n dev ino = Some (v, p') \<and> porinode_inv p' \<and>
     (known p r = Some v \<and> p' = p \<or>
      known p r = None \<and> \<not> issued p v \<and> issued p' v \<and> (\<forall>u. issued p u \<longrightarrow> issued p' u) \<and>
      (\<forall>r'. known p' r' = (if linked r r' then Some v else known p r')))"
proof -
  let ?es = "hl_entries (hllistM p)"
  obtain v p1 where n1: "porinode_i_get_next_vinode p = (v, p1)" by (cases "porinode_i_get_next_vinode p")
  note nv = next_vinode [OF n1]
  have i1: "porinode_inv p1" using assms(1) nv by (auto simp: porinode_inv_def)
  have k1: "known p1 r' = known p r'" for r' using nv(1) by (simp add: known_def)
  show ?thesis
  proof (cases "n < 2")
    case True
    then show ?thesis using n1 nv i1 k1 assms(2) by (auto simp: porinode_make_next_inode_def known_def linked_def)
  next
    case False
    show ?thesis
    proof (cases "filter (\<lambda>en. real_of en = (dev, ino)) ?es")
      case (Cons en es)
      then have "known p r = Some (virtual_of en)" using False assms(2) by (simp add: known_def map_of_filter_first)
      then show ?thesis
        using False Cons assms(1) find_first_entry [OF assms(1), of dev ino]
        by (auto simp: porinode_make_next_inode_def virtual_of_def)
    next
      case Nil
      then have kn: "known p r = None" using False assms(2) by (simp add: known_def map_of_filter_first)
      obtain dv iv where v: "v = (dv, iv)" by force
      let ?en = "\<lparr>path_of = [], dev_of = dev, ino_of = ino, v_dev_of = dv, v_ino_of = iv\<rparr>"
      obtain l where l: "hllist_add_vrecord (hllistM p1) [] dev ino dv iv = Some l" "hl_inv l" "\<not> disable_add l" "\<not> disable_find l"
        "hl_entries l = ?es @ [?en]"
        using hllist_add_ok [of "hllistM p1" "[]" dev ino dv iv] i1 nv(1) by (auto simp: porinode_inv_def)
      let ?p = "p1\<lparr>hllistM := l\<rparr>"
      have iss: "issued ?p u = issued p1 u" for u by (simp add: issued_def)
      have en: "virtual_of ?en = v" "real_of ?en = (dev, ino)" by (simp_all add: virtual_of_def real_of_def v)
      have fr: "(dev, ino) \<notin> real_of ` set ?es" using Nil by (auto simp: filter_empty_conv)
      have "porinode_inv ?p"
        using assms(1) l(2-5) nv en fr iss by (auto simp: porinode_inv_def)
      moreover have "known ?p r' = (if linked r r' then Some v else known p r')" for r'
        using l(5) en kn assms(2) False by (auto simp: known_def linked_def map_add_def split: option.splits)
      moreover have "porinode_make_next_inode p n dev ino = Some (v, ?p)"
        using False Nil find_first_entry [OF assms(1), of dev ino] n1 l(1)
        by (simp add: porinode_make_next_inode_def porinode_add_vrecord_def v)
      ultimately show ?thesis using kn nv iss by auto
    qed
  qed
qed

lemma make_inodes_ok:
  assumes "porinode_inv p"
  shows "\<exists>vs p'. make_inodes p rs = Some (vs, p') \<and> length vs = length rs \<and>
     (\<forall>i < length rs. case known p (rs ! i) of Some v \<Rightarrow> vs ! i = v | None \<Rightarrow> \<not> issued p (vs ! i)) \<and>
     (\<forall>i j. i < j \<longrightarrow> j < length rs \<longrightarrow> vs ! i = vs ! j \<longleftrightarrow> linked (rs ! i) (rs ! j))"
  using assms
proof (induction rs arbitrary: p)
  case Nil
  then show ?case by simp
next
  case (Cons r rs)
  obtain n dev ino where r: "r = (n, dev, ino)" by (cases r)
  obtain v p' where st: "porinode_make_next_inode p n dev ino = Some (v, p')" "porinode_inv p'"
     "known p r = Some v \<and> p' = p \<or>
      known p r = None \<and> \<not> issued p v \<and> issued p' v \<and> (\<forall>u. issued p u \<longrightarrow> issued p' u) \<and>
      (\<forall>r'. known p' r' = (if linked r r' then Some v else known p r'))"
    using make_next_inode_ok [OF Cons.prems r] by blast
  obtain vs p'' where IH: "make_inodes p' rs = Some (vs, p'')" "length vs = length rs"
     "\<And>i. i < length rs \<Longrightarrow> (case known p' (rs ! i) of Some v \<Rightarrow> vs ! i = v | None \<Rightarrow> \<not> issued p' (vs ! i))"
     "\<And>i j. i < j \<Longrightarrow> j < length rs \<Longrightarrow> vs ! i = vs ! j \<longleftrightarrow> linked (rs ! i) (rs ! j)"
    using Cons.IH [OF st(2)] by blast
  have later: "case known p (rs ! i) of Some u \<Rightarrow> vs ! i = u | None \<Rightarrow> \<not> issued p (vs ! i)" if "i < length rs" for i
  proof (cases "known p (rs ! i)")
    case (Some u)
    then have "known p' (rs ! i) = Some u" using st(3) known_linked [of r "rs ! i" p] by (auto simp del: split_paired_All)
    then show ?thesis using Some IH(3) [OF that] by simp
  next
    case None
    then have "known p' (rs ! i) = None \<or> known p' (rs ! i) = Some v \<and> \<not> issued p v"
      using st(3) by (auto simp del: split_paired_All split: if_splits)
    then show ?thesis using None st(3) IH(3) [OF that] by (auto simp del: split_paired_All)
  qed
  have same: "v = vs ! j \<longleftrightarrow> linked r (rs ! j)" if "j < length rs" for j
    using st(3)
  proof
    assume k: "known p r = Some v \<and> p' = p"
    then show ?thesis
      using IH(3) [OF that] known_linked [of r "rs ! j" p] known_inject [OF Cons.prems, of r v "rs ! j"]
        known_issued [OF Cons.prems, of r v] by (auto split: option.splits)
  next
    assume new: "known p r = None \<and> \<not> issued p v \<and> issued p' v \<and> (\<forall>u. issued p u \<longrightarrow> issued p' u) \<and>
      (\<forall>r'. known p' r' = (if linked r r' then Some v else known p r'))"
    then have "known p' (rs ! j) = (if linked r (rs ! j) then Some v else known p (rs ! j))" by blast
    then show ?thesis
      using new IH(3) [OF that] known_issued [OF Cons.prems, of "rs ! j"]
      by (cases "known p (rs ! j)") (auto simp del: split_paired_All split: if_splits)
  qed
  have "make_inodes p (r # rs) = Some (v # vs, p'')" using r st(1) IH(1) by simp
  moreover have "case known p ((r # rs) ! i) of Some u \<Rightarrow> (v # vs) ! i = u | None \<Rightarrow> \<not> issued p ((v # vs) ! i)"
    if "i < length (r # rs)" for i
    using that later [of "i - 1"] st(3) by (cases i) (auto split: option.splits)
  moreover have "(v # vs) ! i = (v # vs) ! j \<longleftrightarrow> linked ((r # rs) ! i) ((r # rs) ! j)"
    if "i < j" "j < length (r # rs)" for i j
    using that same [of "j - 1"] IH(4) [of "i - 1" "j - 1"] by (cases i; cases j) auto
  ultimately show ?case using IH(2) by auto
qed


text \<open>As long as fewer pairs are asked for than there are, both numbers stay inside their 16 bits. \<open>rank\<close> counts
  the pairs up to the current one.\<close>

definition rank :: "porinode \<Rightarrow> int" where
  "rank p = (current_deviceM p - 1) * (PORINODE_MAX - 1) + current_inodeM p"

definition in_space :: "int \<times> int \<Rightarrow> bool" where
  "in_space v \<longleftrightarrow> 1 \<le> fst v \<and> fst v \<le> PORINODE_MAX \<and> 1 \<le> snd v \<and> snd v < PORINODE_MAX"

definition counting :: "porinode \<Rightarrow> bool" where
  "counting p \<longleftrightarrow> max_inodeM p = PORINODE_MAX \<and> max_deviceM p = PORINODE_MAX \<and> in_space (current_deviceM p, current_inodeM p) \<and>
     (\<forall>en \<in> set (hl_entries (hllistM p)). in_space (virtual_of en))"

lemma next_vinode_counting:
  assumes "counting p" "rank p < PORINODE_MAX * (PORINODE_MAX - 1)" "porinode_i_get_next_vinode p = (v, p')"
  shows "counting p'" "in_space v" "rank p' = rank p + 1"
proof -
  have d: "current_deviceM p < PORINODE_MAX" if "\<not> current_inodeM p < PORINODE_MAX - 1"
    using assms(1,2) that by (auto simp: rank_def counting_def in_space_def PORINODE_MAX_def)
  then show "counting p'" "in_space v" "rank p' = rank p + 1"
    using assms(1,3) by (auto simp: porinode_i_get_next_vinode_def counting_def in_space_def rank_def Let_def PORINODE_MAX_def
      split: if_splits)
qed

lemma make_next_inode_counting:
  assumes "porinode_inv p" "counting p" "rank p < PORINODE_MAX * (PORINODE_MAX - 1)"
    "porinode_make_next_inode p n dev ino = Some (v, p')"
  shows "counting p' \<and> in_space v \<and> rank p' \<le> rank p + 1"
proof -
  obtain u p1 where n1: "porinode_i_get_next_vinode p = (u, p1)" by (cases "porinode_i_get_next_vinode p")
  note nv = next_vinode_counting [OF assms(2,3) n1] and same = next_vinode(1) [OF n1]
  show ?thesis
  proof (cases "n < 2")
    case True
    then show ?thesis using assms(4) nv n1 by (simp add: porinode_make_next_inode_def)
  next
    case False
    show ?thesis
    proof (cases "filter (\<lambda>en. real_of en = (dev, ino)) (hl_entries (hllistM p))")
      case (Cons en es)
      then have "en \<in> set (filter (\<lambda>en. real_of en = (dev, ino)) (hl_entries (hllistM p)))" by simp
      then have "in_space (virtual_of en)" using assms(2) by (simp add: counting_def)
      then show ?thesis
        using assms(2,4) False Cons find_first_entry [OF assms(1), of dev ino]
        by (auto simp: porinode_make_next_inode_def virtual_of_def)
    next
      case Nil
      obtain dv iv where u: "u = (dv, iv)" by force
      obtain l where l: "hllist_add_vrecord (hllistM p1) [] dev ino dv iv = Some l"
        "hl_entries l = hl_entries (hllistM p) @ [\<lparr>path_of = [], dev_of = dev, ino_of = ino, v_dev_of = dv, v_ino_of = iv\<rparr>]"
        using hllist_add_ok [of "hllistM p1" "[]" dev ino dv iv] assms(1) same by (auto simp: porinode_inv_def)
      have "v = u" "p' = p1\<lparr>hllistM := l\<rparr>"
        using assms(4) False Nil find_first_entry [OF assms(1), of dev ino] n1 l(1)
        by (auto simp: porinode_make_next_inode_def porinode_add_vrecord_def u)
      then show ?thesis using nv l(2) same by (auto simp: counting_def rank_def virtual_of_def u)
    qed
  qed
qed

lemma make_inodes_counting:
  assumes "porinode_inv p" "counting p" "rank p + int (length rs) \<le> PORINODE_MAX * (PORINODE_MAX - 1)"
    "make_inodes p rs = Some (vs, p')"
  shows "\<forall>v \<in> set vs. in_space v"
  using assms
proof (induction rs arbitrary: p vs)
  case Nil
  then show ?case by simp
next
  case (Cons r rs)
  obtain n dev ino where r: "r = (n, dev, ino)" by (cases r)
  obtain v p1 ws where st: "porinode_make_next_inode p n dev ino = Some (v, p1)" "make_inodes p1 rs = Some (ws, p')" "vs = v # ws"
    using Cons.prems(4) by (auto simp: r bind_Some_iff)
  have i: "porinode_inv p1" using make_next_inode_ok [OF Cons.prems(1) r] st(1) by auto
  have c: "counting p1 \<and> in_space v \<and> rank p1 \<le> rank p + 1"
    by (rule make_next_inode_counting [OF Cons.prems(1,2) _ st(1)]) (use Cons.prems(3) in simp)
  then show ?case using Cons.IH [OF i, of ws] Cons.prems(3) st by simp
qed


section \<open>The property at a concrete input\<close>


end
