(* ===== verification/SwlibPath.thy ===== *)
theory SwlibPath
  imports Strob_Tokens Ahs
begin

text \<open>
  Path names: the functions of \<open>swsupplib/misc/swlib.c\<close> that check, shorten, split, join and compare them. A function
  that only shortens or replaces characters of its argument is a function on strings. The ones that take characters away for
  the time of a comparison and put them back work on the block of their argument, because putting back needs the
  room that was there.
\<close>

section \<open>Checks\<close>

definition SWBIS_TAINTED_CHARS :: string where
  "SWBIS_TAINTED_CHARS = [CHR 0x27, CHR 0x22] @ ''|*?;&<>'' @ [CHR 0x60] @ ''$[]''"

definition SWBIS_WS_TAINTED_CHARS :: string where
  "SWBIS_WS_TAINTED_CHARS = [CHR 0x0A, CHR 0x0D, CHR 0x09, CHR '' '']"

definition strpbrk :: "string \<Rightarrow> string \<Rightarrow> bool" where
  "strpbrk s accept \<longleftrightarrow> (\<exists>c \<in> set s. c \<in> set accept)"

definition swlib_is_sh_tainted_string :: "string option \<Rightarrow> int" where
  "swlib_is_sh_tainted_string s = (case s of None \<Rightarrow> 0 | Some s \<Rightarrow> if strpbrk s SWBIS_TAINTED_CHARS then 1 else 0)"

definition swlib_check_safe_path :: "string option \<Rightarrow> int" where
  "swlib_check_safe_path p = (case p of None \<Rightarrow> 1 | Some s \<Rightarrow>
     if s = [] then 5
     else if substr_index ''..'' s \<noteq> None then 6
     else if CHR '' '' \<in> set s then 7
     else swlib_is_sh_tainted_string (Some s))"

definition swlib_check_clean_path :: "string option \<Rightarrow> int" where
  "swlib_check_clean_path p = (case p of None \<Rightarrow> 1 | Some s \<Rightarrow>
     if s = [] then 2
     else if substr_index ''//'' s \<noteq> None then 3
     else if substr_index ''..'' s \<noteq> None then 4
     else if CHR '' '' \<in> set s then 5
     else if swlib_is_sh_tainted_string (Some s) \<noteq> 0 then 6
     else if strpbrk s SWBIS_WS_TAINTED_CHARS then 7 else 0)"

definition swlib_check_clean_absolute_path :: "string option \<Rightarrow> int" where
  "swlib_check_clean_absolute_path p = (case p of None \<Rightarrow> 1 | Some s \<Rightarrow>
     if s = [] then 2 else if hd s \<noteq> CHR ''/'' then 3 else swlib_check_clean_path (Some s))"

definition swlib_check_clean_relative_path :: "string option \<Rightarrow> int" where
  "swlib_check_clean_relative_path p = (case p of None \<Rightarrow> 1 | Some s \<Rightarrow>
     if s \<noteq> [] \<and> hd s = CHR ''/'' then 2 else swlib_check_clean_path (Some s))"

definition swlib_check_legal_tag_value :: "string option \<Rightarrow> int" where
  "swlib_check_legal_tag_value p = (case p of None \<Rightarrow> 0 | Some s \<Rightarrow> if strpbrk s '':.,'' then 1 else 0)"

text \<open>\<open>char\<close> is signed: a byte above 127 is a negative number and also below 33.\<close>

definition swlib_printable_safe_ascii :: "string option \<Rightarrow> string option" where
  "swlib_printable_safe_ascii sf =
     map_option (map (\<lambda>c. if (of_char c :: nat) > 126 \<or> (of_char c :: nat) < 33 then CHR ''.'' else c)) sf"

definition swlib_is_ascii_noaccept :: "string option \<Rightarrow> string \<Rightarrow> int \<Rightarrow> int" where
  "swlib_is_ascii_noaccept str acc minlen = (case str of None \<Rightarrow> 1 | Some s \<Rightarrow>
     if int (length s) < minlen then 1
     else if strpbrk s acc then 1
     else if list_ex (\<lambda>c. (of_char c :: nat) > 126 \<or> (of_char c :: nat) < 33) s then 1 else 0)"

text \<open>The string with the replaced characters, and their number.\<close>

definition swlib_tr :: "string \<Rightarrow> char \<Rightarrow> char \<Rightarrow> string \<times> int" where
  "swlib_tr src to from = (map (\<lambda>c. if c = from then to else c) src, int (length (filter (\<lambda>c. c = from) src)))"

definition swlib_squash_illegal_tag_chars :: "string \<Rightarrow> string" where
  "swlib_squash_illegal_tag_chars s = map (\<lambda>c. if c = CHR ''.'' \<or> c = CHR '','' \<or> c = CHR '':'' then CHR ''_'' else c) s"

section \<open>Shortening\<close>

text \<open>The string and the returned number: 0 when a character was taken away.\<close>

definition squash_trailing_char :: "string \<Rightarrow> char \<Rightarrow> int \<Rightarrow> string \<times> int" where
  "squash_trailing_char path ch min_len =
     (if int (length path) > min_len \<and> path \<noteq> [] \<and> last path = ch then (butlast path, 0) else (path, 1))"

definition swlib_squash_trailing_char :: "string \<Rightarrow> char \<Rightarrow> string \<times> int" where
  "swlib_squash_trailing_char path ch = squash_trailing_char path ch 0"

function swlib_squash_all_trailing_vnewline :: "string \<Rightarrow> string" where
  "swlib_squash_all_trailing_vnewline path =
     (let (p, ret) = squash_trailing_char path (CHR 0x0A) 0
      in if ret = 0 then swlib_squash_all_trailing_vnewline (fst (squash_trailing_char p (CHR 0x0D) 0)) else p)"
  by pat_completeness auto

termination
  by (relation "measure length") (auto simp: squash_trailing_char_def split: if_splits)

declare swlib_squash_all_trailing_vnewline.simps [simp del]

definition swlib_squash_trailing_vnewline :: "string \<Rightarrow> string" where
  "swlib_squash_trailing_vnewline path = fst (squash_trailing_char (fst (squash_trailing_char path (CHR 0x0D) 0)) (CHR 0x0A) 0)"

definition swlib_squash_trailing_slash :: "string \<Rightarrow> string" where
  "swlib_squash_trailing_slash path = fst (squash_trailing_char path (CHR ''/'') 1)"

definition swlib_squash_embedded_dot_slash :: "string \<Rightarrow> string" where
  "swlib_squash_embedded_dot_slash path = (case substr_index ''/./'' path of
     None \<Rightarrow> path | Some p \<Rightarrow> take (p + 1) path @ drop (p + 3) path)"

lemma substr_index_room: "substr_index pat s = Some i \<Longrightarrow> i + length pat \<le> length s"
proof (induction s arbitrary: i)
  case Nil
  then show ?case by (simp split: if_splits)
next
  case (Cons c s)
  show ?case
  proof (cases "take (length pat) (c # s) = pat")
    case True
    then have "length pat \<le> length (c # s)" by (metis length_take min.absorb_iff2 nat_le_linear min_def)
    then show ?thesis using True Cons.prems by simp
  next
    case False
    then show ?thesis using Cons.prems Cons.IH by auto
  qed
qed

function swlib_squash_double_slash :: "string \<Rightarrow> string" where
  "swlib_squash_double_slash path = (case substr_index ''//'' path of
     None \<Rightarrow> path | Some p \<Rightarrow> swlib_squash_double_slash (take p path @ drop (p + 1) path))"
  by pat_completeness auto

termination
  by (relation "measure length") (auto dest: substr_index_room)

declare swlib_squash_double_slash.simps [simp del]

definition swlib_squash_leading_dot_slash :: "string \<Rightarrow> string" where
  "swlib_squash_leading_dot_slash path = (if length path \<ge> 3 \<and> take 2 path = ''./'' then drop 2 path else path)"

lemma squash_embedded_shorter:
  assumes "substr_index ''/./'' path = Some p"
  shows "length (swlib_squash_embedded_dot_slash path) + 2 = length path"
  using substr_index_room [OF assms] by (simp add: swlib_squash_embedded_dot_slash_def assms)

function squash_dot_slash_loop :: "string \<Rightarrow> string" where
  "squash_dot_slash_loop path = (if substr_index ''/./'' path \<noteq> None
     then squash_dot_slash_loop (swlib_squash_embedded_dot_slash path) else path)"
  by pat_completeness auto

termination
  by (relation "measure length") (auto dest: squash_embedded_shorter)

declare squash_dot_slash_loop.simps [simp del]

definition swlib_squash_all_dot_slash :: "string \<Rightarrow> string" where
  "swlib_squash_all_dot_slash path = squash_dot_slash_loop (swlib_squash_leading_dot_slash path)"

text \<open>The pointer that is returned points into the argument; the result is the string there.\<close>

definition swlib_return_no_leading :: "string \<Rightarrow> string" where
  "swlib_return_no_leading path = (if take 1 path = ''/'' then drop 1 path
     else if take 2 path = ''./'' then drop 2 path else path)"

definition swlib_squash_leading_slash :: "string \<Rightarrow> string" where
  "swlib_squash_leading_slash name = (if take 1 name = ''/'' then drop 1 name else name)"

definition swlib_return_relative_path :: "string \<Rightarrow> string" where
  "swlib_return_relative_path path = dropWhile (\<lambda>c. c = CHR ''/'') path"

lemma squash_leading_slash_shorter [termination_simp]: "swlib_squash_leading_slash (CHR ''/'' # s) = s"
  by (simp add: swlib_squash_leading_slash_def)

fun squash_leading_slashes :: "string \<Rightarrow> string" where
  "squash_leading_slashes [] = []"
| "squash_leading_slashes (c # s) =
     (if c = CHR ''/'' then squash_leading_slashes (swlib_squash_leading_slash (c # s)) else c # s)"

definition swlib_squash_all_leading_slash :: "string option \<Rightarrow> string option" where
  "swlib_squash_all_leading_slash name = (case name of None \<Rightarrow> None | Some name \<Rightarrow>
     (let r = squash_leading_slashes name
      in Some (if take 1 name = ''/'' \<and> length name \<noteq> 0 \<and> length r = 0 then ''.'' else r)))"

definition swlib_slashclean :: "string \<Rightarrow> string" where
  "swlib_slashclean path = swlib_squash_trailing_slash (swlib_squash_leading_dot_slash (swlib_squash_double_slash path))"

section \<open>Splitting and joining\<close>

definition swlib_basename :: "string \<Rightarrow> string" where
  "swlib_basename source =
     (if CHR ''/'' \<notin> set source then source
      else (let s = rev (takeWhile (\<lambda>c. c \<noteq> CHR ''/'') (rev source)) in if s = [] then ''/'' else s))"

definition c_strrchr :: "string \<Rightarrow> char \<Rightarrow> nat option" where
  "c_strrchr s c = (if c \<in> set s then Some (length s - 1 - length (takeWhile (\<lambda>x. x \<noteq> c) (rev s))) else None)"

definition swlib_dirname :: "string \<Rightarrow> string" where
  "swlib_dirname source = (case c_strrchr source (CHR ''/'') of
     None \<Rightarrow> ''.'' | Some s \<Rightarrow> if s \<noteq> 0 then take s source else take (s + 1) source)"

text \<open>The path and the returned number: 1 when a component was cut off.\<close>

definition swlib_unix_dirtrunc :: "string \<Rightarrow> string \<times> int" where
  "swlib_unix_dirtrunc buf =
     (let buf = swlib_squash_all_dot_slash (swlib_squash_trailing_slash buf)
      in case c_strrchr buf (CHR ''/'') of
           None \<Rightarrow> (buf, 0)
         | Some s \<Rightarrow> if s = 0 \<or> s = 1 \<and> hd buf = CHR ''.'' then (buf, 0) else (take s buf, 1))"

fun dirtrunc_loop :: "nat \<Rightarrow> string \<Rightarrow> string \<times> nat" where
  "dirtrunc_loop 0 buf = (buf, 0)"
| "dirtrunc_loop (Suc i) buf =
     (let (buf, ret) = swlib_unix_dirtrunc buf in if ret = 0 then (buf, Suc i) else dirtrunc_loop i buf)"

definition swlib_unix_dirtrunc_n :: "string \<Rightarrow> int \<Rightarrow> string \<times> int" where
  "swlib_unix_dirtrunc_n buf n = (if n > 0 then (let (buf, i) = dirtrunc_loop (nat n) buf in (buf, n - int i)) else (buf, 0))"

definition swlib_unix_dircat :: "string \<Rightarrow> string option \<Rightarrow> string" where
  "swlib_unix_dircat dest dirname = (case dirname of None \<Rightarrow> dest | Some d \<Rightarrow>
     if d = [] then dest
     else (let dest = (if dest \<noteq> [] \<and> last dest \<noteq> CHR ''/'' then dest @ ''/'' else dest);
               newp = (if dest \<noteq> [] then swlib_squash_leading_dot_slash d else d)
           in swlib_squash_double_slash (dest @ newp)))"

definition swlib_add_trailing_slash :: "string \<Rightarrow> string" where
  "swlib_add_trailing_slash path = (if path = [] then ''/'' else if last path \<noteq> CHR ''/'' then path @ ''/'' else path)"

definition swlib_apply_location :: "string \<Rightarrow> string \<Rightarrow> string \<Rightarrow> string" where
  "swlib_apply_location path location directory =
     (if path = [] then []
      else (let clean_path = swlib_return_no_leading path;
                clean_directory = swlib_return_no_leading directory;
                clean_path = (if clean_directory \<noteq> [] \<and> clean_path \<noteq> [] \<and> take (length clean_directory) clean_path = clean_directory
                              then drop (length clean_directory) clean_path else clean_path)
            in swlib_unix_dircat location (Some clean_path)))"

text \<open>The components of a path: \<open>count\<close> and \<open>startnames\<close> are the two variables of the loop.\<close>

fun resolve_loop :: "string list \<Rightarrow> int \<Rightarrow> bool \<Rightarrow> int" where
  "resolve_loop [] count startnames = count"
| "resolve_loop (s # ss) count startnames =
     (if s = ''..'' \<and> \<not> startnames then resolve_loop ss (count + 1) startnames
      else if s = ''.'' then resolve_loop ss count startnames
      else if s = ''..'' \<and> startnames then resolve_loop ss (count - 1) startnames
      else resolve_loop ss (count + 1) True)"

text \<open>The returned number of components, the depth, and the resolved path.\<close>

definition swlib_resolve_path :: "string \<Rightarrow> int \<times> int \<times> string" where
  "swlib_resolve_path ppath =
     (let names = tokens ''/'' (swlib_slashclean ppath)
      in (int (length names), resolve_loop names 0 False, concat (map (\<lambda>s. s @ ''/'') names)))"

section \<open>Taking characters away and putting them back\<close>

text \<open>\<open>memmove\<close> inside a block, and \<open>strcat\<close> on it.\<close>

definition c_memmove :: "block \<Rightarrow> int \<Rightarrow> int \<Rightarrow> int \<Rightarrow> block option" where
  "c_memmove b dst src n =
     (if 0 \<le> src \<and> 0 \<le> n \<and> src + n \<le> int (length b) then mem_write b dst (take (nat n) (drop (nat src) b)) else None)"

definition c_strcat :: "block \<Rightarrow> string \<Rightarrow> block option" where
  "c_strcat b s = do { n \<leftarrow> c_strlen b 0; mem_write b n (s @ [NUL]) }"

definition swlib_toggle_trailing_slashdot :: "string \<Rightarrow> block \<Rightarrow> int \<Rightarrow> (block \<times> int) option" where
  "swlib_toggle_trailing_slashdot mode name pflag =
     (if mode = ''drop'' then do {
        n \<leftarrow> c_strlen name 0;
        if n < 2 then Some (name, 0)
        else if drop (nat (n - 2)) (cstr name) = ''/.'' then do { name \<leftarrow> mem_write name (n - 2) [NUL]; Some (name, 1) }
        else Some (name, pflag) }
      else if pflag \<noteq> 0 then do { name \<leftarrow> c_strcat name ''/.''; Some (name, 0) }
      else Some (name, pflag))"

definition swlib_toggle_leading_dotslash :: "string \<Rightarrow> block \<Rightarrow> int \<Rightarrow> (block \<times> int) option" where
  "swlib_toggle_leading_dotslash mode name pflag =
     (if mode = ''drop'' then do {
        n \<leftarrow> c_strlen name 0;
        if n < 2 then Some (name, 0)
        else if take 2 (cstr name) = ''./'' \<and> n > 2 then do { name \<leftarrow> c_memmove name 0 2 (n - 1); Some (name, 1) }
        else Some (name, 0) }
      else if pflag \<noteq> 0 then do {
        n \<leftarrow> c_strlen name 0;
        if cstr name = ''.'' then do { name \<leftarrow> c_strcat name ''/''; Some (name, pflag) }
        else do { name \<leftarrow> c_memmove name 2 0 (n + 1); name \<leftarrow> mem_write name 0 ''./''; Some (name, 0) } }
      else Some (name, pflag))"

definition swlib_toggle_trailing_slash :: "string \<Rightarrow> block \<Rightarrow> int \<Rightarrow> (block \<times> int) option" where
  "swlib_toggle_trailing_slash mode name pflag = do {
     n \<leftarrow> c_strlen name 0;
     if mode = ''drop'' then
       (if n > 1 \<and> last (cstr name) = CHR ''/'' then do { name \<leftarrow> mem_write name (n - 1) [NUL]; Some (name, 1) }
        else Some (name, 0))
     else if pflag \<noteq> 0 then do { name \<leftarrow> mem_write name n ''/''; Some (name, pflag) }
     else Some (name, pflag) }"

definition swlib_toggle_leading_slash :: "string \<Rightarrow> block \<Rightarrow> int \<Rightarrow> (block \<times> int) option" where
  "swlib_toggle_leading_slash mode name pflag = do {
     n \<leftarrow> c_strlen name 0;
     if mode = ''drop'' then
       (if take 1 (cstr name) = ''/'' \<and> n > 1 then do { name \<leftarrow> c_memmove name 0 1 n; Some (name, 1) }
        else Some (name, 0))
     else if mode = ''restore'' \<and> pflag \<noteq> 0 then do {
       name \<leftarrow> c_memmove name 1 0 (n + 1);
       name \<leftarrow> mem_write name 0 ''/'';
       Some (name, 0) }
     else Some (name, pflag) }"

partial_function (option) all_trailing_slash_loop :: "string \<Rightarrow> block \<Rightarrow> int \<Rightarrow> int \<Rightarrow> (block \<times> int) option" where
  "all_trailing_slash_loop mode name pf pflag =
     (if pf = 0 then Some (name, pflag)
      else do {
        (name, pf) \<leftarrow> swlib_toggle_trailing_slash mode name 0;
        all_trailing_slash_loop mode name pf (pflag + 1) })"

definition swlib_toggle_all_trailing_slash :: "string \<Rightarrow> block \<Rightarrow> (block \<times> int) option" where
  "swlib_toggle_all_trailing_slash mode name = do {
     (name, pf) \<leftarrow> swlib_toggle_trailing_slash mode name 0;
     all_trailing_slash_loop mode name pf 0 }"

section \<open>Comparing\<close>

definition SWC_FC_NOOP :: int where "SWC_FC_NOOP = 0"
definition SWC_FC_NOAB :: int where "SWC_FC_NOAB = 1"

text \<open>\<open>cmp\<close> is \<open>strcmp\<close>. The result holds both arguments as they are afterwards.\<close>

definition swlib_dir_compare :: "(string \<Rightarrow> string \<Rightarrow> int) \<Rightarrow> block \<Rightarrow> block \<Rightarrow> int \<Rightarrow> (block \<times> block \<times> int) option" where
  "swlib_dir_compare cmp s1 s2 FC_compare_flag = do {
     (s1, leading_p1) \<leftarrow> (if FC_compare_flag = SWC_FC_NOAB then swlib_toggle_leading_slash ''drop'' s1 0 else Some (s1, 0));
     (s2, leading_p2) \<leftarrow> (if FC_compare_flag = SWC_FC_NOAB then swlib_toggle_leading_slash ''drop'' s2 0 else Some (s2, 0));
     (s1, trailing_p1) \<leftarrow> swlib_toggle_trailing_slash ''drop'' s1 0;
     (s2, trailing_p2) \<leftarrow> swlib_toggle_trailing_slash ''drop'' s2 0;
     (s1, trailing_d1) \<leftarrow> swlib_toggle_trailing_slashdot ''drop'' s1 0;
     (s2, trailing_d2) \<leftarrow> swlib_toggle_trailing_slashdot ''drop'' s2 0;
     (s1, leading_d1) \<leftarrow> swlib_toggle_leading_dotslash ''drop'' s1 0;
     (s2, leading_d2) \<leftarrow> swlib_toggle_leading_dotslash ''drop'' s2 0;
     _ \<leftarrow> c_strlen s1 0;
     _ \<leftarrow> c_strlen s2 0;
     let ret = cmp (cstr s1) (cstr s2);
     (s1, leading_d1) \<leftarrow> swlib_toggle_leading_dotslash ''restore'' s1 leading_d1;
     (s2, leading_d2) \<leftarrow> swlib_toggle_leading_dotslash ''restore'' s2 leading_d2;
     (s1, trailing_d1) \<leftarrow> swlib_toggle_trailing_slashdot ''restore'' s1 trailing_d1;
     (s2, trailing_d2) \<leftarrow> swlib_toggle_trailing_slashdot ''restore'' s2 trailing_d2;
     (s1, trailing_p1) \<leftarrow> swlib_toggle_trailing_slash ''restore'' s1 trailing_p1;
     (s2, trailing_p2) \<leftarrow> swlib_toggle_trailing_slash ''restore'' s2 trailing_p2;
     (s1, leading_p1) \<leftarrow> (if FC_compare_flag = SWC_FC_NOAB then swlib_toggle_leading_slash ''restore'' s1 leading_p1 else Some (s1, leading_p1));
     (s2, leading_p2) \<leftarrow> (if FC_compare_flag = SWC_FC_NOAB then swlib_toggle_leading_slash ''restore'' s2 leading_p2 else Some (s2, leading_p2));
     Some (s1, s2, ret) }"

text \<open>The part of a path from behind its last slash on, when there is something behind it. \<open>at\<close> is the position.\<close>

definition base_position :: "block \<Rightarrow> nat" where
  "base_position s = (case c_strrchr (cstr s) (CHR ''/'') of
     None \<Rightarrow> 0 | Some i \<Rightarrow> if i + 1 < length (cstr s) then i + 1 else 0)"

definition swlib_basename_compare :: "(string \<Rightarrow> string \<Rightarrow> int) \<Rightarrow> block \<Rightarrow> block \<Rightarrow> (block \<times> block \<times> int) option" where
  "swlib_basename_compare cmp s1 s2 = do {
     _ \<leftarrow> c_strlen s1 0;
     _ \<leftarrow> c_strlen s2 0;
     let p1 = base_position s1;
     let p2 = base_position s2;
     (t1, t2, ret) \<leftarrow> swlib_dir_compare cmp (drop p1 s1) (drop p2 s2) SWC_FC_NOOP;
     Some (take p1 s1 @ t1, take p2 s2 @ t2, ret) }"

text \<open>The absolute path of a relative one; \<^term>\<open>None\<close> for one that is absolute. \<open>strncpy\<close> leaves byte 198 of the
  local array as it was when the directory is longer.\<close>

definition form_abspath :: "string \<Rightarrow> string \<Rightarrow> string option" where
  "form_abspath s1 pcwd =
     (if take 1 s1 = ''/'' then None
      else Some (swlib_unix_dircat (cstr (strncpy_bytes pcwd 198 @ [uninit, NUL])) (Some s1)))"

text \<open>A copy of a string in a \<open>STROB\<close> has room behind it.\<close>

definition swlib_vrelpath_compare :: "(string \<Rightarrow> string \<Rightarrow> int) \<Rightarrow> block \<Rightarrow> block \<Rightarrow> string \<Rightarrow> (block \<times> block \<times> int) option" where
  "swlib_vrelpath_compare cmp s1 s2 cwd = do {
     _ \<leftarrow> c_strlen s1 0;
     _ \<leftarrow> c_strlen s2 0;
     if (take 1 (cstr s1) = ''/'') = (take 1 (cstr s2) = ''/'') then swlib_dir_compare cmp s1 s2 SWC_FC_NOOP
     else (case form_abspath (cstr s1) cwd of
        Some tmp \<Rightarrow> do { (_, s2, ret) \<leftarrow> swlib_dir_compare cmp (tmp @ [NUL]) s2 SWC_FC_NOOP; Some (s1, s2, ret) }
      | None \<Rightarrow> (case form_abspath (cstr s2) cwd of
          Some tmp \<Rightarrow> do { (s1, _, ret) \<leftarrow> swlib_dir_compare cmp s1 (tmp @ [NUL]) SWC_FC_NOOP; Some (s1, s2, ret) }
        | None \<Rightarrow> None)) }"

section \<open>What is taken away is put back\<close>

text \<open>The contract of the four toggles: on names for which \<open>ok\<close> holds, dropping leaves the name \<open>cut\<close>, and restoring brings
  the block back byte by byte.\<close>

locale toggle =
  fixes tog :: "string \<Rightarrow> block \<Rightarrow> int \<Rightarrow> (block \<times> int) option"
    and cut :: "string \<Rightarrow> string"
    and ok :: "string \<Rightarrow> bool"
  assumes drop_restore: "\<lbrakk>c_string s; ok s\<rbrakk> \<Longrightarrow>
      \<exists>r' fl fl'. tog ''drop'' (s @ NUL # r) 0 = Some (cut s @ NUL # r', fl) \<and> tog ''restore'' (cut s @ NUL # r') fl = Some (s @ NUL # r, fl')"
    and cut_string: "c_string s \<Longrightarrow> c_string (cut s)"
begin

lemma bracket:
  assumes "c_string s" "ok s"
  obtains r' fl fl' where "tog ''drop'' (s @ NUL # r) 0 = Some (cut s @ NUL # r', fl)"
    "tog ''restore'' (cut s @ NUL # r') fl = Some (s @ NUL # r, fl')" "c_string (cut s)"
  using drop_restore [OF assms, of r] cut_string [OF assms(1)] by blast

end

lemma mem_write_at: "length x = length y \<Longrightarrow> mem_write (a @ x @ c) (int (length a)) y = Some (a @ y @ c)"
  by (simp add: mem_write_def)

lemma cstr_block: "c_string s \<Longrightarrow> b = s @ NUL # r \<Longrightarrow> cstr b = s \<and> c_strlen b 0 = Some (int (length s))"
  by simp

definition cut_leading_slash :: "string \<Rightarrow> string" where
  "cut_leading_slash s = (if take 1 s = ''/'' \<and> length s > 1 then drop 1 s else s)"

definition cut_trailing_slash :: "string \<Rightarrow> string" where
  "cut_trailing_slash s = (if length s > 1 \<and> last s = CHR ''/'' then butlast s else s)"

definition cut_trailing_slashdot :: "string \<Rightarrow> string" where
  "cut_trailing_slashdot s = (if length s \<ge> 2 \<and> drop (length s - 2) s = ''/.'' then take (length s - 2) s else s)"

definition cut_leading_dotslash :: "string \<Rightarrow> string" where
  "cut_leading_dotslash s = (if length s > 2 \<and> take 2 s = ''./'' then drop 2 s else s)"

interpretation leading_slash: toggle swlib_toggle_leading_slash cut_leading_slash "\<lambda>_. True"
proof
  fix s r :: string
  assume s: "c_string s"
  show "c_string (cut_leading_slash s)" using s by (auto simp: cut_leading_slash_def)
  show "\<exists>r' fl fl'. swlib_toggle_leading_slash ''drop'' (s @ NUL # r) 0 = Some (cut_leading_slash s @ NUL # r', fl) \<and>
      swlib_toggle_leading_slash ''restore'' (cut_leading_slash s @ NUL # r') fl = Some (s @ NUL # r, fl')"
  proof (cases "take 1 s = ''/'' \<and> length s > 1")
    case True
    then obtain t where t: "s = CHR ''/'' # t" "t \<noteq> []" "c_string t" using s by (cases s) auto
    have c: "cstr (s @ NUL # r) = s" "c_strlen (s @ NUL # r) 0 = Some (int (length s))" using s by simp_all
    have m: "c_memmove (s @ NUL # r) 0 1 (int (length t) + 1) = Some (t @ NUL # NUL # r)"
      "c_memmove (t @ NUL # NUL # r) 1 0 (int (length t) + 1) = Some (take 1 (t @ [NUL]) @ t @ NUL # r)"
      "mem_write (take 1 (t @ [NUL]) @ t @ NUL # r) 0 ''/'' = Some (s @ NUL # r)"
      using t by (cases t; simp add: c_memmove_def mem_write_def nat_add_distrib)+
    have d: "take 1 s = ''/''" "length s = length t + 1" "length s > 1" "cut_leading_slash s = t"
      using t True by (simp_all add: cut_leading_slash_def)
    show ?thesis
      by (rule exI [of _ "NUL # r"], rule exI [of _ 1], rule exI [of _ 0])
        (use t(3) c d m in \<open>simp add: swlib_toggle_leading_slash_def add.commute\<close>)
  next
    case False
    show ?thesis
      by (rule exI [of _ r], rule exI [of _ 0], rule exI [of _ 0])
        (use s False in \<open>auto simp: swlib_toggle_leading_slash_def cut_leading_slash_def\<close>)
  qed
qed

interpretation trailing_slash: toggle swlib_toggle_trailing_slash cut_trailing_slash "\<lambda>_. True"
proof
  fix s r :: string
  assume s: "c_string s"
  show "c_string (cut_trailing_slash s)" using s by (auto simp: cut_trailing_slash_def c_string_def dest: in_set_butlastD)
  show "\<exists>r' fl fl'. swlib_toggle_trailing_slash ''drop'' (s @ NUL # r) 0 = Some (cut_trailing_slash s @ NUL # r', fl) \<and>
      swlib_toggle_trailing_slash ''restore'' (cut_trailing_slash s @ NUL # r') fl = Some (s @ NUL # r, fl')"
  proof (cases "length s > 1 \<and> last s = CHR ''/''")
    case True
    then obtain t where t: "s = t @ ''/''" "t \<noteq> []" "c_string t"
      using s by (cases s rule: rev_cases) auto
    have c: "cstr (s @ NUL # r) = s" "c_strlen (s @ NUL # r) 0 = Some (int (length s))" using s by simp_all
    have b: "cut_trailing_slash s = t" "mem_write (s @ NUL # r) (int (length t)) [NUL] = Some (t @ NUL # NUL # r)"
      "mem_write (t @ NUL # NUL # r) (int (length t)) ''/'' = Some (s @ NUL # r)"
      using s t True mem_write_at [of "''/''" "[NUL]" t "NUL # r"] mem_write_at [of "[NUL]" "''/''" t "NUL # r"]
      by (simp_all add: cut_trailing_slash_def)
    show ?thesis
      by (rule exI [of _ "NUL # r"], rule exI [of _ 1], rule exI [of _ 1])
        (use t(2,3) True b c in \<open>simp add: swlib_toggle_trailing_slash_def t(1) [THEN arg_cong, of length]\<close>)
  next
    case False
    show ?thesis
      by (rule exI [of _ r], rule exI [of _ 0], rule exI [of _ 0])
        (use s False in \<open>auto simp: swlib_toggle_trailing_slash_def cut_trailing_slash_def\<close>)
  qed
qed

interpretation trailing_slashdot: toggle swlib_toggle_trailing_slashdot cut_trailing_slashdot "\<lambda>_. True"
proof
  fix s r :: string
  assume s: "c_string s"
  show "c_string (cut_trailing_slashdot s)" using s by (auto simp: cut_trailing_slashdot_def)
  show "\<exists>r' fl fl'. swlib_toggle_trailing_slashdot ''drop'' (s @ NUL # r) 0 = Some (cut_trailing_slashdot s @ NUL # r', fl) \<and>
      swlib_toggle_trailing_slashdot ''restore'' (cut_trailing_slashdot s @ NUL # r') fl = Some (s @ NUL # r, fl')"
  proof (cases "length s \<ge> 2 \<and> drop (length s - 2) s = ''/.''")
    case True
    define t where "t = take (length s - 2) s"
    have t: "s = t @ ''/.''" using append_take_drop_id [of "length s - 2" s] True by (simp add: t_def)
    have ct: "c_string t" using s t by simp
    have c: "cstr (s @ NUL # r) = s" "c_strlen (s @ NUL # r) 0 = Some (int (length s))" using s by simp_all
    have b: "cut_trailing_slashdot s = t"
      "drop (length t) s = ''/.''" "mem_write (s @ NUL # r) (int (length t)) [NUL] = Some (t @ NUL # CHR ''.'' # NUL # r)"
      "mem_write (t @ NUL # CHR ''.'' # NUL # r) (int (length t)) (''/.'' @ [NUL]) = Some (s @ NUL # r)"
      using s t mem_write_at [of "''/''" "[NUL]" t "CHR ''.'' # NUL # r"] mem_write_at [of "[NUL, CHR ''.'', NUL]" "''/.'' @ [NUL]" t r]
      by (simp_all add: cut_trailing_slashdot_def)
    show ?thesis
      by (rule exI [of _ "CHR ''.'' # NUL # r"], rule exI [of _ 1], rule exI [of _ 0])
        (use ct b c in \<open>simp add: swlib_toggle_trailing_slashdot_def c_strcat_def t [THEN arg_cong, of length]\<close>)
  next
    case False
    have "nat (int (length s) - 2) = length s - 2" by simp
    then show ?thesis
      by (intro exI [of _ r] exI [of _ 0])
        (use s False in \<open>auto simp: swlib_toggle_trailing_slashdot_def cut_trailing_slashdot_def\<close>)
  qed
qed

interpretation leading_dotslash: toggle swlib_toggle_leading_dotslash cut_leading_dotslash "\<lambda>s. s \<noteq> ''./.''"
proof
  fix s r :: string
  assume s: "c_string s"
  show "c_string (cut_leading_dotslash s)" using s by (auto simp: cut_leading_dotslash_def)
  assume ok: "s \<noteq> ''./.''"
  show "\<exists>r' fl fl'. swlib_toggle_leading_dotslash ''drop'' (s @ NUL # r) 0 = Some (cut_leading_dotslash s @ NUL # r', fl) \<and>
      swlib_toggle_leading_dotslash ''restore'' (cut_leading_dotslash s @ NUL # r') fl = Some (s @ NUL # r, fl')"
  proof (cases "length s > 2 \<and> take 2 s = ''./''")
    case True
    define t where "t = drop 2 s"
    have t: "s = ''./'' @ t" "t \<noteq> []" using append_take_drop_id [of 2 s] True by (auto simp: t_def)
    have ct: "c_string t" "t \<noteq> ''.''" using s t ok by auto
    define u where "u = drop (length t + 1) (''./'' @ t @ [NUL])"
    define x where "x = t @ [NUL] @ u"
    have lu: "length u = 2" by (simp add: u_def)
    have lx: "length x = length t + 3" by (simp add: x_def lu)
    define v where "v = take (length t + 1) (''./'' @ t @ [NUL])"
    have vu: "s @ NUL # r = v @ u @ r" "length v = length t + 1"
      using append_take_drop_id [of "length t + 1" "''./'' @ t @ [NUL]"] t(1) by (simp_all add: u_def v_def)
    have xr: "x @ r = t @ NUL # u @ r" by (simp add: x_def)
    have w1: "mem_write (s @ NUL # r) 0 (t @ [NUL]) = Some (x @ r)"
      unfolding vu(1) xr using mem_write_at [of v "t @ [NUL]" "[]" "u @ r"] vu(2) by simp
    have w2: "mem_write (x @ r) 2 (t @ [NUL]) = Some (take 2 x @ t @ NUL # r)"
      using mem_write_at [of "drop 2 x" "t @ [NUL]" "take 2 x" r] lx
      by (simp add: append_assoc [symmetric, of "take 2 x"] del: append_assoc)
    have w3: "mem_write (take 2 x @ t @ NUL # r) 0 ''./'' = Some (s @ NUL # r)"
      using mem_write_at [of "take 2 x" "''./''" "[]" "t @ NUL # r"] lx t by simp
    have b: "take (nat (int (length t) + 1)) (drop 2 (s @ NUL # r)) = t @ [NUL]"
      "take (nat (int (length t) + 1)) (x @ r) = t @ [NUL]"
      using t by (simp_all add: x_def nat_add_distrib)
    have c: "cstr (s @ NUL # r) = s" "c_strlen (s @ NUL # r) 0 = Some (int (length s))" using s by simp_all
    have d: "cstr (x @ r) = t" "c_strlen (x @ r) 0 = Some (int (length t))" "take 2 s = ''./''" "length s = length t + 2"
      using t ct by (simp_all add: x_def)
    have m: "c_memmove (s @ NUL # r) 0 2 (int (length t) + 1) = Some (x @ r)"
      "c_memmove (x @ r) 2 0 (int (length t) + 1) = Some (take 2 x @ t @ NUL # r)"
      using w1 w2 b d(4) lx by (simp_all add: c_memmove_def)
    have "swlib_toggle_leading_dotslash ''drop'' (s @ NUL # r) 0 = Some (x @ r, 1)"
      unfolding swlib_toggle_leading_dotslash_def using c d m t(2) by (simp add: add.commute)
    moreover have "swlib_toggle_leading_dotslash ''restore'' (x @ r) 1 = Some (s @ NUL # r, 0)"
      unfolding swlib_toggle_leading_dotslash_def using d m w3 ct(2) by (simp add: add.commute)
    ultimately have "\<exists>r'. swlib_toggle_leading_dotslash ''drop'' (s @ NUL # r) 0 = Some (t @ NUL # r', 1) \<and>
        swlib_toggle_leading_dotslash ''restore'' (t @ NUL # r') 1 = Some (s @ NUL # r, 0)"
      unfolding xr by blast
    then show ?thesis using True t by (auto simp: cut_leading_dotslash_def)
  next
    case False
    show ?thesis
      by (intro exI [of _ r] exI [of _ 0])
        (use s False in \<open>auto simp: swlib_toggle_leading_dotslash_def cut_leading_dotslash_def\<close>)
  qed
qed


text \<open>The name that is compared, before and after the leading \<open>./\<close> is dropped.\<close>

definition trimmed :: "int \<Rightarrow> string \<Rightarrow> string" where
  "trimmed flag s = cut_trailing_slashdot (cut_trailing_slash (if flag = SWC_FC_NOAB then cut_leading_slash s else s))"

definition compared_name :: "int \<Rightarrow> string \<Rightarrow> string" where
  "compared_name flag s = cut_leading_dotslash (trimmed flag s)"

lemma noab_bracket:
  assumes "c_string s"
  obtains r' fl fl' where
    "(if flag = SWC_FC_NOAB then swlib_toggle_leading_slash ''drop'' (s @ NUL # r) 0 else Some (s @ NUL # r, 0))
       = Some ((if flag = SWC_FC_NOAB then cut_leading_slash s else s) @ NUL # r', fl)"
    "(if flag = SWC_FC_NOAB then swlib_toggle_leading_slash ''restore'' ((if flag = SWC_FC_NOAB then cut_leading_slash s else s) @ NUL # r') fl
       else Some ((if flag = SWC_FC_NOAB then cut_leading_slash s else s) @ NUL # r', fl)) = Some (s @ NUL # r, fl')"
    "c_string (if flag = SWC_FC_NOAB then cut_leading_slash s else s)"
proof (cases "flag = SWC_FC_NOAB")
  case True
  obtain r' fl fl' where b: "swlib_toggle_leading_slash ''drop'' (s @ NUL # r) 0 = Some (cut_leading_slash s @ NUL # r', fl)"
    "swlib_toggle_leading_slash ''restore'' (cut_leading_slash s @ NUL # r') fl = Some (s @ NUL # r, fl')"
    "c_string (cut_leading_slash s)"
    by (rule leading_slash.bracket [OF assms TrueI])
  show thesis by (rule that [of r' fl fl']) (use b True in simp_all)
next
  case False
  show thesis by (rule that [of r 0 0]) (use assms False in simp_all)
qed

text \<open>All that happens to one argument up to the comparison, and back.\<close>

lemma trim_bracket:
  assumes "c_string s"
  obtains b1 b2 b3 p1 p2 p3 q1 q2 q3 where
    "(if flag = SWC_FC_NOAB then swlib_toggle_leading_slash ''drop'' (s @ NUL # r) 0 else Some (s @ NUL # r, 0)) = Some (b1, p1)"
    "swlib_toggle_trailing_slash ''drop'' b1 0 = Some (b2, p2)"
    "swlib_toggle_trailing_slashdot ''drop'' b2 0 = Some (trimmed flag s @ NUL # b3, p3)"
    "swlib_toggle_trailing_slashdot ''restore'' (trimmed flag s @ NUL # b3) p3 = Some (b2, q3)"
    "swlib_toggle_trailing_slash ''restore'' b2 p2 = Some (b1, q2)"
    "(if flag = SWC_FC_NOAB then swlib_toggle_leading_slash ''restore'' b1 p1 else Some (b1, p1)) = Some (s @ NUL # r, q1)"
    "c_string (trimmed flag s)"
proof -
  let ?s1 = "if flag = SWC_FC_NOAB then cut_leading_slash s else s"
  obtain r1 p1 q1 where 1: "(if flag = SWC_FC_NOAB then swlib_toggle_leading_slash ''drop'' (s @ NUL # r) 0 else Some (s @ NUL # r, 0))
       = Some (?s1 @ NUL # r1, p1)"
    "(if flag = SWC_FC_NOAB then swlib_toggle_leading_slash ''restore'' (?s1 @ NUL # r1) p1 else Some (?s1 @ NUL # r1, p1)) = Some (s @ NUL # r, q1)"
    "c_string ?s1"
    by (rule noab_bracket [OF assms, of flag r])
  obtain r2 p2 q2 where 2: "swlib_toggle_trailing_slash ''drop'' (?s1 @ NUL # r1) 0 = Some (cut_trailing_slash ?s1 @ NUL # r2, p2)"
    "swlib_toggle_trailing_slash ''restore'' (cut_trailing_slash ?s1 @ NUL # r2) p2 = Some (?s1 @ NUL # r1, q2)"
    "c_string (cut_trailing_slash ?s1)"
    by (rule trailing_slash.bracket [OF 1(3) TrueI, of r1])
  obtain r3 p3 q3 where 3: "swlib_toggle_trailing_slashdot ''drop'' (cut_trailing_slash ?s1 @ NUL # r2) 0 = Some (trimmed flag s @ NUL # r3, p3)"
    "swlib_toggle_trailing_slashdot ''restore'' (trimmed flag s @ NUL # r3) p3 = Some (cut_trailing_slash ?s1 @ NUL # r2, q3)"
    "c_string (trimmed flag s)"
    unfolding trimmed_def by (rule trailing_slashdot.bracket [OF 2(3) TrueI, of r2])
  show thesis by (rule that [OF 1(1) 2(1) 3(1,2) 2(2) 1(2) 3(3)])
qed

lemma dir_compare_ok:
  assumes "c_string s" "c_string t" "trimmed flag s \<noteq> ''./.''" "trimmed flag t \<noteq> ''./.''"
  shows "swlib_dir_compare cmp (s @ NUL # r) (t @ NUL # u) flag =
    Some (s @ NUL # r, t @ NUL # u, cmp (compared_name flag s) (compared_name flag t))"
proof -
  obtain b1 b2 b3 p1 p2 p3 q1 q2 q3 where b:
    "(if flag = SWC_FC_NOAB then swlib_toggle_leading_slash ''drop'' (s @ NUL # r) 0 else Some (s @ NUL # r, 0)) = Some (b1, p1)"
    "swlib_toggle_trailing_slash ''drop'' b1 0 = Some (b2, p2)"
    "swlib_toggle_trailing_slashdot ''drop'' b2 0 = Some (trimmed flag s @ NUL # b3, p3)"
    "swlib_toggle_trailing_slashdot ''restore'' (trimmed flag s @ NUL # b3) p3 = Some (b2, q3)"
    "swlib_toggle_trailing_slash ''restore'' b2 p2 = Some (b1, q2)"
    "(if flag = SWC_FC_NOAB then swlib_toggle_leading_slash ''restore'' b1 p1 else Some (b1, p1)) = Some (s @ NUL # r, q1)"
    "c_string (trimmed flag s)"
    by (rule trim_bracket [OF assms(1)])
  obtain c1 c2 c3 x1 x2 x3 y1 y2 y3 where c:
    "(if flag = SWC_FC_NOAB then swlib_toggle_leading_slash ''drop'' (t @ NUL # u) 0 else Some (t @ NUL # u, 0)) = Some (c1, x1)"
    "swlib_toggle_trailing_slash ''drop'' c1 0 = Some (c2, x2)"
    "swlib_toggle_trailing_slashdot ''drop'' c2 0 = Some (trimmed flag t @ NUL # c3, x3)"
    "swlib_toggle_trailing_slashdot ''restore'' (trimmed flag t @ NUL # c3) x3 = Some (c2, y3)"
    "swlib_toggle_trailing_slash ''restore'' c2 x2 = Some (c1, y2)"
    "(if flag = SWC_FC_NOAB then swlib_toggle_leading_slash ''restore'' c1 x1 else Some (c1, x1)) = Some (t @ NUL # u, y1)"
    "c_string (trimmed flag t)"
    by (rule trim_bracket [OF assms(2)])
  obtain b4 p4 q4 where d: "swlib_toggle_leading_dotslash ''drop'' (trimmed flag s @ NUL # b3) 0 = Some (compared_name flag s @ NUL # b4, p4)"
    "swlib_toggle_leading_dotslash ''restore'' (compared_name flag s @ NUL # b4) p4 = Some (trimmed flag s @ NUL # b3, q4)"
    "c_string (compared_name flag s)"
    unfolding compared_name_def by (rule leading_dotslash.bracket [OF b(7) assms(3), of b3])
  obtain c4 x4 y4 where e: "swlib_toggle_leading_dotslash ''drop'' (trimmed flag t @ NUL # c3) 0 = Some (compared_name flag t @ NUL # c4, x4)"
    "swlib_toggle_leading_dotslash ''restore'' (compared_name flag t @ NUL # c4) x4 = Some (trimmed flag t @ NUL # c3, y4)"
    "c_string (compared_name flag t)"
    unfolding compared_name_def by (rule leading_dotslash.bracket [OF c(7) assms(4), of c3])
  show ?thesis
    unfolding swlib_dir_compare_def b(1) c(1) bind.bind_lunit prod.case b(2,3) c(2,3) d(1) e(1)
    using b c d e by simp
qed


text \<open>the path \<open>././.\<close> is changed into \<open>.//.\<close> when it is compared.\<close>

theorem dir_compare_changes_dots:
  assumes "NUL \<in> set b2" "trimmed SWC_FC_NOOP (cstr b2) \<noteq> ''./.''"
  shows "swlib_dir_compare cmp (''././.'' @ NUL # r) b2 SWC_FC_NOOP =
    Some (''.//.'' @ NUL # NUL # r, b2, cmp ''.'' (compared_name SWC_FC_NOOP (cstr b2)))"
proof -
  obtain u where u: "b2 = cstr b2 @ NUL # u" using cstr_split assms(1) by blast
  obtain c1 c2 c3 x1 x2 x3 y1 y2 y3 where c:
    "(if SWC_FC_NOOP = SWC_FC_NOAB then swlib_toggle_leading_slash ''drop'' (cstr b2 @ NUL # u) 0 else Some (cstr b2 @ NUL # u, 0)) = Some (c1, x1)"
    "swlib_toggle_trailing_slash ''drop'' c1 0 = Some (c2, x2)"
    "swlib_toggle_trailing_slashdot ''drop'' c2 0 = Some (trimmed SWC_FC_NOOP (cstr b2) @ NUL # c3, x3)"
    "swlib_toggle_trailing_slashdot ''restore'' (trimmed SWC_FC_NOOP (cstr b2) @ NUL # c3) x3 = Some (c2, y3)"
    "swlib_toggle_trailing_slash ''restore'' c2 x2 = Some (c1, y2)"
    "(if SWC_FC_NOOP = SWC_FC_NOAB then swlib_toggle_leading_slash ''restore'' c1 x1 else Some (c1, x1)) = Some (cstr b2 @ NUL # u, y1)"
    "c_string (trimmed SWC_FC_NOOP (cstr b2))"
    by (rule trim_bracket [OF cstr_string])
  have c1: "c1 = b2" using c(1) u by (simp add: SWC_FC_NOOP_def SWC_FC_NOAB_def)
  obtain c4 x4 y4 where e: "swlib_toggle_leading_dotslash ''drop'' (trimmed SWC_FC_NOOP (cstr b2) @ NUL # c3) 0 = Some (compared_name SWC_FC_NOOP (cstr b2) @ NUL # c4, x4)"
    "swlib_toggle_leading_dotslash ''restore'' (compared_name SWC_FC_NOOP (cstr b2) @ NUL # c4) x4 = Some (trimmed SWC_FC_NOOP (cstr b2) @ NUL # c3, y4)"
    "c_string (compared_name SWC_FC_NOOP (cstr b2))"
    unfolding compared_name_def by (rule leading_dotslash.bracket [OF c(7) assms(2), of c3])
  have d: "swlib_toggle_trailing_slash ''drop'' (''././.'' @ NUL # r) 0 = Some (''././.'' @ NUL # r, 0)"
    "swlib_toggle_trailing_slashdot ''drop'' (''././.'' @ NUL # r) 0 = Some (''./.'' @ [NUL, CHR ''.'', NUL] @ r, 1)"
    "swlib_toggle_leading_dotslash ''drop'' (''./.'' @ [NUL, CHR ''.'', NUL] @ r) 0 = Some (''.'' @ [NUL, CHR ''.'', NUL, CHR ''.'', NUL] @ r, 1)"
    "swlib_toggle_leading_dotslash ''restore'' (''.'' @ [NUL, CHR ''.'', NUL, CHR ''.'', NUL] @ r) 1 = Some (''./'' @ [NUL, NUL, CHR ''.'', NUL] @ r, 1)"
    "swlib_toggle_trailing_slashdot ''restore'' (''./'' @ [NUL, NUL, CHR ''.'', NUL] @ r) 1 = Some (''.//.'' @ NUL # NUL # r, 0)"
    "swlib_toggle_trailing_slash ''restore'' (''.//.'' @ NUL # NUL # r) 0 = Some (''.//.'' @ NUL # NUL # r, 0)"
    by (simp_all add: swlib_toggle_trailing_slash_def swlib_toggle_trailing_slashdot_def swlib_toggle_leading_dotslash_def c_strlen_def
      cstr_def mem_write_def c_memmove_def c_strcat_def)
  have f: "SWC_FC_NOOP \<noteq> SWC_FC_NOAB" by (simp add: SWC_FC_NOOP_def SWC_FC_NOAB_def)
  have s: "cstr (''.'' @ [NUL, CHR ''.'', NUL, CHR ''.'', NUL] @ r) = ''.''" "NUL \<in> set (''.'' @ [NUL, CHR ''.'', NUL, CHR ''.'', NUL] @ r)"
    by (simp_all add: cstr_def)
  show ?thesis
    unfolding swlib_dir_compare_def if_not_P [OF f] bind.bind_lunit prod.case d(1,2) c(2,3) [unfolded c1] d(3) e(1)
    using c(4,5) c1 d e s by (simp del: append_Cons append_Nil)
qed


section \<open>Double slashes\<close>

text \<open>What is meant: of a run of slashes the last one stays.\<close>

fun squeeze :: "string \<Rightarrow> string" where
  "squeeze [] = []"
| "squeeze [c] = [c]"
| "squeeze (c # d # s) = (if c = CHR ''/'' \<and> d = CHR ''/'' then squeeze (d # s) else c # squeeze (d # s))"

lemma squeeze_double: "squeeze (a @ ''//'' @ r) = squeeze (a @ ''/'' @ r)"
  by (induction a rule: squeeze.induct) auto

lemma squeeze_none: "substr_index ''//'' s = None \<Longrightarrow> squeeze s = s"
  by (induction s rule: squeeze.induct) (auto split: if_splits)

lemma substr_index_split: "substr_index pat s = Some i \<Longrightarrow> s = take i s @ pat @ drop (i + length pat) s"
proof (induction s arbitrary: i)
  case Nil
  then show ?case by (simp split: if_splits)
next
  case (Cons c s)
  show ?case
  proof (cases "take (length pat) (c # s) = pat")
    case True
    then show ?thesis using Cons.prems append_take_drop_id [of "length pat" "c # s"] by simp
  next
    case False
    then obtain j where j: "i = Suc j" "substr_index pat s = Some j" using Cons.prems by auto
    show ?thesis using Cons.IH [OF j(2)] j(1) by simp
  qed
qed

lemma squash_double_slash_squeeze: "swlib_squash_double_slash path = squeeze path"
proof (induction path rule: swlib_squash_double_slash.induct)
  case (1 path)
  show ?case
  proof (cases "substr_index ''//'' path")
    case None
    then show ?thesis using squeeze_none by (subst swlib_squash_double_slash.simps) simp
  next
    case (Some p)
    have s: "path = take p path @ ''//'' @ drop (p + 2) path" using substr_index_split [OF Some] by simp
    have "length (take p path) = p" using substr_index_room [OF Some] by simp
    then have "drop (p + 1) path = ''/'' @ drop (p + 2) path" by (subst s) simp
    then have "take p path @ drop (p + 1) path = take p path @ ''/'' @ drop (p + 2) path" by simp
    moreover have "squeeze path = squeeze (take p path @ ''/'' @ drop (p + 2) path)"
      by (subst s) (rule squeeze_double)
    ultimately show ?thesis using Some 1 [OF Some] by (subst swlib_squash_double_slash.simps) simp
  qed
qed

lemma squeeze_Cons: "\<exists>t. squeeze (c # s) = c # t"
  by (induction s arbitrary: c) auto

lemma squeeze_clean: "substr_index ''//'' (squeeze s) = None"
proof (induction s rule: squeeze.induct)
  case (3 c d s)
  then show ?case using squeeze_Cons [of d s] by auto
qed auto

lemma squeeze_shorter: "length (squeeze (a @ ''//'' @ r)) < length (a @ ''//'' @ r)"
proof -
  have "length (squeeze s) \<le> length s" for s by (induction s rule: squeeze.induct) auto
  from this [of "a @ ''/'' @ r"] show ?thesis unfolding squeeze_double by simp
qed

section \<open>Directory and base name\<close>

lemma strrchr_split:
  assumes "CHR ''/'' \<in> set s"
  obtains i where "c_strrchr s (CHR ''/'') = Some i" "i < length s"
    "s = take i s @ ''/'' @ drop (i + 1) s" "CHR ''/'' \<notin> set (drop (i + 1) s)"
    "drop (i + 1) s = rev (takeWhile (\<lambda>c. c \<noteq> CHR ''/'') (rev s))"
proof -
  obtain a b where ab: "s = a @ CHR ''/'' # b" "CHR ''/'' \<notin> set b" using split_list_last [OF assms] by blast
  have t: "takeWhile (\<lambda>x. x \<noteq> CHR ''/'') (rev s) = rev b" using ab takeWhile_append2 [of "rev b" "\<lambda>x. x \<noteq> CHR ''/''" "CHR ''/'' # rev a"] by auto
  then have "c_strrchr s (CHR ''/'') = Some (length a)" using assms ab by (simp add: c_strrchr_def)
  then show thesis by (rule that) (use ab t in auto)
qed


section \<open>Depth of a path\<close>

lemma resolve_loop_climb: "resolve_loop (replicate n ''..'' @ ss) k False = resolve_loop ss (k + int n) False"
  by (induction n arbitrary: k) (simp_all add: add.assoc)

lemma tokens_skip: "c \<in> set delim \<Longrightarrow> tokens delim (c # s) = tokens delim s"
  by (metis (no_types, lifting) dropWhile.simps(2) tokens_dropWhile)

lemma tokens_climb: "tokens ''/'' (concat (replicate n ''../'') @ ''etc'') = replicate n ''..'' @ [''etc'']"
proof (induction n)
  case 0
  show ?case by code_simp
next
  case (Suc n)
  then show ?case by (subst tokens.simps) (simp add: tokens_skip)
qed

lemma squeeze_climb: "squeeze (concat (replicate n ''../'') @ ''etc'') = concat (replicate n ''../'') @ ''etc''"
proof (induction n)
  case (Suc n)
  then show ?case by (cases n) simp_all
qed simp

lemma slashclean_climb: "swlib_slashclean (concat (replicate n ''../'') @ ''etc'') = concat (replicate n ''../'') @ ''etc''"
proof -
  have "take 2 (concat (replicate n ''../'') @ ''etc'') \<noteq> ''./''" by (cases n) simp_all
  then show ?thesis
    by (simp add: swlib_slashclean_def squash_double_slash_squeeze squeeze_climb swlib_squash_leading_dot_slash_def
      swlib_squash_trailing_slash_def squash_trailing_char_def)
qed


section \<open>Concrete paths\<close>

definition compare_strings :: "string \<Rightarrow> string \<Rightarrow> int" where
  "compare_strings s t = (if s = t then 0 else 1)"


theorem dir_compare_changes_dots_witness:
  "swlib_dir_compare compare_strings (''././.'' @ [NUL]) (''.'' @ [NUL]) SWC_FC_NOOP = Some (''.//.'' @ [NUL, NUL], ''.'' @ [NUL], 0)"
proof -
  have c: "cstr (''.'' @ [NUL]) = ''.''" "NUL \<in> set (''.'' @ [NUL])" by code_simp+
  have t: "trimmed SWC_FC_NOOP ''.'' = ''.''" "cut_leading_dotslash ''.'' = ''.''" by code_simp+
  show ?thesis
    using dir_compare_changes_dots [OF c(2), of compare_strings "[]"] unfolding c(1) compared_name_def t
    by (simp add: compare_strings_def)
qed


end
