(* ===== verification/TarMember.thy ===== *)
theory TarMember
  imports Etar Defer Statbuf Porinode SwlibPath
begin

text \<open>
  Writing a member of an archive: \<open>taru_write_archive_member_header\<close>, \<open>tarui_write_archive_member_\<close> and
  \<open>taru_write_archive_member\<close> (\<open>swsupplib/taru/copyout.c\<close>), with the records of GNU long names
  (\<open>taru_write_long_link_member\<close> of \<open>taru/mtar.c\<close>) and the names of owners
  (\<open>taru_set_filehdr_sysdb_nameid_by_policy\<close> of \<open>taru/otar.c\<close>). The parameter \<open>h0\<close> is the header that
  \<open>ahsStaticCreateFilehdr\<close> makes.
\<close>

section \<open>Names of owners\<close>

text \<open>\<open>G\<close> selects the group. A lookup by name only changes the cache.\<close>

definition taru_set_filehdr_sysdb_nameid_by_policy ::
  "bool \<Rightarrow> new_cpio_header \<Rightarrow> owners \<Rightarrow> bool \<Rightarrow> (new_cpio_header \<times> owners) option" where
  "taru_set_filehdr_sysdb_nameid_by_policy G h w numeric_uids =
     (let c_c = (if G then c_cg h else c_cu h);
          sysusername = (if G then ahsStaticGetTarGroupname h else ahsStaticGetTarUsername h);
          named = (if G then h\<lparr>c_groupname := Some (snd (snd (l_tar_sysdata_getgroup (groupdb w) (uint (ucast (c_gid h) :: 32 word)))))\<rparr>
                   else h\<lparr>c_username := Some (snd (snd (l_tar_sysdata_getuser (userdb w) (uint (ucast (c_uid h) :: 32 word)))))\<rparr>)
      in if sysusername = [] \<and> c_c \<noteq> TARU_C_BY_UNONE then Some (named, w)
         else if c_c = TARU_C_BY_USYS \<or> c_c = TARU_C_BY_UNAME then
           (if G then map_option (\<lambda>(_, _, c). (h, w\<lparr>groupcache := c\<rparr>)) (taru_get_gid_by_name (groupdb w) (groupcache w) sysusername)
            else map_option (\<lambda>(_, _, c). (h, w\<lparr>usercache := c\<rparr>)) (taru_get_uid_by_name (userdb w) (usercache w) sysusername))
         else if c_c = TARU_C_BY_UID \<and> \<not> numeric_uids then Some (named, w)
         else Some (h, w))"

section \<open>GNU long names\<close>

definition zero_stat :: statbuf where
  "zero_stat = \<lparr>st_mode = 0, st_ino = 0, st_dev = 0, st_rdev = 0, st_nlink = 0, st_uid = 0, st_gid = 0, st_size = 0, st_atime = 0,
     st_ctime = 0, st_mtime = 0, st_blksize = 0, st_blocks = 0\<rparr>"

text \<open>The header of the record and the block with the name. The result is the returned number and the bytes.\<close>

definition long_link_header :: "new_cpio_header \<Rightarrow> string \<Rightarrow> char \<Rightarrow> 64 word \<Rightarrow> bool \<Rightarrow> new_cpio_header option" where
  "long_link_header h0 name gnu_long_type c_type slash = do {
     (_, h, _) \<leftarrow> taru_statbuf2filehdr (\<lambda>_. None) h0 zero_stat None None (Some []) 1;
     let h = ahsStaticSetTarFilename h (Some GNU_LONG_LINK);
     let fmt = and c_type CP_IFMT;
     let h = (if fmt = CP_IFREG \<or> fmt = CP_IFDIR
              then (ahsStaticSetPaxLinkname h (Some (if gnu_long_type = GNUTYPE_LONGNAME then [] else name)))\<lparr>c_mode := 0\<rparr>
              else (ahsStaticSetPaxLinkname h (Some name))\<lparr>c_mode := c_type\<rparr>);
     Some (h\<lparr>c_namesize := of_nat (length GNU_LONG_LINK + 1), c_ino := 0, c_nlink := 0, c_uid := 0, c_gid := 0,
       c_filesize := of_nat (length name + 1 + (if slash then 1 else 0)), c_mtime := 0, c_dev_maj := 0, c_dev_min := 0,
       c_rdev_maj := 0\<rparr>) }"

definition taru_write_long_link_member ::
  "owners \<Rightarrow> taru \<Rightarrow> new_cpio_header \<Rightarrow> string \<Rightarrow> char \<Rightarrow> 64 word \<Rightarrow> tarflags \<Rightarrow> (int \<times> char list \<times> owners \<times> taru) option" where
  "taru_write_long_link_member w taru h0 filename gnu_long_type c_type tarheaderflags =
     (let is_dir = (and c_type CP_IFMT = CP_IFDIR);
          slash = (is_dir \<and> filename \<noteq> [] \<and> last filename \<noteq> CHR ''/'' \<and> length filename < 511)
      in if length filename \<ge> 510 then Some (- 1, [], w, taru)
         else do {
           h \<leftarrow> long_link_header h0 filename gnu_long_type c_type slash;
           (ret, hdr, w, taru) \<leftarrow> taru_write_out_tar_header2 w taru h (Some [int TARRECORDSIZE]) (Some ''root'') (Some ''root'') tarheaderflags;
           if ret = 512 then
             Some (ret + 512, hdr @ strncpy_bytes (filename @ (if slash then ''/'' else [])) 512, w, taru)
           else Some (- 1, [], w, taru) })"

section \<open>Extended headers\<close>

text \<open>The record in front of the data of \<open>n\<close> bytes. A name that does not fit ends the process: \<^term>\<open>None\<close>.\<close>

definition pax_header_name :: "nat \<Rightarrow> string \<Rightarrow> string" where
  "pax_header_name pid name = ''./PaxHeaders.'' @ dec_string pid @ ''/'' @ swlib_basename name"

definition pax_header_record :: "owners \<Rightarrow> etar \<Rightarrow> nat \<Rightarrow> string \<Rightarrow> int \<Rightarrow> etar option" where
  "pax_header_record w etar pid name n = do {
     etar \<leftarrow> etar_init_hdr w etar;
     etar \<leftarrow> etar_set_uid w 0 etar;
     etar \<leftarrow> etar_set_gid w 0 etar;
     (etar, _) \<leftarrow> etar_set_uname [] etar;
     (etar, _) \<leftarrow> etar_set_gname [] etar;
     etar \<leftarrow> etar_set_mode_ul 0x1A4 etar;
     (etar, ret) \<leftarrow> etar_set_pathname (pax_header_name pid name) etar;
     if ret \<noteq> 0 then None
     else do {
       etar \<leftarrow> etar_set_typeflag XHDTYPE etar;
       etar \<leftarrow> etar_set_size (word_of_int n) etar;
       etar_set_chksum etar } }"


section \<open>The header of a member\<close>

definition TARU_TAR_NO_OVERFLOW :: tarflags where "TARU_TAR_NO_OVERFLOW = 0x10000"
definition OLDGNU_TARNAMESIZE :: nat where "OLDGNU_TARNAMESIZE = 99"
definition TARU_HE_LINKNAME_4 :: int where "TARU_HE_LINKNAME_4 = - 4"

definition tar_format :: "archive_format_in \<Rightarrow> bool" where
  "tar_format fmt \<longleftrightarrow> fmt = arf_tar \<or> fmt = arf_ustar"

definition cpio_ascii :: "archive_format_in \<Rightarrow> bool" where
  "cpio_ascii fmt \<longleftrightarrow> fmt = arf_oldascii \<or> fmt = arf_newascii \<or> fmt = arf_crcascii"

text \<open>What the writing of a member changes: the bytes written, the caches of names, the \<open>TARU\<close> object, and the tables
  of links, of members put aside and of virtual inodes, which may be missing.\<close>

record member_state =
  ms_out :: "char list"
  ms_owners :: owners
  ms_taru :: taru
  ms_links :: "hllist option"
  ms_defer :: "deferred option"
  ms_porinode :: "porinode option"

definition put_header ::
  "archive_format_in \<Rightarrow> int \<Rightarrow> tarflags \<Rightarrow> new_cpio_header \<Rightarrow> member_state \<Rightarrow> (int \<times> new_cpio_header \<times> member_state) option" where
  "put_header fmt out_des flags h s = do {
     r \<leftarrow> taru_write_out_header (ms_owners s) (ms_taru s) h out_des fmt None flags;
     Some (ho_ret r, ho_hdr r, s\<lparr>ms_out := ms_out s @ ho_bytes r, ms_owners := ho_owners r, ms_taru := ho_taru r\<rparr>) }"

definition put_long_link ::
  "new_cpio_header \<Rightarrow> string \<Rightarrow> char \<Rightarrow> 64 word \<Rightarrow> tarflags \<Rightarrow> member_state \<Rightarrow> (int \<times> member_state) option" where
  "put_long_link h0 name t c_type flags s = do {
     (ret, bytes, w, taru) \<leftarrow> taru_write_long_link_member (ms_owners s) (ms_taru s) h0 name t c_type flags;
     Some (ret, s\<lparr>ms_out := ms_out s @ bytes, ms_owners := w, ms_taru := taru\<rparr>) }"

definition set_owner_names :: "new_cpio_header \<Rightarrow> owners \<Rightarrow> bool \<Rightarrow> (new_cpio_header \<times> owners) option" where
  "set_owner_names h w numeric = do {
     (h, w) \<leftarrow> taru_set_filehdr_sysdb_nameid_by_policy True h w numeric;
     taru_set_filehdr_sysdb_nameid_by_policy False h w numeric }"

text \<open>The virtual inode.\<close>

definition virtual_inode :: "archive_format_in \<Rightarrow> new_cpio_header \<Rightarrow> member_state \<Rightarrow> (new_cpio_header \<times> member_state) option" where
  "virtual_inode fmt h s =
     (case ms_porinode s of
        Some p \<Rightarrow>
          (if cpio_ascii fmt then do {
             let mylink = (if and (c_mode h) CP_IFMT = CP_IFLNK \<or> and (c_mode h) CP_IFMT = CP_IFDIR then 1
                           else sint (ucast (c_nlink h) :: 32 word));
             ((v_dev, v_ino), p) \<leftarrow> porinode_make_next_inode p mylink (uint (hdr_dev h)) (uint (c_ino h));
             Some (h\<lparr>c_dev_maj := ucast (c_major (word_of_int v_dev)), c_dev_min := ucast (c_minor (word_of_int v_dev)),
                 c_ino := word_of_int v_ino\<rparr>, s\<lparr>ms_porinode := Some p\<rparr>) }
           else Some (h, s))
      | None \<Rightarrow> Some (h, s))"

text \<open>The records in front of the header of a tar archive: a GNU long name, or an extended header. The result is a
  number to return early, or the header and the number of bytes of the long name record.\<close>

definition put_long_name ::
  "new_cpio_header \<Rightarrow> tarflags \<Rightarrow> new_cpio_header \<Rightarrow> member_state \<Rightarrow> ((int + new_cpio_header \<times> int) \<times> member_state) option" where
  "put_long_name h0 flags h s = do {
     (n, s) \<leftarrow> put_long_link h0 (ahsStaticGetTarFilename h) GNUTYPE_LONGNAME (and (c_mode h) CP_IFMT) flags s;
     if n \<noteq> 1024 then Some (Inl (- 3), s)
     else Some (Inr (h\<lparr>c_name := Some (take (if flag_set flags TARU_TAR_GNU_OLDGNUTAR \<or> flag_set flags TARU_TAR_NAMESIZE_99
         then OLDGNU_TARNAMESIZE else TARNAMESIZE) (ahsStaticGetTarFilename h))\<rparr>, n), s) }"

definition put_pax_header ::
  "nat \<Rightarrow> int \<Rightarrow> bool \<Rightarrow> new_cpio_header \<Rightarrow> member_state \<Rightarrow> ((int + new_cpio_header \<times> int) \<times> member_state) option" where
  "put_pax_header pid out_des numeric h s = do {
     (h, w) \<leftarrow> set_owner_names h (ms_owners s) numeric;
     let s = s\<lparr>ms_owners := w\<rparr>;
     let taru = ms_taru s;
     buf \<leftarrow> strob_strcpy (exthdr_dataM taru) [];
     (h, buf, n) \<leftarrow> write_exthdrs_ustar_records buf h;
     if n < 0 then Some (Inl (- 3), s\<lparr>ms_taru := taru\<lparr>exthdr_dataM := buf\<rparr>\<rparr>)
     else do {
       (buf, n) \<leftarrow> write_exthdrs_xattr_records buf h n;
       let taru = taru\<lparr>exthdr_dataM := buf\<rparr>;
       if n < 0 then Some (Inl (- 4), s\<lparr>ms_taru := taru\<rparr>)
       else if n = 0 then Some (Inr (h, 0), s\<lparr>ms_taru := taru\<rparr>)
       else do {
         etar \<leftarrow> pax_header_record w ((etarM taru)\<lparr>etar_tarheaderflagsM := taru_tarheaderflagsM taru\<rparr>) pid (ahsStaticGetTarFilename h) n;
         b \<leftarrow> sb_str buf;
         if n > int (length b) then None
         else do {
           let (_, pad) = taru_tape_pad_output out_des n arf_ustar;
           Some (Inr (h, 0), s\<lparr>ms_taru := taru\<lparr>etarM := etar\<rparr>,
             ms_out := ms_out s @ take TARRECORDSIZE (etar_get_hdr etar) @ take (nat n) b @ pad\<rparr>) } } } }"

definition put_tar_prefix ::
  "new_cpio_header \<Rightarrow> nat \<Rightarrow> int \<Rightarrow> tarflags \<Rightarrow> new_cpio_header \<Rightarrow> member_state \<Rightarrow>
   ((int + new_cpio_header \<times> int \<times> bool) \<times> member_state) option" where
  "put_tar_prefix h0 pid out_des flags h s =
     (let (too_long, gnu_name) = taru_is_tar_filename_too_long (ahsStaticGetTarFilename h) flags False;
          (link_too_long, gnu_link) = taru_is_tar_linkname_too_long (ahsStaticGetTarLinkname h) flags;
          pax = (flag_set flags TARU_TAR_PAXEXTHDR \<or> flag_set flags TARU_TAR_PAXEXTHDR_MD);
          needy = taru_fill_exthdr_needs_mask h flags;
          numeric = flag_set flags TARU_TAR_NUMERIC_UIDS
      in if too_long \<noteq> 0 then Some (Inl (- 2), s)
         else if link_too_long \<noteq> 0 then Some (Inl (- 3), s)
         else if needy \<noteq> 0 \<and> \<not> pax \<and> flag_set flags TARU_TAR_NO_OVERFLOW then Some (Inl (- 14), s)
         else do {
           let h = h\<lparr>extHeader_needs_maskM := needy\<rparr>;
           (h, s) \<leftarrow> (if pax \<and> \<not> numeric then map_option (\<lambda>(h, w). (h, s\<lparr>ms_owners := w\<rparr>)) (set_owner_names h (ms_owners s) numeric)
                     else Some (h, s));
           (r, s) \<leftarrow> (if \<not> pax \<and> (gnu_name \<noteq> 0 \<or> gnu_link \<noteq> 0) then put_long_name h0 flags h s
                     else if pax \<and> (extHeader_needs_maskM h \<noteq> 0 \<or> extattlistM h \<noteq> None) then put_pax_header pid out_des numeric h s
                     else Some (Inr (h, 0), s));
           Some (map_sum id (\<lambda>(h, n). (h, n, \<not> pax \<and> gnu_link \<noteq> 0)) r, s) })"


section \<open>The types of members\<close>

text \<open>Hard links in tar archives: the first member of a file is recorded, the others refer to it.\<close>

definition link_active :: "member_state \<Rightarrow> bool" where
  "link_active s \<longleftrightarrow> ms_links s \<noteq> None \<and> \<not> linkrecord_disableM (ms_taru s)"

definition find_link :: "new_cpio_header \<Rightarrow> member_state \<Rightarrow> hllist_entry option option" where
  "find_link h s = do {
     l \<leftarrow> ms_links s;
     (en, nfound) \<leftarrow> hllist_find_file_entry l (uint (hdr_dev h)) (uint (c_ino h)) 1 0;
     if nfound \<noteq> 0 then map_option Some en else Some None }"

definition record_link :: "new_cpio_header \<Rightarrow> member_state \<Rightarrow> member_state option" where
  "record_link h s =
     (if link_active s \<and> c_nlink h > 1 then do {
        l \<leftarrow> ms_links s;
        l \<leftarrow> hllist_add_record l (ahsStaticGetTarFilename h) (uint (hdr_dev h)) (uint (c_ino h));
        Some (s\<lparr>ms_links := Some l\<rparr>) }
      else Some s)"

text \<open>The result of a branch: a number that is returned at once, or the result of the switch with the number of bytes
  of the record of a long link.\<close>

type_synonym branch_result = "((int + int \<times> int) \<times> new_cpio_header \<times> member_state) option"

definition plain_header :: "archive_format_in \<Rightarrow> int \<Rightarrow> tarflags \<Rightarrow> bool \<Rightarrow> new_cpio_header \<Rightarrow> member_state \<Rightarrow> branch_result" where
  "plain_header fmt out_des flags recording h s = do {
     (ret, h, s) \<leftarrow> put_header fmt out_des flags h s;
     s \<leftarrow> (if recording \<and> tar_format fmt then record_link h s else Some s);
     Some (Inr (ret, 0), h, s) }"

text \<open>A regular file. In the cpio formats a file with several links is put aside until its last link; without a
  table for that it is written like any other.\<close>

definition regular_member ::
  "digest_fns \<Rightarrow> (string \<Rightarrow> char list option) \<Rightarrow> new_cpio_header \<Rightarrow> archive_format_in \<Rightarrow> int \<Rightarrow> tarflags \<Rightarrow> bool \<Rightarrow>
   new_cpio_header \<Rightarrow> member_state \<Rightarrow> branch_result" where
  "regular_member fns content h0 fmt out_des flags long_link h s =
     (if cpio_ascii fmt \<and> c_nlink h > 1 then
        (case ms_defer s of
           Some d \<Rightarrow>
             (let d = defer_set_taru d (ms_taru s)
              in if defer_is_last_link d h \<noteq> 0 then do {
                   r \<leftarrow> defer_writeout_zero_length_defers fns content (ms_owners s) d h out_des;
                   plain_header fmt out_des flags True h
                     (s\<lparr>ms_out := ms_out s @ ds_out r, ms_owners := ds_owners r, ms_defer := Some (ds_def r), ms_taru := taruM (ds_def r)\<rparr>) }
                 else Some (Inr (0, 0), h, s\<lparr>ms_defer := Some (defer_add_link_defer h0 d h)\<rparr>))
         | None \<Rightarrow> plain_header fmt out_des flags True h s)
      else if tar_format fmt then do {
        found \<leftarrow> (if link_active s \<and> c_nlink h > 1 then find_link h s else Some None);
        if link_active s \<and> c_nlink h > 1 \<and> (found \<noteq> None \<or> c_is_tar_lnktype h = 1) then do {
          let h = (case found of Some en \<Rightarrow> ahsStaticSetPaxLinkname h (Some (path_of en)) | None \<Rightarrow> h);
          plain_header fmt out_des flags False h s }
        else if ahsStaticGetTarLinkname h \<noteq> [] \<and> long_link then do {
          (n, s) \<leftarrow> put_long_link h0 (ahsStaticGetTarLinkname h) GNUTYPE_LONGLINK (and (c_mode h) CP_IFMT) flags s;
          if n \<noteq> 1024 then Some (Inl (- 3), h, s)
          else do {
            let h = h\<lparr>c_tar_linkname := Some (take (TARLINKNAMESIZE - 1) (ahsStaticGetTarLinkname h))\<rparr>;
            (ret, h, s) \<leftarrow> put_header fmt out_des flags h s;
            s \<leftarrow> record_link h s;
            Some (Inr (ret, n), h, s) } }
        else plain_header fmt out_des flags True h s }
      else plain_header fmt out_des flags True h s)"

text \<open>Fifos and devices. A link that was found makes the member a regular file by adding the bits of that type.\<close>

definition special_member :: "archive_format_in \<Rightarrow> int \<Rightarrow> tarflags \<Rightarrow> new_cpio_header \<Rightarrow> member_state \<Rightarrow> branch_result" where
  "special_member fmt out_des flags h s =
     (if fmt = arf_tar then Some (Inl 0, h, s)
      else do {
        found \<leftarrow> (if fmt = arf_ustar \<and> link_active s then find_link h s else Some None);
        case found of
          Some en \<Rightarrow> plain_header fmt out_des flags False
            (ahsStaticSetPaxLinkname (h\<lparr>c_mode := or (c_mode h) CP_IFREG\<rparr>) (Some (path_of en))) s
        | None \<Rightarrow> plain_header fmt out_des flags True (h\<lparr>c_filesize := 0\<rparr>) s })"

text \<open>Symbolic links. In the cpio formats the name of the target is the data of the member.\<close>

definition symlink_member ::
  "new_cpio_header \<Rightarrow> archive_format_in \<Rightarrow> int \<Rightarrow> tarflags \<Rightarrow> bool \<Rightarrow> new_cpio_header \<Rightarrow> member_state \<Rightarrow> branch_result" where
  "symlink_member h0 fmt out_des flags long_link h s =
     (let target = ahsStaticGetTarLinkname h;
          h = h\<lparr>c_filesize := of_nat (length target)\<rparr>
      in if tar_format fmt then
           (if \<not> long_link then
              (if length target + 1 > TARNAMESIZE then Some (Inl TARU_HE_LINKNAME_4, h, s)
               else plain_header fmt out_des flags False h s)
            else do {
              (n, s) \<leftarrow> put_long_link h0 target GNUTYPE_LONGLINK (and (c_mode h) CP_IFMT) flags s;
              if n \<noteq> 1024 then Some (Inl (- 6), h, s)
              else do {
                (ret, h, s) \<leftarrow> put_header fmt out_des flags (h\<lparr>c_tar_linkname := Some (take 99 target), c_filesize := 0\<rparr>) s;
                Some (if ret < 0 then Inl (- 7) else Inr (ret, n), h, s) } })
         else do {
           (ret, h, s) \<leftarrow> put_header fmt out_des flags h s;
           (n, bytes, _) \<leftarrow> tarui_tape_buffered_write target None;
           let (m, pad) = taru_tape_pad_output out_des (int (length target)) fmt;
           Some (Inr (ret + n + m, 0), h, s\<lparr>ms_out := ms_out s @ bytes @ pad\<rparr>) })"

definition member_by_type ::
  "digest_fns \<Rightarrow> (string \<Rightarrow> char list option) \<Rightarrow> new_cpio_header \<Rightarrow> archive_format_in \<Rightarrow> int \<Rightarrow> tarflags \<Rightarrow> bool \<Rightarrow>
   new_cpio_header \<Rightarrow> member_state \<Rightarrow> branch_result" where
  "member_by_type fns content h0 fmt out_des flags long_link h s =
     (let t = and (c_mode h) CP_IFMT
      in if t = CP_IFREG then regular_member fns content h0 fmt out_des flags long_link h s
         else if t = CP_IFDIR then plain_header fmt out_des flags False (h\<lparr>c_filesize := 0\<rparr>) s
         else if t = CP_IFIFO \<or> t = CP_IFCHR \<or> t = CP_IFBLK then special_member fmt out_des flags h s
         else if t = CP_IFLNK then symlink_member h0 fmt out_des flags long_link h s
         else Some (Inr (0, 0), h, s))"

text \<open>\<open>taru_write_archive_member_header\<close>. The second result is what \<open>file_hdr_return\<close> receives.\<close>

definition taru_write_archive_member_header ::
  "digest_fns \<Rightarrow> (string \<Rightarrow> char list option) \<Rightarrow> nat \<Rightarrow> new_cpio_header \<Rightarrow> new_cpio_header \<Rightarrow> int \<Rightarrow> archive_format_in \<Rightarrow> tarflags \<Rightarrow>
   member_state \<Rightarrow> (int \<times> new_cpio_header option \<times> member_state) option" where
  "taru_write_archive_member_header fns content pid h0 file_hdr0 out_des fmt flags s = do {
     let h = taru_filehdr2filehdr h0 file_hdr0;
     (h, s) \<leftarrow> virtual_inode fmt h s;
     let h = (if flag_set flags TARU_TAR_DO_STRIP_LEADING_SLASH then ahsStatic_strip_name_leading_slash h else h);
     let h = h\<lparr>c_namesize := of_nat (length (ahsStaticGetTarFilename h) + 1)\<rparr>;
     (prefix, s) \<leftarrow> (if tar_format fmt then put_tar_prefix h0 pid out_des flags h s else Some (Inr (h, 0, False), s));
     case prefix of
       Inl e \<Rightarrow> Some (e, None, s)
     | Inr (h, nbytes, long_link) \<Rightarrow> do {
         (r, h, s) \<leftarrow> member_by_type fns content h0 fmt out_des flags long_link h s;
         case r of
           Inl e \<Rightarrow> Some (e, None, s)
         | Inr (retval, lbytes) \<Rightarrow> Some (retval + nbytes + lbytes, Some (taru_filehdr2filehdr h0 h), s) } }"


section \<open>A whole member\<close>

text \<open>\<open>tarui_write_archive_member_\<close>. A status of a file is refused by an assertion in the function above, so it is
  not a parameter. The checksum of the data is taken from the input before it is copied, from its current position.\<close>

definition tarui_write_archive_member_i ::
  "digest_fns \<Rightarrow> (string \<Rightarrow> char list option) \<Rightarrow> nat \<Rightarrow> new_cpio_header \<Rightarrow> new_cpio_header \<Rightarrow> int \<Rightarrow> char list option \<Rightarrow>
   archive_format_in \<Rightarrow> tarflags \<Rightarrow> member_state \<Rightarrow> (int \<times> file_digs option \<times> member_state) option" where
  "tarui_write_archive_member_i fns content pid h0 file_hdr0 out_des input fmt flags s = do {
     let hdr0 = file_hdr0\<lparr>c_chksum := (case input of
         Some inp \<Rightarrow> if fmt = arf_crcascii then fst (taru_read_for_crc_checksum inp (sint (ucast (c_filesize file_hdr0) :: 32 word))) else 0
       | None \<Rightarrow> 0)\<rparr>;
     (ret, h, s) \<leftarrow> taru_write_archive_member_header fns content pid h0 hdr0 out_des fmt flags s;
     let h = (case h of Some h \<Rightarrow> h | None \<Rightarrow> h0);
     if ret < 0 then Some (ret, digsM hdr0, s)
     else if and (c_mode h) CP_IFMT = CP_IFREG \<and> ahsStaticGetTarLinkname h = [] \<and> ret > 0 then do {
       let r = taru_write_archive_member_data fns content h out_des input None fmt (- 1) (digsM hdr0);
       let s = s\<lparr>ms_out := ms_out s @ md_out r\<rparr>;
       Some (if md_ret r < 0 then md_ret r else ret + md_ret r, md_digs r, s) }
     else Some (ret, map_option (\<lambda>d. taru_digs_init d (- 1) 0) (digsM hdr0), s) }"

text \<open>\<open>taru_write_archive_member\<close>, called with a header. Without an input the file is opened by its name: \<open>access\<close>,
  \<open>content\<close> and \<open>readlink\<close> stand for the file system; of the target of a link 1022 characters are kept. A file that cannot be opened is skipped.\<close>

definition open_member ::
  "(string \<Rightarrow> bool) \<Rightarrow> (string \<Rightarrow> char list option) \<Rightarrow> (string \<Rightarrow> string option) \<Rightarrow> string \<Rightarrow> new_cpio_header \<Rightarrow> char list option \<Rightarrow>
   (new_cpio_header \<times> char list option) option" where
  "open_member access content readlink filename h input =
     (if input \<noteq> None then Some (h, input)
      else (let t = and (c_mode h) CP_IFMT
            in if t = CP_IFDIR then (if access filename then Some (h, None) else None)
               else if t = CP_IFREG then
                 (if c_filesize h = 0 then Some (h, Some []) else map_option (\<lambda>d. (h, Some d)) (content filename))
               else if t = CP_IFLNK then
                 Some (case readlink filename of Some target \<Rightarrow> h\<lparr>c_tar_linkname := Some (take 1022 target)\<rparr> | None \<Rightarrow> h, None)
               else Some (h, None)))"

definition taru_write_archive_member ::
  "digest_fns \<Rightarrow> (string \<Rightarrow> bool) \<Rightarrow> (string \<Rightarrow> char list option) \<Rightarrow> (string \<Rightarrow> string option) \<Rightarrow> nat \<Rightarrow> new_cpio_header \<Rightarrow>
   string \<Rightarrow> new_cpio_header \<Rightarrow> int \<Rightarrow> char list option \<Rightarrow> archive_format_in \<Rightarrow> tarflags \<Rightarrow> member_state \<Rightarrow> (int \<times> member_state) option" where
  "taru_write_archive_member fns access content readlink pid h0 filename file_hdr0 out_des input fmt flags s =
     (case open_member access content readlink filename (taru_filehdr2filehdr h0 file_hdr0) input of
        None \<Rightarrow> Some (0, s)
      | Some (h, input) \<Rightarrow> do {
          (ret, _, s) \<leftarrow> tarui_write_archive_member_i fns content pid h0 h out_des input fmt flags s;
          Some (ret, s) })"

end
