(* ===== verification/TarArchive.thy ===== *)
theory TarArchive
  imports TarMember
begin

text \<open>
  A whole archive: what \<open>taru_write_archive_member\<close> and \<open>taru_write_archive_trailer\<close> write for a sequence of
  members is read back by a client that takes a header, then the data, then the padding until the end of the
  archive is reported. Then what becomes of members that need a record in front of their header.
\<close>

section \<open>Headers that agree\<close>

text \<open>The parts of a header that its record depends on.\<close>

definition alike :: "new_cpio_header \<Rightarrow> new_cpio_header \<Rightarrow> bool" where
  "alike h' h \<longleftrightarrow>
     ahsStaticGetTarFilename h' = ahsStaticGetTarFilename h \<and> ahsStaticGetTarLinkname h' = ahsStaticGetTarLinkname h \<and>
     ahsStaticGetTarUsername h' = ahsStaticGetTarUsername h \<and> ahsStaticGetTarGroupname h' = ahsStaticGetTarGroupname h \<and>
     c_mode h' = c_mode h \<and> c_uid h' = c_uid h \<and> c_gid h' = c_gid h \<and> c_mtime h' = c_mtime h \<and>
     c_filesize h' = c_filesize h \<and> c_rdev_maj h' = c_rdev_maj h \<and> c_rdev_min h' = c_rdev_min h \<and>
     c_cu h' = c_cu h \<and> c_cg h' = c_cg h"

abbreviation user_of :: "new_cpio_header \<Rightarrow> string" where "user_of h \<equiv> ahsStaticGetTarUsername h"
abbreviation group_of :: "new_cpio_header \<Rightarrow> string" where "group_of h \<equiv> ahsStaticGetTarGroupname h"

lemma get_names_updates [simp]:
  "ahsStaticGetTarFilename (h\<lparr>c_chksum := v\<rparr>) = ahsStaticGetTarFilename h" "ahsStaticGetTarLinkname (h\<lparr>c_chksum := v\<rparr>) = ahsStaticGetTarLinkname h"
  "ahsStaticGetTarUsername (h\<lparr>c_chksum := v\<rparr>) = ahsStaticGetTarUsername h" "ahsStaticGetTarGroupname (h\<lparr>c_chksum := v\<rparr>) = ahsStaticGetTarGroupname h"
  "ahsStaticGetTarFilename (h\<lparr>c_namesize := v\<rparr>) = ahsStaticGetTarFilename h" "ahsStaticGetTarLinkname (h\<lparr>c_namesize := v\<rparr>) = ahsStaticGetTarLinkname h"
  "ahsStaticGetTarUsername (h\<lparr>c_namesize := v\<rparr>) = ahsStaticGetTarUsername h" "ahsStaticGetTarGroupname (h\<lparr>c_namesize := v\<rparr>) = ahsStaticGetTarGroupname h"
  "ahsStaticGetTarFilename (h\<lparr>extHeader_needs_maskM := m\<rparr>) = ahsStaticGetTarFilename h" "ahsStaticGetTarLinkname (h\<lparr>extHeader_needs_maskM := m\<rparr>) = ahsStaticGetTarLinkname h"
  "ahsStaticGetTarUsername (h\<lparr>extHeader_needs_maskM := m\<rparr>) = ahsStaticGetTarUsername h" "ahsStaticGetTarGroupname (h\<lparr>extHeader_needs_maskM := m\<rparr>) = ahsStaticGetTarGroupname h"
  by (simp_all add: ahs_name_defs)

lemma alike_member_name: "alike h' h \<Longrightarrow> header_member_name h' fl = header_member_name h fl"
  by (simp add: alike_def header_member_name_def)

lemma alike_tarflag: "alike h' h \<Longrightarrow> tarflag h' = tarflag h"
  by (simp add: alike_def tarflag_def)

lemma alike_ustar_ok: "alike h' h \<Longrightarrow> ustar_ok h' fl u g = ustar_ok h fl u g"
  unfolding ustar_ok_def using alike_member_name [of h' h fl] by (simp add: alike_def)

lemma alike_read_back: "alike h' h \<Longrightarrow> read_back x h' fl u g = read_back x h fl u g"
  unfolding read_back_def same_member_def using alike_member_name [of h' h fl] alike_tarflag [of h' h] by (simp add: alike_def)

lemma get_copied_names [simp]:
  "ahsStaticGetTarFilename (taru_filehdr2filehdr h0 h) = ahsStaticGetTarFilename h"
  "ahsStaticGetTarLinkname (taru_filehdr2filehdr h0 h) = ahsStaticGetTarLinkname h"
  "ahsStaticGetTarUsername (taru_filehdr2filehdr h0 h) = ahsStaticGetTarUsername h"
  "ahsStaticGetTarGroupname (taru_filehdr2filehdr h0 h) = ahsStaticGetTarGroupname h"
  by (simp_all add: taru_filehdr2filehdr_def ahs_name_defs Let_def)

lemma copied_fields [simp]:
  "c_mode (taru_filehdr2filehdr h0 h) = c_mode h" "c_uid (taru_filehdr2filehdr h0 h) = c_uid h"
  "c_gid (taru_filehdr2filehdr h0 h) = c_gid h" "c_mtime (taru_filehdr2filehdr h0 h) = c_mtime h"
  "c_filesize (taru_filehdr2filehdr h0 h) = c_filesize h" "c_nlink (taru_filehdr2filehdr h0 h) = c_nlink h"
  "c_ino (taru_filehdr2filehdr h0 h) = c_ino h" "c_is_tar_lnktype (taru_filehdr2filehdr h0 h) = c_is_tar_lnktype h"
  "c_dev_maj (taru_filehdr2filehdr h0 h) = c_dev_maj h" "c_dev_min (taru_filehdr2filehdr h0 h) = c_dev_min h"
  "c_rdev_maj (taru_filehdr2filehdr h0 h) = c_rdev_maj h" "c_rdev_min (taru_filehdr2filehdr h0 h) = c_rdev_min h"
  "c_cu (taru_filehdr2filehdr h0 h) = c_cu h" "c_cg (taru_filehdr2filehdr h0 h) = c_cg h"
  "extattlistM (taru_filehdr2filehdr h0 h) = map_option (\<lambda>l. l\<lparr>refcountM := refcountM l + 1\<rparr>) (extattlistM h)"
  by (simp_all add: taru_filehdr2filehdr_def ahs_name_defs Let_def)

lemma alike_copied: "alike (taru_filehdr2filehdr h0 h) h"
  by (simp add: alike_def)

section \<open>Writing the record\<close>

lemma header2_sent:
  assumes "taru_write_out_tar_header2 w taru h None u g fl = Some (512, hdr, w', taru')"
  shows "taru_write_out_tar_header2 w taru h (Some [int TARRECORDSIZE]) u g fl = Some (512, hdr, w', taru')"
  using assms unfolding taru_write_out_tar_header2_def
  by (auto simp: Let_def bind_eq_Some_conv split: if_splits sum.splits)

text \<open>A record as the reader of archives takes it: well formed and with the right checksum.\<close>

definition good_record :: "block \<Rightarrow> new_cpio_header \<Rightarrow> tarflags \<Rightarrow> bool" where
  "good_record hdr h fl \<longleftrightarrow> written hdr h fl (user_of h) (group_of h) \<and>
     (\<exists>s. read_num hdr 148 = Some s \<and> taru_tar_checksum hdr = Some s)"

lemma alike_good: "alike h' h \<Longrightarrow> good_record hdr h' fl = good_record hdr h fl"
  unfolding good_record_def written_def using alike_member_name [of h' h fl] alike_tarflag [of h' h]
  by (simp add: alike_def mode_written_def size_written_def link_written_def)

lemma put_header_good:
  assumes "ustar_ok h fl (user_of h) (group_of h)" "\<not> do_record_headerM (ms_taru s)" "tar_format fmt"
    "\<not> flag_set fl TARU_TAR_DO_STRIP_LEADING_SLASH"
  obtains hdr where "put_header fmt fd fl h s = Some (512, h, s\<lparr>ms_out := ms_out s @ hdr\<rparr>)" "good_record hdr h fl" "length hdr = 512"
proof -
  obtain hdr taru' v where w: "taru_write_out_tar_header2 (ms_owners s) (ms_taru s) h None (Some (user_of h)) (Some (group_of h)) fl =
      Some (512, hdr, ms_owners s, taru')"
    "written hdr h fl (user_of h) (group_of h)" "read_num hdr 148 = Some v" "taru_tar_checksum hdr = Some v"
    by (rule write_header_accepted [OF assms(1,2)])
  obtain hdr1 taru1 where "taru_write_out_tar_header2 (ms_owners s) (ms_taru s) h None (Some (user_of h)) (Some (group_of h)) fl =
      Some (512, hdr1, ms_owners s, taru1)" "taru1 = ms_taru s"
    by (rule write_header_written [OF assms(1), of "ms_taru s" "ms_owners s"]) (use assms(2) in auto)
  then have t: "taru' = ms_taru s" using w(1) by simp
  have f: "\<not> (fmt = arf_newascii \<or> fmt = arf_crcascii)" "\<not> (fmt = arf_oldascii \<or> fmt = arf_hpoldascii)" "fmt = arf_tar \<or> fmt = arf_ustar"
    using assms(3) by (auto simp: tar_format_def)
  have "put_header fmt fd fl h s = Some (512, h, s\<lparr>ms_out := ms_out s @ hdr\<rparr>)"
    unfolding put_header_def taru_write_out_header_def Let_def if_not_P [OF f(1)] if_not_P [OF f(2)] if_P [OF f(3)] if_not_P [OF assms(4)]
      header2_sent [OF w(1)] t by simp
  then show thesis using w that by (auto simp: good_record_def written_def)
qed

section \<open>Members that need no record in front of their header\<close>

text \<open>The header that is written for a member.\<close>

definition sent :: "new_cpio_header \<Rightarrow> new_cpio_header" where
  "sent h = (if file_type h = CP_IFREG then h
     else if file_type h = CP_IFLNK then h\<lparr>c_filesize := of_nat (length (ahsStaticGetTarLinkname h))\<rparr> else h\<lparr>c_filesize := 0\<rparr>)"

abbreviation pax_allowed :: "tarflags \<Rightarrow> bool" where
  "pax_allowed fl \<equiv> flag_set fl TARU_TAR_PAXEXTHDR \<or> flag_set fl TARU_TAR_PAXEXTHDR_MD"

definition plain_member :: "tarflags \<Rightarrow> new_cpio_header \<Rightarrow> bool" where
  "plain_member fl h \<longleftrightarrow> ustar_ok (sent h) fl (user_of h) (group_of h) \<and>
     taru_is_tar_filename_too_long (ahsStaticGetTarFilename h) fl False = (0, 0) \<and>
     (file_type h = CP_IFLNK \<longrightarrow> length (ahsStaticGetTarLinkname h) < 100) \<and>
     (pax_allowed fl \<or> flag_set fl TARU_TAR_NO_OVERFLOW \<longrightarrow> taru_fill_exthdr_needs_mask h fl = 0 \<and> extattlistM h = None)"

lemma sent_fields [simp]:
  "ahsStaticGetTarFilename (sent h) = ahsStaticGetTarFilename h" "ahsStaticGetTarLinkname (sent h) = ahsStaticGetTarLinkname h"
  "ahsStaticGetTarUsername (sent h) = ahsStaticGetTarUsername h" "ahsStaticGetTarGroupname (sent h) = ahsStaticGetTarGroupname h"
  "c_mode (sent h) = c_mode h" "c_uid (sent h) = c_uid h" "c_gid (sent h) = c_gid h" "c_mtime (sent h) = c_mtime h"
  "c_rdev_maj (sent h) = c_rdev_maj h" "c_rdev_min (sent h) = c_rdev_min h" "c_cu (sent h) = c_cu h" "c_cg (sent h) = c_cg h"
  by (simp_all add: sent_def ahs_name_defs)

lemma alike_sent: "alike h' h \<Longrightarrow> alike (sent h') (sent h)"
  by (simp add: alike_def) (simp add: sent_def)

lemma needs_mask_cong:
  assumes "alike h' h" "c_dev_maj h' = c_dev_maj h" "c_dev_min h' = c_dev_min h"
  shows "taru_fill_exthdr_needs_mask h' fl = taru_fill_exthdr_needs_mask h fl"
  using assms unfolding taru_fill_exthdr_needs_mask_def alike_def by simp

lemma set_owner_names_unone:
  "c_cu h = TARU_C_BY_UNONE \<Longrightarrow> c_cg h = TARU_C_BY_UNONE \<Longrightarrow> set_owner_names h w n = Some (h, w)"
  by (simp add: set_owner_names_def taru_set_filehdr_sysdb_nameid_by_policy_def Let_def)

lemma prefix_plain:
  assumes "plain_member fl h" "alike h' h" "c_dev_maj h' = c_dev_maj h" "c_dev_min h' = c_dev_min h"
    "extattlistM h = None \<longrightarrow> extattlistM h' = None"
  shows "put_tar_prefix h0 pid fd fl h' s =
    Some (Inr (h'\<lparr>extHeader_needs_maskM := taru_fill_exthdr_needs_mask h fl\<rparr>, 0, False), s)"
proof -
  have o: "length (ahsStaticGetTarLinkname h) \<le> 100" "c_cu h = TARU_C_BY_UNONE" "c_cg h = TARU_C_BY_UNONE"
    and p: "taru_is_tar_filename_too_long (ahsStaticGetTarFilename h) fl False = (0, 0)"
    "pax_allowed fl \<or> flag_set fl TARU_TAR_NO_OVERFLOW \<longrightarrow> taru_fill_exthdr_needs_mask h fl = 0 \<and> extattlistM h = None"
    using assms(1) by (auto simp: plain_member_def ustar_ok_def Let_def)
  have e: "ahsStaticGetTarFilename h' = ahsStaticGetTarFilename h" "ahsStaticGetTarLinkname h' = ahsStaticGetTarLinkname h"
    "c_cu h' = TARU_C_BY_UNONE" "c_cg h' = TARU_C_BY_UNONE"
    using assms(2) o by (auto simp: alike_def)
  have l: "taru_is_tar_linkname_too_long (ahsStaticGetTarLinkname h) fl = (0, 0)"
    using o(1) by (simp add: taru_is_tar_linkname_too_long_def TARLINKNAMESIZE_def)
  have so: "set_owner_names (h'\<lparr>extHeader_needs_maskM := m\<rparr>) w n = Some (h'\<lparr>extHeader_needs_maskM := m\<rparr>, w)" for m w n
    using e by (intro set_owner_names_unone) simp_all
  have u: "s\<lparr>ms_owners := ms_owners s\<rparr> = s" by (cases s) simp
  have ex: "extattlistM h' = None" if "pax_allowed fl" using that p(2) assms(5) by blast
  show ?thesis
    unfolding put_tar_prefix_def Let_def e(1,2) l p(1) needs_mask_cong [OF assms(2-4)]
    using p(2) ex so u by (auto simp: split: if_splits)
qed

lemma member_by_type_plain:
  assumes "ustar_ok (sent h) fl (user_of h) (group_of h)" "file_type h = CP_IFLNK \<longrightarrow> length (ahsStaticGetTarLinkname h) < 100"
    "\<not> do_record_headerM (ms_taru s)" "\<not> flag_set fl TARU_TAR_DO_STRIP_LEADING_SLASH" "ms_links s = None"
  obtains hdr where "member_by_type fns content h0 arf_ustar fd fl False h s = Some (Inr (512, 0), sent h, s\<lparr>ms_out := ms_out s @ hdr\<rparr>)"
    "good_record hdr (sent h) fl" "length hdr = 512"
proof -
  have "ustar_ok (sent h) fl (user_of (sent h)) (group_of (sent h))" using assms(1) by simp
  then obtain hdr where hdr: "put_header arf_ustar fd fl (sent h) s = Some (512, sent h, s\<lparr>ms_out := ms_out s @ hdr\<rparr>)"
    "good_record hdr (sent h) fl" "length hdr = 512"
    by (rule put_header_good [OF _ assms(3) _ assms(4), of _ arf_ustar fd]) (simp_all add: tar_format_def)
  have t: "file_type h \<in> {CP_IFREG, CP_IFDIR, CP_IFCHR, CP_IFBLK, CP_IFIFO, CP_IFLNK}"
    using assms(1) by (simp add: ustar_ok_def)
  have la: "\<not> link_active s'" if "ms_links s' = None" for s' using that by (simp add: link_active_def)
  have p: "plain_header arf_ustar fd fl r (sent h) s = Some (Inr (512, 0), sent h, s\<lparr>ms_out := ms_out s @ hdr\<rparr>)" for r
    unfolding plain_header_def hdr(1) by (simp add: record_link_def la assms(5))
  have "member_by_type fns content h0 arf_ustar fd fl False h s = plain_header arf_ustar fd fl (file_type h = CP_IFREG \<or>
      file_type h \<noteq> CP_IFDIR \<and> file_type h \<noteq> CP_IFLNK) (sent h) s"
    using t assms(2) la [OF assms(5)]
    by (auto simp: member_by_type_def regular_member_def special_member_def symlink_member_def sent_def tar_format_def cpio_ascii_def Let_def
        TARNAMESIZE_def)
  then show thesis using that hdr(2,3) p by simp
qed


section \<open>A member with its data\<close>

definition has_data :: "new_cpio_header \<Rightarrow> bool" where
  "has_data h \<longleftrightarrow> file_type h = CP_IFREG \<and> ahsStaticGetTarLinkname h = []"

text \<open>The data of a member that are in the archive.\<close>

definition stored_data :: "new_cpio_header \<Rightarrow> char list \<Rightarrow> char list" where
  "stored_data h inp = (if has_data h then take (unat (c_filesize h)) inp else [])"

definition member_body :: "new_cpio_header \<Rightarrow> char list \<Rightarrow> char list" where
  "member_body h inp = (if has_data h then take (unat (c_filesize h)) inp @ padding_of h arf_ustar else [])"

text \<open>What is asked of the run: an output, digests of the concatenated data, no recording of headers, no table of links.\<close>

definition run_ok :: "digest_fns \<Rightarrow> int \<Rightarrow> tarflags \<Rightarrow> member_state \<Rightarrow> bool" where
  "run_ok fns fd fl s \<longleftrightarrow> 0 < fd \<and> streaming (md5_fn fns) \<and> streaming (sha1_fn fns) \<and> streaming (sha512_fn fns) \<and>
     \<not> flag_set fl TARU_TAR_DO_STRIP_LEADING_SLASH \<and> \<not> do_record_headerM (ms_taru s) \<and> ms_links s = None"

lemma padding_cong: "c_filesize h' = c_filesize h \<Longrightarrow> padding_of h' fmt = padding_of h fmt"
  by (simp add: padding_of_def)

lemma member_data_written:
  assumes "has_data h" "unat (c_filesize h) < 2 ^ 63" "unat (c_filesize h) \<le> length inp" "0 < fd"
    "streaming (md5_fn fns)" "streaming (sha1_fn fns)" "streaming (sha512_fn fns)"
  shows "md_ret (taru_write_archive_member_data fns content h fd (Some inp) None arf_ustar (- 1) digs) = int (length (member_body h inp))"
    "md_out (taru_write_archive_member_data fns content h fd (Some inp) None arf_ustar (- 1) digs) = member_body h inp"
proof -
  have r: "regular_data h" using assms(1,2) by (simp add: regular_data_def has_data_def)
  have "taru_write_archive_member_data_i fns content h fd fd (Some inp) None arf_ustar (- 1) digs =
    \<lparr>md_ret = int (unat (c_filesize h) + length (padding_of h arf_ustar)),
     md_out = take (unat (c_filesize h)) inp, md_pad = padding_of h arf_ustar, md_adjunct = [],
     md_digs = map_option (digests_of fns (take (unat (c_filesize h)) inp)) digs, md_rest = drop (unat (c_filesize h)) inp\<rparr>"
    using member_data_ok [where content = content and adj = "-1" and digs = digs and fd = fd and pad_fd = fd and fmt = arf_ustar,
        OF r assms(3) _ _ _ _ assms(5-7)] assms(4) by simp
  then show "md_ret (taru_write_archive_member_data fns content h fd (Some inp) None arf_ustar (- 1) digs) = int (length (member_body h inp))"
    "md_out (taru_write_archive_member_data fns content h fd (Some inp) None arf_ustar (- 1) digs) = member_body h inp"
    using assms(1,3) by (simp_all add: taru_write_archive_member_data_def Let_def member_body_def)
qed

text \<open>From the header onwards, whatever was written in front of it.\<close>

lemma member_after_header:
  assumes "taru_write_archive_member_header fns content pid h0 (h\<lparr>c_chksum := 0\<rparr>) fd arf_ustar fl s = Some (512, Some h'', s')"
    "alike h'' (sent h)" "has_data h \<Longrightarrow> unat (c_filesize h) < 2 ^ 63 \<and> unat (c_filesize h) \<le> length inp" "run_ok fns fd fl s"
  shows "\<exists>d. tarui_write_archive_member_i fns content pid h0 h fd (Some inp) arf_ustar fl s =
    Some (512 + int (length (member_body h inp)), d, s'\<lparr>ms_out := ms_out s' @ member_body h inp\<rparr>)"
proof -
  have a: "c_mode h'' = c_mode h" "ahsStaticGetTarLinkname h'' = ahsStaticGetTarLinkname h" using assms(2) by (simp_all add: alike_def)
  have u: "s'\<lparr>ms_out := ms_out s' @ []\<rparr> = s'" by (cases s') simp
  show ?thesis
  proof (cases "has_data h")
    case False
    then show ?thesis
      unfolding tarui_write_archive_member_i_def using a u by (auto simp: assms(1) member_body_def has_data_def Let_def)
  next
    case True
    have hd: "has_data h''" "c_filesize h'' = c_filesize h" "member_body h'' inp = member_body h inp"
      using True a assms(2) by (simp_all add: has_data_def alike_def sent_def member_body_def padding_of_def)
    note d = member_data_written [where content = content and digs = "digsM h", OF hd(1)]
    have d': "md_ret (taru_write_archive_member_data fns content h'' fd (Some inp) None arf_ustar (- 1) (digsM h)) =
        int (length (member_body h inp))"
      "md_out (taru_write_archive_member_data fns content h'' fd (Some inp) None arf_ustar (- 1) (digsM h)) = member_body h inp"
      using assms(3) [OF True] assms(4) d [of inp fd fns] hd(2,3) by (simp_all add: run_ok_def)
    show ?thesis
      unfolding tarui_write_archive_member_i_def using True a d' by (auto simp: assms(1) has_data_def Let_def)
  qed
qed

lemma plain_member_written:
  assumes "plain_member fl h" "run_ok fns fd fl s" "has_data h \<Longrightarrow> unat (c_filesize h) \<le> length inp"
  obtains hdr where "taru_write_archive_member fns access content readlink pid h0 filename h fd (Some inp) arf_ustar fl s =
      Some (int (length (hdr @ member_body h inp)), s\<lparr>ms_out := ms_out s @ hdr @ member_body h inp\<rparr>)"
    "good_record hdr (sent h) fl" "length hdr = 512"
proof -
  let ?h = "(taru_filehdr2filehdr h0 h)\<lparr>c_chksum := 0\<rparr>"
  define h1 where "h1 = (taru_filehdr2filehdr h0 ?h)\<lparr>c_namesize := of_nat (length (ahsStaticGetTarFilename h) + 1)\<rparr>"
  define h2 where "h2 = h1\<lparr>extHeader_needs_maskM := taru_fill_exthdr_needs_mask h fl\<rparr>"
  have a1: "alike h1 h" by (simp add: alike_def h1_def)
  have a2: "alike h2 h" using a1 by (simp add: h2_def alike_def)
  have p: "put_tar_prefix h0 pid fd fl h1 s = Some (Inr (h2, 0, False), s)"
    unfolding h2_def by (rule prefix_plain [OF assms(1) a1]) (simp_all add: h1_def)
  have ok: "ustar_ok (sent h2) fl (user_of h2) (group_of h2)" "file_type h2 = CP_IFLNK \<longrightarrow> length (ahsStaticGetTarLinkname h2) < 100"
    using assms(1) a2 alike_ustar_ok [OF alike_sent [OF a2]] by (auto simp: plain_member_def alike_def)
  have r: "\<not> do_record_headerM (ms_taru s)" "\<not> flag_set fl TARU_TAR_DO_STRIP_LEADING_SLASH" "ms_links s = None"
    using assms(2) by (simp_all add: run_ok_def)
  obtain hdr where hdr: "member_by_type fns content h0 arf_ustar fd fl False h2 s = Some (Inr (512, 0), sent h2, s\<lparr>ms_out := ms_out s @ hdr\<rparr>)"
    "good_record hdr (sent h2) fl" "length hdr = 512"
    by (rule member_by_type_plain [OF ok r, of fns content h0 fd])
  have v: "virtual_inode arf_ustar x s = Some (x, s)" for x by (simp add: virtual_inode_def cpio_ascii_def split: option.split)
  have w: "taru_write_archive_member_header fns content pid h0 ?h fd arf_ustar fl s =
      Some (512, Some (taru_filehdr2filehdr h0 (sent h2)), s\<lparr>ms_out := ms_out s @ hdr\<rparr>)"
    unfolding taru_write_archive_member_header_def using r(2) p hdr(1)
    by (simp add: v tar_format_def h1_def)
  have a3: "alike (taru_filehdr2filehdr h0 (sent h2)) (sent (taru_filehdr2filehdr h0 h))"
    using alike_sent [OF a2] alike_sent [OF alike_copied [of h0 h]] by (simp add: alike_def)
  have sz: "has_data (taru_filehdr2filehdr h0 h) \<Longrightarrow> unat (c_filesize (taru_filehdr2filehdr h0 h)) < 2 ^ 63 \<and>
      unat (c_filesize (taru_filehdr2filehdr h0 h)) \<le> length inp"
    using assms(1,3) by (auto simp: has_data_def plain_member_def ustar_ok_def sent_def)
  obtain d where d: "tarui_write_archive_member_i fns content pid h0 (taru_filehdr2filehdr h0 h) fd (Some inp) arf_ustar fl s =
     Some (512 + int (length (member_body (taru_filehdr2filehdr h0 h) inp)), d,
       s\<lparr>ms_out := ms_out s @ hdr\<rparr>\<lparr>ms_out := ms_out (s\<lparr>ms_out := ms_out s @ hdr\<rparr>) @ member_body (taru_filehdr2filehdr h0 h) inp\<rparr>)"
    using member_after_header [OF w a3 sz assms(2)] by blast
  have b: "member_body (taru_filehdr2filehdr h0 h) inp = member_body h inp"
    by (simp add: member_body_def has_data_def padding_of_def)
  have "good_record hdr (sent h) fl" using hdr(2) alike_good [OF alike_sent [OF a2]] by simp
  then show thesis
    using that d hdr(3) by (simp add: taru_write_archive_member_def open_member_def b)
qed


section \<open>The client that reads an archive\<close>

text \<open>A header, the data its size announces, the padding; until the reader reports the end of the archive.\<close>

partial_function (option) read_archive ::
  "bool \<Rightarrow> tarflags \<Rightarrow> taru \<Rightarrow> new_cpio_header \<Rightarrow> owners \<Rightarrow> tar_source \<Rightarrow>
   ((new_cpio_header \<times> char list) list \<times> tar_source) option" where
  "read_archive junk flags taru h0 w src = do {
     r \<leftarrow> taru_read_in_tar_header2 junk flags taru h0 w src;
     if hi_eoa r \<noteq> 0 then Some ([], hi_source r)
     else (case hi_source r of
        Tar_buffer b off n \<Rightarrow> None
      | Tar_fd inp ib \<Rightarrow> do {
          (_, p, inp) \<leftarrow> taru_pump_amount2 (uint (c_filesize (hi_header r))) inp (Some []) None;
          d \<leftarrow> discharged p;
          (_, inp) \<leftarrow> skip_padding (c_filesize (hi_header r)) arf_ustar inp;
          (ms, src) \<leftarrow> read_archive junk flags (hi_taru r) h0 (hi_owners r) (Tar_fd inp ib);
          Some ((hi_header r, d) # ms, src) }) }"

text \<open>Bytes that a ready reader takes as one header.\<close>

definition reads_as :: "int \<Rightarrow> tarflags \<Rightarrow> char list \<Rightarrow> (new_cpio_header \<Rightarrow> bool) \<Rightarrow> bool" where
  "reads_as R rfl bytes P \<longleftrightarrow>
     (\<forall>junk taru h0 v ib rest. ready taru R \<longrightarrow> extattlistM h0 = None \<longrightarrow> gst_fdM ib \<le> 0 \<longrightarrow>
       (\<exists>r. taru_read_in_tar_header2 junk rfl taru h0 v (Tar_fd (bytes @ rest) ib) = Some r \<and> hi_ret r = int (length bytes) \<and>
         hi_eoa r = 0 \<and> hi_source r = Tar_fd rest ib \<and> ready (hi_taru r) R \<and> hi_owners r = v \<and> P (hi_header r)))"

text \<open>Bytes that hold a header, the data \<open>d\<close> and their padding.\<close>

definition stored_as :: "int \<Rightarrow> tarflags \<Rightarrow> char list \<Rightarrow> char list \<Rightarrow> (new_cpio_header \<Rightarrow> bool) \<Rightarrow> bool" where
  "stored_as R rfl bytes d P \<longleftrightarrow>
     (\<exists>hdr. bytes = hdr @ d @ replicate (unat (skip_pad (of_nat (length d)) arf_ustar)) NUL \<and> length d < 2 ^ 63 \<and>
        reads_as R rfl hdr (\<lambda>h. P h \<and> c_filesize h = of_nat (length d)))"

lemma length_small_word: "n < 2 ^ 63 \<Longrightarrow> uint (of_nat n :: 64 word) = int n"
  by (simp add: unsigned_of_nat take_bit_nat_eq_self)

lemma read_archive_member:
  assumes "stored_as R rfl bytes d P" "ready taru R" "extattlistM h0 = None" "gst_fdM ib \<le> 0"
  obtains h taru' where "P h" "ready taru' R" "read_archive junk rfl taru h0 w (Tar_fd (bytes @ rest) ib) =
    map_option (\<lambda>(ms, src). ((h, d) # ms, src)) (read_archive junk rfl taru' h0 w (Tar_fd rest ib))"
proof -
  let ?pad = "replicate (unat (skip_pad (of_nat (length d)) arf_ustar)) NUL"
  obtain hdr where hdr: "bytes = hdr @ d @ ?pad" "length d < 2 ^ 63" "reads_as R rfl hdr (\<lambda>h. P h \<and> c_filesize h = of_nat (length d))"
    using assms(1) by (auto simp: stored_as_def)
  obtain r where r: "taru_read_in_tar_header2 junk rfl taru h0 w (Tar_fd (hdr @ d @ ?pad @ rest) ib) = Some r" "hi_eoa r = 0"
    "hi_source r = Tar_fd (d @ ?pad @ rest) ib" "ready (hi_taru r) R" "hi_owners r = w" "P (hi_header r)"
    "c_filesize (hi_header r) = of_nat (length d)"
    using hdr(3) assms(2-4) unfolding reads_as_def by blast
  have af: "asked_for (int (length d)) (d @ ?pad @ rest) = d" by (simp add: asked_for_def)
  have pump: "taru_pump_amount2 (int (length d)) (d @ ?pad @ rest) (Some []) None =
      Some (int (length d), \<lparr>discharged = Some d, adjoined = None, obuf = None\<rparr>, ?pad @ rest)"
    unfolding taru_pump_amount2_ok af by simp
  have skip: "skip_padding (of_nat (length d)) arf_ustar (?pad @ rest) = Some (uint (skip_pad (of_nat (length d)) arf_ustar), rest)"
    using skip_padding_ok [of "of_nat (length d)" arf_ustar "?pad @ rest"] by simp
  have "read_archive junk rfl taru h0 w (Tar_fd (bytes @ rest) ib) =
    map_option (\<lambda>(ms, src). ((hi_header r, d) # ms, src)) (read_archive junk rfl (hi_taru r) h0 w (Tar_fd rest ib))"
    by (subst read_archive.simps)
      (simp add: hdr(1) r length_small_word [OF hdr(2)] pump skip map_option_case split: option.split)
  then show thesis using that r(4,6) by blast
qed

lemma read_archive_end:
  assumes "ready taru R" "1025 \<le> R" "extattlistM h0 = None" "gst_fdM ib \<le> 0"
  shows "read_archive junk rfl taru h0 w (Tar_fd (replicate 1024 NUL @ rest) ib) = Some ([], Tar_fd rest ib)"
proof -
  have z: "replicate 1024 NUL @ rest = replicate 512 NUL @ replicate 512 NUL @ rest"
    using replicate_add [of 512 512 NUL] by simp
  obtain r where "taru_read_in_tar_header2 junk rfl taru h0 w (Tar_fd (replicate 512 NUL @ replicate 512 NUL @ rest) ib) = Some r"
    "hi_ret r = 1024" "hi_eoa r = hi_ret r" "hi_source r = Tar_fd rest ib"
    using end_of_archive_reads [OF assms, of "replicate 512 NUL" junk rfl w rest] by auto
  then show ?thesis unfolding z by (subst read_archive.simps) simp
qed

lemma read_archive_all:
  assumes "\<forall>(bytes, d, P) \<in> set segs. stored_as R rfl bytes d P" "ready taru R" "1025 \<le> R" "extattlistM h0 = None" "gst_fdM ib \<le> 0"
  shows "\<exists>ms. read_archive junk rfl taru h0 w (Tar_fd (concat (map fst segs) @ replicate 1024 NUL @ rest) ib) = Some (ms, Tar_fd rest ib) \<and>
    list_all2 (\<lambda>(h, d') (_, d, P). d' = d \<and> P h) ms segs"
  using assms(1,2)
proof (induction segs arbitrary: taru)
  case Nil
  then show ?case using read_archive_end [OF _ assms(3-5), of taru junk rfl w rest] by simp
next
  case (Cons seg segs)
  obtain bytes d P where seg: "seg = (bytes, d, P)" by (cases seg) auto
  have "stored_as R rfl bytes d P" using Cons.prems(1) seg by simp
  then obtain h taru' where h: "P h" "ready taru' R"
    "read_archive junk rfl taru h0 w (Tar_fd (bytes @ concat (map fst segs) @ replicate 1024 NUL @ rest) ib) =
     map_option (\<lambda>(ms, src). ((h, d) # ms, src)) (read_archive junk rfl taru' h0 w (Tar_fd (concat (map fst segs) @ replicate 1024 NUL @ rest) ib))"
    by (rule read_archive_member [OF _ Cons.prems(2) assms(4,5)])
  obtain ms where "read_archive junk rfl taru' h0 w (Tar_fd (concat (map fst segs) @ replicate 1024 NUL @ rest) ib) = Some (ms, Tar_fd rest ib)"
    "list_all2 (\<lambda>(h, d') (_, d, P). d' = d \<and> P h) ms segs"
    using Cons.IH [OF _ h(2)] Cons.prems(1) by auto
  then show ?case using h(1,3) by (intro exI [of _ "(h, d) # ms"]) (simp add: seg)
qed


section \<open>Writers of members\<close>

text \<open>The members of an archive, one after the other, until one fails.\<close>

fun write_members ::
  "('m \<Rightarrow> member_state \<Rightarrow> (int \<times> member_state) option) \<Rightarrow> 'm list \<Rightarrow> member_state \<Rightarrow> (int \<times> member_state) option" where
  "write_members wr [] s = Some (0, s)"
| "write_members wr (m # ms) s = do {
     (n, s) \<leftarrow> wr m s;
     if n < 0 then Some (n, s)
     else do {
       (k, s) \<leftarrow> write_members wr ms s;
       Some (if k < 0 then k else n + k, s) } }"

text \<open>What the archive relies on: \<open>wr\<close> keeps the state usable and appends bytes in which the reader finds the data of the
  member and a header that \<open>seen\<close> accepts; the number it returns is a multiple of the block size.\<close>

locale member_writer =
  fixes wr :: "'m \<Rightarrow> member_state \<Rightarrow> (int \<times> member_state) option"
    and usable :: "member_state \<Rightarrow> bool"
    and ok :: "'m \<Rightarrow> bool"
    and data_of :: "'m \<Rightarrow> char list"
    and seen :: "'m \<Rightarrow> new_cpio_header \<Rightarrow> bool"
    and R :: int
    and rfl :: tarflags
  assumes put_stored: "ok m \<Longrightarrow> usable s \<Longrightarrow>
      \<exists>n s' bytes. wr m s = Some (int n, s') \<and> n mod 512 = 0 \<and> usable s' \<and> ms_out s' = ms_out s @ bytes \<and>
        stored_as R rfl bytes (data_of m) (seen m)"
begin

lemma members_stored:
  assumes "\<forall>m \<in> set ms. ok m" "usable s"
  shows "\<exists>n s' bss. write_members wr ms s = Some (int n, s') \<and> n mod 512 = 0 \<and> usable s' \<and> ms_out s' = ms_out s @ concat bss \<and>
    list_all2 (\<lambda>bytes m. stored_as R rfl bytes (data_of m) (seen m)) bss ms"
  using assms
proof (induction ms arbitrary: s)
  case Nil
  then show ?case by (intro exI [of _ 0] exI [of _ s] exI [of _ "[]"]) simp
next
  case (Cons m ms)
  obtain n s1 bytes where m: "wr m s = Some (int n, s1)" "n mod 512 = 0" "usable s1" "ms_out s1 = ms_out s @ bytes"
    "stored_as R rfl bytes (data_of m) (seen m)"
    using put_stored [of m s] Cons.prems by auto
  obtain k s2 bss where ms: "write_members wr ms s1 = Some (int k, s2)" "k mod 512 = 0" "usable s2" "ms_out s2 = ms_out s1 @ concat bss"
    "list_all2 (\<lambda>bytes m. stored_as R rfl bytes (data_of m) (seen m)) bss ms"
    using Cons.IH [OF _ m(3)] Cons.prems(1) by auto
  have "write_members wr (m # ms) s = Some (int (n + k), s2)" using m(1) ms(1) by simp
  moreover have "(n + k) mod 512 = 0" using m(2) ms(2) unfolding mod_eq_0_iff_dvd by (rule dvd_add)
  moreover have "ms_out s2 = ms_out s @ concat (bytes # bss)" using m(4) ms(4) by simp
  moreover have "list_all2 (\<lambda>bytes m. stored_as R rfl bytes (data_of m) (seen m)) (bytes # bss) (m # ms)" using m(5) ms(5) by simp
  ultimately show ?case
    using ms(3) by (intro exI [of _ "n + k"] exI [of _ s2] exI [of _ "bytes # bss"] conjI)
qed

lemma archive_read:
  assumes "\<forall>m \<in> set ms. ok m" "usable s" "ready taru R" "1025 \<le> R" "extattlistM h0 = None" "gst_fdM ib \<le> 0" "0 < k" "k < 2 ^ 20"
  shows "\<exists>n s' out zeros ms'. write_members wr ms s = Some (int n, s') \<and> ms_out s' = ms_out s @ out \<and>
    taru_write_archive_trailer w wtaru ht arf_ustar fd (int (512 * k)) (of_nat n) fl = Some (int (length zeros), zeros) \<and>
    read_archive junk rfl taru h0 v (Tar_fd (out @ zeros @ rest) ib) = Some (ms', Tar_fd (drop 1024 zeros @ rest) ib) \<and>
    list_all2 (\<lambda>(h, d) m. d = data_of m \<and> seen m h) ms' ms"
proof -
  obtain n s' bss where w: "write_members wr ms s = Some (int n, s')" "n mod 512 = 0" "ms_out s' = ms_out s @ concat bss"
    "list_all2 (\<lambda>bytes m. stored_as R rfl bytes (data_of m) (seen m)) bss ms"
    using members_stored [OF assms(1,2)] by (elim exE conjE) (rule that)
  have "unat (of_nat n :: 64 word) mod 512 = 0"
  proof -
    have "(512::nat) dvd 2 ^ 64" by simp
    then have "n mod 2 ^ 64 mod 512 = n mod 512" by (rule mod_mod_cancel)
    then show ?thesis using w(2) by (simp add: unsigned_of_nat take_bit_eq_mod)
  qed
  note zb = trailer_zero_blocks [OF disjI2 [OF refl] this assms(7,8), of w wtaru ht fd fl]
  obtain zeros where z: "taru_write_archive_trailer w wtaru ht arf_ustar fd (int (512 * k)) (of_nat n) fl = Some (int (length zeros), zeros)"
    "set zeros \<subseteq> {NUL}" "1024 \<le> length zeros"
    using zb by (elim exE conjE) (rule that)
  have "take 1024 zeros = replicate 1024 NUL"
    using z(2,3) by (intro replicate_eqI) (auto dest: in_set_takeD)
  then have zs: "zeros = replicate 1024 NUL @ drop 1024 zeros" by (metis append_take_drop_id)
  define segs where "segs = map2 (\<lambda>bytes m. (bytes, data_of m, seen m)) bss ms"
  have len: "length bss = length ms" using w(4) by (rule list_all2_lengthD)
  have c: "concat (map fst segs) = concat bss" using len by (simp add: segs_def comp_def case_prod_beta)
  have st: "\<forall>(bytes, d, P) \<in> set segs. stored_as R rfl bytes d P"
    using w(4) by (auto simp: segs_def set_zip list_all2_conv_all_nth)
  obtain ms' where ms': "read_archive junk rfl taru h0 v (Tar_fd (concat bss @ replicate 1024 NUL @ drop 1024 zeros @ rest) ib) =
      Some (ms', Tar_fd (drop 1024 zeros @ rest) ib)" "list_all2 (\<lambda>(h, d') (_, d, P). d' = d \<and> P h) ms' segs"
    using read_archive_all [OF st assms(3-6), of junk v "drop 1024 zeros @ rest"] unfolding c by blast
  have l: "list_all2 (\<lambda>(h, d) m. d = data_of m \<and> seen m h) ms' ms"
    using ms'(2) len by (auto simp: segs_def list_all2_conv_all_nth case_prod_beta)
  have e: "concat bss @ zeros @ rest = concat bss @ replicate 1024 NUL @ drop 1024 zeros @ rest"
    using arg_cong [OF zs, of "\<lambda>z. concat bss @ z @ rest"] unfolding append_assoc .
  show ?thesis
    by (rule exI [of _ n], rule exI [of _ s'], rule exI [of _ "concat bss"], rule exI [of _ zeros], rule exI [of _ ms'])
      (intro conjI w(1,3) z(1) l, unfold e, rule ms'(1))
qed

end


section \<open>The plain format\<close>

lemma good_record_reads:
  assumes "good_record hdr h fl" "ustar_ok h fl (user_of h) (group_of h)" "\<not> flag_set fl TARU_TAR_NUMERIC_UIDS"
    "flag_set rfl TARU_TAR_RETAIN_HEADER_IDS" "1025 \<le> R"
  shows "reads_as R rfl hdr (\<lambda>h'. read_back h' h fl (user_of h) (group_of h))"
proof -
  obtain v where v: "written hdr h fl (user_of h) (group_of h)" "read_num hdr 148 = Some v" "taru_tar_checksum hdr = Some v"
    using assms(1) by (auto simp: good_record_def)
  then have "length hdr = 512" by (simp add: written_def)
  then show ?thesis
    unfolding reads_as_def using plain_member_reads [OF _ assms(5) _ _ assms(2-4) v] by (simp add: Let_def)
qed

lemma length_stored_data:
  "has_data h \<longrightarrow> unat (c_filesize h) \<le> length inp \<Longrightarrow> length (stored_data h inp) = (if has_data h then unat (c_filesize h) else 0)"
  by (simp add: stored_data_def)

lemma read_back_size:
  assumes "read_back h' (sent h) fl u g" "has_data h \<longrightarrow> unat (c_filesize h) \<le> length inp"
  shows "c_filesize h' = of_nat (length (stored_data h inp))"
proof -
  have "tarflag (sent h) = REGTYPE \<longleftrightarrow> has_data h" "tarflag (sent h) = DIRTYPE \<longleftrightarrow> file_type h = CP_IFDIR"
    by (auto simp: tarflag_def has_data_def)
  then show ?thesis
    using assms by (auto simp: read_back_def same_member_def length_stored_data sent_def has_data_def)
qed

lemma member_body_stored:
  "has_data h \<longrightarrow> unat (c_filesize h) \<le> length inp \<Longrightarrow>
   member_body h inp = stored_data h inp @ replicate (unat (skip_pad (of_nat (length (stored_data h inp))) arf_ustar)) NUL"
  by (simp add: member_body_def length_stored_data) (simp add: stored_data_def padding_of_def skip_pad_def)


lemma length_member_body:
  assumes "has_data h \<longrightarrow> unat (c_filesize h) \<le> length inp"
  shows "length (member_body h inp) mod 512 = 0"
  using assms skip_pad_block [of "c_filesize h" arf_ustar] by (simp add: member_body_def padding_of_def pad_block_def)

lemma member_stored:
  assumes "reads_as R rfl hdr (\<lambda>h'. P h' \<and> c_filesize h' = of_nat (length (stored_data h inp)))"
    "has_data h \<longrightarrow> unat (c_filesize h) \<le> length inp \<and> unat (c_filesize h) < 2 ^ 63"
  shows "stored_as R rfl (hdr @ member_body h inp) (stored_data h inp) P"
proof -
  have "has_data h \<longrightarrow> unat (c_filesize h) \<le> length inp" using assms(2) by simp
  note l = length_stored_data [OF this] and b = member_body_stored [OF this]
  show ?thesis unfolding stored_as_def b using assms l by (intro exI [of _ hdr]) auto
qed

lemma reads_as_mono: "reads_as R rfl bytes P \<Longrightarrow> (\<And>h. P h \<Longrightarrow> Q h) \<Longrightarrow> reads_as R rfl bytes Q"
  unfolding reads_as_def by meson

definition plain_run :: "digest_fns \<Rightarrow> int \<Rightarrow> tarflags \<Rightarrow> tarflags \<Rightarrow> int \<Rightarrow> member_state \<Rightarrow> bool" where
  "plain_run fns fd fl rfl R s \<longleftrightarrow> run_ok fns fd fl s \<and> \<not> flag_set fl TARU_TAR_NUMERIC_UIDS \<and>
     flag_set rfl TARU_TAR_RETAIN_HEADER_IDS \<and> 1025 \<le> R"

lemma small_size: "plain_member fl h \<Longrightarrow> has_data h \<Longrightarrow> unat (c_filesize h) < 2 ^ 63"
  by (auto simp: has_data_def plain_member_def ustar_ok_def sent_def)

lemma plain_put_stored:
  assumes "plain_member fl h \<and> (has_data h \<longrightarrow> unat (c_filesize h) \<le> length inp)" "plain_run fns fd fl rfl R s"
  shows "\<exists>n s' bytes. taru_write_archive_member fns access content readlink pid h0 (ahsStaticGetTarFilename h) h fd (Some inp) arf_ustar fl s =
      Some (int n, s') \<and> n mod 512 = 0 \<and> plain_run fns fd fl rfl R s' \<and> ms_out s' = ms_out s @ bytes \<and>
      stored_as R rfl bytes (stored_data h inp) (\<lambda>h'. read_back h' (sent h) fl (user_of h) (group_of h))"
proof -
  have p: "plain_member fl h" "has_data h \<longrightarrow> unat (c_filesize h) \<le> length inp" using assms(1) by simp_all
  have r: "run_ok fns fd fl s" "\<not> flag_set fl TARU_TAR_NUMERIC_UIDS" "flag_set rfl TARU_TAR_RETAIN_HEADER_IDS" "1025 \<le> R"
    using assms(2) by (simp_all add: plain_run_def)
  obtain hdr where w: "taru_write_archive_member fns access content readlink pid h0 (ahsStaticGetTarFilename h) h fd (Some inp) arf_ustar fl s =
      Some (int (length (hdr @ member_body h inp)), s\<lparr>ms_out := ms_out s @ hdr @ member_body h inp\<rparr>)"
    "good_record hdr (sent h) fl" "length hdr = 512"
    by (rule plain_member_written [OF p(1) r(1)]) (use p(2) in auto)
  have "ustar_ok (sent h) fl (user_of (sent h)) (group_of (sent h))" using p(1) by (simp add: plain_member_def)
  from good_record_reads [OF w(2) this r(2-4)]
  have "reads_as R rfl hdr (\<lambda>h'. read_back h' (sent h) fl (user_of h) (group_of h) \<and> c_filesize h' = of_nat (length (stored_data h inp)))"
    by (rule reads_as_mono) (use read_back_size [OF _ p(2)] in auto)
  then have st: "stored_as R rfl (hdr @ member_body h inp) (stored_data h inp) (\<lambda>h'. read_back h' (sent h) fl (user_of h) (group_of h))"
    by (rule member_stored) (use p small_size [OF p(1)] in blast)
  have m: "length (hdr @ member_body h inp) mod 512 = 0" using w(3) length_member_body [OF p(2)] by simp
  have u: "plain_run fns fd fl rfl R (s\<lparr>ms_out := ms_out s @ hdr @ member_body h inp\<rparr>)"
    using assms(2) by (simp add: plain_run_def run_ok_def)
  show ?thesis
    by (rule exI [of _ "length (hdr @ member_body h inp)"], rule exI [of _ "s\<lparr>ms_out := ms_out s @ hdr @ member_body h inp\<rparr>"],
        rule exI [of _ "hdr @ member_body h inp"]) (intro conjI w(1) m u st, simp)
qed

text \<open>A member and its input, written by the function of the library.\<close>

definition put_member ::
  "digest_fns \<Rightarrow> (string \<Rightarrow> bool) \<Rightarrow> (string \<Rightarrow> char list option) \<Rightarrow> (string \<Rightarrow> string option) \<Rightarrow> nat \<Rightarrow> new_cpio_header \<Rightarrow> int \<Rightarrow> tarflags \<Rightarrow>
   new_cpio_header \<times> char list \<Rightarrow> member_state \<Rightarrow> (int \<times> member_state) option" where
  "put_member fns access content readlink pid h0 fd fl m =
     taru_write_archive_member fns access content readlink pid h0 (ahsStaticGetTarFilename (fst m)) (fst m) fd (Some (snd m)) arf_ustar fl"

interpretation plain_tar: member_writer "put_member fns access content readlink pid hc fd fl" "plain_run fns fd fl rfl R"
  "\<lambda>m. plain_member fl (fst m) \<and> (has_data (fst m) \<longrightarrow> unat (c_filesize (fst m)) \<le> length (snd m))"
  "\<lambda>m. stored_data (fst m) (snd m)" "\<lambda>m h'. read_back h' (sent (fst m)) fl (user_of (fst m)) (group_of (fst m))" R rfl
  for fns access content readlink pid hc fd fl rfl R
  by unfold_locales (unfold put_member_def, rule plain_put_stored)



section \<open>A concrete archive\<close>

text \<open>A file, a directory and a symbolic link.\<close>

definition sample_member :: "64 word \<Rightarrow> string \<Rightarrow> string \<Rightarrow> 64 word \<Rightarrow> new_cpio_header" where
  "sample_member mode name link n = sample_header\<lparr>c_mode := mode, c_name := Some name, c_tar_linkname := Some link,
     c_username := Some ''root'', c_groupname := Some ''root'', c_filesize := n\<rparr>"

definition sample_members :: "(new_cpio_header \<times> char list) list" where
  "sample_members = [(sample_member 0x81A4 ''usr/bin/sw'' [] 4, ''data''), (sample_member 0x41ED ''usr/lib'' [] 0, []),
     (sample_member 0xA1FF ''usr/bin/x'' ''sw'' 0, [])]"

lemma sample_member_names [simp]:
  "ahsStaticGetTarFilename (sample_member m nm l z) = nm" "ahsStaticGetTarLinkname (sample_member m nm l z) = l"
  "ahsStaticGetTarUsername (sample_member m nm l z) = ''root''" "ahsStaticGetTarGroupname (sample_member m nm l z) = ''root''"
  "c_mode (sample_member m nm l z) = m" "c_filesize (sample_member m nm l z) = z" "c_cu (sample_member m nm l z) = 0"
  "c_cg (sample_member m nm l z) = 0" "c_uid (sample_member m nm l z) = 2097151" "c_gid (sample_member m nm l z) = 2097151"
  "c_mtime (sample_member m nm l z) = 0" "c_rdev_maj (sample_member m nm l z) = 0" "c_rdev_min (sample_member m nm l z) = 0"
  by (simp_all add: sample_member_def sample_header_def ahs_name_defs)

lemma sample_members_plain: "(h, inp) \<in> set sample_members \<Longrightarrow> plain_member 0 h \<and> (has_data h \<longrightarrow> unat (c_filesize h) \<le> length inp)"
proof -
  have t: "taru_is_tar_filename_too_long ''usr/bin/sw'' 0 False = (0, 0)" "taru_is_tar_filename_too_long ''usr/lib'' 0 False = (0, 0)"
    "taru_is_tar_filename_too_long ''usr/bin/x'' 0 False = (0, 0)" by code_simp+
  have z: "c_filesize (sent (sample_member m nm l z)) =
      (if and m CP_IFMT = CP_IFREG then z else if and m CP_IFMT = CP_IFLNK then of_nat (length l) else 0)" for m nm l z
    by (simp add: sent_def)
  show "(h, inp) \<in> set sample_members \<Longrightarrow> plain_member 0 h \<and> (has_data h \<longrightarrow> unat (c_filesize h) \<le> length inp)"
    by (auto simp: sample_members_def plain_member_def has_data_def ustar_ok_def header_member_name_def c_string_def GNU_LONG_LINK_def
        flag_set_def t z)
qed

lemma sample_run_ok:
  "plain_run plain_fns 1 0 TARU_TAR_RETAIN_HEADER_IDS 2049 (s\<lparr>ms_taru := (ms_taru s)\<lparr>do_record_headerM := False\<rparr>, ms_links := None\<rparr>)"
  using plain_fns_streaming read_flags by (simp add: plain_run_def run_ok_def flag_set_def)



end
