(* ===== verification/Vercmp.thy ===== *)
theory Vercmp
  imports ToOct Ahs "HOL-Library.List_Lexorder"
begin

text \<open>
  Comparison of version strings: \<open>swlib_rpmvercmp\<close> (\<open>swsupplib/misc/vercmp.c\<close>). A version is read as a list of
  segments, numbers and words; the order of these lists is what the comparison computes, and where it is not.
\<close>

section \<open>The comparison\<close>

definition isalnum :: "char \<Rightarrow> bool" where
  "isalnum c \<longleftrightarrow> isalpha c \<or> isdigit c"

lemma dropWhile_shorter: "takeWhile P xs \<noteq> [] \<Longrightarrow> length (dropWhile P xs) < length xs"
  using arg_cong [OF takeWhile_dropWhile_id [of P xs], of length] by (cases "takeWhile P xs") auto

text \<open>\<open>cmp\<close> is \<open>strcmp\<close>, of whose result the C standard fixes only the sign. The loop works on copies, so a segment is
  the text in front of the NUL that is stored at its end for the time of the comparison.\<close>

function vercmp_loop :: "(string \<Rightarrow> string \<Rightarrow> int) \<Rightarrow> string \<Rightarrow> string \<Rightarrow> int" where
  "vercmp_loop cmp one two =
     (if one = [] \<or> two = [] then (if one = [] \<and> two = [] then 0 else if one = [] then - 1 else 1)
      else
        (let one = dropWhile (\<lambda>c. \<not> isalnum c) one;
             two = dropWhile (\<lambda>c. \<not> isalnum c) two;
             isnum = (one \<noteq> [] \<and> isdigit (hd one));
             in_seg = (if isnum then isdigit else isalpha);
             seg1 = takeWhile in_seg one;
             seg2 = takeWhile in_seg two
         in if seg1 = [] then - 1
            else if seg2 = [] then (if isnum then 1 else - 1)
            else
              (let s1 = (if isnum then dropWhile (\<lambda>c. c = CHR ''0'') seg1 else seg1);
                   s2 = (if isnum then dropWhile (\<lambda>c. c = CHR ''0'') seg2 else seg2);
                   rc = cmp s1 s2
               in if isnum \<and> length s1 > length s2 then 1
                  else if isnum \<and> length s2 > length s1 then - 1
                  else if rc \<noteq> 0 then rc
                  else vercmp_loop cmp (dropWhile in_seg one) (dropWhile in_seg two))))"
  by pat_completeness auto

termination
proof (relation "measure (\<lambda>(_, one, _). length one)", goal_cases)
  case 1
  show ?case by simp
next
  case (2 cmp one two x xa xb xc xd xe xf xg xh)
  have "length x \<le> length one" using 2(2) by (simp add: length_dropWhile_le)
  moreover have "length (dropWhile xc x) < length x" using dropWhile_shorter [of xc x] 2(6,8) by simp
  ultimately show ?case by simp
qed

declare vercmp_loop.simps [simp del]

definition swlib_rpmvercmp :: "(string \<Rightarrow> string \<Rightarrow> int) \<Rightarrow> string \<Rightarrow> string \<Rightarrow> int" where
  "swlib_rpmvercmp cmp a b = (if a = b then 0 else vercmp_loop cmp a b)"

section \<open>Versions as lists of segments\<close>

datatype segment = Word string | Num nat

text \<open>A number is newer than a word.\<close>

instantiation segment :: linorder
begin

definition less_segment :: "segment \<Rightarrow> segment \<Rightarrow> bool" where
  "less_segment x y = (case (x, y) of (Word s, Word t) \<Rightarrow> s < t | (Word _, Num _) \<Rightarrow> True | (Num _, Word _) \<Rightarrow> False | (Num m, Num n) \<Rightarrow> m < n)"

definition less_eq_segment :: "segment \<Rightarrow> segment \<Rightarrow> bool" where
  "less_eq_segment x y = (x < y \<or> x = y)"

instance
proof
  fix x y z :: segment
  show "x < y \<longleftrightarrow> x \<le> y \<and> \<not> y \<le> x" by (auto simp: less_segment_def less_eq_segment_def split: segment.splits)
  show "x \<le> x" by (simp add: less_eq_segment_def)
  show "x \<le> y \<Longrightarrow> y \<le> z \<Longrightarrow> x \<le> z" by (auto simp: less_segment_def less_eq_segment_def split: segment.splits)
  show "x \<le> y \<Longrightarrow> y \<le> x \<Longrightarrow> x = y" by (auto simp: less_segment_def less_eq_segment_def split: segment.splits)
  show "x \<le> y \<or> y \<le> x" by (auto simp: less_segment_def less_eq_segment_def split: segment.splits)
qed

end

lemma hd_alnum: "dropWhile (\<lambda>c. \<not> isalnum c) s \<noteq> [] \<Longrightarrow> isalnum (hd (dropWhile (\<lambda>c. \<not> isalnum c) s))"
  using hd_dropWhile [of "\<lambda>c. \<not> isalnum c" s] by simp

lemma takeWhile_hd: "xs \<noteq> [] \<Longrightarrow> takeWhile P xs = [] \<longleftrightarrow> \<not> P (hd xs)"
  by (cases xs) simp_all

function segments :: "string \<Rightarrow> segment list" where
  "segments s =
     (let s = dropWhile (\<lambda>c. \<not> isalnum c) s
      in if s = [] then []
         else if isdigit (hd s) then Num (dec_value (takeWhile isdigit s)) # segments (dropWhile isdigit s)
         else Word (takeWhile isalpha s) # segments (dropWhile isalpha s))"
  by pat_completeness auto

termination
proof (relation "measure length", goal_cases)
  case 1
  show ?case by simp
next
  case (2 s x)
  have "length x \<le> length s" using 2(1) by (simp add: length_dropWhile_le)
  then show ?case using dropWhile_shorter [of isdigit x] takeWhile_hd [of x isdigit] 2(2,3) by simp
next
  case (3 s x)
  have "length x \<le> length s" using 3(1) by (simp add: length_dropWhile_le)
  moreover have "isalpha (hd x)" using hd_alnum [of s] 3 by (simp add: isalnum_def)
  ultimately show ?case using dropWhile_shorter [of isalpha x] takeWhile_hd [of x isalpha] 3(2) by simp
qed

declare segments.simps [simp del]

text \<open>The result of a three-way comparison in a linear order.\<close>

definition compare_in :: "'a::linorder \<Rightarrow> 'a \<Rightarrow> int" where
  "compare_in x y = (if x < y then - 1 else if x = y then 0 else 1)"

definition strcmp_ok :: "(string \<Rightarrow> string \<Rightarrow> int) \<Rightarrow> bool" where
  "strcmp_ok cmp \<longleftrightarrow> (\<forall>s t. sgn (cmp s t) = compare_in s t)"

section \<open>Numbers as digit strings\<close>

lemma foldl_dec: "foldl (\<lambda>v c. 10 * v + digit_val c) a s = a * 10 ^ length s + dec_value s"
proof (induction s arbitrary: a)
  case Nil
  show ?case by (simp add: dec_value_def)
next
  case (Cons c s)
  show ?case using Cons [of "10 * a + digit_val c"] Cons [of "digit_val c"] by (simp add: dec_value_def algebra_simps)
qed

lemma dec_value_Cons: "dec_value (c # s) = digit_val c * 10 ^ length s + dec_value s"
  using foldl_dec [of "digit_val c" s] by (simp add: dec_value_def)

lemma digit_char:
  assumes "isdigit c"
  shows "digit_val c \<le> 9 \<and> of_char c = digit_val c + (48 :: nat)"
proof -
  have "48 \<le> (of_char c :: nat)" "(of_char c :: nat) \<le> 57" using assms by (simp_all add: isdigit_def less_eq_char_def)
  then show ?thesis unfolding digit_val_def by linarith
qed

lemma digit_order:
  assumes "isdigit c" "isdigit d"
  shows "c < d \<longleftrightarrow> digit_val c < digit_val d" "c = d \<longleftrightarrow> digit_val c = digit_val d"
proof -
  have e: "of_char c = digit_val c + (48 :: nat)" "of_char d = digit_val d + (48 :: nat)" using assms digit_char by blast+
  show "c < d \<longleftrightarrow> digit_val c < digit_val d" by (simp add: less_char_def e)
  have "c = d \<longleftrightarrow> (of_char c :: nat) = of_char d" by (simp add: of_char_eq_iff)
  then show "c = d \<longleftrightarrow> digit_val c = digit_val d" by (simp add: e)
qed

lemma dec_value_less: "\<forall>c \<in> set s. isdigit c \<Longrightarrow> dec_value s < 10 ^ length s"
proof (induction s)
  case Nil
  show ?case by (simp add: dec_value_def)
next
  case (Cons c s)
  have "digit_val c * 10 ^ length s \<le> 9 * 10 ^ length s" using digit_char [of c] Cons.prems by (intro mult_right_mono) auto
  moreover have "dec_value s < 10 ^ length s" using Cons by simp
  ultimately show ?case unfolding dec_value_Cons list.size(4) add_Suc_right add_0_right power_Suc by linarith
qed

lemma dec_value_order:
  assumes "length s = length t" "\<forall>c \<in> set s. isdigit c" "\<forall>c \<in> set t. isdigit c"
  shows "(s < t \<longleftrightarrow> dec_value s < dec_value t) \<and> (s = t \<longleftrightarrow> dec_value s = dec_value t)"
  using assms
proof (induction s t rule: list_induct2)
  case Nil
  show ?case by simp
next
  case (Cons c s d t)
  let ?p = "10 ^ length t :: nat"
  have IH: "s < t \<longleftrightarrow> dec_value s < dec_value t" "s = t \<longleftrightarrow> dec_value s = dec_value t" using Cons by auto
  have b: "dec_value s < ?p" "dec_value t < ?p" using dec_value_less [of s] dec_value_less [of t] Cons by auto
  have d: "isdigit c" "isdigit d" using Cons.prems by auto
  have lt: "x * ?p + dec_value s < y * ?p + dec_value t" if "x < y" for x y :: nat
  proof -
    have "(x + 1) * ?p \<le> y * ?p" using that by (intro mult_right_mono) auto
    then show ?thesis using b(1) by (simp add: algebra_simps)
  qed
  have gt: "y * ?p + dec_value t < x * ?p + dec_value s" if "y < x" for x y :: nat
  proof -
    have "(y + 1) * ?p \<le> x * ?p" using that by (intro mult_right_mono) auto
    then show ?thesis using b(2) by (simp add: algebra_simps)
  qed
  show ?case
    using lt [of "digit_val c" "digit_val d"] gt [of "digit_val d" "digit_val c"] IH Cons.hyps digit_order [OF d]
    by (cases "digit_val c" "digit_val d" rule: linorder_cases) (auto simp: dec_value_Cons)
qed

text \<open>Without leading zeros the longer number is the larger one.\<close>

lemma dec_value_length:
  assumes "length t < length s" "\<forall>c \<in> set s. isdigit c" "\<forall>c \<in> set t. isdigit c" "hd s \<noteq> CHR ''0''"
  shows "dec_value t < dec_value s"
proof -
  obtain c s' where s: "s = c # s'" using assms(1) by (cases s) auto
  have "digit_val c \<noteq> 0" using digit_order(2) [of c "CHR ''0''"] assms(2,4) s by (auto simp: isdigit_def digit_val_def)
  then have c: "1 * 10 ^ length s' \<le> digit_val c * 10 ^ length s'" by (intro mult_right_mono) simp_all
  have "dec_value t < 10 ^ length t" using dec_value_less assms(3) by blast
  also have "(10 :: nat) ^ length t \<le> 10 ^ length s'" using assms(1) s by (intro power_increasing) auto
  also have "\<dots> \<le> digit_val c * 10 ^ length s' + dec_value s'" using c by linarith
  finally show ?thesis by (simp add: s dec_value_Cons)
qed

lemma dec_value_zeros: "dec_value (dropWhile (\<lambda>c. c = CHR ''0'') s) = dec_value s"
  by (induction s) (simp_all add: dec_value_Cons digit_val_def)

lemma compare_numbers:
  assumes "\<forall>c \<in> set s. isdigit c" "\<forall>c \<in> set t. isdigit c" "strcmp_ok cmp"
  defines "s' \<equiv> dropWhile (\<lambda>c. c = CHR ''0'') s" and "t' \<equiv> dropWhile (\<lambda>c. c = CHR ''0'') t"
  shows "sgn (if length s' > length t' then 1 else if length t' > length s' then - 1 else cmp s' t') = compare_in (dec_value s) (dec_value t)"
proof -
  have d: "\<forall>c \<in> set s'. isdigit c" "\<forall>c \<in> set t'. isdigit c"
    using assms(1,2) by (auto simp: s'_def t'_def dest: set_dropWhileD)
  have v: "dec_value s' = dec_value s" "dec_value t' = dec_value t" by (simp_all add: s'_def t'_def dec_value_zeros)
  have h: "hd s' \<noteq> CHR ''0''" if "s' \<noteq> []" using that hd_dropWhile [of "\<lambda>c. c = CHR ''0''" s] by (simp add: s'_def)
  have h': "hd t' \<noteq> CHR ''0''" if "t' \<noteq> []" using that hd_dropWhile [of "\<lambda>c. c = CHR ''0''" t] by (simp add: t'_def)
  consider "length t' < length s'" | "length s' < length t'" | "length s' = length t'" by linarith
  then show ?thesis
  proof cases
    case 1
    then have "s' \<noteq> []" by auto
    then have "dec_value t' < dec_value s'" using dec_value_length [OF 1 d] h by blast
    then show ?thesis using 1 by (simp add: compare_in_def v)
  next
    case 2
    then have "t' \<noteq> []" by auto
    then have "dec_value s' < dec_value t'" using dec_value_length [OF 2 d(2,1)] h' by blast
    then show ?thesis using 2 by (simp add: compare_in_def v)
  next
    case 3
    show ?thesis
      using dec_value_order [OF 3 d] assms(3) 3 unfolding strcmp_ok_def by (simp add: compare_in_def v)
  qed
qed


section \<open>The comparison is the order of the segments\<close>

text \<open>A version that ends in a letter or a digit, or is empty.\<close>

definition version_ok :: "string \<Rightarrow> bool" where
  "version_ok s \<longleftrightarrow> s = [] \<or> isalnum (last s)"

lemma version_ok_segment:
  assumes "version_ok s" "s \<noteq> []"
  defines "r \<equiv> dropWhile (\<lambda>c. \<not> isalnum c) s"
  shows "r \<noteq> []" "version_ok r" "isalnum (hd r)" "version_ok (dropWhile P r)"
proof -
  have "last s \<in> set s" "isalnum (last s)" using assms(1,2) by (simp_all add: version_ok_def)
  then show r: "r \<noteq> []" by (auto simp: r_def dropWhile_eq_Nil_conv)
  have l: "last (dropWhile Q t) = last t" if "dropWhile Q t \<noteq> []" for Q and t :: string
    using that by (metis last_appendR takeWhile_dropWhile_id)
  show v: "version_ok r" using l [of "\<lambda>c. \<not> isalnum c" s] r assms(1,2) by (simp add: version_ok_def r_def)
  show "isalnum (hd r)" using hd_alnum [of s] r by (simp add: r_def)
  show "version_ok (dropWhile P r)" using l [of P r] v r by (cases "dropWhile P r = []") (simp_all add: version_ok_def)
qed

lemma digit_not_alpha: "isdigit c \<Longrightarrow> \<not> isalpha c"
  by (auto simp: isdigit_def isalpha_def less_eq_char_def)

lemma compare_in_Cons:
  "compare_in (x # xs) (y # ys) = (if compare_in x y \<noteq> 0 then compare_in x y else compare_in xs (ys :: segment list))"
  by (auto simp: compare_in_def)

lemma compare_in_Nil [simp]: "compare_in [] (y # ys) = - 1" "compare_in (y # ys) [] = 1" "compare_in x x = 0"
  by (simp_all add: compare_in_def)

lemma segments_Nil: "segments [] = []"
  by (subst segments.simps) (simp add: Let_def)

lemma segments_not_Nil: "version_ok s \<Longrightarrow> s \<noteq> [] \<Longrightarrow> segments s \<noteq> []"
  using version_ok_segment(1) [of s] by (subst segments.simps) (simp add: Let_def)

lemma segments_step:
  assumes "s \<noteq> []" "version_ok s"
  defines "r \<equiv> dropWhile (\<lambda>c. \<not> isalnum c) s"
  shows "segments s = (if isdigit (hd r) then Num (dec_value (takeWhile isdigit r)) # segments (dropWhile isdigit r)
    else Word (takeWhile isalpha r) # segments (dropWhile isalpha r))"
  using version_ok_segment(1) [OF assms(2,1)] by (subst segments.simps) (simp add: Let_def r_def)

lemma sgn_choice: "sgn (if rc \<noteq> 0 then rc else x) = (if sgn rc \<noteq> 0 then sgn rc else sgn x)" for rc x :: int
  by (simp add: sgn_0_0)

lemma compare_segments:
  "compare_in (Num m) (Num n) = compare_in m n" "compare_in (Word s) (Word t) = compare_in s t"
  "compare_in (Num m) (Word t) = 1" "compare_in (Word s) (Num n) = - 1"
  by (simp_all add: compare_in_def less_segment_def)

lemma takeWhile_digits: "\<forall>c \<in> set (takeWhile isdigit s). isdigit c"
  by (auto dest: set_takeWhileD)

lemma vercmp_loop_ok:
  assumes "strcmp_ok cmp" "version_ok one" "version_ok two"
  shows "sgn (vercmp_loop cmp one two) = compare_in (segments one) (segments two)"
  using assms(2,3)
proof (induction "length one" arbitrary: one two rule: less_induct)
  case less
  show ?case
  proof (cases "one = [] \<or> two = []")
    case True
    then show ?thesis
      using segments_not_Nil [OF less(2)] segments_not_Nil [OF less(3)] segments_Nil
      by (subst vercmp_loop.simps) (cases "segments one"; cases "segments two"; auto)
  next
    case False
    define r1 where "r1 = dropWhile (\<lambda>c. \<not> isalnum c) one"
    define r2 where "r2 = dropWhile (\<lambda>c. \<not> isalnum c) two"
    have ne: "one \<noteq> []" "two \<noteq> []" using False by auto
    note v1 = version_ok_segment [OF less(2) ne(1), folded r1_def] and v2 = version_ok_segment [OF less(3) ne(2), folded r2_def]
    note s1 = segments_step [OF ne(1) less(2), folded r1_def] and s2 = segments_step [OF ne(2) less(3), folded r2_def]
    have l1: "length r1 \<le> length one" by (simp add: r1_def length_dropWhile_le)
    have IH: "sgn (vercmp_loop cmp (dropWhile P r1) (dropWhile P r2)) = compare_in (segments (dropWhile P r1)) (segments (dropWhile P r2))"
      if "P (hd r1)" for P
      using less(1) [OF _ v1(4) v2(4), of P P] dropWhile_shorter [of P r1] takeWhile_hd [OF v1(1), of P] that l1 by simp
    have al: "isdigit (hd r1) \<or> isalpha (hd r1)" "isdigit (hd r2) \<or> isalpha (hd r2)" using v1(3) v2(3) by (auto simp: isalnum_def)
    note unf = vercmp_loop.simps [of cmp one two, unfolded Let_def, folded r1_def r2_def]
    show ?thesis
    proof (cases "isdigit (hd r1) = isdigit (hd r2)")
      case False
      then have "vercmp_loop cmp one two = (if isdigit (hd r1) then 1 else - 1)"
        using ne al digit_not_alpha [of "hd r1"] digit_not_alpha [of "hd r2"] unfolding unf
        by (auto simp: takeWhile_hd [OF v1(1)] takeWhile_hd [OF v2(1)] v1(1))
      then show ?thesis using False by (simp add: s1 s2 compare_in_Cons compare_segments)
    next
      case same: True
      show ?thesis
      proof (cases "isdigit (hd r1)")
        case True
        note num = compare_numbers [of "takeWhile isdigit r1" "takeWhile isdigit r2" cmp, OF takeWhile_digits takeWhile_digits assms(1)]
        let ?s = "dropWhile (\<lambda>c. c = CHR ''0'') (takeWhile isdigit r1)" and ?t = "dropWhile (\<lambda>c. c = CHR ''0'') (takeWhile isdigit r2)"
        have "vercmp_loop cmp one two = (if length ?s > length ?t then 1 else if length ?t > length ?s then - 1
            else if cmp ?s ?t \<noteq> 0 then cmp ?s ?t else vercmp_loop cmp (dropWhile isdigit r1) (dropWhile isdigit r2))"
          using ne same True unfolding unf by (simp add: takeWhile_hd [OF v1(1)] takeWhile_hd [OF v2(1)] v1(1))
        then show ?thesis using num IH [of isdigit] True same
          by (auto simp: s1 s2 compare_in_Cons compare_segments sgn_0_0 split: if_splits)
      next
        case False
        then have a: "isalpha (hd r1)" "isalpha (hd r2)" "\<not> isdigit (hd r2)" using al same by auto
        have "vercmp_loop cmp one two = (if cmp (takeWhile isalpha r1) (takeWhile isalpha r2) \<noteq> 0
            then cmp (takeWhile isalpha r1) (takeWhile isalpha r2) else vercmp_loop cmp (dropWhile isalpha r1) (dropWhile isalpha r2))"
          using ne a False unfolding unf by (simp add: takeWhile_hd [OF v1(1)] takeWhile_hd [OF v2(1)] v1(1))
        moreover have "sgn (cmp (takeWhile isalpha r1) (takeWhile isalpha r2)) = compare_in (takeWhile isalpha r1) (takeWhile isalpha r2)"
          using assms(1) by (simp add: strcmp_ok_def)
        ultimately show ?thesis using IH [of isalpha] a False
          by (auto simp: s1 s2 compare_in_Cons compare_segments sgn_0_0 split: if_splits)
      qed
    qed
  qed
qed

text \<open>C24: on versions that end in a letter or a digit the comparison is a linear order: that of the lists of segments, in which
  numbers are compared by value, words as strings, a number is newer than a word and a longer list newer than its beginning.\<close>

theorem rpmvercmp_orders_versions:
  assumes "strcmp_ok cmp" "version_ok a" "version_ok b"
  shows "sgn (swlib_rpmvercmp cmp a b) = compare_in (segments a) (segments b)"
  using vercmp_loop_ok [OF assms] by (simp add: swlib_rpmvercmp_def)

section \<open>Where it is not an order\<close>

lemma strcmp_same: "strcmp_ok cmp \<Longrightarrow> cmp s s = 0"
  unfolding strcmp_ok_def by (metis compare_in_Nil(3) sgn_0_0)

lemma dropWhile_append_sep:
  assumes "dropWhile P a \<noteq> []"
  shows "dropWhile P (a @ s) = dropWhile P a @ s"
  using assms by (induction a) auto

lemma seg_append_sep:
  assumes "\<forall>c \<in> set s. \<not> P c"
  shows "takeWhile P (r @ s) = takeWhile P r" "dropWhile P (r @ s) = dropWhile P r @ s"
  using assms by (induction r; cases s; simp)+

lemma vercmp_separators:
  assumes "strcmp_ok cmp" "version_ok a" "s \<noteq> []" "t \<noteq> []" "\<forall>c \<in> set s. \<not> isalnum c" "\<forall>c \<in> set t. \<not> isalnum c"
  shows "vercmp_loop cmp (a @ s) (a @ t) = - 1"
  using assms(2)
proof (induction "length a" arbitrary: a rule: less_induct)
  case less
  show ?case
  proof (cases "a = []")
    case True
    have e: "dropWhile (\<lambda>c. \<not> isalnum c) s = []" using assms(5) by simp
    show ?thesis using True assms(3,4) by (subst vercmp_loop.simps) (simp add: Let_def e del: dropWhile_eq_Nil_conv)
  next
    case False
    define r where "r = dropWhile (\<lambda>c. \<not> isalnum c) a"
    note v = version_ok_segment [OF less(2) False, folded r_def]
    let ?in = "if isdigit (hd r) then isdigit else isalpha"
    have n: "\<forall>c \<in> set s. \<not> ?in c" "\<forall>c \<in> set t. \<not> ?in c" using assms(5,6) by (auto simp: isalnum_def)
    have d: "dropWhile (\<lambda>c. \<not> isalnum c) (a @ x) = r @ x" for x
      using dropWhile_append_sep v(1) unfolding r_def by blast
    have t1: "takeWhile ?in r \<noteq> []" using takeWhile_hd [OF v(1), of ?in] v(3) by (auto simp: isalnum_def)
    have hd: "hd (r @ x) = hd r" for x using v(1) by simp
    have "length r \<le> length a" by (simp add: r_def length_dropWhile_le)
    then have IH: "vercmp_loop cmp (dropWhile ?in r @ s) (dropWhile ?in r @ t) = - 1"
      using less(1) [OF _ v(4), of ?in] dropWhile_shorter [OF t1] by simp
    have "vercmp_loop cmp (a @ s) (a @ t) = vercmp_loop cmp (dropWhile ?in r @ s) (dropWhile ?in r @ t)"
      using False v(1) t1 seg_append_sep [OF n(1), of r] seg_append_sep [OF n(2), of r] strcmp_same [OF assms(1)]
      unfolding vercmp_loop.simps [of cmp "a @ s" "a @ t"] Let_def d
      by (cases "isdigit (hd r)") (simp_all add: hd)
    then show ?thesis using IH by simp
  qed
qed

text \<open>C33: two versions that differ only in the separators at their end are each reported to be older than the other.\<close>

theorem separators_older_both_ways:
  assumes "strcmp_ok cmp" "version_ok a" "s \<noteq> []" "t \<noteq> []" "s \<noteq> t" "\<forall>c \<in> set s. \<not> isalnum c" "\<forall>c \<in> set t. \<not> isalnum c"
  shows "swlib_rpmvercmp cmp (a @ s) (a @ t) = - 1 \<and> swlib_rpmvercmp cmp (a @ t) (a @ s) = - 1"
  using vercmp_separators [OF assms(1-4,6,7)] vercmp_separators [OF assms(1,2,4,3,7,6)] assms(5) by (simp add: swlib_rpmvercmp_def)

section \<open>Concrete versions\<close>

lemma compare_in_strcmp: "strcmp_ok compare_in"
  by (simp add: strcmp_ok_def compare_in_def)

theorem rpmvercmp_orders_versions_witness:
  "sgn (swlib_rpmvercmp compare_in ''1.10b'' ''1.9'') = 1 \<and> swlib_rpmvercmp compare_in ''2.01'' ''2.1'' = 0"
proof -
  have s: "segments ''1.10b'' = [Num 1, Num 10, Word ''b'']" "segments ''1.9'' = [Num 1, Num 9]"
    "segments ''2.01'' = [Num 2, Num 1]" "segments ''2.1'' = [Num 2, Num 1]" by code_simp+
  have v: "version_ok ''1.10b''" "version_ok ''1.9''" "version_ok ''2.01''" "version_ok ''2.1''" by code_simp+
  show ?thesis
    using rpmvercmp_orders_versions [OF compare_in_strcmp v(1,2)] rpmvercmp_orders_versions [OF compare_in_strcmp v(3,4)]
    unfolding s by (simp add: compare_in_def less_segment_def sgn_0_0)
qed

theorem separators_older_both_ways_witness:
  "swlib_rpmvercmp compare_in ''1.0.'' ''1.0-'' = - 1 \<and> swlib_rpmvercmp compare_in ''1.0-'' ''1.0.'' = - 1"
proof -
  have v: "version_ok ''1.0''" "\<forall>c \<in> set ''.''. \<not> isalnum c" "\<forall>c \<in> set ''-''. \<not> isalnum c" by code_simp+
  show ?thesis using separators_older_both_ways [OF compare_in_strcmp v(1), of "''.''" "''-''"] v(2,3) by simp
qed


end
