(* ===== verification/SwlibEscape.thy ===== *)
theory SwlibEscape
  imports SwlibPath TarHeader
begin

text \<open>
  Escape sequences of attribute values and path names (\<open>swsupplib/misc/swlib.c\<close>): \<open>swlib_unexpand_escapes\<close> removes them,
  \<open>swlib_expand_escapes\<close> puts them in, \<open>swlib_compare_8859\<close> compares paths that may contain them. What is expanded into a
  fresh buffer is recovered; what is expanded into a buffer that was used before is not always.
\<close>

section \<open>Removing escapes\<close>

definition schar :: "char \<Rightarrow> int" where
  "schar c = (if (of_char c :: int) < 128 then of_char c else of_char c - 256)"

definition swlib_is_c701_escape :: "char \<Rightarrow> bool" where
  "swlib_is_c701_escape c \<longleftrightarrow> c = CHR 0x22 \<or> c = CHR ''#'' \<or> c = CHR 0x5C"

definition swlib_is_ansi_escape :: "char \<Rightarrow> bool" where
  "swlib_is_ansi_escape c \<longleftrightarrow> c \<in> set (''ntvbrfxa?'' @ [CHR 0x5C, CHR 0x27, CHR 0x22])"

text \<open>The value and whether the character is an escape.\<close>

definition swlib_c701_escaped_value :: "int \<Rightarrow> int \<times> bool" where
  "swlib_c701_escaped_value src = (if src = 92 \<or> src = 35 \<or> src = 34 then (src, True) else (src, False))"

definition swlib_ansi_escaped_value :: "int \<Rightarrow> int \<times> bool" where
  "swlib_ansi_escaped_value src =
     (if src = 92 then (92, True)
      else if src = of_char CHR ''n'' then (10, True)
      else if src = of_char CHR ''r'' then (13, True)
      else if src = of_char CHR ''v'' then (11, True)
      else if src = of_char CHR ''b'' then (8, True)
      else if src = of_char CHR ''f'' then (12, True)
      else (src, False))"

text \<open>\<^term>\<open>None\<close> is the assertion that ends the program for a backslash in front of a byte above 127.\<close>

fun unexpand_loop :: "string \<Rightarrow> string option" where
  "unexpand_loop [] = Some []"
| "unexpand_loop [c] = Some [c]"
| "unexpand_loop (c # d # s) =
     (if c = CHR 0x5C then
        (let (escaped_value, is_recognized) = swlib_ansi_escaped_value (schar d);
             (escaped_value, is_recognized) = (if is_recognized then (escaped_value, is_recognized) else swlib_c701_escaped_value (schar d))
         in if escaped_value < 0 then None
            else if \<not> is_recognized then map_option (Cons c) (unexpand_loop (d # s))
            else map_option (Cons (char_of escaped_value)) (unexpand_loop s))
      else map_option (Cons c) (unexpand_loop (d # s)))"

definition swlib_unexpand_escapes :: "string \<Rightarrow> string option" where
  "swlib_unexpand_escapes src = unexpand_loop src"

definition swlib_unexpand_escapes2 :: "string \<Rightarrow> (string \<times> int) option" where
  "swlib_unexpand_escapes2 src = do {
     dst \<leftarrow> swlib_unexpand_escapes src;
     if length (cstr dst) > length src then Some (src, - 1) else Some (cstr dst, 0) }"

section \<open>Comparing paths that contain escapes\<close>

text \<open>An argument with a backslash is compared as a copy in a \<open>STROB\<close>; the other one is compared in place.\<close>

definition unescaped :: "block \<Rightarrow> (block \<times> bool) option" where
  "unescaped s = do {
     _ \<leftarrow> c_strlen s 0;
     if CHR 0x5C \<in> set (cstr s) then do {
       so \<leftarrow> swlib_unexpand_escapes (cstr s);
       Some (process_all_hex_escapes so @ [NUL], True) }
     else Some (s, False) }"

definition swlib_compare_8859 :: "(string \<Rightarrow> string \<Rightarrow> int) \<Rightarrow> block \<Rightarrow> block \<Rightarrow> (block \<times> block \<times> int) option" where
  "swlib_compare_8859 cmp s1 s2 = do {
     (t1, copied1) \<leftarrow> unescaped s1;
     (t2, copied2) \<leftarrow> unescaped s2;
     (t1, t2, ret) \<leftarrow> swlib_dir_compare cmp t1 t2 SWC_FC_NOAB;
     Some (if copied1 then s1 else t1, if copied2 then s2 else t2, ret) }"

section \<open>Putting escapes in\<close>

definition hex_upper :: "nat \<Rightarrow> char" where
  "hex_upper d = (if d < 10 then char_of (48 + d) else char_of (55 + d))"

text \<open>\<open>\x%02X\<close>\<close>

definition hex_escape :: "char \<Rightarrow> string" where
  "hex_escape c = [CHR 0x5C, CHR ''x'', hex_upper (of_char c div 16), hex_upper (of_char c mod 16)]"

definition needs_hex :: "char \<Rightarrow> bool" where
  "needs_hex c \<longleftrightarrow> schar c < 7 \<and> schar c > 0 \<or> (of_char c :: int) \<ge> 127"

text \<open>The loop of \<open>swlib_expand_escapes\<close> over the characters from \<open>lp + k\<close> on. The result is the buffer and \<open>i + j\<close>.\<close>

definition next_char :: "string \<Rightarrow> char" where
  "next_char s = (case s of [] \<Rightarrow> NUL | c # _ \<Rightarrow> c)"

definition quoted :: "strob \<Rightarrow> int \<Rightarrow> int \<Rightarrow> char \<Rightarrow> (strob \<times> int) option" where
  "quoted store i j c = do {
     p \<leftarrow> strob_get_char store (i + j - 1);
     (store, j) \<leftarrow> (if p \<noteq> 92 then do { store \<leftarrow> strob_chr_index store (i + j) 92; Some (store, j + 1) } else Some (store, j));
     store \<leftarrow> strob_chr_index store (i + j) (schar c);
     Some (store, j) }"

function expand_loop :: "strob \<Rightarrow> int \<Rightarrow> int \<Rightarrow> int \<Rightarrow> string \<Rightarrow> (strob \<times> int) option" where
  "expand_loop store i j count [] = Some (store, i + j)"
| "expand_loop store i j count (c # s) =
     (if c = CHR 0x5C then
        (if (count + 1) mod 2 \<noteq> 0 \<and> next_char s = CHR ''n'' then do {
           store \<leftarrow> strob_chr_index store (i + j) 10;
           expand_loop store (i + 1) j 0 (tl s) }
         else do {
           store \<leftarrow> strob_chr_index store (i + j) 92;
           (store, j) \<leftarrow> (if (count + 1) mod 2 \<noteq> 0 \<and> \<not> swlib_is_ansi_escape (next_char s) \<and> \<not> swlib_is_c701_escape (next_char s)
             then do { store \<leftarrow> strob_chr_index store (i + j + 1) 92; Some (store, j + 1) } else Some (store, j));
           expand_loop store (i + 1) j (count + 1) s })
      else if needs_hex c then do {
        (store, _) \<leftarrow> strob_sprintf store True (hex_escape c);
        expand_loop store (i + 1) (j + 3) count s }
      else if c = CHR ''#'' \<or> c = CHR 0x22 then do {
        (store, j) \<leftarrow> quoted store i j c;
        expand_loop store (i + 1) j 0 s }
      else do {
        store \<leftarrow> strob_chr_index store (i + j) (schar c);
        expand_loop store (i + 1) j 0 s })"
  by pat_completeness auto

termination
  by (relation "measure (\<lambda>(_, _, _, _, s). length s)") (auto split: prod.splits)

text \<open>The buffer and the new length. Without \<open>ustore\<close> a buffer is made.\<close>

definition swlib_expand_escapes :: "strob option \<Rightarrow> string \<Rightarrow> (strob \<times> int) option" where
  "swlib_expand_escapes ustore src = do {
     store \<leftarrow> (case ustore of Some store \<Rightarrow> strob_strcpy store [] | None \<Rightarrow> strob_open 20);
     (store, n) \<leftarrow> expand_loop store 0 0 0 src;
     store \<leftarrow> strob_chr_index store n 0;
     Some (store, n) }"

section \<open>What is expanded is recovered\<close>

text \<open>The expansion of a string without backslashes.\<close>

definition escaped :: "char \<Rightarrow> string" where
  "escaped c = (if needs_hex c then hex_escape c else if c = CHR ''#'' \<or> c = CHR 0x22 then [CHR 0x5C, c] else [c])"

definition half_escaped :: "char \<Rightarrow> string" where
  "half_escaped c = (if needs_hex c then hex_escape c else [c])"

lemma hex_digits_back:
  assumes "d < 16"
  shows "hex_val (toupper (hex_upper d)) = Some d" "hex_upper d \<noteq> CHR 0x5C" "hex_upper d \<noteq> NUL"
proof -
  have "list_all (\<lambda>d. hex_val (toupper (hex_upper d)) = Some d \<and> hex_upper d \<noteq> CHR 0x5C \<and> hex_upper d \<noteq> NUL) [0..<16]"
    by code_simp
  then show "hex_val (toupper (hex_upper d)) = Some d" "hex_upper d \<noteq> CHR 0x5C" "hex_upper d \<noteq> NUL"
    using assms by (auto simp: list_all_iff)
qed

lemma char_div_16: "(of_char c :: nat) div 16 < 16" for c :: char
  using less_mult_imp_div_less [of "of_char c" 16 16] nat_of_char_less_256 [of c] by simp

lemma hex_escape_back:
  "convert_hex_seq (toupper (hex_upper (of_char c div 16))) (toupper (hex_upper (of_char c mod 16))) = Some (of_char c)"
  by (simp add: convert_hex_seq_def hex_digits_back char_div_16)

lemma unexpand_plain: "c \<noteq> CHR 0x5C \<Longrightarrow> unexpand_loop (c # s) = map_option (Cons c) (unexpand_loop s)"
  by (cases s) simp_all

lemma unexpand_hex: "unexpand_loop (hex_escape c @ s) = map_option (append (hex_escape c)) (unexpand_loop s)"
proof -
  have d: "hex_upper (of_char c div 16) \<noteq> CHR 0x5C" "hex_upper (of_char c mod 16) \<noteq> CHR 0x5C"
    using hex_digits_back(2) char_div_16 by simp_all
  have "swlib_ansi_escaped_value (schar CHR ''x'') = (120, False)" "swlib_c701_escaped_value (schar CHR ''x'') = (120, False)" by code_simp+
  then show ?thesis using d by (cases "unexpand_loop s") (simp_all add: hex_escape_def unexpand_plain)
qed

lemma unexpand_quoted: "c = CHR ''#'' \<or> c = CHR 0x22 \<Longrightarrow> unexpand_loop (CHR 0x5C # c # s) = map_option (Cons c) (unexpand_loop s)"
proof -
  have "swlib_c701_escaped_value (schar CHR ''#'') = (35, True)" "swlib_c701_escaped_value (schar CHR 0x22) = (34, True)"
    "\<not> snd (swlib_ansi_escaped_value (schar CHR ''#''))" "\<not> snd (swlib_ansi_escaped_value (schar CHR 0x22))"
    "char_of (35 :: int) = CHR ''#''" "char_of (34 :: int) = CHR 0x22" by code_simp+
  then show "c = CHR ''#'' \<or> c = CHR 0x22 \<Longrightarrow> unexpand_loop (CHR 0x5C # c # s) = map_option (Cons c) (unexpand_loop s)"
    by (auto split: prod.splits)
qed

lemma unexpand_escaped:
  "CHR 0x5C \<notin> set s \<Longrightarrow> unexpand_loop (concat (map escaped s)) = Some (concat (map half_escaped s))"
proof (induction s)
  case Nil
  show ?case by simp
next
  case (Cons c s)
  have IH: "unexpand_loop (concat (map escaped s)) = Some (concat (map half_escaped s))" using Cons by simp
  have "unexpand_loop (escaped c @ t) = map_option (append (half_escaped c)) (unexpand_loop t)" for t
    using unexpand_hex [of c t] unexpand_quoted [of c t] unexpand_plain [of c t] Cons.prems unfolding escaped_def half_escaped_def
    by (simp del: unexpand_loop.simps add: append_Cons [abs_def] flip: append_Cons) (auto simp: comp_def simp del: unexpand_loop.simps)
  then show ?case using IH by simp
qed

lemma substr_index_at:
  assumes "CHR 0x5C \<notin> set a"
  shows "substr_index (CHR 0x5C # ''x'') (a @ CHR 0x5C # CHR ''x'' # s) = Some (length a)"
  using assms by (induction a) auto

lemma substr_index_none: "CHR 0x5C \<notin> set s \<Longrightarrow> substr_index (CHR 0x5C # ''x'') s = None"
  by (induction s) auto

lemma hex_escapes_step:
  assumes "CHR 0x5C \<notin> set a"
  shows "process_all_hex_escapes (a @ hex_escape c @ s) = a @ c # process_all_hex_escapes s"
proof -
  have "does_have_hex_escape (a @ hex_escape c @ s) = Some (length a, of_char c)"
  proof (cases a rule: rev_cases)
    case Nil
    then show ?thesis
      using substr_index_at [of "[]" "hex_upper (of_char c div 16) # hex_upper (of_char c mod 16) # s"] hex_escape_back [of c]
      by (simp add: does_have_hex_escape_def hex_escape_def)
  next
    case (snoc b x)
    have "(a @ t) ! (length a - 1) = x" for t using snoc by (simp add: nth_append)
    then show ?thesis
      using substr_index_at [OF assms, of "hex_upper (of_char c div 16) # hex_upper (of_char c mod 16) # s"] hex_escape_back [of c] assms snoc not_sym
      by (auto simp: does_have_hex_escape_def hex_escape_def nth_append)
  qed
  then show ?thesis by (subst process_all_hex_escapes.simps) (simp add: hex_escape_def)
qed

lemma hex_escapes_back:
  assumes "CHR 0x5C \<notin> set s" "CHR 0x5C \<notin> set a"
  shows "process_all_hex_escapes (a @ concat (map half_escaped s)) = a @ s"
  using assms
proof (induction s arbitrary: a)
  case Nil
  then show ?case by (subst process_all_hex_escapes.simps) (simp add: does_have_hex_escape_def substr_index_none)
next
  case (Cons c s)
  show ?case
  proof (cases "needs_hex c")
    case True
    then show ?thesis using Cons hex_escapes_step [of a c] Cons.IH [of "[]"] by (simp add: half_escaped_def)
  next
    case False
    then show ?thesis using Cons Cons.IH [of "a @ [c]"] by (simp add: half_escaped_def)
  qed
qed

section \<open>Buffers without old contents\<close>

text \<open>Behind the string there is nothing but zeros.\<close>

definition strob_clean :: "strob \<Rightarrow> string \<Rightarrow> bool" where
  "strob_clean s c \<longleftrightarrow> strob_wf s \<and> c_string c \<and> fill_charM s = 0 \<and> sb_extra s = STROB_LENGTHINCR \<and>
     int (length c) \<le> sb_length s \<and> int (length c) < sb_reserve s \<and>
     sb_str s = Some (c @ replicate (nat (sb_reserve s) - length c) NUL)"

lemma strob_clean_content: "strob_clean s c \<Longrightarrow> strob_content s = c"
  using cstr_append_NUL [of c] by (cases "nat (sb_reserve s) - length c") (auto simp: strob_clean_def strob_content_def)

lemma zero_char [simp]: "(char_of (0 :: int) :: char) = NUL"
  by (simp add: char_of_def)

lemma write_zero:
  assumes "length c \<le> k" "k < length c + m"
  shows "mem_write (c @ replicate m NUL) (int k) [NUL] = Some (c @ replicate m NUL)"
proof -
  have "(c @ replicate m NUL) ! k = NUL" using assms by (simp add: nth_append)
  then have "(c @ replicate m NUL)[k := NUL] = c @ replicate m NUL" by (metis list_update_id)
  then show ?thesis using assms by (simp add: mem_write_single)
qed

lemma replicate_three: "n = a + b + 1 \<Longrightarrow> replicate n x = replicate a x @ replicate b x @ [x]"
proof -
  assume "n = a + b + 1"
  then have "n = a + Suc b" by simp
  then show ?thesis by (simp only: replicate_add replicate_Suc replicate_append_same)
qed

lemma clean_reopen:
  assumes "strob_clean s c" "strob_room s n"
  shows "\<exists>s'. strob_reopen_if_fill_with s n 0 = Some s' \<and> strob_clean s' c \<and> n \<le> sb_reserve s' \<and> sb_length s' = sb_length s \<and>
    sb_reserve s' \<le> max (sb_reserve s) (n + STROB_LENGTHINCR)"
proof (cases "n > sb_reserve s")
  case False
  then show ?thesis using assms by (intro exI [of _ s]) (auto simp: strob_reopen_if_fill_with_def strob_room_def strob_clean_def STROB_LENGTHINCR_def)
next
  case True
  let ?L = "nat (sb_length s)" and ?n = "n + STROB_LENGTHINCR" and ?b = "c @ replicate (nat (sb_reserve s) - length c) NUL"
  have w: "strob_wf s" "sb_str s = Some ?b" "sb_extra s = STROB_LENGTHINCR" "length c \<le> ?L" "sb_length s \<le> sb_reserve s" "0 \<le> sb_length s"
    using assms(1) by (auto simp: strob_clean_def elim!: strob_wfE)
  have r: "0 \<le> n" "?n < INT_LIMIT" using assms(2) w(3) by (auto simp: strob_room_def)
  let ?s = "s\<lparr>sb_str := Some (take ?L ?b @ replicate (nat (?n - sb_length s - 1)) (char_of (0 :: int)) @ [NUL]), sb_tok := None, sb_reserve := ?n\<rparr>"
  have "strob_reopen_if_fill_with s n 0 = Some ?s"
    using strob_reopen_fill_with_grow [OF w(1,2), of ?n 0] True r w(3) by (simp add: strob_reopen_if_fill_with_def STROB_LENGTHINCR_def)
  moreover have "take ?L ?b @ replicate (nat (?n - sb_length s - 1)) (char_of (0 :: int)) @ [NUL] = c @ replicate (nat ?n - length c) NUL"
  proof -
    have t: "take ?L ?b = c @ replicate (?L - length c) NUL" using w by (simp add: min_def)
    have "nat ?n - length c = (?L - length c) + nat (?n - sb_length s - 1) + 1"
      using w(4,5,6) True STROB_LENGTHINCR_def by linarith
    from replicate_three [OF this, of NUL] show ?thesis unfolding t by simp
  qed
  moreover have "strob_wf ?s"
    using w True r STROB_LENGTHINCR_def by (auto simp: strob_wf_def)
  ultimately show ?thesis
    using assms(1) True STROB_LENGTHINCR_def by (intro exI [of _ ?s]) (auto simp: strob_clean_def)
qed

text \<open>Storing behind the string, also the NUL that ends it.\<close>

lemma clean_store:
  assumes "strob_clean s c" "strob_room s (int (length c) + 2)"
  obtains s' L m where "strob_chr_index s (int (length c)) ch = Some (s'\<lparr>sb_length := L, sb_str := Some (c @ [char_of ch] @ replicate m NUL)\<rparr>)"
    "strob_clean s' c" "int (length c) < L" "L \<le> sb_reserve s'" "0 < m" "int (length c + 1 + m) = sb_reserve s'"
    "sb_reserve s' \<le> max (sb_reserve s) (int (length c) + 2 + STROB_LENGTHINCR)"
proof -
  obtain s1 where s1: "strob_reopen_if_fill_with s (int (length c) + 2) 0 = Some s1" "strob_clean s1 c" "int (length c) + 2 \<le> sb_reserve s1"
    "sb_length s1 = sb_length s" "sb_reserve s1 \<le> max (sb_reserve s) (int (length c) + 2 + STROB_LENGTHINCR)"
    using clean_reopen [OF assms(1,2)] by blast
  let ?m = "nat (sb_reserve s1) - length c"
  let ?b = "c @ replicate ?m NUL"
  have b: "sb_str s1 = Some ?b" "fill_charM s = 0" "int (length c) \<le> sb_length s1" "fill_charM s1 = 0" "sb_length s1 \<le> sb_reserve s1"
    using s1(2) assms(1) by (auto simp: strob_clean_def elim!: strob_wfE)
  have m: "2 \<le> ?m" using s1(3) by linarith
  have z: "mem_write ?b (int (length c)) [NUL] = Some ?b" "mem_write ?b (int (length c) + 1) [NUL] = Some ?b"
    using write_zero [of c "length c" ?m] write_zero [of c "length c + 1" ?m] m by (simp_all add: add.commute)
  have u: "mem_write ?b (int (length c)) [char_of ch] = Some (c @ [char_of ch] @ replicate (?m - 1) NUL)"
    using m by (cases ?m) (simp_all add: mem_write_def)
  define L where "L = (if int (length c) > sb_length s1 - 1 then int (length c) + 1 else sb_length s1)"
  have "strob_chr_index s (int (length c)) ch = Some (s1\<lparr>sb_length := L, sb_str := Some (c @ [char_of ch] @ replicate (?m - 1) NUL)\<rparr>)"
    using s1(1) b m z u by (auto simp: strob_chr_index_def mem_set_def L_def)
  then show thesis
    by (rule that) (use s1(2,3,5) b(3,5) m in \<open>auto simp: L_def\<close>)
qed

lemma clean_chr_index:
  assumes "strob_clean s c" "strob_room s (int (length c) + 2)" "char_of ch \<noteq> NUL"
  shows "\<exists>s'. strob_chr_index s (int (length c)) ch = Some s' \<and> strob_clean s' (c @ [char_of ch]) \<and>
    sb_reserve s' \<le> max (sb_reserve s) (int (length c) + 2 + STROB_LENGTHINCR)"
proof -
  obtain s1 L m where s1: "strob_chr_index s (int (length c)) ch = Some (s1\<lparr>sb_length := L, sb_str := Some (c @ [char_of ch] @ replicate m NUL)\<rparr>)"
    "strob_clean s1 c" "int (length c) < L" "L \<le> sb_reserve s1" "0 < m" "int (length c + 1 + m) = sb_reserve s1"
    "sb_reserve s1 \<le> max (sb_reserve s) (int (length c) + 2 + STROB_LENGTHINCR)"
    by (rule clean_store [OF assms(1,2)])
  have "last (replicate m NUL) = NUL" using s1(5) by simp
  then have "strob_clean (s1\<lparr>sb_length := L, sb_str := Some (c @ [char_of ch] @ replicate m NUL)\<rparr>) (c @ [char_of ch])"
    using s1(2-6) assms(3) by (auto simp: strob_clean_def strob_wf_def)
  then show ?thesis using s1(1,7) by simp
qed

lemma clean_end:
  assumes "strob_clean s c" "strob_room s (int (length c) + 2)"
  shows "\<exists>s'. strob_chr_index s (int (length c)) 0 = Some s' \<and> strob_content s' = c"
proof -
  obtain s1 L m where s1: "strob_chr_index s (int (length c)) 0 = Some (s1\<lparr>sb_length := L, sb_str := Some (c @ [char_of (0 :: int)] @ replicate m NUL)\<rparr>)"
    by (rule clean_store [OF assms, of 0])
  have "c_string c" using assms(1) by (simp add: strob_clean_def)
  then show ?thesis using s1 by (simp add: strob_content_def)
qed

lemma vsprintf_last_round:
  assumes "rewind_oldend s oe = Some s0" "strob_set_memlength s0 (sb_reserve s0 + added) = Some s1"
    "sb_str s1 = Some (c @ g @ replicate m NUL)" "int (length c + length g + m) = sb_reserve s1" "c_string c"
    "length g \<le> length out" "length out < length g + m" "sb_reserve s1 < INT_LIMIT" "g = [] \<or> hd g = NUL" "0 < m"
  shows "strob_vsprintf_loop s True out added oe =
    Some (s1\<lparr>sb_str := Some (c @ out @ replicate (length g + m - length out) NUL)\<rparr>, int (length out))"
proof -
  obtain y where y: "c @ g @ replicate m NUL = c @ NUL # y" using assms(9,10) by (cases g; cases m) auto
  then have len: "c_strlen (c @ g @ replicate m NUL) 0 = Some (int (length c))" using assms(5) by simp
  have n: "c_size (sb_reserve s1 - int (length c)) = int (length g + m)"
    "sb_reserve s1 - int (length c) = int (length g + m)" using assms(4,8) by simp_all
  let ?m = "length g + m - length out"
  have "g @ replicate m NUL = (g @ replicate (length out + 1 - length g) NUL) @ replicate (?m - 1) NUL"
    using assms(6,7) by (simp flip: replicate_add)
  then have v: "c_vsnprintf (c @ g @ replicate m NUL) (int (length c)) (sb_reserve s1 - int (length c)) out = Some (c @ out @ replicate ?m NUL)"
    using n assms(6,7) mem_write_at [of "g @ replicate (length out + 1 - length g) NUL" "out @ [NUL]" c "replicate (?m - 1) NUL"]
    by (cases ?m) (simp_all add: c_vsnprintf_def)
  show ?thesis
    using assms(1,2,3,7) len v n(2) by (subst strob_vsprintf_loop.simps) simp
qed

lemma set_memlength_same: "0 \<le> sb_reserve s \<Longrightarrow> sb_reserve s < INT_LIMIT \<Longrightarrow> strob_set_memlength s (sb_reserve s + 0) = Some (s\<lparr>sb_length := sb_reserve s\<rparr>)"
  by (simp add: strob_set_memlength_def strob_reopen_if_def)

lemma clean_sprintf:
  assumes "strob_clean s c" "c_string out" "sb_reserve s < 2 ^ 30" "length out < 100"
  shows "\<exists>s'. strob_sprintf s True out = Some (s', int (length out)) \<and> strob_clean s' (c @ out) \<and>
    sb_reserve s' \<le> max (sb_reserve s) (int (length c) + int (length out) + 128 + STROB_LENGTHINCR)"
proof -
  let ?m = "nat (sb_reserve s) - length c"
  let ?b = "c @ replicate ?m NUL"
  have w: "strob_wf s" "sb_str s = Some ?b" "c_string c" "sb_extra s = STROB_LENGTHINCR" "int (length c) < sb_reserve s" "fill_charM s = 0" "0 \<le> sb_reserve s"
    using assms(1) by (auto simp: strob_clean_def)
  have m: "0 < ?m" "int (length c + ?m) = sb_reserve s" "sb_reserve s < INT_LIMIT" using w(5) assms(3) by auto
  let ?s1 = "s\<lparr>sb_length := sb_reserve s\<rparr>"
  have set: "strob_set_memlength s (sb_reserve s + 0) = Some ?s1" using set_memlength_same w(7) m(3) by simp
  have run: "strob_sprintf s True out = strob_vsprintf_loop s True out 0 None" by (simp add: strob_sprintf_def strob_vsprintf_def)
  have re: "rewind_oldend s None = Some s" by (simp add: rewind_oldend_def)
  show ?thesis
  proof (cases "length out < ?m")
    case True
    let ?s = "?s1\<lparr>sb_str := Some (c @ out @ replicate (?m - length out) NUL)\<rparr>"
    have l: "last (c @ out @ replicate (?m - length out) NUL) = NUL" using True by (cases "?m - length out") auto
    have "strob_sprintf s True out = Some (?s, int (length out))"
      using vsprintf_last_round [OF re set, of c "[]" ?m out] w(2,3) m True unfolding run by simp
    moreover have "strob_wf ?s" using w(1,2) l True m by (auto simp: strob_wf_def)
    then have "strob_clean ?s (c @ out)" using True w assms(2) m by (auto simp: strob_clean_def)
    ultimately show ?thesis by (intro exI [of _ ?s]) simp
  next
    case False
    define g where "g = NUL # tl (take (?m - 1) out @ [NUL])"
    let ?s2 = "?s1\<lparr>sb_str := Some (c @ take (?m - 1) out @ [NUL])\<rparr>"
    let ?s3 = "?s1\<lparr>sb_str := Some (c @ g)\<rparr>"
    let ?k = "nat (128 + STROB_LENGTHINCR)"
    let ?s4 = "?s3\<lparr>sb_str := Some (c @ g @ replicate ?k NUL), sb_tok := None, sb_reserve := sb_reserve s + 128 + STROB_LENGTHINCR, sb_length := sb_reserve s + 128\<rparr>"
    have lg: "length g = ?m" "g = [] \<or> hd g = NUL" "last g = NUL" using False m(1) by (cases ?m; auto simp: g_def last_tl)+
    have v: "c_vsnprintf ?b (int (length c)) (sb_reserve s - int (length c)) out = Some (c @ take (?m - 1) out @ [NUL])"
    proof -
      have l: "length (replicate ?m NUL) = length (take (?m - 1) out @ [NUL])" using False m(1) by simp
      have "c_size (sb_reserve s - int (length c)) = int ?m" using m by simp
      then show ?thesis using mem_write_at [OF l, of c "[]"] m(1) w(5,7) by (simp add: c_vsnprintf_def nat_diff_distrib)
    qed
    have len: "c_strlen ?b 0 = Some (int (length c))" using w(3) m(1) by (cases ?m) simp_all
    have step: "strob_vsprintf_loop s True out 0 None = strob_vsprintf_loop ?s2 True out 128 (Some (int (length c)))"
      using set w(2) len v re False m(2) by (subst strob_vsprintf_loop.simps) simp
    have re2: "rewind_oldend ?s2 (Some (int (length c))) = Some ?s3"
      using mem_write_at [of "[hd (take (?m - 1) out @ [NUL])]" "[NUL]" c "tl (take (?m - 1) out @ [NUL])"]
      by (simp add: rewind_oldend_def g_def)
    have "g \<noteq> []" using lg(1) m(1) by auto
    then have wf3: "strob_wf ?s3" using w(1,2) m lg by (auto simp: strob_wf_def)
    have k: "replicate ?k NUL = replicate (nat (128 + STROB_LENGTHINCR - 1)) NUL @ [NUL]"
      using replicate_three [of ?k 0 "nat (128 + STROB_LENGTHINCR - 1)" NUL] by (simp add: STROB_LENGTHINCR_def)
    have set2: "strob_set_memlength ?s3 (sb_reserve ?s3 + 128) = Some ?s4"
    proof -
      have "strob_reopen_fill_with ?s3 (sb_reserve s + 128 + STROB_LENGTHINCR) 0 = Some (?s3\<lparr>sb_str := Some (c @ g @ replicate ?k NUL), sb_tok := None,
          sb_reserve := sb_reserve s + 128 + STROB_LENGTHINCR\<rparr>)"
        using strob_reopen_fill_with_grow [OF wf3, of "c @ g" "sb_reserve s + 128 + STROB_LENGTHINCR" 0] w(7) m lg(1) assms(3)
        unfolding k by (simp add: STROB_LENGTHINCR_def)
      then show ?thesis using w(4,7) assms(3) by (simp add: strob_set_memlength_def strob_reopen_if_def strob_reopen_def STROB_LENGTHINCR_def)
    qed
    let ?s = "?s4\<lparr>sb_str := Some (c @ out @ replicate (?m + ?k - length out) NUL)\<rparr>"
    have "strob_sprintf s True out = Some (?s, int (length out))"
      using vsprintf_last_round [OF re2 set2, of c g ?k out] w(3) m lg assms(3,4) False unfolding run step
      by (simp add: STROB_LENGTHINCR_def)
    moreover have "strob_clean ?s (c @ out)"
    proof -
      have n: "nat (sb_reserve s + 128 + STROB_LENGTHINCR) = nat (sb_reserve s) + ?k" "?k = 284"
        using w(7) by (simp_all add: STROB_LENGTHINCR_def nat_add_distrib)
      define x where "x = ?m + ?k - length out"
      have x: "0 < x" "length c + length out + x = nat (sb_reserve s) + ?k" using n(2) m(1) assms(4) by (simp_all add: x_def)
      have l: "last (c @ out @ replicate x NUL) = NUL" using x(1) by simp
      have x2: "x = nat (sb_reserve s + 128 + STROB_LENGTHINCR) - length (c @ out)" "int (length (c @ out) + x) = sb_reserve s + 128 + STROB_LENGTHINCR"
        "length (c @ out) \<le> nat (sb_reserve s) + 128"
        using x n w(7) assms(4) m(1) STROB_LENGTHINCR_def by simp_all
      have "strob_wf ?s" using l x2(2) w(4,7) unfolding x_def [symmetric] strob_wf_def by (simp add: STROB_LENGTHINCR_def)
      moreover have "int (length c) + int (length out) \<le> sb_reserve s + 128" using x2(3) w(7) by (simp add: nat_le_iff)
      ultimately show ?thesis using w(3,4,6) assms(2) x x2 n unfolding x_def [symmetric] strob_clean_def by (simp add: STROB_LENGTHINCR_def)
    qed
    moreover have "sb_reserve ?s \<le> int (length c) + int (length out) + 128 + STROB_LENGTHINCR" using False m(2) by simp
    ultimately show ?thesis by (intro exI [of _ ?s]) simp
  qed
qed

section \<open>Expansion into a fresh buffer\<close>

lemma char_of_schar [simp]: "char_of (schar c) = c"
proof -
  have "((of_char c :: int) - 256) mod 256 = of_char c mod 256" by simp
  then show ?thesis by (simp add: schar_def char_of_eq_iff take_bit_eq_mod)
qed

lemma clean_get_char:
  assumes "strob_clean s c"
  shows "strob_get_char s (int (length c) - 1) = Some (if c = [] then - 1 else of_char (last c))"
proof (cases c rule: rev_cases)
  case Nil
  then show ?thesis by (simp add: strob_get_char_def)
next
  case (snoc d x)
  then show ?thesis using assms by (simp add: strob_get_char_def strob_clean_def c_read_def)
qed

text \<open>One more character: what it takes to store one, two or four.\<close>

lemma expand_loop_ok:
  assumes "strob_clean store c" "c \<noteq> [] \<Longrightarrow> last c \<noteq> CHR 0x5C" "c_string s" "CHR 0x5C \<notin> set s" "i + j = int (length c)"
    and "sb_reserve store \<le> int (length c) + 500" "int (length c) + 4 * int (length s) + 500 < 2 ^ 30"
  shows "\<exists>store'. expand_loop store i j count s = Some (store', int (length (c @ concat (map escaped s)))) \<and>
    strob_clean store' (c @ concat (map escaped s)) \<and> sb_reserve store' \<le> int (length (c @ concat (map escaped s))) + 500"
  using assms
proof (induction s arbitrary: store c i j count)
  case Nil
  then show ?case by simp
next
  case (Cons x s)
  have x: "x \<noteq> CHR 0x5C" "x \<noteq> NUL" "c_string s" "CHR 0x5C \<notin> set s" using Cons.prems(3,4) by auto
  have cl: "strob_clean store c" and ex: "sb_extra store = STROB_LENGTHINCR" using Cons.prems(1) by (auto simp: strob_clean_def)
  have room: "strob_room store' (int (length d) + 2)" if "strob_clean store' d" "length d \<le> length c + 4" for store' d
    using that Cons.prems(7) by (auto simp: strob_room_def strob_clean_def STROB_LENGTHINCR_def)
  consider (hex) "needs_hex x" | (quote) "\<not> needs_hex x" "x = CHR ''#'' \<or> x = CHR 0x22"
    | (plain) "\<not> needs_hex x" "x \<noteq> CHR ''#''" "x \<noteq> CHR 0x22" by blast
  then obtain store1 i1 j1 count1 where step:
    "expand_loop store i j count (x # s) = expand_loop store1 i1 j1 count1 s"
    "strob_clean store1 (c @ escaped x)" "i1 + j1 = int (length (c @ escaped x))"
    "sb_reserve store1 \<le> int (length (c @ escaped x)) + 500" "length (escaped x) \<le> 4" "last (escaped x) \<noteq> CHR 0x5C"
  proof cases
    case hex
    have d: "hex_upper (of_char x div 16) \<noteq> NUL" "hex_upper (of_char x mod 16) \<noteq> NUL" "hex_upper (of_char x mod 16) \<noteq> CHR 0x5C"
      using hex_digits_back char_div_16 by simp_all
    then have h: "c_string (hex_escape x)" "length (hex_escape x) = 4" by (simp_all add: hex_escape_def)
    obtain store1 where "strob_sprintf store True (hex_escape x) = Some (store1, 4)" "strob_clean store1 (c @ hex_escape x)"
      "sb_reserve store1 \<le> max (sb_reserve store) (int (length c) + 4 + 128 + STROB_LENGTHINCR)"
      using clean_sprintf [OF cl h(1)] h(2) Cons.prems(6,7) by auto
    then show thesis using hex x(1) d h(2) Cons.prems(5,6)
      by (intro that [of store1 "i + 1" "j + 3" count]) (auto simp: escaped_def STROB_LENGTHINCR_def hex_escape_def)
  next
    case quote
    obtain store1 where 1: "strob_chr_index store (int (length c)) 92 = Some store1" "strob_clean store1 (c @ [CHR 0x5C])"
      "sb_reserve store1 \<le> max (sb_reserve store) (int (length c) + 2 + STROB_LENGTHINCR)"
      using clean_chr_index [OF cl room [OF cl], of 92] by (auto simp: char_of_def)
    obtain store2 where 2: "strob_chr_index store1 (int (length (c @ [CHR 0x5C]))) (schar x) = Some store2"
      "strob_clean store2 ((c @ [CHR 0x5C]) @ [x])"
      "sb_reserve store2 \<le> max (sb_reserve store1) (int (length (c @ [CHR 0x5C])) + 2 + STROB_LENGTHINCR)"
      using clean_chr_index [OF 1(2) room [OF 1(2)], of "schar x"] x(2) by auto
    have "of_char (last c) \<noteq> (92 :: int)" if "c \<noteq> []"
    proof
      assume "of_char (last c) = (92 :: int)"
      then have "(of_char (last c) :: int) = of_char CHR 0x5C" by simp
      then show False using Cons.prems(2) that by (metis char_of_char)
    qed
    then have "quoted store i j x = Some (store2, j + 1)"
      using clean_get_char [OF cl] Cons.prems(5) 1(1) 2(1) by (auto simp: quoted_def algebra_simps)
    then show thesis using quote x(1) 1(3) 2(2,3) Cons.prems(5,6)
      by (intro that [of store2 "i + 1" "j + 1" 0]) (auto simp: escaped_def STROB_LENGTHINCR_def)
  next
    case plain
    obtain store1 where 1: "strob_chr_index store (int (length c)) (schar x) = Some store1" "strob_clean store1 (c @ [x])"
      "sb_reserve store1 \<le> max (sb_reserve store) (int (length c) + 2 + STROB_LENGTHINCR)"
      using clean_chr_index [OF cl room [OF cl], of "schar x"] x(2) by auto
    then show thesis using plain x(1) Cons.prems(5,6)
      by (intro that [of store1 "i + 1" j 0]) (auto simp: escaped_def STROB_LENGTHINCR_def)
  qed
  have ne: "last (c @ escaped x) \<noteq> CHR 0x5C" using step(6) by (auto simp: escaped_def hex_escape_def split: if_splits)
  show ?case
    using Cons.IH [OF step(2) ne x(3,4) step(3,4), of count1] step(1,5) Cons.prems(7) by simp
qed

lemma strob_open_20: "\<exists>s. strob_open 20 = Some s \<and> strob_clean s [] \<and> sb_reserve s = 21"
  using strob_open_eq [of 20] by (auto simp: strob_clean_def strob_wf_def empty_strob_def STROB_LENGTHINCR_def)

lemma length_escaped: "length (concat (map escaped s)) \<le> 4 * length s"
  by (induction s) (auto simp: escaped_def hex_escape_def)

text \<open>C26: a text without backslashes that is expanded into a fresh buffer is recovered by removing the escapes again.\<close>

theorem expand_escapes_roundtrip:
  assumes "c_string src" "CHR 0x5C \<notin> set src" "4 * int (length src) + 500 < 2 ^ 30"
  shows "\<exists>store t. swlib_expand_escapes None src = Some (store, int (length (strob_content store))) \<and>
    swlib_unexpand_escapes (strob_content store) = Some t \<and> swlib_process_hex_escapes t = src"
proof -
  let ?e = "concat (map escaped src)"
  obtain s where s: "strob_open 20 = Some s" "strob_clean s []" "sb_reserve s = 21" using strob_open_20 by blast
  obtain s1 where s1: "expand_loop s 0 0 0 src = Some (s1, int (length ?e))" "strob_clean s1 ?e" "sb_reserve s1 \<le> int (length ?e) + 500"
    using expand_loop_ok [OF s(2) _ assms(1,2), of 0 0 0] s(3) assms(3) by auto
  obtain s2 where s2: "strob_chr_index s1 (int (length ?e)) 0 = Some s2" "strob_content s2 = ?e"
    using clean_end [OF s1(2)] s1(3) assms(3) s1(2) length_escaped [of src]
    by (auto simp: strob_room_def strob_clean_def STROB_LENGTHINCR_def)
  have "unexpand_loop ?e = Some (concat (map half_escaped src))" using unexpand_escaped assms(2) .
  moreover have "process_all_hex_escapes (concat (map half_escaped src)) = src" using hex_escapes_back [OF assms(2), of "[]"] by simp
  ultimately show ?thesis using s(1) s1(1) s2 assms(1)
    by (auto simp: swlib_expand_escapes_def swlib_unexpand_escapes_def swlib_process_hex_escapes_def)
qed

section \<open>Expansion into a buffer that was used\<close>

lemma sprintf_fits:
  assumes "sb_str s = Some b" "NUL \<in> set b" "int (length b) = sb_reserve s" "sb_reserve s < INT_LIMIT" "length (cstr b) + length out < length b"
  shows "strob_sprintf s True out =
    Some (s\<lparr>sb_length := sb_reserve s, sb_str := Some (put b (length (cstr b)) (out @ [NUL]))\<rparr>, int (length out))"
proof -
  have n: "c_size (sb_reserve s - int (length (cstr b))) = int (length b) - int (length (cstr b))" using assms(3,4,5) by simp
  have "take (nat (int (length b) - int (length (cstr b))) - 1) out = out" using assms(5) by simp
  then have v: "c_vsnprintf b (int (length (cstr b))) (sb_reserve s - int (length (cstr b))) out = Some (put b (length (cstr b)) (out @ [NUL]))"
    using n assms(5) mem_write_put [of "int (length (cstr b))" "out @ [NUL]" b] by (simp add: c_vsnprintf_def)
  have "strob_set_memlength s (sb_reserve s + 0) = Some (s\<lparr>sb_length := sb_reserve s\<rparr>)"
    using set_memlength_same assms(3,4) by simp
  then show ?thesis
    using assms v by (subst strob_sprintf_def, subst strob_vsprintf_def, subst strob_vsprintf_loop.simps) (simp add: rewind_oldend_def)
qed

abbreviation used_store :: "string \<Rightarrow> int \<Rightarrow> strob" where
  "used_store b len \<equiv> \<lparr>sb_str = Some b, sb_tok = None, sb_length = len, sb_extra = 156, sb_reserve = 33, sb_in_use = 1, fill_charM = 0\<rparr>"

lemma used_store_sprintf:
  assumes "length b = 33" "NUL \<in> set b" "cstr b = c" "length c + length out < 33" "put b (length c) (out @ [NUL]) = b'" "int (length out) = n"
  shows "strob_sprintf (used_store b len) True out = Some (used_store b' 33, n)"
  using sprintf_fits [of "used_store b len" b out] assms by simp

text \<open>in a buffer that held a longer text, a character between two that need hexadecimal escapes lets the old text show
  through, and the second escape is lost.\<close>

theorem expand_reused_buffer:
  "\<exists>s1 s2. Option.bind (strob_open 32) (\<lambda>s. strob_strcpy s ''/usr/share/doc/readme'') = Some s1 \<and>
     swlib_expand_escapes (Some s1) [CHR 0xE9, CHR ''b'', CHR 0xE8] = Some (s2, 9) \<and>
     strob_content s2 = [CHR 0x5C, CHR ''x'', CHR ''E'', CHR ''9'', CHR ''b''] @ ''shar''"
proof -
  let ?old = "''/usr/share/doc/readme'' @ replicate 12 NUL" and ?e = "[CHR 0x5C, CHR ''x'', CHR ''E'', CHR ''9'']"
    and ?f = "[CHR 0x5C, CHR ''x'', CHR ''E'', CHR ''8'']"
  let ?t = "drop 5 ?old"
  have e: "hex_escape (CHR 0xE9) = ?e" "hex_escape (CHR 0xE8) = ?f" "needs_hex (CHR 0xE9)" "needs_hex (CHR 0xE8)" "\<not> needs_hex CHR ''b''"
    "schar CHR ''b'' = 98" by code_simp+
  have 1: "Option.bind (strob_open 32) (\<lambda>s. strob_strcpy s ''/usr/share/doc/readme'') = Some (used_store ?old 21)" by code_simp
  have 2: "strob_strcpy (used_store ?old 21) [] = Some (used_store (NUL # tl ?old) 0)" by code_simp
  have b3: "cstr (NUL # tl ?old) = []" "put (NUL # tl ?old) (length ([] :: string)) (?e @ [NUL]) = ?e @ NUL # ?t" "length (NUL # tl ?old) = 33"
    "int (length ?e) = 4" "NUL \<in> set (NUL # tl ?old)" "length ([] :: string) + length ?e < 33" by code_simp+
  have 3: "strob_sprintf (used_store (NUL # tl ?old) 0) True ?e = Some (used_store (?e @ NUL # ?t) 33, 4)"
    by (rule used_store_sprintf [OF b3(3,5,1,6,2,4)])
  have 4: "strob_chr_index (used_store (?e @ NUL # ?t) 33) 4 98 = Some (used_store (?e @ ''b'' @ ?t) 33)" by code_simp
  let ?u = "take 16 ?t" and ?v = "?e @ ''b'' @ take 16 ?t @ ?f @ drop 20 ?t"
  have b5: "cstr (?e @ ''b'' @ ?t) = ?e @ ''b'' @ ?u" "put (?e @ ''b'' @ ?t) (length (?e @ ''b'' @ ?u)) (?f @ [NUL]) = ?v" "length (?e @ ''b'' @ ?t) = 33"
    "length (?e @ ''b'' @ ?u) + length ?f < 33" "NUL \<in> set (?e @ ''b'' @ ?t)" "int (length ?f) = 4" by code_simp+
  have 5: "strob_sprintf (used_store (?e @ ''b'' @ ?t) 33) True ?f = Some (used_store ?v 33, 4)"
    by (rule used_store_sprintf [OF b5(3,5,1,4,2,6)])
  have 6: "strob_chr_index (used_store ?v 33) 9 0 = Some (used_store (?e @ ''b'' @ ''shar'' @ NUL # drop 10 ?v) 33)" by code_simp
  have "cstr (?e @ ''b'' @ ''shar'' @ NUL # drop 10 ?v) = ?e @ ''bshar''" by code_simp
  then have "strob_content (used_store (?e @ ''b'' @ ''shar'' @ NUL # drop 10 ?v) 33) = ?e @ ''bshar''" by (simp add: strob_content_def)
  moreover have "swlib_expand_escapes (Some (used_store ?old 21)) [CHR 0xE9, CHR ''b'', CHR 0xE8]
      = Some (used_store (?e @ ''b'' @ ''shar'' @ NUL # drop 10 ?v) 33, 9)"
  proof -
    have "expand_loop (used_store (?e @ ''b'' @ ?t) 33) 2 3 0 [CHR 0xE8] = Some (used_store ?v 33, 9)"
      unfolding expand_loop.simps(2) e(2) 5 by (simp add: e(4) del: drop_Cons take_Cons)
    then have "expand_loop (used_store (?e @ NUL # ?t) 33) 1 3 0 [CHR ''b'', CHR 0xE8] = Some (used_store ?v 33, 9)"
      using 4 by (subst expand_loop.simps(2)) (simp add: e(5,6))
    then have "expand_loop (used_store (NUL # tl ?old) 0) 0 0 0 [CHR 0xE9, CHR ''b'', CHR 0xE8] = Some (used_store ?v 33, 9)"
      using 3 by (subst expand_loop.simps(2)) (simp add: e(1,3))
    then show ?thesis unfolding swlib_expand_escapes_def option.case 2 using 6 by simp
  qed
  ultimately show ?thesis using 1 by (intro exI conjI) (assumption | simp)+
qed

theorem expand_escapes_roundtrip_witness:
  "\<exists>store t. swlib_expand_escapes None (''#1 '' @ [CHR 0xE9]) = Some (store, int (length (strob_content store))) \<and>
    swlib_unexpand_escapes (strob_content store) = Some t \<and> swlib_process_hex_escapes t = ''#1 '' @ [CHR 0xE9]"
  by (rule expand_escapes_roundtrip) (simp_all add: c_string_def)

end
