(* ===== verification/SwVerid.thy ===== *)
theory SwVerid
  imports Vercmp SwlibEscape Strar
begin

text \<open>
  Software specifications, \<open>swsupplib/misc/swverid.c\<close>: a list of tags and a list of version ids, with alternates. The record
  \<open>ver_id\<close> is \<open>struct VER_ID\<close>, the record \<open>swverid\<close> the object \<open>SWVERID\<close>; a list linked by \<open>nextM\<close> or \<open>altM\<close> is a list of
  records. Strings in a \<open>STROB\<close> are strings, and a loop of \<open>strob_strtok\<close> visits the \<open>tokens\<close> of its argument
  (\<open>Strob_Tokens\<close>). \<open>cmp\<close> is \<open>strcmp\<close> and \<open>fnm\<close> is \<open>fnmatch\<close>, of the C library. The messages that the code writes to
  the standard error stream have no effect in the model.
\<close>

section \<open>System identification\<close>

record swuts =
  machineM :: "string option"
  sysnameM :: "string option"
  releaseM :: "string option"
  versionM :: "string option"
  arch_tripletM :: "string option"
  result_machineM :: int
  result_sysnameM :: int
  result_releaseM :: int
  result_versionM :: int
  match_resultM :: int

definition swuts_create :: swuts where
  "swuts_create = \<lparr>machineM = None, sysnameM = None, releaseM = None, versionM = None, arch_tripletM = None,
     result_machineM = 0, result_sysnameM = 0, result_releaseM = 0, result_versionM = 0, match_resultM = - 1\<rparr>"

definition compare_name :: "(string \<Rightarrow> string \<Rightarrow> int \<Rightarrow> int) \<Rightarrow> string option \<Rightarrow> string option \<Rightarrow> int" where
  "compare_name fnm target sw = (case sw of None \<Rightarrow> 0 | Some sw \<Rightarrow> if sw = [] then 0 else
     (case target of None \<Rightarrow> 0 | Some target \<Rightarrow> if target = [] then 0 else fnm sw target 0))"

text \<open>The results are kept in the pattern, in fields of type \<open>char\<close>.\<close>

definition c_char :: "int \<Rightarrow> int" where
  "c_char n = (n + 128) mod 256 - 128"

definition swuts_compare :: "(string \<Rightarrow> string \<Rightarrow> int \<Rightarrow> int) \<Rightarrow> swuts \<Rightarrow> swuts \<Rightarrow> swuts \<times> int" where
  "swuts_compare fnm uts_target uts_swdef =
     (let uts_swdef = uts_swdef\<lparr>result_sysnameM := c_char (compare_name fnm (sysnameM uts_target) (sysnameM uts_swdef))\<rparr>;
          uts_swdef = uts_swdef\<lparr>result_machineM := c_char (compare_name fnm (machineM uts_target) (machineM uts_swdef))\<rparr>;
          uts_swdef = uts_swdef\<lparr>result_releaseM := c_char (compare_name fnm (releaseM uts_target) (releaseM uts_swdef))\<rparr>;
          uts_swdef = uts_swdef\<lparr>result_versionM := c_char (compare_name fnm (versionM uts_target) (versionM uts_swdef))\<rparr>
      in if result_sysnameM uts_swdef = 0 \<and> result_machineM uts_swdef = 0 \<and> result_releaseM uts_swdef = 0 \<and> result_versionM uts_swdef = 0
         then (uts_swdef\<lparr>match_resultM := 0\<rparr>, 0) else (uts_swdef\<lparr>match_resultM := 1\<rparr>, 1))"

definition swuts_add_attribute :: "swuts \<Rightarrow> string \<Rightarrow> string \<Rightarrow> swuts" where
  "swuts_add_attribute uts attribute value =
     (if attribute = ''os_name'' then uts\<lparr>sysnameM := Some value\<rparr>
      else if attribute = ''os_version'' then uts\<lparr>versionM := Some value\<rparr>
      else if attribute = ''os_release'' then uts\<lparr>releaseM := Some value\<rparr>
      else if attribute = ''machine_type'' then uts\<lparr>machineM := Some value\<rparr>
      else if attribute = ''architecture'' then uts\<lparr>arch_tripletM := Some value\<rparr>
      else uts)"

definition swuts_is_uts_attribute :: "string \<Rightarrow> bool" where
  "swuts_is_uts_attribute name \<longleftrightarrow> name \<in> {''os_name'', ''os_release'', ''os_version'', ''machine_type'', ''architecture''}"

section \<open>Version ids\<close>

definition SWVERID_CMP_NOT_USED :: int where "SWVERID_CMP_NOT_USED = - 50"
definition SWVERID_CMP_NEQ :: int where "SWVERID_CMP_NEQ = 0"
definition SWVERID_CMP_LT :: int where "SWVERID_CMP_LT = 1"
definition SWVERID_CMP_LTE :: int where "SWVERID_CMP_LTE = 2"
definition SWVERID_CMP_EQ2 :: int where "SWVERID_CMP_EQ2 = 3"
definition SWVERID_CMP_EQ :: int where "SWVERID_CMP_EQ = 4"
definition SWVERID_CMP_GTE :: int where "SWVERID_CMP_GTE = 5"
definition SWVERID_CMP_GT :: int where "SWVERID_CMP_GT = 6"

lemmas cmp_codes = SWVERID_CMP_NOT_USED_def SWVERID_CMP_NEQ_def SWVERID_CMP_LT_def SWVERID_CMP_LTE_def SWVERID_CMP_EQ2_def
  SWVERID_CMP_EQ_def SWVERID_CMP_GTE_def SWVERID_CMP_GT_def

definition SWVERID_VERIDS_POSIX :: string where "SWVERID_VERIDS_POSIX = ''ravlq''"
definition SWVERID_VERIDS_SWBIS :: string where "SWVERID_VERIDS_SWBIS = ''ig''"
definition SWVERID_QUALIFIER :: string where "SWVERID_QUALIFIER = ''bpf''"

record ver_id =
  ver_idM :: string
  idM :: string
  vqM :: string
  rel_opM :: string
  rel_op_codeM :: int
  valueM :: "string option"

definition rel_op_array :: "string list" where
  "rel_op_array = [''!='', ''<'', ''<='', ''='', ''=='', ''>='', ''>'']"

definition determine_rel_op_code :: "string \<Rightarrow> int" where
  "determine_rel_op_code rel_op = (case first_index (\<lambda>s. s = rel_op) rel_op_array of None \<Rightarrow> - 1 | Some i \<Rightarrow> int i)"

definition get_ver_id_char_from_this :: "ver_id \<Rightarrow> char" where
  "get_ver_id_char_from_this this = next_char (if length (ver_idM this) > 1 then tl (ver_idM this) else ver_idM this)"

definition compare_relop :: "int \<Rightarrow> int \<Rightarrow> int" where
  "compare_relop rel req =
     (if req = SWVERID_CMP_NOT_USED then rel
      else if req = SWVERID_CMP_NEQ then (if rel \<noteq> SWVERID_CMP_EQ then 0 else 1)
      else if req = SWVERID_CMP_EQ \<or> req = SWVERID_CMP_EQ2 then (if rel \<noteq> SWVERID_CMP_EQ \<and> rel \<noteq> SWVERID_CMP_EQ2 then 1 else 0)
      else if req = SWVERID_CMP_LTE then (if rel = SWVERID_CMP_EQ \<or> rel = SWVERID_CMP_LTE \<or> rel = SWVERID_CMP_LT then 0 else 1)
      else if req = SWVERID_CMP_LT then (if rel = SWVERID_CMP_LTE then - 1 else if rel = SWVERID_CMP_LT then 0 else 1)
      else if req = SWVERID_CMP_GT then (if rel = SWVERID_CMP_GTE then - 1 else if rel = SWVERID_CMP_GT then 0 else 1)
      else if req = SWVERID_CMP_GTE then (if rel = SWVERID_CMP_EQ \<or> rel = SWVERID_CMP_GTE \<or> rel = SWVERID_CMP_GT then 0 else 1)
      else - 1)"

text \<open>A character that the scanner of relational operators accepts; \<open>!\<close> is not among them.\<close>

definition relop_char :: "char \<Rightarrow> bool" where
  "relop_char c \<longleftrightarrow> c = CHR ''='' \<or> c = CHR ''|'' \<or> c = CHR ''<'' \<or> c = CHR ''>''"

text \<open>The value: a location is made an absolute path.\<close>

definition verid_value :: "string \<Rightarrow> string \<Rightarrow> string" where
  "verid_value letter s =
     (if s = [] then []
      else if letter = ''l'' then
        (let s = swlib_squash_trailing_slash s in if next_char s \<noteq> CHR ''/'' then ''/'' @ s else s)
      else s)"

definition create_version_id :: "string \<Rightarrow> ver_id option" where
  "create_version_id version_id_string =
     (let letters = takeWhile isalpha version_id_string;
          s = dropWhile isalpha version_id_string;
          n = length letters;
          letter = (if n = 1 then letters else drop 1 letters);
          qualifier = (if n = 1 then [] else take 1 letters);
          rel_op = take 3 (takeWhile relop_char s);
          rel_op_code = determine_rel_op_code rel_op
      in if n = 0 \<or> n > 2 then None
         else if n = 2 \<and> \<not> strpbrk qualifier SWVERID_QUALIFIER then None
         else if \<not> strpbrk letter (SWVERID_VERIDS_POSIX @ SWVERID_VERIDS_SWBIS) then None
         else if length rel_op > 2 then None
         else if length rel_op = 0 then None
         else if rel_op_code < 0 then None
         else if letter = ''r'' \<and> rel_op_code = SWVERID_CMP_EQ2 then None
         else if letter \<noteq> ''r'' \<and> rel_op_code \<noteq> SWVERID_CMP_EQ2 then None
         else Some \<lparr>ver_idM = letters, idM = letter, vqM = qualifier, rel_opM = rel_op, rel_op_codeM = rel_op_code,
                valueM = Some (verid_value letter (drop (length rel_op) s))\<rparr>)"

definition swverid_create_version_id :: "string \<Rightarrow> ver_id option" where
  "swverid_create_version_id verid_string = create_version_id verid_string"

definition print_one :: "ver_id \<Rightarrow> string" where
  "print_one v = vqM v @ idM v @ rel_opM v @ (case valueM v of None \<Rightarrow> [] | Some val \<Rightarrow> val)"

definition copy_construct_version_id :: "ver_id option \<Rightarrow> ver_id option" where
  "copy_construct_version_id ver_id = (case ver_id of None \<Rightarrow> None | Some v \<Rightarrow> create_version_id (print_one v))"

text \<open>Appending the elements of a list to an empty buffer, with a character in front of all but the first.\<close>

fun join :: "char \<Rightarrow> string list \<Rightarrow> string" where
  "join c [] = []"
| "join c [s] = s"
| "join c (s # t # ts) = s @ c # join c (t # ts)"

definition swverid_print_ver_id :: "ver_id list \<Rightarrow> string" where
  "swverid_print_ver_id vs = join CHR '','' (map print_one vs)"

section \<open>Comparison of version ids\<close>

definition swverid_i_rpmvercmp :: "(string \<Rightarrow> string \<Rightarrow> int) \<Rightarrow> string option \<Rightarrow> string option \<Rightarrow> int" where
  "swverid_i_rpmvercmp cmp target candidate = (case (target, candidate) of
     (Some t, Some c) \<Rightarrow> swlib_rpmvercmp cmp t c | _ \<Rightarrow> 0)"

definition swverid_i_fnmatch :: "(string \<Rightarrow> string \<Rightarrow> int \<Rightarrow> int) \<Rightarrow> string option \<Rightarrow> string option \<Rightarrow> int \<Rightarrow> int" where
  "swverid_i_fnmatch fnm candidate target flags = (case (target, candidate) of
     (Some t, Some c) \<Rightarrow> fnm c t flags | _ \<Rightarrow> 0)"

text \<open>The candidate with the code that is stored into it, and the result.\<close>

definition compare_version_id ::
  "(string \<Rightarrow> string \<Rightarrow> int) \<Rightarrow> (string \<Rightarrow> string \<Rightarrow> int \<Rightarrow> int) \<Rightarrow> ver_id option \<Rightarrow> ver_id option \<Rightarrow> int \<Rightarrow> ver_id option \<times> int" where
  "compare_version_id cmp fnm id_target id_candidate req = (case id_candidate of
     None \<Rightarrow> (None, 0)
   | Some c \<Rightarrow> (case id_target of
       None \<Rightarrow> (Some (c\<lparr>rel_op_codeM := SWVERID_CMP_NOT_USED\<rparr>), 0)
     | Some t \<Rightarrow>
         if get_ver_id_char_from_this c = CHR ''r'' then
           (let ret = swverid_i_rpmvercmp cmp (valueM t) (valueM c)
            in if ret = 1 then (Some (c\<lparr>rel_op_codeM := SWVERID_CMP_LT\<rparr>), compare_relop SWVERID_CMP_LT req)
               else if ret = - 1 then (Some (c\<lparr>rel_op_codeM := SWVERID_CMP_GT\<rparr>), compare_relop SWVERID_CMP_GT req)
               else if ret = 0 then (Some (c\<lparr>rel_op_codeM := SWVERID_CMP_EQ\<rparr>), compare_relop SWVERID_CMP_EQ req)
               else (Some c, - 1))
         else
           (let code = (if swverid_i_fnmatch fnm (valueM c) (valueM t) 0 = 0 then SWVERID_CMP_EQ else SWVERID_CMP_NEQ)
            in (Some (c\<lparr>rel_op_codeM := code\<rparr>), compare_relop code req))))"

section \<open>The object\<close>

definition SWVERID_NS_NA :: int where "SWVERID_NS_NA = - 1"
definition SWVERID_NS_TOP :: int where "SWVERID_NS_TOP = 1"
definition SWVERID_NS_MID :: int where "SWVERID_NS_MID = 2"
definition SWVERID_NS_LOW :: int where "SWVERID_NS_LOW = 3"

text \<open>The alternates are not part of the record: an object with its alternates is a list of records.\<close>

record swverid =
  object_nameM :: "string option"
  source_copyM :: "string option"
  catalogM :: "string option"
  use_path_compareM :: int
  taglistM :: "string cplob"
  namespaceM :: int
  comparison_codeM :: int
  ver_id_listM :: "ver_id list"
  swutsM :: swuts
  alter_uuidM :: int

definition is_fully_qualified :: "swverid \<Rightarrow> int" where
  "is_fully_qualified spec = 0"

text \<open>\<open>strncmp (word, object_kw, strlen of the first argument)\<close>\<close>

definition begins_with :: "string \<Rightarrow> nat \<Rightarrow> string \<Rightarrow> bool" where
  "begins_with word n object_kw \<longleftrightarrow> take n word = take n object_kw"

definition classify_namespace :: "string option \<Rightarrow> int" where
  "classify_namespace object_kw = (case object_kw of None \<Rightarrow> SWVERID_NS_NA | Some kw \<Rightarrow>
     if begins_with ''fileset'' 7 kw then SWVERID_NS_MID
     else if begins_with ''control_file'' 11 kw then SWVERID_NS_MID
     else if begins_with ''subproduct'' 10 kw then SWVERID_NS_MID
     else if begins_with ''product'' 7 kw then SWVERID_NS_TOP
     else if begins_with ''bundle'' 6 kw then SWVERID_NS_TOP
     else if begins_with ''file'' 4 kw then SWVERID_NS_LOW
     else SWVERID_NS_NA)"

definition swverid_set_object_name :: "swverid \<Rightarrow> string option \<Rightarrow> swverid" where
  "swverid_set_object_name swverid name = swverid\<lparr>object_nameM := Some (case name of None \<Rightarrow> [] | Some n \<Rightarrow> n)\<rparr>"

definition swverid_get_object_name :: "swverid \<Rightarrow> string option" where
  "swverid_get_object_name swverid = object_nameM swverid"

definition swverid_set_namespace :: "swverid \<Rightarrow> string option \<Rightarrow> swverid" where
  "swverid_set_namespace swverid object_keyword =
     swverid_set_object_name (swverid\<lparr>namespaceM := classify_namespace object_keyword\<rparr>) object_keyword"

definition swverid_get_comparison_code :: "swverid \<Rightarrow> int" where
  "swverid_get_comparison_code swverid = comparison_codeM swverid"

definition swverid_set_comparison_code :: "swverid \<Rightarrow> int \<Rightarrow> swverid" where
  "swverid_set_comparison_code swverid code = swverid\<lparr>comparison_codeM := code\<rparr>"

subsection \<open>The list of version ids\<close>

text \<open>Adding the null pointer leaves the list as it is.\<close>

definition swverid_add_verid :: "swverid \<Rightarrow> ver_id option \<Rightarrow> swverid" where
  "swverid_add_verid swverid verid = swverid\<lparr>ver_id_listM := ver_id_listM swverid @ (case verid of None \<Rightarrow> [] | Some v \<Rightarrow> [v])\<rparr>"

text \<open>The loop of \<open>i_replace_verid\<close>; \<open>prev\<close> tells whether there is an element in front. The result is the list behind and
  whether the function returned. Reading the fields of a copy that could not be made is \<^term>\<open>None\<close>.\<close>

fun replace_loop :: "ver_id \<Rightarrow> bool \<Rightarrow> bool \<Rightarrow> ver_id list \<Rightarrow> (ver_id list \<times> bool) option" where
  "replace_loop verid do_replace prev [] = Some ([], False)"
| "replace_loop verid do_replace prev (v # vs) =
     (if get_ver_id_char_from_this v = get_ver_id_char_from_this verid then
        (if do_replace then (case copy_construct_version_id (Some verid) of
             None \<Rightarrow> None
           | Some newverid \<Rightarrow> Some (if prev then newverid # vs else v # vs, True))
         else Some (v # vs, True))
      else map_option (\<lambda>(vs, fin). (v # vs, fin)) (replace_loop verid do_replace True vs))"

definition i_replace_verid :: "swverid \<Rightarrow> ver_id \<Rightarrow> bool \<Rightarrow> swverid option" where
  "i_replace_verid swverid verid do_replace =
     (if ver_id_listM swverid = [] then Some (swverid_add_verid swverid (copy_construct_version_id (Some verid)))
      else do {
        (vs, returned) \<leftarrow> replace_loop verid do_replace False (ver_id_listM swverid);
        if returned then Some (swverid\<lparr>ver_id_listM := vs\<rparr>)
        else Some (swverid_add_verid swverid (copy_construct_version_id (Some verid))) })"

definition swverid_add_verid_if :: "swverid \<Rightarrow> ver_id \<Rightarrow> swverid option" where
  "swverid_add_verid_if swverid verid = i_replace_verid swverid verid False"

definition swverid_replace_verid :: "swverid \<Rightarrow> ver_id \<Rightarrow> swverid option" where
  "swverid_replace_verid swverid verid = i_replace_verid swverid verid True"

definition ver_ids_copy :: "swverid \<Rightarrow> swverid \<Rightarrow> swverid" where
  "ver_ids_copy dst src = foldl (\<lambda>dst v. swverid_add_verid dst (copy_construct_version_id (Some v))) (dst\<lparr>ver_id_listM := []\<rparr>) (ver_id_listM src)"

definition swverid_ver_id_set_object_qualifier :: "swverid \<Rightarrow> string \<Rightarrow> swverid" where
  "swverid_ver_id_set_object_qualifier swverid objkeyword =
     swverid\<lparr>ver_id_listM := map (\<lambda>v. v\<lparr>vqM := take 1 objkeyword\<rparr>) (ver_id_listM swverid)\<rparr>"

text \<open>Removing the element at a position; \<open>- 1\<close> when there is none.\<close>

definition swverid_ver_id_unlink :: "swverid \<Rightarrow> nat \<Rightarrow> swverid \<times> int" where
  "swverid_ver_id_unlink swverid k =
     (if k < length (ver_id_listM swverid)
      then (swverid\<lparr>ver_id_listM := take k (ver_id_listM swverid) @ drop (k + 1) (ver_id_listM swverid)\<rparr>, 0)
      else (swverid, - 1))"

text \<open>The loop of \<open>swverid_get_verid\<close>. The result is the position of the element.\<close>

fun get_verid_loop :: "string \<Rightarrow> string \<Rightarrow> int \<Rightarrow> ver_id list \<Rightarrow> int \<Rightarrow> nat \<Rightarrow> nat option" where
  "get_verid_loop verid qualifier occno [] occ_count k = None"
| "get_verid_loop verid qualifier occno (v # vs) occ_count k =
     (if next_char (idM v) = next_char verid then
        (if qualifier \<noteq> [] \<and> vqM v \<noteq> [] \<and> next_char (vqM v) \<noteq> next_char qualifier
         then get_verid_loop verid qualifier occno vs occ_count (k + 1)
         else if occ_count \<ge> occno - 1 then Some k
         else get_verid_loop verid qualifier occno vs (occ_count + 1) (k + 1))
      else get_verid_loop verid qualifier occno vs occ_count (k + 1))"

definition swverid_get_verid :: "swverid \<Rightarrow> string \<Rightarrow> int \<Rightarrow> nat option" where
  "swverid_get_verid swverid fp_verid occno =
     (if length fp_verid > 2 then None
      else (let verid = (if length fp_verid > 1 then tl fp_verid else fp_verid);
                qualifier = (if length verid > 1 then verid else [])
            in get_verid_loop verid qualifier occno (ver_id_listM swverid) 0 0))"

definition swverid_get_verid_value :: "swverid \<Rightarrow> string \<Rightarrow> int \<Rightarrow> string option" where
  "swverid_get_verid_value swverid fp_verid occno = (case swverid_get_verid swverid fp_verid occno of
     None \<Rightarrow> None | Some k \<Rightarrow> valueM (ver_id_listM swverid ! k))"

text \<open>The version ids without shell characters in their values, and how many were removed.\<close>

fun delete_tainted :: "ver_id list \<Rightarrow> ver_id list \<times> int" where
  "delete_tainted [] = ([], 0)"
| "delete_tainted (v # vs) =
     (let (vs, retval) = delete_tainted vs
      in if swlib_is_sh_tainted_string (valueM v) \<noteq> 0 then (vs, retval + 1) else (v # vs, retval))"

definition swverid_delete_non_fully_qualified_verids :: "swverid \<Rightarrow> swverid \<times> int" where
  "swverid_delete_non_fully_qualified_verids swverid =
     (let (vs, retval) = delete_tainted (ver_id_listM swverid) in (swverid\<lparr>ver_id_listM := vs\<rparr>, retval))"

subsection \<open>Parsing\<close>

fun parse_ids_loop :: "swverid \<Rightarrow> string list \<Rightarrow> swverid \<times> int" where
  "parse_ids_loop swverid [] = (swverid, 0)"
| "parse_ids_loop swverid (s # ss) = (case create_version_id s of
     None \<Rightarrow> (swverid, - 1) | Some verid \<Rightarrow> parse_ids_loop (swverid_add_verid swverid (Some verid)) ss)"

definition parse_version_ids_string :: "swverid \<Rightarrow> string \<Rightarrow> swverid \<times> int" where
  "parse_version_ids_string swverid verid_string = parse_ids_loop swverid (tokens '','' verid_string)"

fun parse_verids_loop :: "swverid \<Rightarrow> string list \<Rightarrow> swverid \<times> int" where
  "parse_verids_loop swverid [] = (swverid, 0)"
| "parse_verids_loop swverid (verid # verids) =
     (let (swverid, ret) = (if verid = ''*'' then (swverid, 0) else parse_version_ids_string swverid verid)
      in if ret \<noteq> 0 then (swverid, - 1) else parse_verids_loop swverid verids)"

fun add_tags :: "string cplob \<Rightarrow> string list \<Rightarrow> string cplob option" where
  "add_tags lob [] = Some lob"
| "add_tags lob (tag # tags) = do { lob \<leftarrow> cplob_add_nta lob (Some tag); add_tags lob tags }"

text \<open>The tags and the version ids of a specification, or the error number.\<close>

definition split_swspec :: "string \<Rightarrow> int + (string list \<times> string list)" where
  "split_swspec source = (case tokens '','' source of
     [] \<Rightarrow> Inl (- 1)
   | tags # verids \<Rightarrow> (case tokens ''.'' tags of
       [] \<Rightarrow> Inl (- 1)
     | tag # rest \<Rightarrow> if strpbrk tag ''!=<>'' then Inr ([''*''], tl (tokens '','' (''*,'' @ source))) else Inr (tag # rest, verids)))"

definition parse_swspec_string :: "swverid \<Rightarrow> (swverid \<times> int) option" where
  "parse_swspec_string swverid = (case source_copyM swverid of
     None \<Rightarrow> Some (swverid, - 2)
   | Some source \<Rightarrow>
       if source = [] then Some (swverid, - 2)
       else do {
         lob \<leftarrow> cplob_shallow_reset (taglistM swverid);
         let swverid = swverid\<lparr>taglistM := lob\<rparr>;
         case split_swspec source of
           Inl e \<Rightarrow> Some (swverid, e)
         | Inr (tags, verids) \<Rightarrow> do {
             lob \<leftarrow> add_tags lob tags;
             Some (parse_verids_loop (swverid\<lparr>taglistM := lob\<rparr>) verids) } })"

text \<open>A new object; \<open>Some None\<close> is the null pointer that is returned for a specification with an error.\<close>

definition swverid_i_open :: "string option \<Rightarrow> string option \<Rightarrow> swverid option option" where
  "swverid_i_open object_keyword swversion_string = do {
     lob \<leftarrow> cplob_open 3;
     lob \<leftarrow> cplob_add_nta lob None;
     let swverid = swverid_set_namespace \<lparr>object_nameM = Some [], source_copyM = None, catalogM = Some [], use_path_compareM = 0,
       taglistM = lob, namespaceM = SWVERID_NS_NA, comparison_codeM = SWVERID_CMP_EQ, ver_id_listM = [], swutsM = swuts_create,
       alter_uuidM = 0\<rparr> object_keyword;
     case swversion_string of
       None \<Rightarrow> Some (Some swverid)
     | Some s \<Rightarrow> do {
         (swverid, ret) \<leftarrow> parse_swspec_string (swverid\<lparr>source_copyM := Some s\<rparr>);
         if ret < 0 then Some None else Some (Some swverid) } }"

fun open_alternates :: "string option \<Rightarrow> string list \<Rightarrow> swverid list option option" where
  "open_alternates object_keyword [] = Some (Some [])"
| "open_alternates object_keyword (s # ss) = do {
     r \<leftarrow> swverid_i_open object_keyword (Some s);
     case r of
       None \<Rightarrow> Some None
     | Some swverid \<Rightarrow> do {
         rest \<leftarrow> open_alternates object_keyword ss;
         Some (map_option (Cons swverid) rest) } }"

text \<open>The object with its alternates, and the next number for a group of alternates (\<open>sg_swverid_uuid\<close>).\<close>

definition swverid_open :: "string option \<Rightarrow> string option \<Rightarrow> int \<Rightarrow> (swverid list option \<times> int) option" where
  "swverid_open object_keyword swversion_string uuid = (case swversion_string of
     Some s \<Rightarrow> do {
       r \<leftarrow> open_alternates object_keyword (tokens [CHR ''|'', CHR 0x0A, CHR 0x0D] s);
       case r of
         None \<Rightarrow> Some (None, uuid)
       | Some [] \<Rightarrow> Some (None, uuid)
       | Some objs \<Rightarrow> (let uuid = (if uuid = 0 then c_int (uuid + 1) else uuid)
           in Some (Some (map (\<lambda>x. x\<lparr>alter_uuidM := uuid\<rparr>) objs), c_int (uuid + 1))) }
   | None \<Rightarrow> do {
       r \<leftarrow> swverid_i_open object_keyword None;
       case r of None \<Rightarrow> Some (None, uuid) | Some p \<Rightarrow> Some (Some [p\<lparr>alter_uuidM := uuid\<rparr>], c_int (uuid + 1)) })"

definition swverid_get_alternate :: "swverid list \<Rightarrow> swverid list" where
  "swverid_get_alternate objs = tl objs"

definition swverid_disconnect_alternates :: "swverid list \<Rightarrow> swverid list list" where
  "swverid_disconnect_alternates objs = map (\<lambda>x. [x]) objs"

subsection \<open>Printing and copying\<close>

text \<open>The tags are read up to the null pointer.\<close>

definition list_tags :: "string cplob \<Rightarrow> string list option" where
  "list_tags lob = nta_scan (cplob_val lob) 0 (\<lambda>tag acc. Inr (acc @ [tag])) []"

definition swverid_i_print :: "swverid \<Rightarrow> string \<Rightarrow> string option" where
  "swverid_i_print swverid buf = do {
     tags \<leftarrow> list_tags (taglistM swverid);
     let version = swverid_print_ver_id (ver_id_listM swverid);
     Some (buf @ join CHR ''.'' tags @ (if length version > 0 then '','' @ version else [])) }"

fun print_alternates :: "swverid list \<Rightarrow> string \<Rightarrow> string option" where
  "print_alternates [] buf = Some buf"
| "print_alternates (s # ss) buf = do { buf \<leftarrow> swverid_i_print s (buf @ ''|''); print_alternates ss buf }"

definition swverid_print :: "swverid list \<Rightarrow> string option" where
  "swverid_print objs = (case objs of
     [] \<Rightarrow> None
   | swverid # alternates \<Rightarrow> do { buf \<leftarrow> swverid_i_print swverid []; print_alternates alternates buf })"

definition swverid_get_tag :: "swverid \<Rightarrow> int \<Rightarrow> string option option" where
  "swverid_get_tag swverid n = cplob_val (taglistM swverid) n"

definition swverid_add_tag :: "swverid \<Rightarrow> string \<Rightarrow> swverid option" where
  "swverid_add_tag swverid tag = do { lob \<leftarrow> cplob_add_nta (taglistM swverid) (Some tag); Some (swverid\<lparr>taglistM := lob\<rparr>) }"

definition swverid_set_tag :: "swverid \<Rightarrow> string \<Rightarrow> string option \<Rightarrow> swverid option" where
  "swverid_set_tag swverid key val = (case val of
     None \<Rightarrow> Some swverid
   | Some v \<Rightarrow> if key = ''catalog'' then Some (swverid\<lparr>catalogM := Some v\<rparr>)
       else do { _ \<leftarrow> cplob_val (taglistM swverid) 0; lob \<leftarrow> cplob_additem (taglistM swverid) 0 (Some v); Some (swverid\<lparr>taglistM := lob\<rparr>) })"

text \<open>Copying a source whose alternates are not copied.\<close>

definition swverid_copy :: "swverid \<Rightarrow> int \<Rightarrow> (swverid \<times> int) option" where
  "swverid_copy src uuid = do {
     (r, uuid) \<leftarrow> swverid_open None None uuid;
     objs \<leftarrow> r;
     let dst = hd objs;
     let dst = dst\<lparr>object_nameM := object_nameM src, source_copyM := source_copyM src, catalogM := catalogM src,
       use_path_compareM := use_path_compareM src, namespaceM := namespaceM src, comparison_codeM := comparison_codeM src\<rparr>;
     lob \<leftarrow> cplob_open 1;
     lob \<leftarrow> cplob_add_nta lob None;
     tags \<leftarrow> list_tags (taglistM src);
     lob \<leftarrow> add_tags lob tags;
     Some (ver_ids_copy (dst\<lparr>taglistM := lob\<rparr>) src, uuid) }"

text \<open>The tags of another specification; its version ids are added to the object.\<close>

definition swverid_u_parse_swspec :: "swverid \<Rightarrow> string \<Rightarrow> (string cplob \<times> swverid) option" where
  "swverid_u_parse_swspec swverid swspec = do {
     lob \<leftarrow> cplob_open 3;
     (s, _) \<leftarrow> parse_swspec_string (swverid\<lparr>taglistM := lob, source_copyM := Some swspec\<rparr>);
     Some (taglistM s, s\<lparr>taglistM := taglistM swverid, source_copyM := source_copyM swverid\<rparr>) }"

subsection \<open>Attributes\<close>

text \<open>The letter of the version id of an attribute, 0 for the tag, \<open>- 1\<close> for any other attribute.\<close>

definition swverid_get_ver_id_char :: "string \<Rightarrow> string \<Rightarrow> int" where
  "swverid_get_ver_id_char object attr_name =
     (if attr_name = ''revision'' then of_char CHR ''r''
      else if attr_name = ''architecture'' then of_char CHR ''a''
      else if attr_name = ''vendor_tag'' then of_char CHR ''v''
      else if attr_name = ''location'' then of_char CHR ''l''
      else if attr_name = ''qualifier'' then of_char CHR ''q''
      else if attr_name = ''tag'' then 0
      else if attr_name = ''path'' then (if object = ''file'' \<or> object = ''distribution'' then 0 else - 1)
      else - 1)"

definition swverid_add_attribute :: "swverid \<Rightarrow> string \<Rightarrow> string \<Rightarrow> string \<Rightarrow> (swverid \<times> int) option" where
  "swverid_add_attribute swverid object_keyword keyword val =
     (let swverid = (if object_keyword = ''file'' \<or> object_keyword = ''control_file'' then swverid\<lparr>use_path_compareM := 1\<rparr> else swverid);
          c = swverid_get_ver_id_char object_keyword keyword
      in if c < 0 then Some (swverid\<lparr>swutsM := swuts_add_attribute (swutsM swverid) keyword val\<rparr>, 0)
         else if c = 0 then do {
           lob \<leftarrow> cplob_additem (taglistM swverid) 0 (Some val);
           Some (swverid\<lparr>source_copyM := Some val, taglistM := lob\<rparr>, 1) }
         else (case create_version_id ([char_of c] @ (if char_of c = CHR ''r'' then ''=='' else ''='') @ val) of
             None \<Rightarrow> Some (swverid, - 1)
           | Some version_id \<Rightarrow> Some (swverid_add_verid swverid (Some version_id), 1)))"

section \<open>Comparison of objects\<close>

definition compare_taglist :: "swverid \<Rightarrow> swverid \<Rightarrow> int" where
  "compare_taglist pattern fq_candidate = - 1"

text \<open>The comparison of the version ids of one kind, which stores into the candidate.\<close>

definition compare_kind ::
  "(string \<Rightarrow> string \<Rightarrow> int) \<Rightarrow> (string \<Rightarrow> string \<Rightarrow> int \<Rightarrow> int) \<Rightarrow> swverid \<Rightarrow> string \<Rightarrow> swverid \<Rightarrow> swverid" where
  "compare_kind cmp fnm target letter candidate =
     (let id_target = map_option (nth (ver_id_listM target)) (swverid_get_verid target letter 1)
      in case swverid_get_verid candidate letter 1 of
           None \<Rightarrow> candidate
         | Some k \<Rightarrow> (case compare_version_id cmp fnm id_target (Some (ver_id_listM candidate ! k)) SWVERID_CMP_NOT_USED of
               (Some v, _) \<Rightarrow> candidate\<lparr>ver_id_listM := (ver_id_listM candidate)[k := v]\<rparr>
             | (None, _) \<Rightarrow> candidate))"

definition compare_all_version_ids ::
  "(string \<Rightarrow> string \<Rightarrow> int) \<Rightarrow> (string \<Rightarrow> string \<Rightarrow> int \<Rightarrow> int) \<Rightarrow> swverid \<Rightarrow> swverid \<Rightarrow> swverid \<times> int" where
  "compare_all_version_ids cmp fnm target candidate =
     (if is_fully_qualified target = 0 then (candidate, - 1)
      else (fold (compare_kind cmp fnm target) [''r'', ''a'', ''v'', ''l'', ''q''] candidate, 0))"

definition swverid_verid_compare ::
  "(string \<Rightarrow> string \<Rightarrow> int) \<Rightarrow> (string \<Rightarrow> string \<Rightarrow> int \<Rightarrow> int) \<Rightarrow> swverid \<Rightarrow> swverid \<Rightarrow> swverid \<times> int" where
  "swverid_verid_compare cmp fnm target candidate = compare_all_version_ids cmp fnm target candidate"

text \<open>The paths that are the first tags, compared in place.\<close>

definition compare_first_tags :: "(string \<Rightarrow> string \<Rightarrow> int) \<Rightarrow> swverid \<Rightarrow> swverid \<Rightarrow> (swverid \<times> swverid \<times> int) option" where
  "compare_first_tags cmp s1 s2 = do {
     p1 \<leftarrow> cplob_val (taglistM s1) 0;
     p2 \<leftarrow> cplob_val (taglistM s2) 0;
     t1 \<leftarrow> p1;
     t2 \<leftarrow> p2;
     (b1, b2, ret) \<leftarrow> swlib_compare_8859 cmp (t1 @ [NUL]) (t2 @ [NUL]);
     xs1 \<leftarrow> cell_write (cp_list (taglistM s1)) 0 (Some (cstr b1));
     xs2 \<leftarrow> cell_write (cp_list (taglistM s2)) 0 (Some (cstr b2));
     Some (s1\<lparr>taglistM := (taglistM s1)\<lparr>cp_list := xs1\<rparr>\<rparr>, s2\<lparr>taglistM := (taglistM s2)\<lparr>cp_list := xs2\<rparr>\<rparr>,
       if ret = 0 then SWVERID_CMP_EQ else SWVERID_CMP_NEQ) }"

definition other_namespace :: "swverid \<Rightarrow> swverid \<Rightarrow> bool" where
  "other_namespace target candidate \<longleftrightarrow> namespaceM target \<noteq> SWVERID_NS_NA \<and> namespaceM target \<noteq> namespaceM candidate"

text \<open>The two comparisons. Comparing names that are null pointers is \<^term>\<open>None\<close>.\<close>

definition swverid_vtagOLD_compare :: "(string \<Rightarrow> string \<Rightarrow> int) \<Rightarrow> swverid \<Rightarrow> swverid \<Rightarrow> (swverid \<times> swverid \<times> int) option" where
  "swverid_vtagOLD_compare cmp target candidate = do {
     n1 \<leftarrow> object_nameM target;
     n2 \<leftarrow> object_nameM candidate;
     if n1 \<noteq> n2 then Some (target, candidate, SWVERID_CMP_NEQ)
     else if other_namespace target candidate then Some (target, candidate, SWVERID_CMP_NEQ)
     else do {
       tag1 \<leftarrow> cplob_val (taglistM target) 0;
       if tag1 = None \<or> tag1 = Some [] then Some (target, candidate, SWVERID_CMP_EQ)
       else if tag1 = Some ''*'' then Some (target, candidate, SWVERID_CMP_EQ)
       else if use_path_compareM target \<noteq> 0 \<or> use_path_compareM candidate \<noteq> 0 then compare_first_tags cmp target candidate
       else do {
         p2 \<leftarrow> cplob_val (taglistM candidate) 0;
         t2 \<leftarrow> p2;
         Some (target, candidate, if tag1 = Some t2 then SWVERID_CMP_EQ else SWVERID_CMP_NEQ) } } }"

definition swverid_compare ::
  "(string \<Rightarrow> string \<Rightarrow> int) \<Rightarrow> (string \<Rightarrow> string \<Rightarrow> int \<Rightarrow> int) \<Rightarrow> swverid \<Rightarrow> swverid \<Rightarrow> (swverid \<times> swverid \<times> int) option" where
  "swverid_compare cmp fnm target candidate = do {
     n1 \<leftarrow> object_nameM target;
     n2 \<leftarrow> object_nameM candidate;
     if n1 \<noteq> n2 then Some (target, candidate, SWVERID_CMP_NEQ)
     else if other_namespace target candidate then Some (target, candidate, SWVERID_CMP_NEQ)
     else do {
       tag1 \<leftarrow> cplob_val (taglistM target) 0;
       if tag1 = None \<or> tag1 = Some [] then Some (target, candidate, SWVERID_CMP_EQ)
       else if use_path_compareM target \<noteq> 0 \<and> use_path_compareM candidate \<noteq> 0 then compare_first_tags cmp target candidate
       else if use_path_compareM target = 0 \<and> use_path_compareM candidate = 0 then
         (let (candidate, ret) = compare_all_version_ids cmp fnm target candidate in Some (target, candidate, ret))
       else Some (target, candidate, - 1) } }"

section \<open>Version ids that can be created\<close>

definition ver_id_wf :: "ver_id \<Rightarrow> bool" where
  "ver_id_wf v \<longleftrightarrow>
     (\<exists>c \<in> set ''ravlqig''. idM v = [c]) \<and>
     (vqM v = [] \<or> (\<exists>c \<in> set ''bpf''. vqM v = [c])) \<and>
     ver_idM v = vqM v @ idM v \<and>
     (if idM v = ''r'' then rel_opM v \<in> {''<'', ''<='', ''=='', ''>='', ''>''} else rel_opM v = ''='') \<and>
     rel_op_codeM v = determine_rel_op_code (rel_opM v) \<and>
     (\<exists>val. valueM v = Some val \<and> (val \<noteq> [] \<longrightarrow> \<not> relop_char (hd val)) \<and> (idM v = ''l'' \<and> val \<noteq> [] \<longrightarrow> hd val = CHR ''/''))"

lemma strpbrk_one: "length s = 1 \<Longrightarrow> strpbrk s accept \<longleftrightarrow> (\<exists>c \<in> set accept. s = [c])"
  by (cases s) (auto simp: strpbrk_def)

lemma rel_op_known: "determine_rel_op_code s \<ge> 0 \<Longrightarrow> s \<in> set rel_op_array"
  by (auto simp: determine_rel_op_code_def rel_op_array_def split: if_splits)

lemma relop_code_EQ2: "s \<in> set rel_op_array \<Longrightarrow> determine_rel_op_code s = SWVERID_CMP_EQ2 \<longleftrightarrow> s = ''=''"
  by (auto simp: determine_rel_op_code_def rel_op_array_def cmp_codes)

lemma verid_value_ok:
  assumes "s \<noteq> [] \<Longrightarrow> \<not> relop_char (hd s)"
  shows "(verid_value letter s \<noteq> [] \<longrightarrow> \<not> relop_char (hd (verid_value letter s))) \<and>
    (letter = ''l'' \<and> verid_value letter s \<noteq> [] \<longrightarrow> hd (verid_value letter s) = CHR ''/'')"
proof (cases "letter = ''l'' \<and> s \<noteq> []")
  case True
  define t where "t = swlib_squash_trailing_slash s"
  have "next_char t = CHR ''/'' \<Longrightarrow> hd t = CHR ''/''" by (cases t) (simp_all add: next_char_def)
  then have "hd (verid_value letter s) = CHR ''/''" using True by (auto simp: verid_value_def t_def [symmetric] Let_def)
  then show ?thesis using True by (simp add: relop_char_def)
next
  case False
  then show ?thesis using assms by (auto simp: verid_value_def)
qed

text \<open>C23: a version id that is created has one of the seven letters, at most one of the three qualifiers, a relational operator
  that its letter allows with the code of that operator, and a value; the operator is never \<open>!=\<close>, which the scanner of
  operators cannot read.\<close>

theorem created_version_id_wf:
  assumes "create_version_id s = Some v"
  shows "ver_id_wf v"
proof -
  define letters where "letters = takeWhile isalpha s"
  define r where "r = dropWhile isalpha s"
  define rel_op where "rel_op = take 3 (takeWhile relop_char r)"
  define letter where "letter = (if length letters = 1 then letters else drop 1 letters)"
  define qualifier where "qualifier = (if length letters = 1 then [] else take 1 letters)"
  note defs = letters_def r_def rel_op_def letter_def qualifier_def
  have c: "letters \<noteq> []" "\<not> 2 < length letters" "length letters = 2 \<Longrightarrow> strpbrk qualifier SWVERID_QUALIFIER"
    "strpbrk letter (SWVERID_VERIDS_POSIX @ SWVERID_VERIDS_SWBIS)" "length rel_op \<le> 2" "0 \<le> determine_rel_op_code rel_op"
    "letter = ''r'' \<Longrightarrow> determine_rel_op_code rel_op \<noteq> SWVERID_CMP_EQ2" "letter \<noteq> ''r'' \<Longrightarrow> determine_rel_op_code rel_op = SWVERID_CMP_EQ2"
    and v: "v = \<lparr>ver_idM = letters, idM = letter, vqM = qualifier, rel_opM = rel_op, rel_op_codeM = determine_rel_op_code rel_op,
        valueM = Some (verid_value letter (drop (length rel_op) r))\<rparr>"
    using assms unfolding create_version_id_def Let_def defs [symmetric] by (auto split: if_splits)
  have n: "length letters = 1 \<or> length letters = 2" using c(1,2) length_0_conv [of letters] by linarith
  have len: "length letter = 1" using n by (auto simp: letter_def)
  have id: "\<exists>c \<in> set ''ravlqig''. letter = [c]"
    using c(4) len by (simp add: strpbrk_one SWVERID_VERIDS_POSIX_def SWVERID_VERIDS_SWBIS_def)
  have q: "qualifier = [] \<or> (\<exists>c \<in> set ''bpf''. qualifier = [c])"
    using n c(3) strpbrk_one [of qualifier SWVERID_QUALIFIER] by (auto simp: qualifier_def SWVERID_QUALIFIER_def)
  have l: "letters = qualifier @ letter" using n by (auto simp: qualifier_def letter_def)
  have "\<forall>c \<in> set rel_op. relop_char c" by (auto simp: rel_op_def dest!: in_set_takeD set_takeWhileD)
  moreover have "\<not> relop_char CHR ''!''" by (simp add: relop_char_def)
  ultimately have "rel_op \<noteq> ''!=''" by (metis list.set_intros(1))
  then have op: "if letter = ''r'' then rel_op \<in> {''<'', ''<='', ''=='', ''>='', ''>''} else rel_op = ''=''"
    using rel_op_known [OF c(6)] relop_code_EQ2 [OF rel_op_known [OF c(6)]] c(7,8) by (auto simp: rel_op_array_def)
  have "length (takeWhile relop_char r) \<le> 2" using c(5) by (simp add: rel_op_def)
  then have "rel_op = takeWhile relop_char r" by (simp add: rel_op_def)
  then have d: "drop (length rel_op) r = dropWhile relop_char r" by (simp add: dropWhile_eq_drop)
  have "dropWhile relop_char r \<noteq> [] \<Longrightarrow> \<not> relop_char (hd (dropWhile relop_char r))" by (rule hd_dropWhile)
  note vv = verid_value_ok [of "dropWhile relop_char r" letter, OF this]
  define val where "val = verid_value letter (dropWhile relop_char r)"
  show ?thesis
    using id q l op vv unfolding v d val_def [symmetric] ver_id_wf_def by (cases "letter = ''r''") simp_all
qed

text \<open>A version id whose location has no slash at its end.\<close>

definition location_ok :: "ver_id \<Rightarrow> bool" where
  "location_ok v \<longleftrightarrow> (idM v = ''l'' \<longrightarrow> swlib_squash_trailing_slash (the (valueM v)) = the (valueM v))"

lemma takeWhile_append_stop: "\<forall>x \<in> set a. P x \<Longrightarrow> (b \<noteq> [] \<Longrightarrow> \<not> P (hd b)) \<Longrightarrow> takeWhile P (a @ b) = a \<and> dropWhile P (a @ b) = b"
  by (induction a; cases b) auto

lemma version_id_back:
  assumes "ver_id_wf v" "location_ok v"
  shows "create_version_id (print_one v) = Some v"
proof -
  obtain val where val: "valueM v = Some val" "val \<noteq> [] \<Longrightarrow> \<not> relop_char (hd val)" "idM v = ''l'' \<Longrightarrow> val \<noteq> [] \<Longrightarrow> hd val = CHR ''/''"
    using assms(1) unfolding ver_id_wf_def by blast
  have w: "\<exists>c \<in> set ''ravlqig''. idM v = [c]" "vqM v = [] \<or> (\<exists>c \<in> set ''bpf''. vqM v = [c])" "ver_idM v = vqM v @ idM v"
    "if idM v = ''r'' then rel_opM v \<in> {''<'', ''<='', ''=='', ''>='', ''>''} else rel_opM v = ''=''"
    "rel_op_codeM v = determine_rel_op_code (rel_opM v)"
    using assms(1) unfolding ver_id_wf_def by blast+
  have op: "rel_opM v \<in> {''<'', ''<='', ''='', ''=='', ''>='', ''>''}" using w(4) by (auto split: if_splits)
  then have o: "\<forall>c \<in> set (rel_opM v). relop_char c" "rel_opM v \<noteq> []" "length (rel_opM v) \<le> 2" "\<not> isalpha (hd (rel_opM v))"
    "0 \<le> rel_op_codeM v"
    unfolding w(5) by (auto simp: relop_char_def isalpha_def determine_rel_op_code_def rel_op_array_def)
  have a: "\<forall>c \<in> set (vqM v @ idM v). isalpha c" using w(1,2) by (auto simp: isalpha_def)
  have 1: "takeWhile isalpha (print_one v) = vqM v @ idM v" "dropWhile isalpha (print_one v) = rel_opM v @ val"
    using takeWhile_append_stop [OF a, of "rel_opM v @ val"] o(2,4) val(1) by (simp_all add: print_one_def)
  have 2: "takeWhile relop_char (rel_opM v @ val) = rel_opM v"
    using takeWhile_append_stop [OF o(1), of val] val(2) by simp
  have 3: "verid_value (idM v) val = val"
    using val(1,3) assms(2) by (cases val) (auto simp: verid_value_def location_ok_def next_char_def)
  have eq: "idM v = ''r'' \<longleftrightarrow> rel_op_codeM v \<noteq> SWVERID_CMP_EQ2"
    using w(4) unfolding w(5) by (auto simp: determine_rel_op_code_def rel_op_array_def cmp_codes split: if_splits)
  have one: "length s = 1" if "\<exists>c \<in> set cs. s = [c]" for s cs :: string using that by auto
  have l: "length (idM v) = 1" "strpbrk (idM v) (SWVERID_VERIDS_POSIX @ SWVERID_VERIDS_SWBIS)"
    using w(1) one [OF w(1)] by (simp_all add: strpbrk_one SWVERID_VERIDS_POSIX_def SWVERID_VERIDS_SWBIS_def)
  have q: "vqM v = [] \<or> length (vqM v) = 1 \<and> strpbrk (vqM v) SWVERID_QUALIFIER"
    using w(2) one [of "''bpf''" "vqM v"] strpbrk_one [of "vqM v" SWVERID_QUALIFIER] unfolding SWVERID_QUALIFIER_def by blast
  have t: "take 3 (rel_opM v) = rel_opM v" using o(3) by simp
  have rec: "\<lparr>ver_idM = vqM v @ idM v, idM = idM v, vqM = vqM v, rel_opM = rel_opM v, rel_op_codeM = rel_op_codeM v, valueM = Some val\<rparr> = v"
    using w(3) val(1) by (cases v) simp
  have n: "length (vqM v @ idM v) = 1 \<or> length (vqM v @ idM v) = 2"
    "(if length (vqM v @ idM v) = 1 then vqM v @ idM v else drop 1 (vqM v @ idM v)) = idM v"
    "(if length (vqM v @ idM v) = 1 then [] else take 1 (vqM v @ idM v)) = vqM v"
    "length (vqM v @ idM v) = 2 \<Longrightarrow> strpbrk (vqM v) SWVERID_QUALIFIER"
    using l(1) q by auto
  have d: "drop (length (rel_opM v)) (rel_opM v @ val) = val" by simp
  have m: "\<not> (length (vqM v @ idM v) = 0 \<or> 2 < length (vqM v @ idM v))" "\<not> (length (vqM v @ idM v) = 2 \<and> \<not> strpbrk (vqM v) SWVERID_QUALIFIER)"
    "\<not> \<not> strpbrk (idM v) (SWVERID_VERIDS_POSIX @ SWVERID_VERIDS_SWBIS)" "\<not> 2 < length (rel_opM v)" "length (rel_opM v) \<noteq> 0"
    "\<not> rel_op_codeM v < 0" "\<not> (idM v = ''r'' \<and> rel_op_codeM v = SWVERID_CMP_EQ2)" "\<not> (idM v \<noteq> ''r'' \<and> rel_op_codeM v \<noteq> SWVERID_CMP_EQ2)"
    using n(1,4) l(2) o(2,3,5) eq by auto
  show ?thesis
    unfolding create_version_id_def Let_def 1 2 t n(2,3) d w(5) [symmetric] 3 rec
    by (simp only: m if_False)
qed

section \<open>Specifications that are printed and opened again\<close>

text \<open>Words without separators that are joined are the tokens of the result.\<close>

lemma tokens_word:
  assumes "w \<noteq> []" "\<forall>c \<in> set w. c \<notin> set delim" "r = [] \<or> hd r \<in> set delim"
  shows "tokens delim (w @ r) = w # tokens delim r"
proof -
  have d: "dropWhile (\<lambda>c. c \<in> set delim) (w @ r) = w @ r" using assms(1,2) by (cases w) auto
  have t: "takeWhile (\<lambda>c. c \<notin> set delim) (w @ r) = w \<and> dropWhile (\<lambda>c. c \<notin> set delim) (w @ r) = r"
    by (rule takeWhile_append_stop) (use assms(2,3) in auto)
  show ?thesis using tokens_nonempty [of delim "w @ r"] assms(1) unfolding d using t by simp
qed

lemma tokens_empty: "tokens delim [] = []"
  by (subst tokens.simps) simp

lemma tokens_join:
  assumes "c \<in> set delim" "\<forall>w \<in> set ws. w \<noteq> [] \<and> (\<forall>x \<in> set w. x \<notin> set delim)"
  shows "tokens delim (join c ws) = ws"
  using assms
proof (induction c ws rule: join.induct)
  case (1 c)
  show ?case by (simp add: tokens_empty)
next
  case (2 c s)
  then show ?case using tokens_word [of s delim "[]"] by (simp add: tokens_empty)
next
  case (3 c s t ts)
  have "tokens delim (c # join c (t # ts)) = t # ts"
    using 3 by (simp add: tokens_skip)
  then show ?case using 3(2,3) tokens_word [of s delim "c # join c (t # ts)"] by simp
qed

text \<open>Tags and version ids whose text has none of the characters that separate them.\<close>

definition separators :: string where
  "separators = [CHR '','', CHR ''|'', CHR 0x0A, CHR 0x0D]"

definition tag_ok :: "string \<Rightarrow> bool" where
  "tag_ok t \<longleftrightarrow> t \<noteq> [] \<and> (\<forall>c \<in> set t. c \<notin> set separators \<and> c \<noteq> CHR ''.'')"

definition spec_ok :: "swverid \<Rightarrow> bool" where
  "spec_ok s \<longleftrightarrow> nta_inv (taglistM s) \<and> nta_elems (taglistM s) \<noteq> [] \<and> list_all tag_ok (nta_elems (taglistM s)) \<and>
     \<not> strpbrk (hd (nta_elems (taglistM s))) ''!=<>'' \<and>
     list_all (\<lambda>v. ver_id_wf v \<and> location_ok v \<and> (\<forall>c \<in> set (the (valueM v)). c \<notin> set separators)) (ver_id_listM s)"

lemma list_tags_ok: "nta_inv lob \<Longrightarrow> list_tags lob = Some (nta_elems lob)"
proof -
  have "list_scan (\<lambda>tag acc. Inr (acc @ [tag])) xs acc = acc @ xs" for xs acc :: "string list"
    by (induction xs arbitrary: acc) simp_all
  then show "nta_inv lob \<Longrightarrow> list_tags lob = Some (nta_elems lob)" by (simp add: list_tags_def cplob_scan_all)
qed

lemma add_tags_ok:
  "nta_inv lob \<Longrightarrow> \<exists>lob'. add_tags lob tags = Some lob' \<and> nta_inv lob' \<and> nta_elems lob' = nta_elems lob @ tags"
proof (induction tags arbitrary: lob)
  case (Cons t tags)
  obtain lob1 where "cplob_add_nta lob (Some t) = Some lob1" "nta_inv lob1" "nta_elems lob1 = nta_elems lob @ [t]"
    using cplob_add_nta_ok [OF Cons.prems] by blast
  then show ?case using Cons.IH [of lob1] by auto
qed simp

text \<open>The text of an object.\<close>

definition spec_text :: "swverid \<Rightarrow> string" where
  "spec_text s = join CHR '','' (join CHR ''.'' (nta_elems (taglistM s)) # map print_one (ver_id_listM s))"

lemma print_one_word:
  assumes "ver_id_wf v" "\<forall>c \<in> set (the (valueM v)). c \<notin> set separators"
  shows "print_one v \<noteq> [] \<and> print_one v \<noteq> ''*'' \<and> (\<forall>c \<in> set (print_one v). c \<notin> set separators)"
proof -
  obtain val where val: "valueM v = Some val" using assms(1) unfolding ver_id_wf_def by blast
  have w: "\<exists>c \<in> set ''ravlqig''. idM v = [c]" "vqM v = [] \<or> (\<exists>c \<in> set ''bpf''. vqM v = [c])"
    "if idM v = ''r'' then rel_opM v \<in> {''<'', ''<='', ''=='', ''>='', ''>''} else rel_opM v = ''=''"
    using assms(1) unfolding ver_id_wf_def by blast+
  have op: "rel_opM v \<in> {''<'', ''<='', ''='', ''=='', ''>='', ''>''}" using w(3) by (auto split: if_splits)
  then have o: "set (rel_opM v) \<subseteq> set ''<=>''" "length (rel_opM v) \<ge> 1" by auto
  have i: "set (idM v) \<subseteq> set ''ravlqig''" "length (idM v) = 1" using w(1) by auto
  have q: "set (vqM v) \<subseteq> set ''bpf''" using w(2) by auto
  define S where "S = set ''<=>ravlqigbpf''"
  have "\<forall>c \<in> S. c \<notin> set separators" by (simp add: S_def separators_def)
  moreover have "set (rel_opM v) \<subseteq> S" "set (idM v) \<subseteq> S" "set (vqM v) \<subseteq> S"
    unfolding S_def by (rule subset_trans [OF o(1)], simp, rule subset_trans [OF i(1)], simp, rule subset_trans [OF q], simp)
  moreover have "set (print_one v) = set (vqM v) \<union> set (idM v) \<union> set (rel_opM v) \<union> set val" using val by (simp add: print_one_def Un_assoc)
  moreover have "\<forall>c \<in> set val. c \<notin> set separators" using assms(2) val by simp
  ultimately have "\<forall>c \<in> set (print_one v). c \<notin> set separators" by blast
  moreover have "length (print_one v) \<ge> 2" using o(2) i(2) by (simp add: print_one_def)
  then have "print_one v \<noteq> [] \<and> print_one v \<noteq> ''*''" by auto
  ultimately show ?thesis by blast
qed

lemma i_print_text:
  assumes "spec_ok s"
  shows "swverid_i_print s buf = Some (buf @ spec_text s)"
proof -
  have "swverid_print_ver_id (ver_id_listM s) \<noteq> [] \<longleftrightarrow> ver_id_listM s \<noteq> []"
    using assms print_one_word by (cases "ver_id_listM s"; cases "tl (ver_id_listM s)") (auto simp: swverid_print_ver_id_def spec_ok_def)
  then show ?thesis
    using assms list_tags_ok [of "taglistM s"]
    by (cases "ver_id_listM s") (auto simp: swverid_i_print_def spec_text_def swverid_print_ver_id_def spec_ok_def)
qed

lemma join_set: "\<forall>w \<in> set ws. \<forall>c \<in> set w. P c \<Longrightarrow> P d \<Longrightarrow> \<forall>c \<in> set (join d ws). P c"
  by (induction d ws rule: join.induct) auto

lemma join_not_empty: "ws \<noteq> [] \<Longrightarrow> hd ws \<noteq> [] \<Longrightarrow> join c ws \<noteq> []"
  by (cases ws; cases "tl ws") auto

lemma tags_text:
  assumes "spec_ok s"
  shows "join CHR ''.'' (nta_elems (taglistM s)) \<noteq> [] \<and> (\<forall>c \<in> set (join CHR ''.'' (nta_elems (taglistM s))). c \<notin> set separators)"
proof -
  have t: "nta_elems (taglistM s) \<noteq> []" "\<forall>t \<in> set (nta_elems (taglistM s)). tag_ok t" using assms by (auto simp: spec_ok_def list_all_iff)
  then have "hd (nta_elems (taglistM s)) \<noteq> []" using hd_in_set tag_ok_def by blast
  moreover have "\<forall>w \<in> set (nta_elems (taglistM s)). \<forall>c \<in> set w. c \<notin> set separators" using t(2) tag_ok_def by blast
  moreover have "CHR ''.'' \<notin> set separators" by (simp add: separators_def)
  ultimately show ?thesis using join_not_empty [OF t(1)] join_set by blast
qed

lemma spec_words:
  assumes "spec_ok s"
  shows "\<forall>w \<in> set (join CHR ''.'' (nta_elems (taglistM s)) # map print_one (ver_id_listM s)). w \<noteq> [] \<and> (\<forall>x \<in> set w. x \<notin> set separators)"
  using tags_text [OF assms] print_one_word assms unfolding spec_ok_def list_all_iff by auto

lemma split_text:
  assumes "spec_ok s"
  shows "split_swspec (spec_text s) = Inr (nta_elems (taglistM s), map print_one (ver_id_listM s))"
proof -
  let ?ts = "nta_elems (taglistM s)"
  have 1: "tokens '','' (spec_text s) = join CHR ''.'' ?ts # map print_one (ver_id_listM s)"
    unfolding spec_text_def by (rule tokens_join) (use spec_words [OF assms] in \<open>auto simp: separators_def\<close>)
  have 2: "tokens ''.'' (join CHR ''.'' ?ts) = ?ts"
    by (rule tokens_join) (use assms in \<open>auto simp: spec_ok_def list_all_iff tag_ok_def\<close>)
  obtain t ts where ts: "?ts = t # ts" using assms by (cases ?ts) (auto simp: spec_ok_def)
  then have "\<not> strpbrk t ''!=<>''" using assms by (simp add: spec_ok_def)
  then show ?thesis unfolding split_swspec_def 1 list.case 2 unfolding ts by simp
qed

lemma parse_printed_ids:
  assumes "list_all (\<lambda>v. ver_id_wf v \<and> location_ok v \<and> (\<forall>c \<in> set (the (valueM v)). c \<notin> set separators)) vs"
  shows "parse_verids_loop s (map print_one vs) = (s\<lparr>ver_id_listM := ver_id_listM s @ vs\<rparr>, 0)"
  using assms
proof (induction vs arbitrary: s)
  case Nil
  show ?case by simp
next
  case (Cons v vs)
  have v: "ver_id_wf v" "location_ok v" "\<forall>c \<in> set (the (valueM v)). c \<notin> set separators" using Cons.prems by simp_all
  note w = print_one_word [OF v(1,3)]
  have "tokens '','' (print_one v) = [print_one v]"
    using tokens_word [of "print_one v" "'',''" "[]"] w by (simp add: tokens_empty separators_def)
  then have "parse_version_ids_string s (print_one v) = (s\<lparr>ver_id_listM := ver_id_listM s @ [v]\<rparr>, 0)"
    using version_id_back [OF v(1,2)] by (simp add: parse_version_ids_string_def swverid_add_verid_def)
  then show ?case using Cons w by simp
qed

text \<open>What a specification says: its tags and its version ids.\<close>

definition spec_of :: "swverid \<Rightarrow> string list \<times> ver_id list" where
  "spec_of s = (nta_elems (taglistM s), ver_id_listM s)"

lemma new_taglist: "\<exists>l. Option.bind (cplob_open 3) (\<lambda>l. cplob_add_nta l None) = Some l \<and> nta_inv l \<and> nta_elems l = ([] :: string list)"
proof -
  have "Option.bind (cplob_open 3) (\<lambda>l. cplob_add_nta l None)
      = Some \<lparr>cp_list = replicate 9 (None :: string option), nlen = 9, nused = 1, refcountM = 0\<rparr>"
    by (simp add: cplob_open_def null_list.simps cell_write_def cplob_shallow_reset_def
        cplob_add_nta_def cplob_reopen_def CPLOB_NLENGTHINCR_def numeral_eq_Suc)
  then show ?thesis by (simp add: nta_inv_def nta_elems_def)
qed

lemma i_open_text:
  assumes "spec_ok s"
  shows "\<exists>p. swverid_i_open kw (Some (spec_text s)) = Some (Some p) \<and> spec_of p = spec_of s"
proof -
  obtain l :: "string cplob" where l: "Option.bind (cplob_open 3) (\<lambda>l. cplob_add_nta l None) = Some l" "nta_inv l" "nta_elems l = []" using new_taglist by blast
  obtain l1 where l1: "cplob_shallow_reset l = Some l1" "nta_inv l1" "nta_elems l1 = []" using cplob_shallow_reset_ok [OF l(2)] by blast
  obtain l2 where l2: "add_tags l1 (nta_elems (taglistM s)) = Some l2" "nta_elems l2 = nta_elems (taglistM s)"
    using add_tags_ok [OF l1(2)] l1(3) by auto
  have ids: "list_all (\<lambda>v. ver_id_wf v \<and> location_ok v \<and> (\<forall>c \<in> set (the (valueM v)). c \<notin> set separators)) (ver_id_listM s)"
    using assms by (simp add: spec_ok_def)
  have ne: "spec_text s \<noteq> []" using tags_text [OF assms] join_not_empty unfolding spec_text_def by simp
  obtain x where x: "cplob_open 3 = Some x" "cplob_add_nta x None = Some l" using l(1) by (auto simp: bind_eq_Some_conv)
  show ?thesis
    using x l1(1) l2 ne parse_printed_ids [OF ids]
    by (simp add: swverid_i_open_def parse_swspec_string_def split_text [OF assms] swverid_set_namespace_def swverid_set_object_name_def
      spec_of_def Let_def)
qed

lemma open_alternates_text:
  "list_all spec_ok ss \<Longrightarrow> \<exists>ps. open_alternates kw (map spec_text ss) = Some (Some ps) \<and> map spec_of ps = map spec_of ss"
proof (induction ss)
  case (Cons s ss)
  obtain p where "swverid_i_open kw (Some (spec_text s)) = Some (Some p)" "spec_of p = spec_of s" using i_open_text Cons.prems by fastforce
  then show ?case using Cons by auto
qed simp

lemma print_text:
  assumes "list_all spec_ok ss" "ss \<noteq> []"
  shows "swverid_print ss = Some (join CHR ''|'' (map spec_text ss))"
proof -
  have alt: "list_all spec_ok ts \<Longrightarrow> print_alternates ts buf = Some (if ts = [] then buf else buf @ CHR ''|'' # join CHR ''|'' (map spec_text ts))" for ts buf
  proof (induction ts arbitrary: buf)
    case (Cons t ts)
    have "print_alternates (t # ts) buf = print_alternates ts (buf @ CHR ''|'' # spec_text t)" using Cons.prems by (simp add: i_print_text)
    then show ?case using Cons.IH [of "buf @ CHR ''|'' # spec_text t"] Cons.prems by (cases ts) simp_all
  qed simp
  have j: "ws \<noteq> [] \<Longrightarrow> join c (w # ws) = w @ c # join c ws" for c w ws by (cases ws) simp_all
  obtain t ts where ts: "ss = t # ts" using assms(2) by (cases ss) auto
  have "swverid_print ss = print_alternates ts (spec_text t)" using assms(1) ts by (simp add: swverid_print_def i_print_text)
  also have "\<dots> = Some (join CHR ''|'' (map spec_text ss))"
    using assms(1) ts alt [of ts "spec_text t"] j [of "map spec_text ts" "CHR ''|''" "spec_text t"] by (cases "ts = []") simp_all
  finally show ?thesis .
qed

text \<open>C22: the text that is printed for a specification and its alternates opens as objects with the same tags and version ids.\<close>

theorem swspec_roundtrip:
  assumes "list_all spec_ok ss" "ss \<noteq> []"
  shows "\<exists>text ps n. swverid_print ss = Some text \<and> swverid_open kw (Some text) uuid = Some (Some ps, n) \<and> map spec_of ps = map spec_of ss"
proof -
  obtain ps where ps: "open_alternates kw (map spec_text ss) = Some (Some ps)" "map spec_of ps = map spec_of ss"
    using open_alternates_text [OF assms(1)] by blast
  have "\<forall>w \<in> set (map spec_text ss). w \<noteq> [] \<and> (\<forall>x \<in> set w. x \<notin> set [CHR ''|'', CHR 0x0A, CHR 0x0D])"
  proof
    fix w assume "w \<in> set (map spec_text ss)"
    then obtain s where s: "spec_ok s" "w = spec_text s" using assms(1) by (auto simp: list_all_iff)
    have "w \<noteq> []" using tags_text [OF s(1)] join_not_empty unfolding s(2) spec_text_def by simp
    moreover have "\<forall>x \<in> set w. x \<notin> set [CHR ''|'', CHR 0x0A, CHR 0x0D]"
      unfolding s(2) spec_text_def by (rule join_set) (use spec_words [OF s(1)] in \<open>auto simp: separators_def\<close>)
    ultimately show "w \<noteq> [] \<and> (\<forall>x \<in> set w. x \<notin> set [CHR ''|'', CHR 0x0A, CHR 0x0D])" by blast
  qed
  then have t: "tokens [CHR ''|'', CHR 0x0A, CHR 0x0D] (join CHR ''|'' (map spec_text ss)) = map spec_text ss" by (intro tokens_join) simp_all
  have ne: "ps \<noteq> []" using ps(2) assms(2) by auto
  have "map spec_of (map (\<lambda>x. x\<lparr>alter_uuidM := u\<rparr>) ps) = map spec_of ss" for u
  proof -
    have "spec_of (x\<lparr>alter_uuidM := u\<rparr>) = spec_of x" for x :: swverid by (simp add: spec_of_def)
    then show ?thesis using ps(2) by (simp add: comp_def)
  qed
  then show ?thesis using print_text [OF assms] ps(1) t ne by (cases ps) (auto simp: swverid_open_def Let_def)
qed

section \<open>Copies and replacements\<close>

lemma ver_ids_copy_ok:
  assumes "list_all (\<lambda>v. ver_id_wf v \<and> location_ok v) vs"
  shows "foldl (\<lambda>d v. swverid_add_verid d (copy_construct_version_id (Some v))) s vs = s\<lparr>ver_id_listM := ver_id_listM s @ vs\<rparr>"
  using assms by (induction vs arbitrary: s) (simp_all add: copy_construct_version_id_def version_id_back swverid_add_verid_def)

text \<open>a copy of an object has its tags and its version ids.\<close>

theorem swverid_copy_same:
  assumes "nta_inv (taglistM src)" "list_all (\<lambda>v. ver_id_wf v \<and> location_ok v) (ver_id_listM src)"
  shows "\<exists>dst n. swverid_copy src uuid = Some (dst, n) \<and> spec_of dst = spec_of src"
proof -
  obtain l :: "string cplob" where l: "Option.bind (cplob_open 3) (\<lambda>l. cplob_add_nta l None) = Some l" using new_taglist by blast
  obtain x where x: "cplob_open 3 = Some x" "cplob_add_nta x None = Some l" using l by (auto simp: bind_eq_Some_conv)
  have o1: "Option.bind (cplob_open 1) (\<lambda>l. cplob_add_nta l None)
      = Some \<lparr>cp_list = replicate 9 (None :: string option), nlen = 9, nused = 1, refcountM = 0\<rparr>"
    by (simp add: cplob_open_def null_list.simps cell_write_def cplob_shallow_reset_def
        cplob_add_nta_def cplob_reopen_def CPLOB_NLENGTHINCR_def numeral_eq_Suc)
  let ?e = "\<lparr>cp_list = replicate 9 (None :: string option), nlen = 9, nused = 1, refcountM = 0\<rparr>"
  obtain y where y: "cplob_open 1 = Some y" "cplob_add_nta y None = Some ?e" using o1 by (auto simp: bind_eq_Some_conv)
  have e: "nta_inv ?e" "nta_elems ?e = []" by (simp_all add: nta_inv_def nta_elems_def)
  obtain l2 where l2: "add_tags ?e (nta_elems (taglistM src)) = Some l2" "nta_elems l2 = nta_elems (taglistM src)"
    using add_tags_ok [OF e(1)] e(2) by auto
  show ?thesis
    using x y l2 list_tags_ok [OF assms(1)] ver_ids_copy_ok [OF assms(2)]
    by (simp add: swverid_copy_def swverid_open_def swverid_i_open_def ver_ids_copy_def spec_of_def Let_def swverid_set_namespace_def
      swverid_set_object_name_def)
qed

text \<open>once the qualifier of another kind of object than a bundle, product or fileset is set, a copy has no version ids.\<close>

theorem copy_loses_version_ids:
  assumes "c \<notin> set SWVERID_QUALIFIER" "isalpha c" "list_all ver_id_wf (ver_id_listM src)" "ver_id_listM src \<noteq> []"
  shows "ver_id_listM (ver_ids_copy dst (swverid_ver_id_set_object_qualifier src (c # kw))) = []"
proof -
  have none: "copy_construct_version_id (Some (v\<lparr>vqM := [c]\<rparr>)) = None" if w: "ver_id_wf v" for v
  proof -
    obtain d where d: "idM v = [d]" "d \<in> set ''ravlqig''" using w unfolding ver_id_wf_def by blast
    have "if idM v = ''r'' then rel_opM v \<in> {''<'', ''<='', ''=='', ''>='', ''>''} else rel_opM v = ''=''"
      using w unfolding ver_id_wf_def by blast
    then have op: "rel_opM v \<noteq> []" "\<not> isalpha (hd (rel_opM v))" by (auto simp: isalpha_def split: if_splits)
    have "isalpha d" using d(2) by (auto simp: isalpha_def)
    then have a: "\<forall>x \<in> set [c, d]. isalpha x" using assms(2) by simp
    have "takeWhile isalpha ([c, d] @ rel_opM v @ t) = [c, d]" for t
      using takeWhile_append_stop [OF a, of "rel_opM v @ t"] op by simp
    then have "takeWhile isalpha (print_one (v\<lparr>vqM := [c]\<rparr>)) = [c, d]" using d(1) by (simp add: print_one_def)
    moreover have "\<not> strpbrk [c] SWVERID_QUALIFIER" using assms(1) by (simp add: strpbrk_def)
    ultimately show ?thesis by (simp add: copy_construct_version_id_def create_version_id_def Let_def)
  qed
  have "foldl (\<lambda>d v. swverid_add_verid d (copy_construct_version_id (Some v))) s (map (\<lambda>v. v\<lparr>vqM := [c]\<rparr>) vs) = s"
    if "list_all ver_id_wf vs" for s vs
    using that by (induction vs arbitrary: s) (simp_all add: none swverid_add_verid_def)
  then show ?thesis using assms(3) by (simp add: ver_ids_copy_def swverid_ver_id_set_object_qualifier_def)
qed

text \<open>replacing the version id at the head of the list leaves the list as it was; the replacement is lost.\<close>

theorem replaced_head_stays:
  assumes "ver_id_wf v" "location_ok v" "ver_id_listM s = w # vs" "get_ver_id_char_from_this w = get_ver_id_char_from_this v"
  shows "swverid_replace_verid s v = Some s"
  using assms version_id_back [OF assms(1,2)]
  by (cases s) (simp add: swverid_replace_verid_def i_replace_verid_def copy_construct_version_id_def)

lemma replace_behind:
  assumes "ver_id_wf v" "location_ok v" "get_ver_id_char_from_this w = get_ver_id_char_from_this v"
    "\<forall>x \<in> set us. get_ver_id_char_from_this x \<noteq> get_ver_id_char_from_this v"
  shows "replace_loop v True True (us @ w # vs) = Some (us @ v # vs, True)"
  using assms(4) assms(1-3) version_id_back [OF assms(1,2)] by (induction us) (simp_all add: copy_construct_version_id_def)

text \<open>Everywhere else it is replaced.\<close>

lemma replaced_elsewhere:
  assumes "ver_id_wf v" "location_ok v" "ver_id_listM s = u # us @ w # vs" "get_ver_id_char_from_this w = get_ver_id_char_from_this v"
    "\<forall>x \<in> set (u # us). get_ver_id_char_from_this x \<noteq> get_ver_id_char_from_this v"
  shows "swverid_replace_verid s v = Some (s\<lparr>ver_id_listM := u # us @ v # vs\<rparr>)"
  using assms replace_behind [OF assms(1,2,4), of us vs]
  by (simp add: swverid_replace_verid_def i_replace_verid_def)

text \<open>C32: two objects of the same kind that have tags and are no files are neither found equal nor different: the comparison
  reports an error.\<close>

theorem compare_undecided:
  assumes "object_nameM t = Some n" "object_nameM c = Some n" "namespaceM t = namespaceM c"
    "nta_inv (taglistM t)" "nta_elems (taglistM t) \<noteq> []" "hd (nta_elems (taglistM t)) \<noteq> []" "use_path_compareM t = 0" "use_path_compareM c = 0"
  shows "swverid_compare cmp fnm t c = Some (t, c, - 1)"
proof -
  have "cplob_val (taglistM t) 0 = Some (Some (hd (nta_elems (taglistM t))))"
    using cplob_val_elem [OF assms(4), of 0] assms(5) by (simp add: hd_conv_nth)
  then show ?thesis
    using assms by (simp add: swverid_compare_def other_namespace_def compare_all_version_ids_def is_fully_qualified_def)
qed

text \<open>a tag that is set is lost when another one is added.\<close>

theorem set_tag_lost:
  assumes "key \<noteq> ''catalog''"
  shows "\<exists>s s1 s2. swverid_i_open kw None = Some (Some s) \<and> swverid_set_tag s key (Some a) = Some s1 \<and>
    swverid_add_tag s1 b = Some s2 \<and> nta_elems (taglistM s2) = [b]"
proof -
  let ?e = "\<lparr>cp_list = replicate 9 (None :: string option), nlen = 9, nused = 1, refcountM = 0\<rparr>"
  have "Option.bind (cplob_open 3) (\<lambda>l. cplob_add_nta l None) = Some ?e"
    by (simp add: cplob_open_def null_list.simps cell_write_def cplob_shallow_reset_def
        cplob_add_nta_def cplob_reopen_def CPLOB_NLENGTHINCR_def numeral_eq_Suc)
  then obtain x where x: "cplob_open 3 = Some x" "cplob_add_nta x None = Some ?e" by (auto simp: bind_eq_Some_conv)
  have v: "cplob_val ?e 0 = Some None" by (simp add: cplob_val_def cell_read_def)
  have a: "cplob_additem ?e 0 (Some a) = Some (?e\<lparr>cp_list := Some a # replicate 8 None\<rparr>)"
    by (simp add: cplob_additem_def cell_write_def numeral_eq_Suc)
  have b: "cplob_add_nta (?e\<lparr>cp_list := Some a # replicate 8 None\<rparr>) (Some b)
      = Some (?e\<lparr>cp_list := Some b # replicate 8 None, nused := 2\<rparr>)"
    by (simp add: cplob_add_nta_def cplob_reopen_def cplob_additem_def cell_write_def CPLOB_NLENGTHINCR_def numeral_eq_Suc)
  show ?thesis
    using x v a b assms
    by (simp add: swverid_i_open_def swverid_set_tag_def swverid_add_tag_def swverid_set_namespace_def swverid_set_object_name_def
      Let_def nta_elems_def)
qed

section \<open>Concrete specifications\<close>

definition rev_1 :: ver_id where
  "rev_1 = \<lparr>ver_idM = ''r'', idM = ''r'', vqM = [], rel_opM = ''>='', rel_op_codeM = 5, valueM = Some ''1.0''\<rparr>"

definition loc_opt :: ver_id where
  "loc_opt = \<lparr>ver_idM = ''pl'', idM = ''l'', vqM = ''p'', rel_opM = ''='', rel_op_codeM = 3, valueM = Some ''/opt''\<rparr>"

definition bash_spec :: swverid where
  "bash_spec = \<lparr>object_nameM = Some ''product'', source_copyM = None, catalogM = Some [], use_path_compareM = 0,
     taglistM = \<lparr>cp_list = [Some ''bash'', Some ''doc'', None], nlen = 3, nused = 3, refcountM = 0\<rparr>, namespaceM = 1,
     comparison_codeM = 4, ver_id_listM = [rev_1, loc_opt], swutsM = swuts_create, alter_uuidM = 0\<rparr>"

lemma sample_ids: "create_version_id ''r>=1.0'' = Some rev_1" "create_version_id ''pl=/opt/'' = Some loc_opt"
  "location_ok rev_1" "location_ok loc_opt" "print_one rev_1 = ''r>=1.0''"
  by code_simp+

lemma sample_wf: "ver_id_wf rev_1 \<and> ver_id_wf loc_opt"
  by (simp add: ver_id_wf_def rev_1_def loc_opt_def determine_rel_op_code_def rel_op_array_def relop_char_def)

lemma bash_elems: "nta_inv (taglistM bash_spec)" "nta_elems (taglistM bash_spec) = [''bash'', ''doc'']"
  by (simp_all add: bash_spec_def nta_inv_def nta_elems_def)

theorem created_version_id_wf_witness: "ver_id_wf rev_1 \<and> create_version_id ''r>=1.0'' = Some rev_1"
  using created_version_id_wf [OF sample_ids(1)] sample_ids(1) by blast

theorem swspec_roundtrip_witness:
  "\<exists>text ps n. swverid_print [bash_spec, bash_spec] = Some text \<and> swverid_open (Some ''product'') (Some text) 0 = Some (Some ps, n) \<and>
    map spec_of ps = [spec_of bash_spec, spec_of bash_spec]"
proof -
  have "\<forall>c \<in> set (the (valueM rev_1)). c \<notin> set separators" "\<forall>c \<in> set (the (valueM loc_opt)). c \<notin> set separators"
    by (simp_all add: rev_1_def loc_opt_def separators_def)
  then have "spec_ok bash_spec"
    using sample_wf sample_ids(3,4) bash_elems
    by (simp add: spec_ok_def tag_ok_def separators_def strpbrk_def bash_spec_def)
  then show ?thesis using swspec_roundtrip [of "[bash_spec, bash_spec]" "Some ''product''" 0] by simp
qed

theorem swverid_copy_same_witness: "\<exists>dst n. swverid_copy bash_spec 1 = Some (dst, n) \<and> spec_of dst = spec_of bash_spec"
  by (rule swverid_copy_same) (use sample_wf sample_ids bash_elems in \<open>simp_all add: bash_spec_def\<close>)

theorem copy_loses_version_ids_witness: "ver_id_listM (ver_ids_copy bash_spec (swverid_ver_id_set_object_qualifier bash_spec ''distribution'')) = []"
  by (rule copy_loses_version_ids) (use sample_wf in \<open>simp_all add: bash_spec_def SWVERID_QUALIFIER_def isalpha_def\<close>)

theorem replaced_head_stays_witness: "swverid_replace_verid bash_spec (rev_1\<lparr>valueM := Some ''2.0''\<rparr>) = Some bash_spec"
proof (rule replaced_head_stays)
  show "ver_id_wf (rev_1\<lparr>valueM := Some ''2.0''\<rparr>)" using sample_wf by (simp add: ver_id_wf_def rev_1_def relop_char_def)
  show "location_ok (rev_1\<lparr>valueM := Some ''2.0''\<rparr>)" by (simp add: location_ok_def rev_1_def)
  show "ver_id_listM bash_spec = rev_1 # [loc_opt]" by (simp add: bash_spec_def)
  show "get_ver_id_char_from_this rev_1 = get_ver_id_char_from_this (rev_1\<lparr>valueM := Some ''2.0''\<rparr>)"
    by (simp add: get_ver_id_char_from_this_def)
qed

theorem compare_undecided_witness: "swverid_compare compare_strings (\<lambda>p s f. 0) bash_spec bash_spec = Some (bash_spec, bash_spec, - 1)"
  by (rule compare_undecided) (use bash_elems in \<open>simp_all add: bash_spec_def\<close>)

theorem set_tag_lost_witness:
  "\<exists>s s1 s2. swverid_i_open (Some ''product'') None = Some (Some s) \<and> swverid_set_tag s ''tag'' (Some ''bash'') = Some s1 \<and>
    swverid_add_tag s1 ''doc'' = Some s2 \<and> nta_elems (taglistM s2) = [''doc'']"
  by (rule set_tag_lost) simp

end
