(* ===== verification/Uxfio.thy ===== *)
theory Uxfio
  imports Statbuf Tape
begin

text \<open>
  The objects behind the virtual descriptors (\<open>swsupplib/uxfio/uxfio.c\<close>): a buffer in memory, in growing
  memory or in a temporary file in front of another descriptor, a virtual end of the file, and seeking inside of
  the buffer.

  The code calls the functions of the descriptor below through pointers in the object; here they are the
  record \<open>vir\<close>, a parameter of the operations, with a state of any type for what is below: the kernel, or
  another object. \<^term>\<open>None\<close> is an access outside of a block, the end of the program, and a loop that does not
  end. Positions are unbounded. The temporary file is a regular file on a disk that is not full.
\<close>

section \<open>Constants and objects\<close>

definition UXFIO_LEN :: int where "UXFIO_LEN = 1024"
definition UXFIO_FLEN :: int where "UXFIO_FLEN = 2000000000"
definition UXFIO_FD_MIN :: int where "UXFIO_FD_MIN = 2000000000"
definition UXFIO_ALLOC_AHEAD :: int where "UXFIO_ALLOC_AHEAD = 20480"
definition UXFIO_NULL_FD :: int where "UXFIO_NULL_FD = - 10001"
definition UXFIO_RET_EFAIL :: int where "UXFIO_RET_EFAIL = - 9999"

definition UXFIO_BUFTYPE_NOBUF :: int where "UXFIO_BUFTYPE_NOBUF = 0"
definition UXFIO_BUFTYPE_MEM :: int where "UXFIO_BUFTYPE_MEM = 1"
definition UXFIO_BUFTYPE_FILE :: int where "UXFIO_BUFTYPE_FILE = 2"
definition UXFIO_BUFTYPE_DYNAMIC_MEM :: int where "UXFIO_BUFTYPE_DYNAMIC_MEM = 3"

definition SEEK_SET :: int where "SEEK_SET = 0"
definition SEEK_CUR :: int where "SEEK_CUR = 1"
definition SEEK_END :: int where "SEEK_END = 2"
definition UXFIO_SEEK_VCUR :: int where "UXFIO_SEEK_VCUR = 3081"
definition UXFIO_SEEK_VSET :: int where "UXFIO_SEEK_VSET = 4082"

lemmas buftypes = UXFIO_BUFTYPE_NOBUF_def UXFIO_BUFTYPE_MEM_def UXFIO_BUFTYPE_FILE_def UXFIO_BUFTYPE_DYNAMIC_MEM_def
lemmas whences = SEEK_SET_def SEEK_CUR_def SEEK_END_def UXFIO_SEEK_VCUR_def UXFIO_SEEK_VSET_def

text \<open>The temporary file and its position.\<close>

record tmpfile =
  tf_data :: "char list"
  tf_pos :: int

text \<open>The object. The functions of the descriptor below are those of this file (\<open>uxfio__get_state\<close>) or those of
  the system.\<close>

record uxfio =
  uxfdM :: int
  buffertypeM :: int
  uxfd_can_seekM :: int
  posM :: int
  startM :: int
  endM :: int
  lenM :: int
  bytesreadM :: int
  current_offsetM :: int
  virtual_offsetM :: int
  buffer_activeM :: int
  bufM :: block
  buffdM :: "tmpfile option"
  offset_eof_savedM :: int
  offset_eofM :: int
  offset_bofM :: int
  auto_disableM :: int
  write_insertM :: int
  v_endM :: int
  use_countM :: int
  tmpfile_rootdirM :: "string option"
  buffilenameM :: string
  statbufM :: "statbuf option"
  did_dupe_fdM :: int
  uxfio_stateM :: int
  uxfio_fildesM :: int
  lock_buf_fatalM :: int
  output_block_sizeM :: int
  output_buffer_cM :: int
  output_bufferM :: "block option"

text \<open>Reading gives \<^term>\<open>None\<close> for a negative result; the other results are what the functions return.\<close>

record 'w vir =
  vir_readM :: "'w \<Rightarrow> int \<Rightarrow> char list option \<times> 'w"
  vir_tread_readM :: "'w \<Rightarrow> int \<Rightarrow> char list option \<times> 'w"
  vir_writeM :: "'w \<Rightarrow> char list \<Rightarrow> int \<times> 'w"
  vir_lseekM :: "'w \<Rightarrow> int \<Rightarrow> int \<Rightarrow> int \<times> 'w"
  vir_fsyncM :: "'w \<Rightarrow> int \<times> 'w"
  vir_fcntlM :: "'w \<Rightarrow> int \<Rightarrow> int \<Rightarrow> int \<times> 'w"

text \<open>A new object (\<open>internal_uxfio_open\<close>). Its functions are those of the system.\<close>

definition new_uxfio :: "int \<Rightarrow> uxfio" where
  "new_uxfio fd = \<lparr>uxfdM = 0, buffertypeM = UXFIO_BUFTYPE_MEM, uxfd_can_seekM = 0, posM = 0, startM = 0, endM = 0, lenM = UXFIO_LEN,
     bytesreadM = 0, current_offsetM = 0, virtual_offsetM = 0, buffer_activeM = 1, bufM = replicate (nat (UXFIO_LEN + 1)) uninit,
     buffdM = None, offset_eof_savedM = - 1, offset_eofM = - 1, offset_bofM = 0, auto_disableM = 0, write_insertM = 0, v_endM = - 1,
     use_countM = 1, tmpfile_rootdirM = None, buffilenameM = [], statbufM = None, did_dupe_fdM = - 1, uxfio_stateM = 0,
     uxfio_fildesM = fd, lock_buf_fatalM = 0, output_block_sizeM = 0, output_buffer_cM = 0, output_bufferM = None\<rparr>"

definition uxfio__change_state :: "uxfio \<Rightarrow> bool \<Rightarrow> uxfio" where
  "uxfio__change_state s u = s\<lparr>uxfio_stateM := (if u then 1 else 0)\<rparr>"

definition uxfio__get_state :: "uxfio \<Rightarrow> int" where
  "uxfio__get_state s = uxfio_stateM s"

definition virtual_eof_active :: "uxfio \<Rightarrow> bool" where
  "virtual_eof_active s \<longleftrightarrow> offset_eofM s \<ge> 0 \<or> v_endM s \<ge> 0"

definition virtual_file_active :: "uxfio \<Rightarrow> bool" where
  "virtual_file_active s \<longleftrightarrow> offset_eofM s \<ge> 0 \<or> offset_eof_savedM s \<ge> 0"

definition active_virtual_file_offset :: "uxfio \<Rightarrow> int" where
  "active_virtual_file_offset s = (if virtual_file_active s then offset_bofM s else 0)"

text \<open>The bytes before the position, those behind it, and the free space (\<open>bufferstate\<close>).\<close>

definition left_of :: "uxfio \<Rightarrow> int" where "left_of s = posM s"
definition right_of :: "uxfio \<Rightarrow> int" where "right_of s = endM s - posM s"
definition unused_of :: "uxfio \<Rightarrow> int" where "unused_of s = lenM s - endM s"

lemmas bufferstate = left_of_def right_of_def unused_of_def

text \<open>\<open>memcpy\<close> out of a block.\<close>

definition mem_read :: "block \<Rightarrow> int \<Rightarrow> int \<Rightarrow> char list option" where
  "mem_read b off n = (if 0 \<le> off \<and> 0 \<le> n \<and> off + n \<le> int (length b) then Some (take (nat n) (drop (nat off) b)) else None)"

section \<open>The temporary file\<close>

definition tf_read :: "tmpfile \<Rightarrow> int \<Rightarrow> char list \<times> tmpfile" where
  "tf_read t n = (let bs = take (nat n) (drop (nat (tf_pos t)) (tf_data t)) in (bs, t\<lparr>tf_pos := tf_pos t + int (length bs)\<rparr>))"

definition tf_write :: "tmpfile \<Rightarrow> char list \<Rightarrow> tmpfile" where
  "tf_write t bs = (let p = nat (tf_pos t); d = tf_data t @ replicate (p - length (tf_data t)) NUL
     in t\<lparr>tf_data := take p d @ bs @ drop (p + length bs) d, tf_pos := tf_pos t + int (length bs)\<rparr>)"

definition tf_lseek :: "tmpfile \<Rightarrow> int \<Rightarrow> int \<Rightarrow> int \<times> tmpfile" where
  "tf_lseek t offset whence =
     (let p = (if whence = SEEK_SET then offset else if whence = SEEK_CUR then tf_pos t + offset else int (length (tf_data t)) + offset)
      in if whence \<notin> {SEEK_SET, SEEK_CUR, SEEK_END} \<or> p < 0 then (- 1, t) else (p, t\<lparr>tf_pos := p\<rparr>))"

text \<open>\<open>uxfio__init_buffer_file\<close>, with the bytes the file starts with. The letters that replace the X in the name are
  not modelled; \<open>mkstemp\<close> opens the file.\<close>

definition UXFIO_TMPFILE_ROOTDIR :: string where "UXFIO_TMPFILE_ROOTDIR = ''/usr/tmp/''"
definition UXFIO_TMPFILE_PFX :: string where "UXFIO_TMPFILE_PFX = ''uxfio''"

definition uxfio__init_buffer_file :: "uxfio \<Rightarrow> char list \<Rightarrow> uxfio \<times> int" where
  "uxfio__init_buffer_file s bytes =
     (if buffdM s \<noteq> None \<and> buffilenameM s \<noteq> [] then (s, 0)
      else if buffdM s = None \<and> buffilenameM s \<noteq> [] \<or> buffdM s \<noteq> None \<and> buffilenameM s = [] then (s, - 1)
      else (let rootdir = (case tmpfile_rootdirM s of Some d \<Rightarrow> d | None \<Rightarrow> UXFIO_TMPFILE_ROOTDIR);
                dirtmp = rootdir @ UXFIO_TMPFILE_PFX @ ''XXXXXX''
            in if length dirtmp - 1 > 128 then (s\<lparr>buffdM := None\<rparr>, - 1)
               else (let s = s\<lparr>buffilenameM := take 127 dirtmp, buffdM := Some \<lparr>tf_data = bytes, tf_pos = 0\<rparr>, lenM := UXFIO_FLEN,
                           startM := 0, endM := int (length bytes), posM := 0\<rparr>
                     in (if bytes \<noteq> [] then s\<lparr>virtual_offsetM := 0\<rparr> else s, 0))))"

definition uxfio__delete_buffer_file :: "uxfio \<Rightarrow> uxfio \<times> int" where
  "uxfio__delete_buffer_file s =
     (if buffertypeM s = UXFIO_BUFTYPE_FILE then
        (if buffdM s = None \<or> buffilenameM s = [] then (s, - 1) else (s\<lparr>buffdM := None, buffilenameM := []\<rparr>, 0))
      else (s, 0))"

section \<open>The end of a virtual file\<close>

text \<open>\<open>enforce_veof\<close>: the bytes that may be read, and whether the end limits them.\<close>

definition enforce_veof :: "uxfio \<Rightarrow> int \<Rightarrow> int \<times> bool \<times> uxfio" where
  "enforce_veof s nbyte =
     (if \<not> virtual_eof_active s then (nbyte, False, s\<lparr>offset_eof_savedM := - 1\<rparr>)
      else (let remaining = (if offset_eofM s \<ge> 0 then offset_eofM s - virtual_offsetM s else v_endM s - current_offsetM s)
            in if remaining \<le> nbyte then (remaining, True, s) else (nbyte, False, s)))"

text \<open>\<open>enforce_set_position\<close>; \<^term>\<open>None\<close> is the error.\<close>

definition enforce_set_position :: "uxfio \<Rightarrow> int \<Rightarrow> int option" where
  "enforce_set_position s offset =
     (if offset \<ge> 0 then Some offset
      else if virtual_eof_active s then
        (let passed = (if bytesreadM s = 0 then if offset_eofM s \<ge> 0 then offset_eofM s else v_endM s else bytesreadM s)
         in if - offset > passed then None else Some offset)
      else Some offset)"

section \<open>The buffer after a transfer\<close>

text \<open>\<open>fix_dynamic_buffer\<close>. A locked buffer is one that \<open>realloc\<close> does not move.\<close>

definition fix_dynamic_buffer :: "uxfio \<Rightarrow> int \<Rightarrow> char list \<Rightarrow> int \<Rightarrow> uxfio option" where
  "fix_dynamic_buffer s totalbytes p totalnewbytes =
     (if totalnewbytes > 0 then do {
        data \<leftarrow> mem_read p 0 totalbytes;
        newbuf \<leftarrow> mem_write (c_realloc (bufM s) (nat (lenM s + totalnewbytes + UXFIO_ALLOC_AHEAD + 1))) (posM s) data;
        let s = s\<lparr>lenM := lenM s + totalnewbytes + UXFIO_ALLOC_AHEAD, posM := posM s + totalbytes\<rparr>;
        let s = (if posM s > endM s then s\<lparr>endM := posM s\<rparr> else s);
        newbuf \<leftarrow> mem_set newbuf (endM s) NUL (lenM s + 1 - endM s);
        Some (s\<lparr>startM := 0, bufM := newbuf\<rparr>) }
      else None)"

text \<open>\<open>fix_buffer\<close>: the last \<open>totalnewbytes\<close> of the \<open>totalbytes\<close> of a transfer did not come from the buffer.\<close>

definition fix_file_buffer :: "uxfio \<Rightarrow> int \<Rightarrow> char list \<Rightarrow> int \<Rightarrow> (uxfio \<times> int) option" where
  "fix_file_buffer s totalbytes p totalnewbytes =
     (if posM s + totalnewbytes > lenM s then Some (s, - 1)
      else if totalnewbytes \<noteq> 0 then do {
        t \<leftarrow> buffdM s;
        let (n, t) = tf_lseek t 0 SEEK_END;
        if n \<noteq> endM s then Some (s\<lparr>buffdM := Some t\<rparr>, - 1)
        else do {
          data \<leftarrow> mem_read p (totalbytes - totalnewbytes) totalnewbytes;
          Some (s\<lparr>buffdM := Some (tf_write t data), posM := posM s + totalbytes, virtual_offsetM := virtual_offsetM s + totalbytes,
                  endM := posM s + totalbytes, startM := 0\<rparr>, 0) } }
      else Some (s\<lparr>posM := posM s + totalbytes, virtual_offsetM := virtual_offsetM s + totalbytes, startM := 0\<rparr>, 0))"

definition fix_mem_buffer :: "uxfio \<Rightarrow> int \<Rightarrow> char list \<Rightarrow> int \<Rightarrow> (uxfio \<times> int) option" where
  "fix_mem_buffer s totalbytes p totalnewbytes =
     (let right = right_of s; unused = unused_of s
      in if totalnewbytes = 0 then Some (s\<lparr>posM := posM s + totalbytes\<rparr>, 0)
         else if totalbytes \<ge> lenM s then
           (if buffertypeM s = UXFIO_BUFTYPE_DYNAMIC_MEM
            then map_option (\<lambda>s. (s, 0)) (fix_dynamic_buffer s totalbytes p totalnewbytes)
            else do {
              data \<leftarrow> mem_read p (totalbytes - lenM s) (lenM s);
              b \<leftarrow> mem_write (bufM s) 0 data;
              Some (s\<lparr>bufM := b, posM := lenM s, virtual_offsetM := lenM s, endM := lenM s, startM := 0\<rparr>, 0) })
         else if totalbytes > right + unused then
           (if buffertypeM s = UXFIO_BUFTYPE_DYNAMIC_MEM
            then map_option (\<lambda>s. (s, 0)) (fix_dynamic_buffer s totalbytes p totalnewbytes)
            else do {
              kept \<leftarrow> mem_read (bufM s) (totalbytes - unused - right) (lenM s - totalbytes + right);
              b \<leftarrow> mem_write (bufM s) 0 kept;
              data \<leftarrow> mem_read p 0 totalbytes;
              b \<leftarrow> mem_write b (lenM s - totalbytes) data;
              Some (s\<lparr>bufM := b, posM := lenM s, virtual_offsetM := lenM s, endM := lenM s, startM := 0\<rparr>, 0) })
         else if totalbytes > right then do {
           data \<leftarrow> mem_read p 0 totalbytes;
           b \<leftarrow> mem_write (bufM s) (posM s) data;
           Some (s\<lparr>bufM := b, posM := posM s + totalbytes, virtual_offsetM := virtual_offsetM s + totalbytes,
                   endM := posM s + totalbytes, startM := 0\<rparr>, 0) }
         else Some (s, - 1))"

definition fix_buffer :: "uxfio \<Rightarrow> int \<Rightarrow> char list \<Rightarrow> int \<Rightarrow> (uxfio \<times> int) option" where
  "fix_buffer s totalbytes p totalnewbytes =
     (if buffertypeM s = UXFIO_BUFTYPE_FILE then fix_file_buffer s totalbytes p totalnewbytes
      else fix_mem_buffer s totalbytes p totalnewbytes)"

section \<open>Reading\<close>

text \<open>\<open>UXFIO_F_SET_BUFACTIVE\<close> of \<open>uxfio_fcntl\<close>, which the reader uses too.\<close>

definition set_bufactive :: "uxfio \<Rightarrow> int \<Rightarrow> uxfio \<times> int" where
  "set_bufactive s value =
     (let finish = (\<lambda>s value ret. (s\<lparr>buffer_activeM := (if value \<noteq> 0 then 1 else 0)\<rparr>, ret :: int))
      in if buffertypeM s = UXFIO_BUFTYPE_NOBUF then finish s (0 :: int) 0
         else if buffertypeM s = UXFIO_BUFTYPE_FILE then
           (if value = 0 then
              (if buffer_activeM s \<noteq> 0 \<and> posM s < endM s then (s, - 1)
               else (let (s, ret) = uxfio__delete_buffer_file s in finish s value ret))
            else if buffer_activeM s = 0 then (let (s, ret) = uxfio__init_buffer_file s [] in finish s value ret)
            else finish s value 0)
         else if value = 0 \<and> buffer_activeM s \<noteq> 0 \<and> posM s < endM s then finish s value (- 1)
         else finish s value 0)"

text \<open>The counters after bytes that were read.\<close>

definition passed_bytes :: "int \<Rightarrow> uxfio \<Rightarrow> uxfio" where
  "passed_bytes n s = s\<lparr>current_offsetM := current_offsetM s + n, virtual_offsetM := virtual_offsetM s + n\<rparr>"

definition new_bytes :: "int \<Rightarrow> uxfio \<Rightarrow> uxfio" where
  "new_bytes n s = (passed_bytes n s)\<lparr>bytesreadM := bytesreadM s + n\<rparr>"

text \<open>Part of the bytes comes from the buffer (\<open>posM < endM\<close>): they are copied, the rest is read below.\<close>

definition read_from_buffer :: "uxfio \<Rightarrow> int \<Rightarrow> (uxfio \<times> char list option) option" where
  "read_from_buffer s bufcount =
     (if buffertypeM s = UXFIO_BUFTYPE_FILE then do {
        t \<leftarrow> buffdM s;
        let (bs, t) = tf_read t bufcount;
        Some (s\<lparr>buffdM := Some t\<rparr>, if int (length bs) = bufcount then Some bs else None) }
      else map_option (\<lambda>bs. (s, Some bs)) (mem_read (bufM s) (posM s) bufcount))"

definition read_in_buffer :: "'w vir \<Rightarrow> uxfio \<Rightarrow> 'w \<Rightarrow> int \<Rightarrow> (uxfio \<times> 'w \<times> char list option) option" where
  "read_in_buffer vir s w nbyte = do {
     let right = right_of s;
     let bufcount = (if nbyte \<ge> right then right else nbyte);
     (s, data) \<leftarrow> read_from_buffer s bufcount;
     case data of None \<Rightarrow> Some (s, w, None)
     | Some bs \<Rightarrow>
         (let s = passed_bytes bufcount s
          in if bufcount < nbyte then
               (let (more, w) = (if uxfdM s \<noteq> UXFIO_NULL_FD then vir_readM vir w (nbyte - bufcount) else (Some [], w))
                in case more of None \<Rightarrow> Some (s, w, None)
                   | Some ms \<Rightarrow> do {
                       (s, ret) \<leftarrow> fix_buffer (new_bytes (int (length ms)) s) (bufcount + int (length ms)) (bs @ ms) (int (length ms));
                       Some (s, w, Some (bs @ ms)) })
             else do {
               (s, ret) \<leftarrow> fix_buffer s bufcount bs 0;
               Some (s, w, Some bs) }) }"

text \<open>The position is at the end of the buffer.\<close>

definition read_past_buffer :: "'w vir \<Rightarrow> uxfio \<Rightarrow> 'w \<Rightarrow> int \<Rightarrow> (uxfio \<times> 'w \<times> char list option) option" where
  "read_past_buffer vir s w nbyte =
     (let (data, w) = (if uxfdM s = UXFIO_NULL_FD then (Some [], w)
                       else if uxfio__get_state s \<noteq> 0 then vir_tread_readM vir w nbyte else vir_readM vir w nbyte)
      in case data of None \<Rightarrow> Some (s, w, None)
         | Some bs \<Rightarrow> do {
             (s, ret) \<leftarrow> fix_buffer (new_bytes (int (length bs)) s) (int (length bs)) bs (int (length bs));
             let s = (if auto_disableM s \<noteq> 0 then fst (set_bufactive (s\<lparr>auto_disableM := 0\<rparr>) 0) else s);
             Some (s, w, Some bs) })"

text \<open>\<open>uxfio_common_read\<close> without polling. A count that is negative as an \<open>int\<close> is not modelled.\<close>

definition uxfio_common_read :: "'w vir \<Rightarrow> uxfio \<Rightarrow> 'w \<Rightarrow> int \<Rightarrow> (uxfio \<times> 'w \<times> char list option) option" where
  "uxfio_common_read vir s w nbyte0 =
     (let nbyte = c_int nbyte0;
          (nbyte, einval, s) = (if buffertypeM s = UXFIO_BUFTYPE_FILE \<or> buffertypeM s = UXFIO_BUFTYPE_DYNAMIC_MEM \<or>
                                   offset_eofM s \<ge> 0 \<or> v_endM s \<ge> 0
                                then enforce_veof s nbyte else (nbyte, False, s))
      in if nbyte \<le> 0 \<and> einval then
           Some (if offset_eofM s \<ge> 0 then s\<lparr>offset_eofM := - offset_eofM s, current_offsetM := 0, virtual_offsetM := 0\<rparr> else s, w, Some [])
         else if nbyte < 0 then None
         else if buffer_activeM s = 0 then
           (let (data, w) = vir_readM vir w nbyte
            in case data of None \<Rightarrow> Some (s, w, None)
               | Some bs \<Rightarrow> Some (new_bytes (int (length bs)) s, w, Some bs))
         else if posM s < endM s then read_in_buffer vir s w nbyte
         else read_past_buffer vir s w nbyte)"

text \<open>\<open>uxfio_common_safe_read\<close>, which reads until nothing follows.\<close>

partial_function (option) uxfio_common_safe_read :: "'w vir \<Rightarrow> uxfio \<Rightarrow> 'w \<Rightarrow> int \<Rightarrow> char list \<Rightarrow> (uxfio \<times> 'w \<times> char list option) option" where
  "uxfio_common_safe_read vir s w nbyte n =
     (if int (length n) < nbyte then
        (case uxfio_common_read vir s w (nbyte - int (length n)) of
           None \<Rightarrow> None
         | Some (s, w, None) \<Rightarrow> Some (s, w, None)
         | Some (s, w, Some bs) \<Rightarrow>
             if bs = [] then Some (s, w, Some n) else uxfio_common_safe_read vir s w nbyte (n @ bs))
      else Some (s, w, Some n))"

text \<open>\<open>uxfio__read_bytes\<close>: bytes are read and dropped. It does not end when nothing follows.\<close>

partial_function (option) uxfio__read_bytes :: "'w vir \<Rightarrow> uxfio \<Rightarrow> 'w \<Rightarrow> int \<Rightarrow> int \<Rightarrow> (uxfio \<times> 'w \<times> int) option" where
  "uxfio__read_bytes vir s w amount haveread =
     (if amount \<noteq> 0 then
        (case uxfio_common_read vir s w (if amount > 4096 then 4096 else amount) of
           None \<Rightarrow> None
         | Some (s, w, None) \<Rightarrow> Some (s, w, - 1)
         | Some (s, w, Some bs) \<Rightarrow> uxfio__read_bytes vir s w (amount - int (length bs)) (haveread + int (length bs)))
      else Some (s, w, haveread))"

section \<open>Seeking\<close>

text \<open>The first part of \<open>uxfio_lseek\<close>: the offset from the position, the way it counts, and whether the start of the
  virtual file is subtracted from the result. \<^term>\<open>Inl\<close> is an early return.\<close>

type_synonym seek_plan = "uxfio \<times> (int + int \<times> int \<times> bool)"

definition lseek_set :: "uxfio \<Rightarrow> int \<Rightarrow> int \<Rightarrow> seek_plan" where
  "lseek_set s poffset pwhence =
     (if \<not> virtual_eof_active s \<and> offset_eof_savedM s > 0 \<and> pwhence = UXFIO_SEEK_VSET
      then (s\<lparr>offset_eofM := offset_eof_savedM s\<rparr>, Inr (poffset - offset_eof_savedM s, SEEK_CUR, True))
      else if buffer_activeM s = 0 \<and> uxfd_can_seekM s \<noteq> 0 then
        (s, case enforce_set_position s (poffset - bytesreadM s) of None \<Rightarrow> Inl (- 1) | Some offset \<Rightarrow> Inr (offset, SEEK_CUR, False))
      else if virtual_eof_active s then
        (s, if pwhence \<noteq> UXFIO_SEEK_VSET \<or> poffset < 0 \<or> poffset > offset_eofM s \<and> poffset > v_endM s then Inl (- 1)
            else Inr (offset_bofM s + poffset, pwhence, False))
      else (s, Inr (poffset - posM s, SEEK_CUR, False)))"

definition lseek_end :: "uxfio \<Rightarrow> int \<Rightarrow> seek_plan" where
  "lseek_end s poffset =
     (let offset = endM s - posM s + poffset
      in if virtual_eof_active s then
           (let r_i = (if offset_eofM s \<ge> 0 then offset_eofM s else v_endM s);
                r_offset = r_i - bytesreadM s + offset;
                (offset, einval, s) = enforce_veof s r_offset
            in (s, if offset < 0 \<or> einval \<and> r_offset \<noteq> offset then Inl (- 1) else Inr (offset, SEEK_CUR, False)))
         else (s, Inr (offset, SEEK_CUR, False)))"

text \<open>A virtual file whose end has been reached can be started again.\<close>

definition restart_virtual :: "uxfio \<Rightarrow> int \<Rightarrow> uxfio option" where
  "restart_virtual s pwhence =
     (if \<not> virtual_eof_active s \<and> offset_eof_savedM s \<ge> 0 \<and> pwhence = UXFIO_SEEK_VSET then
        (if posM s - offset_eof_savedM s = offset_bofM s
         then Some (s\<lparr>posM := offset_bofM s, virtual_offsetM := 0, offset_eofM := offset_eof_savedM s\<rparr>) else None)
      else Some s)"

definition lseek_offset :: "uxfio \<Rightarrow> int \<Rightarrow> int \<Rightarrow> seek_plan" where
  "lseek_offset s poffset pwhence =
     (if pwhence = SEEK_CUR \<or> pwhence = UXFIO_SEEK_VCUR then (s, Inr (poffset, pwhence, False))
      else if pwhence = SEEK_SET \<or> pwhence = UXFIO_SEEK_VSET then
        (case restart_virtual s pwhence of None \<Rightarrow> (s, Inl (- 1)) | Some s \<Rightarrow> lseek_set s poffset pwhence)
      else if pwhence = SEEK_END then lseek_end s poffset
      else (s, Inr (0, pwhence, False)))"

text \<open>The position of the temporary file is moved along and compared.\<close>

definition seek_buffer_file :: "uxfio \<Rightarrow> int \<Rightarrow> int \<Rightarrow> (uxfio \<times> bool) option" where
  "seek_buffer_file s offset whence =
     (if buffertypeM s = UXFIO_BUFTYPE_FILE then do {
        t \<leftarrow> buffdM s;
        let (p, t) = tf_lseek t offset whence;
        Some (s\<lparr>buffdM := Some t\<rparr>, p = posM s) }
      else Some (s, True))"

definition move_position :: "int \<Rightarrow> uxfio \<Rightarrow> uxfio" where
  "move_position n s = (passed_bytes n s)\<lparr>posM := posM s + n\<rparr>"

text \<open>The branches of the second part. An early return is \<^term>\<open>Inl\<close> in the result.\<close>

definition seek_inside :: "uxfio \<Rightarrow> int \<Rightarrow> int \<Rightarrow> int \<Rightarrow> (uxfio \<times> (int + int)) option" where
  "seek_inside s offset whence ret = do {
     (s, same) \<leftarrow> seek_buffer_file s offset whence;
     Some (s, if same then Inr ret else Inl (- 1)) }"

definition seek_virtual :: "uxfio \<Rightarrow> int \<Rightarrow> int \<Rightarrow> uxfio \<times> (int + int)" where
  "seek_virtual s poffset pwhence =
     (if pwhence = SEEK_SET then (s, Inl (- 1))
      else if pwhence = UXFIO_SEEK_VSET then (s\<lparr>posM := offset_bofM s + poffset, virtual_offsetM := poffset\<rparr>, Inr 0)
      else if pwhence = SEEK_CUR then (move_position poffset s, Inr (posM s + poffset))
      else (s, Inr (- 1)))"

definition seek_ahead :: "'w vir \<Rightarrow> uxfio \<Rightarrow> 'w \<Rightarrow> int \<Rightarrow> (uxfio \<times> 'w \<times> (int + int)) option" where
  "seek_ahead vir s w offset =
     (if v_endM s \<ge> 0 then Some (move_position (v_endM s) s, w, Inl (posM s + v_endM s))
      else if buffertypeM s \<noteq> UXFIO_BUFTYPE_FILE \<and> buffer_activeM s = 0 then Some (s, w, Inl (- 1))
      else do {
        (s, w, n) \<leftarrow> uxfio__read_bytes vir s w offset 0;
        let s = (if n \<noteq> offset then move_position n s else s);
        (s, same) \<leftarrow> seek_buffer_file s 0 SEEK_CUR;
        Some (s, w, if same then Inr (posM s) else Inl (- 1)) })"

definition seek_nowhere :: "uxfio \<Rightarrow> int \<Rightarrow> (uxfio \<times> (int + int)) option" where
  "seek_nowhere s whence =
     (if buffertypeM s = UXFIO_BUFTYPE_FILE then seek_inside s 0 SEEK_CUR (posM s)
      else if whence = UXFIO_SEEK_VSET \<and> buffertypeM s = UXFIO_BUFTYPE_MEM then Some (s, Inr (virtual_offsetM s))
      else if whence = UXFIO_SEEK_VCUR \<and> buffertypeM s = UXFIO_BUFTYPE_MEM then Some (s, Inr (current_offsetM s))
      else if whence = UXFIO_SEEK_VCUR \<and> buffertypeM s = UXFIO_BUFTYPE_DYNAMIC_MEM then Some (s, Inr (posM s - offset_bofM s))
      else if whence = UXFIO_SEEK_VSET \<and> buffertypeM s = UXFIO_BUFTYPE_DYNAMIC_MEM \<and> virtual_eof_active s
        then Some (s\<lparr>posM := offset_bofM s, virtual_offsetM := offset_bofM s\<rparr>, Inr (offset_bofM s))
      else Some (s, Inr (posM s)))"

definition lseek_ladder :: "'w vir \<Rightarrow> uxfio \<Rightarrow> 'w \<Rightarrow> int \<Rightarrow> int \<Rightarrow> int \<Rightarrow> int \<Rightarrow> (uxfio \<times> 'w \<times> (int + int)) option" where
  "lseek_ladder vir s w offset whence poffset pwhence =
     (let lift = map_option (\<lambda>(s, r). (s, w, r))
      in if offset < 0 \<and> - offset \<le> left_of s then lift (let s = move_position offset s in seek_inside s offset whence (posM s))
         else if offset > 0 \<and> offset \<le> right_of s then
           (if virtual_eof_active s then lift (Some (seek_virtual s poffset pwhence))
            else lift (let s = move_position offset s in seek_inside s offset whence (posM s)))
         else if offset > 0 then seek_ahead vir s w offset
         else if offset = 0 then lift (seek_nowhere s whence)
         else Some (s, w, Inl UXFIO_RET_EFAIL))"

text \<open>\<open>uxfio_lseek\<close> for a descriptor of this file.\<close>

definition uxfio_lseek :: "'w vir \<Rightarrow> uxfio \<Rightarrow> 'w \<Rightarrow> int \<Rightarrow> int \<Rightarrow> (uxfio \<times> 'w \<times> int) option" where
  "uxfio_lseek vir s w poffset pwhence = (case lseek_offset s poffset pwhence of
       (s, Inl e) \<Rightarrow> Some (s, w, e)
     | (s, Inr (offset, whence, do_virtual_set)) \<Rightarrow>
         if buffer_activeM s = 0 \<and> offset_eof_savedM s < 0 \<and> uxfd_can_seekM s \<noteq> 0 then
           (let (retval, w) = vir_lseekM vir w offset SEEK_CUR in Some (new_bytes offset s, w, retval))
         else do {
           (s, w, r) \<leftarrow> lseek_ladder vir s w offset (if offset \<noteq> 0 then SEEK_CUR else whence) poffset pwhence;
           Some (s, w, case r of Inl e \<Rightarrow> e
             | Inr retval \<Rightarrow> if do_virtual_set then retval - active_virtual_file_offset s else retval) })"

section \<open>Writing\<close>

text \<open>The inner loop of \<open>do_buffered_write2\<close>: one block is written, in as many pieces as it takes; the result tells
  whether all of it was.\<close>

definition write_below :: "'w vir \<Rightarrow> uxfio \<Rightarrow> 'w \<Rightarrow> char list \<Rightarrow> int \<times> 'w" where
  "write_below vir s w bs = (if uxfdM s = UXFIO_NULL_FD then (int (length bs), w) else vir_writeM vir w bs)"

function write_block :: "'w vir \<Rightarrow> uxfio \<Rightarrow> 'w \<Rightarrow> char list \<Rightarrow> bool \<times> 'w" where
  "write_block vir s w bs =
     (if bs = [] then (True, w)
      else (let (n, w) = write_below vir s w bs
            in if n \<le> 0 then (False, w) else write_block vir s w (drop (nat n) bs)))"
  by pat_completeness auto
termination
  by (relation "measure (\<lambda>(vir, s, w, bs). length bs)") auto

text \<open>The outer loop: whole blocks are written, the rest stays in the buffer. With a block size of 0 the loop of the code
  does not end.\<close>

function write_blocks :: "'w vir \<Rightarrow> uxfio \<Rightarrow> 'w \<Rightarrow> block \<Rightarrow> int \<Rightarrow> char list \<Rightarrow> (uxfio \<times> 'w \<times> bool) option" where
  "write_blocks vir s w buf initial_remains user =
     (let bs = output_block_sizeM s
      in if initial_remains + int (length user) \<ge> bs then
           (if bs \<le> 0 \<or> initial_remains < 0 \<or> initial_remains > bs then None
            else (let udid = nat (bs - initial_remains)
                  in case mem_write buf initial_remains (take udid user) of
                       None \<Rightarrow> None
                     | Some buf \<Rightarrow>
                         (let (all_written, w) = write_block vir s w (take (nat bs) buf)
                          in if all_written then write_blocks vir s w buf 0 (drop udid user)
                             else Some (s\<lparr>output_bufferM := Some buf\<rparr>, w, False))))
         else map_option (\<lambda>buf. (s\<lparr>output_bufferM := Some buf, output_buffer_cM := initial_remains + int (length user)\<rparr>, w, True))
                (mem_write buf initial_remains user))"
  by pat_completeness auto
termination
  by (relation "measure (\<lambda>(vir, s, w, buf, initial_remains, user). nat (initial_remains + int (length user)))") auto

definition do_buffered_write2 :: "'w vir \<Rightarrow> uxfio \<Rightarrow> 'w \<Rightarrow> char list \<Rightarrow> (uxfio \<times> 'w \<times> int) option" where
  "do_buffered_write2 vir s w user = do {
     buf \<leftarrow> output_bufferM s;
     (s, w, all_written) \<leftarrow> write_blocks vir s w buf (output_buffer_cM s) user;
     Some (s, w, if all_written then int (length user) else - 1) }"

definition do_buffered_flush :: "'w vir \<Rightarrow> uxfio \<Rightarrow> 'w \<Rightarrow> (uxfio \<times> 'w \<times> int) option" where
  "do_buffered_flush vir s w =
     (if output_block_sizeM s = 0 \<or> output_buffer_cM s = 0 then Some (s, w, 0)
      else (let save_bs = output_block_sizeM s;
                remains = output_buffer_cM s;
                s = s\<lparr>output_buffer_cM := 0, output_block_sizeM := remains\<rparr>
            in if remains > save_bs then Some (s, w, - 1)
               else do {
                 buf \<leftarrow> output_bufferM s;
                 data \<leftarrow> mem_read buf 0 remains;
                 (s, w, write_ret) \<leftarrow> do_buffered_write2 vir s w data;
                 Some (s\<lparr>output_block_sizeM := save_bs\<rparr>, w, if write_ret \<noteq> remains \<or> output_buffer_cM s > 0 then - 1 else 0) }))"

text \<open>\<open>uxfio_write\<close> for a descriptor of this file.\<close>

definition write_file_buffer :: "uxfio \<Rightarrow> char list \<Rightarrow> (uxfio \<times> int) option" where
  "write_file_buffer s bs =
     (let nbyte = (if posM s + int (length bs) > endM s then endM s - posM s else int (length bs))
      in if nbyte < 0 then None
         else do {
           t \<leftarrow> buffdM s;
           Some ((new_bytes nbyte s)\<lparr>buffdM := Some (tf_write t (take (nat nbyte) bs)), posM := posM s + nbyte\<rparr>, nbyte) })"

definition write_dynamic_buffer :: "uxfio \<Rightarrow> char list \<Rightarrow> (uxfio \<times> int) option" where
  "write_dynamic_buffer s bs =
     (let nbyte = int (length bs); right = right_of s; unused = unused_of s
      in if nbyte > right + unused
         then map_option (\<lambda>s. (s, nbyte)) (fix_dynamic_buffer s nbyte bs (nbyte - right - unused))
         else do {
           s \<leftarrow> (if write_insertM s \<noteq> 0 then do {
                   tail \<leftarrow> mem_read (bufM s) (posM s) right;
                   b \<leftarrow> mem_write (bufM s) (posM s + nbyte) tail;
                   Some (s\<lparr>bufM := b, endM := (if posM s + nbyte + right > endM s then posM s + nbyte else endM s)\<rparr>) }
                 else Some s);
           b \<leftarrow> mem_write (bufM s) (posM s) bs;
           let s = (new_bytes nbyte s)\<lparr>bufM := b, posM := posM s + nbyte\<rparr>;
           Some (if posM s > endM s then s\<lparr>endM := posM s\<rparr> else s, nbyte) })"

definition uxfio_write :: "'w vir \<Rightarrow> uxfio \<Rightarrow> 'w \<Rightarrow> char list \<Rightarrow> (uxfio \<times> 'w \<times> int) option" where
  "uxfio_write vir s w bs =
     (let endoffset = bytesreadM s + int (length bs); lift = map_option (\<lambda>(s, n). (s, w, n))
      in if virtual_eof_active s \<and> fst (enforce_veof s endoffset) \<noteq> endoffset then Some (s, w, - 1)
         else if buffer_activeM s = 0 \<and> output_block_sizeM s = 0 then (let (n, w) = vir_writeM vir w bs in Some (s, w, n))
         else if output_block_sizeM s > 0 \<and> buffer_activeM s = 0 then do_buffered_write2 vir s w bs
         else if buffertypeM s = UXFIO_BUFTYPE_FILE \<and> uxfd_can_seekM s = 1 then lift (write_file_buffer s bs)
         else if buffertypeM s = UXFIO_BUFTYPE_DYNAMIC_MEM then lift (write_dynamic_buffer s bs)
         else Some (s, w, - 1))"

section \<open>Truncation and the memory of a file\<close>

partial_function (option) zero_fill :: "'w vir \<Rightarrow> uxfio \<Rightarrow> 'w \<Rightarrow> int \<Rightarrow> (uxfio \<times> 'w \<times> int) option" where
  "zero_fill vir s w rem =
     (if rem > 0 then
        (case uxfio_write vir s w (replicate (nat (if rem > 512 then 512 else rem)) NUL) of
           None \<Rightarrow> None
         | Some (s, w, ret) \<Rightarrow> if ret < 0 then Some (s, w, - 1) else zero_fill vir s w (rem - ret))
      else Some (s, w, 0))"

text \<open>A call of \<open>uxfio_lseek\<close> that ends the caller with -1 when it fails.\<close>

definition seek_or_fail :: "'w vir \<Rightarrow> uxfio \<Rightarrow> 'w \<Rightarrow> int \<Rightarrow> int \<Rightarrow> (uxfio \<Rightarrow> 'w \<Rightarrow> (uxfio \<times> 'w \<times> int) option) \<Rightarrow> (uxfio \<times> 'w \<times> int) option" where
  "seek_or_fail vir s w offset whence rest = do {
     (s, w, ret) \<leftarrow> uxfio_lseek vir s w offset whence;
     if ret < 0 then Some (s, w, - 1) else rest s w }"

definition truncate_dynamic :: "'w vir \<Rightarrow> uxfio \<Rightarrow> 'w \<Rightarrow> int \<Rightarrow> (uxfio \<times> 'w \<times> int) option" where
  "truncate_dynamic vir s w nbyte = do {
     (s, w, pos) \<leftarrow> uxfio_lseek vir s w 0 SEEK_CUR;
     if pos < 0 then Some (s, w, - 1)
     else if nbyte > endM s then
       seek_or_fail vir s w 0 SEEK_END (\<lambda>s w. do {
         (s, w, ret) \<leftarrow> zero_fill vir s w (nbyte - endM s);
         seek_or_fail vir s w pos SEEK_SET (\<lambda>s w. Some (s, w, ret)) })
     else (let amount = endM s - nbyte
           in seek_or_fail vir s w nbyte SEEK_SET (\<lambda>s w. do {
                (s, w, ret) \<leftarrow> zero_fill vir s w amount;
                seek_or_fail vir s w pos SEEK_SET (\<lambda>s w. do {
                  (s, w) \<leftarrow> (if nbyte > posM s then map_option (\<lambda>(s, w, r). (s, w)) (uxfio_lseek vir s w nbyte SEEK_SET)
                             else Some (s, w));
                  Some (s\<lparr>endM := nbyte\<rparr>, w, ret) }) })) }"

definition truncate_compound :: "uxfio \<Rightarrow> int \<Rightarrow> uxfio" where
  "truncate_compound s nbyte =
     (if nbyte > v_endM s then
        (let s = s\<lparr>v_endM := nbyte, statbufM := map_option (\<lambda>st. st\<lparr>st_size := word_of_int nbyte\<rparr>) (statbufM s)\<rparr>;
             s = (if offset_eofM s > nbyte then s\<lparr>offset_eofM := c_int nbyte\<rparr> else s)
         in if bytesreadM s > nbyte
            then s\<lparr>bytesreadM := c_int nbyte, current_offsetM := c_int nbyte, virtual_offsetM := c_int nbyte\<rparr> else s)
      else s)"

definition uxfio_internal_ftruncate :: "'w vir \<Rightarrow> uxfio \<Rightarrow> 'w \<Rightarrow> int \<Rightarrow> (uxfio \<times> 'w \<times> int) option" where
  "uxfio_internal_ftruncate vir s w nbyte =
     (if statbufM s \<noteq> None \<and> v_endM s > 0 then Some (truncate_compound s nbyte, w, 0)
      else if buffertypeM s = UXFIO_BUFTYPE_FILE then
        (if posM s \<ge> endM s
         then map_option (\<lambda>t. (s\<lparr>buffdM := Some (t\<lparr>tf_data := []\<rparr>)\<rparr>, w, 0)) (buffdM s)
         else Some (s, w, - 2))
      else if buffertypeM s = UXFIO_BUFTYPE_DYNAMIC_MEM then truncate_dynamic vir s w nbyte
      else Some (s, w, - 1))"

text \<open>\<open>uxfio_get_dynamic_buffer\<close> when all results are asked for: the block, the end and the length of the data.\<close>

definition uxfio_get_dynamic_buffer :: "'w vir \<Rightarrow> uxfio \<Rightarrow> 'w \<Rightarrow> (uxfio \<times> 'w \<times> (block \<times> int \<times> int) option) option" where
  "uxfio_get_dynamic_buffer vir s w =
     (if buffertypeM s = UXFIO_BUFTYPE_DYNAMIC_MEM then do {
        b \<leftarrow> mem_write (bufM s) (lenM s) [NUL];
        b \<leftarrow> mem_write b (endM s) [NUL];
        (s, w, curpos) \<leftarrow> uxfio_lseek vir (s\<lparr>bufM := b\<rparr>) w 0 SEEK_CUR;
        (s, w, _) \<leftarrow> uxfio_lseek vir s w 0 SEEK_END;
        (s, w, buffer_len) \<leftarrow> uxfio_lseek vir s w 0 SEEK_CUR;
        (s, w, _) \<leftarrow> uxfio_lseek vir s w curpos SEEK_SET;
        Some (s, w, Some (bufM s, buffer_len, endM s)) }
      else Some (s, w, None))"


section \<open>Control\<close>

definition UXFIO_F_SET_BUFFER_LENGTH :: int where "UXFIO_F_SET_BUFFER_LENGTH = - 11725"
definition UXFIO_F_SET_CANSEEK :: int where "UXFIO_F_SET_CANSEEK = - 11729"
definition UXFIO_F_SET_LTRUNC :: int where "UXFIO_F_SET_LTRUNC = - 11730"
definition UXFIO_F_SET_BUFACTIVE :: int where "UXFIO_F_SET_BUFACTIVE = - 11731"
definition UXFIO_F_SET_BUFTYPE :: int where "UXFIO_F_SET_BUFTYPE = - 11732"
definition UXFIO_F_ATTACH_FD :: int where "UXFIO_F_ATTACH_FD = - 11733"
definition UXFIO_F_SET_VEOF :: int where "UXFIO_F_SET_VEOF = - 11734"
definition UXFIO_F_ARM_AUTO_DISABLE :: int where "UXFIO_F_ARM_AUTO_DISABLE = - 11735"
definition UXFIO_F_GET_BUFTYPE :: int where "UXFIO_F_GET_BUFTYPE = - 11736"
definition UXFIO_F_GET_CANSEEK :: int where "UXFIO_F_GET_CANSEEK = - 11737"
definition UXFIO_F_WRITE_INSERT :: int where "UXFIO_F_WRITE_INSERT = - 11738"
definition UXFIO_F_GET_BUFFER_LENGTH :: int where "UXFIO_F_GET_BUFFER_LENGTH = - 11739"
definition UXFIO_F_GET_VBOF :: int where "UXFIO_F_GET_VBOF = - 11740"
definition UXFIO_F_DO_MEM_REALLOC :: int where "UXFIO_F_DO_MEM_REALLOC = - 11741"
definition UXFIO_F_SET_LOCK_MEM_FATAL :: int where "UXFIO_F_SET_LOCK_MEM_FATAL = - 11742"
definition UXFIO_F_SET_OUTPUT_BLOCK_SIZE :: int where "UXFIO_F_SET_OUTPUT_BLOCK_SIZE = - 11743"
definition UXFIO_F_GET_VEOF :: int where "UXFIO_F_GET_VEOF = - 11744"

lemmas fcntl_codes = UXFIO_F_SET_BUFFER_LENGTH_def UXFIO_F_SET_CANSEEK_def UXFIO_F_SET_LTRUNC_def UXFIO_F_SET_BUFACTIVE_def
  UXFIO_F_SET_BUFTYPE_def UXFIO_F_ATTACH_FD_def UXFIO_F_SET_VEOF_def UXFIO_F_ARM_AUTO_DISABLE_def UXFIO_F_GET_BUFTYPE_def
  UXFIO_F_GET_CANSEEK_def UXFIO_F_WRITE_INSERT_def UXFIO_F_GET_BUFFER_LENGTH_def UXFIO_F_GET_VBOF_def UXFIO_F_DO_MEM_REALLOC_def
  UXFIO_F_SET_LOCK_MEM_FATAL_def UXFIO_F_SET_OUTPUT_BLOCK_SIZE_def UXFIO_F_GET_VEOF_def

definition set_buffer_length :: "uxfio \<Rightarrow> int \<Rightarrow> (uxfio \<times> int) option" where
  "set_buffer_length s value =
     (if buffertypeM s = UXFIO_BUFTYPE_FILE then Some (if value > endM s then s\<lparr>lenM := value\<rparr> else s, 0)
      else (let left = left_of s; right = right_of s
            in if value < right \<or> value \<le> 0 then Some (s, - 1)
               else (let buf = replicate (nat (value + 1)) uninit
                     in if value \<ge> right + left then do {
                          data \<leftarrow> mem_read (bufM s) (startM s) (left + right);
                          b \<leftarrow> mem_write buf 0 data;
                          Some (s\<lparr>lenM := value, bufM := b\<rparr>, 0) }
                        else do {
                          data \<leftarrow> mem_read (bufM s) (posM s - value + right) value;
                          b \<leftarrow> mem_write buf 0 data;
                          Some (s\<lparr>lenM := value, startM := 0, posM := value - right, virtual_offsetM := value - right,
                                  endM := value, bufM := b\<rparr>, 0) })))"

definition get_canseek :: "uxfio \<Rightarrow> int" where
  "get_canseek s =
     (if buffer_activeM s \<noteq> 0 \<and> buffertypeM s \<noteq> UXFIO_BUFTYPE_NOBUF
      then if buffertypeM s = UXFIO_BUFTYPE_MEM \<and> lenM s \<ge> 512 then lenM s else 1 else 0)"

text \<open>Changing the type of the buffer. A buffer in a file becomes one in memory with two bytes behind its data, of which
  one is not counted.\<close>

definition file_to_memory :: "uxfio \<Rightarrow> (uxfio \<times> int) option" where
  "file_to_memory s = do {
     t \<leftarrow> buffdM s;
     let (bs, t) = tf_read (t\<lparr>tf_pos := 0\<rparr>) (endM s);
     b \<leftarrow> mem_write (replicate (nat (endM s + 2)) uninit) 0 bs;
     b \<leftarrow> mem_set b (endM s) NUL 2;
     Some (uxfio__delete_buffer_file (s\<lparr>buffdM := Some t, bufM := b, lenM := endM s + 1\<rparr>)) }"

definition set_buftype :: "uxfio \<Rightarrow> int \<Rightarrow> (uxfio \<times> int) option" where
  "set_buftype s value =
     (if value < 0 \<or> value > 4 then Some (s, - 1)
      else if value = buffertypeM s then Some (s, 0)
      else do {
        (s, ret) \<leftarrow>
          (if buffertypeM s = UXFIO_BUFTYPE_FILE \<and> value \<noteq> UXFIO_BUFTYPE_FILE \<and> buffer_activeM s \<noteq> 0 then file_to_memory s
           else if (buffertypeM s = UXFIO_BUFTYPE_MEM \<or> buffertypeM s = UXFIO_BUFTYPE_DYNAMIC_MEM) \<and>
                   value = UXFIO_BUFTYPE_FILE \<and> buffer_activeM s \<noteq> 0 then do {
             bytes \<leftarrow> mem_read (bufM s) 0 (endM s);
             Some (uxfio__init_buffer_file (s\<lparr>buffertypeM := UXFIO_BUFTYPE_FILE\<rparr>) bytes) }
           else if value = UXFIO_BUFTYPE_NOBUF then Some (fst (set_bufactive s 0), 0)
           else Some (s, 0));
        Some (s\<lparr>buffertypeM := value\<rparr>, ret) })"

definition set_veof :: "uxfio \<Rightarrow> int \<Rightarrow> uxfio" where
  "set_veof s value =
     (if value < 0 then s\<lparr>current_offsetM := 0, virtual_offsetM := 0, offset_eofM := - 1, offset_bofM := 0, offset_eof_savedM := - 1\<rparr>
      else s\<lparr>current_offsetM := 0, virtual_offsetM := 0, offset_eofM := value, offset_bofM := posM s, offset_eof_savedM := value\<rparr>)"

definition do_mem_realloc :: "uxfio \<Rightarrow> int \<Rightarrow> (uxfio \<times> int) option" where
  "do_mem_realloc s value =
     (if value < 0 then Some (s, - 1)
      else if buffertypeM s = UXFIO_BUFTYPE_DYNAMIC_MEM then do {
        let len = lenM s + value + UXFIO_ALLOC_AHEAD;
        b \<leftarrow> mem_set (c_realloc (bufM s) (nat (len + 1))) (endM s) NUL (len + 1 - endM s);
        Some (s\<lparr>bufM := b, lenM := len\<rparr>, 0) }
      else Some (s, - 2))"

definition set_output_block_size :: "uxfio \<Rightarrow> int \<Rightarrow> uxfio \<times> int" where
  "set_output_block_size s value =
     (if value < 0 then (s, - 1)
      else (s\<lparr>output_block_sizeM := value, output_bufferM := Some (replicate (nat (value + 1)) uninit)\<rparr>, 0))"

definition uxfio_fcntl :: "'w vir \<Rightarrow> uxfio \<Rightarrow> 'w \<Rightarrow> int \<Rightarrow> int \<Rightarrow> (uxfio \<times> 'w \<times> int) option" where
  "uxfio_fcntl vir s w cmd value =
     (let pure = map_option (\<lambda>(s, ret). (s, w, ret));
          flag = (if value \<noteq> 0 then 1 else 0)
      in if cmd = UXFIO_F_SET_BUFFER_LENGTH then pure (set_buffer_length s value)
         else if cmd = UXFIO_F_SET_LTRUNC then Some (s, w, - 1)
         else if cmd = UXFIO_F_SET_CANSEEK then Some (s\<lparr>uxfd_can_seekM := value\<rparr>, w, 0)
         else if cmd = UXFIO_F_GET_BUFFER_LENGTH then Some (s, w, lenM s)
         else if cmd = UXFIO_F_GET_VBOF then Some (s, w, if virtual_file_active s then offset_bofM s else - 1)
         else if cmd = UXFIO_F_GET_CANSEEK then Some (s, w, get_canseek s)
         else if cmd = UXFIO_F_GET_BUFTYPE then Some (s, w, buffertypeM s)
         else if cmd = UXFIO_F_SET_BUFACTIVE then pure (Some (set_bufactive s value))
         else if cmd = UXFIO_F_SET_BUFTYPE then pure (set_buftype s value)
         else if cmd = UXFIO_F_ATTACH_FD then
           Some (uxfio__change_state (s\<lparr>uxfdM := value\<rparr>) (value \<ge> UXFIO_FD_MIN), w, uxfio_fildesM s)
         else if cmd = UXFIO_F_GET_VEOF then Some (s, w, if virtual_file_active s then offset_eof_savedM s else - 1)
         else if cmd = UXFIO_F_SET_VEOF then Some (set_veof s value, w, 0)
         else if cmd = UXFIO_F_ARM_AUTO_DISABLE then Some (s\<lparr>auto_disableM := flag\<rparr>, w, 0)
         else if cmd = UXFIO_F_WRITE_INSERT then Some (s\<lparr>write_insertM := flag\<rparr>, w, 0)
         else if cmd = UXFIO_F_SET_LOCK_MEM_FATAL then Some (s\<lparr>lock_buf_fatalM := value\<rparr>, w, 0)
         else if cmd = UXFIO_F_DO_MEM_REALLOC then pure (do_mem_realloc s value)
         else if cmd = UXFIO_F_SET_OUTPUT_BLOCK_SIZE then pure (Some (set_output_block_size s value))
         else if uxfdM s \<noteq> UXFIO_NULL_FD then (let (ret, w) = vir_fcntlM vir w cmd value in Some (s, w, ret))
         else Some (s, w, - 1))"

text \<open>\<open>uxfio_ioctl\<close>, with its requests and their arguments, and \<open>uxfio_fstat\<close>.\<close>

datatype uxfio_request = SET_STATBUF statbuf | SET_IMEMBUF block | GET_STATBUF | SET_TMPFILE_ROOTDIR string | OTHER_REQUEST

fun uxfio_ioctl :: "uxfio \<Rightarrow> uxfio_request \<Rightarrow> uxfio \<times> int" where
  "uxfio_ioctl s (SET_STATBUF st) = (s\<lparr>statbufM := Some st, v_endM := uint (st_size st)\<rparr>, 0)"
| "uxfio_ioctl s (SET_IMEMBUF b) = (s\<lparr>bufM := b\<rparr>, 0)"
| "uxfio_ioctl s GET_STATBUF = (s, 0)"
| "uxfio_ioctl s (SET_TMPFILE_ROOTDIR d) = (s\<lparr>tmpfile_rootdirM := Some d\<rparr>, 0)"
| "uxfio_ioctl s OTHER_REQUEST = (s, - 1)"

definition uxfio_fstat :: "uxfio \<Rightarrow> statbuf option" where
  "uxfio_fstat s = statbufM s"

definition uxfio_fsync :: "'w vir \<Rightarrow> uxfio \<Rightarrow> 'w \<Rightarrow> (uxfio \<times> 'w \<times> int) option" where
  "uxfio_fsync vir s w =
     (if output_block_sizeM s > 0 then do_buffered_flush vir s w
      else if uxfd_can_seekM s \<noteq> 0 then (let (i, w) = vir_fsyncM vir w in Some (s, w, i))
      else if buffertypeM s = UXFIO_BUFTYPE_FILE \<and> buffdM s \<noteq> None then Some (s, w, 0)
      else Some (s, w, - 1))"

definition uxfio_espipe :: "uxfio \<Rightarrow> int" where
  "uxfio_espipe s = (if uxfd_can_seekM s \<noteq> 0 \<and> get_canseek s \<noteq> 0 then 0 else 29)"

definition uxfio_getfd :: "uxfio \<Rightarrow> int \<times> int" where
  "uxfio_getfd s = (uxfdM s, if buffer_activeM s \<noteq> 0 \<and> posM s < endM s then 0 else 1)"

text \<open>Objects as they are opened: by \<open>uxfio_open\<close> on a file, on nothing (the empty name), and for attaching; a memory file
  (\<open>swlib_open_memfd\<close>).\<close>

definition opened :: "int \<Rightarrow> int \<Rightarrow> uxfio" where
  "opened fd u_fd = (uxfio__change_state (new_uxfio fd) False)\<lparr>uxfd_can_seekM := 1, uxfdM := u_fd\<rparr>"

definition opened_null :: "int \<Rightarrow> uxfio" where
  "opened_null fd = opened fd UXFIO_NULL_FD"

definition opened_unattached :: "int \<Rightarrow> uxfio" where
  "opened_unattached fd = (new_uxfio fd)\<lparr>buffer_activeM := 0, uxfd_can_seekM := 0, uxfdM := - 1\<rparr>"

definition swlib_open_memfd :: "'w vir \<Rightarrow> int \<Rightarrow> 'w \<Rightarrow> (uxfio \<times> 'w) option" where
  "swlib_open_memfd vir fd w = do {
     (s, w, _) \<leftarrow> uxfio_fcntl vir (opened_null fd) w UXFIO_F_SET_BUFACTIVE 1;
     (s, w, _) \<leftarrow> uxfio_fcntl vir s w UXFIO_F_SET_BUFTYPE UXFIO_BUFTYPE_DYNAMIC_MEM;
     Some (s, w) }"

text \<open>\<open>uxfio_opendup\<close> without its descriptor: \<open>can_seek\<close> is what the code finds out about the one below.\<close>

definition uxfio_opendup_object :: "'w vir \<Rightarrow> int \<Rightarrow> 'w \<Rightarrow> int \<Rightarrow> int \<Rightarrow> int \<Rightarrow> (uxfio \<times> 'w \<times> int) option" where
  "uxfio_opendup_object vir fd w uxfd can_seek buffertype = do {
     (s, w, r) \<leftarrow> uxfio_fcntl vir (opened_unattached fd) w UXFIO_F_ATTACH_FD uxfd;
     if r < 0 then Some (s, w, - 1)
     else do {
       let s = s\<lparr>did_dupe_fdM := uxfd, uxfd_can_seekM := can_seek\<rparr>;
       (s, w, r) \<leftarrow> (if buffertype \<in> {UXFIO_BUFTYPE_FILE, UXFIO_BUFTYPE_MEM, UXFIO_BUFTYPE_DYNAMIC_MEM}
                    then uxfio_fcntl vir s w UXFIO_F_SET_BUFTYPE buffertype else Some (s, w, 0));
       if r < 0 then Some (s, w, - 1)
       else do {
         (s, w, r) \<leftarrow> uxfio_fcntl vir s w UXFIO_F_SET_BUFACTIVE
                       (if buffertype \<in> {UXFIO_BUFTYPE_FILE, UXFIO_BUFTYPE_MEM, UXFIO_BUFTYPE_DYNAMIC_MEM} then 1 else 0);
         Some (s, w, if r < 0 then - 1 else fd) } } }"


end
