(* ===== verification/UxfioMem.thy ===== *)
theory UxfioMem
  imports Uxfio
begin

text \<open>
  Files in memory (\<open>swlib_open_memfd\<close>): an object with growing memory and nothing below. What it promises is a file,
  its content and a position (\<open>mem_file\<close>); writing, reading and seeking refine the operations on that file.
\<close>

section \<open>The file that an object is\<close>

definition mem_file :: "uxfio \<Rightarrow> char list \<Rightarrow> nat \<Rightarrow> bool" where
  "mem_file s content p \<longleftrightarrow>
     buffertypeM s = UXFIO_BUFTYPE_DYNAMIC_MEM \<and> buffer_activeM s \<noteq> 0 \<and> uxfdM s = UXFIO_NULL_FD \<and>
     offset_eofM s < 0 \<and> v_endM s < 0 \<and> write_insertM s = 0 \<and> auto_disableM s = 0 \<and>
     posM s = int p \<and> endM s = int (length content) \<and> endM s \<le> lenM s \<and> int (length (bufM s)) = lenM s + 1 \<and>
     take (length content) (bufM s) = content \<and> p \<le> length content"

text \<open>Writing into a file: the bytes at the position are replaced, and the file grows when it must.\<close>

definition file_write :: "char list \<Rightarrow> nat \<Rightarrow> char list \<Rightarrow> char list" where
  "file_write content p bs = take p content @ bs @ drop (p + length bs) content"

lemma length_file_write: "p \<le> length content \<Longrightarrow> length (file_write content p bs) = max (length content) (p + length bs)"
  by (auto simp: file_write_def)

lemma mem_write_taken:
  assumes "take (length c) b = c" "p \<le> length c" "p + length bs \<le> length b" "length c \<le> length b"
  shows "\<exists>b'. mem_write b (int p) bs = Some b' \<and> length b' = length b \<and>
    take (length (file_write c p bs)) b' = file_write c p bs"
proof -
  obtain r where b: "b = c @ r" using assms(1) by (metis append_take_drop_id)
  have "take (length (file_write c p bs)) (take p b @ bs @ drop (p + length bs) b) = file_write c p bs"
    using assms by (auto simp: b file_write_def min_def)
  then show ?thesis using assms by (simp add: mem_write_def)
qed

lemma mem_file_not_virtual: "mem_file s c p \<Longrightarrow> \<not> virtual_eof_active s"
  by (auto simp: mem_file_def virtual_eof_active_def)

section \<open>Opening and writing\<close>

lemma memfd_opened: "\<exists>s. swlib_open_memfd vir fd w = Some (s, w) \<and> mem_file s [] 0"
  by (simp add: swlib_open_memfd_def opened_null_def opened_def uxfio__change_state_def new_uxfio_def uxfio_fcntl_def
      set_bufactive_def set_buftype_def fcntl_codes buftypes mem_file_def UXFIO_NULL_FD_def UXFIO_LEN_def)

lemma file_write_end: "p + length bs \<ge> length c \<Longrightarrow> p \<le> length c \<Longrightarrow> file_write c p bs = take p c @ bs"
  by (simp add: file_write_def)

lemma grown_write:
  assumes m: "mem_file s c p" and n: "int (length bs) > right_of s + unused_of s"
  shows "\<exists>s'. fix_dynamic_buffer s (int (length bs)) bs (int (length bs) - right_of s - unused_of s) = Some s' \<and>
    mem_file s' (file_write c p bs) (p + length bs)"
proof -
  let ?new = "int (length bs) - right_of s - unused_of s"
  let ?len = "lenM s + ?new + UXFIO_ALLOC_AHEAD"
  let ?b = "c_realloc (bufM s) (nat (?len + 1))"
  have k: "posM s = int p" "endM s = int (length c)" "endM s \<le> lenM s" "int (length (bufM s)) = lenM s + 1"
    "take (length c) (bufM s) = c" "p \<le> length c" using m by (auto simp: mem_file_def)
  have l: "length ?b = nat (?len + 1)" "nat (?len + 1) > length (bufM s)"
    using k n by (auto simp: c_realloc_def UXFIO_ALLOC_AHEAD_def bufferstate)
  have tb: "take (length c) ?b = c" using k l by (simp add: c_realloc_def)
  have e: "p + length bs > length c" "p + length bs < length ?b"
    using n k l by (auto simp: bufferstate UXFIO_ALLOC_AHEAD_def)
  obtain b1 where b1: "mem_write ?b (int p) bs = Some b1" "length b1 = length ?b"
    "take (length (file_write c p bs)) b1 = file_write c p bs"
    using mem_write_taken [OF tb k(6), of bs] e by (auto simp: less_imp_le)
  have f: "length (file_write c p bs) = p + length bs" using k(6) e by (simp add: length_file_write)
  have b2: "\<exists>b2. mem_set b1 (int (p + length bs)) NUL (?len + 1 - int (p + length bs)) = Some b2 \<and> length b2 = length b1 \<and>
     take (p + length bs) b2 = take (p + length bs) b1"
    using e l b1(2) by (auto simp: mem_set_def mem_write_def)
  then obtain b2 where b2: "mem_set b1 (int (p + length bs)) NUL (?len + 1 - int (p + length bs)) = Some b2" "length b2 = length b1"
    "take (p + length bs) b2 = take (p + length bs) b1" by blast
  have c0: "?new > 0" "int p + int (length bs) > endM s" using n e k by auto
  show ?thesis
    using m k c0 b1 b2 l f e
    by (auto simp: fix_dynamic_buffer_def mem_read_def mem_file_def Let_def)
qed

lemma plain_write:
  assumes m: "mem_file s c p" and n: "\<not> int (length bs) > right_of s + unused_of s"
  shows "\<exists>s'. write_dynamic_buffer s bs = Some (s', int (length bs)) \<and> mem_file s' (file_write c p bs) (p + length bs)"
proof -
  have k: "posM s = int p" "endM s = int (length c)" "endM s \<le> lenM s" "int (length (bufM s)) = lenM s + 1"
    "take (length c) (bufM s) = c" "p \<le> length c" "write_insertM s = 0" using m by (auto simp: mem_file_def)
  have e: "p + length bs \<le> length (bufM s)" using n k by (auto simp: bufferstate)
  obtain b1 where b1: "mem_write (bufM s) (int p) bs = Some b1" "length b1 = length (bufM s)"
    "take (length (file_write c p bs)) b1 = file_write c p bs"
    using mem_write_taken [OF k(5,6) e] k by auto
  show ?thesis
    using m n k b1 by (auto simp: write_dynamic_buffer_def mem_file_def Let_def new_bytes_def passed_bytes_def length_file_write bufferstate)
qed

lemma mem_write_refines:
  assumes "mem_file s c p"
  shows "\<exists>s'. uxfio_write vir s w bs = Some (s', w, int (length bs)) \<and> mem_file s' (file_write c p bs) (p + length bs)"
proof -
  have b: "buffer_activeM s \<noteq> 0" "buffertypeM s = UXFIO_BUFTYPE_DYNAMIC_MEM" using assms by (auto simp: mem_file_def)
  have w: "\<exists>s'. write_dynamic_buffer s bs = Some (s', int (length bs)) \<and> mem_file s' (file_write c p bs) (p + length bs)"
    using grown_write [OF assms, of bs] plain_write [OF assms, of bs]
    by (cases "int (length bs) > right_of s + unused_of s") (auto simp: write_dynamic_buffer_def Let_def)
  then show ?thesis using b mem_file_not_virtual [OF assms] by (auto simp: uxfio_write_def buftypes)
qed

section \<open>Reading\<close>

lemma mem_file_saved [simp]: "mem_file (s\<lparr>offset_eof_savedM := x\<rparr>) c p = mem_file s c p"
  by (simp add: mem_file_def)

lemma enforce_veof_mem: "mem_file s c p \<Longrightarrow> enforce_veof s n = (n, False, s\<lparr>offset_eof_savedM := - 1\<rparr>)"
  using mem_file_not_virtual by (auto simp: enforce_veof_def)

lemma mem_file_read: "mem_file s c p \<Longrightarrow> p + n \<le> length c \<Longrightarrow> mem_read (bufM s) (int p) (int n) = Some (take n (drop p c))"
proof -
  assume m: "mem_file s c p" and n: "p + n \<le> length c"
  then obtain r where "bufM s = c @ r" unfolding mem_file_def by (metis append_take_drop_id)
  then show ?thesis using n by (simp add: mem_read_def)
qed

lemma mem_read_below:
  assumes m: "mem_file s c p" and p: "p < length c"
  shows "\<exists>s'. read_in_buffer vir s w (int n) = Some (s', w, Some (take n (drop p c))) \<and> mem_file s' c (min (p + n) (length c))"
proof -
  have k: "buffertypeM s = UXFIO_BUFTYPE_DYNAMIC_MEM" "posM s = int p" "endM s = int (length c)" "uxfdM s = UXFIO_NULL_FD"
    using m by (auto simp: mem_file_def)
  show ?thesis
  proof (cases "n \<ge> length c - p")
    case True
    then have t: "take n (drop p c) = drop p c" by simp
    have r: "mem_read (bufM s) (int p) (int (length c) - int p) = Some (drop p c)"
      using mem_file_read [OF m, of "length c - p"] p by (simp add: of_nat_diff)
    show ?thesis using m p k True r t
      by (auto simp: read_in_buffer_def read_from_buffer_def Let_def bufferstate buftypes passed_bytes_def new_bytes_def fix_buffer_def
          fix_mem_buffer_def mem_file_def of_nat_diff)
  next
    case False
    have r: "mem_read (bufM s) (int p) (int n) = Some (take n (drop p c))" using mem_file_read [OF m, of n] p False by simp
    show ?thesis using m p k False r
      by (auto simp: read_in_buffer_def read_from_buffer_def Let_def bufferstate buftypes passed_bytes_def new_bytes_def fix_buffer_def
          fix_mem_buffer_def mem_file_def)
  qed
qed

lemma mem_read_at_end:
  assumes m: "mem_file s c (length c)"
  shows "\<exists>s'. read_past_buffer vir s w n = Some (s', w, Some []) \<and> mem_file s' c (length c)"
  using m by (auto simp: read_past_buffer_def Let_def bufferstate buftypes passed_bytes_def new_bytes_def fix_buffer_def
          fix_mem_buffer_def mem_file_def)

text \<open>Reading is reading from the file.\<close>

lemma mem_common_read:
  assumes m: "mem_file s c p" and n: "int n < INT_LIMIT"
  shows "\<exists>s'. uxfio_common_read vir s w (int n) = Some (s', w, Some (take n (drop p c))) \<and> mem_file s' c (min (p + n) (length c))"
proof -
  let ?s = "s\<lparr>offset_eof_savedM := - 1\<rparr>"
  have m': "mem_file ?s c p" using m by simp
  have k: "buffertypeM s = UXFIO_BUFTYPE_DYNAMIC_MEM" "posM ?s = int p" "endM ?s = int (length c)" "buffer_activeM s \<noteq> 0" "p \<le> length c"
    using m by (auto simp: mem_file_def)
  have "uxfio_common_read vir s w (int n) = (if p < length c then read_in_buffer vir ?s w (int n) else read_past_buffer vir ?s w (int n))"
    using k n by (simp add: uxfio_common_read_def enforce_veof_mem [OF m] Let_def)
  then show ?thesis using mem_read_below [OF m', of vir w n] mem_read_at_end [of ?s c vir w "int n"] m' k(5)
    by (cases "p < length c") (auto simp: min_def)
qed

text \<open>The loops that read.\<close>

lemma mem_safe_read_loop:
  assumes m: "mem_file s c p" and n: "int n < INT_LIMIT" and l: "length acc \<le> n"
  shows "\<exists>s'. uxfio_common_safe_read vir s w (int n) acc = Some (s', w, Some (acc @ take (n - length acc) (drop p c))) \<and>
    mem_file s' c (min (p + (n - length acc)) (length c))"
proof (cases "length acc < n")
  case False
  then have "int n \<le> int (length acc)" by simp
  then show ?thesis using m l False by (auto simp: uxfio_common_safe_read.simps mem_file_def)
next
  case True
  let ?k = "n - length acc" and ?bs = "take (n - length acc) (drop p c)"
  obtain s1 where s1: "uxfio_common_read vir s w (int ?k) = Some (s1, w, Some ?bs)" "mem_file s1 c (min (p + ?k) (length c))"
    using mem_common_read [OF m le_less_trans [OF _ n], of ?k vir w] by auto
  have e: "uxfio_common_safe_read vir s w (int n) acc =
     (if ?bs = [] then Some (s1, w, Some acc) else uxfio_common_safe_read vir s1 w (int n) (acc @ ?bs))"
    by (subst uxfio_common_safe_read.simps) (use True s1(1) in \<open>simp add: of_nat_diff\<close>)
  show ?thesis
  proof (cases "?bs = []")
    case t: True
    then show ?thesis using e s1(2) by auto
  next
    case f: False
    show ?thesis
    proof (cases "p + ?k \<le> length c")
      case full: True
      have "int n \<le> int (length (acc @ ?bs))" using full True by simp
      then have "uxfio_common_safe_read vir s1 w (int n) (acc @ ?bs) = Some (s1, w, Some (acc @ ?bs))"
        by (subst uxfio_common_safe_read.simps) (simp del: of_nat_add length_append)
      then show ?thesis using e f s1(2) by auto
    next
      case short: False
      then have m1: "mem_file s1 c (length c)" using s1(2) by (simp add: min_def)
      have b: "?bs = drop p c" using short by simp
      have lt: "length (acc @ ?bs) < n" using short True by simp
      obtain s2 where s2: "uxfio_common_read vir s1 w (int (n - length (acc @ ?bs))) = Some (s2, w, Some [])" "mem_file s2 c (length c)"
        using mem_common_read [OF m1 le_less_trans [OF _ n], of "n - length (acc @ ?bs)" vir w] by (auto simp del: length_append)
      have "uxfio_common_safe_read vir s1 w (int n) (acc @ ?bs) = Some (s2, w, Some (acc @ ?bs))"
        by (subst uxfio_common_safe_read.simps) (use lt s2(1) in \<open>simp add: of_nat_diff del: length_append\<close>)
      then show ?thesis using e f s2(2) short by (auto simp: min_def)
    qed
  qed
qed

lemma mem_safe_read:
  assumes "mem_file s c p" "int n < INT_LIMIT"
  shows "\<exists>s'. uxfio_common_safe_read vir s w (int n) [] = Some (s', w, Some (take n (drop p c))) \<and> mem_file s' c (min (p + n) (length c))"
  using mem_safe_read_loop [OF assms, of "[]" vir w] by simp

section \<open>Seeking\<close>

text \<open>The position that a way of counting and an offset ask for.\<close>

definition target :: "char list \<Rightarrow> nat \<Rightarrow> int \<Rightarrow> int \<Rightarrow> int" where
  "target c p offset whence = (if whence = SEEK_SET then offset else if whence = SEEK_CUR then int p + offset else int (length c) + offset)"

lemma mem_file_move: "mem_file s c p \<Longrightarrow> 0 \<le> int p + k \<Longrightarrow> int p + k \<le> int (length c) \<Longrightarrow> mem_file (move_position k s) c (nat (int p + k))"
  by (auto simp: mem_file_def move_position_def passed_bytes_def)

lemma mem_lseek_plan:
  assumes m: "mem_file s c p" and w: "whence \<in> {SEEK_SET, SEEK_CUR, SEEK_END}"
  shows "lseek_offset s offset whence = (s, Inr (target c p offset whence - int p, SEEK_CUR, False))"
proof -
  have k: "buffer_activeM s \<noteq> 0" "posM s = int p" "endM s = int (length c)" using m by (auto simp: mem_file_def)
  consider "whence = SEEK_SET" | "whence = SEEK_CUR" | "whence = SEEK_END" using w by auto
  then show ?thesis using k mem_file_not_virtual [OF m]
    by cases (simp_all add: lseek_offset_def restart_virtual_def lseek_set_def lseek_end_def target_def whences)
qed

lemma mem_lseek_ladder:
  assumes m: "mem_file s c p" and w: "whence \<in> {SEEK_SET, SEEK_CUR, SEEK_END}"
  shows "uxfio_lseek vir s w' offset whence = map_option (\<lambda>(s, w, r). (s, w, case r of Inl e \<Rightarrow> e | Inr n \<Rightarrow> n))
    (lseek_ladder vir s w' (target c p offset whence - int p) SEEK_CUR offset whence)"
proof -
  have "buffer_activeM s \<noteq> 0" using m by (simp add: mem_file_def)
  then show ?thesis unfolding uxfio_lseek_def mem_lseek_plan [OF m w]
    by (cases "lseek_ladder vir s w' (target c p offset whence - int p) SEEK_CUR offset whence") (auto split: sum.splits)
qed

lemma mem_lseek_keeps:
  assumes m: "mem_file s c p" and w: "whence \<in> {SEEK_SET, SEEK_CUR, SEEK_END}"
    and t: "0 \<le> target c p offset whence" "target c p offset whence \<le> int (length c)"
  shows "\<exists>s'. uxfio_lseek vir s w' offset whence = Some (s', w', target c p offset whence) \<and>
    mem_file s' c (nat (target c p offset whence)) \<and> bufM s' = bufM s"
proof -
  let ?t = "target c p offset whence"
  have k: "posM s = int p" "endM s = int (length c)" "buffertypeM s = UXFIO_BUFTYPE_DYNAMIC_MEM" using m by (auto simp: mem_file_def)
  have s: "seek_buffer_file (move_position i s) j SEEK_CUR = Some (move_position i s, True)" for i j
    using k by (simp add: seek_buffer_file_def move_position_def passed_bytes_def buftypes)
  have mv: "mem_file (move_position (?t - int p) s) c (nat ?t)" using mem_file_move [OF m, of "?t - int p"] t by simp
  have pm: "posM (move_position (?t - int p) s) = ?t" using k by (simp add: move_position_def passed_bytes_def)
  have l: "lseek_ladder vir s w' (?t - int p) SEEK_CUR offset whence =
     (if ?t = int p then Some (s, w', Inr ?t) else Some (move_position (?t - int p) s, w', Inr ?t))"
    using k t mem_file_not_virtual [OF m] s pm
    by (auto simp: lseek_ladder_def bufferstate seek_inside_def Let_def seek_nowhere_def whences buftypes)
  show ?thesis unfolding mem_lseek_ladder [OF m w] l using mv m by (auto simp: move_position_def passed_bytes_def)
qed

lemma mem_lseek_inside:
  "mem_file s c p \<Longrightarrow> whence \<in> {SEEK_SET, SEEK_CUR, SEEK_END} \<Longrightarrow> 0 \<le> target c p offset whence \<Longrightarrow> target c p offset whence \<le> int (length c) \<Longrightarrow>
    \<exists>s'. uxfio_lseek vir s w' offset whence = Some (s', w', target c p offset whence) \<and> mem_file s' c (nat (target c p offset whence))"
  by (drule (3) mem_lseek_keeps [where vir = vir and w' = w']) auto

text \<open>A position before the start is refused.\<close>

lemma mem_lseek_before:
  assumes m: "mem_file s c p" and w: "whence \<in> {SEEK_SET, SEEK_CUR, SEEK_END}" and t: "target c p offset whence < 0"
  shows "uxfio_lseek vir s w' offset whence = Some (s, w', UXFIO_RET_EFAIL)"
proof -
  have "posM s = int p" using m by (simp add: mem_file_def)
  then have "lseek_ladder vir s w' (target c p offset whence - int p) SEEK_CUR offset whence = Some (s, w', Inl UXFIO_RET_EFAIL)"
    using t by (simp add: lseek_ladder_def bufferstate)
  then show ?thesis unfolding mem_lseek_ladder [OF m w] by simp
qed

text \<open>A position behind the end is looked for by reading, which never ends.\<close>

lemma mem_read_bytes_stuck:
  assumes "uxfio__read_bytes vir s w amount have_read = Some r"
  shows "\<forall>p. mem_file s c p \<longrightarrow> \<not> amount > int (length c) - int p"
proof (rule uxfio__read_bytes.raw_induct [where P = "\<lambda>vir s w amount have_read r. \<forall>p. mem_file s c p \<longrightarrow> \<not> amount > int (length c) - int p",
      OF _ assms])
  fix rb :: "'a vir \<Rightarrow> uxfio \<Rightarrow> 'a \<Rightarrow> int \<Rightarrow> int \<Rightarrow> (uxfio \<times> 'a \<times> int) option" and vir s w amount have_read r
  assume ih: "\<And>vir s w amount have_read r. rb vir s w amount have_read = Some r \<Longrightarrow>
      \<forall>p. mem_file s c p \<longrightarrow> \<not> amount > int (length c) - int p"
    and body: "(if amount \<noteq> 0 then
        (case uxfio_common_read vir s w (if amount > 4096 then 4096 else amount) of
           None \<Rightarrow> None
         | Some (s, w, None) \<Rightarrow> Some (s, w, - 1)
         | Some (s, w, Some bs) \<Rightarrow> rb vir s w (amount - int (length bs)) (have_read + int (length bs)))
      else Some (s, w, have_read)) = Some r"
  show "\<forall>p. mem_file s c p \<longrightarrow> \<not> amount > int (length c) - int p"
  proof (intro allI impI notI)
    fix p assume m: "mem_file s c p" and gt: "amount > int (length c) - int p"
    define n where "n = nat (if amount > 4096 then 4096 else amount)"
    have a: "amount \<noteq> 0" "(if amount > 4096 then 4096 else amount) = int n" "p \<le> length c" "int n < INT_LIMIT" "amount > 0"
      using m gt by (auto simp: mem_file_def n_def)
    obtain s1 where s1: "uxfio_common_read vir s w (int n) = Some (s1, w, Some (take n (drop p c)))"
      "mem_file s1 c (min (p + n) (length c))"
      using mem_common_read [OF m a(4), of vir w] by auto
    have "rb vir s1 w (amount - int (length (take n (drop p c)))) (have_read + int (length (take n (drop p c)))) = Some r"
      using body a(1) s1(1) unfolding a(2) by simp
    from ih [OF this] s1(2)
    have "\<not> amount - int (length (take n (drop p c))) > int (length c) - int (min (p + n) (length c))" by blast
    then show False using a(3) gt by (cases "p + n \<le> length c") (auto simp: min_def of_nat_diff split: if_splits)
  qed
qed

lemma mem_lseek_behind:
  assumes m: "mem_file s c p" and w: "whence \<in> {SEEK_SET, SEEK_CUR, SEEK_END}" and t: "target c p offset whence > int (length c)"
  shows "uxfio_lseek vir s w' offset whence = None"
proof -
  have k: "posM s = int p" "endM s = int (length c)" "v_endM s < 0" "buffer_activeM s \<noteq> 0" "p \<le> length c"
    using m by (auto simp: mem_file_def)
  have "uxfio__read_bytes vir s w' (target c p offset whence - int p) 0 = None"
    using mem_read_bytes_stuck [of vir s w' "target c p offset whence - int p" 0 _ c] m t
    by (cases "uxfio__read_bytes vir s w' (target c p offset whence - int p) 0") auto
  then have "lseek_ladder vir s w' (target c p offset whence - int p) SEEK_CUR offset whence = None"
    using k t by (auto simp: lseek_ladder_def bufferstate seek_ahead_def)
  then show ?thesis unfolding mem_lseek_ladder [OF m w] by simp
qed


section \<open>Truncating, and the memory of the file\<close>

lemma file_write_append: "p \<le> length c \<Longrightarrow> file_write (file_write c p a) (p + length a) b = file_write c p (a @ b)"
  by (simp add: file_write_def add.assoc add.commute add.left_commute)

lemma zero_fill_mem:
  "mem_file s c p \<Longrightarrow> \<exists>s'. zero_fill vir s w (int k) = Some (s', w, 0) \<and> mem_file s' (file_write c p (replicate k NUL)) (p + k)"
proof (induction k arbitrary: s c p rule: less_induct)
  case (less k)
  show ?case
  proof (cases "k = 0")
    case True
    then show ?thesis using less.prems by (subst zero_fill.simps) (auto simp: file_write_def)
  next
    case False
    define j where "j = (if k > 512 then 512 else k)"
    have j: "nat (if int k > 512 then 512 else int k) = j" "0 < j" "j \<le> k" "int k > 0" using False by (auto simp: j_def)
    obtain s1 where s1: "uxfio_write vir s w (replicate j NUL) = Some (s1, w, int j)"
      "mem_file s1 (file_write c p (replicate j NUL)) (p + j)"
      using mem_write_refines [OF less.prems, of vir w "replicate j NUL"] by auto
    have z: "zero_fill vir s w (int k) = zero_fill vir s1 w (int (k - j))"
      by (subst zero_fill.simps) (use j s1(1) in \<open>simp add: of_nat_diff\<close>)
    have "p \<le> length c" using less.prems by (simp add: mem_file_def)
    then have f: "file_write (file_write c p (replicate j NUL)) (p + j) (replicate (k - j) NUL) = file_write c p (replicate k NUL)"
      using file_write_append [of p c "replicate j NUL" "replicate (k - j) NUL"] j(3) by (simp add: replicate_add [symmetric])
    show ?thesis using less.IH [OF _ s1(2), of "k - j"] j z f by auto
  qed
qed

text \<open>A seek inside of the file, as a step of a larger operation.\<close>

lemma mem_file_pos: "mem_file s c p \<Longrightarrow> p \<le> length c"
  by (simp add: mem_file_def)

lemma target_simps [simp]:
  "target c p i SEEK_SET = i" "target c p i SEEK_CUR = int p + i" "target c p i SEEK_END = int (length c) + i"
  by (simp_all add: target_def whences)

lemma mem_seek_set:
  assumes "mem_file s c p" "q \<le> length c"
  shows "\<exists>s'. uxfio_lseek vir s w (int q) SEEK_SET = Some (s', w, int q) \<and> mem_file s' c q \<and> bufM s' = bufM s"
  using mem_lseek_keeps [OF assms(1), of SEEK_SET "int q" vir w] assms(2) by simp

lemma mem_seek_cur:
  assumes "mem_file s c p"
  shows "\<exists>s'. uxfio_lseek vir s w 0 SEEK_CUR = Some (s', w, int p) \<and> mem_file s' c p \<and> bufM s' = bufM s"
  using mem_lseek_keeps [OF assms, of SEEK_CUR 0 vir w] mem_file_pos [OF assms] by simp

lemma mem_seek_end:
  assumes "mem_file s c p"
  shows "\<exists>s'. uxfio_lseek vir s w 0 SEEK_END = Some (s', w, int (length c)) \<and> mem_file s' c (length c) \<and> bufM s' = bufM s"
  using mem_lseek_keeps [OF assms, of SEEK_END 0 vir w] by simp

lemma truncate_longer:
  assumes m: "mem_file s c p" and n: "n > length c"
  shows "\<exists>s'. truncate_dynamic vir s w (int n) = Some (s', w, 0) \<and> mem_file s' (c @ replicate (n - length c) NUL) p"
proof -
  obtain s1 where s1: "uxfio_lseek vir s w 0 SEEK_CUR = Some (s1, w, int p)" "mem_file s1 c p" using mem_seek_cur [OF m, of vir w] by auto
  obtain s2 where s2: "uxfio_lseek vir s1 w 0 SEEK_END = Some (s2, w, int (length c))" "mem_file s2 c (length c)"
    using mem_seek_end [OF s1(2), of vir w] by auto
  obtain s3 where s3: "zero_fill vir s2 w (int (n - length c)) = Some (s3, w, 0)" "mem_file s3 (c @ replicate (n - length c) NUL) (length c + (n - length c))"
    using zero_fill_mem [OF s2(2), of vir w "n - length c"] by (auto simp: file_write_def)
  have p: "p \<le> length (c @ replicate (n - length c) NUL)" using m by (simp add: mem_file_def)
  obtain s4 where s4: "uxfio_lseek vir s3 w (int p) SEEK_SET = Some (s4, w, int p)" "mem_file s4 (c @ replicate (n - length c) NUL) p"
    using mem_seek_set [OF s3(2) p, of vir w] by auto
  have e: "endM s1 = int (length c)" "endM s2 = int (length c)" using s1(2) s2(2) by (simp_all add: mem_file_def)
  show ?thesis using s1(1) s2(1) s3(1) s4 e n by (auto simp: truncate_dynamic_def seek_or_fail_def of_nat_diff)
qed

text \<open>Cutting a file off moves a position that is before the new end to it.\<close>

lemma truncate_shorter:
  assumes m: "mem_file s c p" and n: "n \<le> length c"
  shows "\<exists>s'. truncate_dynamic vir s w (int n) = Some (s', w, 0) \<and> take n (bufM s') = take n c \<and> endM s' = int n \<and>
    posM s' = int (max p n) \<and> (p \<le> n \<longrightarrow> mem_file s' (take n c) n)"
proof -
  let ?c = "file_write c n (replicate (length c - n) NUL)"
  have c: "?c = take n c @ replicate (length c - n) NUL" "length ?c = length c" using n by (simp_all add: file_write_def)
  obtain s1 where s1: "uxfio_lseek vir s w 0 SEEK_CUR = Some (s1, w, int p)" "mem_file s1 c p" using mem_seek_cur [OF m, of vir w] by auto
  obtain s2 where s2: "uxfio_lseek vir s1 w (int n) SEEK_SET = Some (s2, w, int n)" "mem_file s2 c n"
    using mem_seek_set [OF s1(2) n, of vir w] by auto
  obtain s3 where s3: "zero_fill vir s2 w (int (length c - n)) = Some (s3, w, 0)" "mem_file s3 ?c (length c)"
    using zero_fill_mem [OF s2(2), of vir w "length c - n"] n by auto
  have p: "p \<le> length ?c" using m c(2) by (simp add: mem_file_def)
  obtain s4 where s4: "uxfio_lseek vir s3 w (int p) SEEK_SET = Some (s4, w, int p)" "mem_file s4 ?c p"
    using mem_seek_set [OF s3(2) p, of vir w] by auto
  have e: "endM s1 = int (length c)" "posM s4 = int p" using s1(2) s4(2) by (simp_all add: mem_file_def)
  have cut: "take n (bufM s') = take n c \<and> (q \<le> n \<longrightarrow> mem_file (s'\<lparr>endM := int n\<rparr>) (take n c) q)" if "mem_file s' ?c q" for s' q
  proof -
    have "take (length c) (bufM s') = ?c" using that c(2) by (simp add: mem_file_def)
    then have "take n (take (length c) (bufM s')) = take n ?c" by simp
    then have "take n (bufM s') = take n c" using n c(1) by (simp add: min_def)
    then show ?thesis using that n c(2) by (auto simp: mem_file_def min_def)
  qed
  show ?thesis
  proof (cases "n > p")
    case True
    obtain s5 where s5: "uxfio_lseek vir s4 w (int n) SEEK_SET = Some (s5, w, int n)" "mem_file s5 ?c n"
      using mem_seek_set [OF s4(2), of n vir w] n c(2) by auto
    have "posM s5 = int n" using s5(2) by (simp add: mem_file_def)
    then show ?thesis using s1(1) s2(1) s3(1) s4(1) s5(1) e n True cut [OF s5(2)]
      by (auto simp: truncate_dynamic_def seek_or_fail_def of_nat_diff max_def)
  next
    case False
    then show ?thesis using s1(1) s2(1) s3(1) s4(1) e n cut [OF s4(2)]
      by (auto simp: truncate_dynamic_def seek_or_fail_def of_nat_diff max_def)
  qed
qed

lemma mem_write_NUL:
  assumes "length c < length b" "take (length c) b = c" "length c \<le> i" "i < length b"
  shows "\<exists>b'. mem_write b (int i) [NUL] = Some b' \<and> length b' = length b \<and> take (length c) b' = c \<and> b' ! i = NUL"
  using assms by (auto simp: mem_write_def nth_append)

lemma mem_dynamic_buffer:
  assumes m: "mem_file s c p"
  shows "\<exists>s' b. uxfio_get_dynamic_buffer vir s w = Some (s', w, Some (b, int (length c), int (length c))) \<and>
    take (length c + 1) b = c @ [NUL] \<and> mem_file s' c p"
proof -
  have k: "buffertypeM s = UXFIO_BUFTYPE_DYNAMIC_MEM" "endM s = int (length c)" "endM s \<le> lenM s" "int (length (bufM s)) = lenM s + 1"
    "take (length c) (bufM s) = c" using m by (auto simp: mem_file_def)
  have l: "length c < length (bufM s)" "length c \<le> nat (lenM s)" "nat (lenM s) < length (bufM s)" "int (nat (lenM s)) = lenM s"
    using k by auto
  obtain b1 where b1: "mem_write (bufM s) (lenM s) [NUL] = Some b1" "length b1 = length (bufM s)" "take (length c) b1 = c"
    using mem_write_NUL [OF l(1) k(5) l(2,3)] l(4) by auto
  obtain b2 where b2: "mem_write b1 (int (length c)) [NUL] = Some b2" "length b2 = length b1" "take (length c) b2 = c" "b2 ! length c = NUL"
    using mem_write_NUL [of c b1 "length c"] b1 l(1) by auto
  have m1: "mem_file (s\<lparr>bufM := b2\<rparr>) c p" using m b1(2) b2(2,3) by (simp add: mem_file_def)
  have t: "take (length c + 1) b2 = c @ [NUL]" using b1(2) b2(2-4) l(1) by (simp add: take_Suc_conv_app_nth)
  obtain s1 where s1: "uxfio_lseek vir (s\<lparr>bufM := b2\<rparr>) w 0 SEEK_CUR = Some (s1, w, int p)" "mem_file s1 c p" "bufM s1 = b2"
    using mem_seek_cur [OF m1, of vir w] by auto
  obtain s2 where s2: "uxfio_lseek vir s1 w 0 SEEK_END = Some (s2, w, int (length c))" "mem_file s2 c (length c)" "bufM s2 = b2"
    using mem_seek_end [OF s1(2), of vir w] s1(3) by auto
  obtain s3 where s3: "uxfio_lseek vir s2 w 0 SEEK_CUR = Some (s3, w, int (length c))" "mem_file s3 c (length c)" "bufM s3 = b2"
    using mem_seek_cur [OF s2(2), of vir w] s2(3) by auto
  obtain s4 where s4: "uxfio_lseek vir s3 w (int p) SEEK_SET = Some (s4, w, int p)" "mem_file s4 c p" "bufM s4 = b2"
    using mem_seek_set [OF s3(2) mem_file_pos [OF m], of vir w] s3(3) by auto
  have e: "endM s4 = int (length c)" using s4(2) by (simp add: mem_file_def)
  show ?thesis using k(1,2) b1(1) b2(1) s1(1) s2(1) s3(1) s4 t e by (auto simp: uxfio_get_dynamic_buffer_def)
qed


section \<open>Sequences of operations\<close>

datatype mem_op = Write_op "char list" | Read_op nat | Seek_op int int
datatype mem_answer = Bytes_read "char list" | Number int

text \<open>The operations on the object, and what they are on the file. A position behind the end is not asked for, and not more bytes than an
  \<open>int\<close> holds.\<close>

fun mem_step :: "'w vir \<Rightarrow> mem_op \<Rightarrow> uxfio \<times> 'w \<Rightarrow> ((uxfio \<times> 'w) \<times> mem_answer) option" where
  "mem_step vir (Write_op bs) (s, w) = map_option (\<lambda>(s, w, n). ((s, w), Number n)) (uxfio_write vir s w bs)"
| "mem_step vir (Read_op n) (s, w) = (case uxfio_common_safe_read vir s w (int n) [] of
     Some (s, w, Some bs) \<Rightarrow> Some ((s, w), Bytes_read bs) | _ \<Rightarrow> None)"
| "mem_step vir (Seek_op offset whence) (s, w) = map_option (\<lambda>(s, w, n). ((s, w), Number n)) (uxfio_lseek vir s w offset whence)"

fun file_step :: "mem_op \<Rightarrow> char list \<times> nat \<Rightarrow> ((char list \<times> nat) \<times> mem_answer) option" where
  "file_step (Write_op bs) (c, p) = Some ((file_write c p bs, p + length bs), Number (int (length bs)))"
| "file_step (Read_op n) (c, p) =
     (if int n < INT_LIMIT then Some ((c, min (p + n) (length c)), Bytes_read (take n (drop p c))) else None)"
| "file_step (Seek_op offset whence) (c, p) =
     (let t = target c p offset whence
      in if whence \<notin> {SEEK_SET, SEEK_CUR, SEEK_END} \<or> t > int (length c) then None
         else if t < 0 then Some ((c, p), Number UXFIO_RET_EFAIL) else Some ((c, nat t), Number t))"

fun run :: "('op \<Rightarrow> 's \<Rightarrow> ('s \<times> 'a) option) \<Rightarrow> 'op list \<Rightarrow> 's \<Rightarrow> ('s \<times> 'a list) option" where
  "run step [] st = Some (st, [])"
| "run step (x # xs) st = do {
     (st, a) \<leftarrow> step x st;
     (st, as) \<leftarrow> run step xs st;
     Some (st, a # as) }"

lemma mem_step_refines:
  assumes "mem_file s c p" "file_step x (c, p) = Some ((c', p'), a)"
  shows "\<exists>s'. mem_step vir x (s, w) = Some ((s', w), a) \<and> mem_file s' c' p'"
proof (cases x)
  case (Write_op bs)
  then show ?thesis using mem_write_refines [OF assms(1), of vir w bs] assms(2) by auto
next
  case (Read_op n)
  then show ?thesis using mem_safe_read [OF assms(1), of n vir w] assms(2) by (auto split: if_splits)
next
  case (Seek_op offset whence)
  then show ?thesis using mem_lseek_inside [OF assms(1), of whence offset vir w] mem_lseek_before [OF assms(1), of whence offset vir w] assms
    by (auto simp: Let_def split: if_splits)
qed

lemma mem_run_refines:
  "mem_file s c p \<Longrightarrow> run file_step xs (c, p) = Some ((c', p'), as) \<Longrightarrow>
   \<exists>s'. run (mem_step vir) xs (s, w) = Some ((s', w), as) \<and> mem_file s' c' p'"
proof (induction xs arbitrary: s c p as)
  case Nil
  then show ?case by auto
next
  case (Cons x xs)
  obtain c1 p1 a as1 where f: "file_step x (c, p) = Some ((c1, p1), a)" "run file_step xs (c1, p1) = Some ((c', p'), as1)" "as = a # as1"
    using Cons.prems(2) by (auto simp: bind_iff)
  obtain s1 where s1: "mem_step vir x (s, w) = Some ((s1, w), a)" "mem_file s1 c1 p1"
    using mem_step_refines [OF Cons.prems(1) f(1), of vir w] by blast
  obtain s2 where "run (mem_step vir) xs (s1, w) = Some ((s2, w), as1)" "mem_file s2 c' p'"
    using Cons.IH [OF s1(2) f(2)] by blast
  then show ?case using s1(1) f(3) by auto
qed








end
