(* ===== verification/UxfioStream.thy ===== *)
theory UxfioStream
  imports Uxfio
begin

text \<open>
  Objects in front of a descriptor that delivers bytes. The locale \<open>byte_source\<close> states what a reader needs of a function that
  reads; the system's descriptors meet it (\<open>atomicio.c\<close>, \<open>safeio\<close>), and so does an object, buffered or not, in
  front of anything that meets it, so that objects can be stacked. With it, \<open>uxfio_sfa_read\<close> is the function
  of the theory \<open>Tape\<close>, and bytes in the buffer can be read again.
\<close>

section \<open>Sources of bytes\<close>

text \<open>\<open>rest w\<close> are the bytes that follow, \<open>ok w\<close> is what must hold of the state. A read may give fewer bytes than it was asked
  for, but none only when none follow.\<close>

locale byte_source =
  fixes rd :: "'w \<Rightarrow> int \<Rightarrow> char list option \<times> 'w"
    and rest :: "'w \<Rightarrow> char list"
    and ok :: "'w \<Rightarrow> bool"
  assumes rd_some: "ok w \<Longrightarrow> 0 \<le> n \<Longrightarrow> n < INT_LIMIT \<Longrightarrow>
      \<exists>bs w'. rd w n = (Some bs, w') \<and> ok w' \<and> rest w = bs @ rest w' \<and> int (length bs) \<le> n \<and> (n > 0 \<and> rest w \<noteq> [] \<longrightarrow> bs \<noteq> [])"

section \<open>The buffer\<close>

text \<open>An object that can be read: no virtual end, and a buffer in memory when it has one. \<open>st\<close> tells whether the
  descriptor below may be an object.\<close>

definition buffer_ok :: "uxfio \<Rightarrow> bool" where
  "buffer_ok s \<longleftrightarrow> (buffertypeM s = UXFIO_BUFTYPE_MEM \<or> buffertypeM s = UXFIO_BUFTYPE_DYNAMIC_MEM) \<and>
     0 \<le> posM s \<and> posM s \<le> endM s \<and> endM s \<le> lenM s \<and> int (length (bufM s)) = lenM s + 1"

definition object_ok :: "bool \<Rightarrow> uxfio \<Rightarrow> bool" where
  "object_ok st s \<longleftrightarrow> offset_eofM s < 0 \<and> v_endM s < 0 \<and> uxfdM s \<noteq> UXFIO_NULL_FD \<and> (buffer_activeM s \<noteq> 0 \<longrightarrow> buffer_ok s) \<and>
     (uxfio_stateM s \<noteq> 0 \<longrightarrow> st)"

text \<open>The bytes of the buffer before the position and behind it.\<close>

definition behind :: "uxfio \<Rightarrow> char list" where "behind s = take (nat (posM s)) (bufM s)"
definition ahead :: "uxfio \<Rightarrow> char list" where "ahead s = drop (nat (posM s)) (take (nat (endM s)) (bufM s))"

text \<open>The block is the bytes behind the position, those ahead, and the free space with one byte more than the length tells.\<close>

lemma buffer_okE:
  assumes "buffer_ok s"
  obtains r where "bufM s = behind s @ ahead s @ r" "posM s = int (length (behind s))" "endM s = int (length (behind s) + length (ahead s))"
    "lenM s + 1 = int (length (behind s) + length (ahead s) + length r)" "r \<noteq> []"
proof -
  let ?p = "nat (posM s)" and ?e = "nat (endM s)"
  have b: "0 \<le> posM s" "posM s \<le> endM s" "endM s \<le> lenM s" "int (length (bufM s)) = lenM s + 1" using assms by (auto simp: buffer_ok_def)
  have t: "take ?p (take ?e (bufM s)) = take ?p (bufM s)" using b by (simp add: min_def)
  have e: "take ?e (bufM s) = behind s @ ahead s"
    unfolding behind_def ahead_def t [symmetric] by (rule append_take_drop_id [symmetric])
  have s: "bufM s = behind s @ ahead s @ drop ?e (bufM s)" using append_take_drop_id [of ?e "bufM s"] e by simp
  show thesis
    by (rule that [OF s]) (use b in \<open>auto simp: behind_def ahead_def min_def\<close>)
qed

lemma buffer_okI:
  assumes "bufM s = b @ a @ r" "posM s = int (length b)" "endM s = int (length b + length a)" "lenM s + 1 = int (length b + length a + length r)" "r \<noteq> []"
    "buffertypeM s = UXFIO_BUFTYPE_MEM \<or> buffertypeM s = UXFIO_BUFTYPE_DYNAMIC_MEM"
  shows "buffer_ok s \<and> behind s = b \<and> ahead s = a"
proof -
  have "endM s \<le> lenM s" using assms(3-5) by (cases r) auto
  then show ?thesis using assms by (auto simp: buffer_ok_def behind_def ahead_def)
qed

text \<open>What reading leaves alone.\<close>

definition same_source :: "uxfio \<Rightarrow> uxfio \<Rightarrow> bool" where
  "same_source s s' \<longleftrightarrow> offset_eofM s' = offset_eofM s \<and> v_endM s' = v_endM s \<and> uxfdM s' = uxfdM s \<and> uxfio_stateM s' = uxfio_stateM s \<and>
     buffertypeM s' = buffertypeM s \<and> buffer_activeM s' = buffer_activeM s \<and> auto_disableM s' = auto_disableM s"

text \<open>The buffer after new bytes \<open>ms\<close> behind those that were ahead: its bytes are the last ones of all that passed, and it keeps as many
  as it has room for.\<close>

definition kept_after :: "uxfio \<Rightarrow> char list \<Rightarrow> uxfio \<Rightarrow> bool" where
  "kept_after s ms s' \<longleftrightarrow> buffer_ok s' \<and> ahead s' = [] \<and> (\<exists>x. behind s @ ahead s @ ms = x @ behind s') \<and>
     posM s' \<ge> min (lenM s) (endM s + int (length ms)) \<and> lenM s' \<ge> lenM s \<and> same_source s s'"

lemma kept_afterI:
  "buffer_ok s' \<and> behind s' = b \<and> ahead s' = [] \<Longrightarrow> behind s @ ahead s @ ms = x @ b \<Longrightarrow>
   posM s' \<ge> min (lenM s) (endM s + int (length ms)) \<Longrightarrow> lenM s' \<ge> lenM s \<Longrightarrow> same_source s s' \<Longrightarrow> kept_after s ms s'"
  by (auto simp: kept_after_def)

lemma mem_write_split: "mem_write (b @ a @ r) (int (length b)) bs = (if length bs \<le> length a + length r then Some (b @ bs @ drop (length bs) (a @ r)) else None)"
  by (auto simp: mem_write_def)

lemma mem_read_nat: "off = int i \<Longrightarrow> n = int k \<Longrightarrow> i + k \<le> length b \<Longrightarrow> mem_read b off n = Some (take k (drop i b))"
  by (simp add: mem_read_def)

lemma mem_read_all [simp]: "mem_read b 0 (int (length b)) = Some b"
  by (simp add: mem_read_def)

lemma mem_write_0: "length bs \<le> length b \<Longrightarrow> mem_write b 0 bs = Some (bs @ drop (length bs) b)"
  by (simp add: mem_write_def)

lemma mem_read_last: "n = int k \<Longrightarrow> k \<le> length b \<Longrightarrow> mem_read b (int (length b) - n) n = Some (drop (length b - k) b)"
  using mem_read_nat [of "int (length b) - n" "length b - k" n k b] by (simp add: of_nat_diff)

lemma drop_one: "length b = n + 1 \<Longrightarrow> \<exists>z. drop n b = [z]"
  using length_drop [of n b] by (cases "drop n b") auto

lemma dynamic_grows:
  assumes b: "buffer_ok s" and m: "ms \<noteq> []" and d: "buffertypeM s = UXFIO_BUFTYPE_DYNAMIC_MEM"
  shows "\<exists>s'. fix_dynamic_buffer s (right_of s + int (length ms)) (ahead s @ ms) (int (length ms)) = Some s' \<and> kept_after s ms s'"
proof -
  obtain r where r: "bufM s = behind s @ ahead s @ r" "posM s = int (length (behind s))" "endM s = int (length (behind s) + length (ahead s))"
    "lenM s + 1 = int (length (behind s) + length (ahead s) + length r)" "r \<noteq> []" using buffer_okE [OF b] .
  let ?data = "ahead s @ ms" and ?len = "lenM s + int (length ms) + UXFIO_ALLOC_AHEAD"
  let ?free = "r @ replicate (length ms + 20480) uninit"
  have c: "c_realloc (bufM s) (nat (?len + 1)) = behind s @ ahead s @ ?free"
    using r(1,4) by (simp add: c_realloc_def UXFIO_ALLOC_AHEAD_def nat_add_distrib)
  have w: "mem_write (behind s @ ahead s @ ?free) (posM s) ?data = Some (behind s @ ?data @ drop (length ms) ?free)"
    unfolding r(2) mem_write_split by simp
  have n: "nat (?len + 1 - int (length (behind s @ ?data))) = length (drop (length ms) ?free)"
    using r(4) by (simp add: UXFIO_ALLOC_AHEAD_def)
  have z: "mem_set (behind s @ ?data @ drop (length ms) ?free) (int (length (behind s @ ?data))) NUL (?len + 1 - int (length (behind s @ ?data))) =
      Some (behind s @ ?data @ replicate (length (drop (length ms) ?free)) NUL)"
    using r(4) mem_write_split [of "behind s @ ?data" "drop (length ms) ?free" "[]" "replicate (length (drop (length ms) ?free)) NUL"]
    unfolding mem_set_def n by (simp add: UXFIO_ALLOC_AHEAD_def)
  let ?s = "s\<lparr>lenM := ?len, posM := int (length (behind s @ ?data)), endM := int (length (behind s @ ?data)), startM := 0,
    bufM := behind s @ ?data @ replicate (length (drop (length ms) ?free)) NUL\<rparr>"
  have f: "fix_dynamic_buffer s (right_of s + int (length ms)) ?data (int (length ms)) = Some ?s"
    using m r(2,3) c w z by (simp add: fix_dynamic_buffer_def mem_read_def bufferstate Let_def add_ac)
  have "buffer_ok ?s \<and> behind ?s = behind s @ ?data \<and> ahead ?s = []"
    by (rule buffer_okI [where r = "replicate (length (drop (length ms) ?free)) NUL"])
      (use r(4) d in \<open>auto simp: UXFIO_ALLOC_AHEAD_def\<close>)
  then have "kept_after s ms ?s" using r(3) by (auto simp: kept_after_def same_source_def UXFIO_ALLOC_AHEAD_def)
  then show ?thesis using f by blast
qed

text \<open>A buffer of fixed length: it is replaced, shifted, or filled up.\<close>

lemma mem_replaced:
  assumes b: "buffer_ok s" and d: "buffertypeM s = UXFIO_BUFTYPE_MEM" and l: "int (length (ahead s @ ms)) \<ge> lenM s" and m: "ms \<noteq> []"
  shows "\<exists>s'. fix_mem_buffer s (right_of s + int (length ms)) (ahead s @ ms) (int (length ms)) = Some (s', 0) \<and> kept_after s ms s'"
proof -
  obtain r where r: "bufM s = behind s @ ahead s @ r" "posM s = int (length (behind s))" "endM s = int (length (behind s) + length (ahead s))"
    "lenM s + 1 = int (length (behind s) + length (ahead s) + length r)" "r \<noteq> []" using buffer_okE [OF b] .
  let ?p = "ahead s @ ms" and ?n = "nat (lenM s)"
  have len: "lenM s = int ?n" "length (bufM s) = ?n + 1" using r(1,4,5) by (auto simp: neq_Nil_conv)
  define end_part where "end_part = drop (length ?p - ?n) ?p"
  have ll: "length end_part = ?n" using l len by (simp add: end_part_def)
  have rd: "mem_read ?p (int (length ?p) - lenM s) (lenM s) = Some end_part"
    unfolding end_part_def by (rule mem_read_last) (use l len(1) in auto)
  obtain z where z: "drop ?n (bufM s) = [z]" using drop_one [OF len(2)] by blast
  have "length end_part \<le> length (bufM s)" unfolding ll len(2) by simp
  then have w: "mem_write (bufM s) 0 end_part = Some (end_part @ [z])" by (subst mem_write_0) (simp_all only: ll z)
  let ?s = "s\<lparr>bufM := end_part @ [z], posM := lenM s, virtual_offsetM := lenM s, endM := lenM s, startM := 0\<rparr>"
  have f: "fix_mem_buffer s (right_of s + int (length ms)) ?p (int (length ms)) = Some (?s, 0)"
    using m r(2,3) l rd w d by (simp add: fix_mem_buffer_def bufferstate Let_def buftypes)
  have "buffer_ok ?s \<and> behind ?s = end_part \<and> ahead ?s = []"
    by (rule buffer_okI [where r = "[z]"]) (use ll len d in auto)
  then have "kept_after s ms ?s"
    by (rule kept_afterI [where x = "behind s @ take (length ?p - ?n) ?p"])
      (simp only: end_part_def append.assoc append_take_drop_id, simp_all add: same_source_def)
  then show ?thesis using f by blast
qed

lemma mem_shifted:
  assumes b: "buffer_ok s" and d: "buffertypeM s = UXFIO_BUFTYPE_MEM" and l: "int (length (ahead s @ ms)) < lenM s"
    and u: "int (length (ahead s @ ms)) > right_of s + unused_of s" and m: "ms \<noteq> []"
  shows "\<exists>s'. fix_mem_buffer s (right_of s + int (length ms)) (ahead s @ ms) (int (length ms)) = Some (s', 0) \<and> kept_after s ms s'"
proof -
  obtain r where r: "bufM s = behind s @ ahead s @ r" "posM s = int (length (behind s))" "endM s = int (length (behind s) + length (ahead s))"
    "lenM s + 1 = int (length (behind s) + length (ahead s) + length r)" "r \<noteq> []" using buffer_okE [OF b] .
  let ?p = "ahead s @ ms" and ?n = "nat (lenM s)"
  let ?k = "?n - length ?p" and ?i = "length (behind s) - (?n - length ?p)"
  have len: "lenM s = int ?n" "length (bufM s) = ?n + 1" "length ?p < ?n" "?k \<le> length (behind s)"
    using r l u by (auto simp: neq_Nil_conv bufferstate)
  let ?kept = "drop ?i (behind s) @ ahead s"
  have k1: "mem_read (bufM s) (int (length ?p) - unused_of s - right_of s) (lenM s - int (length ?p) + right_of s) = Some ?kept"
  proof -
    have "int (length ?p) - unused_of s - right_of s = int ?i" "lenM s - int (length ?p) + right_of s = int (?k + length (ahead s))"
      using r(2-4) len by (auto simp: bufferstate)
    then have "mem_read (bufM s) (int (length ?p) - unused_of s - right_of s) (lenM s - int (length ?p) + right_of s) =
        Some (take (?k + length (ahead s)) (drop ?i (bufM s)))"
      by (rule mem_read_nat) (use len(4) r(1) in simp)
    then show ?thesis using len(4) by (simp add: r(1))
  qed
  have i: "?i + ?k = length (behind s)" using len(4) by simp
  have kl: "length (drop ?i (behind s)) = ?k" using len(4) by simp
  have k2: "?k + length (ahead s) \<le> length (bufM s)" using len by simp
  define t where "t = ahead s @ drop (?k + length (ahead s)) (bufM s)"
  have "mem_write (bufM s) 0 ?kept = Some (?kept @ drop (length ?kept) (bufM s))" by (rule mem_write_0) (use kl k2 in simp)
  moreover have "length ?kept = ?k + length (ahead s)" using kl by simp
  ultimately have t: "mem_write (bufM s) 0 ?kept = Some (drop ?i (behind s) @ t)" "length t = length ?p + 1"
    using len by (simp_all only: t_def append.assoc) simp
  have lk: "lenM s - int (length ?p) = int (length (drop ?i (behind s)))" using kl len by simp
  obtain z where z: "drop (length ?p) t = [z]" using drop_one [OF t(2)] by blast
  have w: "mem_write (drop ?i (behind s) @ t) (lenM s - int (length ?p)) ?p = Some (drop ?i (behind s) @ ?p @ [z])"
    unfolding lk using mem_write_split [of "drop ?i (behind s)" t "[]" ?p] t(2) z by simp
  let ?s = "s\<lparr>bufM := drop ?i (behind s) @ ?p @ [z], posM := lenM s, virtual_offsetM := lenM s, endM := lenM s, startM := 0\<rparr>"
  have tot: "right_of s + int (length ms) = int (length ?p)" using r(2,3) by (simp add: bufferstate)
  have f: "fix_mem_buffer s (right_of s + int (length ms)) ?p (int (length ms)) = Some (?s, 0)"
    unfolding tot using m u l k1 t(1) w d by (simp add: fix_mem_buffer_def Let_def buftypes del: length_append)
  have "buffer_ok ?s \<and> behind ?s = drop ?i (behind s) @ ?p \<and> ahead ?s = []"
    by (rule buffer_okI [where r = "[z]"]) (use kl len d in auto)
  then have "kept_after s ms ?s"
  proof (rule kept_afterI [where x = "take ?i (behind s)"])
    show "behind s @ ?p = take ?i (behind s) @ drop ?i (behind s) @ ?p" by (metis append.assoc append_take_drop_id)
  qed (simp_all add: same_source_def)
  then show ?thesis using f by blast
qed

lemma mem_filled:
  assumes b: "buffer_ok s" and l: "int (length (ahead s @ ms)) < lenM s"
    and u: "int (length (ahead s @ ms)) \<le> right_of s + unused_of s" and m: "ms \<noteq> []"
  shows "\<exists>s'. fix_mem_buffer s (right_of s + int (length ms)) (ahead s @ ms) (int (length ms)) = Some (s', 0) \<and> kept_after s ms s'"
proof -
  obtain r where r: "bufM s = behind s @ ahead s @ r" "posM s = int (length (behind s))" "endM s = int (length (behind s) + length (ahead s))"
    "lenM s + 1 = int (length (behind s) + length (ahead s) + length r)" "r \<noteq> []" using buffer_okE [OF b] .
  let ?p = "ahead s @ ms"
  have lm: "length ms < length r" using u r(2-5) by (simp add: bufferstate)
  have w: "mem_write (bufM s) (posM s) ?p = Some (behind s @ ?p @ drop (length ms) r)"
    unfolding r(1,2) mem_write_split using lm by simp
  let ?s = "s\<lparr>bufM := behind s @ ?p @ drop (length ms) r, posM := posM s + int (length ?p), virtual_offsetM := virtual_offsetM s + int (length ?p),
     endM := posM s + int (length ?p), startM := 0\<rparr>"
  have tot: "right_of s + int (length ms) = int (length ?p)" using r(2,3) by (simp add: bufferstate)
  have gt: "int (length ?p) > right_of s" using m r(2,3) by (simp add: bufferstate)
  have f: "fix_mem_buffer s (right_of s + int (length ms)) ?p (int (length ms)) = Some (?s, 0)"
    unfolding tot using m u l w gt by (simp add: fix_mem_buffer_def Let_def del: length_append)
  have "buffer_ok ?s \<and> behind ?s = behind s @ ?p \<and> ahead ?s = []"
    by (rule buffer_okI [where r = "drop (length ms) r"]) (use lm r b in \<open>auto simp: buffer_ok_def\<close>)
  then have "kept_after s ms ?s" using r(2,3) by (auto simp: kept_after_def same_source_def)
  then show ?thesis using f by blast
qed

lemma fix_buffer_new:
  assumes b: "buffer_ok s" and m: "ms \<noteq> []"
  shows "\<exists>s'. fix_buffer s (right_of s + int (length ms)) (ahead s @ ms) (int (length ms)) = Some (s', 0) \<and> kept_after s ms s'"
proof -
  have t: "buffertypeM s \<noteq> UXFIO_BUFTYPE_FILE" using b by (auto simp: buffer_ok_def buftypes)
  have r: "right_of s = int (length (ahead s))" using buffer_okE [OF b] by (metis bufferstate(2) add_diff_cancel_left' of_nat_add)
  consider "int (length (ahead s @ ms)) < lenM s" "int (length (ahead s @ ms)) \<le> right_of s + unused_of s" |
    "int (length (ahead s @ ms)) \<ge> lenM s \<or> int (length (ahead s @ ms)) > right_of s + unused_of s" by linarith
  then show ?thesis
  proof cases
    case 1
    then show ?thesis using mem_filled [OF b 1 m] t by (simp add: fix_buffer_def)
  next
    case 2
    show ?thesis
    proof (cases "buffertypeM s = UXFIO_BUFTYPE_DYNAMIC_MEM")
      case True
      then show ?thesis using dynamic_grows [OF b m True] 2 r m t by (auto simp: fix_buffer_def fix_mem_buffer_def Let_def)
    next
      case False
      then have d: "buffertypeM s = UXFIO_BUFTYPE_MEM" using b by (auto simp: buffer_ok_def)
      show ?thesis using mem_replaced [OF b d _ m] mem_shifted [OF b d _ _ m] 2 t
        by (cases "int (length (ahead s @ ms)) < lenM s") (auto simp: fix_buffer_def)
    qed
  qed
qed

section \<open>Reading\<close>

lemma counters_buffer [simp]:
  "buffer_ok (s\<lparr>current_offsetM := i, virtual_offsetM := j\<rparr>) = buffer_ok s" "buffer_ok (s\<lparr>bytesreadM := k\<rparr>) = buffer_ok s"
  "buffer_ok (s\<lparr>offset_eof_savedM := i\<rparr>) = buffer_ok s" "buffer_ok (s\<lparr>auto_disableM := i\<rparr>) = buffer_ok s" "buffer_ok (s\<lparr>buffer_activeM := i\<rparr>) = buffer_ok s"
  "behind (s\<lparr>current_offsetM := i, virtual_offsetM := j\<rparr>) = behind s" "behind (s\<lparr>bytesreadM := k\<rparr>) = behind s"
  "behind (s\<lparr>offset_eof_savedM := i\<rparr>) = behind s" "behind (s\<lparr>auto_disableM := i\<rparr>) = behind s" "behind (s\<lparr>buffer_activeM := i\<rparr>) = behind s"
  "ahead (s\<lparr>current_offsetM := i, virtual_offsetM := j\<rparr>) = ahead s" "ahead (s\<lparr>bytesreadM := k\<rparr>) = ahead s"
  "ahead (s\<lparr>offset_eof_savedM := i\<rparr>) = ahead s" "ahead (s\<lparr>auto_disableM := i\<rparr>) = ahead s" "ahead (s\<lparr>buffer_activeM := i\<rparr>) = ahead s"
  by (simp_all add: buffer_ok_def behind_def ahead_def)

text \<open>What a read of \<open>bs\<close> does to an active buffer: the bytes behind the position are the last ones that passed, as many as there is room for.\<close>

definition passed :: "uxfio \<Rightarrow> char list \<Rightarrow> uxfio \<Rightarrow> bool" where
  "passed s bs s' \<longleftrightarrow> (\<exists>x. behind s @ bs = x @ behind s') \<and> posM s' \<ge> min (lenM s) (posM s + int (length bs)) \<and> lenM s' \<ge> lenM s \<and>
     (auto_disableM s = 0 \<longrightarrow> auto_disableM s' = 0 \<and> buffer_activeM s' \<noteq> 0)"

lemma advance_inside:
  assumes b: "buffer_ok s" and n: "n \<le> length (ahead s)"
  shows "fix_buffer s (int n) p 0 = Some (s\<lparr>posM := posM s + int n\<rparr>, 0) \<and> buffer_ok (s\<lparr>posM := posM s + int n\<rparr>) \<and>
    behind (s\<lparr>posM := posM s + int n\<rparr>) = behind s @ take n (ahead s) \<and> ahead (s\<lparr>posM := posM s + int n\<rparr>) = drop n (ahead s)"
proof -
  obtain r where r: "bufM s = behind s @ ahead s @ r" "posM s = int (length (behind s))" "endM s = int (length (behind s) + length (ahead s))"
    "lenM s + 1 = int (length (behind s) + length (ahead s) + length r)" "r \<noteq> []" using buffer_okE [OF b] .
  have t: "buffertypeM s \<noteq> UXFIO_BUFTYPE_FILE" "buffertypeM s = UXFIO_BUFTYPE_MEM \<or> buffertypeM s = UXFIO_BUFTYPE_DYNAMIC_MEM"
    using b by (auto simp: buffer_ok_def buftypes)
  have "buffer_ok (s\<lparr>posM := posM s + int n\<rparr>) \<and> behind (s\<lparr>posM := posM s + int n\<rparr>) = behind s @ take n (ahead s) \<and>
     ahead (s\<lparr>posM := posM s + int n\<rparr>) = drop n (ahead s)"
    by (rule buffer_okI [where r = r]) (use r n t(2) in auto)
  then show ?thesis using t by (simp add: fix_buffer_def fix_mem_buffer_def Let_def)
qed

lemma counters_simps [simp]:
  "buffer_ok (passed_bytes n s) = buffer_ok s" "behind (passed_bytes n s) = behind s" "ahead (passed_bytes n s) = ahead s"
  "buffer_ok (new_bytes n s) = buffer_ok s" "behind (new_bytes n s) = behind s" "ahead (new_bytes n s) = ahead s"
  "right_of (passed_bytes n s) = right_of s" "right_of (new_bytes n s) = right_of s"
  by (simp_all add: passed_bytes_def new_bytes_def bufferstate)

lemma counters_fields [simp]:
  "posM (new_bytes n s) = posM s" "endM (new_bytes n s) = endM s" "lenM (new_bytes n s) = lenM s" "uxfdM (new_bytes n s) = uxfdM s"
  "buffer_activeM (new_bytes n s) = buffer_activeM s" "auto_disableM (new_bytes n s) = auto_disableM s"
  "offset_eofM (new_bytes n s) = offset_eofM s" "v_endM (new_bytes n s) = v_endM s" "uxfio_stateM (new_bytes n s) = uxfio_stateM s"
  "buffertypeM (new_bytes n s) = buffertypeM s"
  "posM (passed_bytes n s) = posM s" "endM (passed_bytes n s) = endM s" "lenM (passed_bytes n s) = lenM s" "uxfdM (passed_bytes n s) = uxfdM s"
  "buffer_activeM (passed_bytes n s) = buffer_activeM s" "auto_disableM (passed_bytes n s) = auto_disableM s"
  "offset_eofM (passed_bytes n s) = offset_eofM s" "v_endM (passed_bytes n s) = v_endM s" "uxfio_stateM (passed_bytes n s) = uxfio_stateM s"
  "buffertypeM (passed_bytes n s) = buffertypeM s"
  by (simp_all add: passed_bytes_def new_bytes_def)

text \<open>All of the buffer and new bytes.\<close>

lemma advance_all:
  assumes b: "buffer_ok s"
  shows "\<exists>s'. fix_buffer s (right_of s + int (length ms)) (ahead s @ ms) (int (length ms)) = Some (s', 0) \<and> buffer_ok s' \<and> ahead s' = [] \<and>
    same_source s s' \<and> (\<exists>x. behind s @ ahead s @ ms = x @ behind s') \<and> posM s' \<ge> min (lenM s) (endM s + int (length ms)) \<and> lenM s' \<ge> lenM s"
proof (cases "ms = []")
  case True
  have r: "right_of s = int (length (ahead s))" "endM s = posM s + int (length (ahead s))"
    using buffer_okE [OF b] by (metis bufferstate(2) add_diff_cancel_left' of_nat_add, metis of_nat_add)
  show ?thesis using advance_inside [OF b, of "length (ahead s)" "ahead s"] True r by (auto simp: same_source_def)
next
  case False
  then show ?thesis using fix_buffer_new [OF b] unfolding kept_after_def by blast
qed

text \<open>The bytes that follow on an object, and what a good read is.\<close>

definition object_rest :: "('w \<Rightarrow> char list) \<Rightarrow> uxfio \<times> 'w \<Rightarrow> char list" where
  "object_rest rest sw = (if buffer_activeM (fst sw) \<noteq> 0 then ahead (fst sw) else []) @ rest (snd sw)"

definition good_read :: "bool \<Rightarrow> ('w \<Rightarrow> char list) \<Rightarrow> ('w \<Rightarrow> bool) \<Rightarrow> uxfio \<Rightarrow> 'w \<Rightarrow> int \<Rightarrow> (uxfio \<times> 'w \<times> char list option) option \<Rightarrow> bool" where
  "good_read st rest ok s w n r \<longleftrightarrow> (\<exists>s' w' bs. r = Some (s', w', Some bs) \<and> object_ok st s' \<and> ok w' \<and>
     object_rest rest (s, w) = bs @ object_rest rest (s', w') \<and> int (length bs) \<le> n \<and>
     (n > 0 \<and> object_rest rest (s, w) \<noteq> [] \<longrightarrow> bs \<noteq> []) \<and> (buffer_activeM s \<noteq> 0 \<longrightarrow> passed s bs s'))"

lemma good_readI:
  "r = Some (s', w', Some bs) \<Longrightarrow> object_ok st s' \<Longrightarrow> ok w' \<Longrightarrow> object_rest rest (s, w) = bs @ object_rest rest (s', w') \<Longrightarrow> int (length bs) \<le> n \<Longrightarrow>
   (n > 0 \<and> object_rest rest (s, w) \<noteq> [] \<longrightarrow> bs \<noteq> []) \<Longrightarrow> (buffer_activeM s \<noteq> 0 \<longrightarrow> passed s bs s') \<Longrightarrow> good_read st rest ok s w n r"
  unfolding good_read_def by blast

text \<open>\<open>uxfio_read\<close> and \<open>uxfio_sfread\<close> of an object, as functions of a descriptor.\<close>

definition object_read :: "'w vir \<Rightarrow> uxfio \<times> 'w \<Rightarrow> int \<Rightarrow> char list option \<times> uxfio \<times> 'w" where
  "object_read vir sw n = (case uxfio_common_read vir (fst sw) (snd sw) n of Some (s, w, r) \<Rightarrow> (r, s, w) | None \<Rightarrow> (None, sw))"

definition object_sfread :: "'w vir \<Rightarrow> uxfio \<times> 'w \<Rightarrow> int \<Rightarrow> char list option \<times> uxfio \<times> 'w" where
  "object_sfread vir sw n = (case uxfio_common_safe_read vir (fst sw) (snd sw) n [] of Some (s, w, r) \<Rightarrow> (r, s, w) | None \<Rightarrow> (None, sw))"

text \<open>What an object needs of the descriptor below; of the second function only when that descriptor is an object too.\<close>

locale below = rd: byte_source "vir_readM vir" rest ok
  for vir :: "'w vir" and rest :: "'w \<Rightarrow> char list" and ok :: "'w \<Rightarrow> bool" +
  fixes st :: bool
  assumes tread: "st \<Longrightarrow> byte_source (vir_tread_readM vir) rest ok"
begin

lemma read_inside:
  assumes o: "object_ok st s" and w: "ok w" and n: "0 \<le> n" "n < INT_LIMIT" and a: "buffer_activeM s \<noteq> 0" "posM s < endM s"
  shows "good_read st rest ok s w n (read_in_buffer vir s w n)"
proof -
  have b: "buffer_ok s" using o a by (simp add: object_ok_def)
  have t: "buffertypeM s \<noteq> UXFIO_BUFTYPE_FILE" using b by (auto simp: buffer_ok_def buftypes)
  obtain r where r: "bufM s = behind s @ ahead s @ r" "posM s = int (length (behind s))" "endM s = int (length (behind s) + length (ahead s))"
    using buffer_okE [OF b] by metis
  have ri: "right_of s = int (length (ahead s))" "ahead s \<noteq> []" using r a(2) by (auto simp: bufferstate)
  have fb: "read_from_buffer s (int k) = Some (s, Some (take k (ahead s)))" if "k \<le> length (ahead s)" for k
    using t that r(1,2) by (simp add: read_from_buffer_def mem_read_def)
  show ?thesis
  proof (cases "n > right_of s")
    case True
    obtain ms w' where ms: "vir_readM vir w (n - right_of s) = (Some ms, w')" "ok w'" "rest w = ms @ rest w'" "int (length ms) \<le> n - right_of s"
      using rd.rd_some [OF w, of "n - right_of s"] True n by (metis add_increasing diff_ge_0_iff_ge diff_left_mono diff_zero le_less_trans less_imp_le of_nat_0_le_iff ri(1))
    let ?s = "new_bytes (int (length ms)) (passed_bytes (right_of s) s)"
    obtain s' where s': "fix_buffer ?s (right_of s + int (length ms)) (ahead s @ ms) (int (length ms)) = Some (s', 0)" "buffer_ok s'" "ahead s' = []"
      "same_source ?s s'" "\<exists>x. behind s @ ahead s @ ms = x @ behind s'" "posM s' \<ge> min (lenM s) (endM s + int (length ms))" "lenM s' \<ge> lenM s"
      using advance_all [of ?s ms] b by auto
    have e: "read_in_buffer vir s w n = Some (s', w', Some (ahead s @ ms))"
      using True ms(1) s'(1) fb [of "length (ahead s)"] o ri
      by (simp add: read_in_buffer_def object_ok_def Let_def add.commute)
    show ?thesis
    proof (rule good_readI [where ok = ok and st = st, OF e _ ms(2)])
      show "object_ok st s'" using o s'(2,4) by (auto simp: object_ok_def same_source_def)
      show "buffer_activeM s \<noteq> 0 \<longrightarrow> passed s (ahead s @ ms) s'"
        using s'(4-7) r a by (auto simp: passed_def same_source_def add.assoc)
    qed (use a ms(3,4) s'(3,4) ri True in \<open>auto simp: object_rest_def\<close>)
  next
    case False
    define k where "k = nat n"
    have k: "n = int k" "k \<le> length (ahead s)" using False n ri by (auto simp: k_def)
    let ?s = "passed_bytes n s"
    have f: "fix_buffer ?s (int k) (take k (ahead s)) 0 = Some (?s\<lparr>posM := posM s + int k\<rparr>, 0)" "buffer_ok (?s\<lparr>posM := posM s + int k\<rparr>)"
      "behind (?s\<lparr>posM := posM s + int k\<rparr>) = behind s @ take k (ahead s)" "ahead (?s\<lparr>posM := posM s + int k\<rparr>) = drop k (ahead s)"
      using advance_inside [of ?s k "take k (ahead s)"] b k(2) by auto
    have e: "read_in_buffer vir s w n = Some (?s\<lparr>posM := posM s + int k\<rparr>, w, Some (take k (ahead s)))"
      using False f(1) fb [OF k(2)] ri k by (auto simp: read_in_buffer_def Let_def)
    show ?thesis
      by (rule good_readI [where ok = ok and st = st, OF e _ w]) (use o f(2-4) a k ri in \<open>auto simp: object_ok_def object_rest_def passed_def\<close>)
  qed
qed

lemma read_past:
  assumes o: "object_ok st s" and w: "ok w" and n: "0 \<le> n" "n < INT_LIMIT" and a: "buffer_activeM s \<noteq> 0" "\<not> posM s < endM s"
  shows "good_read st rest ok s w n (read_past_buffer vir s w n)"
proof -
  have b: "buffer_ok s" using o a by (simp add: object_ok_def)
  obtain r where r: "posM s = int (length (behind s))" "endM s = int (length (behind s) + length (ahead s))"
    using buffer_okE [OF b] by metis
  have e: "ahead s = []" "right_of s = 0" using r a(2) by (auto simp: bufferstate)
  obtain ms w' where ms: "(if uxfio__get_state s \<noteq> 0 then vir_tread_readM vir w n else vir_readM vir w n) = (Some ms, w')" "ok w'"
    "rest w = ms @ rest w'" "int (length ms) \<le> n" "n > 0 \<and> rest w \<noteq> [] \<longrightarrow> ms \<noteq> []"
    using rd.rd_some [OF w n] byte_source.rd_some [OF tread w n] o by (cases "uxfio__get_state s \<noteq> 0") (auto simp: object_ok_def uxfio__get_state_def)
  let ?s = "new_bytes (int (length ms)) s"
  obtain s' where s': "fix_buffer ?s (int (length ms)) ms (int (length ms)) = Some (s', 0)" "buffer_ok s'" "ahead s' = []"
    "same_source ?s s'" "\<exists>x. behind s @ ms = x @ behind s'" "posM s' \<ge> min (lenM s) (posM s + int (length ms))" "lenM s' \<ge> lenM s"
    using advance_all [of ?s ms] b e r by auto
  let ?r = "if auto_disableM s' \<noteq> 0 then fst (set_bufactive (s'\<lparr>auto_disableM := 0\<rparr>) 0) else s'"
  have sb: "fst (set_bufactive (s'\<lparr>auto_disableM := 0\<rparr>) 0) = s'\<lparr>auto_disableM := 0, buffer_activeM := 0\<rparr>"
    using s'(2) by (auto simp: set_bufactive_def buffer_ok_def buftypes)
  have eq: "read_past_buffer vir s w n = Some (?r, w', Some ms)"
    using ms(1) s'(1) o by (simp add: read_past_buffer_def object_ok_def Let_def)
  show ?thesis
  proof (rule good_readI [where ok = ok and st = st, OF eq _ ms(2)])
    show "object_ok st ?r" unfolding sb using o s'(2,4) by (auto simp: object_ok_def same_source_def)
    show "buffer_activeM s \<noteq> 0 \<longrightarrow> passed s ms ?r" unfolding sb using s'(4-7) by (auto simp: passed_def same_source_def)
    show "object_rest rest (s, w) = ms @ object_rest rest (?r, w')" unfolding sb using a(1) e ms(3) s'(3,4) by (auto simp: object_rest_def same_source_def)
  qed (use e ms a(1) in \<open>auto simp: object_rest_def\<close>)
qed

text \<open>\<open>uxfio_common_read\<close> delivers bytes that follow, and leaves the object in front of the others.\<close>

lemma common_read:
  assumes o: "object_ok st s" and w: "ok w" and n: "0 \<le> n" "n < INT_LIMIT"
  shows "good_read st rest ok s w n (uxfio_common_read vir s w n)"
proof -
  have nv: "\<not> virtual_eof_active s" using o by (auto simp: object_ok_def virtual_eof_active_def)
  define t where "t = (if buffertypeM s = UXFIO_BUFTYPE_FILE \<or> buffertypeM s = UXFIO_BUFTYPE_DYNAMIC_MEM then s\<lparr>offset_eof_savedM := - 1\<rparr> else s)"
  have t: "object_ok st t" "buffer_activeM t = buffer_activeM s" "object_rest rest (t, x) = object_rest rest (s, x)" "posM t = posM s" "endM t = endM s"
    "passed t bs s' = passed s bs s'" for x bs s'
    using o by (auto simp: t_def object_ok_def object_rest_def passed_def)
  have e: "uxfio_common_read vir s w n =
     (if buffer_activeM t = 0 then (let (data, w) = vir_readM vir w n in case data of None \<Rightarrow> Some (t, w, None)
        | Some bs \<Rightarrow> Some (new_bytes (int (length bs)) t, w, Some bs))
      else if posM t < endM t then read_in_buffer vir t w n else read_past_buffer vir t w n)"
  proof (cases "buffertypeM s = UXFIO_BUFTYPE_FILE \<or> buffertypeM s = UXFIO_BUFTYPE_DYNAMIC_MEM")
    case True
    then have te: "t = s\<lparr>offset_eof_savedM := - 1\<rparr>" by (simp add: t_def)
    show ?thesis unfolding te using n nv True by (auto simp: uxfio_common_read_def enforce_veof_def Let_def)
  next
    case False
    then have te: "t = s" by (simp add: t_def)
    show ?thesis unfolding te using n o False by (simp add: uxfio_common_read_def object_ok_def Let_def)
  qed
  have same: "good_read st rest ok s w n r = good_read st rest ok t w n r" for r by (simp add: good_read_def t)
  show ?thesis
  proof (cases "buffer_activeM t = 0")
    case True
    obtain bs w' where r: "vir_readM vir w n = (Some bs, w')" "ok w'" "rest w = bs @ rest w'" "int (length bs) \<le> n" "n > 0 \<and> rest w \<noteq> [] \<longrightarrow> bs \<noteq> []"
      using rd.rd_some [OF w n] by blast
    have "uxfio_common_read vir s w n = Some (new_bytes (int (length bs)) t, w', Some bs)" using True r(1) e by simp
    then show ?thesis unfolding same
      by (rule good_readI) (use r True t(1) in \<open>auto simp: object_ok_def object_rest_def\<close>)
  next
    case False
    then show ?thesis unfolding same e using read_inside [OF t(1) w n] read_past [OF t(1) w n] by simp
  qed
qed

lemma common_readE:
  assumes "object_ok st s" "ok w" "0 \<le> n" "n < INT_LIMIT"
  obtains s' w' bs where "uxfio_common_read vir s w n = Some (s', w', Some bs)" "object_ok st s'" "ok w'"
    "object_rest rest (s, w) = bs @ object_rest rest (s', w')" "int (length bs) \<le> n" "n > 0 \<and> object_rest rest (s, w) \<noteq> [] \<longrightarrow> bs \<noteq> []"
    "buffer_activeM s \<noteq> 0 \<longrightarrow> passed s bs s'"
  using common_read [OF assms] unfolding good_read_def by blast

text \<open>Reading until nothing follows gives all bytes that were asked for, or all that follow.\<close>

lemma safe_read_loop:
  "object_ok st s \<Longrightarrow> ok w \<Longrightarrow> int n < INT_LIMIT \<Longrightarrow> length acc \<le> n \<Longrightarrow>
   \<exists>s' w'. uxfio_common_safe_read vir s w (int n) acc = Some (s', w', Some (acc @ take (n - length acc) (object_rest rest (s, w)))) \<and>
     object_ok st s' \<and> ok w' \<and> object_rest rest (s', w') = drop (n - length acc) (object_rest rest (s, w)) \<and>
     (buffer_activeM s \<noteq> 0 \<and> auto_disableM s = 0 \<longrightarrow> passed s (take (n - length acc) (object_rest rest (s, w))) s')"
proof (induction "n - length acc" arbitrary: s w acc rule: less_induct)
  case less
  show ?case
  proof (cases "length acc < n")
    case False
    then have "uxfio_common_safe_read vir s w (int n) acc = Some (s, w, Some acc)" by (subst uxfio_common_safe_read.simps) simp
    then show ?thesis using less.prems False by (auto simp: passed_def intro: exI [of _ "[]"])
  next
    case True
    let ?k = "n - length acc"
    have k: "0 \<le> int ?k" "int ?k < INT_LIMIT" using less.prems(3) by linarith+
    obtain s1 w1 bs where r: "uxfio_common_read vir s w (int ?k) = Some (s1, w1, Some bs)" "object_ok st s1" "ok w1"
      "object_rest rest (s, w) = bs @ object_rest rest (s1, w1)" "int (length bs) \<le> int ?k"
      "int ?k > 0 \<and> object_rest rest (s, w) \<noteq> [] \<longrightarrow> bs \<noteq> []" "buffer_activeM s \<noteq> 0 \<longrightarrow> passed s bs s1"
      using common_readE [OF less.prems(1,2) k] .
    have e: "uxfio_common_safe_read vir s w (int n) acc =
       (if bs = [] then Some (s1, w1, Some acc) else uxfio_common_safe_read vir s1 w1 (int n) (acc @ bs))"
      by (subst uxfio_common_safe_read.simps) (use True r(1) in \<open>simp add: of_nat_diff\<close>)
    show ?thesis
    proof (rule case_split [of "bs = []"])
      assume empty: "bs = []"
      then have a: "object_rest rest (s, w) = []" using r(6) True by auto
      then have b: "object_rest rest (s1, w1) = []" using r(4) by simp
      have "uxfio_common_safe_read vir s w (int n) acc = Some (s1, w1, Some acc)" unfolding e by (rule if_P [OF empty])
      then show ?thesis using r(2,3,7) empty by (simp add: a b)
    next
      assume some: "bs \<noteq> []"
      have "length bs > 0" using some by simp
      then have "n - length (acc @ bs) < n - length acc" "length (acc @ bs) \<le> n" using r(5) True unfolding length_append by linarith+
      from less.hyps [OF this(1) r(2,3) less.prems(3) this(2)] obtain s2 w2 where
        i: "uxfio_common_safe_read vir s1 w1 (int n) (acc @ bs) = Some (s2, w2, Some ((acc @ bs) @ take (n - length (acc @ bs)) (object_rest rest (s1, w1))))"
          "object_ok st s2" "ok w2" "object_rest rest (s2, w2) = drop (n - length (acc @ bs)) (object_rest rest (s1, w1))"
          "buffer_activeM s1 \<noteq> 0 \<and> auto_disableM s1 = 0 \<longrightarrow> passed s1 (take (n - length (acc @ bs)) (object_rest rest (s1, w1))) s2" by blast
      have t: "take ?k (object_rest rest (s, w)) = bs @ take (n - length (acc @ bs)) (object_rest rest (s1, w1))"
        "drop ?k (object_rest rest (s, w)) = drop (n - length (acc @ bs)) (object_rest rest (s1, w1))"
        unfolding r(4) using r(5) by auto
      have p: "passed s (bs @ cs) s2" if ps: "passed s bs s1" "passed s1 cs s2" for cs
      proof -
        obtain x y where "behind s @ bs = x @ behind s1" "behind s1 @ cs = y @ behind s2" using ps by (auto simp: passed_def)
        then have "behind s @ bs @ cs = (x @ y) @ behind s2" by (metis append.assoc)
        moreover have "posM s2 \<ge> min (lenM s) (posM s + int (length (bs @ cs)))" using ps unfolding passed_def length_append by linarith
        ultimately show ?thesis using ps unfolding passed_def by (metis order_trans)
      qed
      have "passed s (bs @ take (n - length (acc @ bs)) (object_rest rest (s1, w1))) s2" if "buffer_activeM s \<noteq> 0" "auto_disableM s = 0"
        using p r(7) [THEN mp, OF that(1)] i(5) that(2) by (simp add: passed_def [of s bs s1])
      then show ?thesis unfolding t e using some i(1-4) by simp
    qed
  qed
qed

lemma safe_read:
  assumes "object_ok st s" "ok w" "int n < INT_LIMIT"
  shows "\<exists>s' w'. uxfio_common_safe_read vir s w (int n) [] = Some (s', w', Some (take n (object_rest rest (s, w)))) \<and>
     object_ok st s' \<and> ok w' \<and> object_rest rest (s', w') = drop n (object_rest rest (s, w)) \<and>
     (buffer_activeM s \<noteq> 0 \<and> auto_disableM s = 0 \<longrightarrow> passed s (take n (object_rest rest (s, w))) s')"
  using safe_read_loop [OF assms, of "[]"] by simp

text \<open>The object is a source again: read once, and read until nothing follows.\<close>

lemma object_source: "byte_source (object_read vir) (object_rest rest) (\<lambda>(s, w). object_ok st s \<and> ok w)"
proof
  fix sw :: "uxfio \<times> 'w" and n
  assume a: "case sw of (s, w) \<Rightarrow> object_ok st s \<and> ok w" "0 \<le> n" "n < INT_LIMIT"
  obtain s w where sw: "sw = (s, w)" by (cases sw)
  obtain s' w' bs where r: "uxfio_common_read vir s w n = Some (s', w', Some bs)" "object_ok st s'" "ok w'"
    "object_rest rest (s, w) = bs @ object_rest rest (s', w')" "int (length bs) \<le> n" "n > 0 \<and> object_rest rest (s, w) \<noteq> [] \<longrightarrow> bs \<noteq> []"
    "buffer_activeM s \<noteq> 0 \<longrightarrow> passed s bs s'"
    using common_readE [of s w n] a sw by simp metis
  have "object_read vir sw n = (Some bs, (s', w'))" using r(1) by (simp add: sw object_read_def)
  then show "\<exists>bs sw'. object_read vir sw n = (Some bs, sw') \<and> (case sw' of (s, w) \<Rightarrow> object_ok st s \<and> ok w) \<and>
      object_rest rest sw = bs @ object_rest rest sw' \<and> int (length bs) \<le> n \<and> (n > 0 \<and> object_rest rest sw \<noteq> [] \<longrightarrow> bs \<noteq> [])"
    using r(2-6) by (auto simp: sw)
qed

lemma object_safe_source: "byte_source (object_sfread vir) (object_rest rest) (\<lambda>(s, w). object_ok st s \<and> ok w)"
proof
  fix sw :: "uxfio \<times> 'w" and n :: int
  assume a: "case sw of (s, w) \<Rightarrow> object_ok st s \<and> ok w" "0 \<le> n" "n < INT_LIMIT"
  obtain s w where sw: "sw = (s, w)" by (cases sw)
  define k where "k = nat n"
  have k: "n = int k" "int k < INT_LIMIT" using a by (simp_all add: k_def)
  obtain s' w' where r: "uxfio_common_safe_read vir s w (int k) [] = Some (s', w', Some (take k (object_rest rest (s, w))))"
    "object_ok st s'" "ok w'" "object_rest rest (s', w') = drop k (object_rest rest (s, w))"
    using safe_read [of s w k] a k sw by auto
  have "object_sfread vir sw n = (Some (take k (object_rest rest sw)), (s', w'))" using r(1) k by (simp add: sw object_sfread_def)
  then show "\<exists>bs sw'. object_sfread vir sw n = (Some bs, sw') \<and> (case sw' of (s, w) \<Rightarrow> object_ok st s \<and> ok w) \<and>
      object_rest rest sw = bs @ object_rest rest sw' \<and> int (length bs) \<le> n \<and> (n > 0 \<and> object_rest rest sw \<noteq> [] \<longrightarrow> bs \<noteq> [])"
    using r(2-4) k by (auto simp: sw)
qed

end

text \<open>Going back inside of an active buffer puts the bytes ahead again.\<close>

lemma seek_back:
  assumes o: "object_ok st s" and a: "buffer_activeM s \<noteq> 0" and k: "k \<le> length (behind s)"
  shows "\<exists>s'. uxfio_lseek vir s w (- int k) SEEK_CUR = Some (s', w, posM s - int k) \<and> object_ok st s' \<and> buffer_activeM s' \<noteq> 0 \<and>
    behind s' = take (length (behind s) - k) (behind s) \<and> ahead s' = drop (length (behind s) - k) (behind s) @ ahead s"
proof -
  have b: "buffer_ok s" using o a by (simp add: object_ok_def)
  obtain r where r: "bufM s = behind s @ ahead s @ r" "posM s = int (length (behind s))" "endM s = int (length (behind s) + length (ahead s))"
    "lenM s + 1 = int (length (behind s) + length (ahead s) + length r)" "r \<noteq> []" using buffer_okE [OF b] .
  have t: "buffertypeM s \<noteq> UXFIO_BUFTYPE_FILE" "buffertypeM s = UXFIO_BUFTYPE_MEM \<or> buffertypeM s = UXFIO_BUFTYPE_DYNAMIC_MEM"
    using b by (auto simp: buffer_ok_def buftypes)
  let ?s = "move_position (- int k) s" and ?i = "length (behind s) - k"
  have m: "buffer_ok ?s \<and> behind ?s = take ?i (behind s) \<and> ahead ?s = drop ?i (behind s) @ ahead s"
    by (rule buffer_okI [where r = r]) (use r k t(2) in \<open>auto simp: move_position_def passed_bytes_def\<close>)
  have p: "lseek_offset s (- int k) SEEK_CUR = (s, Inr (- int k, SEEK_CUR, False))" by (simp add: lseek_offset_def)
  have l: "lseek_ladder vir s w (- int k) SEEK_CUR (- int k) SEEK_CUR = Some (if k = 0 then s else ?s, w, Inr (posM s - int k))"
    using t(1) r(2) k by (auto simp: lseek_ladder_def bufferstate seek_inside_def seek_buffer_file_def seek_nowhere_def Let_def
        move_position_def passed_bytes_def whences)
  have "uxfio_lseek vir s w (- int k) SEEK_CUR = Some (if k = 0 then s else ?s, w, posM s - int k)"
    unfolding uxfio_lseek_def p using a l by simp
  moreover have "object_ok st ?s" using o m by (auto simp: object_ok_def move_position_def passed_bytes_def)
  ultimately show ?thesis using o a m by (cases "k = 0") (auto simp: move_position_def passed_bytes_def)
qed

section \<open>The descriptors of the system\<close>

text \<open>What a descriptor of the system delivers, read by read: a piece of bytes, an interruption, a failure; then the end. A read takes as
  much of a piece as it has room for.\<close>

datatype delivery = Delivered "char list" | Interrupted | Failing
datatype read_result = Got "char list" | Eintr | Failed_read

fun unix_read :: "delivery list \<Rightarrow> int \<Rightarrow> read_result \<times> delivery list" where
  "unix_read [] n = (Got [], [])"
| "unix_read (Interrupted # ds) n = (Eintr, ds)"
| "unix_read (Failing # ds) n = (Failed_read, ds)"
| "unix_read (Delivered c # ds) n = (Got (take (nat n) c), if int (length c) \<le> n then ds else Delivered (drop (nat n) c) # ds)"

lemma unix_read_Eintr: "unix_read ds n = (Eintr, ds') \<Longrightarrow> length ds' < length ds"
  by (cases "(ds, n)" rule: unix_read.cases) auto

text \<open>\<open>safeio\<close> tries again after an interruption. \<open>atomicio\<close> reads in pieces of at most 512 bytes until it has all; when a read gives nothing
  it returns 0, whatever it has got before.\<close>

function safeio :: "delivery list \<Rightarrow> int \<Rightarrow> char list option \<times> delivery list" where
  "safeio ds n = (case unix_read ds n of
     (Eintr, ds') \<Rightarrow> safeio ds' n
   | (Failed_read, ds') \<Rightarrow> (None, ds')
   | (Got bs, ds') \<Rightarrow> (Some bs, ds'))"
  by pat_completeness auto
termination
  by (relation "measure (\<lambda>(ds, n). length ds)") (auto dest: unix_read_Eintr [OF sym])

function atomicio :: "delivery list \<Rightarrow> int \<Rightarrow> char list \<Rightarrow> char list option \<times> delivery list" where
  "atomicio ds n got =
     (if int (length got) < n then
        (case safeio ds (if n - int (length got) > 512 then 512 else n - int (length got)) of
           (None, ds) \<Rightarrow> (None, ds)
         | (Some bs, ds) \<Rightarrow> if bs = [] then (Some [], ds) else atomicio ds n (got @ bs))
      else (Some got, ds))"
  by pat_completeness auto
termination
  by (relation "measure (\<lambda>(ds, n, got). nat (n - int (length got)))") (auto simp: neq_Nil_conv)

declare safeio.simps [simp del] atomicio.simps [simp del]

text \<open>The functions of the system that an object uses; only reading is looked at here.\<close>

definition unix_vir :: "delivery list vir" where
  "unix_vir = \<lparr>vir_readM = safeio, vir_tread_readM = (\<lambda>ds n. atomicio ds n []), vir_writeM = (\<lambda>ds bs. (- 1, ds)),
     vir_lseekM = (\<lambda>ds offset whence. (- 1, ds)), vir_fsyncM = (\<lambda>ds. (0, ds)), vir_fcntlM = (\<lambda>ds cmd value. (- 1, ds))\<rparr>"

definition delivered :: "delivery list \<Rightarrow> char list" where
  "delivered ds = concat (map (\<lambda>d. case d of Delivered c \<Rightarrow> c | _ \<Rightarrow> []) ds)"

text \<open>No failure, and no empty piece: that would be the end.\<close>

definition delivers :: "delivery list \<Rightarrow> bool" where
  "delivers ds \<longleftrightarrow> Failing \<notin> set ds \<and> Delivered [] \<notin> set ds"

lemma delivered_simps [simp]:
  "delivered [] = []" "delivered (Delivered c # ds) = c @ delivered ds" "delivered (Interrupted # ds) = delivered ds"
  "delivers []" "delivers (Delivered c # ds) \<longleftrightarrow> c \<noteq> [] \<and> delivers ds" "delivers (Interrupted # ds) = delivers ds" "\<not> delivers (Failing # ds)"
  by (auto simp: delivered_def delivers_def)

lemma safeio_reads:
  assumes "delivers ds" "0 \<le> n"
  shows "\<exists>bs ds'. safeio ds n = (Some bs, ds') \<and> delivers ds' \<and> delivered ds = bs @ delivered ds' \<and> int (length bs) \<le> n \<and>
    (n > 0 \<and> delivered ds \<noteq> [] \<longrightarrow> bs \<noteq> [])"
  using assms
proof (induction ds)
  case Nil
  then show ?case by (subst safeio.simps) simp
next
  case (Cons d ds)
  show ?case
  proof (cases d)
    case (Delivered c)
    then show ?thesis using Cons.prems by (subst safeio.simps) auto
  next
    case Interrupted
    then show ?thesis using Cons by (subst safeio.simps) simp
  next
    case Failing
    then show ?thesis using Cons.prems by simp
  qed
qed

text \<open>\<open>atomicio\<close> from the bytes it has got already.\<close>

lemma atomicio_reads:
  "delivers ds \<Longrightarrow> length got \<le> n \<Longrightarrow> \<exists>ds'. atomicio ds (int n) got =
     (Some (if length (delivered ds) < n - length got then [] else got @ take (n - length got) (delivered ds)), ds') \<and>
     delivered ds' = drop (n - length got) (delivered ds)"
proof (induction "n - length got" arbitrary: ds got rule: less_induct)
  case less
  show ?case
  proof (cases "length got < n")
    case False
    then show ?thesis using less.prems by (subst atomicio.simps) simp
  next
    case True
    define rq where "rq = (if int n - int (length got) > 512 then 512 else int n - int (length got))"
    have rq: "0 < rq" "rq \<le> int (n - length got)" using True by (auto simp: rq_def)
    obtain bs ds1 where r: "safeio ds rq = (Some bs, ds1)" "delivers ds1" "delivered ds = bs @ delivered ds1" "int (length bs) \<le> rq"
      "rq > 0 \<and> delivered ds \<noteq> [] \<longrightarrow> bs \<noteq> []"
      using safeio_reads [OF less.prems(1) less_imp_le [OF rq(1)]] by blast
    have e: "atomicio ds (int n) got = (if bs = [] then (Some [], ds1) else atomicio ds1 (int n) (got @ bs))"
      by (subst atomicio.simps) (use True r(1) in \<open>simp add: rq_def\<close>)
    show ?thesis
    proof (rule case_split [of "bs = []"])
      assume b: "bs = []"
      have d: "delivered ds = []" using r(5) rq(1) b by simp
      then have "delivered ds1 = []" using r(3) by simp
      then show ?thesis using e b True d by simp
    next
      assume b: "bs \<noteq> []"
      then have "length bs > 0" by simp
      then have l: "n - length (got @ bs) < n - length got" "length (got @ bs) \<le> n" "length bs \<le> n - length got"
        using r(4) rq(2) True unfolding length_append by linarith+
      show ?thesis using less.hyps [OF l(1) r(2) l(2)] e b r(3) l(3) by (auto simp: less_diff_conv)
    qed
  qed
qed

interpretation unix: below unix_vir delivered delivers False
  by unfold_locales (simp_all add: unix_vir_def safeio_reads)

text \<open>An object on top of an object, as \<open>uxfio_opendup\<close> makes it.\<close>

definition object_vir :: "'w vir \<Rightarrow> (uxfio \<times> 'w) vir" where
  "object_vir vir = \<lparr>vir_readM = object_read vir, vir_tread_readM = object_sfread vir,
     vir_writeM = (\<lambda>(s, w) bs. case uxfio_write vir s w bs of Some (s, w, n) \<Rightarrow> (n, s, w) | None \<Rightarrow> (- 1, s, w)),
     vir_lseekM = (\<lambda>(s, w) offset whence. case uxfio_lseek vir s w offset whence of Some (s, w, n) \<Rightarrow> (n, s, w) | None \<Rightarrow> (- 1, s, w)),
     vir_fsyncM = (\<lambda>(s, w). case uxfio_fsync vir s w of Some (s, w, n) \<Rightarrow> (n, s, w) | None \<Rightarrow> (- 1, s, w)),
     vir_fcntlM = (\<lambda>(s, w) cmd value. case uxfio_fcntl vir s w cmd value of Some (s, w, n) \<Rightarrow> (n, s, w) | None \<Rightarrow> (- 1, s, w))\<rparr>"

interpretation stacked: below "object_vir unix_vir" "object_rest delivered" "\<lambda>(s, w). object_ok False s \<and> delivers w" True
  by (intro below.intro below_axioms.intro) (simp_all add: object_vir_def unix.object_source unix.object_safe_source)

section \<open>What readers can rely on\<close>


definition sample_object :: "int \<Rightarrow> uxfio" where
  "sample_object len = (opened_unattached UXFIO_FD_MIN)\<lparr>uxfdM := 3, buffer_activeM := 1, lenM := len, bufM := replicate (nat len + 1) NUL\<rparr>"

lemma sample_object_ok: "len \<ge> 0 \<Longrightarrow> object_ok False (sample_object len) \<and> ahead (sample_object len) = [] \<and> behind (sample_object len) = [] \<and>
    buffer_activeM (sample_object len) \<noteq> 0 \<and> auto_disableM (sample_object len) = 0 \<and> lenM (sample_object len) = len"
  by (simp add: sample_object_def opened_unattached_def new_uxfio_def object_ok_def buffer_ok_def UXFIO_NULL_FD_def behind_def ahead_def)


text \<open>C15: An object in front of an object in front of a descriptor of the system delivers the same bytes: the two buffers together hold what
  was read ahead, and nothing is lost or repeated between them.\<close>

theorem stacked_reads_stream:
  assumes "object_ok True s" "object_ok False s0" "delivers ds" "int n < INT_LIMIT"
  shows "\<exists>s' s0' ds'. uxfio_common_safe_read (object_vir unix_vir) s (s0, ds) (int n) [] =
      Some (s', (s0', ds'), Some (take n (object_rest (object_rest delivered) (s, s0, ds)))) \<and>
    object_rest (object_rest delivered) (s', s0', ds') = drop n (object_rest (object_rest delivered) (s, s0, ds))"
proof -
  have "(\<lambda>(s, w). object_ok False s \<and> delivers w) (s0, ds)" using assms(2,3) by simp
  from stacked.safe_read [OF assms(1) this assms(4)] show ?thesis by auto
qed

lemma stacked_reads_stream_witness:
  "\<exists>s' s0' ds'. uxfio_common_safe_read (object_vir unix_vir) (sample_object 4) (sample_object 2, [Delivered ''abc'', Delivered ''defg'']) 5 [] =
     Some (s', (s0', ds'), Some ''abcde'')"
proof -
  have o: "object_ok True (sample_object 4)" using sample_object_ok [of 4] by (simp add: object_ok_def)
  have r: "object_rest (object_rest delivered) (sample_object 4, sample_object 2, [Delivered ''abc'', Delivered ''defg'']) = ''abcdefg''"
    using sample_object_ok [of 4] sample_object_ok [of 2] by (simp add: object_rest_def)
  have "object_ok False (sample_object 2)" "delivers [Delivered ''abc'', Delivered ''defg'']" "int 5 < INT_LIMIT" using sample_object_ok [of 2] by simp_all
  from stacked_reads_stream [OF o this] show ?thesis unfolding r by auto
qed

text \<open>C16: What was read through an active buffer can be read again: after going back by as many bytes as were read, the same read returns the
  same bytes, as long as they are not more than the length of the buffer. The descriptor below need not be able to seek.\<close>

theorem buffer_reread:
  assumes "object_ok False s" "delivers ds" "buffer_activeM s \<noteq> 0" "auto_disableM s = 0" "int n \<le> lenM s" "int n < INT_LIMIT"
  shows "\<exists>s1 ds1 bs s2. uxfio_common_safe_read unix_vir s ds (int n) [] = Some (s1, ds1, Some bs) \<and>
    uxfio_lseek unix_vir s1 ds1 (- int (length bs)) SEEK_CUR = Some (s2, ds1, posM s1 - int (length bs)) \<and>
    (\<exists>s3 ds3. uxfio_common_safe_read unix_vir s2 ds1 (int n) [] = Some (s3, ds3, Some bs))"
proof -
  let ?bs = "take n (object_rest delivered (s, ds))"
  obtain s1 ds1 where r: "uxfio_common_safe_read unix_vir s ds (int n) [] = Some (s1, ds1, Some ?bs)" "object_ok False s1" "delivers ds1"
    "object_rest delivered (s1, ds1) = drop n (object_rest delivered (s, ds))" "passed s ?bs s1"
    using unix.safe_read [OF assms(1,2,6)] assms(3,4) by auto
  obtain x where x: "behind s @ ?bs = x @ behind s1" using r(5) by (auto simp: passed_def)
  have a: "buffer_activeM s1 \<noteq> 0" using r(5) assms(4) by (simp add: passed_def)
  have p: "posM s1 = int (length (behind s1))" "0 \<le> posM s"
    using buffer_okE [of s1] r(2) a assms(1,3) by (auto simp: object_ok_def buffer_ok_def elim: buffer_okE)
  have k: "length ?bs \<le> length (behind s1)"
  proof -
    have "length ?bs \<le> n" by simp
    moreover have "posM s1 \<ge> min (lenM s) (posM s + int (length ?bs))" using r(5) by (simp only: passed_def)
    ultimately show ?thesis using assms(5) p by linarith
  qed
  have e: "drop (length (behind s1) - length ?bs) (behind s1) = ?bs"
  proof -
    have "?bs = drop (length (behind s)) (behind s @ ?bs)" by simp
    also have "\<dots> = drop (length (x @ behind s1) - length ?bs) (x @ behind s1)" unfolding x [symmetric] by simp
    also have "\<dots> = drop (length (behind s1) - length ?bs) (behind s1)" using k by simp
    finally show ?thesis by simp
  qed
  obtain s2 where s2: "uxfio_lseek unix_vir s1 ds1 (- int (length ?bs)) SEEK_CUR = Some (s2, ds1, posM s1 - int (length ?bs))" "object_ok False s2"
    "buffer_activeM s2 \<noteq> 0" "ahead s2 = ?bs @ ahead s1"
    using seek_back [OF r(2) a k, of unix_vir ds1] unfolding e by blast
  have "object_rest delivered (s2, ds1) = ?bs @ object_rest delivered (s1, ds1)" using s2(3,4) a by (simp add: object_rest_def)
  then have t: "take n (object_rest delivered (s2, ds1)) = ?bs" unfolding r(4) by simp
  obtain s3 ds3 where "uxfio_common_safe_read unix_vir s2 ds1 (int n) [] = Some (s3, ds3, Some ?bs)"
    using unix.safe_read [OF s2(2) r(3) assms(6)] unfolding t by blast
  then show ?thesis using r(1) s2(1) by blast
qed

lemma buffer_reread_witness:
  "\<exists>s1 ds1 s2. uxfio_common_safe_read unix_vir (sample_object 8) [Delivered ''abc'', Delivered ''def''] 5 [] = Some (s1, ds1, Some ''abcde'') \<and>
     (\<exists>s3 ds3. uxfio_common_safe_read unix_vir s2 ds1 5 [] = Some (s3, ds3, Some ''abcde''))"
proof -
  let ?ds = "[Delivered ''abc'', Delivered ''def'']"
  have h: "object_ok False (sample_object 8)" "delivers ?ds" "buffer_activeM (sample_object 8) \<noteq> 0" "auto_disableM (sample_object 8) = 0"
    "int 5 \<le> lenM (sample_object 8)" "int 5 < INT_LIMIT" using sample_object_ok [of 8] by simp_all
  have r: "object_rest delivered (sample_object 8, ?ds) = ''abcdef''" using sample_object_ok [of 8] by (simp add: object_rest_def)
  obtain s1 ds1 bs s2 where e: "uxfio_common_safe_read unix_vir (sample_object 8) ?ds (int 5) [] = Some (s1, ds1, Some bs)"
    "\<exists>s3 ds3. uxfio_common_safe_read unix_vir s2 ds1 (int 5) [] = Some (s3, ds3, Some bs)"
    using buffer_reread [OF h] by blast
  have "bs = ''abcde''" using unix.safe_read [OF h(1,2,6)] e(1) unfolding r by auto
  then show ?thesis using e by auto
qed

text \<open>C31: \<open>atomicio\<close>, with which \<open>uxfio_sfa_read\<close> reads from a descriptor of the system itself, returns what is asked for when that much
  follows. When less follows it returns 0, and the bytes that it has read are lost.\<close>

theorem atomicio_loses_short_end:
  assumes "delivers ds"
  shows "\<exists>ds'. atomicio ds (int n) [] = (Some (if length (delivered ds) < n then [] else take n (delivered ds)), ds') \<and>
    delivered ds' = drop n (delivered ds)"
  using atomicio_reads [OF assms, of "[]" n] by (cases "length (delivered ds) < n") auto

lemma atomicio_loses_short_end_witness:
  "\<exists>ds'. atomicio [Delivered ''abc'', Interrupted, Delivered ''de''] 6 [] = (Some [], ds') \<and> delivered ds' = []"
  using atomicio_loses_short_end [of "[Delivered ''abc'', Interrupted, Delivered ''de'']" 6] by simp

end
