(* ===== verification/Spec2Isabelle.thy ===== *)
theory Spec2Isabelle
  imports Strob_Tokens StrobOps Strar TarArchive SwVerid UxfioMem UxfioStream
begin

text \<open>
  The archive layer of swbis, the part of its C sources below \<open>src/swsupplib\<close> that every utility uses to
  read and write software packages. A package is a tar (or cpio) archive; the utilities keep each member
  in a \<open>new_cpio_header\<close>, reached through the \<open>AHS\<close> accessors, and translate it from and to 512 byte
  tar records. Strings live in growing buffers (\<open>STROB\<close>), tables of pointers in \<open>CPLOB\<close> lists.

  How C is represented (\<open>Prelude\<close>). A block of memory is a list of characters, and an access outside
  of it is \<^term>\<open>None\<close>; so a theorem that an operation returns \<^term>\<open>Some\<close> is also a theorem that it stays inside
  its blocks. A \<open>char *\<close> argument is the list of its characters. Fixed width integers are words, \<open>int\<close>
  arithmetic that the code relies on is \<open>int\<close> reduced by \<open>c_int\<close>. \<open>malloc\<close> does not fail; the content of
  fresh memory is a byte no theorem looks at. The state of the system (passwd and group databases, the
  clock, the input of a descriptor) is a parameter.

  The parts, in the order in which they are built.

  \<^item> \<open>Strob\<close>, \<open>Strob_Bytes\<close>, \<open>Strob_Tokens\<close>: \<open>strob/strob.c\<close>. The record \<open>strob\<close> is the struct \<open>STROB\<close>. The
    lemmas show that \<open>strob_wf\<close> is kept and that each operation acts as the corresponding operation on
    strings (\<open>strob_holds\<close>) or on bytes (\<open>strob_bytes\<close>), and that \<open>strob_strtok\<close> splits a string. In \<open>StrobOps\<close>
    any sequence of operations on one buffer refines the same sequence on a string.
  \<^item> \<open>Cplob\<close>: \<open>cplob/cplob.c\<close> and \<open>cplob/vplob.c\<close>. The locales \<open>nta_view\<close> and \<open>nta_list\<close> state what
    the clients of a null terminated list rely on: reading by index up to the end, and appending. They
    are interpreted on \<open>CPLOB\<close>, on the string array and on the hard link table.
  \<^item> \<open>Strar\<close>: \<open>misc/strar.c\<close>, strings packed into one buffer with a list of their offsets.
  \<^item> \<open>Hllist\<close>: \<open>taru/hllist.c\<close>, the table of hard links.
  \<^item> \<open>ToOct\<close>: \<open>taru/to_oct.c\<close> and the scanners of \<open>taru/otar.c\<close>. Fields of octal digits, of base 256 digits
    and of decimal digits; what is written is read back, and values out of range are substituted.
  \<^item> \<open>Sysdb\<close>: the cache of user and group names of \<open>taru/otar.c\<close>, shown to be transparent for the
    lookups that find their answer, and shown not to be for the ones that fail.
  \<^item> \<open>Ahs\<close>: \<open>taru/ahs.c\<close> and the creation of headers in \<open>taru/taru.c\<close>.
  \<^item> \<open>TarHeader\<close>: the fields of a tar record: names, checksum, type flag, padding (\<open>taru/otar.c\<close>,
    \<open>taru/mtar.c\<close>).
  \<^item> \<open>Taru\<close>: the object \<open>TARU\<close>, recording of headers, policies, and the limits of the ustar format
    (\<open>taru/taru.c\<close>).
  \<^item> \<open>TarWrite\<close>, \<open>TarRead\<close>: \<open>taru_write_out_tar_header2\<close> and \<open>i_taru_read_in_tar_header2\<close> of \<open>taru/otar.c\<close>.
    A header within the limits of the format (\<open>ustar_ok\<close>) is written and read back.
  \<^item> \<open>Pax\<close>: extended headers, their construction (\<open>taru/copyout.c\<close>) and interpretation
    (\<open>taru/readinheader.c\<close>). \<open>PaxRecords\<close> shows that the records written for a header, when they are
    read and applied, override the header with the values written, and where they do not.
  \<^item> \<open>Tape\<close>: the pump and the copy with digests (\<open>misc/swlib.c\<close>), padding and data of members
    (\<open>taru/copyout.c\<close>, \<open>taru/readinheader.c\<close>) and the pass through buffer (\<open>taru/taruib.c\<close>). A descriptor that is
    read is the list of its bytes; a descriptor that is written is a result. Copies are exact, and what is
    written for a member is what a reader skips.
  \<^item> \<open>Cpio\<close>: the headers of cpio archives and the trailers (\<open>taru/copyout.c\<close>, \<open>taru/readinheader.c\<close>,
    \<open>taru/copyinnew.c\<close>, \<open>taru/copyinold.c\<close>), with their round trips.
  \<^item> \<open>TarStream\<close>: \<open>i_taru_read_in_tar_header2\<close> and \<open>taru_read_in_tar_header2\<close> (\<open>taru/otar.c\<close>) in full, with the
    data of extended headers (\<open>taru_read_pax_data_blocks\<close> of \<open>taru/taru.c\<close>). A member that was written with
    extended records, or whose long names precede it, is read from the stream of the archive; the end of
    the archive is recognised.
  \<^item> \<open>Etar\<close>: \<open>taru/etar.c\<close>, headers set field by field.
  \<^item> \<open>Porinode\<close>: \<open>taru/porinode.c\<close>, inode numbers for members that come from no file system; they are unique
    per file. \<open>Defer\<close>: \<open>taru/defer.c\<close>, the hard links of cpio archives, which are put aside until the last link of
    the file is written. \<open>Statbuf\<close>: the conversions between \<open>struct stat\<close> and a header (\<open>taru/mtar.c\<close>).
  \<^item> \<open>TarMember\<close>: the writing of a member with its header, the GNU or pax records in front of it, its hard links
    and its data (\<open>taru/copyout.c\<close>, \<open>taru_write_long_link_member\<close> of \<open>taru/mtar.c\<close>).
  \<^item> \<open>TarArchive\<close>: whole archives. The locale \<open>member_writer\<close> states what an archive needs of the function that
    writes a member; from it follows that members, data and trailer are read back in order. It is interpreted on
    \<open>taru_write_archive_member\<close>. The client that reads (\<open>read_archive\<close>) is the loop every reader of the program runs:
    header, data, padding, until the end is reported.
  \<^item> \<open>SwlibPath\<close>: the path names of \<open>misc/swlib.c\<close>. The locale \<open>toggle\<close> states the contract of the four functions that take
    characters away from a buffer and put them back; it is interpreted on each of them, and from it follows that a comparison
    of paths leaves its arguments unchanged. \<open>SwlibEscape\<close>: the escape sequences of \<open>misc/swlib.c\<close>, which are put in and
    recovered when the buffer is fresh, and are not when it was used before.
  \<^item> \<open>Vercmp\<close>: \<open>misc/vercmp.c\<close>, the order of versions, and where it is none. \<open>SwVerid\<close>: \<open>misc/swverid.c\<close> and \<open>misc/swuts.c\<close>,
    software specifications: tags, version ids and alternates. What is created is well formed, what is printed opens as what it was.
  \<^item> \<open>Uxfio\<close>: \<open>uxfio/uxfio.c\<close>, the objects behind virtual descriptors: a buffer in memory or in a temporary file in front of
    a descriptor, reached through the functions stored in the object (the record \<open>vir\<close>). \<open>UxfioMem\<close>: objects that have
    only a buffer are files in memory; writing, reading and seeking refine the operations of a file, and where seeking and truncating do not.
    \<open>UxfioStream\<close>: the locale \<open>byte_source\<close> states what a reader needs of the function below it, and \<open>below\<close> holds the theory of
    an object in front of one. It is interpreted on the descriptors of the system (\<open>progressmeter/atomicio.c\<close>) and on
    an object in front of another. This justifies the function \<open>uxfio_sfa_read\<close> of \<open>Tape\<close> for virtual descriptors.

  Loops that the code may never leave are \<open>partial_function (option)\<close>, for which not returning is
  \<^term>\<open>None\<close>; no definition uses fuel. The bounds that occur in theorems are those of the code: 31 bits for
  buffer sizes (\<open>strob_room\<close>), 100, 155 and 256 characters for names, 7 and 11 octal digits.

  Not modelled: the utilities (\<open>swprogs\<close>), which are processes and pipes around this layer; the
  metadata parser (\<open>sw_parse\<close>, yacc and lex); the table of virtual descriptors of \<open>uxfio\<close> with its use
  counts and closing; rpm translation, which
  rests on a vendored library; the C++ packager (\<open>swstructlib\<close>). I/O errors of descriptors are modelled in \<open>Uxfio\<close> only. A write to the standard error stream has no effect in the model.
\<close>

end
